(* ===== verification/Prelude.thy ===== *)
theory Prelude
  imports Main "HOL-Library.AList" "HOL-Library.Sublist"
begin

text \<open>
  What every component of the development shares: the text conventions of the
  JavaScript code, and the generic lemmas that carry the component proofs.

  \<^item> A JavaScript string is modelled by the bytes of its UTF-8 encoding, a HOL
    \<^typ>\<open>string\<close>. Every string operation the code uses works on ASCII delimiters
    or on whole code points, so working on the bytes gives the same results: splitting at
    an ASCII character, testing and dropping an ASCII prefix, comparing, concatenating,
    trimming (the white space code points are listed with their UTF-8 bytes) and percent
    coding. Strings with lone surrogates, which have no UTF-8 form, are outside the model.
  \<^item> A JavaScript \<open>Map\<close> or a plain object used as a dictionary is an association list
    updated in place by \<^const>\<open>AList.update\<close>: a known key keeps its slot and a new
    key goes to the end, which is the iteration order of a \<open>Map\<close>. Where the order is
    never observed it is a map.
  \<^item> A non-negative integer \<open>number\<close> is a \<^typ>\<open>nat\<close>; where a digit string is read
    by \<open>Number(...)\<close> the rounding to a 53-bit significand is written out.
  \<^item> A \<open>throw\<close> is the \<open>Inl\<close> of a sum type.
\<close>

named_theorems js_text \<open>rewrite rules of the text operations\<close>

section \<open>Prefixes, splitting, joining\<close>

definition startsWith :: "string \<Rightarrow> string \<Rightarrow> bool" where
  "startsWith s p \<longleftrightarrow> take (length p) s = p"

text \<open>\<open>s.split(c)\<close> for a one-character separator: always at least one part.\<close>

fun split_on :: "char \<Rightarrow> string \<Rightarrow> string list" where
  "split_on c [] = [[]]"
| "split_on c (x # xs) =
     (if x = c then [] # split_on c xs
      else (case split_on c xs of [] \<Rightarrow> [[x]] | p # ps \<Rightarrow> (x # p) # ps))"

text \<open>\<open>parts.join(sep)\<close>.\<close>

fun join_with :: "string \<Rightarrow> string list \<Rightarrow> string" where
  "join_with sep [] = []"
| "join_with sep [p] = p"
| "join_with sep (p # q # ps) = p @ sep @ join_with sep (q # ps)"

lemma startsWith_append [simp]: "startsWith (p @ s) p"
  by (simp add: startsWith_def)

lemma startsWith_Nil [simp]: "startsWith s []"
  by (simp add: startsWith_def)

lemma startsWith_Cons [simp]: "startsWith (x # s) (y # p) \<longleftrightarrow> x = y \<and> startsWith s p"
  by (auto simp: startsWith_def)

lemma startsWith_Nil_left [simp]: "startsWith [] p \<longleftrightarrow> p = []"
  by (auto simp: startsWith_def)

lemma startsWithE:
  assumes "startsWith s p"
  obtains r where "s = p @ r"
  using assms by (metis append_take_drop_id startsWith_def)

lemma startsWith_iff_prefix: "startsWith s p \<longleftrightarrow> (\<exists>r. s = p @ r)"
  by (metis startsWithE startsWith_append)

lemma split_on_ne [simp]: "split_on c s \<noteq> []"
  by (induction s) (auto split: list.splits)

lemma join_split_on: "join_with [c] (split_on c s) = s"
proof (induction s)
  case Nil
  show ?case by simp
next
  case (Cons x xs)
  obtain p ps where ps: "split_on c xs = p # ps"
    using split_on_ne by (metis neq_Nil_conv)
  with Cons show ?case by (cases ps) auto
qed

lemma split_on_no_sep: "c \<notin> set s \<Longrightarrow> split_on c s = [s]"
  by (induction s) auto

lemma split_on_append: "c \<notin> set p \<Longrightarrow> split_on c (p @ c # s) = p # split_on c s"
  by (induction p) auto

lemma split_join:
  "ps \<noteq> [] \<Longrightarrow> (\<forall>p \<in> set ps. c \<notin> set p) \<Longrightarrow> split_on c (join_with [c] ps) = ps"
  by (induction "[c]" ps rule: join_with.induct)
    (auto simp: split_on_no_sep split_on_append)

lemma split_on_parts_no_sep: "p \<in> set (split_on c s) \<Longrightarrow> c \<notin> set p"
proof (induction s arbitrary: p)
  case Nil
  then show ?case by simp
next
  case (Cons x xs)
  obtain q qs where qs: "split_on c xs = q # qs"
    using split_on_ne by (metis neq_Nil_conv)
  with Cons show ?case by (auto split: if_splits)
qed

section \<open>Decimal numerals\<close>

definition digit_char :: "nat \<Rightarrow> char" where
  "digit_char d = char_of (48 + d)"

definition is_digit :: "char \<Rightarrow> bool" where
  "is_digit c \<longleftrightarrow> 48 \<le> (of_char c :: nat) \<and> (of_char c :: nat) \<le> 57"

definition digit_value :: "char \<Rightarrow> nat" where
  "digit_value c = of_char c - 48"

text \<open>\<open>`${n}`\<close> for a non-negative integer below \<open>10^21\<close>.\<close>

fun nat_str :: "nat \<Rightarrow> string" where
  "nat_str n = (if n < 10 then [digit_char n] else nat_str (n div 10) @ [digit_char (n mod 10)])"

declare nat_str.simps [simp del]

text \<open>The value of a run of decimal digits.\<close>

definition digits_value :: "string \<Rightarrow> nat" where
  "digits_value ds = foldl (\<lambda>a c. 10 * a + digit_value c) 0 ds"

text \<open>
  \<open>Number(ds)\<close> for a run of digits: the nearest double, ties to the even significand.
  Below \<open>2 ^ 53\<close> every integer is a double. (A run whose value reaches \<open>2 ^ 1024\<close>
  gives \<open>Infinity\<close> in JavaScript, which this type does not have.)
\<close>

fun excess_bits :: "nat \<Rightarrow> nat" where
  "excess_bits n = (if n < 2 ^ 53 then 0 else Suc (excess_bits (n div 2)))"

declare excess_bits.simps [simp del]

definition to_double :: "nat \<Rightarrow> nat" where
  "to_double n =
     (let e = excess_bits n; u = 2 ^ e; q = n div u; r = n mod u
      in if 2 * r < u \<or> 2 * r = u \<and> even q then q * u else (q + 1) * u)"

definition js_number :: "string \<Rightarrow> nat" where
  "js_number ds = to_double (digits_value ds)"

lemma to_double_exact [simp]: "n < 2 ^ 53 \<Longrightarrow> to_double n = n"
  by (simp add: to_double_def excess_bits.simps)

lemma of_char_digit_char: "d < 10 \<Longrightarrow> (of_char (digit_char d) :: nat) = 48 + d"
  by (simp add: digit_char_def)

lemma is_digit_digit_char [simp]: "d < 10 \<Longrightarrow> is_digit (digit_char d)"
  by (simp add: is_digit_def of_char_digit_char)

lemma digit_value_digit_char [simp]: "d < 10 \<Longrightarrow> digit_value (digit_char d) = d"
  by (simp add: digit_value_def of_char_digit_char)

lemma nat_str_digits: "c \<in> set (nat_str n) \<Longrightarrow> is_digit c"
proof (induction n rule: nat_str.induct)
  case (1 n)
  then show ?case by (subst (asm) nat_str.simps) (auto split: if_splits)
qed

lemma nat_str_ne [simp]: "nat_str n \<noteq> []"
  by (subst nat_str.simps) simp

lemma digits_value_snoc [simp]: "digits_value (ds @ [c]) = 10 * digits_value ds + digit_value c"
  by (simp add: digits_value_def)

lemma digits_value_nat_str [simp]: "digits_value (nat_str n) = n"
proof (induction n rule: nat_str.induct)
  case (1 n)
  show ?case
  proof (cases "n < 10")
    case True
    then show ?thesis by (subst nat_str.simps) (simp add: digits_value_def)
  next
    case False
    with 1 show ?thesis by (subst nat_str.simps) simp
  qed
qed

lemma js_number_nat_str [simp]: "n < 2 ^ 53 \<Longrightarrow> js_number (nat_str n) = n"
  by (simp add: js_number_def)

lemma nat_str_inject [simp]: "nat_str m = nat_str n \<longleftrightarrow> m = n"
  by (metis digits_value_nat_str)

lemma takeWhile_nat_str:
  "\<not> is_digit c \<Longrightarrow> takeWhile is_digit (nat_str n @ c # s) = nat_str n"
  "\<not> is_digit c \<Longrightarrow> dropWhile is_digit (nat_str n @ c # s) = c # s"
  by (simp_all add: takeWhile_append2 dropWhile_append2 nat_str_digits)

lemma nat_str_cancel:
  assumes "nat_str m @ c # s = nat_str n @ c # t" and "\<not> is_digit c"
  shows "m = n \<and> s = t"
proof -
  from assms have "takeWhile is_digit (nat_str m @ c # s) = takeWhile is_digit (nat_str n @ c # t)"
    by simp
  with assms(2) have "nat_str m = nat_str n"
    by (metis takeWhile_nat_str(1))
  with assms(1) show ?thesis by simp
qed

lemma length_dropWhile_less: "takeWhile P xs \<noteq> [] \<Longrightarrow> length (dropWhile P xs) < length xs"
  by (cases xs) (auto simp: less_Suc_eq_le length_dropWhile_le split: if_splits)

lemma char_of_neqI: "(of_char c :: nat) \<noteq> n mod 256 \<Longrightarrow> c \<noteq> char_of n"
  by auto

section \<open>White space\<close>

text \<open>
  The code points that \<open>trim()\<close> removes and \<open>\\s\<close> matches (ECMAScript \<open>WhiteSpace\<close>
  and \<open>LineTerminator\<close>), as UTF-8: tab, line feed, vertical tab, form feed, carriage
  return, space, U+00A0, U+1680, U+2000 to U+200A, U+2028, U+2029, U+202F, U+205F,
  U+3000 and U+FEFF.
\<close>

definition ws_tokens :: "string list" where
  "ws_tokens = map (map char_of)
     ([[9], [10], [11], [12], [13], [32], [194, 160], [225, 154, 128]]
      @ map (\<lambda>b. [226, 128, b]) [128 ..< 139]
      @ [[226, 128, 168], [226, 128, 169], [226, 128, 175], [226, 129, 159],
         [227, 128, 128], [239, 187, 191 :: nat]])"

definition ws_prefix :: "string \<Rightarrow> string option" where
  "ws_prefix s = find (\<lambda>w. startsWith s w) ws_tokens"

text \<open>\<open>ws_prefix\<close> finds the white space code point a string begins with.\<close>

lemma ws_tokens_ne: "w \<in> set ws_tokens \<Longrightarrow> w \<noteq> []"
  by (auto simp: ws_tokens_def)

lemma ws_prefix_SomeD: "ws_prefix s = Some w \<Longrightarrow> w \<noteq> [] \<and> startsWith s w"
  by (auto simp: ws_prefix_def find_Some_iff dest: ws_tokens_ne[OF nth_mem])

lemma ws_tokens_head:
  "w \<in> set ws_tokens \<Longrightarrow> ((of_char (hd w) :: nat) \<le> 32 \<or> 194 \<le> (of_char (hd w) :: nat))
     \<and> ((of_char (hd w) :: nat) = 32 \<longrightarrow> w = [char_of (32 :: nat)])"
  by (auto simp: ws_tokens_def)

lemma ws_prefix_SomeE:
  assumes "ws_prefix s = Some w"
  shows "w \<in> set ws_tokens \<and> s \<noteq> [] \<and> hd s = hd w"
proof -
  have "w \<in> set ws_tokens" "startsWith s w"
    using assms by (auto simp: ws_prefix_def find_Some_iff)
  moreover have "w \<noteq> []" using calculation(1) by (rule ws_tokens_ne)
  ultimately show ?thesis by (auto elim!: startsWithE)
qed

lemma ws_prefix_visible:
  assumes "32 < (of_char c :: nat)" and "(of_char c :: nat) < 194"
  shows "ws_prefix (c # s) = None"
proof (rule ccontr)
  assume "ws_prefix (c # s) \<noteq> None"
  then obtain w where "w \<in> set ws_tokens" "c = hd w"
    using ws_prefix_SomeE by fastforce
  then show False using ws_tokens_head [of w] assms by simp
qed

lemma ws_prefix_space: "ws_prefix (CHR '' '' # s) = Some '' ''"
proof -
  have sp: "char_of (32 :: nat) = CHR '' ''" by (simp add: char_of_eq_iff)
  have "'' '' \<in> set ws_tokens" by (simp add: ws_tokens_def sp)
  then have "ws_prefix (CHR '' '' # s) \<noteq> None"
    by (auto simp: ws_prefix_def find_None_iff)
  then obtain w where w: "ws_prefix (CHR '' '' # s) = Some w" by blast
  have "hd w = CHR '' ''" "w \<in> set ws_tokens" using ws_prefix_SomeE [OF w] by simp_all
  then have "w = '' ''" using ws_tokens_head [of w] by (simp add: sp)
  with w show ?thesis by simp
qed

function trim_left :: "string \<Rightarrow> string" where
  "trim_left s = (case ws_prefix s of None \<Rightarrow> s | Some w \<Rightarrow> trim_left (drop (length w) s))"
  by pat_completeness auto
termination
  by (relation "measure length") (auto dest!: ws_prefix_SomeD elim!: startsWithE)

declare trim_left.simps [simp del]

definition ws_suffix :: "string \<Rightarrow> string option" where
  "ws_suffix s = find (\<lambda>w. startsWith (rev s) (rev w)) ws_tokens"

lemma ws_suffix_SomeD: "ws_suffix s = Some w \<Longrightarrow> w \<noteq> [] \<and> startsWith (rev s) (rev w)"
  by (auto simp: ws_suffix_def find_Some_iff dest: ws_tokens_ne[OF nth_mem])

function trim_right :: "string \<Rightarrow> string" where
  "trim_right s =
     (case ws_suffix s of None \<Rightarrow> s | Some w \<Rightarrow> trim_right (take (length s - length w) s))"
  by pat_completeness auto
termination
proof (relation "measure length", simp)
  fix s w
  assume "ws_suffix s = Some w"
  then have "w \<noteq> []" and "startsWith (rev s) (rev w)"
    using ws_suffix_SomeD by auto
  then have "0 < length w" "length w \<le> length s"
    by (auto elim!: startsWithE simp: rev_swap)
  then have "length s - length w < length s"
    by linarith
  then show "(take (length s - length w) s, s) \<in> measure length"
    by simp
qed

declare trim_right.simps [simp del]

text \<open>\<open>s.trim()\<close>.\<close>

definition trim :: "string \<Rightarrow> string" where
  "trim s = trim_right (trim_left s)"

lemma trim_left_fixed: "ws_prefix (trim_left s) = None"
proof (induction s rule: trim_left.induct)
  case (1 s)
  then show ?case by (subst trim_left.simps) (auto split: option.splits)
qed

lemma trim_right_fixed: "ws_suffix (trim_right s) = None"
proof (induction s rule: trim_right.induct)
  case (1 s)
  then show ?case by (subst trim_right.simps) (auto split: option.splits)
qed

lemma trim_right_prefix: "prefix (trim_right s) s"
proof (induction s rule: trim_right.induct)
  case (1 s)
  then show ?case
    by (subst trim_right.simps) (auto split: option.splits intro: prefix_order.trans take_is_prefix)
qed

lemma ws_tokens_last: "w \<in> set ws_tokens \<Longrightarrow> (of_char (last w) :: nat) \<le> 32 \<or> 128 \<le> (of_char (last w) :: nat)"
  by (auto simp: ws_tokens_def)

lemma trim_visible:
  assumes "s \<noteq> []" "32 < (of_char (hd s) :: nat)" "(of_char (hd s) :: nat) < 194"
    and "32 < (of_char (last s) :: nat)" "(of_char (last s) :: nat) < 128"
  shows "trim s = s"
proof -
  have "ws_prefix s = None" using ws_prefix_visible [of "hd s" "tl s"] assms(1-3) by simp
  then have "trim_left s = s" by (simp add: trim_left.simps)
  moreover have "\<not> startsWith (rev s) (rev w)" if w: "w \<in> set ws_tokens" for w
  proof
    assume "startsWith (rev s) (rev w)"
    then have "last w = last s" using ws_tokens_ne [OF w] assms(1)
      by (metis hd_append2 hd_rev rev_is_Nil_conv startsWithE)
    with ws_tokens_last [OF w] assms(4,5) show False by simp
  qed
  then have "ws_suffix s = None" by (simp add: ws_suffix_def find_None_iff)
  then have "trim_right s = s" by (simp add: trim_right.simps)
  ultimately show ?thesis by (simp add: trim_def)
qed

lemma trim_Nil [simp]: "trim [] = []"
  by (simp add: trim_def trim_left.simps trim_right.simps ws_prefix_def ws_suffix_def ws_tokens_def)

section \<open>Dictionaries\<close>

text \<open>
  Every plain object inherits from \<open>Object.prototype\<close>. \<open>key in obj\<close> and a read of
  \<open>obj[key]\<close> see the inherited members too.
\<close>

definition object_prototype_keys :: "string list" where
  "object_prototype_keys =
     [''constructor'', ''__defineGetter__'', ''__defineSetter__'', ''hasOwnProperty'',
      ''__lookupGetter__'', ''__lookupSetter__'', ''isPrototypeOf'', ''propertyIsEnumerable'',
      ''toString'', ''valueOf'', ''__proto__'', ''toLocaleString'']"

definition js_in :: "string \<Rightarrow> (string \<times> 'a) list \<Rightarrow> bool" where
  "js_in k m \<longleftrightarrow> k \<in> fst ` set m \<or> k \<in> set object_prototype_keys"

text \<open>A JavaScript value that may be missing, with a fallback: \<open>v ?? d\<close>.\<close>

definition or_default :: "'a option \<Rightarrow> 'a \<Rightarrow> 'a" where
  "or_default v d = (case v of None \<Rightarrow> d | Some x \<Rightarrow> x)"

lemma or_default_simps [simp]: "or_default None d = d" "or_default (Some x) d = x"
  by (simp_all add: or_default_def)

text \<open>The empty string and a missing string are the falsy strings.\<close>

definition truthy :: "string option \<Rightarrow> bool" where
  "truthy v \<longleftrightarrow> v \<noteq> None \<and> v \<noteq> Some []"

lemma truthy_simps [simp]: "truthy (Some s) \<longleftrightarrow> s \<noteq> []" "\<not> truthy None"
  by (simp_all add: truthy_def)

lemma fst_update_AList: "fst ` set (AList.update k v m) = insert k (fst ` set m)"
  using update_keys [of k v m] by (auto simp flip: set_map split: if_splits)

lemma update_append_new: "k \<notin> fst ` set m \<Longrightarrow> AList.update k v m = m @ [(k, v)]"
  by (induction m) auto

section \<open>Results\<close>

text \<open>Sequencing of computations that may throw.\<close>

definition bind_result :: "'e + 'a \<Rightarrow> ('a \<Rightarrow> 'e + 'b) \<Rightarrow> 'e + 'b" where
  "bind_result r f = (case r of Inl e \<Rightarrow> Inl e | Inr x \<Rightarrow> f x)"

lemma bind_result_simps [simp]:
  "bind_result (Inl e) f = Inl e" "bind_result (Inr x) f = f x"
  by (simp_all add: bind_result_def)

lemma bind_result_Inr_iff [simp]:
  "bind_result r f = Inr y \<longleftrightarrow> (\<exists>x. r = Inr x \<and> f x = Inr y)"
  by (cases r) auto

lemma bind_result_Inr_iff' [simp]:
  "Inr y = bind_result r f \<longleftrightarrow> (\<exists>x. r = Inr x \<and> f x = Inr y)"
  by (cases r) auto

lemma bind_result_Inr_right [simp]: "bind_result r Inr = r"
  by (cases r) auto

lemma bind_result_assoc: "bind_result (bind_result r f) g = bind_result r (\<lambda>x. bind_result (f x) g)"
  by (cases r) auto

lemma map_sum_Inr_iff [simp]: "map_sum id f r = Inr y \<longleftrightarrow> (\<exists>x. r = Inr x \<and> f x = y)"
  by (cases r) auto

end
