(* ===== verification/Resource_Names.thy ===== *)
theory Resource_Names
  imports Prelude
begin

text \<open>
  AIP resource names (\<open>collection/id[/collection/id]*\<close>): the parser of
  \<^verbatim>\<open>web/packages/client/src/resource.ts\<close>, the mapping to the path parameters of the REST
  routes (\<^verbatim>\<open>web/packages/features/src/workflows/resource-paths.ts\<close>), and the helpers of
  \<^verbatim>\<open>connector-shared.ts\<close>, \<^verbatim>\<open>secret-shared.ts\<close>, \<^verbatim>\<open>workflow-shared.ts\<close>,
  \<^verbatim>\<open>space-options.ts\<close> and \<^verbatim>\<open>agent-options.ts\<close> that read one segment of a name.
  The interface \<open>name_reader\<close> collects what those helpers share: a name in, one segment
  or the empty string out, a throw exactly where the parser throws.
\<close>

section \<open>The parser\<close>

datatype name_error =
    MalformedName
  | EmptySegment nat
  | DuplicateCollection string
  | UnknownCollection

type_synonym segments = "(string \<times> string) list"

text \<open>
  The loop over \<open>parts\<close> in steps of two, from index \<open>i\<close>. \<open>collection in out\<close> also
  sees the members every object inherits.
\<close>

fun parse_segments :: "nat \<Rightarrow> string list \<Rightarrow> segments \<Rightarrow> name_error + segments" where
  "parse_segments i (collection # ident # rest) out =
     (if collection = [] \<or> ident = [] then Inl (EmptySegment i)
      else if js_in collection out then Inl (DuplicateCollection collection)
      else parse_segments (i + 2) rest (AList.update collection ident out))"
| "parse_segments i _ out = Inr out"

definition parseResourceName :: "string \<Rightarrow> name_error + segments" where
  "parseResourceName name =
     (if name = [] then Inr []
      else let parts = split_on (CHR ''/'') name
           in if length parts mod 2 \<noteq> 0 then Inl MalformedName
              else parse_segments 0 parts [])"

definition organizationId :: "string \<Rightarrow> name_error + string" where
  "organizationId name =
     (if name = [] then Inr []
      else map_sum id (\<lambda>m. or_default (map_of m ''organizations'') []) (parseResourceName name))"

definition spaceId :: "string \<Rightarrow> name_error + string" where
  "spaceId name =
     (if name = [] then Inr []
      else map_sum id (\<lambda>m. or_default (map_of m ''spaces'') []) (parseResourceName name))"

section \<open>Path parameters\<close>

definition COLLECTION_TO_PARAM :: "(string \<times> string) list" where
  "COLLECTION_TO_PARAM =
     [(''organizations'', ''organization''), (''spaces'', ''space''), (''workflows'', ''workflow''),
      (''versions'', ''version''), (''runs'', ''run''), (''connectors'', ''connector''),
      (''secrets'', ''secret'')]"

fun path_params_loop :: "segments \<Rightarrow> segments \<Rightarrow> name_error + segments" where
  "path_params_loop [] out = Inr out"
| "path_params_loop ((collection, ident) # rest) out =
     (case map_of COLLECTION_TO_PARAM collection of
        None \<Rightarrow> Inl UnknownCollection
      | Some param \<Rightarrow> path_params_loop rest (AList.update param ident out))"

definition resourcePathParams :: "string \<Rightarrow> name_error + segments" where
  "resourcePathParams name = bind_result (parseResourceName name) (\<lambda>segs. path_params_loop segs [])"

definition isSpaceScoped :: "string \<Rightarrow> name_error + bool" where
  "isSpaceScoped name = map_sum id (\<lambda>m. map_of m ''spaces'' \<noteq> None) (parseResourceName name)"

section \<open>Labels and leaf ids\<close>

text \<open>
  The shape every leaf helper has: the empty string for a missing or empty name, else the
  segment of one collection, or a fallback where the name has none.
\<close>

definition segment_or :: "string \<Rightarrow> string \<Rightarrow> string \<Rightarrow> name_error + string" where
  "segment_or collection fallback name =
     map_sum id (\<lambda>m. or_default (map_of m collection) fallback) (parseResourceName name)"

definition leafId :: "string option \<Rightarrow> name_error + string" where
  "leafId name = (if \<not> truthy name then Inr [] else segment_or ''connectors'' [] (the name))"

definition connectorSpaceSlug :: "string option \<Rightarrow> name_error + string" where
  "connectorSpaceSlug name = (if \<not> truthy name then Inr [] else segment_or ''spaces'' [] (the name))"

definition secretLeafId :: "string option \<Rightarrow> name_error + string" where
  "secretLeafId name = (if \<not> truthy name then Inr [] else segment_or ''secrets'' [] (the name))"

definition secretSpaceSlug :: "string option \<Rightarrow> name_error + string" where
  "secretSpaceSlug name = (if \<not> truthy name then Inr [] else segment_or ''spaces'' [] (the name))"

definition workflowLeafId :: "string option \<Rightarrow> name_error + string" where
  "workflowLeafId name = (if \<not> truthy name then Inr [] else segment_or ''workflows'' [] (the name))"

definition workflowSpaceSlug :: "string option \<Rightarrow> name_error + string" where
  "workflowSpaceSlug name = (if \<not> truthy name then Inr [] else segment_or ''spaces'' [] (the name))"

text \<open>The em dash U+2014 as UTF-8.\<close>

definition em_dash :: string where
  "em_dash = map char_of [226, 128, 148 :: nat]"

definition workflowVersionLabel :: "string option \<Rightarrow> name_error + string" where
  "workflowVersionLabel version =
     (if \<not> truthy version then Inr em_dash else segment_or ''versions'' em_dash (the version))"

record space_option =
  so_name :: string
  so_slug :: string
  so_displayName :: string

record agent_option =
  ao_value :: string
  ao_label :: string

definition spaceLabel :: "string option \<Rightarrow> space_option list \<Rightarrow> name_error + string" where
  "spaceLabel name options =
     bind_result (connectorSpaceSlug name) (\<lambda>slug.
       if slug = [] then Inr ''Organization''
       else case find (\<lambda>opt. so_slug opt = slug) options of
              None \<Rightarrow> Inr slug
            | Some opt \<Rightarrow> Inr (if so_displayName opt = [] then slug else so_displayName opt))"

definition agentLabel :: "string option \<Rightarrow> agent_option list \<Rightarrow> name_error + string" where
  "agentLabel agent options =
     (if \<not> truthy agent then Inr ''Cloud''
      else case find (\<lambda>opt. ao_value opt = the agent) options of
             Some opt \<Rightarrow> Inr (ao_label opt)
           | None \<Rightarrow> segment_or ''agents'' (the agent) (the agent))"

text \<open>The wire types carry optional names; only the fields these helpers read are kept.\<close>

record space_wire =
  sw_name :: "string option"
  sw_displayName :: "string option"

record agent_wire =
  aw_name :: "string option"
  aw_hostname :: "string option"

fun toSpaceOptions :: "space_wire list \<Rightarrow> name_error + space_option list" where
  "toSpaceOptions [] = Inr []"
| "toSpaceOptions (s # spaces) =
     (if \<not> truthy (sw_name s) then toSpaceOptions spaces
      else bind_result (segment_or ''spaces'' [] (the (sw_name s))) (\<lambda>slug.
        if slug = [] then toSpaceOptions spaces
        else map_sum id
          ((#) \<lparr>so_name = the (sw_name s), so_slug = slug,
                so_displayName = (if truthy (sw_displayName s) then the (sw_displayName s) else slug)\<rparr>)
          (toSpaceOptions spaces)))"

fun toAgentOptions :: "agent_wire list \<Rightarrow> name_error + agent_option list" where
  "toAgentOptions [] = Inr []"
| "toAgentOptions (a # agents) =
     (if \<not> truthy (aw_name a) then toAgentOptions agents
      else bind_result (segment_or ''agents'' (the (aw_name a)) (the (aw_name a))) (\<lambda>leaf.
        map_sum id
          ((#) \<lparr>ao_value = the (aw_name a),
                ao_label = (if truthy (aw_hostname a) then the (aw_hostname a) else leaf)\<rparr>)
          (toAgentOptions agents)))"

section \<open>What a well-formed name is\<close>

text \<open>
  The grammar the parser accepts: non-empty segments without a slash, distinct collections,
  none of which is an inherited member of every object.
\<close>

fun flat_pairs :: "segments \<Rightarrow> string list" where
  "flat_pairs [] = []"
| "flat_pairs ((c, d) # m) = c # d # flat_pairs m"

definition wf_segments :: "segments \<Rightarrow> bool" where
  "wf_segments m \<longleftrightarrow>
     distinct (map fst m) \<and>
     (\<forall>x \<in> set m. fst x \<noteq> [] \<and> snd x \<noteq> [] \<and> CHR ''/'' \<notin> set (fst x) \<and> CHR ''/'' \<notin> set (snd x)
        \<and> fst x \<notin> set object_prototype_keys)"

definition format_name :: "segments \<Rightarrow> string" where
  "format_name m = join_with ''/'' (flat_pairs m)"

text \<open>What the loop has checked of the segments it adds to \<open>out\<close>.\<close>

definition addable :: "segments \<Rightarrow> segments \<Rightarrow> bool" where
  "addable out new \<longleftrightarrow>
     distinct (map fst new) \<and> (\<forall>x \<in> set new. fst x \<noteq> [] \<and> snd x \<noteq> [] \<and> \<not> js_in (fst x) out)"

lemma length_flat_pairs [simp]: "length (flat_pairs m) = 2 * length m"
  by (induction m rule: flat_pairs.induct) auto

lemma set_flat_pairs [simp]: "set (flat_pairs m) = fst ` set m \<union> snd ` set m"
  by (induction m rule: flat_pairs.induct) auto

lemma flat_pairs_Nil_iff [simp]: "flat_pairs m = [] \<longleftrightarrow> m = []"
  by (cases m rule: flat_pairs.cases) auto

lemma js_in_snoc [simp]: "js_in k (out @ [(c, d)]) \<longleftrightarrow> js_in k out \<or> k = c"
  by (auto simp: js_in_def)

lemma update_not_in: "\<not> js_in c out \<Longrightarrow> AList.update c d out = out @ [(c, d)]"
  by (simp add: js_in_def update_append_new)

lemma addable_Cons:
  "addable out ((c, d) # new) \<longleftrightarrow>
     c \<noteq> [] \<and> d \<noteq> [] \<and> \<not> js_in c out \<and> addable (out @ [(c, d)]) new"
  unfolding addable_def by (auto simp: image_iff)

lemma parse_segments_sound:
  assumes "parse_segments i parts out = Inr m" and "even (length parts)"
  shows "\<exists>new. m = out @ new \<and> parts = flat_pairs new \<and> addable out new"
  using assms
proof (induction i parts out arbitrary: m rule: parse_segments.induct)
  case (1 i c d rest out)
  from "1.prems" have ne: "c \<noteq> []" "d \<noteq> []" "\<not> js_in c out"
    and rec: "parse_segments (i + 2) rest (AList.update c d out) = Inr m"
    by (auto split: if_splits)
  obtain new where "m = (out @ [(c, d)]) @ new" "rest = flat_pairs new"
    "addable (out @ [(c, d)]) new"
    using "1.IH" [OF _ _ rec] ne "1.prems" by (auto simp: update_not_in)
  then show ?case
    using ne by (intro exI [of _ "(c, d) # new"]) (simp add: addable_Cons)
qed (auto simp: addable_def)

lemma parse_segments_complete:
  "addable out new \<Longrightarrow> parse_segments i (flat_pairs new) out = Inr (out @ new)"
proof (induction new arbitrary: i out rule: flat_pairs.induct)
  case (2 c d new)
  then show ?case by (simp add: addable_Cons update_not_in)
qed simp

lemma addable_Nil_iff:
  "addable [] m \<and> (\<forall>p \<in> set (flat_pairs m). CHR ''/'' \<notin> set p) \<longleftrightarrow> wf_segments m"
  by (auto simp: addable_def wf_segments_def js_in_def)

lemma format_name_Nil_iff: "wf_segments m \<Longrightarrow> format_name m = [] \<longleftrightarrow> m = []"
  by (cases m rule: flat_pairs.cases) (auto simp: wf_segments_def format_name_def)

lemma split_format_name:
  "wf_segments m \<Longrightarrow> m \<noteq> [] \<Longrightarrow> split_on (CHR ''/'') (format_name m) = flat_pairs m"
  unfolding format_name_def by (rule split_join) (auto simp flip: addable_Nil_iff)

text \<open>The parser accepts exactly the well-formed names and returns their segments.\<close>

lemma parseResourceName_sound:
  assumes "parseResourceName name = Inr m"
  shows "wf_segments m \<and> name = format_name m"
proof (cases "name = []")
  case True
  with assms show ?thesis
    by (simp add: parseResourceName_def wf_segments_def format_name_def)
next
  case False
  let ?parts = "split_on (CHR ''/'') name"
  from assms False have "even (length ?parts)" and "parse_segments 0 ?parts [] = Inr m"
    by (auto simp: parseResourceName_def Let_def even_iff_mod_2_eq_zero split: if_splits)
  then have parts: "?parts = flat_pairs m" and "addable [] m"
    using parse_segments_sound by fastforce+
  moreover have "\<forall>p \<in> set ?parts. CHR ''/'' \<notin> set p"
    by (blast dest: split_on_parts_no_sep)
  ultimately have "wf_segments m"
    by (metis addable_Nil_iff)
  then show ?thesis
    using join_split_on [of "CHR ''/''" name] parts by (simp add: format_name_def)
qed

lemma parseResourceName_complete:
  assumes "wf_segments m"
  shows "parseResourceName (format_name m) = Inr m"
proof (cases "m = []")
  case True
  then show ?thesis by (simp add: parseResourceName_def format_name_def)
next
  case False
  from assms have "addable [] m" by (simp flip: addable_Nil_iff)
  then show ?thesis
    using False assms parse_segments_complete [of "[]" m 0]
    by (simp add: parseResourceName_def split_format_name format_name_Nil_iff)
qed

lemma parseResourceName_iff:
  "parseResourceName name = Inr m \<longleftrightarrow> wf_segments m \<and> name = format_name m"
  using parseResourceName_sound parseResourceName_complete by blast

lemma parseResourceName_distinct: "parseResourceName name = Inr m \<Longrightarrow> distinct (map fst m)"
  by (simp add: parseResourceName_iff wf_segments_def)

section \<open>The interface of the segment readers\<close>

text \<open>
  A reader of one collection: a missing or empty name gives \<open>fallback\<close>, any other name
  is parsed and gives the segment of \<open>collection\<close>, or \<open>fallback\<close> where it has none.
\<close>

locale name_reader =
  fixes read :: "string option \<Rightarrow> name_error + string"
    and collection :: string
    and fallback :: string
  assumes read_missing: "\<not> truthy n \<Longrightarrow> read n = Inr fallback"
    and read_name: "s \<noteq> [] \<Longrightarrow> read (Some s) = segment_or collection fallback s"
begin

lemma read_formatted:
  assumes "wf_segments m"
  shows "read (Some (format_name m)) = Inr (or_default (map_of m collection) fallback)"
proof (cases "m = []")
  case True
  then show ?thesis by (simp add: format_name_def read_missing)
next
  case False
  with assms show ?thesis
    by (simp add: read_name format_name_Nil_iff segment_or_def parseResourceName_complete)
qed

lemma read_throws_iff:
  "(\<exists>e. read n = Inl e) \<longleftrightarrow> truthy n \<and> (\<exists>e. parseResourceName (the n) = Inl e)"
proof (cases "truthy n")
  case True
  then obtain s where n: "n = Some s" "s \<noteq> []" by (cases n) auto
  then show ?thesis
    by (cases "parseResourceName s") (auto simp: read_name segment_or_def)
qed (simp add: read_missing)

end

interpretation leaf: name_reader leafId "''connectors''" "[]"
  by unfold_locales (simp_all add: leafId_def)

interpretation connector_space: name_reader connectorSpaceSlug "''spaces''" "[]"
  by unfold_locales (simp_all add: connectorSpaceSlug_def)

interpretation secret_leaf: name_reader secretLeafId "''secrets''" "[]"
  by unfold_locales (simp_all add: secretLeafId_def)

interpretation secret_space: name_reader secretSpaceSlug "''spaces''" "[]"
  by unfold_locales (simp_all add: secretSpaceSlug_def)

interpretation workflow_leaf: name_reader workflowLeafId "''workflows''" "[]"
  by unfold_locales (simp_all add: workflowLeafId_def)

interpretation workflow_space: name_reader workflowSpaceSlug "''spaces''" "[]"
  by unfold_locales (simp_all add: workflowSpaceSlug_def)

interpretation workflow_version: name_reader workflowVersionLabel "''versions''" em_dash
  by unfold_locales (simp_all add: workflowVersionLabel_def)

section \<open>Path parameters of a name\<close>

abbreviation param_of :: "string \<Rightarrow> string" where
  "param_of c \<equiv> the (map_of COLLECTION_TO_PARAM c)"

lemma COLLECTION_TO_PARAM_inj:
  "map_of COLLECTION_TO_PARAM c = Some p \<Longrightarrow> map_of COLLECTION_TO_PARAM c' = Some p \<Longrightarrow> c = c'"
  by (auto simp: COLLECTION_TO_PARAM_def split: if_splits)

lemma path_params_loop_eq:
  assumes "distinct (map fst segs)"
    and "\<forall>c \<in> fst ` set segs. \<forall>p. map_of COLLECTION_TO_PARAM c = Some p \<longrightarrow> p \<notin> fst ` set out"
  shows "path_params_loop segs out =
    (if fst ` set segs \<subseteq> dom (map_of COLLECTION_TO_PARAM)
     then Inr (out @ map (\<lambda>x. (param_of (fst x), snd x)) segs)
     else Inl UnknownCollection)"
  using assms
proof (induction segs out rule: path_params_loop.induct)
  case (2 c d rest out)
  show ?case
  proof (cases "map_of COLLECTION_TO_PARAM c")
    case (Some p)
    then have upd: "AList.update p d out = out @ [(p, d)]"
      using "2.prems"(2) by (intro update_append_new) auto
    have fresh: "\<forall>c' \<in> fst ` set rest. \<forall>q. map_of COLLECTION_TO_PARAM c' = Some q
        \<longrightarrow> q \<notin> fst ` set (out @ [(p, d)])"
    proof (intro ballI allI impI)
      fix c' q
      assume c': "c' \<in> fst ` set rest" and q: "map_of COLLECTION_TO_PARAM c' = Some q"
      with "2.prems"(1) have "c' \<noteq> c" by auto
      with q Some have "q \<noteq> p" by (auto dest: COLLECTION_TO_PARAM_inj)
      moreover from c' have "c' \<in> fst ` set ((c, d) # rest)" by simp
      with "2.prems"(2) q have "q \<notin> fst ` set out" by blast
      ultimately show "q \<notin> fst ` set (out @ [(p, d)])" by simp
    qed
    show ?thesis
      using "2.IH" [OF Some] "2.prems"(1) fresh upd Some by auto
  qed auto
qed simp

section \<open>Properties\<close>

text \<open>
  C14. The parser of resource names accepts exactly the well-formed names (an even number of
  non-empty segments, no repeated collection, no collection that is an inherited object
  member) and returns their segments in order: parsing and formatting are inverse.
\<close>

theorem parseResourceName_accepts_exactly:
  "parseResourceName name = Inr m \<longleftrightarrow> wf_segments m \<and> name = format_name m"
  by (rule parseResourceName_iff)

text \<open>
  The path parameters of a name: where the name parses and every collection is routed,
  each segment appears under the singular key of its collection and nothing else does; an
  unrouted collection throws; a malformed name throws the parser's error.
\<close>

theorem resourcePathParams_eq:
  "resourcePathParams name =
     (case parseResourceName name of
        Inl e \<Rightarrow> Inl e
      | Inr m \<Rightarrow>
          if fst ` set m \<subseteq> dom (map_of COLLECTION_TO_PARAM)
          then Inr (map (\<lambda>x. (param_of (fst x), snd x)) m)
          else Inl UnknownCollection)"
proof (cases "parseResourceName name")
  case (Inr m)
  then show ?thesis
    using path_params_loop_eq [OF parseResourceName_distinct [OF Inr], of "[]"]
    by (simp add: resourcePathParams_def)
qed (simp add: resourcePathParams_def)

text \<open>
  Every leaf and space helper of the connector, secret and workflow views reads exactly
  its own segment of a well-formed name, and its fallback where the name has no such segment.
\<close>

theorem segment_helpers_read_their_segment:
  assumes "wf_segments m"
  shows "leafId (Some (format_name m)) = Inr (or_default (map_of m ''connectors'') [])
    \<and> secretLeafId (Some (format_name m)) = Inr (or_default (map_of m ''secrets'') [])
    \<and> workflowLeafId (Some (format_name m)) = Inr (or_default (map_of m ''workflows'') [])
    \<and> connectorSpaceSlug (Some (format_name m)) = Inr (or_default (map_of m ''spaces'') [])
    \<and> secretSpaceSlug (Some (format_name m)) = Inr (or_default (map_of m ''spaces'') [])
    \<and> workflowSpaceSlug (Some (format_name m)) = Inr (or_default (map_of m ''spaces'') [])
    \<and> workflowVersionLabel (Some (format_name m)) = Inr (or_default (map_of m ''versions'') em_dash)"
  using assms
  by (simp add: leaf.read_formatted secret_leaf.read_formatted workflow_leaf.read_formatted
      connector_space.read_formatted secret_space.read_formatted workflow_space.read_formatted
      workflow_version.read_formatted)

theorem segment_helpers_witness:
  "leafId (Some ''organizations/acme/spaces/main/connectors/c1'') = Inr ''c1''
   \<and> connectorSpaceSlug (Some ''organizations/acme/spaces/main/connectors/c1'') = Inr ''main''
   \<and> workflowVersionLabel (Some ''organizations/acme/spaces/main/connectors/c1'') = Inr em_dash"
proof -
  let ?m = "[(''organizations'', ''acme''), (''spaces'', ''main''), (''connectors'', ''c1'')]"
  have "wf_segments ?m"
    by (simp add: wf_segments_def object_prototype_keys_def)
  from segment_helpers_read_their_segment [OF this] show ?thesis
    by (simp add: format_name_def)
qed

lemma toSpaceOptions_elem:
  "toSpaceOptions spaces = Inr opts \<Longrightarrow> opt \<in> set opts \<Longrightarrow>
     so_slug opt \<noteq> [] \<and> so_displayName opt \<noteq> []
     \<and> segment_or ''spaces'' [] (so_name opt) = Inr (so_slug opt)"
proof (induction spaces arbitrary: opts)
  case (Cons s spaces)
  show ?case
  proof (cases "truthy (sw_name s)")
    case True
    with Cons.prems(1) obtain slug where slug: "segment_or ''spaces'' [] (the (sw_name s)) = Inr slug"
      by auto
    show ?thesis
      using Cons True slug by (cases "slug = []") (auto simp: truthy_def split: if_splits)
  next
    case False
    then show ?thesis using Cons by simp
  qed
qed simp

text \<open>
  A scope option built from a space always has a non-empty slug that is the \<open>spaces\<close>
  segment of the option's own resource name, and a non-empty label; the options keep the
  order of the spaces.
\<close>

theorem toSpaceOptions_sound:
  assumes "toSpaceOptions spaces = Inr opts"
  shows "(\<forall>opt \<in> set opts. so_slug opt \<noteq> [] \<and> so_displayName opt \<noteq> []
        \<and> (\<exists>m. parseResourceName (so_name opt) = Inr m \<and> map_of m ''spaces'' = Some (so_slug opt)))
    \<and> subseq (map (Some \<circ> so_name) opts) (map sw_name spaces)"
proof -
  have "\<exists>m. parseResourceName (so_name opt) = Inr m \<and> map_of m ''spaces'' = Some (so_slug opt)"
    if "opt \<in> set opts" for opt
    using toSpaceOptions_elem [OF assms that]
    by (auto simp: segment_or_def or_default_def split: option.splits)
  moreover have "subseq (map (Some \<circ> so_name) opts) (map sw_name spaces)"
    using assms
  proof (induction spaces arbitrary: opts)
    case (Cons s spaces)
    then show ?case
      by (auto simp: truthy_def split: if_splits)
  qed simp
  ultimately show ?thesis
    using toSpaceOptions_elem [OF assms] by blast
qed

theorem toSpaceOptions_sound_witness:
  "(\<exists>m. parseResourceName ''organizations/acme/spaces/main'' = Inr m \<and> map_of m ''spaces'' = Some ''main'')"
proof -
  have "toSpaceOptions
     [\<lparr>sw_name = None, sw_displayName = Some ''x''\<rparr>,
      \<lparr>sw_name = Some ''organizations/acme/spaces/main'', sw_displayName = None\<rparr>]
    = Inr [\<lparr>so_name = ''organizations/acme/spaces/main'', so_slug = ''main'', so_displayName = ''main''\<rparr>]"
    by (simp add: segment_or_def parseResourceName_def js_in_def object_prototype_keys_def)
  from toSpaceOptions_sound [OF this] show ?thesis by simp
qed

end
