(* ===== verification/Step_Ids.thy ===== *)
theory Step_Ids
  imports Prelude
begin

text \<open>
  Node ids of the workflow canvas: \<^verbatim>\<open>web/packages/features/src/workflows/transform/ids.ts\<close>.
  A node id spells the location of a step or of a nested sequence in the workflow's syntax
  tree. The theory holds the structured paths, \<open>formatStepPath\<close>, \<open>parseStepPath\<close> with its
  regular expressions as prefix matchers, the id constructors the graph walk uses, the round
  trip between ids and paths and the injectivity of the ids.
\<close>

section \<open>Paths\<close>

datatype root_kind = ROOT | ERROR_ROOT

text \<open>The strings of the constants \<open>ROOT\<close>, \<open>ERROR_ROOT\<close> and \<open>START\<close>.\<close>

fun root_str :: "root_kind \<Rightarrow> string" where
  "root_str ROOT = ''root''"
| "root_str ERROR_ROOT = ''error''"

definition START :: string where
  "START = ''start''"

datatype region =
    TryBody
  | TryCatch
  | ConditionBranch nat
  | ConditionOtherwise
  | ParallelBranch nat

datatype path_frame = PathFrame (frame_index: nat) (frame_into: "region option")

datatype step_path = StepPath (path_root: root_kind) (path_frames: "path_frame list")

datatype path_error = InvalidStepPath | InvalidSegment string

fun regionSuffix :: "region \<Rightarrow> string" where
  "regionSuffix TryBody = ''.try.body''"
| "regionSuffix TryCatch = ''.try.catch''"
| "regionSuffix (ConditionBranch k) = ''.condition.branches['' @ nat_str k @ ''].then''"
| "regionSuffix ConditionOtherwise = ''.condition.otherwise''"
| "regionSuffix (ParallelBranch k) = ''.parallel.branches['' @ nat_str k @ '']''"

section \<open>Formatting\<close>

definition frame_str :: "path_frame \<Rightarrow> string" where
  "frame_str f = ''.steps['' @ nat_str (frame_index f) @ '']''
     @ (case frame_into f of None \<Rightarrow> [] | Some r \<Rightarrow> regionSuffix r)"

text \<open>The loop of \<open>formatStepPath\<close> over the frames, appending to \<open>id\<close>.\<close>

fun format_frames :: "string \<Rightarrow> path_frame list \<Rightarrow> string" where
  "format_frames i [] = i"
| "format_frames i (f # fs) = format_frames (i @ frame_str f) fs"

definition formatStepPath :: "step_path \<Rightarrow> string" where
  "formatStepPath p = format_frames (root_str (path_root p)) (path_frames p)"

section \<open>Parsing\<close>

text \<open>
  A regular expression \<open>/^pre(\d+)post/\<close> with literal \<open>pre\<close> and \<open>post\<close>, where \<open>post\<close>
  does not begin with a digit, so that the greedy run of digits is the only match: the
  number and the rest of the text behind the match.
\<close>

definition match_index :: "string \<Rightarrow> string \<Rightarrow> string \<Rightarrow> (nat \<times> string) option" where
  "match_index pre post s =
     (if startsWith s pre then
        let r = drop (length pre) s; ds = takeWhile is_digit r; t = dropWhile is_digit r
        in if ds \<noteq> [] \<and> startsWith t post then Some (js_number ds, drop (length post) t) else None
      else None)"

text \<open>A regular expression \<open>/^lit/\<close>: the text behind the literal.\<close>

definition match_lit :: "string \<Rightarrow> string \<Rightarrow> string option" where
  "match_lit lit s = (if startsWith s lit then Some (drop (length lit) s) else None)"

definition STEP_RE :: "string \<Rightarrow> (nat \<times> string) option" where
  "STEP_RE s = match_index ''.steps['' '']'' s"

text \<open>The table \<open>REGION_RES\<close>, in its order; the first match wins.\<close>

definition REGION_RES :: "(string \<Rightarrow> (region \<times> string) option) list" where
  "REGION_RES =
     [(\<lambda>s. map_option (\<lambda>t. (TryBody, t)) (match_lit ''.try.body'' s)),
      (\<lambda>s. map_option (\<lambda>t. (TryCatch, t)) (match_lit ''.try.catch'' s)),
      (\<lambda>s. map_option (\<lambda>(k, t). (ConditionBranch k, t)) (match_index ''.condition.branches['' ''].then'' s)),
      (\<lambda>s. map_option (\<lambda>t. (ConditionOtherwise, t)) (match_lit ''.condition.otherwise'' s)),
      (\<lambda>s. map_option (\<lambda>(k, t). (ParallelBranch k, t)) (match_index ''.parallel.branches['' '']'' s))]"

fun first_match :: "(string \<Rightarrow> (region \<times> string) option) list \<Rightarrow> string \<Rightarrow> (region \<times> string) option" where
  "first_match [] s = None"
| "first_match (re # res) s = (case re s of None \<Rightarrow> first_match res s | Some m \<Rightarrow> Some m)"

text \<open>The optional descent behind a step segment, and the text behind it.\<close>

definition match_region :: "string \<Rightarrow> region option \<times> string" where
  "match_region s = (case first_match REGION_RES s of None \<Rightarrow> (None, s) | Some (r, t) \<Rightarrow> (Some r, t))"

lemma match_index_shorter: "match_index pre post s = Some (k, t) \<Longrightarrow> length t < length s"
proof -
  assume m: "match_index pre post s = Some (k, t)"
  let ?r = "drop (length pre) s"
  from m have "takeWhile is_digit ?r \<noteq> []" and t: "t = drop (length post) (dropWhile is_digit ?r)"
    by (auto simp: match_index_def Let_def split: if_splits)
  then have "length (dropWhile is_digit ?r) < length ?r"
    by (intro length_dropWhile_less)
  with t show ?thesis by simp
qed

lemma match_lit_shorter: "match_lit l s = Some t \<Longrightarrow> length t \<le> length s"
  by (auto simp: match_lit_def split: if_splits)

lemma match_region_shorter: "match_region s = (r, t) \<Longrightarrow> length t \<le> length s"
  by (auto simp: match_region_def REGION_RES_def split: option.splits
      dest!: match_index_shorter match_lit_shorter)

text \<open>The \<open>while\<close> loop: the text left and the frames read so far.\<close>

function parse_frames :: "string \<Rightarrow> path_frame list \<Rightarrow> path_error + path_frame list" where
  "parse_frames rest frames =
     (if rest = [] then Inr frames
      else case STEP_RE rest of
             None \<Rightarrow> Inl (InvalidSegment rest)
           | Some (index, rest1) \<Rightarrow>
               (case match_region rest1 of
                  (into, rest2) \<Rightarrow> parse_frames rest2 (frames @ [PathFrame index into])))"
  by pat_completeness auto
termination
  by (relation "measure (length \<circ> fst)")
    (auto simp: STEP_RE_def dest!: match_index_shorter match_region_shorter [OF sym])

declare parse_frames.simps [simp del]

definition parseStepPath :: "string \<Rightarrow> path_error + step_path" where
  "parseStepPath i =
     (if i = root_str ROOT \<or> startsWith i (root_str ROOT @ ''.'') then
        map_sum id (StepPath ROOT) (parse_frames (drop (length (root_str ROOT)) i) [])
      else if i = root_str ERROR_ROOT \<or> startsWith i (root_str ERROR_ROOT @ ''.'') then
        map_sum id (StepPath ERROR_ROOT) (parse_frames (drop (length (root_str ERROR_ROOT)) i) [])
      else Inl InvalidStepPath)"

section \<open>Id constructors\<close>

definition childStepId :: "string \<Rightarrow> nat \<Rightarrow> string" where
  "childStepId regionId index = regionId @ ''.steps['' @ nat_str index @ '']''"

definition tryBodyRegionId :: "string \<Rightarrow> string" where
  "tryBodyRegionId stepId = stepId @ ''.try.body''"

definition tryCatchRegionId :: "string \<Rightarrow> string" where
  "tryCatchRegionId stepId = stepId @ ''.try.catch''"

definition conditionBranchRegionId :: "string \<Rightarrow> nat \<Rightarrow> string" where
  "conditionBranchRegionId stepId branch = stepId @ ''.condition.branches['' @ nat_str branch @ ''].then''"

definition conditionOtherwiseRegionId :: "string \<Rightarrow> string" where
  "conditionOtherwiseRegionId stepId = stepId @ ''.condition.otherwise''"

definition parallelBranchRegionId :: "string \<Rightarrow> nat \<Rightarrow> string" where
  "parallelBranchRegionId stepId branch = stepId @ ''.parallel.branches['' @ nat_str branch @ '']''"

lemmas region_id_defs =
  tryBodyRegionId_def tryCatchRegionId_def conditionBranchRegionId_def
  conditionOtherwiseRegionId_def parallelBranchRegionId_def

section \<open>Round trip\<close>

lemma frame_str_append: "format_frames i fs = i @ concat (map frame_str fs)"
  by (induction fs arbitrary: i) auto

lemma formatStepPath_eq:
  "formatStepPath (StepPath k fs) = root_str k @ concat (map frame_str fs)"
  by (simp add: formatStepPath_def frame_str_append)

lemma is_digit_bracket [simp]: "\<not> is_digit (CHR '']'')"
  by (simp add: is_digit_def)

lemma match_index_hit:
  "\<not> is_digit c \<Longrightarrow> k < 2 ^ 53 \<Longrightarrow>
     match_index pre (c # post) (pre @ nat_str k @ c # post @ s) = Some (k, s)"
  by (simp add: match_index_def Let_def takeWhile_nat_str)

lemma match_index_miss: "\<not> startsWith s pre \<Longrightarrow> match_index pre post s = None"
  by (simp add: match_index_def)

lemma match_lit_append [simp]: "match_lit l (l @ s) = Some s"
  by (simp add: match_lit_def)

text \<open>Where a frame can end: at the end of the id or before the next step segment.\<close>

definition frame_end :: "string \<Rightarrow> bool" where
  "frame_end s \<longleftrightarrow> s = [] \<or> startsWith s ''.steps[''"

lemma frame_str_ne [simp]: "frame_str f \<noteq> []"
  by (simp add: frame_str_def)

lemma frame_end_frames [simp]: "frame_end (concat (map frame_str fs))"
  by (cases fs) (auto simp: frame_end_def frame_str_def)

definition safe_region :: "region \<Rightarrow> bool" where
  "safe_region r \<longleftrightarrow>
     (case r of ConditionBranch k \<Rightarrow> k < 2 ^ 53 | ParallelBranch k \<Rightarrow> k < 2 ^ 53 | _ \<Rightarrow> True)"

text \<open>Every index a safe integer: what array indices always are.\<close>

definition safe_frame :: "path_frame \<Rightarrow> bool" where
  "safe_frame f \<longleftrightarrow> frame_index f < 2 ^ 53 \<and> (\<forall>r. frame_into f = Some r \<longrightarrow> safe_region r)"

lemma match_region_none: "frame_end s \<Longrightarrow> match_region s = (None, s)"
  by (auto simp: frame_end_def match_region_def REGION_RES_def match_lit_def match_index_def
      elim!: startsWithE)

lemma match_region_suffix: "safe_region r \<Longrightarrow> match_region (regionSuffix r @ s) = (Some r, s)"
proof (cases r)
  case (ConditionBranch k)
  assume "safe_region r"
  with ConditionBranch have
    "match_index ''.condition.branches['' ''].then'' (regionSuffix r @ s) = Some (k, s)"
    using match_index_hit [of "CHR '']''" k "''.condition.branches[''" "''.then''" s]
    by (simp add: safe_region_def)
  with ConditionBranch show ?thesis
    by (simp add: match_region_def REGION_RES_def match_lit_def)
next
  case (ParallelBranch k)
  assume "safe_region r"
  with ParallelBranch have
    "match_index ''.parallel.branches['' '']'' (regionSuffix r @ s) = Some (k, s)"
    using match_index_hit [of "CHR '']''" k "''.parallel.branches[''" "[]" s]
    by (simp add: safe_region_def)
  with ParallelBranch show ?thesis
    by (simp add: match_region_def REGION_RES_def match_lit_def match_index_miss)
qed (simp_all add: match_region_def REGION_RES_def match_lit_def match_index_miss)

lemma STEP_RE_frame:
  "frame_index f < 2 ^ 53 \<Longrightarrow>
     STEP_RE (frame_str f @ s) =
       Some (frame_index f, (case frame_into f of None \<Rightarrow> [] | Some r \<Rightarrow> regionSuffix r) @ s)"
  using match_index_hit [of "CHR '']''" "frame_index f" "''.steps[''" "[]"]
  by (simp add: STEP_RE_def frame_str_def)

lemma parse_frames_concat:
  "\<forall>f \<in> set fs. safe_frame f \<Longrightarrow> parse_frames (concat (map frame_str fs)) acc = Inr (acc @ fs)"
proof (induction fs arbitrary: acc)
  case Nil
  then show ?case by (simp add: parse_frames.simps)
next
  case (Cons f fs)
  let ?tail = "concat (map frame_str fs)"
  have step: "STEP_RE (frame_str f @ ?tail) =
      Some (frame_index f, (case frame_into f of None \<Rightarrow> [] | Some r \<Rightarrow> regionSuffix r) @ ?tail)"
    using Cons.prems by (intro STEP_RE_frame) (simp add: safe_frame_def)
  have region: "match_region ((case frame_into f of None \<Rightarrow> [] | Some r \<Rightarrow> regionSuffix r) @ ?tail)
      = (frame_into f, ?tail)"
    using Cons.prems
    by (auto simp: safe_frame_def match_region_none match_region_suffix split: option.splits)
  have "parse_frames (frame_str f @ ?tail) acc = parse_frames ?tail (acc @ [f])"
    by (subst parse_frames.simps) (simp add: step region)
  also have "\<dots> = Inr (acc @ f # fs)"
    using Cons by simp
  finally show ?case by simp
qed

lemma parse_format:
  assumes "\<forall>f \<in> set (path_frames p). safe_frame f"
  shows "parseStepPath (formatStepPath p) = Inr p"
proof (cases p)
  case (StepPath k fs)
  have i: "formatStepPath p = root_str k @ concat (map frame_str fs)"
    by (simp add: StepPath formatStepPath_eq)
  have parse: "parse_frames (concat (map frame_str fs)) [] = Inr fs"
    using assms StepPath parse_frames_concat [of fs "[]"] by simp
  have "concat (map frame_str fs) = [] \<or> startsWith (concat (map frame_str fs)) ''.''"
    by (cases fs) (auto simp: frame_str_def)
  then show ?thesis
    using i parse StepPath by (cases k) (auto simp: parseStepPath_def elim!: startsWithE)
qed

section \<open>Injectivity\<close>

text \<open>
  Two ids are equal only for equal paths, whatever the indices: a frame's text determines the
  frame because the digits of an index end at the bracket.
\<close>

lemma regionSuffix_cancel:
  "regionSuffix r @ s = regionSuffix r' @ t \<Longrightarrow> r = r' \<and> s = t"
  by (cases r; cases r') (auto dest: nat_str_cancel)

lemma regionSuffix_not_end: "frame_end s \<Longrightarrow> regionSuffix r @ t \<noteq> s"
  by (cases r) (auto simp: frame_end_def)

lemma frame_str_cancel:
  assumes eq: "frame_str f @ s = frame_str g @ t" and ends: "frame_end s" "frame_end t"
  shows "f = g \<and> s = t"
proof -
  obtain i a j b where fg: "f = PathFrame i a" "g = PathFrame j b"
    by (metis path_frame.exhaust)
  let ?sfx = "\<lambda>x. case x of None \<Rightarrow> [] | Some r \<Rightarrow> regionSuffix r"
  have "nat_str i @ CHR '']'' # ?sfx a @ s = nat_str j @ CHR '']'' # ?sfx b @ t"
    using eq fg by (simp add: frame_str_def)
  from nat_str_cancel [OF this is_digit_bracket]
  have ij: "i = j" and tl: "?sfx a @ s = ?sfx b @ t" by simp_all
  have "a = b \<and> s = t"
  proof (cases a)
    case None
    with tl regionSuffix_not_end [OF ends(1)] show ?thesis
      by (cases b) (simp, metis append_Nil option.simps(4,5))
  next
    case (Some r)
    with tl regionSuffix_not_end [OF ends(2)] show ?thesis
      by (cases b) (simp, simp, use regionSuffix_cancel [of r s] in blast)
  qed
  with fg ij show ?thesis by simp
qed

lemma concat_frame_str_inject:
  "concat (map frame_str fs) = concat (map frame_str gs) \<Longrightarrow> fs = gs"
proof (induction fs arbitrary: gs)
  case Nil
  then show ?case by (cases gs) (auto simp: frame_str_def)
next
  case (Cons f fs)
  then obtain g gs' where gs: "gs = g # gs'"
    by (cases gs) (auto simp: frame_str_def)
  with Cons.prems have "f = g \<and> concat (map frame_str fs) = concat (map frame_str gs')"
    by (intro frame_str_cancel) simp_all
  with Cons.IH gs show ?case by simp
qed

lemma formatStepPath_inject [simp]: "formatStepPath p = formatStepPath q \<longleftrightarrow> p = q"
proof
  assume eq: "formatStepPath p = formatStepPath q"
  obtain k fs l gs where pq: "p = StepPath k fs" "q = StepPath l gs"
    by (metis step_path.exhaust)
  with eq have "k = l"
    by (cases k; cases l) (simp_all add: formatStepPath_eq)
  with eq pq show "p = q"
    by (simp add: formatStepPath_eq concat_frame_str_inject)
qed simp

lemma formatStepPath_not_START: "formatStepPath p \<noteq> START"
  by (cases p; cases "path_root p") (simp_all add: formatStepPath_eq START_def)

section \<open>The id constructors follow the paths\<close>

lemma childStepId_format:
  "childStepId (formatStepPath (StepPath k fs)) i = formatStepPath (StepPath k (fs @ [PathFrame i None]))"
  by (simp add: childStepId_def formatStepPath_eq frame_str_def)

lemma format_into:
  "formatStepPath (StepPath k (fs @ [PathFrame i None])) @ regionSuffix r
     = formatStepPath (StepPath k (fs @ [PathFrame i (Some r)]))"
  by (simp add: formatStepPath_eq frame_str_def)

lemma region_ids_format:
  "tryBodyRegionId (formatStepPath (StepPath k (fs @ [PathFrame i None])))
     = formatStepPath (StepPath k (fs @ [PathFrame i (Some TryBody)]))"
  "tryCatchRegionId (formatStepPath (StepPath k (fs @ [PathFrame i None])))
     = formatStepPath (StepPath k (fs @ [PathFrame i (Some TryCatch)]))"
  "conditionBranchRegionId (formatStepPath (StepPath k (fs @ [PathFrame i None]))) b
     = formatStepPath (StepPath k (fs @ [PathFrame i (Some (ConditionBranch b))]))"
  "conditionOtherwiseRegionId (formatStepPath (StepPath k (fs @ [PathFrame i None])))
     = formatStepPath (StepPath k (fs @ [PathFrame i (Some ConditionOtherwise)]))"
  "parallelBranchRegionId (formatStepPath (StepPath k (fs @ [PathFrame i None]))) b
     = formatStepPath (StepPath k (fs @ [PathFrame i (Some (ParallelBranch b))]))"
  by (simp_all add: region_id_defs flip: format_into)

lemma root_ids_format:
  "root_str k = formatStepPath (StepPath k [])"
  by (simp add: formatStepPath_eq)

section \<open>Properties\<close>

text \<open>
  \<open>parseStepPath\<close> is the inverse of \<open>formatStepPath\<close> on every path whose indices are
  safe integers: any nesting of try, condition and parallel regions, either root, and a last
  frame that stops at a step or at a region.
\<close>

theorem parse_format_step_path:
  assumes "\<forall>f \<in> set (path_frames p). safe_frame f"
  shows "parseStepPath (formatStepPath p) = Inr p"
  using assms by (rule parse_format)

theorem parse_format_step_path_witness:
  "parseStepPath ''root.steps[12].condition.branches[0].then.steps[3].try.body.steps[0]''
     = Inr (StepPath ROOT [PathFrame 12 (Some (ConditionBranch 0)), PathFrame 3 (Some TryBody), PathFrame 0 None])"
proof -
  let ?p = "StepPath ROOT [PathFrame 12 (Some (ConditionBranch 0)), PathFrame 3 (Some TryBody), PathFrame 0 None]"
  have "formatStepPath ?p = ''root.steps[12].condition.branches[0].then.steps[3].try.body.steps[0]''"
    by code_simp
  moreover have "\<forall>f \<in> set (path_frames ?p). safe_frame f"
    by (simp add: safe_frame_def safe_region_def)
  ultimately show ?thesis
    using parse_format_step_path [of ?p] by simp
qed

text \<open>
  Node ids are unambiguous: two paths have the same id only when they are the same path,
  and no path has the id of the synthetic start node. The id constructors of the graph walk
  build exactly the ids of the paths one hop deeper.
\<close>

theorem step_ids_unambiguous:
  "(formatStepPath p = formatStepPath q \<longleftrightarrow> p = q)
   \<and> formatStepPath p \<noteq> START
   \<and> childStepId (formatStepPath (StepPath k fs)) i = formatStepPath (StepPath k (fs @ [PathFrame i None]))
   \<and> tryBodyRegionId (formatStepPath (StepPath k (fs @ [PathFrame i None])))
       = formatStepPath (StepPath k (fs @ [PathFrame i (Some TryBody)]))
   \<and> tryCatchRegionId (formatStepPath (StepPath k (fs @ [PathFrame i None])))
       = formatStepPath (StepPath k (fs @ [PathFrame i (Some TryCatch)]))
   \<and> conditionBranchRegionId (formatStepPath (StepPath k (fs @ [PathFrame i None]))) b
       = formatStepPath (StepPath k (fs @ [PathFrame i (Some (ConditionBranch b))]))
   \<and> conditionOtherwiseRegionId (formatStepPath (StepPath k (fs @ [PathFrame i None])))
       = formatStepPath (StepPath k (fs @ [PathFrame i (Some ConditionOtherwise)]))
   \<and> parallelBranchRegionId (formatStepPath (StepPath k (fs @ [PathFrame i None]))) b
       = formatStepPath (StepPath k (fs @ [PathFrame i (Some (ParallelBranch b))]))"
  by (simp add: formatStepPath_not_START childStepId_format region_ids_format)

end
