(* ===== verification/Ast_Graph.thy ===== *)
theory Ast_Graph
  imports Complex_Main Step_Ids
begin

text \<open>
  The workflow definition as a graph: \<^verbatim>\<open>web/packages/features/src/workflows/transform/ast-to-graph.ts\<close>,
  with the data contract of \<^verbatim>\<open>web/packages/ui/src/workflow/graph-types.ts\<close> and the sizes of
  \<^verbatim>\<open>grid.ts\<close>. The syntax tree is the JSON form of a \<open>WorkflowVersion\<close>: a \<open>oneof\<close> is a
  group of optional fields, tested in the code's order. The configuration objects of the
  activities are passed through untouched and are a type parameter. The walk pushes nodes and
  edges onto two arrays; here every call returns what it pushes, in order, and the callers
  append. A \<open>throw\<close> discards everything.

  The theory proves that the ids of the nodes are the ids of the syntax tree's paths and are
  distinct, that every parent stands before its children, that every edge links two nodes of
  one container, which inputs throw, and that the step nodes are exactly the steps of the tree.
\<close>

section \<open>The syntax tree\<close>

datatype 'c activity = Activity
  (act_http: "'c option") (act_set: "'c option") (act_runWorkflow: "'c option")
  (act_fail: "'c option") (act_end: "'c option")

datatype 'c step = Step (step_ident: string) (step_activity: "'c activity option")
    (step_condition: "'c condition option") (step_parallel: "'c parallel option")
    (step_try: "'c try_block option")
  and 'c condition = Condition (cond_branches: "'c branch list") (cond_otherwise: "'c sequence option")
  and 'c branch = Branch (branch_when: string) (branch_then: "'c sequence")
  and 'c parallel = Parallel (par_branches: "'c sequence list")
  and 'c try_block = Try (try_body: "'c sequence") (try_catch: "'c sequence option")
    (try_rethrow: "bool option")
  and 'c sequence = Sequence (seq_steps: "'c step list")

text \<open>Of a \<open>WorkflowVersion\<close> the walk reads the two sequences.\<close>

record 'c workflow_version =
  wv_root :: "'c sequence"
  wv_errorSequence :: "'c sequence option"

section \<open>The graph\<close>

datatype activity_kind = HttpKind | SetKind | RunWorkflowKind | FailKind | EndKind

datatype container_kind = ConditionKind | ParallelKind | TryKind

datatype region_kind = BranchRegion | OtherwiseRegion | LaneRegion | TryBodyRegion
  | TryCatchRegion | ErrorRegion

datatype edge_kind = StartEdge | SequenceEdge

datatype 'c node_data =
    ActivityData activity_kind 'c (data_stepId: string) (data_path: string)
  | ContainerData container_kind (data_stepId: string) (data_path: string) "bool option"
  | RegionData region_kind "string option"
  | StartData

record 'c wf_node =
  n_id :: string
  n_type :: string
  n_position :: "rat \<times> rat"
  n_parentId :: "string option"
  n_width :: "rat option"
  n_height :: "rat option"
  n_style :: "(rat \<times> rat) option"
  n_data :: "'c node_data"

record wf_edge =
  e_id :: string
  e_source :: string
  e_target :: string
  e_kind :: edge_kind

type_synonym 'c wf_graph = "'c wf_node list \<times> wf_edge list"

definition GRID :: rat where "GRID = 20"

definition NODE_WIDTH :: rat where "NODE_WIDTH = 20 * GRID"

definition HEADER_ROW :: rat where "HEADER_ROW = 2 * GRID"

definition CONTENT_ROW :: rat where "CONTENT_ROW = 2 * GRID"

definition LABEL_ROW :: rat where "LABEL_ROW = 1 * GRID"

definition ACTIVITY_NODE_HEIGHT :: rat where "ACTIVITY_NODE_HEIGHT = HEADER_ROW + CONTENT_ROW"

definition ACTIVITY_NODE_HEIGHT_COMPACT :: rat where "ACTIVITY_NODE_HEIGHT_COMPACT = HEADER_ROW"

definition START_WIDTH :: rat where "START_WIDTH = 6 * GRID"

definition START_HEIGHT :: rat where "START_HEIGHT = 2 * GRID"

section \<open>The walk\<close>

datatype graph_error = ActivityWithoutKind | StepWithoutKind string

fun kind_str :: "activity_kind \<Rightarrow> string" where
  "kind_str HttpKind = ''http''"
| "kind_str SetKind = ''set''"
| "kind_str RunWorkflowKind = ''run_workflow''"
| "kind_str FailKind = ''fail''"
| "kind_str EndKind = ''end''"

fun edge_kind_str :: "edge_kind \<Rightarrow> string" where
  "edge_kind_str StartEdge = ''start''"
| "edge_kind_str SequenceEdge = ''sequence''"

text \<open>The configuration of an activity: the first field set, in the code's order.\<close>

definition activityConfig :: "'c activity \<Rightarrow> graph_error + (activity_kind \<times> 'c)" where
  "activityConfig a =
     (case act_http a of Some c \<Rightarrow> Inr (HttpKind, c) | None \<Rightarrow>
     (case act_set a of Some c \<Rightarrow> Inr (SetKind, c) | None \<Rightarrow>
     (case act_runWorkflow a of Some c \<Rightarrow> Inr (RunWorkflowKind, c) | None \<Rightarrow>
     (case act_fail a of Some c \<Rightarrow> Inr (FailKind, c) | None \<Rightarrow>
     (case act_end a of Some c \<Rightarrow> Inr (EndKind, c) | None \<Rightarrow> Inl ActivityWithoutKind)))))"

definition sequenceSteps :: "'c sequence option \<Rightarrow> 'c step list" where
  "sequenceSteps sequence = (case sequence of None \<Rightarrow> [] | Some s \<Rightarrow> seq_steps s)"

definition addEdge :: "string \<Rightarrow> string \<Rightarrow> edge_kind \<Rightarrow> wf_edge" where
  "addEdge source target kind =
     \<lparr>e_id = edge_kind_str kind @ '':'' @ source @ ''=>'' @ target,
      e_source = source, e_target = target, e_kind = kind\<rparr>"

text \<open>The nodes the walk pushes: at the origin, unsized but for the leaves.\<close>

definition plain_node :: "string \<Rightarrow> string \<Rightarrow> string option \<Rightarrow> 'c node_data \<Rightarrow> 'c wf_node" where
  "plain_node i type parent d =
     \<lparr>n_id = i, n_type = type, n_position = (0, 0), n_parentId = parent,
      n_width = None, n_height = None, n_style = None, n_data = d\<rparr>"

definition activity_node :: "string \<Rightarrow> string \<Rightarrow> string option \<Rightarrow> activity_kind \<Rightarrow> 'c \<Rightarrow> 'c wf_node" where
  "activity_node stepId ident parent kind config =
     (plain_node stepId (kind_str kind) parent (ActivityData kind config ident stepId))
       \<lparr>n_width := Some NODE_WIDTH,
        n_height := Some (if kind = EndKind then ACTIVITY_NODE_HEIGHT_COMPACT else ACTIVITY_NODE_HEIGHT)\<rparr>"

definition region_node :: "string \<Rightarrow> string \<Rightarrow> string \<Rightarrow> region_kind \<Rightarrow> string option \<Rightarrow> 'c wf_node" where
  "region_node i type parent kind cond = plain_node i type (Some parent) (RegionData kind cond)"

definition start_node :: "'c wf_node" where
  "start_node = (plain_node START ''start'' None StartData)
     \<lparr>n_width := Some START_WIDTH, n_height := Some START_HEIGHT\<rparr>"

abbreviation graph_append :: "'c wf_graph \<Rightarrow> 'c wf_graph \<Rightarrow> 'c wf_graph" where
  "graph_append g h \<equiv> (fst g @ fst h, snd g @ snd h)"

abbreviation and_then :: "graph_error + 'c wf_graph \<Rightarrow> graph_error + 'c wf_graph \<Rightarrow> graph_error + 'c wf_graph" where
  "and_then r q \<equiv> bind_result r (\<lambda>g. bind_result q (\<lambda>h. Inr (graph_append g h)))"

text \<open>
  \<open>walk_steps\<close> is the \<open>forEach\<close> of \<open>walkSequence\<close> from index \<open>index\<close> on, with the id of
  the step before; \<open>walk_branches\<close> and \<open>walk_lanes\<close> are the loops of \<open>walkStep\<close> over the
  branches of a condition and the lanes of a parallel block.
\<close>

function (sequential)
    walk_steps :: "'c step list \<Rightarrow> string \<Rightarrow> string option \<Rightarrow> nat \<Rightarrow> string option \<Rightarrow> graph_error + 'c wf_graph"
  and walkStep :: "'c step \<Rightarrow> string \<Rightarrow> string option \<Rightarrow> graph_error + 'c wf_graph"
  and walk_branches :: "'c branch list \<Rightarrow> string \<Rightarrow> nat \<Rightarrow> graph_error + 'c wf_graph"
  and walk_lanes :: "'c sequence list \<Rightarrow> string \<Rightarrow> nat \<Rightarrow> graph_error + 'c wf_graph"
where
  "walk_steps [] regionId parentId index previousId = Inr ([], [])"
| "walk_steps (s # steps) regionId parentId index previousId =
     and_then (walkStep s (childStepId regionId index) parentId)
       (and_then
         (Inr ([], case previousId of None \<Rightarrow> []
                 | Some p \<Rightarrow> [addEdge p (childStepId regionId index) SequenceEdge]))
         (walk_steps steps regionId parentId (Suc index) (Some (childStepId regionId index))))"
| "walkStep (Step ident (Some a) cnd par tr) stepId parentId =
     bind_result (activityConfig a) (\<lambda>(kind, config).
       Inr ([activity_node stepId ident parentId kind config], []))"
| "walkStep (Step ident None (Some (Condition branches otherwise)) par tr) stepId parentId =
     and_then (Inr ([plain_node stepId ''condition'' parentId (ContainerData ConditionKind ident stepId None)], []))
       (and_then (walk_branches branches stepId 0)
         (case otherwise of
            None \<Rightarrow> Inr ([], [])
          | Some (Sequence steps) \<Rightarrow>
              and_then (Inr ([region_node (conditionOtherwiseRegionId stepId) ''otherwise'' stepId OtherwiseRegion None], []))
                (walk_steps steps (conditionOtherwiseRegionId stepId) (Some (conditionOtherwiseRegionId stepId)) 0 None)))"
| "walkStep (Step ident None None (Some (Parallel lanes)) tr) stepId parentId =
     and_then (Inr ([plain_node stepId ''parallel'' parentId (ContainerData ParallelKind ident stepId None)], []))
       (walk_lanes lanes stepId 0)"
| "walkStep (Step ident None None None (Some (Try (Sequence body) catch rethrow))) stepId parentId =
     and_then (Inr ([plain_node stepId ''try'' parentId
                       (ContainerData TryKind ident stepId (Some (or_default rethrow False))),
                     region_node (tryBodyRegionId stepId) ''try-body'' stepId TryBodyRegion None], []))
       (and_then (walk_steps body (tryBodyRegionId stepId) (Some (tryBodyRegionId stepId)) 0 None)
         (case catch of
            None \<Rightarrow> Inr ([], [])
          | Some (Sequence steps) \<Rightarrow>
              and_then (Inr ([region_node (tryCatchRegionId stepId) ''try-catch'' stepId TryCatchRegion None], []))
                (walk_steps steps (tryCatchRegionId stepId) (Some (tryCatchRegionId stepId)) 0 None)))"
| "walkStep (Step ident None None None None) stepId parentId = Inl (StepWithoutKind ident)"
| "walk_branches [] stepId k = Inr ([], [])"
| "walk_branches (Branch cond (Sequence steps) # bs) stepId k =
     and_then (Inr ([region_node (conditionBranchRegionId stepId k) ''branch'' stepId BranchRegion (Some cond)], []))
       (and_then
         (walk_steps steps (conditionBranchRegionId stepId k) (Some (conditionBranchRegionId stepId k)) 0 None)
         (walk_branches bs stepId (Suc k)))"
| "walk_lanes [] stepId k = Inr ([], [])"
| "walk_lanes (Sequence steps # ls) stepId k =
     and_then (Inr ([region_node (parallelBranchRegionId stepId k) ''lane'' stepId LaneRegion None], []))
       (and_then
         (walk_steps steps (parallelBranchRegionId stepId k) (Some (parallelBranchRegionId stepId k)) 0 None)
         (walk_lanes ls stepId (Suc k)))"
  by pat_completeness auto
termination
  by (relation "measure (\<lambda>x. case x of
      Inl (Inl (ss, _)) \<Rightarrow> size_list size ss
    | Inl (Inr (s, _)) \<Rightarrow> size s
    | Inr (Inl (bs, _)) \<Rightarrow> size_list size bs
    | Inr (Inr (ls, _)) \<Rightarrow> size_list size ls)") auto

definition walkSequence :: "'c sequence option \<Rightarrow> string \<Rightarrow> string option \<Rightarrow> graph_error + 'c wf_graph" where
  "walkSequence sequence regionId parentId = walk_steps (sequenceSteps sequence) regionId parentId 0 None"

definition astToGraph :: "'c workflow_version \<Rightarrow> graph_error + 'c wf_graph" where
  "astToGraph version =
     and_then
       (Inr (if sequenceSteps (Some (wv_root version)) \<noteq> []
             then ([start_node], [addEdge START (childStepId (root_str ROOT) 0) StartEdge])
             else ([], [])))
       (and_then (walkSequence (Some (wv_root version)) (root_str ROOT) None)
         (if sequenceSteps (wv_errorSequence version) \<noteq> []
          then and_then (Inr ([plain_node (root_str ERROR_ROOT) ''error'' None (RegionData ErrorRegion None)], []))
                 (walkSequence (wv_errorSequence version) (root_str ERROR_ROOT) (Some (root_str ERROR_ROOT)))
          else Inr ([], [])))"

section \<open>Parents before children\<close>

text \<open>
  React Flow needs a parent earlier in the array than its children: every node's parent is in
  \<open>S\<close> or before it.
\<close>

fun wf_parents :: "string set \<Rightarrow> 'c wf_node list \<Rightarrow> bool" where
  "wf_parents S [] \<longleftrightarrow> True"
| "wf_parents S (n # ns) \<longleftrightarrow>
     (case n_parentId n of None \<Rightarrow> True | Some p \<Rightarrow> p \<in> S) \<and> wf_parents (insert (n_id n) S) ns"

definition node_ids :: "'c wf_node list \<Rightarrow> string set" where
  "node_ids ns = n_id ` set ns"

lemma node_ids_simps [simp]:
  "node_ids [] = {}" "node_ids (n # ns) = insert (n_id n) (node_ids ns)"
  "node_ids (ms @ ns) = node_ids ms \<union> node_ids ns"
  by (auto simp: node_ids_def)

lemma wf_parents_append [simp]:
  "wf_parents S (ms @ ns) \<longleftrightarrow> wf_parents S ms \<and> wf_parents (S \<union> node_ids ms) ns"
  by (induction ms arbitrary: S) (auto simp: Un_commute)

lemma wf_parents_mono: "wf_parents S ns \<Longrightarrow> S \<subseteq> T \<Longrightarrow> wf_parents T ns"
proof (induction ns arbitrary: S T)
  case (Cons n ns)
  then have "wf_parents (insert (n_id n) T) ns"
    using Cons.IH [of "insert (n_id n) S" "insert (n_id n) T"] by auto
  with Cons.prems show ?case by (auto split: option.splits)
qed simp

lemma n_sel_simps [simp]:
  "n_id (plain_node i t p d) = i" "n_parentId (plain_node i t p d) = p"
  "n_data (plain_node i t p d) = d" "n_type (plain_node i t p d) = t"
  "n_id (activity_node i m p k c) = i" "n_parentId (activity_node i m p k c) = p"
  "n_data (activity_node i m p k c) = ActivityData k c m i"
  "n_id (region_node i t q rk w) = i" "n_parentId (region_node i t q rk w) = Some q"
  "n_data (region_node i t q rk w) = RegionData rk w"
  "n_id start_node = START" "n_parentId start_node = None" "n_data start_node = StartData"
  by (simp_all add: plain_node_def activity_node_def region_node_def start_node_def)

lemma e_sel_simps [simp]:
  "e_source (addEdge s t k) = s" "e_target (addEdge s t k) = t" "e_kind (addEdge s t k) = k"
  by (simp_all add: addEdge_def)

section \<open>A reference walk over paths\<close>

text \<open>
  The walk again, by paths instead of ids and with the three kinds of container treated
  alike: a step has a list of nested regions, each with its path hop, the data of its group
  node and its steps. The ids of the code's walk are the ids of these paths.
\<close>

abbreviation fmt :: "root_kind \<Rightarrow> path_frame list \<Rightarrow> string" where
  "fmt k fs \<equiv> formatStepPath (StepPath k fs)"

record 'c nested =
  nst_region :: region
  nst_kind :: region_kind
  nst_type :: string
  nst_when :: "string option"
  nst_steps :: "'c step list"

definition nested :: "region \<Rightarrow> region_kind \<Rightarrow> string \<Rightarrow> string option \<Rightarrow> 'c sequence \<Rightarrow> 'c nested" where
  "nested r rk t w s = \<lparr>nst_region = r, nst_kind = rk, nst_type = t, nst_when = w, nst_steps = seq_steps s\<rparr>"

fun branch_regions :: "'c branch list \<Rightarrow> nat \<Rightarrow> 'c nested list" where
  "branch_regions [] k = []"
| "branch_regions (b # bs) k =
     nested (ConditionBranch k) BranchRegion ''branch'' (Some (branch_when b)) (branch_then b)
       # branch_regions bs (Suc k)"

fun lane_regions :: "'c sequence list \<Rightarrow> nat \<Rightarrow> 'c nested list" where
  "lane_regions [] k = []"
| "lane_regions (l # ls) k =
     nested (ParallelBranch k) LaneRegion ''lane'' None l # lane_regions ls (Suc k)"

fun regions_of :: "'c step \<Rightarrow> 'c nested list" where
  "regions_of (Step ident (Some a) cnd par tr) = []"
| "regions_of (Step ident None (Some c) par tr) =
     branch_regions (cond_branches c) 0
     @ map (nested ConditionOtherwise OtherwiseRegion ''otherwise'' None)
         (case cond_otherwise c of None \<Rightarrow> [] | Some s \<Rightarrow> [s])"
| "regions_of (Step ident None None (Some p) tr) = lane_regions (par_branches p) 0"
| "regions_of (Step ident None None None (Some t)) =
     nested TryBody TryBodyRegion ''try-body'' None (try_body t)
     # map (nested TryCatch TryCatchRegion ''try-catch'' None)
         (case try_catch t of None \<Rightarrow> [] | Some s \<Rightarrow> [s])"
| "regions_of (Step ident None None None None) = []"

fun own_node :: "'c step \<Rightarrow> string \<Rightarrow> string option \<Rightarrow> graph_error + 'c wf_node" where
  "own_node (Step ident (Some a) cnd par tr) sid parent =
     map_sum id (\<lambda>(kind, config). activity_node sid ident parent kind config) (activityConfig a)"
| "own_node (Step ident None (Some c) par tr) sid parent =
     Inr (plain_node sid ''condition'' parent (ContainerData ConditionKind ident sid None))"
| "own_node (Step ident None None (Some p) tr) sid parent =
     Inr (plain_node sid ''parallel'' parent (ContainerData ParallelKind ident sid None))"
| "own_node (Step ident None None None (Some t)) sid parent =
     Inr (plain_node sid ''try'' parent
       (ContainerData TryKind ident sid (Some (or_default (try_rethrow t) False))))"
| "own_node (Step ident None None None None) sid parent = Inl (StepWithoutKind ident)"

lemma nested_sel [simp]:
  "nst_region (nested r rk t w s) = r" "nst_steps (nested r rk t w s) = seq_steps s"
  "nst_kind (nested r rk t w s) = rk" "nst_type (nested r rk t w s) = t"
  "nst_when (nested r rk t w s) = w"
  by (simp_all add: nested_def)

abbreviation nested_weight :: "'c nested list \<Rightarrow> nat" where
  "nested_weight ns \<equiv> sum_list (map (\<lambda>n. Suc (size_list size (nst_steps n))) ns)"

lemma size_seq_steps: "Suc (size_list size (seq_steps s)) = size s"
  by (cases s) simp

lemma branch_regions_weight: "nested_weight (branch_regions bs k) \<le> size_list size bs"
proof (induction bs k rule: branch_regions.induct)
  case (2 b bs k)
  then show ?case
    by (cases b) (simp add: size_seq_steps flip: add_Suc)
qed simp

lemma lane_regions_weight: "nested_weight (lane_regions ls k) \<le> size_list size ls"
proof (induction ls k rule: lane_regions.induct)
  case (2 l ls k)
  then show ?case
    by (simp add: size_seq_steps flip: add_Suc)
qed simp

lemma regions_of_weight: "nested_weight (regions_of s) < size s"
proof (induction s rule: regions_of.induct)
  case (2 ident c par tr)
  then show ?case
    using branch_regions_weight [of "cond_branches c" 0]
    by (cases c) (auto simp: size_seq_steps split: option.splits)
next
  case (3 ident p tr)
  then show ?case
    using lane_regions_weight [of "par_branches p" 0] by (cases p) auto
next
  case (4 ident t)
  then show ?case
    by (cases t) (auto simp: size_seq_steps split: option.splits)
qed auto

function (sequential)
    ref_steps :: "root_kind \<Rightarrow> path_frame list \<Rightarrow> string option \<Rightarrow> nat \<Rightarrow> string option \<Rightarrow> 'c step list \<Rightarrow> graph_error + 'c wf_graph"
  and ref_step :: "root_kind \<Rightarrow> path_frame list \<Rightarrow> string option \<Rightarrow> nat \<Rightarrow> 'c step \<Rightarrow> graph_error + 'c wf_graph"
  and ref_regions :: "root_kind \<Rightarrow> path_frame list \<Rightarrow> nat \<Rightarrow> 'c nested list \<Rightarrow> graph_error + 'c wf_graph"
where
  "ref_steps k fs par i prev [] = Inr ([], [])"
| "ref_steps k fs par i prev (s # ss) =
     and_then (ref_step k fs par i s)
       (and_then
         (Inr ([], case prev of None \<Rightarrow> [] | Some p \<Rightarrow> [addEdge p (fmt k (fs @ [PathFrame i None])) SequenceEdge]))
         (ref_steps k fs par (Suc i) (Some (fmt k (fs @ [PathFrame i None]))) ss))"
| "ref_step k fs par i s =
     and_then (map_sum id (\<lambda>n. ([n], [])) (own_node s (fmt k (fs @ [PathFrame i None])) par))
       (ref_regions k fs i (regions_of s))"
| "ref_regions k fs i [] = Inr ([], [])"
| "ref_regions k fs i (n # ns) =
     and_then (Inr ([region_node (fmt k (fs @ [PathFrame i (Some (nst_region n))])) (nst_type n)
                      (fmt k (fs @ [PathFrame i None])) (nst_kind n) (nst_when n)], []))
       (and_then
         (ref_steps k (fs @ [PathFrame i (Some (nst_region n))])
           (Some (fmt k (fs @ [PathFrame i (Some (nst_region n))]))) 0 None (nst_steps n))
         (ref_regions k fs i ns))"
  by pat_completeness auto
termination
proof (relation "measures [\<lambda>x. case x of
      Inl (k, fs, par, i, prev, ss) \<Rightarrow> size_list size ss
    | Inr (Inl (k, fs, par, i, s)) \<Rightarrow> size s
    | Inr (Inr (k, fs, i, ns)) \<Rightarrow> nested_weight ns]")
qed (auto simp: regions_of_weight)

lemma and_then_assoc: "and_then (and_then r q) t = and_then r (and_then q t)"
  by (cases r; cases q; cases t) auto

lemma and_then_unit [simp]:
  "and_then (Inr ([], [])) q = q" "and_then q (Inr ([], [])) = q"
  by (cases q; simp)+

lemma ref_regions_append:
  "ref_regions k fs i (ms @ ns) = and_then (ref_regions k fs i ms) (ref_regions k fs i ns)"
proof (induction ms)
  case (Cons m ms)
  show ?case by (simp only: append_Cons ref_regions.simps Cons and_then_assoc)
qed (simp only: append_Nil ref_regions.simps and_then_unit)

lemmas walk_induct = walk_steps_walkStep_walk_branches_walk_lanes.induct

lemmas ids_format = childStepId_format region_ids_format

lemma walk_eq_ref:
  fixes ss :: "'c step list" and s :: "'c step" and bs :: "'c branch list" and ls :: "'c sequence list"
  shows "rid = fmt k fs \<Longrightarrow> walk_steps ss rid par i prev = ref_steps k fs par i prev ss"
    and "sid = fmt k (fs @ [PathFrame j None]) \<Longrightarrow> walkStep s sid par = ref_step k fs par j s"
    and "sid = fmt k (fs @ [PathFrame j None]) \<Longrightarrow>
          walk_branches bs sid b = ref_regions k fs j (branch_regions bs b)"
    and "sid = fmt k (fs @ [PathFrame j None]) \<Longrightarrow>
          walk_lanes ls sid b = ref_regions k fs j (lane_regions ls b)"
proof (induction ss rid par i prev and s sid par and bs sid b and ls sid b
    arbitrary: fs and fs j and fs j and fs j rule: walk_induct)
  case (2 s steps regionId parentId index previousId)
  then show ?case by (simp only: walk_steps.simps ref_steps.simps childStepId_format)
next
  case (3 ident a cnd par tr stepId parentId)
  then show ?case by (cases "activityConfig a") (auto split: prod.splits)
next
  case (4 ident branches otherwise par tr stepId parentId)
  then show ?case
    by (cases otherwise rule: option.exhaust; (cases "the otherwise")?)
      (simp_all add: ref_regions_append ids_format bind_result_assoc)
next
  case (6 ident body catch rethrow stepId parentId)
  then show ?case
    by (cases catch rule: option.exhaust; (cases "the catch")?)
      (simp_all add: ids_format bind_result_assoc)
qed (simp_all add: ids_format)

section \<open>Invariants of the walk\<close>

lemmas ref_induct = ref_steps_ref_step_ref_regions.induct

text \<open>A step node: an activity or a container, carrying the step's ident and its own id.\<close>

definition step_node :: "'c wf_node \<Rightarrow> bool" where
  "step_node n \<longleftrightarrow> (case n_data n of ActivityData _ _ _ _ \<Rightarrow> True | ContainerData _ _ _ _ \<Rightarrow> True | _ \<Rightarrow> False)"

lemma step_node_region [simp]: "\<not> step_node (region_node i t q rk w)"
  by (simp add: step_node_def)

lemma own_node_sel:
  "own_node s sid par = Inr n \<Longrightarrow>
     n_id n = sid \<and> n_parentId n = par \<and> step_node n \<and> data_stepId (n_data n) = step_ident s
     \<and> data_path (n_data n) = sid"
  by (induction s sid par rule: own_node.induct) (auto simp: step_node_def)

text \<open>Inversion of a successful call: what each call is made of.\<close>

lemma ref_steps_ConsE:
  assumes "ref_steps k fs par i prev (s # ss) = Inr g"
  obtains a h where "ref_step k fs par i s = Inr a"
    and "ref_steps k fs par (Suc i) (Some (fmt k (fs @ [PathFrame i None]))) ss = Inr h"
    and "fst g = fst a @ fst h"
    and "snd g = snd a @ (case prev of None \<Rightarrow> [] | Some p \<Rightarrow> [addEdge p (fmt k (fs @ [PathFrame i None])) SequenceEdge]) @ snd h"
  using assms that by auto

lemma ref_stepE:
  assumes "ref_step k fs par i s = Inr g"
  obtains n h where "own_node s (fmt k (fs @ [PathFrame i None])) par = Inr n"
    and "ref_regions k fs i (regions_of s) = Inr h"
    and "fst g = n # fst h" and "snd g = snd h"
  using assms that by auto

lemma ref_regions_ConsE:
  assumes "ref_regions k fs i (n # ns) = Inr g"
  obtains a h where "ref_steps k (fs @ [PathFrame i (Some (nst_region n))])
      (Some (fmt k (fs @ [PathFrame i (Some (nst_region n))]))) 0 None (nst_steps n) = Inr a"
    and "ref_regions k fs i ns = Inr h"
    and "fst g = region_node (fmt k (fs @ [PathFrame i (Some (nst_region n))])) (nst_type n)
                      (fmt k (fs @ [PathFrame i None])) (nst_kind n) (nst_when n) # fst a @ fst h"
    and "snd g = snd a @ snd h"
  using assms that by auto

lemma ref_wf_parents:
  fixes ss :: "'c step list" and s :: "'c step" and ns :: "'c nested list"
  shows "ref_steps k fs par i prev ss = Inr g \<Longrightarrow> set_option par \<subseteq> S \<Longrightarrow> wf_parents S (fst g)"
    and "ref_step k fs par i s = Inr g \<Longrightarrow> set_option par \<subseteq> S \<Longrightarrow> wf_parents S (fst g)"
    and "ref_regions k fs i ns = Inr g \<Longrightarrow> fmt k (fs @ [PathFrame i None]) \<in> S \<Longrightarrow> wf_parents S (fst g)"
proof (induction k fs par i prev ss and k fs par i s and k fs i ns
    arbitrary: g S and g S and g S rule: ref_induct)
  case (2 k fs par i prev s ss)
  from "2.prems"(1) show ?case
    by (rule ref_steps_ConsE) (use "2.IH" "2.prems"(2) in \<open>simp add: le_supI1\<close>)
next
  case (3 k fs par i s)
  from "3.prems"(1) show ?case
  proof (rule ref_stepE)
    fix n h
    assume n: "own_node s (fmt k (fs @ [PathFrame i None])) par = Inr n"
      and h: "ref_regions k fs i (regions_of s) = Inr h" and g: "fst g = n # fst h"
    have "wf_parents (insert (n_id n) S) (fst h)"
      using own_node_sel [OF n] by (intro "3.IH" [OF h]) simp
    with own_node_sel [OF n] g "3.prems"(2) show ?thesis
      by (auto split: option.splits)
  qed
next
  case (5 k fs i n ns)
  from "5.prems"(1) show ?case
    by (rule ref_regions_ConsE) (use "5.IH" "5.prems"(2) in simp)
qed auto

lemma region_hops_branches:
  "nst_region ` set (branch_regions bs k) \<subseteq> ConditionBranch ` {k..}"
  "distinct (map nst_region (branch_regions bs k))"
  by (induction bs k rule: branch_regions.induct) force+

lemma region_hops_lanes:
  "nst_region ` set (lane_regions ls k) \<subseteq> ParallelBranch ` {k..}"
  "distinct (map nst_region (lane_regions ls k))"
  by (induction ls k rule: lane_regions.induct) force+

lemma region_hops_distinct: "distinct (map nst_region (regions_of s))"
proof (induction s rule: regions_of.induct)
  case (2 ident c par tr)
  show ?case
    using region_hops_branches [of "cond_branches c" 0] by (auto split: option.splits)
qed (auto simp: region_hops_lanes split: option.splits)

text \<open>The ids of the paths through one frame behind \<open>fs\<close>.\<close>

definition paths_at :: "root_kind \<Rightarrow> path_frame list \<Rightarrow> (path_frame \<Rightarrow> bool) \<Rightarrow> string set" where
  "paths_at k fs P = {fmt k (fs @ f # rest) | f rest. P f}"

lemma paths_at_disjoint: "(\<And>f. P f \<Longrightarrow> \<not> Q f) \<Longrightarrow> paths_at k fs P \<inter> paths_at k fs Q = {}"
  by (auto simp: paths_at_def)

lemma paths_at_mono: "(\<And>f. P f \<Longrightarrow> Q f) \<Longrightarrow> paths_at k fs P \<subseteq> paths_at k fs Q"
  by (auto simp: paths_at_def)

lemma paths_at_deeper: "P f \<Longrightarrow> paths_at k (fs @ [f]) Q \<subseteq> paths_at k fs P"
  by (auto simp: paths_at_def)

lemma paths_at_here [simp]: "fmt k (fs @ [f]) \<in> paths_at k fs P \<longleftrightarrow> P f"
  by (auto simp: paths_at_def)

lemma paths_at_above [simp]: "fmt k fs \<notin> paths_at k fs P"
  by (auto simp: paths_at_def)

abbreviation from_index :: "nat \<Rightarrow> path_frame \<Rightarrow> bool" where
  "from_index i f \<equiv> i \<le> frame_index f"

abbreviation at_index :: "nat \<Rightarrow> path_frame \<Rightarrow> bool" where
  "at_index i f \<equiv> frame_index f = i"

abbreviation into_one_of :: "nat \<Rightarrow> 'c nested list \<Rightarrow> path_frame \<Rightarrow> bool" where
  "into_one_of i ns f \<equiv> frame_index f = i \<and> frame_into f \<in> Some ` nst_region ` set ns"

text \<open>The ids a call produces lie below the paths it was called for, and are distinct.\<close>

definition ids_within :: "string set \<Rightarrow> 'c wf_node list \<Rightarrow> bool" where
  "ids_within A ns \<longleftrightarrow> node_ids ns \<subseteq> A \<and> distinct (map n_id ns)"

lemma ids_within_mono: "ids_within A ns \<Longrightarrow> A \<subseteq> B \<Longrightarrow> ids_within B ns"
  by (auto simp: ids_within_def)

lemma ids_within_append:
  "ids_within A ms \<Longrightarrow> ids_within B ns \<Longrightarrow> A \<inter> B = {} \<Longrightarrow> A \<union> B \<subseteq> C \<Longrightarrow> ids_within C (ms @ ns)"
  by (auto simp: ids_within_def node_ids_def)

lemma ids_within_Cons:
  "ids_within A ns \<Longrightarrow> n_id n \<notin> A \<Longrightarrow> insert (n_id n) A \<subseteq> C \<Longrightarrow> ids_within C (n # ns)"
  by (auto simp: ids_within_def node_ids_def)

lemma ref_ids:
  fixes ss :: "'c step list" and s :: "'c step" and ns :: "'c nested list"
  shows "ref_steps k fs par i prev ss = Inr g \<Longrightarrow> ids_within (paths_at k fs (from_index i)) (fst g)"
    and "ref_step k fs par i s = Inr g \<Longrightarrow> ids_within (paths_at k fs (at_index i)) (fst g)"
    and "ref_regions k fs i ns = Inr g \<Longrightarrow> distinct (map nst_region ns) \<Longrightarrow>
      ids_within (paths_at k fs (into_one_of i ns)) (fst g)"
proof (induction k fs par i prev ss and k fs par i s and k fs i ns
    arbitrary: g and g and g rule: ref_induct)
  case (2 k fs par i prev s ss)
  from "2.prems" show ?case
  proof (rule ref_steps_ConsE)
    fix a h
    assume a: "ref_step k fs par i s = Inr a"
      and h: "ref_steps k fs par (Suc i) (Some (fmt k (fs @ [PathFrame i None]))) ss = Inr h"
      and g: "fst g = fst a @ fst h"
    have "paths_at k fs (at_index i) \<inter> paths_at k fs (from_index (Suc i)) = {}"
      by (rule paths_at_disjoint) auto
    moreover have "paths_at k fs (at_index i) \<union> paths_at k fs (from_index (Suc i)) \<subseteq> paths_at k fs (from_index i)"
      by (intro Un_least paths_at_mono) auto
    ultimately show ?thesis
      unfolding g using "2.IH"(1) [OF a] "2.IH"(2) [OF h] by (intro ids_within_append)
  qed
next
  case (3 k fs par i s)
  from "3.prems" show ?case
  proof (rule ref_stepE)
    fix n h
    assume n: "own_node s (fmt k (fs @ [PathFrame i None])) par = Inr n"
      and h: "ref_regions k fs i (regions_of s) = Inr h" and g: "fst g = n # fst h"
    have "n_id n = fmt k (fs @ [PathFrame i None])"
      using own_node_sel [OF n] by simp
    moreover have "paths_at k fs (into_one_of i (regions_of s)) \<subseteq> paths_at k fs (at_index i)"
      by (rule paths_at_mono) simp
    ultimately show ?thesis
      unfolding g using "3.IH" [OF h region_hops_distinct]
      by (intro ids_within_Cons) auto
  qed
next
  case (5 k fs i n ns)
  from "5.prems"(1) show ?case
  proof (rule ref_regions_ConsE)
    fix a h
    let ?f = "PathFrame i (Some (nst_region n))"
    assume a: "ref_steps k (fs @ [?f]) (Some (fmt k (fs @ [?f]))) 0 None (nst_steps n) = Inr a"
      and h: "ref_regions k fs i ns = Inr h"
      and g: "fst g = region_node (fmt k (fs @ [?f])) (nst_type n) (fmt k (fs @ [PathFrame i None]))
        (nst_kind n) (nst_when n) # fst a @ fst h"
    have A: "ids_within (paths_at k fs ((=) ?f)) (region_node (fmt k (fs @ [?f])) (nst_type n)
        (fmt k (fs @ [PathFrame i None])) (nst_kind n) (nst_when n) # fst a)"
      using "5.IH"(1) [OF a] by (rule ids_within_Cons) (auto intro: subsetD [OF paths_at_deeper])
    have H: "ids_within (paths_at k fs (into_one_of i ns)) (fst h)"
      using "5.IH"(2) [OF h] "5.prems"(2) by simp
    have "paths_at k fs ((=) ?f) \<inter> paths_at k fs (into_one_of i ns) = {}"
      using "5.prems"(2) by (intro paths_at_disjoint) auto
    moreover have "paths_at k fs ((=) ?f) \<union> paths_at k fs (into_one_of i ns) \<subseteq> paths_at k fs (into_one_of i (n # ns))"
      by (intro Un_least paths_at_mono) auto
    ultimately show ?thesis
      unfolding g append_Cons [symmetric] using A H by (intro ids_within_append)
  qed
qed (simp_all add: ids_within_def)

text \<open>An edge links two nodes of one container.\<close>

definition edge_ok :: "'c wf_node set \<Rightarrow> wf_edge \<Rightarrow> bool" where
  "edge_ok N e \<longleftrightarrow>
     (\<exists>a \<in> N. \<exists>b \<in> N. n_id a = e_source e \<and> n_id b = e_target e \<and> n_parentId a = n_parentId b)"

lemma edge_ok_mono: "edge_ok M e \<Longrightarrow> M \<subseteq> N \<Longrightarrow> edge_ok N e"
  unfolding edge_ok_def by blast

text \<open>A node with a given id and parent, such as the one a following edge starts from.\<close>

definition has_node :: "'c wf_node set \<Rightarrow> string \<Rightarrow> string option \<Rightarrow> bool" where
  "has_node N i par \<longleftrightarrow> (\<exists>a \<in> N. n_id a = i \<and> n_parentId a = par)"

lemma edge_ok_addEdge: "has_node N i par \<Longrightarrow> has_node N j par \<Longrightarrow> edge_ok N (addEdge i j kd)"
  unfolding edge_ok_def has_node_def by force

lemma has_node_mono: "has_node M i par \<Longrightarrow> M \<subseteq> N \<Longrightarrow> has_node N i par"
  unfolding has_node_def by blast

lemma ref_step_has_node:
  assumes "ref_step k fs par i s = Inr g"
  shows "has_node (set (fst g)) (fmt k (fs @ [PathFrame i None])) par"
  using assms by (rule ref_stepE) (auto simp: has_node_def dest!: own_node_sel)

lemma ref_edges:
  fixes ss :: "'c step list" and s :: "'c step" and ns :: "'c nested list"
  shows "ref_steps k fs par i prev ss = Inr g \<Longrightarrow> (\<And>p. prev = Some p \<Longrightarrow> has_node C p par) \<Longrightarrow>
      e \<in> set (snd g) \<Longrightarrow> edge_ok (C \<union> set (fst g)) e"
    and "ref_step k fs par i s = Inr g \<Longrightarrow> e \<in> set (snd g) \<Longrightarrow> edge_ok (set (fst g)) e"
    and "ref_regions k fs i ns = Inr g \<Longrightarrow> e \<in> set (snd g) \<Longrightarrow> edge_ok (set (fst g)) e"
proof (induction k fs par i prev ss and k fs par i s and k fs i ns
    arbitrary: g C and g and g rule: ref_induct)
  case (2 k fs par i prev s ss)
  let ?sid = "fmt k (fs @ [PathFrame i None])"
  from "2.prems"(1) show ?case
  proof (rule ref_steps_ConsE)
    fix a h
    assume a: "ref_step k fs par i s = Inr a"
      and h: "ref_steps k fs par (Suc i) (Some ?sid) ss = Inr h"
      and g: "fst g = fst a @ fst h"
        "snd g = snd a @ (case prev of None \<Rightarrow> [] | Some p \<Rightarrow> [addEdge p ?sid SequenceEdge]) @ snd h"
    have here: "has_node (C \<union> set (fst a)) ?sid par"
      using ref_step_has_node [OF a] by (rule has_node_mono) simp
    consider "e \<in> set (snd a)" | p where "prev = Some p" "e = addEdge p ?sid SequenceEdge" | "e \<in> set (snd h)"
      using "2.prems"(3) g(2) by (auto split: option.splits)
    then show ?thesis
    proof cases
      case 1
      then show ?thesis
        using "2.IH"(1) [OF a] by (auto simp: g(1) elim: edge_ok_mono)
    next
      case 2
      then have "has_node (C \<union> set (fst a)) p par"
        using "2.prems"(2) by (auto elim: has_node_mono)
      with 2 here have "edge_ok (C \<union> set (fst a)) e" by (simp add: edge_ok_addEdge)
      then show ?thesis by (rule edge_ok_mono) (auto simp: g(1))
    next
      case 3
      have "edge_ok ((C \<union> set (fst a)) \<union> set (fst h)) e"
        by (rule "2.IH"(2) [OF h _ 3]) (use here in auto)
      then show ?thesis by (rule edge_ok_mono) (auto simp: g(1))
    qed
  qed
next
  case (3 k fs par i s)
  from "3.prems"(1) show ?case
    by (rule ref_stepE) (use "3.IH" "3.prems"(2) in \<open>auto elim: edge_ok_mono\<close>)
next
  case (5 k fs i n ns)
  from "5.prems"(1) show ?case
  proof (rule ref_regions_ConsE)
    fix a h
    assume a: "ref_steps k (fs @ [PathFrame i (Some (nst_region n))])
      (Some (fmt k (fs @ [PathFrame i (Some (nst_region n))]))) 0 None (nst_steps n) = Inr a"
      and h: "ref_regions k fs i ns = Inr h"
      and g: "fst g = region_node (fmt k (fs @ [PathFrame i (Some (nst_region n))])) (nst_type n)
         (fmt k (fs @ [PathFrame i None])) (nst_kind n) (nst_when n) # fst a @ fst h"
        "snd g = snd a @ snd h"
    from "5.prems"(2) g(2) consider "e \<in> set (snd a)" | "e \<in> set (snd h)" by auto
    then show ?thesis
    proof cases
      case 1
      then have "edge_ok ({} \<union> set (fst a)) e"
        by (intro "5.IH"(1) [OF a]) auto
      then show ?thesis by (rule edge_ok_mono) (auto simp: g(1))
    next
      case 2
      then show ?thesis
        using "5.IH"(2) [OF h] by (auto simp: g(1) elim: edge_ok_mono)
    qed
  qed
qed auto

section \<open>The step nodes are the steps\<close>

text \<open>The step a path leads to, from index \<open>i\<close> of a sequence on.\<close>

function (sequential)
    lookup_from :: "nat \<Rightarrow> 'c step list \<Rightarrow> path_frame list \<Rightarrow> 'c step option"
  and lookup_in :: "'c step \<Rightarrow> region option \<Rightarrow> path_frame list \<Rightarrow> 'c step option"
  and lookup_regions :: "'c nested list \<Rightarrow> region \<Rightarrow> path_frame list \<Rightarrow> 'c step option"
where
  "lookup_from i [] fs = None"
| "lookup_from i ss [] = None"
| "lookup_from i (s # ss) (f # fs) =
     (if frame_index f = i then lookup_in s (frame_into f) fs else lookup_from (Suc i) ss (f # fs))"
| "lookup_in s None fs = (if fs = [] then Some s else None)"
| "lookup_in s (Some r) fs = lookup_regions (regions_of s) r fs"
| "lookup_regions [] r fs = None"
| "lookup_regions (n # ns) r fs =
     (if nst_region n = r then lookup_from 0 (nst_steps n) fs else lookup_regions ns r fs)"
  by pat_completeness auto
termination
proof (relation "measures [\<lambda>x. case x of
      Inl (i, ss, fs) \<Rightarrow> size_list size ss
    | Inr (Inl (s, r, fs)) \<Rightarrow> size s
    | Inr (Inr (ns, r, fs)) \<Rightarrow> nested_weight ns]")
qed (auto simp: regions_of_weight)

lemma lookup_from_nth:
  "lookup_from i ss (f # fs) =
     (if i \<le> frame_index f \<and> frame_index f < i + length ss
      then lookup_in (ss ! (frame_index f - i)) (frame_into f) fs else None)"
proof (induction ss arbitrary: i)
  case (Cons s ss)
  then show ?case by (auto simp: nth_Cons' Suc_diff_le)
qed auto

text \<open>What the step nodes of a list say: their ids and the idents of their steps.\<close>

definition step_entries :: "'c wf_node list \<Rightarrow> (string \<times> string) set" where
  "step_entries ns = (\<lambda>n. (n_id n, data_stepId (n_data n))) ` {n \<in> set ns. step_node n}"

lemma step_entries_simps [simp]:
  "step_entries [] = {}"
  "step_entries (n # ns) = (if step_node n then insert (n_id n, data_stepId (n_data n)) (step_entries ns) else step_entries ns)"
  "step_entries (ms @ ns) = step_entries ms \<union> step_entries ns"
  by (auto simp: step_entries_def)

lemma lookup_regions_notin: "r \<notin> nst_region ` set ns \<Longrightarrow> lookup_regions ns r fs = None"
  by (induction ns) auto

text \<open>The located steps: every path that leads to a step, as its id, with that step.\<close>

definition located_from :: "root_kind \<Rightarrow> path_frame list \<Rightarrow> nat \<Rightarrow> 'c step list \<Rightarrow> (string \<times> 'c step) set" where
  "located_from k fs i ss = {(fmt k (fs @ p), s) | p s. lookup_from i ss p = Some s}"

definition located_in :: "root_kind \<Rightarrow> path_frame list \<Rightarrow> nat \<Rightarrow> 'c step \<Rightarrow> (string \<times> 'c step) set" where
  "located_in k fs i s = {(fmt k (fs @ PathFrame i x # p), t) | x p t. lookup_in s x p = Some t}"

definition located_regions :: "root_kind \<Rightarrow> path_frame list \<Rightarrow> nat \<Rightarrow> 'c nested list \<Rightarrow> (string \<times> 'c step) set" where
  "located_regions k fs i ns =
     {(fmt k (fs @ PathFrame i (Some r) # p), t) | r p t. lookup_regions ns r p = Some t}"

lemma lookup_from_Nil_path [simp]: "lookup_from i ss [] = None"
  by (cases ss) auto

lemma located_from_Nil [simp]: "located_from k fs i [] = {}"
  by (auto simp: located_from_def)

lemma located_from_Cons [simp]:
  "located_from k fs i (s # ss) = located_in k fs i s \<union> located_from k fs (Suc i) ss" (is "?L = ?R")
proof
  show "?L \<subseteq> ?R"
  proof
    fix x
    assume "x \<in> ?L"
    then obtain p t where x: "x = (fmt k (fs @ p), t)" and p: "lookup_from i (s # ss) p = Some t"
      by (auto simp: located_from_def)
    then obtain f q where "p = f # q" by (cases p) auto
    with p x show "x \<in> ?R"
      by (cases f; cases "frame_index f = i") (auto simp: located_in_def located_from_def)
  qed
  have "lookup_from i (s # ss) p = Some t" if "lookup_from (Suc i) ss p = Some t" for p t
    using that by (cases p) (auto simp: lookup_from_nth split: if_splits)
  then show "?R \<subseteq> ?L"
    by (fastforce simp: located_in_def located_from_def)
qed

lemma located_in_eq [simp]:
  "located_in k fs i s = insert (fmt k (fs @ [PathFrame i None]), s) (located_regions k fs i (regions_of s))"
proof -
  have "lookup_in s x p = Some t \<longleftrightarrow>
      (x = None \<and> p = [] \<and> t = s) \<or> (\<exists>r. x = Some r \<and> lookup_regions (regions_of s) r p = Some t)" for x p t
    by (cases x) auto
  then show ?thesis
    unfolding located_in_def located_regions_def by auto
qed

lemma located_regions_Nil [simp]: "located_regions k fs i [] = {}"
  by (auto simp: located_regions_def)

lemma located_regions_Cons [simp]:
  assumes "nst_region n \<notin> nst_region ` set ns"
  shows "located_regions k fs i (n # ns) =
    located_from k (fs @ [PathFrame i (Some (nst_region n))]) 0 (nst_steps n) \<union> located_regions k fs i ns"
proof -
  have "lookup_regions (n # ns) r p = Some t \<longleftrightarrow>
      (r = nst_region n \<and> lookup_from 0 (nst_steps n) p = Some t) \<or> lookup_regions ns r p = Some t" for r p t
    using lookup_regions_notin [OF assms] by auto
  then show ?thesis
    unfolding located_regions_def located_from_def by auto
qed

lemma ref_entries:
  fixes ss :: "'c step list" and s :: "'c step" and ns :: "'c nested list"
  shows "ref_steps k fs par i prev ss = Inr g \<Longrightarrow>
      step_entries (fst g) = map_prod id step_ident ` located_from k fs i ss"
    and "ref_step k fs par i s = Inr g \<Longrightarrow>
      step_entries (fst g) = map_prod id step_ident ` located_in k fs i s"
    and "ref_regions k fs i ns = Inr g \<Longrightarrow> distinct (map nst_region ns) \<Longrightarrow>
      step_entries (fst g) = map_prod id step_ident ` located_regions k fs i ns"
proof (induction k fs par i prev ss and k fs par i s and k fs i ns
    arbitrary: g and g and g rule: ref_induct)
  case (2 k fs par i prev s ss)
  from "2.prems" show ?case
    by (rule ref_steps_ConsE) (use "2.IH" in \<open>simp add: image_Un del: located_in_eq\<close>)
next
  case (3 k fs par i s)
  from "3.prems" show ?case
    by (rule ref_stepE) (use "3.IH" region_hops_distinct in \<open>auto dest!: own_node_sel\<close>)
next
  case (5 k fs i n ns)
  from "5.prems"(1) show ?case
    by (rule ref_regions_ConsE) (use "5.IH" "5.prems"(2) in \<open>simp add: image_Un\<close>)
qed auto

section \<open>Which inputs throw\<close>

definition has_kind :: "'c activity \<Rightarrow> bool" where
  "has_kind a \<longleftrightarrow> act_http a \<noteq> None \<or> act_set a \<noteq> None \<or> act_runWorkflow a \<noteq> None
     \<or> act_fail a \<noteq> None \<or> act_end a \<noteq> None"

definition kinded :: "'c step \<Rightarrow> bool" where
  "kinded s \<longleftrightarrow>
     (case step_activity s of
        Some a \<Rightarrow> has_kind a
      | None \<Rightarrow> step_condition s \<noteq> None \<or> step_parallel s \<noteq> None \<or> step_try s \<noteq> None)"

lemma own_node_Inr_iff: "(\<exists>n. own_node s sid par = Inr n) \<longleftrightarrow> kinded s"
proof -
  have "(\<exists>x. activityConfig a = Inr x) \<longleftrightarrow> has_kind a" for a :: "'a activity"
    by (auto simp: activityConfig_def has_kind_def split: option.splits)
  then show ?thesis
    by (induction s sid par rule: own_node.induct) (auto simp: kinded_def)
qed

lemma ref_returns_iff:
  fixes ss :: "'c step list" and s :: "'c step" and ns :: "'c nested list"
  shows "(\<exists>g. ref_steps k fs par i prev ss = Inr g) \<longleftrightarrow> (\<forall>x \<in> located_from k fs i ss. kinded (snd x))"
    and "(\<exists>g. ref_step k fs par i s = Inr g) \<longleftrightarrow> (\<forall>x \<in> located_in k fs i s. kinded (snd x))"
    and "distinct (map nst_region ns) \<Longrightarrow>
      (\<exists>g. ref_regions k fs i ns = Inr g) \<longleftrightarrow> (\<forall>x \<in> located_regions k fs i ns. kinded (snd x))"
proof (induction k fs par i prev ss and k fs par i s and k fs i ns rule: ref_induct)
  case (2 k fs par i prev s ss)
  let ?n = "(Suc i)" and ?p = "Some (fmt k (fs @ [PathFrame i None]))"
  have "(\<exists>g. ref_steps k fs par i prev (s # ss) = Inr g) \<longleftrightarrow>
      (\<exists>a. ref_step k fs par i s = Inr a) \<and> (\<exists>h. ref_steps k fs par ?n ?p ss = Inr h)"
    by (cases "ref_step k fs par i s"; cases "ref_steps k fs par ?n ?p ss") simp_all
  with 2 show ?case
    by (simp add: ball_Un del: ref_steps.simps ref_step.simps located_in_eq)
next
  case (3 k fs par i s)
  have "(\<exists>g. ref_step k fs par i s = Inr g) \<longleftrightarrow>
      (\<exists>n. own_node s (fmt k (fs @ [PathFrame i None])) par = Inr n)
      \<and> (\<exists>h. ref_regions k fs i (regions_of s) = Inr h)"
    by fastforce
  with 3 show ?case
    by (simp add: own_node_Inr_iff region_hops_distinct del: ref_step.simps)
next
  case (5 k fs i n ns)
  let ?f = "fs @ [PathFrame i (Some (nst_region n))]"
  have "(\<exists>g. ref_regions k fs i (n # ns) = Inr g) \<longleftrightarrow>
      (\<exists>a. ref_steps k ?f (Some (fmt k ?f)) 0 None (nst_steps n) = Inr a)
      \<and> (\<exists>h. ref_regions k fs i ns = Inr h)"
    by (cases "ref_regions k fs i ns";
        cases "ref_steps k ?f (Some (fmt k ?f)) 0 None (nst_steps n)") simp_all
  with 5 show ?case
    by (simp add: ball_Un del: ref_regions.simps)
qed auto

section \<open>The whole graph\<close>

text \<open>The step a path of the version leads to.\<close>

fun lookup_version :: "'c workflow_version \<Rightarrow> step_path \<Rightarrow> 'c step option" where
  "lookup_version v (StepPath ROOT fs) = lookup_from 0 (seq_steps (wv_root v)) fs"
| "lookup_version v (StepPath ERROR_ROOT fs) = lookup_from 0 (sequenceSteps (wv_errorSequence v)) fs"

text \<open>The graph in terms of the reference walk.\<close>

lemma astToGraph_ref:
  "astToGraph v =
     and_then
       (Inr (if seq_steps (wv_root v) \<noteq> []
             then ([start_node], [addEdge START (fmt ROOT [PathFrame 0 None]) StartEdge]) else ([], [])))
       (and_then (ref_steps ROOT [] None 0 None (seq_steps (wv_root v)))
         (if sequenceSteps (wv_errorSequence v) \<noteq> []
          then and_then (Inr ([plain_node (fmt ERROR_ROOT []) ''error'' None (RegionData ErrorRegion None)], []))
                 (ref_steps ERROR_ROOT [] (Some (fmt ERROR_ROOT [])) 0 None (sequenceSteps (wv_errorSequence v)))
          else Inr ([], [])))"
  using childStepId_format [of ROOT "[]" 0]
  by (simp add: astToGraph_def walkSequence_def walk_eq_ref(1) sequenceSteps_def root_ids_format)

lemma and_then_Inr_iff:
  fixes r q :: "graph_error + 'c wf_graph"
  shows "and_then r q = Inr g \<longleftrightarrow> (\<exists>a b. r = Inr a \<and> q = Inr b \<and> g = graph_append a b)"
  by (cases r; cases q) auto

lemma astToGraphE:
  assumes "astToGraph v = Inr g"
  obtains st a er where "ref_steps ROOT [] None 0 None (seq_steps (wv_root v)) = Inr a"
    and "(if seq_steps (wv_root v) \<noteq> []
          then ([start_node], [addEdge START (fmt ROOT [PathFrame 0 None]) StartEdge]) else ([], [])) = st"
    and "sequenceSteps (wv_errorSequence v) = [] \<and> er = ([], []) \<or>
      (\<exists>h. ref_steps ERROR_ROOT [] (Some (fmt ERROR_ROOT [])) 0 None (sequenceSteps (wv_errorSequence v)) = Inr h
        \<and> er = (plain_node (fmt ERROR_ROOT []) ''error'' None (RegionData ErrorRegion None) # fst h, snd h))"
    and "g = (fst st @ fst a @ fst er, snd st @ snd a @ snd er)"
proof -
  define st :: "'a wf_graph" where "st = (if seq_steps (wv_root v) \<noteq> []
    then ([start_node], [addEdge START (fmt ROOT [PathFrame 0 None]) StartEdge]) else ([], []))"
  let ?es = "sequenceSteps (wv_errorSequence v)"
  let ?e = "plain_node (fmt ERROR_ROOT []) ''error'' None (RegionData ErrorRegion None)"
  let ?er = "if ?es \<noteq> [] then and_then (Inr ([?e], []))
    (ref_steps ERROR_ROOT [] (Some (fmt ERROR_ROOT [])) 0 None ?es) else Inr ([], [])"
  from assms have "and_then (Inr st) (and_then (ref_steps ROOT [] None 0 None (seq_steps (wv_root v))) ?er) = Inr g"
    unfolding astToGraph_ref st_def .
  then obtain b where b: "and_then (ref_steps ROOT [] None 0 None (seq_steps (wv_root v))) ?er = Inr b"
    and gb: "g = graph_append st b"
    unfolding and_then_Inr_iff [where r = "Inr st"] sum.inject by blast
  from b obtain a er where a: "ref_steps ROOT [] None 0 None (seq_steps (wv_root v)) = Inr a"
    and er: "?er = Inr er" and bb: "b = graph_append a er"
    unfolding and_then_Inr_iff by blast
  have g: "g = (fst st @ fst a @ fst er, snd st @ snd a @ snd er)"
    unfolding gb bb by (simp only: fst_conv snd_conv)
  show ?thesis
  proof (rule that [OF a st_def [symmetric] _ g])
    show "?es = [] \<and> er = ([], []) \<or>
      (\<exists>h. ref_steps ERROR_ROOT [] (Some (fmt ERROR_ROOT [])) 0 None ?es = Inr h
        \<and> er = (?e # fst h, snd h))"
    proof (cases "?es = []")
      case False
      with er have "and_then (Inr ([?e], []))
          (ref_steps ERROR_ROOT [] (Some (fmt ERROR_ROOT [])) 0 None ?es) = Inr er"
        by (simp only: if_True not_False_eq_True)
      then obtain c h where "([?e], []) = c" "er = graph_append c h"
        "ref_steps ERROR_ROOT [] (Some (fmt ERROR_ROOT [])) 0 None ?es = Inr h"
        unfolding and_then_Inr_iff sum.inject by blast
      then show ?thesis by (auto simp del: ref_steps.simps)
    qed (use er in simp)
  qed
qed

lemma located_version:
  "located_from ROOT [] 0 (seq_steps (wv_root v))
     \<union> located_from ERROR_ROOT [] 0 (sequenceSteps (wv_errorSequence v))
   = {(formatStepPath p, s) | p s. lookup_version v p = Some s}" (is "?L = ?R")
proof
  show "?L \<subseteq> ?R"
    by (auto simp: located_from_def intro: exI [where x = "StepPath k fs" for k fs])
  have "(formatStepPath p, s) \<in> ?L" if "lookup_version v p = Some s" for p s
    using that by (cases p; cases "path_root p") (auto simp: located_from_def)
  then show "?R \<subseteq> ?L" by blast
qed

lemma start_not_path [simp]: "START \<notin> paths_at k fs P"
  unfolding paths_at_def by (auto dest!: sym [THEN notE [OF formatStepPath_not_START]])

lemma error_root_not_path: "fmt ERROR_ROOT [] \<noteq> START"
  by (rule formatStepPath_not_START)

lemma start_node_sel [simp]:
  "n_id start_node = START" "n_parentId start_node = None" "\<not> step_node start_node"
  by (simp_all add: start_node_def step_node_def)

lemma first_has_node:
  assumes "ref_steps k fs par i prev (s # ss) = Inr a"
  shows "has_node (set (fst a)) (fmt k (fs @ [PathFrame i None])) par"
  using assms
proof (rule ref_steps_ConsE)
  fix b h
  assume "ref_step k fs par i s = Inr b" and
    "fst a = fst b @ fst h"
  then show ?thesis using ref_step_has_node [of k fs par i s b] has_node_mono by (metis Un_upper1 set_append)
qed

lemma astToGraph_ids:
  fixes v :: "'c workflow_version"
  assumes "astToGraph v = Inr g"
  shows "distinct (map n_id (fst g))"
  using assms
proof (rule astToGraphE)
  fix st a er
  let ?es = "sequenceSteps (wv_errorSequence v)" and ?rs = "seq_steps (wv_root v)"
  let ?e = "plain_node (fmt ERROR_ROOT []) ''error'' None (RegionData ErrorRegion None) :: 'c wf_node"
  assume a: "ref_steps ROOT [] None 0 None ?rs = Inr a"
    and st: "(if ?rs \<noteq> [] then ([start_node], [addEdge START (fmt ROOT [PathFrame 0 None]) StartEdge])
      else ([], [])) = st"
    and er: "?es = [] \<and> er = ([], []) \<or> (\<exists>h. ref_steps ERROR_ROOT [] (Some (fmt ERROR_ROOT [])) 0 None ?es = Inr h
        \<and> er = (?e # fst h, snd h))"
    and g: "g = (fst st @ fst a @ fst er, snd st @ snd a @ snd er)"
  let ?E = "insert (fmt ERROR_ROOT []) (paths_at ERROR_ROOT [] (from_index 0))"
  have ide: "ids_within ?E (fst er)"
    using er
  proof (elim disjE exE conjE)
    fix h
    assume h: "ref_steps ERROR_ROOT [] (Some (fmt ERROR_ROOT [])) 0 None ?es = Inr h"
      and er: "er = (?e # fst h, snd h)"
    show ?thesis unfolding er fst_conv
      by (rule ids_within_Cons [OF ref_ids(1) [OF h]]) auto
  qed (simp add: ids_within_def)
  have "ids_within (paths_at ROOT [] (from_index 0) \<union> ?E) (fst a @ fst er)"
    by (rule ids_within_append [OF ref_ids(1) [OF a] ide]) (auto simp: paths_at_def)
  moreover have "START \<notin> paths_at ROOT [] (from_index 0) \<union> ?E"
    using error_root_not_path by auto
  moreover have "map n_id (fst st) \<in> {[START], []}"
    using st by (auto simp: start_node_def)
  ultimately show ?thesis
    unfolding g ids_within_def node_ids_def fst_conv by (auto simp: map_eq_Cons_conv)
qed

lemma astToGraph_edges:
  fixes v :: "'c workflow_version"
  assumes "astToGraph v = Inr g" and "e \<in> set (snd g)"
  shows "edge_ok (set (fst g)) e"
  using assms(1)
proof (rule astToGraphE)
  fix st a er
  let ?es = "sequenceSteps (wv_errorSequence v)" and ?rs = "seq_steps (wv_root v)"
  let ?e = "plain_node (fmt ERROR_ROOT []) ''error'' None (RegionData ErrorRegion None) :: 'c wf_node"
  assume a: "ref_steps ROOT [] None 0 None ?rs = Inr a"
    and st: "(if ?rs \<noteq> [] then ([start_node], [addEdge START (fmt ROOT [PathFrame 0 None]) StartEdge])
      else ([], [])) = st"
    and er: "?es = [] \<and> er = ([], []) \<or> (\<exists>h. ref_steps ERROR_ROOT [] (Some (fmt ERROR_ROOT [])) 0 None ?es = Inr h
        \<and> er = (?e # fst h, snd h))"
    and g: "g = (fst st @ fst a @ fst er, snd st @ snd a @ snd er)"
  from assms(2) consider "e \<in> set (snd st)" | "e \<in> set (snd a)" | "e \<in> set (snd er)"
    by (auto simp: g)
  then show ?thesis
  proof cases
    case 1
    with st have "?rs \<noteq> []" and e: "e = addEdge START (fmt ROOT [PathFrame 0 None]) StartEdge"
      and n: "start_node \<in> set (fst st)"
      by (auto split: if_splits)
    then have "has_node (set (fst a)) (fmt ROOT [PathFrame 0 None]) None"
      using a first_has_node by (metis append_Nil neq_Nil_conv)
    moreover have "has_node (set (fst g)) START None"
      using n by (auto simp: g has_node_def intro: bexI [where x = start_node])
    ultimately show ?thesis
      unfolding e by (intro edge_ok_addEdge) (auto simp: g intro: has_node_mono)
  next
    case 2
    then show ?thesis
      using ref_edges(1) [OF a, of "{}"] by (auto simp: g intro: edge_ok_mono)
  next
    case 3
    then obtain h where h: "ref_steps ERROR_ROOT [] (Some (fmt ERROR_ROOT [])) 0 None ?es = Inr h"
      and er: "er = (?e # fst h, snd h)" and e: "e \<in> set (snd h)"
      using er by auto
    have "edge_ok ({} \<union> set (fst h)) e"
      by (rule ref_edges(1) [OF h _ e]) simp
    then show ?thesis
      by (rule edge_ok_mono) (auto simp: g er)
  qed
qed

lemma astToGraph_parents:
  assumes "astToGraph v = Inr g"
  shows "wf_parents {} (fst g)"
proof -
  have ref: "ref_steps k fs par i prev ss = Inr (ns, es) \<Longrightarrow> set_option par \<subseteq> S \<Longrightarrow> wf_parents S ns"
    for k fs par i prev S es and ns :: "'a wf_node list" and ss
    by (drule ref_wf_parents(1)) simp_all
  from assms show ?thesis
    by (rule astToGraphE) (auto split: if_splits intro: ref)
qed

text \<open>
  C9. A graph that \<open>astToGraph\<close> returns is one React Flow accepts: the node ids are distinct,
  every node that has a parent stands after it in the array, and every edge links two nodes
  of the graph that are in the same container (or both at the top level).
\<close>

theorem astToGraph_well_formed:
  assumes "astToGraph v = Inr g"
  shows "distinct (map n_id (fst g)) \<and> wf_parents {} (fst g) \<and> (\<forall>e \<in> set (snd g). edge_ok (set (fst g)) e)"
  using astToGraph_ids [OF assms] astToGraph_parents [OF assms] astToGraph_edges [OF assms] by blast

text \<open>A version with a condition, a nested activity and an error sequence.\<close>

definition sample_version :: "string workflow_version" where
  "sample_version =
     \<lparr>wv_root = Sequence
        [Step ''s'' None (Some (Condition [Branch ''x'' (Sequence
            [Step ''h'' (Some (Activity (Some ''GET'') None None None None)) None None None])] None)) None None,
         Step ''e'' (Some (Activity None None None None (Some ''done''))) None None None],
      wv_errorSequence = Some (Sequence
        [Step ''f'' (Some (Activity None None None (Some ''failed'') None)) None None None])\<rparr>"

theorem astToGraph_well_formed_witness:
  "case astToGraph sample_version of Inl e \<Rightarrow> False
   | Inr g \<Rightarrow> length (fst g) = 7 \<and> length (snd g) = 2 \<and> distinct (map n_id (fst g)) \<and> wf_parents {} (fst g)
       \<and> (\<forall>e \<in> set (snd g). edge_ok (set (fst g)) e)"
proof -
  have "case astToGraph sample_version of Inl e \<Rightarrow> False
    | Inr g \<Rightarrow> length (fst g) = 7 \<and> length (snd g) = 2"
    by (simp add: sample_version_def astToGraph_def walkSequence_def sequenceSteps_def activityConfig_def)
  then show ?thesis
    using astToGraph_well_formed [of sample_version] by (auto split: sum.splits)
qed

lemma astToGraph_entries:
  fixes v :: "'c workflow_version"
  assumes "astToGraph v = Inr g"
  shows "step_entries (fst g) = {(formatStepPath p, step_ident s) | p s. lookup_version v p = Some s}"
  using assms
proof (rule astToGraphE)
  fix st a er
  let ?es = "sequenceSteps (wv_errorSequence v)" and ?rs = "seq_steps (wv_root v)"
  let ?e = "plain_node (fmt ERROR_ROOT []) ''error'' None (RegionData ErrorRegion None) :: 'c wf_node"
  assume a: "ref_steps ROOT [] None 0 None ?rs = Inr a"
    and st: "(if ?rs \<noteq> [] then ([start_node], [addEdge START (fmt ROOT [PathFrame 0 None]) StartEdge])
      else ([], [])) = st"
    and er: "?es = [] \<and> er = ([], []) \<or> (\<exists>h. ref_steps ERROR_ROOT [] (Some (fmt ERROR_ROOT [])) 0 None ?es = Inr h
        \<and> er = (?e # fst h, snd h))"
    and g: "g = (fst st @ fst a @ fst er, snd st @ snd a @ snd er)"
  let ?m = "map_prod id step_ident :: string \<times> 'c step \<Rightarrow> string \<times> string"
  have "step_entries (fst st) = {}"
    unfolding st [symmetric] by simp
  moreover have "step_entries (fst er) = ?m ` located_from ERROR_ROOT [] 0 ?es"
    using er by (elim disjE exE conjE) (simp_all add: ref_entries(1) step_node_def)
  ultimately have "step_entries (fst g) = ?m ` (located_from ROOT [] 0 ?rs \<union> located_from ERROR_ROOT [] 0 ?es)"
    unfolding g fst_conv step_entries_simps ref_entries(1) [OF a] image_Un by simp
  also have "\<dots> = {(formatStepPath p, step_ident s) | p s. lookup_version v p = Some s}"
    unfolding located_version by force
  finally show ?thesis .
qed

text \<open>
  C8. \<open>astToGraph\<close> throws exactly when some step of the version (in the root sequence, in a
  nested region or in the error sequence) sets no kind, or is an activity that sets none; and
  when it returns, its step nodes are exactly the steps of the version: a step node with id
  \<open>i\<close> for the step \<open>s\<close> exists iff \<open>i\<close> is the id of a path that leads to \<open>s\<close>.
\<close>

theorem astToGraph_covers:
  "((\<exists>g. astToGraph v = Inr g) \<longleftrightarrow> \<not> (\<exists>p s. lookup_version v p = Some s \<and> \<not> kinded s))
   \<and> (case astToGraph v of Inl e \<Rightarrow> True
      | Inr g \<Rightarrow> step_entries (fst g) = {(formatStepPath p, step_ident s) | p s. lookup_version v p = Some s})"
proof
  let ?R = "ref_steps ROOT [] None 0 None (seq_steps (wv_root v))"
  let ?E = "ref_steps ERROR_ROOT [] (Some (fmt ERROR_ROOT [])) 0 None (sequenceSteps (wv_errorSequence v))"
  have "(\<exists>g. astToGraph v = Inr g) \<longleftrightarrow> (\<exists>g. ?R = Inr g) \<and> (\<exists>g. ?E = Inr g)"
    by (cases ?R; cases ?E) (auto simp: astToGraph_ref)
  also have "\<dots> \<longleftrightarrow> (\<forall>x \<in> {(formatStepPath p, s) | p s. lookup_version v p = Some s}. kinded (snd x))"
    by (simp add: ref_returns_iff(1) ball_Un del: split_paired_Ex flip: located_version)
  finally show "(\<exists>g. astToGraph v = Inr g) \<longleftrightarrow> \<not> (\<exists>p s. lookup_version v p = Some s \<and> \<not> kinded s)"
    by fastforce
next
  show "case astToGraph v of Inl e \<Rightarrow> True
      | Inr g \<Rightarrow> step_entries (fst g) = {(formatStepPath p, step_ident s) | p s. lookup_version v p = Some s}"
    by (cases "astToGraph v") (simp_all only: sum.case astToGraph_entries)
qed

end
