(* ===== verification/Graph_Layout.thy ===== *)
theory Graph_Layout
  imports Ast_Graph
begin

text \<open>
  The layout pass of the workflow canvas
  (\<^verbatim>\<open>packages/features/src/workflows/transform/layout.ts\<close>). The elk engine is a third-party
  package: \<open>elk.layout\<close> is the argument \<open>elk_layout\<close>, a function from the tree built here to
  the same tree with boxes, or a rejection. Coordinates are rationals.

  The recursion of \<open>toElkNode\<close> follows the child lists and would not end on a graph in which a
  node is its own ancestor below a root; the model carries fuel, and running out of it is
  \<^const>\<open>None\<close> (the stack overflow of the code). The theory shows that a graph with distinct ids
  whose parents precede their children, as \<^const>\<open>astToGraph\<close> returns, never runs out: the number
  of its nodes is enough fuel. It also shows that every node reaches elk, that all boxes come
  back on the grid, and that the error region stands to the right of the main flow.
\<close>

section \<open>Constants\<close>

definition PAD :: rat where "PAD = GRID"

definition V_GAP :: rat where "V_GAP = 3 * GRID"

definition H_GAP :: rat where "H_GAP = 2 * GRID"

definition CROSS_GAP :: rat where "CROSS_GAP = 2 * GRID"

definition CONTAINER_TOP :: rat where "CONTAINER_TOP = HEADER_ROW + PAD"

definition REGION_TOP :: rat where "REGION_TOP = LABEL_ROW + PAD"

definition ERROR_GAP :: rat where "ERROR_GAP = 4 * GRID"

text \<open>\<open>String(v)\<close> for a non-negative integer value.\<close>

definition num_str :: "rat \<Rightarrow> string" where
  "num_str v = nat_str (nat \<lfloor>v\<rfloor>)"

type_synonym layout_options = "(string \<times> string) list"

definition VERTICAL_OPTIONS :: layout_options where
  "VERTICAL_OPTIONS =
     [(''elk.algorithm'', ''layered''),
      (''elk.direction'', ''DOWN''),
      (''elk.layered.spacing.nodeNodeBetweenLayers'', num_str V_GAP),
      (''elk.spacing.nodeNode'', num_str CROSS_GAP)]"

definition padding_str :: "rat \<Rightarrow> string" where
  "padding_str t = ''[top='' @ num_str t @ '',left='' @ num_str PAD @ '',bottom='' @ num_str PAD
     @ '',right='' @ num_str PAD @ '']''"

definition REGION_LAYOUT_OPTIONS :: layout_options where
  "REGION_LAYOUT_OPTIONS = VERTICAL_OPTIONS @ [(''elk.padding'', padding_str REGION_TOP)]"

definition CONTAINER_LAYOUT_OPTIONS :: layout_options where
  "CONTAINER_LAYOUT_OPTIONS =
     [(''elk.algorithm'', ''layered''),
      (''elk.direction'', ''RIGHT''),
      (''elk.layered.spacing.nodeNodeBetweenLayers'', num_str H_GAP),
      (''elk.spacing.nodeNode'', num_str CROSS_GAP),
      (''elk.padding'', padding_str CONTAINER_TOP)]"

definition ROOT_ID :: string where "ROOT_ID = ''__root__''"

text \<open>\<open>Math.round\<close> rounds halves up.\<close>

definition snap :: "rat \<Rightarrow> rat" where
  "snap v = of_int \<lfloor>v / GRID + 1 / 2\<rfloor> * GRID"

section \<open>The elk tree\<close>

record elk_edge =
  elk_edge_id :: string
  elk_sources :: "string list"
  elk_targets :: "string list"

datatype elk_node = ElkNode
  (elk_id: string)
  (elk_layoutOptions: "layout_options option")
  (elk_children: "elk_node list option")
  (elk_edges: "elk_edge list option")
  (elk_width: "rat option") (elk_height: "rat option")
  (elk_x: "rat option") (elk_y: "rat option")

text \<open>\<open>new Map(graph.nodes.map((node) => [node.id, node]))\<close>: the last of equal ids wins.\<close>

definition nodeById :: "'c wf_node list \<Rightarrow> string \<Rightarrow> 'c wf_node option" where
  "nodeById nodes = fold (\<lambda>n m. m(n_id n \<mapsto> n)) nodes Map.empty"

text \<open>\<open>map.set(k, [...(map.get(k) ?? []), v])\<close>, for the lists kept per key.\<close>

definition push_at :: "string \<Rightarrow> 'v \<Rightarrow> (string \<rightharpoonup> 'v list) \<Rightarrow> (string \<rightharpoonup> 'v list)" where
  "push_at k v m = m(k \<mapsto> or_default (m k) [] @ [v])"

fun collect_children ::
  "'c wf_node list \<Rightarrow> (string \<rightharpoonup> string list) \<times> string list \<Rightarrow> (string \<rightharpoonup> string list) \<times> string list" where
  "collect_children [] (childIds, roots) = (childIds, roots)"
| "collect_children (n # ns) (childIds, roots) =
     (case n_parentId n of
        None \<Rightarrow> collect_children ns (childIds, roots @ [n_id n])
      | Some p \<Rightarrow> collect_children ns (push_at p (n_id n) childIds, roots))"

definition childIds :: "'c wf_node list \<Rightarrow> string \<rightharpoonup> string list" where
  "childIds nodes = fst (collect_children nodes (Map.empty, []))"

definition roots :: "'c wf_node list \<Rightarrow> string list" where
  "roots nodes = snd (collect_children nodes (Map.empty, []))"

text \<open>The edges of which both ends have the same parent, per container.\<close>

fun own_edges :: "(string \<Rightarrow> 'c wf_node option) \<Rightarrow> wf_edge list \<Rightarrow> (string \<rightharpoonup> elk_edge list) \<Rightarrow> (string \<rightharpoonup> elk_edge list)" where
  "own_edges byId [] m = m"
| "own_edges byId (e # es) m =
     (let sourceParent = Option.bind (byId (e_source e)) n_parentId;
          targetParent = Option.bind (byId (e_target e)) n_parentId
      in if sourceParent \<noteq> targetParent then own_edges byId es m
         else own_edges byId es
           (push_at (or_default sourceParent ROOT_ID)
              \<lparr>elk_edge_id = e_id e, elk_sources = [e_source e], elk_targets = [e_target e]\<rparr> m))"

definition edgesByContainer :: "'c wf_graph \<Rightarrow> string \<rightharpoonup> elk_edge list" where
  "edgesByContainer graph = own_edges (nodeById (fst graph)) (snd graph) Map.empty"

definition orderingEdges :: "'c wf_node list \<Rightarrow> string \<Rightarrow> elk_edge list" where
  "orderingEdges nodes containerId =
     (let regions = or_default (childIds nodes containerId) []
      in map (\<lambda>(a, b). \<lparr>elk_edge_id = ''__order__:'' @ a @ ''=>'' @ b, elk_sources = [a], elk_targets = [b]\<rparr>)
           (zip regions (tl regions)))"

definition is_container :: "'c wf_node option \<Rightarrow> bool" where
  "is_container node = (case node of
     None \<Rightarrow> False
   | Some n \<Rightarrow> (case n_data n of ContainerData _ _ _ _ \<Rightarrow> True | _ \<Rightarrow> False))"

text \<open>\<open>all_some\<close> is \<open>map\<close> over a computation that may run out of fuel.\<close>

fun all_some :: "'a option list \<Rightarrow> 'a list option" where
  "all_some [] = Some []"
| "all_some (x # xs) = Option.bind x (\<lambda>y. Option.bind (all_some xs) (\<lambda>ys. Some (y # ys)))"

definition nonempty :: "'a list \<Rightarrow> 'a list option" where
  "nonempty xs = (if xs = [] then None else Some xs)"

primrec toElkNode :: "nat \<Rightarrow> 'c wf_graph \<Rightarrow> string \<Rightarrow> elk_node option" where
  "toElkNode 0 graph i = None"
| "toElkNode (Suc fuel) graph i =
     (let node = nodeById (fst graph) i;
          children = or_default (childIds (fst graph) i) []
      in if children \<noteq> [] then
           Option.bind (all_some (map (toElkNode fuel graph) children)) (\<lambda>cs.
             Some (ElkNode i
               (Some (if is_container node then CONTAINER_LAYOUT_OPTIONS else REGION_LAYOUT_OPTIONS))
               (Some cs)
               (nonempty (if is_container node then orderingEdges (fst graph) i
                          else or_default (edgesByContainer graph i) []))
               None None None None))
         else
           Some (ElkNode i None None (edgesByContainer graph i)
             (Option.bind node n_width) (Option.bind node n_height) None None))"

definition elkRoot :: "nat \<Rightarrow> 'c wf_graph \<Rightarrow> elk_node option" where
  "elkRoot fuel graph =
     Option.bind (all_some (map (toElkNode fuel graph) (roots (fst graph)))) (\<lambda>cs.
       Some (ElkNode ROOT_ID (Some VERTICAL_OPTIONS) (Some cs) (edgesByContainer graph ROOT_ID)
         None None None None))"

section \<open>Reading the boxes back\<close>

record box =
  box_x :: rat
  box_y :: rat
  box_width :: rat
  box_height :: rat

text \<open>
  \<open>collect\<close> sets the box of every child of a node and then those below that child, so of
  equal ids the last one visited wins.
\<close>

fun collect :: "elk_node \<Rightarrow> (string \<rightharpoonup> box) \<Rightarrow> (string \<rightharpoonup> box)"
  and collect_all :: "elk_node list \<Rightarrow> (string \<rightharpoonup> box) \<Rightarrow> (string \<rightharpoonup> box)" where
  "collect (ElkNode i lo cs es w h x y) m = (case cs of None \<Rightarrow> m | Some l \<Rightarrow> collect_all l m)"
| "collect_all [] m = m"
| "collect_all (c # cs) m =
     collect_all cs (collect c (m(elk_id c \<mapsto>
       \<lparr>box_x = or_default (elk_x c) 0, box_y = or_default (elk_y c) 0,
        box_width = or_default (elk_width c) 0, box_height = or_default (elk_height c) 0\<rparr>)))"

definition snap_box :: "box \<Rightarrow> box" where
  "snap_box b = \<lparr>box_x = snap (box_x b), box_y = snap (box_y b),
                 box_width = snap (box_width b), box_height = snap (box_height b)\<rparr>"

text \<open>
  The loop over the top-level nodes: the right edge of the main flow, and its top, which is
  \<^const>\<open>None\<close> while it is \<open>Infinity\<close>.
\<close>

fun main_extent :: "(string \<rightharpoonup> box) \<Rightarrow> string list \<Rightarrow> rat \<times> rat option \<Rightarrow> rat \<times> rat option" where
  "main_extent positioned [] acc = acc"
| "main_extent positioned (i # is) (mainRight, mainTop) =
     (if i = root_str ERROR_ROOT then main_extent positioned is (mainRight, mainTop)
      else case positioned i of
             None \<Rightarrow> main_extent positioned is (mainRight, mainTop)
           | Some b \<Rightarrow> main_extent positioned is
               (max mainRight (box_x b + box_width b),
                Some (case mainTop of None \<Rightarrow> box_y b | Some t \<Rightarrow> min t (box_y b))))"

definition pin_error :: "string list \<Rightarrow> (string \<rightharpoonup> box) \<Rightarrow> (string \<rightharpoonup> box)" where
  "pin_error rts positioned =
     (case positioned (root_str ERROR_ROOT) of
        None \<Rightarrow> positioned
      | Some errorBox \<Rightarrow>
          (let (mainRight, mainTop) = main_extent positioned rts (0, None)
           in positioned(root_str ERROR_ROOT \<mapsto>
                errorBox\<lparr>box_x := mainRight + ERROR_GAP, box_y := or_default mainTop (box_y errorBox)\<rparr>)))"

definition place :: "(string \<rightharpoonup> box) \<Rightarrow> 'c wf_node \<Rightarrow> 'c wf_node" where
  "place positioned node =
     (case positioned (n_id node) of
        None \<Rightarrow> node
      | Some b \<Rightarrow> node\<lparr>n_position := (box_x b, box_y b), n_width := Some (box_width b),
                       n_height := Some (box_height b), n_style := Some (box_width b, box_height b)\<rparr>)"

definition positions :: "elk_node \<Rightarrow> string list \<Rightarrow> (string \<rightharpoonup> box)" where
  "positions laidOut rts = pin_error rts (map_option snap_box \<circ> collect laidOut Map.empty)"

datatype layout_error = LayoutStackOverflow | LayoutRejected

definition layoutGraph ::
  "nat \<Rightarrow> (elk_node \<Rightarrow> elk_node option) \<Rightarrow> 'c wf_graph \<Rightarrow> layout_error + 'c wf_graph" where
  "layoutGraph fuel elk_layout graph =
     (case elkRoot fuel graph of
        None \<Rightarrow> Inl LayoutStackOverflow
      | Some tree \<Rightarrow>
          (case elk_layout tree of
             None \<Rightarrow> Inl LayoutRejected
           | Some laidOut \<Rightarrow>
               Inr (map (place (positions laidOut (roots (fst graph)))) (fst graph), snd graph)))"

section \<open>The tables of the pass\<close>

lemma collect_children_eq:
  "collect_children ns (m, r) =
     (\<lambda>p. let l = map n_id (filter (\<lambda>n. n_parentId n = Some p) ns)
          in if l = [] then m p else Some (or_default (m p) [] @ l),
      r @ map n_id (filter (\<lambda>n. n_parentId n = None) ns))"
  by (induction ns arbitrary: m r) (auto simp: push_at_def Let_def fun_eq_iff split: option.splits)

lemma children_of:
  "or_default (childIds ns p) [] = map n_id (filter (\<lambda>n. n_parentId n = Some p) ns)"
  by (simp add: childIds_def collect_children_eq Let_def)

lemma roots_eq: "roots ns = map n_id (filter (\<lambda>n. n_parentId n = None) ns)"
  by (simp add: roots_def collect_children_eq)

lemma all_some_eq_Some: "all_some xs = Some ys \<longleftrightarrow> xs = map Some ys"
  by (induction xs arbitrary: ys) (auto simp: bind_eq_Some_conv map_eq_Cons_conv)

lemma all_some_total: "\<forall>x \<in> set xs. \<exists>y. x = Some y \<Longrightarrow> \<exists>ys. all_some xs = Some ys"
  by (induction xs) auto

section \<open>Every node reaches elk\<close>

text \<open>The ids below a node of an elk tree.\<close>

fun elk_below :: "elk_node \<Rightarrow> string set"
  and elk_ids :: "elk_node list \<Rightarrow> string set" where
  "elk_below (ElkNode i lo cs es w h x y) = (case cs of None \<Rightarrow> {} | Some l \<Rightarrow> elk_ids l)"
| "elk_ids [] = {}"
| "elk_ids (c # cs) = insert (elk_id c) (elk_below c) \<union> elk_ids cs"

lemma elk_ids_eq: "elk_ids cs = (\<Union>c \<in> set cs. insert (elk_id c) (elk_below c))"
  by (induction cs) auto

lemma toElkNode_SomeE:
  assumes "toElkNode fuel graph i = Some t"
  obtains f cs where "fuel = Suc f" and "elk_id t = i" and "elk_below t = elk_ids cs"
    and "map (toElkNode f graph) (map n_id (filter (\<lambda>n. n_parentId n = Some i) (fst graph))) = map Some cs"
  using assms
  by (cases fuel) (auto simp: children_of Let_def bind_eq_Some_conv all_some_eq_Some
      simp del: map_map split: if_splits)

lemma toElkNode_id: "toElkNode fuel graph i = Some t \<Longrightarrow> elk_id t = i"
  by (auto elim: toElkNode_SomeE)

lemma elk_idsI: "y \<in> set cs \<Longrightarrow> toElkNode fuel graph i = Some y \<Longrightarrow> i \<in> elk_ids cs"
  by (metis UN_I elk_ids_eq insertI1 toElkNode_id)

lemma map_SomeE:
  assumes "map f xs = map Some ys" and "x \<in> set xs"
  obtains y where "y \<in> set ys" and "f x = Some y"
  using assms by (metis (mono_tags, opaque_lifting) image_iff image_set list.set_map)

lemma map_SomeE':
  assumes "map f xs = map Some ys" and "y \<in> set ys"
  obtains x where "x \<in> set xs" and "f x = Some y"
  using assms by (metis (mono_tags, opaque_lifting) image_iff list.set_map)

lemma toElkNode_closed:
  assumes "toElkNode fuel graph i = Some t" and "x \<in> insert i (elk_below t)"
    and "c \<in> set (fst graph)" and "n_parentId c = Some x"
  shows "n_id c \<in> elk_below t"
  using assms
proof (induction fuel arbitrary: i t)
  case 0
  then show ?case by simp
next
  case (Suc fuel)
  from Suc.prems(1) obtain f cs where f: "Suc fuel = Suc f" and below: "elk_below t = elk_ids cs"
    and cs': "map (toElkNode f graph) (map n_id (filter (\<lambda>n. n_parentId n = Some i) (fst graph))) = map Some cs"
    by (rule toElkNode_SomeE)
  from f have ff: "f = fuel" by simp
  from cs' have cs: "map (toElkNode fuel graph) (map n_id (filter (\<lambda>n. n_parentId n = Some i) (fst graph))) = map Some cs"
    unfolding ff .
  show ?case
  proof (cases "x = i")
    case True
    with Suc.prems have "n_id c \<in> set (map n_id (filter (\<lambda>n. n_parentId n = Some i) (fst graph)))"
      by auto
    with cs obtain y where "y \<in> set cs" and "toElkNode fuel graph (n_id c) = Some y"
      by (rule map_SomeE)
    then show ?thesis
      unfolding below by (rule elk_idsI)
  next
    case False
    with Suc.prems(2) obtain y where y: "y \<in> set cs" "x \<in> insert (elk_id y) (elk_below y)"
      unfolding below elk_ids_eq by auto
    from cs y(1) obtain j where "toElkNode fuel graph j = Some y"
      by (rule map_SomeE')
    then have "n_id c \<in> elk_below y"
      using Suc.IH y(2) Suc.prems(3,4) toElkNode_id by metis
    with y(1) show ?thesis
      unfolding below elk_ids_eq by blast
  qed
qed

lemma toElkNode_below:
  "toElkNode fuel graph i = Some t \<Longrightarrow> elk_below t \<subseteq> node_ids (fst graph)"
proof (induction fuel arbitrary: i t)
  case (Suc fuel)
  from Suc.prems obtain f cs where f: "Suc fuel = Suc f" and below: "elk_below t = elk_ids cs"
    and cs': "map (toElkNode f graph) (map n_id (filter (\<lambda>n. n_parentId n = Some i) (fst graph))) = map Some cs"
    by (rule toElkNode_SomeE)
  from f have ff: "f = fuel" by simp
  from cs' have cs: "map (toElkNode fuel graph) (map n_id (filter (\<lambda>n. n_parentId n = Some i) (fst graph))) = map Some cs"
    unfolding ff .
  have "insert (elk_id y) (elk_below y) \<subseteq> node_ids (fst graph)" if y: "y \<in> set cs" for y
  proof -
    from cs y obtain j where "j \<in> set (map n_id (filter (\<lambda>n. n_parentId n = Some i) (fst graph)))"
      and j: "toElkNode fuel graph j = Some y"
      by (rule map_SomeE')
    then show ?thesis
      using Suc.IH [OF j] toElkNode_id [OF j] by (auto simp: node_ids_def)
  qed
  then show ?case
    unfolding below elk_ids_eq by blast
qed simp

section \<open>Enough fuel\<close>

lemma wf_parents_before:
  assumes "wf_parents {} ns" and "c \<in> set ns" and "n_parentId c = Some p"
  obtains pre post where "ns = pre @ c # post" and "p \<in> node_ids pre"
  using split_list [OF assms(2)] assms(1,3) that by fastforce

lemma toElkNode_total:
  assumes "distinct (map n_id (fst graph))" and "wf_parents {} (fst graph)"
    and "fst graph = pre @ n # post" and "length post < fuel"
  shows "\<exists>t. toElkNode fuel graph (n_id n) = Some t"
  using assms(3,4)
proof (induction fuel arbitrary: pre n post)
  case (Suc fuel)
  have "\<exists>t. toElkNode fuel graph (n_id c) = Some t" if in_c: "c \<in> set (fst graph)" "n_parentId c = Some (n_id n)" for c
  proof -
    obtain pre' post' where c: "fst graph = pre' @ c # post'" "n_id n \<in> node_ids pre'"
      using wf_parents_before [OF assms(2) in_c] .
    then obtain k where k: "k < length pre'" "n_id n = n_id (pre' ! k)"
      by (auto simp: node_ids_def in_set_conv_nth)
    have len: "length (fst graph) = length pre' + Suc (length post')"
      "length (fst graph) = length pre + Suc (length post)"
      using arg_cong [OF c(1), of length] arg_cong [OF Suc.prems(1), of length] by simp_all
    have "map n_id (fst graph) ! k = n_id n"
      using k by (simp add: c(1) nth_append)
    moreover have "map n_id (fst graph) ! length pre = n_id n"
      by (simp add: Suc.prems(1) nth_append)
    ultimately have "k = length pre"
      using nth_eq_iff_index_eq [OF assms(1), of k "length pre"] k(1) len by simp
    with k(1) len Suc.prems(2) have "length post' < fuel"
      by linarith
    with c(1) show ?thesis by (rule Suc.IH)
  qed
  then have "\<exists>cs. all_some (map (toElkNode fuel graph) (or_default (childIds (fst graph) (n_id n)) [])) = Some cs"
    by (intro all_some_total) (auto simp: children_of)
  then show ?case
    by (auto simp: Let_def)
qed simp

lemma elkRoot_total:
  assumes "distinct (map n_id (fst graph))" and "wf_parents {} (fst graph)"
    and "length (fst graph) \<le> fuel"
  shows "\<exists>t. elkRoot fuel graph = Some t"
proof -
  have "\<exists>t. toElkNode fuel graph (n_id n) = Some t" if "n \<in> set (fst graph)" for n
    using split_list [OF that] toElkNode_total [OF assms(1,2)] assms(3) by fastforce
  then have "\<exists>cs. all_some (map (toElkNode fuel graph) (roots (fst graph))) = Some cs"
    by (intro all_some_total) (auto simp: roots_eq)
  then show ?thesis by (auto simp: elkRoot_def)
qed

lemma elkRoot_below:
  assumes "elkRoot fuel graph = Some t" and "wf_parents {} (fst graph)"
  shows "elk_below t = node_ids (fst graph)"
proof
  from assms(1) obtain cs where below: "elk_below t = elk_ids cs"
    and cs: "map (toElkNode fuel graph) (roots (fst graph)) = map Some cs"
    by (auto simp: elkRoot_def bind_eq_Some_conv all_some_eq_Some)
  have "insert (elk_id y) (elk_below y) \<subseteq> node_ids (fst graph)" if in_cs: "y \<in> set cs" for y
  proof -
    obtain j where j: "j \<in> set (roots (fst graph))" "toElkNode fuel graph j = Some y"
      using map_SomeE' [OF cs in_cs] .
    then show ?thesis
      using toElkNode_below [OF j(2)] toElkNode_id [OF j(2)] by (auto simp: roots_eq node_ids_def)
  qed
  then show "elk_below t \<subseteq> node_ids (fst graph)"
    unfolding below elk_ids_eq by blast
  have "n_id n \<in> elk_below t" if "fst graph = pre @ n # post" for pre n post
    using that
  proof (induction "length pre" arbitrary: pre n post rule: less_induct)
    case less
    show ?case
    proof (cases "n_parentId n")
      case None
      with less.prems have "n_id n \<in> set (roots (fst graph))"
        by (auto simp: roots_eq)
      with cs obtain y where "y \<in> set cs" "toElkNode fuel graph (n_id n) = Some y"
        by (rule map_SomeE)
      then show ?thesis
        unfolding below by (rule elk_idsI)
    next
      case (Some p)
      with less.prems assms(2) have "p \<in> node_ids pre" by simp
      then obtain q qs rs where pre: "pre = qs @ q # rs" and p: "n_id q = p"
        by (auto simp: node_ids_def dest: split_list)
      have "p \<in> elk_below t"
        using less.hyps [of qs q "rs @ n # post"] less.prems pre p by simp
      then obtain y where y: "y \<in> set cs" "p \<in> insert (elk_id y) (elk_below y)"
        unfolding below elk_ids_eq by blast
      from cs y(1) obtain j where j: "toElkNode fuel graph j = Some y"
        by (rule map_SomeE')
      have "n_id n \<in> elk_below y"
        using toElkNode_closed [OF j _ _ Some] y(2) toElkNode_id [OF j] less.prems by simp
      with y(1) show ?thesis
        unfolding below elk_ids_eq by blast
    qed
  qed
  then show "node_ids (fst graph) \<subseteq> elk_below t"
    by (auto simp: node_ids_def dest!: split_list)
qed

section \<open>The grid\<close>

definition on_grid :: "rat \<Rightarrow> bool" where
  "on_grid v \<longleftrightarrow> (\<exists>k :: int. v = of_int k * GRID)"

definition box_on_grid :: "box \<Rightarrow> bool" where
  "box_on_grid b \<longleftrightarrow> on_grid (box_x b) \<and> on_grid (box_y b) \<and> on_grid (box_width b) \<and> on_grid (box_height b)"

lemma on_grid_snap [simp]: "on_grid (snap v)"
  by (auto simp: on_grid_def snap_def)

lemma on_grid_add: "on_grid a \<Longrightarrow> on_grid b \<Longrightarrow> on_grid (a + b)"
  unfolding on_grid_def by (metis of_int_add distrib_right)

lemma on_grid_const [simp]: "on_grid 0" "on_grid ERROR_GAP"
  unfolding on_grid_def ERROR_GAP_def by (rule exI [of _ 0], simp) (rule exI [of _ 4], simp)

lemma snap_drift: "\<bar>snap v - v\<bar> \<le> GRID / 2"
proof -
  let ?k = "\<lfloor>v / GRID + 1 / 2\<rfloor>"
  have "of_int ?k \<le> v / GRID + 1 / 2" "v / GRID + 1 / 2 < of_int ?k + 1"
    using floor_correct [of "v / GRID + 1 / 2"] by simp_all
  then show ?thesis
    by (simp add: snap_def GRID_def abs_le_iff field_simps)
qed

lemma snap_on_grid: "on_grid v \<Longrightarrow> snap v = v"
  by (auto simp: on_grid_def snap_def GRID_def floor_eq_iff)

lemma dom_collect:
  "dom (collect t m) = dom m \<union> elk_below t" "dom (collect_all ts m) = dom m \<union> elk_ids ts"
proof (induction t m and ts m rule: collect_collect_all.induct)
  case (3 c cs m)
  then show ?case by (simp only: collect_all.simps elk_ids.simps dom_fun_upd option.distinct if_False) blast
qed (simp_all split: option.splits)

lemma main_extent_grid:
  assumes "\<And>i b. positioned i = Some b \<Longrightarrow> box_on_grid b"
  shows "on_grid r \<Longrightarrow> (\<And>t. top_y = Some t \<Longrightarrow> on_grid t) \<Longrightarrow>
    main_extent positioned is (r, top_y) = (r', t') \<Longrightarrow> on_grid r' \<and> (\<forall>t. t' = Some t \<longrightarrow> on_grid t)"
proof (induction "is" arbitrary: r top_y)
  case (Cons i "is")
  show ?case
  proof (cases "i = root_str ERROR_ROOT \<or> positioned i = None")
    case True
    with Cons.prems(3) have "main_extent positioned is (r, top_y) = (r', t')" by (auto split: option.splits)
    with Cons.prems(1,2) show ?thesis by (rule Cons.IH)
  next
    case False
    then obtain b where b: "positioned i = Some b" by blast
    then have "box_on_grid b" by (rule assms)
    with False b Cons.prems show ?thesis
      by (intro Cons.IH [of "max r (box_x b + box_width b)" "Some (case top_y of None \<Rightarrow> box_y b | Some t \<Rightarrow> min t (box_y b))"])
        (auto simp: max_def min_def box_on_grid_def intro: on_grid_add split: option.splits)
  qed
qed auto

lemma main_extent_bounds:
  assumes "main_extent positioned is (r, top_y) = (r', t')"
  shows "r \<le> r' \<and> (\<forall>t. top_y = Some t \<longrightarrow> (\<exists>u. t' = Some u \<and> u \<le> t))
    \<and> (\<forall>i \<in> set is. \<forall>b. i \<noteq> root_str ERROR_ROOT \<longrightarrow> positioned i = Some b \<longrightarrow>
        box_x b + box_width b \<le> r' \<and> (\<exists>u. t' = Some u \<and> u \<le> box_y b))"
  using assms
proof (induction "is" arbitrary: r top_y)
  case (Cons i "is")
  show ?case
  proof (cases "i = root_str ERROR_ROOT \<or> positioned i = None")
    case True
    with Cons.prems have "main_extent positioned is (r, top_y) = (r', t')" by (auto split: option.splits)
    from Cons.IH [OF this] True show ?thesis by auto
  next
    case False
    then obtain b where b: "positioned i = Some b" by blast
    let ?t = "case top_y of None \<Rightarrow> box_y b | Some t \<Rightarrow> min t (box_y b)"
    from b False Cons.prems have "main_extent positioned is (max r (box_x b + box_width b), Some ?t) = (r', t')"
      by simp
    from Cons.IH [OF this] b False show ?thesis
      by (auto split: option.splits)
  qed
qed auto

lemma snapped_on_grid: "(map_option snap_box \<circ> m) i = Some b \<Longrightarrow> box_on_grid b"
  by (auto simp: box_on_grid_def snap_box_def)

lemma positions_on_grid:
  assumes "positions t rts i = Some b"
  shows "box_on_grid b"
proof (cases "(map_option snap_box \<circ> collect t Map.empty) (root_str ERROR_ROOT)")
  case None
  with assms show ?thesis
    by (simp add: positions_def pin_error_def snapped_on_grid)
next
  case (Some e)
  let ?p = "map_option snap_box \<circ> collect t Map.empty"
  obtain r u where ext: "main_extent ?p rts (0, None) = (r, u)" by fastforce
  have "on_grid r \<and> (\<forall>t. u = Some t \<longrightarrow> on_grid t)"
    by (rule main_extent_grid [OF snapped_on_grid _ _ ext]) simp_all
  moreover have "box_on_grid e" using Some by (rule snapped_on_grid)
  ultimately show ?thesis
    using assms Some ext snapped_on_grid [of "collect t Map.empty" i b]
    by (auto simp: positions_def pin_error_def box_on_grid_def on_grid_add or_default_def
        split: if_splits option.splits)
qed

lemma dom_positions: "dom (positions t rts) = elk_below t"
proof -
  have "dom (pin_error rts p) = dom p" for p
    by (auto simp: pin_error_def split: option.splits prod.splits)
  moreover have "dom (map_option snap_box \<circ> m) = dom m" for m :: "string \<rightharpoonup> box"
    by (auto simp: dom_def)
  ultimately show ?thesis
    by (simp add: positions_def dom_collect)
qed

section \<open>The pass as a whole\<close>

lemma place_sel [simp]:
  "n_id (place p n) = n_id n" "n_type (place p n) = n_type n"
  "n_parentId (place p n) = n_parentId n" "n_data (place p n) = n_data n"
  by (simp_all add: place_def split: option.splits)

lemma place_Some:
  "p (n_id n) = Some b \<Longrightarrow>
     n_position (place p n) = (box_x b, box_y b) \<and> n_width (place p n) = Some (box_width b)
     \<and> n_height (place p n) = Some (box_height b) \<and> n_style (place p n) = Some (box_width b, box_height b)"
  by (simp add: place_def)

text \<open>A node placed on the grid.\<close>

definition placed_on_grid :: "'c wf_node \<Rightarrow> bool" where
  "placed_on_grid n \<longleftrightarrow> on_grid (fst (n_position n)) \<and> on_grid (snd (n_position n))
     \<and> (\<exists>w h. n_width n = Some w \<and> n_height n = Some h \<and> n_style n = Some (w, h) \<and> on_grid w \<and> on_grid h)"

text \<open>What the pass leaves as it was.\<close>

definition node_core :: "'c wf_node \<Rightarrow> string \<times> string \<times> string option \<times> 'c node_data" where
  "node_core n = (n_id n, n_type n, n_parentId n, n_data n)"

text \<open>
  The recursion over the child lists ends on every graph with distinct ids whose parents
  precede their children: as much fuel as there are nodes is enough, and the elk tree then
  holds exactly the nodes of the graph.
\<close>

theorem elkRoot_reaches_every_node:
  assumes "distinct (map n_id (fst graph))" and "wf_parents {} (fst graph)"
    and "length (fst graph) \<le> fuel"
  shows "\<exists>t. elkRoot fuel graph = Some t \<and> elk_below t = node_ids (fst graph)"
  using elkRoot_total [OF assms] elkRoot_below [OF _ assms(2)] by blast

definition sample_graph :: "string wf_graph" where
  "sample_graph = (case astToGraph sample_version of Inl e \<Rightarrow> ([], []) | Inr g \<Rightarrow> g)"

lemma sample_graph_ok: "astToGraph sample_version = Inr sample_graph"
  unfolding sample_graph_def
  by (simp add: sample_version_def astToGraph_def walkSequence_def sequenceSteps_def activityConfig_def)

theorem elkRoot_reaches_every_node_witness:
  "\<exists>t. elkRoot (length (fst sample_graph)) sample_graph = Some t \<and> elk_below t = node_ids (fst sample_graph)"
  using elkRoot_reaches_every_node [of sample_graph "length (fst sample_graph)"]
    astToGraph_ids [OF sample_graph_ok] astToGraph_parents [OF sample_graph_ok] by simp

text \<open>
  Laying out a graph that the transform returned succeeds whenever elk does, if elk keeps
  the nodes it is given; the nodes keep their order, ids, types, parents and data, the edges
  are untouched, and every position and every size of the result is a multiple of the grid.
\<close>

theorem layoutGraph_on_grid:
  assumes "astToGraph v = Inr g"
    and elk_keeps_nodes: "\<And>t. \<exists>t'. elk_layout t = Some t' \<and> elk_below t' = elk_below t"
  shows "\<exists>g'. layoutGraph (length (fst g)) elk_layout g = Inr g'
    \<and> map node_core (fst g') = map node_core (fst g) \<and> snd g' = snd g
    \<and> (\<forall>n \<in> set (fst g'). placed_on_grid n)"
proof -
  obtain t where t: "elkRoot (length (fst g)) g = Some t" and bt: "elk_below t = node_ids (fst g)"
    using elkRoot_total [OF astToGraph_ids astToGraph_parents, OF assms(1,1)]
      elkRoot_below [OF _ astToGraph_parents [OF assms(1)]] by blast
  obtain t' where t': "elk_layout t = Some t'" and b: "elk_below t' = node_ids (fst g)"
    using elk_keeps_nodes bt by metis
  let ?p = "positions t' (roots (fst g))"
  have "placed_on_grid (place ?p n)" if n: "n \<in> set (fst g)" for n
  proof -
    have "n_id n \<in> dom ?p"
      using n by (simp add: dom_positions b node_ids_def)
    then obtain x where x: "?p (n_id n) = Some x" by blast
    then show ?thesis
      using place_Some [of ?p n x] positions_on_grid [OF x]
      by (simp add: placed_on_grid_def box_on_grid_def)
  qed
  then show ?thesis
    using t t' by (auto simp: layoutGraph_def node_core_def)
qed

theorem layoutGraph_on_grid_witness:
  "\<exists>g'. layoutGraph (length (fst sample_graph)) Some sample_graph = Inr g'
    \<and> map node_core (fst g') = map node_core (fst sample_graph) \<and> snd g' = snd sample_graph
    \<and> (\<forall>n \<in> set (fst g'). placed_on_grid n)"
  by (rule layoutGraph_on_grid [OF sample_graph_ok]) simp

lemma pin_error_box:
  assumes "pin_error rts p (root_str ERROR_ROOT) = Some e"
    and "r \<in> set rts" and "r \<noteq> root_str ERROR_ROOT" and "pin_error rts p r = Some b"
  shows "box_x b + box_width b + ERROR_GAP \<le> box_x e \<and> box_y e \<le> box_y b \<and> ERROR_GAP \<le> box_x e"
proof -
  obtain mr mt where ext: "main_extent p rts (0, None) = (mr, mt)" by fastforce
  from assms(1) obtain e0 where e0: "p (root_str ERROR_ROOT) = Some e0"
    by (auto simp: pin_error_def split: option.splits)
  with assms(1) ext have e: "e = e0\<lparr>box_x := mr + ERROR_GAP, box_y := or_default mt (box_y e0)\<rparr>"
    by (simp add: pin_error_def)
  have "p r = Some b"
    using assms(3,4) e0 ext by (simp add: pin_error_def)
  then show ?thesis
    using main_extent_bounds [OF ext] assms(2,3) e by (auto simp: or_default_def split: option.splits)
qed

text \<open>
  The on-error region never overlaps the main flow: whatever boxes elk returns, the box of
  every other top-level node that elk placed ends at least \<open>ERROR_GAP\<close> to the left of the
  error region, and the region is never below the top of such a node; that node itself has
  moved by at most half a grid step.
\<close>

theorem positions_pin_error_region:
  assumes "positions laidOut (roots nodes) (root_str ERROR_ROOT) = Some e"
    and "n \<in> set nodes" and "n_parentId n = None" and "n_id n \<noteq> root_str ERROR_ROOT"
    and "collect laidOut Map.empty (n_id n) = Some raw"
  shows "\<exists>b. positions laidOut (roots nodes) (n_id n) = Some b
    \<and> box_x b + box_width b + ERROR_GAP \<le> box_x e \<and> box_y e \<le> box_y b
    \<and> \<bar>box_x b - box_x raw\<bar> \<le> GRID / 2 \<and> \<bar>box_y b - box_y raw\<bar> \<le> GRID / 2"
proof -
  have b: "positions laidOut (roots nodes) (n_id n) = Some (snap_box raw)"
    using assms(1,4,5) by (auto simp: positions_def pin_error_def split: option.splits prod.splits)
  moreover have "n_id n \<in> set (roots nodes)" using assms(2,3) by (auto simp: roots_eq)
  ultimately show ?thesis
    using pin_error_box [OF assms(1) [unfolded positions_def] _ assms(4)] snap_drift
    unfolding positions_def by (auto simp: snap_box_def)
qed

definition sample_tree :: elk_node where
  "sample_tree = ElkNode ROOT_ID None (Some
     [ElkNode ''start'' None None None (Some 120) (Some 40) (Some 13) (Some 12),
      ElkNode ''error'' None None None (Some 440) (Some 200) (Some 0) (Some 300)]) None None None None None"

definition sample_nodes :: "string wf_node list" where
  "sample_nodes = [start_node, plain_node ''error'' ''error'' None StartData]"

theorem positions_pin_error_region_witness:
  "\<exists>e b. positions sample_tree (roots sample_nodes) ''error'' = Some e
    \<and> positions sample_tree (roots sample_nodes) ''start'' = Some b
    \<and> box_x b + box_width b + ERROR_GAP \<le> box_x e \<and> box_y e \<le> box_y b"
proof -
  have "''error'' \<in> dom (positions sample_tree (roots sample_nodes))"
    by (simp add: dom_positions sample_tree_def)
  then obtain e where e: "positions sample_tree (roots sample_nodes) (root_str ERROR_ROOT) = Some e"
    by auto
  have "start_node \<in> set sample_nodes" "n_parentId (start_node :: string wf_node) = None"
    "n_id (start_node :: string wf_node) \<noteq> root_str ERROR_ROOT"
    "collect sample_tree Map.empty (n_id (start_node :: string wf_node))
      = Some \<lparr>box_x = 13, box_y = 12, box_width = 120, box_height = 40\<rparr>"
    by (simp_all add: sample_nodes_def sample_tree_def START_def)
  from positions_pin_error_region [OF e this] e show ?thesis
    by (simp add: START_def) blast
qed

end
