(* ===== verification/Uri_Coding.thy ===== *)
theory Uri_Coding
  imports Prelude
begin

text \<open>
  The percent coding of the standard library, \<open>encodeURIComponent\<close> and
  \<open>decodeURIComponent\<close>, on UTF-8 bytes. The code uses the pair for cookie values
  (\<^verbatim>\<open>packages/storage/src/operations.ts\<close>), and the encoder for URL parts. A decoding that
  throws \<open>URIError\<close> is \<^const>\<open>None\<close>: a percent sign without two hexadecimal digits, or escapes
  whose bytes are not well-formed UTF-8.
\<close>

section \<open>UTF-8\<close>

abbreviation byte :: "char \<Rightarrow> nat" where "byte \<equiv> of_char"

definition continuation :: "char \<Rightarrow> bool" where
  "continuation c \<longleftrightarrow> 128 \<le> byte c \<and> byte c < 192"

text \<open>The number of bytes of a code point, read off its first byte.\<close>

definition utf8_size :: "char \<Rightarrow> nat option" where
  "utf8_size c =
     (if byte c < 128 then Some 1
      else if 194 \<le> byte c \<and> byte c < 224 then Some 2
      else if 224 \<le> byte c \<and> byte c < 240 then Some 3
      else if 240 \<le> byte c \<and> byte c < 245 then Some 4
      else None)"

text \<open>
  A list of bytes that is one well-formed code point: no overlong form, no surrogate, nothing
  beyond U+10FFFF.
\<close>

definition utf8_point :: "string \<Rightarrow> bool" where
  "utf8_point cs \<longleftrightarrow> (case cs of [] \<Rightarrow> False
     | c # rest \<Rightarrow> utf8_size c = Some (length cs) \<and> list_all continuation rest
         \<and> (byte c = 224 \<longrightarrow> 160 \<le> byte (hd rest))
         \<and> (byte c = 237 \<longrightarrow> byte (hd rest) < 160)
         \<and> (byte c = 240 \<longrightarrow> 144 \<le> byte (hd rest))
         \<and> (byte c = 244 \<longrightarrow> byte (hd rest) < 144))"

text \<open>Well-formed text: a sequence of code points.\<close>

inductive utf8 :: "string \<Rightarrow> bool" where
  utf8_Nil: "utf8 []"
| utf8_append: "utf8_point cs \<Longrightarrow> utf8 s \<Longrightarrow> utf8 (cs @ s)"

lemma utf8_ascii: "list_all (\<lambda>c. byte c < 128) s \<Longrightarrow> utf8 s"
proof (induction s)
  case (Cons c s)
  then have "utf8_point [c]" by (auto simp: utf8_point_def utf8_size_def)
  with Cons show ?case using utf8_append [of "[c]" s] by simp
qed (rule utf8_Nil)

section \<open>Escapes\<close>

definition hex_digit :: "nat \<Rightarrow> char" where
  "hex_digit d = (if d < 10 then char_of (48 + d) else char_of (55 + d))"

definition hex_value :: "char \<Rightarrow> nat option" where
  "hex_value c =
     (if 48 \<le> byte c \<and> byte c \<le> 57 then Some (byte c - 48)
      else if 65 \<le> byte c \<and> byte c \<le> 70 then Some (byte c - 55)
      else if 97 \<le> byte c \<and> byte c \<le> 102 then Some (byte c - 87)
      else None)"

lemma hex_value_hex_digit [simp]: "d < 16 \<Longrightarrow> hex_value (hex_digit d) = Some d"
  by (auto simp: hex_value_def hex_digit_def)

definition unreserved :: "char \<Rightarrow> bool" where
  "unreserved c \<longleftrightarrow> (65 \<le> byte c \<and> byte c \<le> 90) \<or> (97 \<le> byte c \<and> byte c \<le> 122) \<or> is_digit c
     \<or> c \<in> set ''-_.!~*()'' \<or> byte c = 39"

definition escape :: "char \<Rightarrow> string" where
  "escape c = [CHR ''%'', hex_digit (byte c div 16), hex_digit (byte c mod 16)]"

definition encode_char :: "char \<Rightarrow> string" where
  "encode_char c = (if unreserved c then [c] else escape c)"

definition encodeURIComponent :: "string \<Rightarrow> string" where
  "encodeURIComponent s = concat (map encode_char s)"

text \<open>\<open>read_escapes n s\<close> reads \<open>n\<close> escapes in a row: their bytes and what follows.\<close>

fun read_escapes :: "nat \<Rightarrow> string \<Rightarrow> (string \<times> string) option" where
  "read_escapes 0 s = Some ([], s)"
| "read_escapes (Suc n) (p # h # l # s) =
     (if p = CHR ''%'' then
        Option.bind (hex_value h) (\<lambda>a. Option.bind (hex_value l) (\<lambda>b.
        Option.bind (read_escapes n s) (\<lambda>(cs, r). Some (char_of (16 * a + b) # cs, r))))
      else None)"
| "read_escapes (Suc n) _ = None"

lemma read_escapes_length: "read_escapes n s = Some (cs, r) \<Longrightarrow> length r = length s - 3 * n \<and> 3 * n \<le> length s \<and> length cs = n"
  by (induction n s arbitrary: cs r rule: read_escapes.induct)
    (auto simp: bind_eq_Some_conv split: if_splits)

text \<open>One code point from escapes: the first byte says how many.\<close>

definition read_point :: "string \<Rightarrow> (string \<times> string) option" where
  "read_point s =
     Option.bind (read_escapes 1 s) (\<lambda>(c, _).
     Option.bind (utf8_size (hd c)) (\<lambda>n.
     Option.bind (read_escapes n s) (\<lambda>(cs, r). if utf8_point cs then Some (cs, r) else None)))"

lemma read_point_length: "read_point s = Some (cs, r) \<Longrightarrow> length r < length s"
  by (auto simp: read_point_def bind_eq_Some_conv utf8_size_def split: if_splits
      dest!: read_escapes_length)

function decodeURIComponent :: "string \<Rightarrow> string option" where
  "decodeURIComponent [] = Some []"
| "decodeURIComponent (c # s) =
     (if c = CHR ''%'' then
        (case read_point (c # s) of
           None \<Rightarrow> None
         | Some (cs, r) \<Rightarrow> map_option ((@) cs) (decodeURIComponent r))
      else map_option ((#) c) (decodeURIComponent s))"
  by pat_completeness auto
termination
  by (relation "measure length") (auto dest: read_point_length)

section \<open>The round trip\<close>

lemma escape_simps: "escape c @ s = CHR ''%'' # hex_digit (byte c div 16) # hex_digit (byte c mod 16) # s"
  by (simp add: escape_def)

lemma high_nibble [simp]: "byte c div 16 < 16"
  using nat_of_char_less_256 [of c] by (simp only: div_less_iff_less_mult)

lemma read_escapes_escape: "read_escapes (length cs) (concat (map escape cs) @ s) = Some (cs, s)"
proof (induction cs)
  case (Cons c cs)
  have "char_of (16 * (byte c div 16) + byte c mod 16) = c" by simp
  then show ?case
    using Cons high_nibble [of c] by (simp add: escape_simps)
qed simp

lemma read_point_escape:
  assumes "utf8_point cs"
  shows "read_point (concat (map escape cs) @ s) = Some (cs, s)"
proof -
  obtain c rest where cs: "cs = c # rest" and n: "utf8_size c = Some (length cs)"
    using assms by (auto simp: utf8_point_def split: list.splits)
  have "read_escapes 1 (concat (map escape cs) @ s) = Some ([c], concat (map escape rest) @ s)"
    using read_escapes_escape [of "[c]"] by (simp add: cs)
  then show ?thesis
    using n assms read_escapes_escape [of cs s] by (simp add: read_point_def)
qed

lemma not_unreserved_high: "128 \<le> byte c \<Longrightarrow> \<not> unreserved c"
  by (auto simp: unreserved_def is_digit_def)

lemma unreserved_not_percent: "unreserved c \<Longrightarrow> c \<noteq> CHR ''%''"
  by (auto simp: unreserved_def is_digit_def)

lemma utf8_point_cases:
  assumes "utf8_point cs"
  obtains c where "cs = [c]" "byte c < 128" | "\<forall>c \<in> set cs. 128 \<le> byte c" "cs \<noteq> []"
  using assms
  by (cases cs) (auto simp: utf8_point_def utf8_size_def list_all_iff continuation_def split: if_splits)

lemma decode_escaped_point:
  assumes "utf8_point cs"
  shows "decodeURIComponent (concat (map escape cs) @ s) = map_option ((@) cs) (decodeURIComponent s)"
proof -
  obtain c rest where cs: "cs = c # rest"
    using assms by (cases cs) (auto simp: utf8_point_def)
  obtain t where t: "concat (map escape cs) @ s = CHR ''%'' # t"
    by (simp add: cs escape_def)
  show ?thesis
    using read_point_escape [OF assms, of s] unfolding t by simp
qed

lemma decode_encode_point:
  assumes "utf8_point cs"
  shows "decodeURIComponent (encodeURIComponent cs @ s) = map_option ((@) cs) (decodeURIComponent s)"
  using assms
proof (cases rule: utf8_point_cases)
  case (1 c)
  with decode_escaped_point [OF assms, of s] show ?thesis
    by (auto simp: encodeURIComponent_def encode_char_def dest: unreserved_not_percent
        intro!: map_option_cong)
next
  case 2
  then have "encodeURIComponent cs = concat (map escape cs)"
    by (auto simp: encodeURIComponent_def encode_char_def not_unreserved_high
        intro!: arg_cong [where f = concat])
  then show ?thesis using decode_escaped_point [OF assms] by simp
qed

lemma decode_encode: "utf8 s \<Longrightarrow> decodeURIComponent (encodeURIComponent s) = Some s"
proof (induction rule: utf8.induct)
  case (utf8_append cs s)
  then show ?case
    using decode_encode_point [of cs "encodeURIComponent s"] by (simp add: encodeURIComponent_def)
qed (simp add: encodeURIComponent_def)

text \<open>The encoder's output is printable ASCII without separators.\<close>

definition cookie_octet :: "char \<Rightarrow> bool" where
  "cookie_octet c \<longleftrightarrow> unreserved c \<or> c = CHR ''%''"

lemma cookie_octet_hex: "d < 16 \<Longrightarrow> cookie_octet (hex_digit d)"
  by (auto simp: cookie_octet_def unreserved_def is_digit_def hex_digit_def)

lemma encode_octets: "list_all cookie_octet (encodeURIComponent s)"
proof -
  have "list_all cookie_octet (encode_char c)" for c
    by (auto simp: encode_char_def escape_def cookie_octet_hex cookie_octet_def [of "CHR ''%''"]
        cookie_octet_def [of c])
  then show ?thesis
    by (induction s) (auto simp: encodeURIComponent_def)
qed

lemma encode_Nil_iff [simp]: "encodeURIComponent s = [] \<longleftrightarrow> s = []"
  by (cases s) (auto simp: encodeURIComponent_def encode_char_def escape_def)

end
