(* ===== verification/Storage.thy ===== *)
theory Storage
  imports Uri_Coding
begin

text \<open>
  The typed browser storage of \<^verbatim>\<open>packages/storage/src\<close>: the item catalogue (\<^verbatim>\<open>define.ts\<close>,
  \<^verbatim>\<open>items.ts\<close>), the cache and the notifications (\<^verbatim>\<open>notify.ts\<close>) and the operations
  (\<^verbatim>\<open>operations.ts\<close>), over the state of one page (tab).

  The module state of a page (registry, cache, channel, listeners) and what the page sees of
  the browser (\<open>location\<close>, \<open>document.cookie\<close>, \<open>localStorage\<close>, \<open>BroadcastChannel\<close>) form the
  record \<open>page\<close>. The browser's reaction to an assignment to \<open>document.cookie\<close> and the code of
  the listeners that other modules register are not part of the package: they are the fields
  of the argument \<open>browser\<close>. Values of items are \<open>stored\<close>: the package stores strings and one
  boolean.
\<close>

section \<open>Items\<close>

datatype stored = SText string | SBool bool

text \<open>\<open>String(value)\<close>.\<close>

fun js_string :: "stored \<Rightarrow> string" where
  "js_string (SText s) = s"
| "js_string (SBool b) = (if b then ''true'' else ''false'')"

datatype 'a outcome = Returned 'a | Threw

datatype scope = UserScope | DeviceScope

text \<open>What an \<open>onBoot\<close> function sees and changes: the classes of \<open><html>\<close> and the media query.\<close>

record boot_env =
  prefers_dark :: bool
  html_classes :: "string list"

record storage_item =
  si_name :: string
  si_path :: string
  si_parse :: "string \<Rightarrow> stored option outcome"
  si_maxAge :: nat
  si_broadcast :: bool
  si_scope :: scope
  si_onBoot :: "(stored option \<Rightarrow> boot_env \<Rightarrow> boot_env outcome) option"

definition DEFAULT_MAX_AGE_SECONDS :: nat where
  "DEFAULT_MAX_AGE_SECONDS = 60 * 60 * 24 * 365"

type_synonym registry = "(string \<times> storage_item) list"

record item_opts =
  opt_name :: string
  opt_path :: "string option"
  opt_parse :: "string \<Rightarrow> stored option outcome"
  opt_maxAge :: "nat option"
  opt_broadcast :: "bool option"
  opt_scope :: "scope option"
  opt_onBoot :: "(stored option \<Rightarrow> boot_env \<Rightarrow> boot_env outcome) option"

definition defineItem :: "item_opts \<Rightarrow> registry \<Rightarrow> storage_item \<times> registry" where
  "defineItem opts reg =
     (let item = \<lparr>si_name = opt_name opts,
                  si_path = or_default (opt_path opts) ''/'',
                  si_parse = opt_parse opts,
                  si_maxAge = or_default (opt_maxAge opts) DEFAULT_MAX_AGE_SECONDS,
                  si_broadcast = or_default (opt_broadcast opts) False,
                  si_scope = or_default (opt_scope opts) DeviceScope,
                  si_onBoot = opt_onBoot opts\<rparr>
      in (item, AList.update (opt_name opts) item reg))"

definition allItems :: "registry \<Rightarrow> storage_item list" where
  "allItems reg = map snd reg"

subsection \<open>The items of the application\<close>

definition theme_parse :: "string \<Rightarrow> stored option outcome" where
  "theme_parse v = Returned (if v = ''light'' \<or> v = ''dark'' \<or> v = ''system'' then Some (SText v) else None)"

definition theme_onBoot :: "stored option \<Rightarrow> boot_env \<Rightarrow> boot_env outcome" where
  "theme_onBoot value env =
     (let effective = or_default value (SText ''system'');
          resolved = (if effective = SText ''system''
                      then SText (if prefers_dark env then ''dark'' else ''light'') else effective)
      in Returned (if resolved = SText ''dark'' \<and> ''dark'' \<notin> set (html_classes env)
                   then env\<lparr>html_classes := html_classes env @ [''dark'']\<rparr> else env))"

definition nonempty_parse :: "string \<Rightarrow> stored option outcome" where
  "nonempty_parse v = Returned (if length v > 0 then Some (SText v) else None)"

definition sidebar_parse :: "string \<Rightarrow> stored option outcome" where
  "sidebar_parse v = Returned
     (if v = ''true'' then Some (SBool True) else if v = ''false'' then Some (SBool False) else None)"

definition THEME_opts :: item_opts where
  "THEME_opts = \<lparr>opt_name = ''pivox.theme'', opt_path = Some ''/'', opt_parse = theme_parse,
     opt_maxAge = None, opt_broadcast = Some True, opt_scope = None, opt_onBoot = Some theme_onBoot\<rparr>"

definition LAST_EMAIL_opts :: item_opts where
  "LAST_EMAIL_opts = \<lparr>opt_name = ''pivox.login.last-email'', opt_path = Some ''/auth/login'',
     opt_parse = nonempty_parse, opt_maxAge = None, opt_broadcast = None, opt_scope = None, opt_onBoot = None\<rparr>"

definition ACTIVE_ORG_opts :: item_opts where
  "ACTIVE_ORG_opts = \<lparr>opt_name = ''pivox.active-organization'', opt_path = Some ''/'',
     opt_parse = nonempty_parse, opt_maxAge = None, opt_broadcast = None, opt_scope = Some UserScope, opt_onBoot = None\<rparr>"

definition SIDEBAR_OPEN_opts :: item_opts where
  "SIDEBAR_OPEN_opts = \<lparr>opt_name = ''pivox.sidebar-state'', opt_path = Some ''/'',
     opt_parse = sidebar_parse, opt_maxAge = None, opt_broadcast = None, opt_scope = None, opt_onBoot = None\<rparr>"

definition THEME :: storage_item where "THEME = fst (defineItem THEME_opts [])"

definition LAST_EMAIL :: storage_item where "LAST_EMAIL = fst (defineItem LAST_EMAIL_opts [])"

definition ACTIVE_ORG :: storage_item where "ACTIVE_ORG = fst (defineItem ACTIVE_ORG_opts [])"

definition SIDEBAR_OPEN :: storage_item where "SIDEBAR_OPEN = fst (defineItem SIDEBAR_OPEN_opts [])"

text \<open>The registry after \<^verbatim>\<open>items.ts\<close> has run.\<close>

definition app_registry :: registry where
  "app_registry = fold (\<lambda>opts reg. snd (defineItem opts reg))
     [THEME_opts, LAST_EMAIL_opts, ACTIVE_ORG_opts, SIDEBAR_OPEN_opts] []"

section \<open>The page\<close>

text \<open>\<open>channel\<close> is \<open>undefined\<close>, \<open>null\<close>, or a channel, which the browser may have closed.\<close>

datatype channel = ChUnset | ChNull | ChOpen | ChClosed

type_synonym payload = "string \<times> string option"

text \<open>
  \<open>pg_protocol\<close>, \<open>pg_cookie\<close> and \<open>pg_local\<close> are \<^const>\<open>None\<close> where \<open>location\<close>, \<open>document\<close>
  or \<open>window\<close> is undefined; \<open>pg_local_ok\<close> says that access to \<open>localStorage\<close> does not
  throw. In \<open>pg_cache\<close>, \<^term>\<open>None\<close> is "never observed" and \<^term>\<open>Some None\<close> is
  "cleared". \<open>pg_subs\<close> are the message listeners of \<open>subscribeToChanges\<close>, in order of
  registration; \<open>pg_posted\<close> are the messages posted and \<open>pg_errors\<close> the items for which an
  error was logged.
\<close>

record page =
  pg_protocol :: "string option"
  pg_cookie :: "string option"
  pg_local :: "(string \<rightharpoonup> string) option"
  pg_local_ok :: bool
  pg_has_bc :: bool
  pg_registry :: registry
  pg_channel :: channel
  pg_cache :: "string \<rightharpoonup> string option"
  pg_listeners :: "nat list"
  pg_subs :: "(nat \<times> string) list"
  pg_posted :: "payload list"
  pg_errors :: "string list"

text \<open>
  \<open>assign_cookie cur s\<close> is the text of \<open>document.cookie\<close> after \<open>s\<close> is assigned to it.
  \<open>local_listener h n p\<close> runs the same-window listener \<open>h\<close> for item \<open>n\<close>: the page it
  leaves, and whether it threw; \<open>change_handler h p\<close> runs a handler of \<open>subscribeToChanges\<close>.
\<close>

record browser =
  assign_cookie :: "string \<Rightarrow> string \<Rightarrow> string"
  local_listener :: "nat \<Rightarrow> string \<Rightarrow> page \<Rightarrow> page \<times> bool"
  change_handler :: "nat \<Rightarrow> page \<Rightarrow> page"

section \<open>Notification\<close>

definition subscribeLocal :: "nat \<Rightarrow> page \<Rightarrow> page" where
  "subscribeLocal handler p =
     (if handler \<in> set (pg_listeners p) then p else p\<lparr>pg_listeners := pg_listeners p @ [handler]\<rparr>)"

definition unsubscribeLocal :: "nat \<Rightarrow> page \<Rightarrow> page" where
  "unsubscribeLocal handler p = p\<lparr>pg_listeners := removeAll handler (pg_listeners p)\<rparr>"

fun fire_all :: "browser \<Rightarrow> string \<Rightarrow> nat list \<Rightarrow> page \<Rightarrow> page" where
  "fire_all br name [] p = p"
| "fire_all br name (l # ls) p =
     (case local_listener br l name p of
        (q, threw) \<Rightarrow> fire_all br name ls (if threw then q\<lparr>pg_errors := pg_errors q @ [name]\<rparr> else q))"

definition fireLocal :: "browser \<Rightarrow> string \<Rightarrow> page \<Rightarrow> page" where
  "fireLocal br name p = fire_all br name (pg_listeners p) p"

definition getChannel :: "page \<Rightarrow> page" where
  "getChannel p =
     (if pg_channel p \<noteq> ChUnset then p
      else p\<lparr>pg_channel := (if pg_has_bc p then ChOpen else ChNull)\<rparr>)"

definition getCachedValue :: "string \<Rightarrow> page \<Rightarrow> string option option \<times> page" where
  "getCachedValue name p = (pg_cache (getChannel p) name, getChannel p)"

definition writeCache :: "string \<Rightarrow> string option \<Rightarrow> page \<Rightarrow> page" where
  "writeCache name value p = p\<lparr>pg_cache := (pg_cache p)(name \<mapsto> value)\<rparr>"

text \<open>\<open>postMessage\<close> on a closed channel throws and the code swallows it.\<close>

definition notifyChange :: "browser \<Rightarrow> string \<Rightarrow> string option \<Rightarrow> bool \<Rightarrow> page \<Rightarrow> page" where
  "notifyChange br name value broadcast p =
     (let q = fireLocal br name (writeCache name value p)
      in if \<not> broadcast then q
         else let r = getChannel q
              in if pg_channel r = ChOpen then r\<lparr>pg_posted := pg_posted r @ [(name, value)]\<rparr> else r)"

text \<open>
  The data of a message is anything anyone posted. Of the fields of an object only strings,
  \<open>null\<close> and \<open>undefined\<close> are represented.
\<close>

datatype js_field = FString string | FNull | FUndefined

datatype js_data = JNull | JPrimitive | JObject "(string \<times> js_field) list"

fun isChangePayload :: "js_data \<Rightarrow> bool" where
  "isChangePayload (JObject fs) = (case map_of fs ''name'' of Some (FString _) \<Rightarrow> True | _ \<Rightarrow> False)"
| "isChangePayload _ = False"

fun data_name :: "js_data \<Rightarrow> string" where
  "data_name (JObject fs) = (case map_of fs ''name'' of Some (FString n) \<Rightarrow> n | _ \<Rightarrow> [])"
| "data_name _ = []"

fun data_value :: "js_data \<Rightarrow> string option" where
  "data_value (JObject fs) = (case map_of fs ''value'' of Some (FString v) \<Rightarrow> Some v | _ \<Rightarrow> None)"
| "data_value _ = None"

definition payload_data :: "payload \<Rightarrow> js_data" where
  "payload_data m = JObject [(''name'', FString (fst m)),
     (''value'', case snd m of None \<Rightarrow> FNull | Some v \<Rightarrow> FString v)]"

text \<open>The channel-level listener.\<close>

definition channel_listener :: "js_data \<Rightarrow> page \<Rightarrow> page" where
  "channel_listener d p = (if isChangePayload d then writeCache (data_name d) (data_value d) p else p)"

definition subscribeToChanges :: "nat \<Rightarrow> string \<Rightarrow> page \<Rightarrow> page" where
  "subscribeToChanges handler itemName p =
     (let q = getChannel p
      in if pg_channel q = ChNull then q else q\<lparr>pg_subs := pg_subs q @ [(handler, itemName)]\<rparr>)"

definition change_listener :: "browser \<Rightarrow> js_data \<Rightarrow> nat \<times> string \<Rightarrow> page \<Rightarrow> page" where
  "change_listener br d s p =
     (if isChangePayload d \<and> data_name d = snd s then change_handler br (fst s) p else p)"

text \<open>A message arrives: the listeners run in the order they were added, the channel's first.\<close>

definition receive :: "browser \<Rightarrow> js_data \<Rightarrow> page \<Rightarrow> page" where
  "receive br d p =
     (if pg_channel p = ChOpen then fold (change_listener br d) (pg_subs p) (channel_listener d p) else p)"

definition resetChannelForTests :: "page \<Rightarrow> page" where
  "resetChannelForTests p = p\<lparr>pg_channel := ChUnset, pg_cache := Map.empty, pg_listeners := [], pg_subs := []\<rparr>"

section \<open>Operations\<close>

datatype backend_kind = CookieBackend | LocalStorageBackend

definition backend :: "page \<Rightarrow> backend_kind" where
  "backend p = (case pg_protocol p of
     None \<Rightarrow> LocalStorageBackend
   | Some pr \<Rightarrow> if pr = ''http:'' \<or> pr = ''https:'' then CookieBackend else LocalStorageBackend)"

definition secure_suffix :: "page \<Rightarrow> string" where
  "secure_suffix p = (if pg_protocol p = Some ''https:'' then ''; secure'' else [])"

definition cookieAttrs :: "page \<Rightarrow> storage_item \<Rightarrow> string" where
  "cookieAttrs p item =
     '' path='' @ si_path item @ '';'' @ '' max-age='' @ nat_str (si_maxAge item) @ '';'' @ '' samesite=lax'' @ secure_suffix p"

text \<open>\<open>document.cookie.split(/;\\s*/)\<close>.\<close>

definition split_cookie :: "string \<Rightarrow> string list" where
  "split_cookie s = (case split_on (CHR '';'') s of [] \<Rightarrow> [] | c # cs \<Rightarrow> c # map trim_left cs)"

fun find_cookie :: "string \<Rightarrow> string list \<Rightarrow> string option" where
  "find_cookie name [] = None"
| "find_cookie name (part # parts) =
     (if startsWith part (name @ ''='') then
        (let v = drop (length (name @ ''='')) part
         in if v = [] then None else decodeURIComponent v)
      else find_cookie name parts)"

definition readCookieRaw :: "string \<Rightarrow> page \<Rightarrow> string option \<times> page" where
  "readCookieRaw name p =
     (case getCachedValue name p of
        (Some cached, q) \<Rightarrow> (cached, q)
      | (None, q) \<Rightarrow>
          (case pg_cookie q of None \<Rightarrow> (None, q) | Some c \<Rightarrow> (find_cookie name (split_cookie c), q)))"

definition readLocalStorageRaw :: "string \<Rightarrow> page \<Rightarrow> string option \<times> page" where
  "readLocalStorageRaw name p =
     (case getCachedValue name p of
        (Some cached, q) \<Rightarrow> (cached, q)
      | (None, q) \<Rightarrow>
          (case pg_local q of None \<Rightarrow> (None, q)
           | Some ls \<Rightarrow> (if pg_local_ok q then ls name else None, q)))"

definition writeCookieRaw :: "browser \<Rightarrow> storage_item \<Rightarrow> string \<Rightarrow> page \<Rightarrow> page" where
  "writeCookieRaw br item value p =
     (case pg_cookie p of None \<Rightarrow> p
      | Some c \<Rightarrow> p\<lparr>pg_cookie := Some (assign_cookie br c
          (si_name item @ ''='' @ encodeURIComponent value @ '';'' @ cookieAttrs p item))\<rparr>)"

definition writeLocalStorageRaw :: "string \<Rightarrow> string \<Rightarrow> page \<Rightarrow> page" where
  "writeLocalStorageRaw name value p =
     (case pg_local p of None \<Rightarrow> p
      | Some ls \<Rightarrow> if pg_local_ok p then p\<lparr>pg_local := Some (ls(name \<mapsto> value))\<rparr> else p)"

definition expired_cookie :: "page \<Rightarrow> storage_item \<Rightarrow> string" where
  "expired_cookie p item =
     si_name item @ ''='' @ '';'' @ '' path='' @ si_path item @ '';'' @ '' max-age=0;'' @ '' samesite=lax'' @ secure_suffix p"

definition clearCookieRaw :: "browser \<Rightarrow> storage_item \<Rightarrow> page \<Rightarrow> page" where
  "clearCookieRaw br item p =
     (case pg_cookie p of None \<Rightarrow> p
      | Some c \<Rightarrow> p\<lparr>pg_cookie := Some (assign_cookie br c
          (expired_cookie p item))\<rparr>)"

definition clearLocalStorageRaw :: "string \<Rightarrow> page \<Rightarrow> page" where
  "clearLocalStorageRaw name p =
     (case pg_local p of None \<Rightarrow> p
      | Some ls \<Rightarrow> if pg_local_ok p then p\<lparr>pg_local := Some (ls(name := None))\<rparr> else p)"

text \<open>\<open>get\<close>; a parse that throws is logged and reads as \<open>null\<close>.\<close>

definition storage_get :: "storage_item \<Rightarrow> page \<Rightarrow> stored option \<times> page" where
  "storage_get item p =
     (case (if backend p = CookieBackend then readCookieRaw (si_name item) p
            else readLocalStorageRaw (si_name item) p) of
        (None, q) \<Rightarrow> (None, q)
      | (Some raw, q) \<Rightarrow>
          (case si_parse item raw of
             Returned v \<Rightarrow> (v, q)
           | Threw \<Rightarrow> (None, q\<lparr>pg_errors := pg_errors q @ [si_name item]\<rparr>)))"

definition parse_or_null :: "storage_item \<Rightarrow> string \<Rightarrow> stored option" where
  "parse_or_null item raw = (case si_parse item raw of Returned v \<Rightarrow> v | Threw \<Rightarrow> None)"

datatype storage_error = LossyRoundTrip string

definition storage_set :: "browser \<Rightarrow> storage_item \<Rightarrow> stored \<Rightarrow> page \<Rightarrow> storage_error + page" where
  "storage_set br item value p =
     (let raw = js_string value
      in if parse_or_null item raw = None then Inl (LossyRoundTrip (si_name item))
         else Inr (notifyChange br (si_name item) (Some raw) (si_broadcast item)
                (if backend p = CookieBackend then writeCookieRaw br item raw p
                 else writeLocalStorageRaw (si_name item) raw p)))"

definition storage_clear :: "browser \<Rightarrow> storage_item \<Rightarrow> page \<Rightarrow> page" where
  "storage_clear br item p =
     notifyChange br (si_name item) None (si_broadcast item)
       (if backend p = CookieBackend then clearCookieRaw br item p else clearLocalStorageRaw (si_name item) p)"

definition clearUserScopedItems :: "browser \<Rightarrow> page \<Rightarrow> page" where
  "clearUserScopedItems br p =
     fold (\<lambda>item q. if si_scope item = UserScope then storage_clear br item q else q) (allItems (pg_registry p)) p"

section \<open>The catalogue\<close>

lemmas item_opts_defs = THEME_opts_def LAST_EMAIL_opts_def ACTIVE_ORG_opts_def SIDEBAR_OPEN_opts_def

lemma app_items [simp]:
  "si_name THEME = ''pivox.theme''" "si_parse THEME = theme_parse" "si_scope THEME = DeviceScope"
  "si_broadcast THEME"
  "si_name LAST_EMAIL = ''pivox.login.last-email''" "si_parse LAST_EMAIL = nonempty_parse"
  "si_scope LAST_EMAIL = DeviceScope" "\<not> si_broadcast LAST_EMAIL"
  "si_name ACTIVE_ORG = ''pivox.active-organization''" "si_parse ACTIVE_ORG = nonempty_parse"
  "si_scope ACTIVE_ORG = UserScope" "\<not> si_broadcast ACTIVE_ORG"
  "si_name SIDEBAR_OPEN = ''pivox.sidebar-state''" "si_parse SIDEBAR_OPEN = sidebar_parse"
  "si_scope SIDEBAR_OPEN = DeviceScope" "\<not> si_broadcast SIDEBAR_OPEN"
  by (simp_all add: THEME_def LAST_EMAIL_def ACTIVE_ORG_def SIDEBAR_OPEN_def defineItem_def item_opts_defs Let_def)

lemma allItems_app: "allItems app_registry = [THEME, LAST_EMAIL, ACTIVE_ORG, SIDEBAR_OPEN]"
  by (simp add: allItems_def app_registry_def THEME_def LAST_EMAIL_def ACTIVE_ORG_def SIDEBAR_OPEN_def
      defineItem_def item_opts_defs Let_def)

section \<open>The page as a map\<close>

text \<open>
  What the page sees is a map from names to raw values: the cache where it has an entry, the
  durable backend otherwise. Reading is looking up in this map, writing updates it.
\<close>

definition durable :: "page \<Rightarrow> string \<Rightarrow> string option" where
  "durable p name =
     (if backend p = CookieBackend
      then Option.bind (pg_cookie p) (\<lambda>c. find_cookie name (split_cookie c))
      else Option.bind (pg_local p) (\<lambda>ls. if pg_local_ok p then ls name else None))"

definition view :: "page \<Rightarrow> string \<Rightarrow> string option" where
  "view p name = or_default (pg_cache p name) (durable p name)"

text \<open>The part of a page that the reads depend on.\<close>

definition storage_of :: "page \<Rightarrow> (string option \<times> string option \<times> (string \<rightharpoonup> string) option \<times> bool) \<times> registry \<times> (string \<rightharpoonup> string option)" where
  "storage_of p = ((pg_protocol p, pg_cookie p, pg_local p, pg_local_ok p), pg_registry p, pg_cache p)"

lemma storage_of_eqD:
  assumes "storage_of p = storage_of q"
  shows "pg_cache p = pg_cache q" "durable p = durable q" "view p = view q" "backend p = backend q"
    "pg_registry p = pg_registry q"
  using assms by (auto simp: storage_of_def durable_def backend_def view_def fun_eq_iff)

text \<open>Listeners that read storage (as those of \<open>useStorageValue\<close> do) but do not write it.\<close>

definition read_only :: "browser \<Rightarrow> bool" where
  "read_only br \<longleftrightarrow> (\<forall>l n p. storage_of (fst (local_listener br l n p)) = storage_of p)
     \<and> (\<forall>h p. storage_of (change_handler br h p) = storage_of p)"

lemma storage_of_getChannel [simp]: "storage_of (getChannel p) = storage_of p"
  by (simp add: getChannel_def storage_of_def)

lemma storage_of_errors [simp]: "storage_of (pg_errors_update f p) = storage_of p"
  by (simp add: storage_of_def)

lemma storage_of_posted [simp]: "storage_of (pg_posted_update f p) = storage_of p"
  by (simp add: storage_of_def)

lemma storage_of_fire_all: "read_only br \<Longrightarrow> storage_of (fire_all br n ls p) = storage_of p"
proof (induction ls arbitrary: p)
  case (Cons l ls)
  obtain q threw where q: "local_listener br l n p = (q, threw)" by fastforce
  with Cons.prems have "storage_of q = storage_of p"
    unfolding read_only_def by (metis fst_conv)
  with q Cons show ?case by (cases threw) simp_all
qed simp

lemma storage_of_notifyChange:
  "read_only br \<Longrightarrow> storage_of (notifyChange br n v b p) = storage_of (writeCache n v p)"
  by (simp add: notifyChange_def fireLocal_def storage_of_fire_all Let_def)

lemma view_writeCache: "view (writeCache n v p) = (view p)(n := v)"
  by (auto simp: view_def writeCache_def fun_eq_iff durable_def backend_def)

lemma storage_get_view: "fst (storage_get item p) = Option.bind (view p (si_name item)) (parse_or_null item)"
proof -
  have "backend (getChannel p) = backend p" "pg_cookie (getChannel p) = pg_cookie p"
    "pg_local (getChannel p) = pg_local p" "pg_local_ok (getChannel p) = pg_local_ok p"
    "pg_cache (getChannel p) = pg_cache p"
    by (simp_all add: getChannel_def backend_def)
  then show ?thesis
    by (auto simp: storage_get_def readCookieRaw_def readLocalStorageRaw_def getCachedValue_def
        view_def durable_def parse_or_null_def split: option.splits outcome.splits)
qed

lemma storage_get_keeps: "storage_of (snd (storage_get item p)) = storage_of p"
  by (auto simp: storage_get_def readCookieRaw_def readLocalStorageRaw_def getCachedValue_def
      split: option.splits outcome.splits)

section \<open>What the code needs of the cookie store\<close>

text \<open>A cookie name of unreserved characters, and the value a cookie text has for it.\<close>

definition token :: "string \<Rightarrow> bool" where
  "token n \<longleftrightarrow> n \<noteq> [] \<and> list_all unreserved n"

fun find_part :: "string \<Rightarrow> string list \<Rightarrow> string option" where
  "find_part name [] = None"
| "find_part name (part # parts) =
     (if startsWith part (name @ ''='') then Some (drop (length (name @ ''='')) part) else find_part name parts)"

lemma find_cookie_part:
  "find_cookie name parts = Option.bind (find_part name parts) (\<lambda>v. if v = [] then None else decodeURIComponent v)"
  by (induction parts) auto

definition cookie_of :: "string \<Rightarrow> string \<Rightarrow> string option" where
  "cookie_of text name = find_part name (split_cookie text)"

text \<open>
  The cookie store of a browser, as RFC 6265 describes it for a page within the path of the
  item: an assignment of a non-empty value with a positive age makes that value the one shown
  for its name, an assignment with age zero removes it, no assignment changes another name,
  and the text shown does not begin with white space. The limits a browser puts on the size and the
  number of cookies are not modelled: the hypothesis is about a store that holds what is written.
\<close>

definition cookie_store :: "browser \<Rightarrow> storage_item \<Rightarrow> bool" where
  "cookie_store br item \<longleftrightarrow>
     (\<forall>p cur v. ws_prefix cur = None \<longrightarrow> v \<noteq> [] \<longrightarrow> list_all cookie_octet v \<longrightarrow>
        cookie_of (assign_cookie br cur (si_name item @ ''='' @ v @ '';'' @ cookieAttrs p item)) (si_name item) = Some v)
   \<and> (\<forall>p cur. ws_prefix cur = None \<longrightarrow>
        cookie_of (assign_cookie br cur (expired_cookie p item)) (si_name item) \<in> {None, Some []})
   \<and> (\<forall>cur rest m. ws_prefix cur = None \<longrightarrow> token m \<longrightarrow> m \<noteq> si_name item \<longrightarrow>
        cookie_of (assign_cookie br cur (si_name item @ ''='' @ rest)) m = cookie_of cur m)
   \<and> (\<forall>cur rest. ws_prefix cur = None \<longrightarrow> ws_prefix (assign_cookie br cur (si_name item @ ''='' @ rest)) = None)"

lemma cookie_storeD:
  assumes "cookie_store br item" and "ws_prefix cur = None"
  shows "v \<noteq> [] \<Longrightarrow> list_all cookie_octet v \<Longrightarrow>
      cookie_of (assign_cookie br cur (si_name item @ ''='' @ v @ '';'' @ cookieAttrs p item)) (si_name item) = Some v"
    and "cookie_of (assign_cookie br cur (expired_cookie p item)) (si_name item) \<in> {None, Some []}"
    and "token m \<Longrightarrow> m \<noteq> si_name item \<Longrightarrow>
      cookie_of (assign_cookie br cur (si_name item @ ''='' @ rest)) m = cookie_of cur m"
    and "ws_prefix (assign_cookie br cur (si_name item @ ''='' @ rest)) = None"
  using assms unfolding cookie_store_def by blast+

text \<open>A page of which the cookie text is tidy and \<open>localStorage\<close>, if it is there, works.\<close>

definition working :: "page \<Rightarrow> bool" where
  "working p \<longleftrightarrow>
     (if backend p = CookieBackend then \<exists>c. pg_cookie p = Some c \<and> ws_prefix c = None
      else (\<exists>ls. pg_local p = Some ls) \<and> pg_local_ok p)"

lemma working_cong: "storage_of p = storage_of q \<Longrightarrow> working p \<longleftrightarrow> working q"
  by (simp add: working_def storage_of_def backend_def)

section \<open>Reading one's writes\<close>

definition write_raw :: "browser \<Rightarrow> storage_item \<Rightarrow> string option \<Rightarrow> page \<Rightarrow> page" where
  "write_raw br item v p =
     (case v of
        Some raw \<Rightarrow> if backend p = CookieBackend then writeCookieRaw br item raw p
                    else writeLocalStorageRaw (si_name item) raw p
      | None \<Rightarrow> if backend p = CookieBackend then clearCookieRaw br item p else clearLocalStorageRaw (si_name item) p)"

lemma storage_set_alt:
  "storage_set br item value p =
     (if parse_or_null item (js_string value) = None then Inl (LossyRoundTrip (si_name item))
      else Inr (notifyChange br (si_name item) (Some (js_string value)) (si_broadcast item)
        (write_raw br item (Some (js_string value)) p)))"
  by (simp add: storage_set_def write_raw_def Let_def)

lemma storage_clear_alt:
  "storage_clear br item p =
     notifyChange br (si_name item) None (si_broadcast item) (write_raw br item None p)"
  by (simp add: storage_clear_def write_raw_def)

lemmas raw_writes = writeCookieRaw_def writeLocalStorageRaw_def clearCookieRaw_def clearLocalStorageRaw_def

lemma write_raw_keeps [simp]:
  "pg_cache (write_raw br item v p) = pg_cache p"
  "backend (write_raw br item v p) = backend p"
  "pg_protocol (write_raw br item v p) = pg_protocol p"
  "pg_registry (write_raw br item v p) = pg_registry p"
  "pg_posted (write_raw br item v p) = pg_posted p"
  "pg_channel (write_raw br item v p) = pg_channel p"
  by (auto simp: write_raw_def raw_writes backend_def split: option.splits)

lemma durable_write_raw_own:
  assumes "cookie_store br item" and "working p" and "\<And>raw. v = Some raw \<Longrightarrow> raw \<noteq> [] \<and> utf8 raw"
  shows "durable (write_raw br item v p) (si_name item) = v"
proof (cases "backend p = CookieBackend")
  case True
  with assms(2) obtain c where c: "pg_cookie p = Some c" "ws_prefix c = None"
    by (auto simp: working_def)
  show ?thesis
  proof (cases v)
    case None
    with True c(1) have "pg_cookie (write_raw br item v p) = Some (assign_cookie br c (expired_cookie p item))"
      by (simp add: write_raw_def clearCookieRaw_def)
    moreover have "backend (write_raw br item v p) = CookieBackend" using True by simp
    ultimately show ?thesis
      using cookie_storeD(2) [OF assms(1) c(2), of p] None
      by (auto simp: durable_def find_cookie_part simp flip: cookie_of_def)
  next
    case (Some raw)
    with True c(1) have "pg_cookie (write_raw br item v p) = Some (assign_cookie br c
        (si_name item @ ''='' @ encodeURIComponent raw @ '';'' @ cookieAttrs p item))"
      by (simp add: write_raw_def writeCookieRaw_def)
    moreover have "backend (write_raw br item v p) = CookieBackend" using True by simp
    ultimately show ?thesis
      using cookie_storeD(1) [OF assms(1) c(2) _ encode_octets, of raw p] assms(3) [OF Some] decode_encode [of raw] Some
      by (simp add: durable_def find_cookie_part flip: cookie_of_def)
  qed
next
  case False
  with assms(2) show ?thesis
    by (auto simp: durable_def working_def write_raw_def writeLocalStorageRaw_def clearLocalStorageRaw_def
        backend_def split: option.splits if_splits)
qed

lemma durable_write_raw_other:
  assumes "cookie_store br item" and "working p" and "token m" and "m \<noteq> si_name item"
  shows "durable (write_raw br item v p) m = durable p m"
proof (cases "backend p = CookieBackend")
  case True
  with assms(2) obtain c where c: "pg_cookie p = Some c" "ws_prefix c = None"
    by (auto simp: working_def)
  obtain rest where "pg_cookie (write_raw br item v p) = Some (assign_cookie br c (si_name item @ ''='' @ rest))"
    using True c(1) by (cases v) (auto simp: write_raw_def raw_writes expired_cookie_def)
  moreover have "backend (write_raw br item v p) = CookieBackend" using True by simp
  ultimately show ?thesis
    using cookie_storeD(3) [OF assms(1) c(2) assms(3,4)] True c(1)
    by (simp add: durable_def find_cookie_part flip: cookie_of_def)
next
  case False
  with assms(4) show ?thesis
    by (auto simp: durable_def write_raw_def writeLocalStorageRaw_def clearLocalStorageRaw_def
        backend_def split: option.splits if_splits)
qed

lemma working_write_raw:
  assumes "cookie_store br item" and "working p"
  shows "working (write_raw br item v p)"
proof (cases "backend p = CookieBackend")
  case True
  with assms(2) obtain c where c: "pg_cookie p = Some c" "ws_prefix c = None"
    by (auto simp: working_def)
  obtain rest where "pg_cookie (write_raw br item v p) = Some (assign_cookie br c (si_name item @ ''='' @ rest))"
    using True c(1) by (cases v) (auto simp: write_raw_def raw_writes expired_cookie_def)
  with True show ?thesis
    using cookie_storeD(4) [OF assms(1) c(2)] by (simp add: working_def)
next
  case False
  with assms(2) show ?thesis
    by (auto simp: working_def write_raw_def raw_writes backend_def split: option.splits if_splits)
qed

text \<open>One write, a \<open>set\<close> or a \<open>clear\<close>, on the page that it leaves.\<close>

definition wrote :: "browser \<Rightarrow> storage_item \<Rightarrow> string option \<Rightarrow> page \<Rightarrow> page" where
  "wrote br item v p = notifyChange br (si_name item) v (si_broadcast item) (write_raw br item v p)"

lemma storage_set_wrote:
  "storage_set br item value p =
     (if parse_or_null item (js_string value) = None then Inl (LossyRoundTrip (si_name item))
      else Inr (wrote br item (Some (js_string value)) p))"
  by (simp add: storage_set_alt wrote_def)

lemma storage_clear_wrote: "storage_clear br item p = wrote br item None p"
  by (simp add: storage_clear_alt wrote_def)

lemma storage_of_wrote:
  "read_only br \<Longrightarrow> storage_of (wrote br item v p) = storage_of (writeCache (si_name item) v (write_raw br item v p))"
  by (simp add: wrote_def storage_of_notifyChange)

lemma durable_writeCache [simp]: "durable (writeCache n v p) = durable p"
  by (simp add: durable_def writeCache_def backend_def fun_eq_iff)

lemma writeCache_sel [simp]:
  "pg_registry (writeCache n v p) = pg_registry p"
  "pg_cache (writeCache n v p) = (pg_cache p)(n \<mapsto> v)"
  by (simp_all add: writeCache_def)

lemma backend_writeCache [simp]: "backend (writeCache n v p) = backend p"
  by (simp add: writeCache_def backend_def)

lemma wrote_keeps:
  assumes "read_only br"
  shows "backend (wrote br item v p) = backend p" "pg_registry (wrote br item v p) = pg_registry p"
    "durable (wrote br item v p) = durable (write_raw br item v p)"
    "pg_cache (wrote br item v p) = (pg_cache p)(si_name item \<mapsto> v)"
  using storage_of_eqD [OF storage_of_wrote [OF assms, of item v p]]
  by simp_all

lemma working_wrote:
  assumes "read_only br" and "cookie_store br item" and "working p"
  shows "working (wrote br item v p)"
proof -
  have "working (writeCache (si_name item) v (write_raw br item v p))"
    using working_write_raw [OF assms(2,3)] by (simp add: working_def writeCache_def backend_def)
  then show ?thesis
    by (simp only: working_cong [OF storage_of_wrote [OF assms(1)]])
qed

lemma view_wrote_own: "read_only br \<Longrightarrow> view (wrote br item v p) (si_name item) = v"
  by (simp add: view_def wrote_keeps)

lemma view_wrote_other:
  assumes "read_only br" "cookie_store br item" "working p" "token m" "m \<noteq> si_name item"
  shows "view (wrote br item v p) m = view p m"
  using assms by (simp add: view_def wrote_keeps durable_write_raw_other)

section \<open>A new page on the same origin\<close>

text \<open>After a reload the module state is fresh: no cache, no channel, no listeners.\<close>

definition reload :: "page \<Rightarrow> page" where
  "reload p = p\<lparr>pg_channel := ChUnset, pg_cache := Map.empty, pg_listeners := [], pg_subs := []\<rparr>"

lemma view_reload: "view (reload p) = durable p"
  by (simp add: view_def reload_def durable_def backend_def fun_eq_iff)

text \<open>
  C2. A page behaves as one map from names to values: \<open>set\<close> throws exactly when the parser
  rejects the text of the value, and otherwise the next \<open>get\<close> of the item returns what the
  parser makes of that text, which is never \<open>null\<close>; \<open>clear\<close> makes the next \<open>get\<close> return
  \<open>null\<close>; and neither changes what \<open>get\<close> returns for any other item.
\<close>

theorem storage_refines_map:
  assumes "read_only br" and "cookie_store br item" and "working p"
  shows "(case storage_set br item value p of
       Inl e \<Rightarrow> e = LossyRoundTrip (si_name item) \<and> parse_or_null item (js_string value) = None
     | Inr p' \<Rightarrow> fst (storage_get item p') = parse_or_null item (js_string value)
         \<and> fst (storage_get item p') \<noteq> None
         \<and> (\<forall>other. token (si_name other) \<longrightarrow> si_name other \<noteq> si_name item \<longrightarrow>
              fst (storage_get other p') = fst (storage_get other p)))
    \<and> fst (storage_get item (storage_clear br item p)) = None
    \<and> (\<forall>other. token (si_name other) \<longrightarrow> si_name other \<noteq> si_name item \<longrightarrow>
         fst (storage_get other (storage_clear br item p)) = fst (storage_get other p))"
  by (simp add: storage_set_wrote storage_clear_wrote storage_get_view
      view_wrote_own [OF assms(1)] view_wrote_other [OF assms])

text \<open>
  What was written outlives the page: after a reload, when the cache is gone, \<open>get\<close> still
  returns the value of the last \<open>set\<close> (any well-formed non-empty text, through percent coding
  and the cookie text, or through \<open>localStorage\<close>), and \<open>null\<close> after a \<open>clear\<close>.
\<close>

theorem storage_survives_reload:
  assumes "read_only br" and "cookie_store br item" and "working p"
    and "utf8 (js_string value)" and "js_string value \<noteq> []"
    and "storage_set br item value p = Inr p'"
  shows "fst (storage_get item (reload p')) = parse_or_null item (js_string value)
    \<and> fst (storage_get item (reload (storage_clear br item p'))) = None"
proof -
  from assms(6) have p': "p' = wrote br item (Some (js_string value)) p"
    by (simp add: storage_set_wrote split: if_splits)
  have "working p'"
    unfolding p' by (rule working_wrote [OF assms(1,2,3)])
  then show ?thesis
    using durable_write_raw_own [OF assms(2,3), of "Some (js_string value)"] assms(4,5)
      durable_write_raw_own [OF assms(2) \<open>working p'\<close>, of None]
    by (simp add: storage_get_view view_reload storage_clear_wrote wrote_keeps [OF assms(1)] p')
qed

section \<open>A cookie store\<close>

text \<open>
  A store that shows the newest pair first has the properties above, so they can hold.
\<close>

definition newest_first :: "string \<Rightarrow> string \<Rightarrow> string" where
  "newest_first cur s = takeWhile (\<lambda>c. c \<noteq> CHR '';'') s @ ''; '' @ cur"

lemma ws_prefix_unreserved: "unreserved c \<Longrightarrow> ws_prefix (c # s) = None"
  by (rule ws_prefix_visible) (auto simp: unreserved_def is_digit_def)

lemma trim_left_space: "trim_left (CHR '' '' # s) = trim_left s"
  by (subst trim_left.simps) (simp add: ws_prefix_space)

lemma trim_left_id: "ws_prefix s = None \<Longrightarrow> trim_left s = s"
  by (subst trim_left.simps) simp

lemma ws_prefix_prefix: "ws_prefix (s @ t) = None \<Longrightarrow> ws_prefix s = None"
  by (force simp: ws_prefix_def find_None_iff elim!: startsWithE)

lemma split_cookie_newest:
  assumes "CHR '';'' \<notin> set q" and "ws_prefix cur = None"
  shows "split_cookie (q @ ''; '' @ cur) = q # split_cookie cur"
proof -
  obtain c cs where cs: "split_on (CHR '';'') cur = c # cs"
    using split_on_ne by (metis neq_Nil_conv)
  have "cur = join_with '';'' (c # cs)"
    using join_split_on [of "CHR '';''" cur] by (simp add: cs)
  then obtain t where "cur = c @ t" by (cases cs) auto
  with assms(2) have "trim_left c = c"
    using ws_prefix_prefix trim_left_id by blast
  moreover have "split_on (CHR '';'') (q @ ''; '' @ cur) = q # (CHR '' '' # c) # cs"
    using split_on_append [OF assms(1), of "CHR '' '' # cur"] by (simp add: cs)
  ultimately show ?thesis by (simp add: split_cookie_def cs trim_left_space)
qed

lemma name_prefix:
  assumes "CHR ''='' \<notin> set n" and "CHR ''='' \<notin> set m"
  shows "startsWith (n @ CHR ''='' # r) (m @ ''='') \<longleftrightarrow> n = m"
  using assms
proof (induction n arbitrary: m)
  case Nil
  then show ?case by (cases m) auto
next
  case (Cons c n)
  then show ?case by (cases m) auto
qed

lemma token_chars: "token n \<Longrightarrow> CHR ''='' \<notin> set n \<and> CHR '';'' \<notin> set n"
  by (auto simp: token_def list_all_iff unreserved_def is_digit_def)

lemma octets_no_semicolon: "list_all cookie_octet v \<Longrightarrow> CHR '';'' \<notin> set v"
  by (auto simp: list_all_iff cookie_octet_def unreserved_def is_digit_def)

lemma cookie_of_newest:
  assumes "token n" and "ws_prefix cur = None" and "token m"
  shows "cookie_of (newest_first cur (n @ ''='' @ rest)) m =
    (if m = n then Some (takeWhile (\<lambda>c. c \<noteq> CHR '';'') rest) else cookie_of cur m)"
proof -
  let ?q = "n @ ''='' @ takeWhile (\<lambda>c. c \<noteq> CHR '';'') rest"
  have n: "CHR ''='' \<notin> set n" "CHR '';'' \<notin> set n" and m: "CHR ''='' \<notin> set m"
    using token_chars assms by auto
  have "takeWhile (\<lambda>c. c \<noteq> CHR '';'') (n @ ''='' @ rest) = ?q"
    using n(2) by (induction n) auto
  moreover have "CHR '';'' \<notin> set ?q"
    using n(2) by (auto dest: set_takeWhileD)
  ultimately show ?thesis
    using split_cookie_newest [of ?q cur] name_prefix [OF n(1) m] assms(2)
    by (simp add: cookie_of_def newest_first_def)
qed

lemma cookie_store_newest:
  assumes "token (si_name item)" and "assign_cookie br = newest_first"
  shows "cookie_store br item"
proof -
  obtain c n where n: "si_name item = c # n" "unreserved c"
    using assms(1) by (cases "si_name item") (auto simp: token_def)
  have "takeWhile (\<lambda>c. c \<noteq> CHR '';'') (v @ CHR '';'' # s) = v" if "list_all cookie_octet v" for v s
    using octets_no_semicolon [OF that] by (induction v) auto
  moreover have "ws_prefix (newest_first cur (si_name item @ rest)) = None" for cur rest
    using n by (auto simp: newest_first_def ws_prefix_unreserved unreserved_def is_digit_def)
  ultimately show ?thesis
    unfolding cookie_store_def assms(2) expired_cookie_def
    using cookie_of_newest [OF assms(1)] assms(1) by simp
qed

definition quiet_browser :: browser where
  "quiet_browser = \<lparr>assign_cookie = newest_first, local_listener = \<lambda>l n p. (p, l = 0), change_handler = \<lambda>h p. p\<rparr>"

lemma quiet_browser_ok: "read_only quiet_browser" "token (si_name item) \<Longrightarrow> cookie_store quiet_browser item"
  by (simp_all add: read_only_def quiet_browser_def cookie_store_newest)

definition web_page :: "registry \<Rightarrow> page" where
  "web_page reg = \<lparr>pg_protocol = Some ''https:'', pg_cookie = Some [], pg_local = Some Map.empty, pg_local_ok = True,
     pg_has_bc = True, pg_registry = reg, pg_channel = ChUnset, pg_cache = Map.empty, pg_listeners = [0, 1],
     pg_subs = [], pg_posted = [], pg_errors = []\<rparr>"

lemma web_page_working: "working (web_page reg)"
  by (simp add: working_def web_page_def backend_def ws_prefix_def ws_tokens_def)

theorem storage_refines_map_witness:
  "(case storage_set quiet_browser THEME (SText ''dark'') (web_page []) of
       Inl e \<Rightarrow> False | Inr p' \<Rightarrow> fst (storage_get THEME p') = Some (SText ''dark''))
   \<and> fst (storage_get THEME (storage_clear quiet_browser THEME (web_page []))) = None"
proof -
  have name: "token (si_name THEME)"
    by (simp add: token_def unreserved_def)
  have "parse_or_null THEME (js_string (SText ''dark'')) = Some (SText ''dark'')"
    by (simp add: parse_or_null_def theme_parse_def)
  with storage_refines_map [OF quiet_browser_ok(1) quiet_browser_ok(2) [OF name] web_page_working,
      of "SText ''dark''" "[]"]
  show ?thesis by (auto split: sum.splits)
qed

theorem storage_survives_reload_witness:
  "\<exists>p'. storage_set quiet_browser LAST_EMAIL (SText ''a b@c.de'') (web_page []) = Inr p'
   \<and> fst (storage_get LAST_EMAIL (reload p')) = Some (SText ''a b@c.de'')
   \<and> fst (storage_get LAST_EMAIL (reload (storage_clear quiet_browser LAST_EMAIL p'))) = None"
proof -
  let ?v = "SText ''a b@c.de''"
  have name: "token (si_name LAST_EMAIL)"
    by (simp add: token_def unreserved_def)
  have parse: "parse_or_null LAST_EMAIL (js_string ?v) = Some ?v"
    by (simp add: parse_or_null_def nonempty_parse_def)
  then obtain p' where p': "storage_set quiet_browser LAST_EMAIL ?v (web_page []) = Inr p'"
    by (auto simp: storage_set_wrote)
  have "utf8 (js_string ?v)" by (rule utf8_ascii) simp
  then show ?thesis
    using storage_survives_reload [OF quiet_browser_ok(1) quiet_browser_ok(2) [OF name] web_page_working _ _ p']
      p' parse by auto
qed

section \<open>Sign-out\<close>

text \<open>The registry keeps an item under its own name, once.\<close>

definition registry_ok :: "registry \<Rightarrow> bool" where
  "registry_ok reg \<longleftrightarrow> distinct (map fst reg) \<and> (\<forall>(k, it) \<in> set reg. si_name it = k)"

lemma registry_ok_defineItem: "registry_ok reg \<Longrightarrow> registry_ok (snd (defineItem opts reg))"
proof -
  have "set (AList.update k v reg) \<subseteq> insert (k, v) (set reg)" for k and v :: storage_item
    by (induction reg) auto
  then show "registry_ok reg \<Longrightarrow> registry_ok (snd (defineItem opts reg))"
    unfolding registry_ok_def defineItem_def Let_def by (fastforce simp: distinct_update)
qed

lemma app_registry_ok: "registry_ok app_registry"
proof -
  have fold_ok: "registry_ok (fold (\<lambda>opts reg. snd (defineItem opts reg)) os reg)" if "registry_ok reg" for os reg
    using that by (induction os arbitrary: reg) (simp_all add: registry_ok_defineItem)
  show ?thesis
    unfolding app_registry_def by (rule fold_ok) (simp add: registry_ok_def)
qed

abbreviation user_names :: "storage_item list \<Rightarrow> string set" where
  "user_names its \<equiv> si_name ` {it \<in> set its. si_scope it = UserScope}"

lemma clear_all:
  assumes "read_only br" and "working p"
    and "\<forall>it \<in> set its. si_scope it = UserScope \<longrightarrow> token (si_name it) \<and> cookie_store br it"
  defines "q \<equiv> fold (\<lambda>it q. if si_scope it = UserScope then storage_clear br it q else q) its p"
  shows "(\<forall>n \<in> user_names its. view q n = None \<and> durable q n = None)
    \<and> (\<forall>m. token m \<longrightarrow> m \<notin> user_names its \<longrightarrow> view q m = view p m \<and> durable q m = durable p m)"
  unfolding q_def using assms(2,3)
proof (induction its arbitrary: p)
  case (Cons it its)
  show ?case
  proof (cases "si_scope it = UserScope")
    case True
    then have it: "token (si_name it)" "cookie_store br it" using Cons.prems(2) by auto
    let ?p = "wrote br it None p"
    have own: "view ?p (si_name it) = None" "durable ?p (si_name it) = None"
      using view_wrote_own [OF assms(1)] durable_write_raw_own [OF it(2) Cons.prems(1), of None]
      by (simp_all add: wrote_keeps [OF assms(1)])
    have other: "view ?p m = view p m \<and> durable ?p m = durable p m" if "token m" "m \<noteq> si_name it" for m
      using view_wrote_other [OF assms(1) it(2) Cons.prems(1) that]
        durable_write_raw_other [OF it(2) Cons.prems(1) that] by (simp add: wrote_keeps [OF assms(1)])
    note IH = Cons.IH [OF working_wrote [OF assms(1) it(2) Cons.prems(1)], of None]
    have rest: "\<forall>x \<in> set its. si_scope x = UserScope \<longrightarrow> token (si_name x) \<and> cookie_store br x"
      using Cons.prems(2) by simp
    define r where "r = fold (\<lambda>it q. if si_scope it = UserScope then storage_clear br it q else q) its ?p"
    note IH = IH [OF rest, folded r_def]
    have names: "user_names (it # its) = insert (si_name it) (user_names its)" using True by auto
    have q: "fold (\<lambda>it q. if si_scope it = UserScope then storage_clear br it q else q) (it # its) p
        = r"
      using True by (simp add: storage_clear_wrote r_def)
    have own_r: "view r (si_name it) = None \<and> durable r (si_name it) = None"
      using IH own it(1) by (cases "si_name it \<in> user_names its") auto
    have other_r: "view r m = view p m \<and> durable r m = durable p m"
      if "token m" "m \<notin> insert (si_name it) (user_names its)" for m
      using IH other [of m] that by auto
    show ?thesis
      unfolding names q
    proof (intro conjI allI impI ballI)
      fix n
      assume "n \<in> insert (si_name it) (user_names its)"
      then have "view r n = None \<and> durable r n = None" using own_r IH by auto
      then show "view r n = None" "durable r n = None" by simp_all
    qed (use other_r in simp_all)
  next
    case False
    with Cons.IH [OF Cons.prems(1)] Cons.prems(2) show ?thesis by auto
  qed
qed simp

text \<open>
  C23. Signing out: \<open>clearUserScopedItems\<close> leaves every registered item of scope \<open>'user'\<close>
  unreadable, in this page and after a reload, and leaves every registered item of scope
  \<open>'device'\<close> as it was, in this page and after a reload.
\<close>

theorem sign_out_clears_user_items:
  assumes "read_only br" and "working p" and "registry_ok (pg_registry p)"
    and "\<forall>it \<in> set (allItems (pg_registry p)). token (si_name it) \<and> cookie_store br it"
    and "it \<in> set (allItems (pg_registry p))"
  defines "q \<equiv> clearUserScopedItems br p"
  shows "if si_scope it = UserScope
    then fst (storage_get it q) = None \<and> fst (storage_get it (reload q)) = None
    else fst (storage_get it q) = fst (storage_get it p)
      \<and> fst (storage_get it (reload q)) = fst (storage_get it (reload p))"
proof -
  have "inj_on si_name (set (allItems (pg_registry p)))"
  proof (rule inj_onI)
    have key: "(si_name x, x) \<in> set (pg_registry p)" if "x \<in> set (allItems (pg_registry p))" for x
      using that assms(3) by (force simp: allItems_def registry_ok_def)
    fix x y
    assume "x \<in> set (allItems (pg_registry p))" "y \<in> set (allItems (pg_registry p))" "si_name x = si_name y"
    then show "x = y"
      using key [of x] key [of y] assms(3) eq_key_imp_eq_value [of "pg_registry p" "si_name x" x y]
      by (simp add: registry_ok_def)
  qed
  then have "si_scope it \<noteq> UserScope \<Longrightarrow> si_name it \<notin> user_names (allItems (pg_registry p))"
    using assms(5) by (auto simp: inj_on_def)
  moreover have "\<forall>x \<in> set (allItems (pg_registry p)). si_scope x = UserScope \<longrightarrow> token (si_name x) \<and> cookie_store br x"
    using assms(4) by blast
  ultimately show ?thesis
    using clear_all [OF assms(1,2)] assms(4,5) unfolding q_def clearUserScopedItems_def
    by (auto simp: storage_get_view view_reload)
qed

lemma app_tokens:
  "token ''pivox.theme''" "token ''pivox.login.last-email''" "token ''pivox.active-organization''" "token ''pivox.sidebar-state''"
  by (simp_all add: token_def unreserved_def)

theorem sign_out_witness:
  "\<exists>p'. storage_set quiet_browser ACTIVE_ORG (SText ''organizations/a'') (web_page app_registry) = Inr p'
   \<and> fst (storage_get ACTIVE_ORG p') = Some (SText ''organizations/a'')
   \<and> fst (storage_get ACTIVE_ORG (clearUserScopedItems quiet_browser p')) = None
   \<and> fst (storage_get THEME (clearUserScopedItems quiet_browser p')) = fst (storage_get THEME p')"
proof (intro exI conjI)
  let ?raw = "''organizations/a''"
  let ?p = "wrote quiet_browser ACTIVE_ORG (Some ?raw) (web_page app_registry)"
  have ok: "parse_or_null ACTIVE_ORG ?raw = Some (SText ?raw)"
    by (simp add: parse_or_null_def nonempty_parse_def)
  then show "storage_set quiet_browser ACTIVE_ORG (SText ?raw) (web_page app_registry) = Inr ?p"
    by (simp add: storage_set_wrote)
  show "fst (storage_get ACTIVE_ORG ?p) = Some (SText ?raw)"
    using ok view_wrote_own [OF quiet_browser_ok(1), of ACTIVE_ORG] by (simp add: storage_get_view)
  have w: "working ?p"
    by (rule working_wrote) (simp_all add: quiet_browser_ok web_page_working app_tokens)
  have reg: "pg_registry ?p = app_registry"
    by (simp add: wrote_keeps [OF quiet_browser_ok(1)] web_page_def)
  have "\<forall>it \<in> set (allItems (pg_registry ?p)). token (si_name it) \<and> cookie_store quiet_browser it"
    by (simp add: reg allItems_app quiet_browser_ok app_tokens)
  note clears = sign_out_clears_user_items [OF quiet_browser_ok(1) w _ this]
  show "fst (storage_get ACTIVE_ORG (clearUserScopedItems quiet_browser ?p)) = None"
    using clears [of ACTIVE_ORG] app_registry_ok by (simp add: reg allItems_app)
  show "fst (storage_get THEME (clearUserScopedItems quiet_browser ?p)) = fst (storage_get THEME ?p)"
    using clears [of THEME] app_registry_ok by (simp add: reg allItems_app)
qed

section \<open>Items and their values\<close>

text \<open>
  The contract of an item: the parser never throws, accepts exactly the texts of the legal
  values, and reads each back. \<open>set\<close> and \<open>get\<close> then store and return legal values only.
\<close>

lemma parse_or_null_SomeD: "parse_or_null item raw = Some v \<Longrightarrow> si_parse item raw = Returned (Some v)"
  by (simp add: parse_or_null_def split: outcome.splits)

locale item_codec =
  fixes item :: storage_item and legal :: "stored set"
  assumes parse_legal: "v \<in> legal \<Longrightarrow> si_parse item (js_string v) = Returned (Some v)"
    and parse_sound: "si_parse item raw = Returned (Some v) \<Longrightarrow> v \<in> legal"
    and legal_text: "v \<in> legal \<Longrightarrow> js_string v \<noteq> []"
    and name_token: "token (si_name item)"
begin

lemma parse_or_null_legal: "v \<in> legal \<Longrightarrow> parse_or_null item (js_string v) = Some v"
  by (simp add: parse_or_null_def parse_legal)

lemma get_legal: "fst (storage_get item p) = Some v \<Longrightarrow> v \<in> legal"
  by (auto simp: storage_get_view bind_eq_Some_conv dest: parse_or_null_SomeD parse_sound)

lemma set_then_get:
  assumes "read_only br" and "cookie_store br item" and "working p" and "v \<in> legal"
  shows "\<exists>p'. storage_set br item v p = Inr p' \<and> fst (storage_get item p') = Some v
    \<and> (utf8 (js_string v) \<longrightarrow> fst (storage_get item (reload p')) = Some v)"
proof -
  let ?p = "wrote br item (Some (js_string v)) p"
  have "storage_set br item v p = Inr ?p"
    using assms(4) by (simp add: storage_set_wrote parse_or_null_legal)
  moreover have "fst (storage_get item ?p) = Some v"
    using assms(4) by (simp add: storage_get_view view_wrote_own [OF assms(1)] parse_or_null_legal)
  moreover have "fst (storage_get item (reload ?p)) = Some v" if "utf8 (js_string v)"
    using that legal_text [OF assms(4)] assms(4) durable_write_raw_own [OF assms(2,3), of "Some (js_string v)"]
    by (simp add: storage_get_view view_reload wrote_keeps [OF assms(1)] parse_or_null_legal)
  ultimately show ?thesis by blast
qed

end

abbreviation theme_values :: "stored set" where
  "theme_values \<equiv> {SText ''light'', SText ''dark'', SText ''system''}"

abbreviation text_values :: "stored set" where
  "text_values \<equiv> {SText s | s. s \<noteq> []}"

abbreviation bool_values :: "stored set" where
  "bool_values \<equiv> {SBool True, SBool False}"

interpretation theme: item_codec THEME theme_values
  by unfold_locales (auto simp: theme_parse_def app_tokens split: if_splits)

interpretation last_email: item_codec LAST_EMAIL text_values
  by unfold_locales (auto simp: nonempty_parse_def app_tokens split: if_splits)

interpretation active_org: item_codec ACTIVE_ORG text_values
  by unfold_locales (auto simp: nonempty_parse_def app_tokens split: if_splits)

interpretation sidebar_open: item_codec SIDEBAR_OPEN bool_values
  by unfold_locales (auto simp: sidebar_parse_def app_tokens split: if_splits)

definition app_codecs :: "(storage_item \<times> stored set) list" where
  "app_codecs = [(THEME, theme_values), (LAST_EMAIL, text_values), (ACTIVE_ORG, text_values), (SIDEBAR_OPEN, bool_values)]"

text \<open>
  The four items of the application: every legal value can be set, is what the next \<open>get\<close>
  returns, and (if its text is well-formed) is what \<open>get\<close> returns after a reload; and whatever
  is in the stores, \<open>get\<close> returns a legal value of the item or \<open>null\<close>.
\<close>

theorem app_items_round_trip:
  assumes "read_only br" and "cookie_store br item" and "working p" and "(item, legal) \<in> set app_codecs"
  shows "(v \<in> legal \<longrightarrow> (\<exists>p'. storage_set br item v p = Inr p' \<and> fst (storage_get item p') = Some v
      \<and> (utf8 (js_string v) \<longrightarrow> fst (storage_get item (reload p')) = Some v)))
    \<and> (\<forall>q. case fst (storage_get item q) of None \<Rightarrow> True | Some w \<Rightarrow> w \<in> legal)"
proof -
  have "item_codec item legal"
    using assms(4) theme.item_codec_axioms last_email.item_codec_axioms
      active_org.item_codec_axioms sidebar_open.item_codec_axioms
    unfolding app_codecs_def by auto
  then show ?thesis
    using item_codec.set_then_get [OF _ assms(1-3)] item_codec.get_legal
    by (auto split: option.splits)
qed

theorem app_items_round_trip_witness:
  "\<exists>p'. storage_set quiet_browser SIDEBAR_OPEN (SBool False) (web_page []) = Inr p'
    \<and> fst (storage_get SIDEBAR_OPEN p') = Some (SBool False)
    \<and> fst (storage_get SIDEBAR_OPEN (reload p')) = Some (SBool False)"
proof -
  have "(SIDEBAR_OPEN, bool_values) \<in> set app_codecs" by (simp add: app_codecs_def)
  moreover have "cookie_store quiet_browser SIDEBAR_OPEN" by (simp add: quiet_browser_ok app_tokens)
  moreover have "utf8 (js_string (SBool False))" by (rule utf8_ascii) simp
  ultimately show ?thesis
    using app_items_round_trip [OF quiet_browser_ok(1) _ web_page_working, of SIDEBAR_OPEN bool_values "SBool False" "[]"]
    by auto
qed

end
