(* ===== verification/Storage_Tabs.thy ===== *)
theory Storage_Tabs
  imports Storage
begin

text \<open>
  Several tabs of one origin: every tab is a page of \<^verbatim>\<open>packages/storage/src\<close> with its own
  cache, and a message that one posts goes into the inbox of every other tab whose channel is
  open, to be delivered later, in the order of posting. The cookie text a tab sees may change
  at any moment (another tab's write arrives late, or early): that is a step of the
  environment. The step relation says which tab may write which item.

  The theory shows that an item without the \<open>broadcast\<close> flag never leaks into another tab's
  cache, and that for a broadcast item with one writing tab every listening tab, once its
  inbox is empty, reads what the writer reads, whatever its cookie text shows.
\<close>

record net =
  tab :: "nat \<Rightarrow> page"
  inbox :: "nat \<Rightarrow> js_data list"

text \<open>What tab \<open>i\<close> posted goes to the others that listen.\<close>

definition dispatch :: "nat \<Rightarrow> page \<Rightarrow> net \<Rightarrow> net" where
  "dispatch i p s = \<lparr>tab = (tab s)(i := p\<lparr>pg_posted := []\<rparr>),
     inbox = (\<lambda>j. if j \<noteq> i \<and> pg_channel (tab s j) = ChOpen
                  then inbox s j @ map payload_data (pg_posted p) else inbox s j)\<rparr>"

inductive tab_step :: "browser \<Rightarrow> (nat \<Rightarrow> storage_item \<Rightarrow> bool) \<Rightarrow> net \<Rightarrow> net \<Rightarrow> bool"
  for br :: browser and may :: "nat \<Rightarrow> storage_item \<Rightarrow> bool" where
  tab_set: "may i it \<Longrightarrow> storage_set br it v (tab s i) = Inr p \<Longrightarrow> tab_step br may s (dispatch i p s)"
| tab_clear: "may i it \<Longrightarrow> storage_clear br it (tab s i) = p \<Longrightarrow> tab_step br may s (dispatch i p s)"
| tab_get: "snd (storage_get it (tab s i)) = p \<Longrightarrow> tab_step br may s (dispatch i p s)"
| tab_deliver: "inbox s i = d # ds \<Longrightarrow>
    tab_step br may s (s\<lparr>tab := (tab s)(i := receive br d (tab s i)), inbox := (inbox s)(i := ds)\<rparr>)"
| tab_cookie: "tab_step br may s (s\<lparr>tab := (tab s)(i := (tab s i)\<lparr>pg_cookie := c\<rparr>)\<rparr>)"

inductive tab_steps :: "browser \<Rightarrow> (nat \<Rightarrow> storage_item \<Rightarrow> bool) \<Rightarrow> net \<Rightarrow> net \<Rightarrow> bool"
  for br :: browser and may :: "nat \<Rightarrow> storage_item \<Rightarrow> bool" and s :: net where
  steps_refl: "tab_steps br may s s"
| steps_step: "tab_steps br may s t \<Longrightarrow> tab_step br may t u \<Longrightarrow> tab_steps br may s u"

section \<open>What a step does to a page\<close>

text \<open>Listeners that only read: they keep the storage and post nothing; at most they open the channel.\<close>

definition opens :: "page \<Rightarrow> page \<Rightarrow> bool" where
  "opens p q \<longleftrightarrow> storage_of q = storage_of p \<and> pg_posted q = pg_posted p \<and> pg_has_bc q = pg_has_bc p
     \<and> (pg_channel q = pg_channel p \<or> pg_channel p = ChUnset \<and> pg_channel q = pg_channel (getChannel p))"

definition silent :: "browser \<Rightarrow> bool" where
  "silent br \<longleftrightarrow> (\<forall>l n p. opens p (fst (local_listener br l n p))) \<and> (\<forall>h p. opens p (change_handler br h p))"

lemma opens_refl [simp]: "opens p p" by (simp add: opens_def)

lemma opens_trans: "opens p q \<Longrightarrow> opens q r \<Longrightarrow> opens p r"
  by (auto simp: opens_def getChannel_def split: if_splits)

lemma opens_errors [simp]: "opens p (pg_errors_update f q) \<longleftrightarrow> opens p q"
  by (simp add: opens_def)

lemma opens_getChannel [simp]: "opens p (getChannel p)"
  by (simp add: opens_def) (simp add: getChannel_def)

lemma silent_read_only: "silent br \<Longrightarrow> read_only br"
  unfolding silent_def read_only_def opens_def by blast

lemma opens_fire_all: "silent br \<Longrightarrow> opens p (fire_all br n ls p)"
proof (induction ls arbitrary: p)
  case (Cons l ls)
  obtain q threw where q: "local_listener br l n p = (q, threw)" by fastforce
  with Cons.prems have "opens p q" unfolding silent_def by (metis fst_conv)
  then have "opens p (if threw then q\<lparr>pg_errors := pg_errors q @ [n]\<rparr> else q)" by simp
  from opens_trans [OF this Cons.IH [OF Cons.prems]] q show ?case by simp
qed simp

lemma opens_fold: "(\<And>x p. opens p (f x p)) \<Longrightarrow> opens p (fold f xs p)"
  by (induction xs arbitrary: p) (auto intro: opens_trans)

lemma opens_get: "opens p (snd (storage_get it p))"
  by (auto simp: storage_get_def readCookieRaw_def readLocalStorageRaw_def getCachedValue_def
      split: option.splits outcome.splits)

lemma opens_receive:
  assumes "silent br" and "pg_channel p = ChOpen"
  shows "opens (channel_listener d p) (receive br d p)"
  using assms by (auto simp: receive_def silent_def change_listener_def intro!: opens_fold)

text \<open>A tab that can post: its channel is open, or will be at the first use.\<close>

definition can_post :: "page \<Rightarrow> bool" where
  "can_post p \<longleftrightarrow> pg_has_bc p \<and> pg_channel p \<in> {ChUnset, ChOpen}"

lemma wrote_posts:
  assumes "silent br"
  shows "pg_posted (wrote br it v p) =
      (if si_broadcast it \<and> pg_channel (wrote br it v p) = ChOpen then pg_posted p @ [(si_name it, v)] else pg_posted p)"
    and "can_post p \<Longrightarrow> can_post (wrote br it v p)"
    and "can_post p \<Longrightarrow> si_broadcast it \<Longrightarrow> pg_channel (wrote br it v p) = ChOpen"
    and "pg_channel p = ChOpen \<Longrightarrow> pg_channel (wrote br it v p) = ChOpen"
proof -
  let ?p = "writeCache (si_name it) v (write_raw br it v p)"
  have "opens ?p (fireLocal br (si_name it) ?p)"
    unfolding fireLocal_def by (rule opens_fire_all [OF assms])
  moreover have "pg_posted ?p = pg_posted p" "pg_channel ?p = pg_channel p"
    by (simp_all add: writeCache_def)
  moreover have "pg_has_bc ?p = pg_has_bc p"
    by (auto simp: writeCache_def write_raw_def raw_writes split: option.splits)
  ultimately show
    "pg_posted (wrote br it v p) =
      (if si_broadcast it \<and> pg_channel (wrote br it v p) = ChOpen then pg_posted p @ [(si_name it, v)] else pg_posted p)"
    "can_post p \<Longrightarrow> can_post (wrote br it v p)"
    "can_post p \<Longrightarrow> si_broadcast it \<Longrightarrow> pg_channel (wrote br it v p) = ChOpen"
    "pg_channel p = ChOpen \<Longrightarrow> pg_channel (wrote br it v p) = ChOpen"
    by (auto simp: wrote_def notifyChange_def opens_def can_post_def getChannel_def Let_def split: if_splits)
qed

section \<open>Every step, for one item\<close>

text \<open>The last value a list of messages carries for a name.\<close>

fun last_for :: "string \<Rightarrow> js_data list \<Rightarrow> string option option" where
  "last_for n [] = None"
| "last_for n (d # ds) =
     (case last_for n ds of
        Some v \<Rightarrow> Some v
      | None \<Rightarrow> if isChangePayload d \<and> data_name d = n then Some (data_value d) else None)"

text \<open>What the cache of a tab says of a name once its inbox is empty.\<close>

definition settled :: "net \<Rightarrow> nat \<Rightarrow> string \<Rightarrow> string option option" where
  "settled s j n = (case last_for n (inbox s j) of Some v \<Rightarrow> Some v | None \<Rightarrow> pg_cache (tab s j) n)"

lemma last_for_append:
  "last_for n (xs @ ys) = (case last_for n ys of Some v \<Rightarrow> Some v | None \<Rightarrow> last_for n xs)"
  by (induction xs) (auto split: option.splits)

lemma payload_data_sel [simp]:
  "isChangePayload (payload_data m)" "data_name (payload_data m) = fst m" "data_value (payload_data m) = snd m"
  by (auto simp: payload_data_def split: option.splits)

lemma pg_cache_dispatch [simp]: "pg_cache (tab (dispatch i p s) j) = (if j = i then pg_cache p else pg_cache (tab s j))"
  by (simp add: dispatch_def)

lemma pg_cache_opens: "opens p q \<Longrightarrow> pg_cache q = pg_cache p"
  by (simp add: opens_def storage_of_def)

text \<open>A write of an item named \<open>n\<close> or of another one, seen from tab \<open>j\<close>.\<close>

lemma settled_wrote:
  assumes "silent br" and "pg_posted (tab s i) = []"
  shows "settled (dispatch i (wrote br it v (tab s i)) s) j n =
    (if j = i then (if n = si_name it \<and> last_for n (inbox s i) = None then Some v else settled s i n)
     else if si_broadcast it \<and> n = si_name it \<and> pg_channel (tab s j) = ChOpen
       \<and> pg_channel (wrote br it v (tab s i)) = ChOpen then Some v
     else settled s j n)"
  using wrote_keeps(4) [OF silent_read_only [OF assms(1)], of it v "tab s i"] assms(2)
  by (auto simp: settled_def dispatch_def wrote_posts(1) [OF assms(1)] last_for_append split: option.splits)

lemma settled_get:
  assumes "pg_posted (tab s i) = []"
  shows "settled (dispatch i (snd (storage_get it (tab s i))) s) j n = settled s j n"
  using opens_get [of "tab s i" it] assms
  by (auto simp: settled_def dispatch_def opens_def storage_of_def split: option.splits)

lemma pg_cache_receive:
  assumes "silent br"
  shows "pg_cache (receive br d p) =
    (if pg_channel p = ChOpen \<and> isChangePayload d then (pg_cache p)(data_name d \<mapsto> data_value d) else pg_cache p)"
proof (cases "pg_channel p = ChOpen")
  case True
  then show ?thesis
    by (simp only: pg_cache_opens [OF opens_receive [OF assms True]]) (simp add: channel_listener_def)
qed (simp add: receive_def)

lemma settled_deliver:
  assumes "silent br" and "inbox s i = d # ds" and "pg_channel (tab s i) = ChOpen"
  shows "settled (s\<lparr>tab := (tab s)(i := receive br d (tab s i)), inbox := (inbox s)(i := ds)\<rparr>) j n = settled s j n"
  using assms by (auto simp: settled_def pg_cache_receive split: option.splits)

section \<open>Reachable nets\<close>

text \<open>
  Tabs just opened: nothing posted, nothing cached, nothing in flight. A tab of \<open>L\<close> has
  opened its channel (by its first \<open>get\<close>, say); every tab can post.
\<close>

definition fresh_net :: "nat set \<Rightarrow> net \<Rightarrow> bool" where
  "fresh_net L s \<longleftrightarrow> (\<forall>i. pg_posted (tab s i) = [] \<and> pg_cache (tab s i) = Map.empty \<and> inbox s i = []
     \<and> can_post (tab s i)) \<and> (\<forall>i \<in> L. pg_channel (tab s i) = ChOpen)"

text \<open>What every step keeps: only open tabs have mail, nothing is left to post, tabs stay able to post.\<close>

definition net_ok :: "nat set \<Rightarrow> net \<Rightarrow> bool" where
  "net_ok L s \<longleftrightarrow> (\<forall>i. pg_posted (tab s i) = [] \<and> can_post (tab s i)
     \<and> (inbox s i \<noteq> [] \<longrightarrow> pg_channel (tab s i) = ChOpen)) \<and> (\<forall>i \<in> L. pg_channel (tab s i) = ChOpen)"

lemma net_ok_dispatch:
  assumes "net_ok L s" and "can_post p" and "pg_channel (tab s i) = ChOpen \<Longrightarrow> pg_channel p = ChOpen"
  shows "net_ok L (dispatch i p s)"
  using assms by (auto simp: net_ok_def dispatch_def can_post_def)

lemma channel_opens: "opens p q \<Longrightarrow> can_post p \<Longrightarrow> can_post q \<and> (pg_channel p = ChOpen \<longrightarrow> pg_channel q = ChOpen)"
  by (auto simp: opens_def can_post_def getChannel_def split: if_splits)

lemma storage_set_InrD: "storage_set br it v p = Inr q \<Longrightarrow> q = wrote br it (Some (js_string v)) p"
  by (simp add: storage_set_wrote split: if_splits)

lemma net_ok_wrote:
  assumes "net_ok L s" and "silent br"
  shows "net_ok L (dispatch i (wrote br it v (tab s i)) s)"
proof (rule net_ok_dispatch [OF assms(1)])
  show "can_post (wrote br it v (tab s i))"
    using assms(1) wrote_posts(2) [OF assms(2)] by (simp add: net_ok_def)
  show "pg_channel (wrote br it v (tab s i)) = ChOpen" if "pg_channel (tab s i) = ChOpen"
    using that by (rule wrote_posts(4) [OF assms(2)])
qed

lemma net_ok_step:
  assumes "tab_step br may s t" and "silent br" and "net_ok L s"
  shows "net_ok L t"
  using assms(1)
proof cases
  case (tab_set i it v p)
  then show ?thesis using net_ok_wrote [OF assms(3,2)] storage_set_InrD by metis
next
  case (tab_clear i it p)
  then show ?thesis using net_ok_wrote [OF assms(3,2)] storage_clear_wrote by metis
next
  case (tab_get it i p)
  have "can_post (tab s i)" using assms(3) by (simp add: net_ok_def)
  with tab_get channel_opens [OF opens_get, of "tab s i" it] net_ok_dispatch [OF assms(3), of p i]
  show ?thesis by blast
next
  case (tab_deliver i d ds)
  have open_i: "pg_channel (tab s i) = ChOpen" using tab_deliver(2) assms(3) by (simp add: net_ok_def)
  let ?r = "receive br d (tab s i)"
  have "can_post (channel_listener d (tab s i))" "pg_posted (channel_listener d (tab s i)) = []"
    "pg_channel (channel_listener d (tab s i)) = pg_channel (tab s i)"
    using assms(3) by (auto simp: net_ok_def can_post_def channel_listener_def writeCache_def)
  then have "can_post ?r" "pg_channel ?r = ChOpen" "pg_posted ?r = []"
    using opens_receive [OF assms(2) open_i, of d] channel_opens [OF opens_receive [OF assms(2) open_i, of d]] open_i
    by (simp_all add: opens_def)
  with assms(3) open_i show ?thesis
    unfolding tab_deliver(1) net_ok_def by auto
next
  case (tab_cookie i c)
  with assms(3) show ?thesis by (auto simp: net_ok_def can_post_def)
qed

lemma net_ok_steps:
  assumes "tab_steps br may s t" and "silent br" and "fresh_net L s"
  shows "net_ok L t"
  using assms(1)
proof induction
  case steps_refl
  show ?case using assms(3) by (simp add: fresh_net_def net_ok_def)
qed (use net_ok_step [OF _ assms(2)] in blast)

text \<open>
  A step in terms of \<^const>\<open>settled\<close>: a write of an item the relation allows, or no change.
\<close>

lemma settled_step:
  assumes "tab_step br may s t" and "silent br" and "net_ok L s"
  obtains (writes) i it v where "may i it" and "t = dispatch i (wrote br it v (tab s i)) s"
  | (same) "\<And>j n. settled t j n = settled s j n"
  using assms(1)
proof cases
  case (tab_set i it v p)
  then show ?thesis using writes [of i it] storage_set_InrD by metis
next
  case (tab_clear i it p)
  then show ?thesis using writes [of i it] storage_clear_wrote by metis
next
  case (tab_get it i p)
  moreover have "pg_posted (tab s i) = []" using assms(3) by (simp add: net_ok_def)
  ultimately show ?thesis using same settled_get by metis
next
  case (tab_deliver i d ds)
  then show ?thesis using same settled_deliver [OF assms(2)] assms(3) by (simp add: net_ok_def)
next
  case (tab_cookie i c)
  have "settled t j n = settled s j n" for j n
    unfolding tab_cookie(1) settled_def by (auto split: option.splits)
  then show ?thesis by (rule same)
qed

text \<open>
  Items without the \<open>broadcast\<close> flag are per tab: however the tabs interleave their
  operations and the deliveries, a tab that has not written such an item never gets an entry
  for it in its cache, so that it reads the durable store only.
\<close>

theorem per_tab_items_stay_per_tab:
  assumes "silent br" and "fresh_net L s" and "tab_steps br may s t"
    and "\<forall>i it. may i it \<longrightarrow> si_name it = n \<longrightarrow> \<not> si_broadcast it \<and> i \<noteq> j"
  shows "pg_cache (tab t j) n = None \<and> view (tab t j) n = durable (tab t j) n"
proof -
  from assms(3) have "settled t j n = None"
  proof induction
    case steps_refl
    show ?case using assms(2) by (simp add: fresh_net_def settled_def)
  next
    case (steps_step t u)
    have ok: "net_ok L t" using net_ok_steps [OF steps_step.hyps(1) assms(1,2)] .
    from steps_step.hyps(2) assms(1) ok show ?case
    proof (cases rule: settled_step)
      case (writes i it v)
      moreover have "pg_posted (tab t i) = []" using ok by (simp add: net_ok_def)
      ultimately show ?thesis
        using settled_wrote [OF assms(1), of t i it v j n] assms(4) steps_step.IH by (auto split: if_splits)
    next
      case same
      with steps_step.IH show ?thesis by simp
    qed
  qed
  then show ?thesis by (auto simp: settled_def view_def split: option.splits)
qed

text \<open>Tabs on one origin, all listening, in which tab 0 sets an item.\<close>

definition sample_net :: net where
  "sample_net = \<lparr>tab = (\<lambda>i. (web_page app_registry)\<lparr>pg_channel := ChOpen\<rparr>), inbox = (\<lambda>i. [])\<rparr>"

abbreviation only_tab_0 :: "storage_item \<Rightarrow> nat \<Rightarrow> storage_item \<Rightarrow> bool" where
  "only_tab_0 item i it \<equiv> i = 0 \<and> it = item"

lemma quiet_silent: "silent quiet_browser"
  by (simp add: silent_def quiet_browser_def)

lemma sample_fresh: "fresh_net UNIV sample_net"
  by (simp add: fresh_net_def sample_net_def web_page_def can_post_def)

theorem per_tab_items_witness:
  "\<exists>t. tab_steps quiet_browser (only_tab_0 SIDEBAR_OPEN) sample_net t
    \<and> pg_cache (tab t 0) ''pivox.sidebar-state'' = Some (Some ''true'')
    \<and> pg_cache (tab t 1) ''pivox.sidebar-state'' = None"
proof -
  let ?p = "wrote quiet_browser SIDEBAR_OPEN (Some ''true'') (tab sample_net 0)"
  let ?t = "dispatch 0 ?p sample_net"
  have "storage_set quiet_browser SIDEBAR_OPEN (SBool True) (tab sample_net 0) = Inr ?p"
    by (simp add: storage_set_wrote parse_or_null_def sidebar_parse_def)
  then have steps: "tab_steps quiet_browser (only_tab_0 SIDEBAR_OPEN) sample_net ?t"
    by (intro steps_step [OF steps_refl] tab_set) simp_all
  have "pg_cache (tab ?t 1) ''pivox.sidebar-state'' = None"
    using per_tab_items_stay_per_tab [OF quiet_silent sample_fresh steps, of "''pivox.sidebar-state''" 1] by simp
  then show ?thesis
    using steps wrote_keeps(4) [OF quiet_browser_ok(1), of SIDEBAR_OPEN "Some ''true''" "tab sample_net 0"]
    by (intro exI [of _ ?t]) simp
qed

text \<open>The inbox of the only tab that writes an item holds no message about it.\<close>

lemma writer_inbox:
  assumes "tab_step br may s t" and "silent br" and "net_ok L s"
    and "\<forall>i it. may i it \<longrightarrow> si_name it = n \<longrightarrow> i = w" and "last_for n (inbox s w) = None"
  shows "last_for n (inbox t w) = None"
proof -
  have wrote: "last_for n (inbox (dispatch i (wrote br it v (tab s i)) s) w) = None" if "may i it" for i it v
    using that assms(3-5) wrote_posts(1) [OF assms(2), of it v "tab s i"]
    by (auto simp: dispatch_def last_for_append net_ok_def)
  from assms(1) show ?thesis
  proof cases
    case (tab_set i it v p)
    then show ?thesis using wrote storage_set_InrD by metis
  next
    case (tab_clear i it p)
    then show ?thesis using wrote storage_clear_wrote by metis
  next
    case (tab_get it i p)
    then show ?thesis
      using assms(3,5) opens_get [of "tab s i" it] by (auto simp: dispatch_def opens_def net_ok_def)
  next
    case (tab_deliver i d ds)
    then show ?thesis using assms(5) by (auto split: option.splits)
  next
    case (tab_cookie i c)
    then show ?thesis using assms(5) by simp
  qed
qed

text \<open>
  C18. A broadcast item with one writing tab: once a listening tab has received what is in its
  inbox, its cache for the item is that of the writer, and if the writer has written (or
  cleared) the item at all, \<open>get\<close> in that tab returns what \<open>get\<close> in the writing tab returns,
  whatever the cookie text of either tab shows at that moment.
\<close>

theorem broadcast_items_converge:
  assumes "silent br" and "fresh_net L s" and "tab_steps br may s t"
    and "\<forall>i it. may i it \<longrightarrow> si_name it = n \<longrightarrow> i = w \<and> si_broadcast it"
    and "j \<in> L" and "j \<noteq> w" and "inbox t j = []"
  shows "pg_cache (tab t j) n = pg_cache (tab t w) n
    \<and> (\<forall>it. si_name it = n \<longrightarrow> pg_cache (tab t w) n \<noteq> None \<longrightarrow>
         fst (storage_get it (tab t j)) = fst (storage_get it (tab t w)))"
proof -
  from assms(3) have "last_for n (inbox t w) = None \<and> settled t j n = settled t w n"
  proof induction
    case steps_refl
    show ?case using assms(2) by (simp add: fresh_net_def settled_def)
  next
    case (steps_step t u)
    have ok: "net_ok L t" using net_ok_steps [OF steps_step.hyps(1) assms(1,2)] .
    have inbox_w: "last_for n (inbox u w) = None"
      using writer_inbox [OF steps_step.hyps(2) assms(1) ok] assms(4) steps_step.IH by blast
    from steps_step.hyps(2) assms(1) ok show ?case
    proof (cases rule: settled_step)
      case (writes i it v)
      have posted: "pg_posted (tab t i) = []" and ch: "pg_channel (tab t j) = ChOpen"
        and "can_post (tab t i)"
        using ok assms(5) by (auto simp: net_ok_def)
      then have open_i: "si_broadcast it \<Longrightarrow> pg_channel (wrote br it v (tab t i)) = ChOpen"
        using wrote_posts(3) [OF assms(1)] by simp
      show ?thesis
      proof (cases "si_name it = n")
        case True
        with assms(4) writes(1) have iw: "i = w" "si_broadcast it" by auto
        have "settled u w n = Some v"
          unfolding writes(2) settled_wrote [OF assms(1) posted] using iw True steps_step.IH by simp
        moreover have "settled u j n = Some v"
          unfolding writes(2) settled_wrote [OF assms(1) posted] using iw True ch open_i assms(6) by simp
        ultimately show ?thesis using inbox_w by simp
      next
        case False
        then have "settled u k n = settled t k n" for k
          unfolding writes(2) settled_wrote [OF assms(1) posted] by auto
        with steps_step.IH inbox_w show ?thesis by simp
      qed
    next
      case same
      with steps_step.IH inbox_w show ?thesis by simp
    qed
  qed
  with assms(7) have "pg_cache (tab t j) n = pg_cache (tab t w) n"
    by (simp add: settled_def)
  moreover have "view (tab t j) n = view (tab t w) n" if "pg_cache (tab t w) n \<noteq> None"
    using that calculation by (auto simp: view_def)
  ultimately show ?thesis by (simp add: storage_get_view)
qed

theorem broadcast_items_converge_witness:
  "\<exists>t. tab_steps quiet_browser (only_tab_0 THEME) sample_net t
    \<and> fst (storage_get THEME (tab t 0)) = Some (SText ''dark'')
    \<and> fst (storage_get THEME (tab t 1)) = Some (SText ''dark'')"
proof -
  let ?p = "wrote quiet_browser THEME (Some ''dark'') (tab sample_net 0)"
  let ?d = "payload_data (''pivox.theme'', Some ''dark'')"
  define s1 where "s1 = dispatch 0 ?p sample_net"
  define t where "t = s1\<lparr>tab := (tab s1)(1 := receive quiet_browser ?d (tab s1 1)), inbox := (inbox s1)(1 := [])\<rparr>"
  have "storage_set quiet_browser THEME (SText ''dark'') (tab sample_net 0) = Inr ?p"
    by (simp add: storage_set_wrote parse_or_null_def theme_parse_def)
  then have s1: "tab_steps quiet_browser (only_tab_0 THEME) sample_net s1"
    unfolding s1_def by (intro steps_step [OF steps_refl] tab_set) simp_all
  have "pg_channel ?p = ChOpen"
    by (rule wrote_posts(4) [OF quiet_silent]) (simp add: sample_net_def)
  then have "inbox s1 1 = [?d]"
    using wrote_posts(1) [OF quiet_silent, of THEME "Some ''dark''" "tab sample_net 0"]
    by (simp add: s1_def dispatch_def) (simp add: sample_net_def web_page_def)
  then have steps: "tab_steps quiet_browser (only_tab_0 THEME) sample_net t"
    unfolding t_def by (intro steps_step [OF s1] tab_deliver)
  have cache0: "pg_cache (tab t 0) ''pivox.theme'' = Some (Some ''dark'')"
    using wrote_keeps(4) [OF quiet_browser_ok(1), of THEME "Some ''dark''" "tab sample_net 0"]
    by (simp add: t_def s1_def)
  then have get0: "fst (storage_get THEME (tab t 0)) = Some (SText ''dark'')"
    by (simp add: storage_get_view view_def parse_or_null_def theme_parse_def)
  moreover have "fst (storage_get THEME (tab t 1)) = fst (storage_get THEME (tab t 0))"
    using broadcast_items_converge [OF quiet_silent sample_fresh steps, of "''pivox.theme''" 0 1] cache0
    by (simp add: t_def)
  ultimately show ?thesis using steps by auto
qed

end
