(* ===== verification/Storage_Boot.thy ===== *)
theory Storage_Boot
  imports Storage
begin

text \<open>
  The readers of the stores outside a mounted page: the inline boot script
  (\<^verbatim>\<open>packages/storage/src/boot-script.ts\<close>), the server-side reads
  (\<^verbatim>\<open>apps/start/src/server/prefs.ts\<close>) and the React binding (\<^verbatim>\<open>packages/storage/src/react.ts\<close>).

  The text of the script is built from the source text of the items' functions, which is an
  argument (\<open>Function.prototype.toString\<close>); what the script does when it runs is modelled
  beside it. On the server, h3's \<open>getCookie\<close> is an argument. The theory shows that the script
  text cannot close its \<open><script>\<close> element, and that server, boot script and mounted page read
  the same theme, which is what keeps the first paint from flickering.
\<close>

section \<open>The text of the script\<close>

definition lower :: "char \<Rightarrow> char" where
  "lower c = (if 65 \<le> byte c \<and> byte c \<le> 90 then char_of (byte c + 32) else c)"

text \<open>\<open>JSON.stringify\<close> of a string.\<close>

definition json_char :: "char \<Rightarrow> string" where
  "json_char c =
     (if byte c = 34 then [char_of (92 :: nat), char_of (34 :: nat)]
      else if byte c = 92 then [char_of (92 :: nat), char_of (92 :: nat)]
      else if byte c = 8 then [char_of (92 :: nat), CHR ''b'']
      else if byte c = 12 then [char_of (92 :: nat), CHR ''f'']
      else if byte c = 10 then [char_of (92 :: nat), CHR ''n'']
      else if byte c = 13 then [char_of (92 :: nat), CHR ''r'']
      else if byte c = 9 then [char_of (92 :: nat), CHR ''t'']
      else if byte c < 32 then char_of (92 :: nat) # ''u00'' @ map lower [hex_digit (byte c div 16), hex_digit (byte c mod 16)]
      else [c])"

definition json_string :: "string \<Rightarrow> string" where
  "json_string s = [char_of (34 :: nat)] @ concat (map json_char s) @ [char_of (34 :: nat)]"

text \<open>\<open>source item\<close>: the source texts of \<open>item.parse\<close> and of \<open>item.onBoot\<close>, if it has one.\<close>

definition boot_item_text :: "(storage_item \<Rightarrow> string \<times> string) \<Rightarrow> storage_item \<Rightarrow> string" where
  "boot_item_text source item =
     ''{'' @ join_with '','' ([''name:'' @ json_string (si_name item), ''parse:'' @ fst (source item)]
       @ (if si_onBoot item \<noteq> None then [''onBoot:'' @ snd (source item)] else [])) @ ''}''"

text \<open>
  The lines of the template literal before and behind the item list; \<open>sq\<close> is the single quote
  and \<open>bs\<close> the backslash.
\<close>

abbreviation sq :: string where "sq \<equiv> [char_of (39 :: nat)]"

abbreviation bs :: string where "bs \<equiv> [char_of (92 :: nat)]"

definition script_head :: "string list" where
  "script_head =
     [''(function(){try{'',
      ''var isCookie=typeof location!=='' @ sq @ ''undefined'' @ sq @ ''&&(location.protocol==='' @ sq @ ''http:'' @ sq
        @ ''||location.protocol==='' @ sq @ ''https:'' @ sq @ '');'']"

definition script_tail :: "string list" where
  "script_tail =
     [''for(var i=0;i<items.length;i++){'',
      ''  try{'',
      ''    var it=items[i];'',
      ''    var raw=null;'',
      ''    if(isCookie){'',
      ''      var ck=document.cookie.split(/;'' @ bs @ ''s*/);'',
      ''      for(var j=0;j<ck.length;j++){'',
      ''        if(ck[j].indexOf(it.name+'' @ sq @ ''='' @ sq @ '')===0){'',
      ''          try{raw=decodeURIComponent(ck[j].slice(it.name.length+1));}catch(e){raw=null;}'',
      ''          break;'',
      ''        }'',
      ''      }'',
      ''    }else{'',
      ''      try{raw=localStorage.getItem(it.name);}catch(e){raw=null;}'',
      ''    }'',
      ''    if(it.onBoot){'',
      ''      var parsed=raw!==null?it.parse(raw):null;'',
      ''      it.onBoot(parsed);'',
      ''    }'',
      ''  }catch(e){console.error('' @ sq @ ''[pivox-storage-boot] item failed:'' @ sq @ '',items[i]&&items[i].name,e);}'',
      ''}'',
      ''}catch(e){console.error('' @ sq @ ''[pivox-storage-boot] outer failure:'' @ sq @ '',e);}})()'']"

definition closing_tag :: string where "closing_tag = ''</script''"

text \<open>\<open>text.replace(/<\\/script/gi, '<\\\\/script')\<close>.\<close>

definition tag_at :: "string \<Rightarrow> bool" where
  "tag_at s \<longleftrightarrow> map lower (take 8 s) = closing_tag"

lemma tag_at_Nil [simp]: "\<not> tag_at []"
  by (simp add: tag_at_def closing_tag_def)

function escape_tags :: "string \<Rightarrow> string" where
  "escape_tags s =
     (if tag_at s then ''<'' @ bs @ ''/script'' @ escape_tags (drop 8 s)
      else case s of [] \<Rightarrow> [] | c # t \<Rightarrow> c # escape_tags t)"
  by pat_completeness auto
termination
proof (relation "measure length")
  fix s
  assume "tag_at s"
  then have "s \<noteq> []" by auto
  then show "(drop 8 s, s) \<in> measure length" by simp
qed simp_all

declare escape_tags.simps [simp del]

definition newline :: string where "newline = [char_of (10 :: nat)]"

definition buildBootScript :: "(storage_item \<Rightarrow> string \<times> string) \<Rightarrow> registry \<Rightarrow> string" where
  "buildBootScript source reg =
     escape_tags (join_with newline
       (script_head @ [''var items=['' @ join_with '','' (map (boot_item_text source) (allItems reg)) @ ''];'']
        @ script_tail))"

lemma escape_tags_cons:
  "\<not> tag_at (c # t) \<Longrightarrow> escape_tags (c # t) = c # escape_tags t"
  by (subst escape_tags.simps) simp

lemma escape_tags_Nil [simp]: "escape_tags [] = []"
  by (subst escape_tags.simps) (simp add: tag_at_def closing_tag_def)

lemma lower_lt [simp]: "lower (CHR ''<'') = CHR ''<''"
  by (simp add: lower_def)

lemma lower_eq_lt: "lower c = CHR ''<'' \<longleftrightarrow> c = CHR ''<''"
proof
  assume l: "lower c = CHR ''<''"
  show "c = CHR ''<''"
  proof (cases "65 \<le> byte c \<and> byte c \<le> 90")
    case True
    with l have "char_of (byte c + 32) = CHR ''<''" by (simp add: lower_def)
    then have "byte (char_of (byte c + 32)) = byte (CHR ''<'')" by simp
    with True show ?thesis by simp
  qed (use l in \<open>auto simp: lower_def\<close>)
qed simp

lemma tag_at_Cons: "tag_at (c # t) \<Longrightarrow> c = CHR ''<''"
  by (simp add: tag_at_def closing_tag_def lower_eq_lt eval_nat_numeral)

text \<open>What the escaped text shows without a \<open><\<close>, the text itself shows.\<close>

lemma escape_tags_reflects:
  "map lower (take (length w) (escape_tags t)) = w \<Longrightarrow> CHR ''<'' \<notin> set w \<Longrightarrow> map lower (take (length w) t) = w"
proof (induction w arbitrary: t)
  case (Cons x w)
  show ?case
  proof (cases t)
    case Nil
    with Cons.prems show ?thesis by simp
  next
    case (Cons c u)
    have "\<not> tag_at t"
    proof
      assume "tag_at t"
      then have "escape_tags t = CHR ''<'' # bs @ ''/script'' @ escape_tags (drop 8 t)"
        by (subst escape_tags.simps) simp
      with Cons.prems show False by auto
    qed
    then have "escape_tags t = c # escape_tags u" by (simp add: Cons escape_tags_cons)
    with Cons.prems Cons.IH [of u] show ?thesis by (simp add: Cons)
  qed
qed simp

lemma escape_tags_no_tag_at: "\<not> tag_at (escape_tags s)"
proof (cases "tag_at s")
  case True
  then have "escape_tags s = ''<'' @ bs @ ''/script'' @ escape_tags (drop 8 s)" by (subst escape_tags.simps) simp
  then show ?thesis by (simp add: tag_at_def closing_tag_def lower_def)
next
  case no: False
  show ?thesis
  proof (cases s)
    case (Cons c t)
    with no have e: "escape_tags s = c # escape_tags t" by (simp add: escape_tags_cons)
    show ?thesis
    proof
      assume "tag_at (escape_tags s)"
      then have "lower c = CHR ''<''" and "map lower (take (length ''/script'') (escape_tags t)) = ''/script''"
        by (simp_all add: e tag_at_def closing_tag_def eval_nat_numeral)
      moreover from this(2) have "map lower (take (length ''/script'') t) = ''/script''"
        by (rule escape_tags_reflects) simp
      ultimately have "tag_at s" by (simp add: Cons tag_at_def closing_tag_def eval_nat_numeral)
      with no show False by simp
    qed
  qed (simp add: tag_at_def closing_tag_def)
qed

lemma drop_append_nth: "k < length xs \<Longrightarrow> drop k (xs @ ys) = xs ! k # drop (Suc k) (xs @ ys)"
  by (metis Cons_nth_drop_Suc length_append nth_append trans_less_add1)

lemma escape_tags_no_tag: "\<not> tag_at (drop k (escape_tags s))"
proof (induction s arbitrary: k rule: escape_tags.induct)
  case (1 s)
  show ?case
  proof (cases k)
    case 0
    then show ?thesis using escape_tags_no_tag_at by simp
  next
    case (Suc i)
    show ?thesis
    proof (cases "tag_at s")
      case True
      then have e: "escape_tags s = (''<'' @ bs @ ''/script'') @ escape_tags (drop 8 s)" by (subst escape_tags.simps) simp
      show ?thesis
      proof (cases "k < 9")
        case True
        let ?pre = "''<'' @ bs @ ''/script''"
        have len: "length ?pre = 9" by simp
        have "?pre ! k = tl ?pre ! i" using True Suc by (subst nth_tl) simp_all
        then have "?pre ! k \<in> set (tl ?pre)" using True Suc by (simp only: nth_mem length_tl len)
        then have "?pre ! k \<noteq> CHR ''<''" by (auto simp: char_of_eq_iff)
        moreover have "drop k (?pre @ escape_tags (drop 8 s)) = ?pre ! k # drop (Suc k) (?pre @ escape_tags (drop 8 s))"
          using True len by (intro drop_append_nth) (simp only:)
        ultimately show ?thesis unfolding e using tag_at_Cons by metis
      next
        case False
        have "drop k (escape_tags s) = drop (k - 9) (escape_tags (drop 8 s))"
          unfolding e drop_append using False by (simp add: eval_nat_numeral)
        then show ?thesis using 1(1) [OF True, of "k - 9"] by simp
      qed
    next
      case no: False
      show ?thesis
      proof (cases s)
        case (Cons c t)
        with no have "escape_tags s = c # escape_tags t" by (simp add: escape_tags_cons)
        with 1(2) [OF no Cons] Suc show ?thesis by simp
      qed (simp add: tag_at_def closing_tag_def)
    qed
  qed
qed

text \<open>
  The boot script cannot break out of its inline \<open><script>\<close> element: whatever source
  texts and names it is built from, nowhere in the text is there a \<open></script\<close> in any mix of
  cases, which is what would end the element.
\<close>

theorem buildBootScript_keeps_element_open:
  "map lower (take 8 (drop k (buildBootScript source reg))) \<noteq> ''</script''"
  unfolding buildBootScript_def by (rule escape_tags_no_tag [unfolded tag_at_def closing_tag_def])

section \<open>What the script does\<close>

fun boot_find :: "string \<Rightarrow> string list \<Rightarrow> string option" where
  "boot_find name [] = None"
| "boot_find name (part # parts) =
     (if startsWith part (name @ ''='') then decodeURIComponent (drop (length name + 1) part)
      else boot_find name parts)"

text \<open>\<open>boot_raw\<close> throws where there is no \<open>document\<close>.\<close>

definition boot_raw :: "page \<Rightarrow> storage_item \<Rightarrow> string option outcome" where
  "boot_raw p item =
     (if backend p = CookieBackend then
        (case pg_cookie p of None \<Rightarrow> Threw | Some c \<Rightarrow> Returned (boot_find (si_name item) (split_cookie c)))
      else Returned (case pg_local p of None \<Rightarrow> None | Some ls \<Rightarrow> if pg_local_ok p then ls (si_name item) else None))"

definition boot_item :: "page \<Rightarrow> storage_item \<Rightarrow> boot_env \<Rightarrow> boot_env outcome" where
  "boot_item p item env =
     (case boot_raw p item of
        Threw \<Rightarrow> Threw
      | Returned raw \<Rightarrow>
          (case si_onBoot item of
             None \<Rightarrow> Returned env
           | Some f \<Rightarrow>
               (case (case raw of None \<Rightarrow> Returned None | Some r \<Rightarrow> si_parse item r) of
                  Threw \<Rightarrow> Threw
                | Returned parsed \<Rightarrow> f parsed env)))"

text \<open>One item's failure is logged and the next item runs; a throwing \<open>onBoot\<close> keeps what it did not do.\<close>

fun boot_loop :: "page \<Rightarrow> storage_item list \<Rightarrow> boot_env \<times> string list \<Rightarrow> boot_env \<times> string list" where
  "boot_loop p [] st = st"
| "boot_loop p (item # items) (env, errors) =
     boot_loop p items
       (case boot_item p item env of
          Returned env' \<Rightarrow> (env', errors)
        | Threw \<Rightarrow> (env, errors @ [si_name item]))"

definition run_boot :: "page \<Rightarrow> boot_env \<Rightarrow> boot_env \<times> string list" where
  "run_boot p env = boot_loop p (allItems (pg_registry p)) (env, [])"

section \<open>Server-side reads\<close>

definition cookie_pref :: "(string \<Rightarrow> string option outcome) \<Rightarrow> storage_item \<Rightarrow> stored option" where
  "cookie_pref getCookie item =
     (case getCookie (si_name item) of
        Threw \<Rightarrow> None
      | Returned v \<Rightarrow> if truthy v then parse_or_null item (the v) else None)"

definition getThemeCookie :: "(string \<Rightarrow> string option outcome) \<Rightarrow> stored option" where
  "getThemeCookie getCookie = cookie_pref getCookie THEME"

definition getLastEmailCookie :: "(string \<Rightarrow> string option outcome) \<Rightarrow> stored option" where
  "getLastEmailCookie getCookie = cookie_pref getCookie LAST_EMAIL"

definition getSidebarOpenCookie :: "(string \<Rightarrow> string option outcome) \<Rightarrow> stored option" where
  "getSidebarOpenCookie getCookie = cookie_pref getCookie SIDEBAR_OPEN"

section \<open>The React binding\<close>

text \<open>
  A mounted hook \<open>h\<close> for an item: its same-window listener, and its channel listener if the
  item is broadcast.
\<close>

definition use_subscribe :: "nat \<Rightarrow> storage_item \<Rightarrow> page \<Rightarrow> page" where
  "use_subscribe h item p =
     (let q = subscribeLocal h p in if si_broadcast item then subscribeToChanges h (si_name item) q else q)"

definition use_unsubscribe :: "nat \<Rightarrow> storage_item \<Rightarrow> page \<Rightarrow> page" where
  "use_unsubscribe h item p =
     (let q = unsubscribeLocal h p
      in if si_broadcast item then q\<lparr>pg_subs := removeAll (h, si_name item) (pg_subs q)\<rparr> else q)"

text \<open>Whether the hook's \<open>onChange\<close> runs for a same-window write of \<open>changedName\<close>.\<close>

definition hook_wakes :: "storage_item \<Rightarrow> string \<Rightarrow> bool" where
  "hook_wakes item changedName \<longleftrightarrow> changedName = si_name item"

definition serverSnapshot :: "stored option option \<Rightarrow> stored option" where
  "serverSnapshot initialValue = or_default initialValue None"

definition getSnapshot :: "storage_item \<Rightarrow> page \<Rightarrow> stored option" where
  "getSnapshot item p = fst (storage_get item p)"

text \<open>
  Mounting and unmounting a hook leaves no listener behind, neither in the same-window set
  nor on the channel; while it is mounted, its listener is among those that a write notifies.
\<close>

theorem hook_leaves_no_listener:
  assumes "h \<notin> set (pg_listeners p)" and "(h, si_name item) \<notin> set (pg_subs p)"
  shows "pg_listeners (use_unsubscribe h item (use_subscribe h item p)) = pg_listeners p
    \<and> pg_subs (use_unsubscribe h item (use_subscribe h item p)) = pg_subs p
    \<and> h \<in> set (pg_listeners (use_subscribe h item p))
    \<and> (si_broadcast item \<longrightarrow> pg_channel (getChannel p) \<noteq> ChNull \<longrightarrow>
         (h, si_name item) \<in> set (pg_subs (use_subscribe h item p)))"
  using assms
  by (simp add: use_unsubscribe_def use_subscribe_def subscribeLocal_def unsubscribeLocal_def
      subscribeToChanges_def getChannel_def Let_def)

theorem hook_leaves_no_listener_witness:
  "pg_listeners (use_unsubscribe 7 THEME (use_subscribe 7 THEME (web_page []))) = [0, 1]
   \<and> (7, ''pivox.theme'') \<in> set (pg_subs (use_subscribe 7 THEME (web_page [])))"
  using hook_leaves_no_listener [of 7 "web_page []" THEME] by (simp add: web_page_def getChannel_def)

section \<open>The first paint\<close>

lemma decode_Nil_iff [simp]: "decodeURIComponent v = Some [] \<longleftrightarrow> v = []"
  by (cases v) (auto simp: read_point_def utf8_point_def bind_eq_Some_conv split: if_splits option.splits prod.splits)

lemma boot_find_cookie:
  "find_cookie name parts = (case boot_find name parts of None \<Rightarrow> None | Some [] \<Rightarrow> None | Some v \<Rightarrow> Some v)"
  by (induction parts) (auto split: option.splits list.splits)

text \<open>The class the mounted theme switcher applies: the stored theme, \<open>'system'\<close> by default.\<close>

definition shows_dark :: "stored option \<Rightarrow> bool \<Rightarrow> bool" where
  "shows_dark theme dark_os \<longleftrightarrow>
     theme = Some (SText ''dark'') \<or> (theme = None \<or> theme = Some (SText ''system'')) \<and> dark_os"

lemma theme_onBoot_shows:
  assumes "\<And>v. value = Some v \<Longrightarrow> v \<in> theme_values" and "''dark'' \<notin> set (html_classes env)"
  shows "\<exists>env'. theme_onBoot value env = Returned env'
    \<and> (''dark'' \<in> set (html_classes env') \<longleftrightarrow> shows_dark value (prefers_dark env))"
  using assms by (cases "value") (auto simp: theme_onBoot_def shows_dark_def Let_def)

lemma boot_theme_value:
  assumes "working p"
  shows "\<exists>raw. boot_raw p THEME = Returned raw
    \<and> (case raw of None \<Rightarrow> None | Some r \<Rightarrow> parse_or_null THEME r) = fst (storage_get THEME (reload p))"
proof (cases "backend p = CookieBackend")
  case True
  with assms obtain c where "pg_cookie p = Some c" by (auto simp: working_def)
  with True show ?thesis
    by (auto simp: boot_raw_def storage_get_view view_reload durable_def boot_find_cookie parse_or_null_def
        theme_parse_def split: option.splits list.splits)
next
  case False
  with assms show ?thesis
    by (auto simp: boot_raw_def storage_get_view view_reload durable_def working_def split: option.splits)
qed

text \<open>
  Server, boot script and mounted page agree on the theme: on a page with the items of the
  application the script fails for no item and gives \<open><html>\<close> the class \<open>dark\<close> exactly when the
  theme that the mounted page will read asks for it (none stored counts as following the
  system); and the server, if it sees the same cookie, reads that same theme.
\<close>

theorem first_paint_agrees:
  assumes "working p" and "pg_registry p = app_registry" and "''dark'' \<notin> set (html_classes env)"
    and "getCookie (si_name THEME) = Returned (durable p (si_name THEME))"
  shows "snd (run_boot p env) = []
    \<and> (''dark'' \<in> set (html_classes (fst (run_boot p env)))
        \<longleftrightarrow> shows_dark (getSnapshot THEME (reload p)) (prefers_dark env))
    \<and> getThemeCookie getCookie = getSnapshot THEME (reload p)"
proof -
  obtain raw where raw: "boot_raw p THEME = Returned raw"
    and val: "(case raw of None \<Rightarrow> None | Some r \<Rightarrow> parse_or_null THEME r) = fst (storage_get THEME (reload p))"
    using boot_theme_value [OF assms(1)] by blast
  obtain env' where env': "theme_onBoot (fst (storage_get THEME (reload p))) env = Returned env'"
    and dark: "''dark'' \<in> set (html_classes env') \<longleftrightarrow> shows_dark (fst (storage_get THEME (reload p))) (prefers_dark env)"
    using theme_onBoot_shows [of "fst (storage_get THEME (reload p))", OF _ assms(3)] theme.get_legal by blast
  have "boot_item p THEME env = Returned env'"
    using raw val env'
    by (auto simp: boot_item_def parse_or_null_def theme_parse_def split: option.splits)
      (auto simp: THEME_def defineItem_def THEME_opts_def Let_def)
  moreover have "boot_item p it e = Returned e" if "si_onBoot it = None" for it e
    using that assms(1) by (auto simp: boot_item_def boot_raw_def working_def split: option.splits)
  moreover have "si_onBoot LAST_EMAIL = None" "si_onBoot ACTIVE_ORG = None" "si_onBoot SIDEBAR_OPEN = None"
    by (simp_all add: LAST_EMAIL_def ACTIVE_ORG_def SIDEBAR_OPEN_def defineItem_def item_opts_defs Let_def)
  ultimately have "run_boot p env = (env', [])"
    by (simp add: run_boot_def assms(2) allItems_app)
  moreover have "getThemeCookie getCookie = getSnapshot THEME (reload p)"
    using assms(4)
    by (auto simp: getThemeCookie_def cookie_pref_def getSnapshot_def storage_get_view view_reload truthy_def
        parse_or_null_def theme_parse_def split: option.splits)
  ultimately show ?thesis using dark by (simp add: getSnapshot_def)
qed

theorem first_paint_agrees_witness:
  "''dark'' \<in> set (html_classes (fst (run_boot
      ((web_page app_registry)\<lparr>pg_cookie := Some ''x=1; pivox.theme=dark''\<rparr>) \<lparr>prefers_dark = False, html_classes = []\<rparr>)))
    \<longleftrightarrow> shows_dark (getSnapshot THEME (reload ((web_page app_registry)\<lparr>pg_cookie := Some ''x=1; pivox.theme=dark''\<rparr>))) False"
proof -
  let ?p = "(web_page app_registry)\<lparr>pg_cookie := Some ''x=1; pivox.theme=dark''\<rparr>"
  have "ws_prefix ''x=1; pivox.theme=dark'' = None"
    by (rule ws_prefix_unreserved) (simp add: unreserved_def)
  then have "working ?p" by (simp add: working_def web_page_def backend_def)
  then show ?thesis
    using first_paint_agrees [OF \<open>working ?p\<close>, of "\<lparr>prefers_dark = False, html_classes = []\<rparr>"
        "\<lambda>n. Returned (durable ?p n)"] by (simp add: web_page_def)
qed

end
