(* ===== verification/List_Controls.thy ===== *)
theory List_Controls
  imports Prelude
begin

text \<open>
  The list controls of the admin pages
  (\<^verbatim>\<open>packages/ui/src/resource-admin/use-list-controls.ts\<close>, \<^verbatim>\<open>slug.ts\<close>, \<^verbatim>\<open>types.ts\<close>,
  \<^verbatim>\<open>packages/ui/src/grid/types.ts\<close>, \<^verbatim>\<open>page-sizes.ts\<close>): sorting, filtering and the cursor
  back-stack, and the identifiers derived from display names.

  \<open>useListControls\<close> is a React hook. Its local state (\<open>cursorStack\<close>, \<open>syncedToken\<close>, the
  \<open>pending\<close> ref) together with the caller's \<open>value\<close> is the record \<open>lc\<close>; a setter changes the
  local state and emits the value to commit with its history mode; a render reconciles the
  stack with the value the caller passes in. Committing is the caller's step, so that renders
  in between, and changes of the value that no setter asked for (Back, Forward, a deep link),
  are steps too.
\<close>

section \<open>Sorting and literals\<close>

datatype sort_direction = Asc | Desc

record sort_state =
  ss_field :: string
  ss_direction :: sort_direction

datatype history_mode = Push | Replace

definition PAGE_SIZES :: "nat list" where "PAGE_SIZES = [10, 25, 50, 100]"

definition DEFAULT_PAGE_SIZE :: nat where "DEFAULT_PAGE_SIZE = 25"

definition orderByParam :: "sort_state option \<Rightarrow> string option" where
  "orderByParam srt = (case srt of
     None \<Rightarrow> None
   | Some s \<Rightarrow> Some (if ss_direction s = Desc then ss_field s @ '' desc'' else ss_field s))"

text \<open>\<open>value.replace(/c/g, r)\<close> for a single character.\<close>

definition replace_char :: "char \<Rightarrow> string \<Rightarrow> string \<Rightarrow> string" where
  "replace_char c r s = concat (map (\<lambda>x. if x = c then r else [x]) s)"

abbreviation backslash :: char where "backslash \<equiv> char_of (92 :: nat)"

abbreviation quote :: char where "quote \<equiv> char_of (34 :: nat)"

definition aipStringLiteral :: "string \<Rightarrow> string" where
  "aipStringLiteral v =
     [quote] @ replace_char quote [backslash, quote] (replace_char backslash [backslash, backslash] v) @ [quote]"

definition cycleSort :: "sort_state option \<Rightarrow> string \<Rightarrow> sort_state option" where
  "cycleSort current field =
     (case current of
        None \<Rightarrow> Some \<lparr>ss_field = field, ss_direction = Asc\<rparr>
      | Some s \<Rightarrow>
          if ss_field s \<noteq> field then Some \<lparr>ss_field = field, ss_direction = Asc\<rparr>
          else if ss_direction s = Asc then Some \<lparr>ss_field = field, ss_direction = Desc\<rparr>
          else None)"

section \<open>The hook\<close>

text \<open>The filters are a dictionary with the caller's keys.\<close>

record list_controls_value =
  lv_filters :: "(string \<times> string) list"
  lv_sort :: "sort_state option"
  lv_pageSize :: nat
  lv_scope :: string
  lv_pageToken :: "string option"

record lc =
  lc_value :: list_controls_value
  lc_stack :: "string list"
  lc_synced :: string
  lc_pending :: "string option"

abbreviation token_of :: "list_controls_value \<Rightarrow> string" where
  "token_of v \<equiv> or_default (lv_pageToken v) []"

definition lc_mount :: "list_controls_value \<Rightarrow> lc" where
  "lc_mount v = \<lparr>lc_value = v, lc_stack = [], lc_synced = token_of v, lc_pending = None\<rparr>"

text \<open>\<open>cursorStack.slice(0, cursorStack.indexOf(token))\<close>, or nothing where it is not in the stack.\<close>

definition trim_stack :: "string \<Rightarrow> string list \<Rightarrow> string list" where
  "trim_stack tok stack = (if tok \<in> set stack then takeWhile (\<lambda>t. t \<noteq> tok) stack else [])"

text \<open>A render with the caller's current value: the reconciliation.\<close>

definition render :: "lc \<Rightarrow> lc" where
  "render s =
     (let tok = token_of (lc_value s)
      in if tok \<noteq> lc_synced s then
           s\<lparr>lc_stack := (if lc_pending s \<noteq> Some tok then trim_stack tok (lc_stack s) else lc_stack s),
             lc_synced := tok, lc_pending := None\<rparr>
         else s)"

type_synonym emission = "list_controls_value \<times> history_mode"

definition commit :: "list_controls_value \<Rightarrow> history_mode \<Rightarrow> lc \<Rightarrow> lc \<times> emission" where
  "commit next history s = (s\<lparr>lc_pending := Some [], lc_stack := []\<rparr>, (next, history))"

definition setFilter :: "string \<Rightarrow> string \<Rightarrow> history_mode \<Rightarrow> lc \<Rightarrow> lc \<times> emission" where
  "setFilter field next history s =
     commit ((lc_value s)\<lparr>lv_filters := AList.update field next (lv_filters (lc_value s)), lv_pageToken := None\<rparr>) history s"

definition clearFilters :: "lc \<Rightarrow> lc \<times> emission" where
  "clearFilters s = commit ((lc_value s)\<lparr>lv_filters := [], lv_scope := [], lv_pageToken := None\<rparr>) Push s"

definition toggleSort :: "string \<Rightarrow> lc \<Rightarrow> lc \<times> emission" where
  "toggleSort field s =
     commit ((lc_value s)\<lparr>lv_sort := cycleSort (lv_sort (lc_value s)) field, lv_pageToken := None\<rparr>) Push s"

definition setPageSize :: "nat \<Rightarrow> lc \<Rightarrow> lc \<times> emission" where
  "setPageSize n s = commit ((lc_value s)\<lparr>lv_pageSize := n, lv_pageToken := None\<rparr>) Push s"

definition setScope :: "string \<Rightarrow> lc \<Rightarrow> lc \<times> emission" where
  "setScope scope s = commit ((lc_value s)\<lparr>lv_scope := scope, lv_pageToken := None\<rparr>) Push s"

definition nextPage :: "string \<Rightarrow> lc \<Rightarrow> lc \<times> emission" where
  "nextPage next s =
     (s\<lparr>lc_pending := Some next, lc_stack := lc_stack s @ [token_of (lc_value s)]\<rparr>,
      ((lc_value s)\<lparr>lv_pageToken := Some next\<rparr>, Push))"

text \<open>\<open>cursorStack.at(-1) || undefined\<close>: the empty string stands for the first page.\<close>

definition prev_target :: "lc \<Rightarrow> string option" where
  "prev_target s = (if lc_stack s = [] \<or> last (lc_stack s) = [] then None else Some (last (lc_stack s)))"

definition prevPage :: "lc \<Rightarrow> lc \<times> emission" where
  "prevPage s =
     (s\<lparr>lc_pending := Some (or_default (prev_target s) []), lc_stack := butlast (lc_stack s)\<rparr>,
      ((lc_value s)\<lparr>lv_pageToken := prev_target s\<rparr>, Push))"

definition hasPrevPage :: "lc \<Rightarrow> bool" where
  "hasPrevPage s \<longleftrightarrow> length (lc_stack s) > 0 \<or> truthy (lv_pageToken (lc_value s))"

text \<open>The caller commits an emitted value and the hook renders with it, after any interim render.\<close>

definition committed :: "lc \<times> emission \<Rightarrow> lc" where
  "committed r = render ((render (fst r))\<lparr>lc_value := fst (snd r)\<rparr>)"

text \<open>The value changes without a setter.\<close>

definition navigated :: "list_controls_value \<Rightarrow> lc \<Rightarrow> lc" where
  "navigated v s = render (s\<lparr>lc_value := v\<rparr>)"

section \<open>Identifiers\<close>

text \<open>
  What the loop of \<open>slugify\<close> sees of a lower-cased name: letters and digits, separators (white
  space, hyphen, underscore), and characters it drops. Of the letters beyond ASCII exactly two
  have an ASCII letter in their lower case: U+212A (the Kelvin sign, \<open>k\<close>) and U+0130 (a
  dotted capital I, \<open>i\<close> with a combining dot, which is dropped).
\<close>

datatype slug_item = SlugChar char | SlugSep | SlugDrop

definition lower_alnum :: "char \<Rightarrow> bool" where
  "lower_alnum c \<longleftrightarrow> is_digit c \<or> 97 \<le> (of_char c :: nat) \<and> (of_char c :: nat) \<le> 122"

definition slug_class :: "char \<Rightarrow> slug_item" where
  "slug_class c =
     (if lower_alnum c then SlugChar c
      else if 65 \<le> (of_char c :: nat) \<and> (of_char c :: nat) \<le> 90 then SlugChar (char_of ((of_char c :: nat) + 32))
      else if c = CHR ''-'' \<or> c = CHR ''_'' then SlugSep else SlugDrop)"

function slug_items :: "string \<Rightarrow> slug_item list" where
  "slug_items [] = []"
| "slug_items (c # s) =
     (case ws_prefix (c # s) of
        Some w \<Rightarrow> SlugSep # slug_items (drop (length w) (c # s))
      | None \<Rightarrow>
          if startsWith (c # s) (map char_of [226, 132, 170 :: nat]) then SlugChar (CHR ''k'') # slug_items (drop 2 s)
          else if startsWith (c # s) (map char_of [196, 176 :: nat]) then SlugChar (CHR ''i'') # SlugDrop # slug_items (drop 1 s)
          else slug_class c # slug_items s)"
  by pat_completeness auto
termination
  by (relation "measure length") (auto dest!: ws_prefix_SomeD elim!: startsWithE simp: Cons_eq_append_conv)

fun slug_loop :: "slug_item list \<Rightarrow> string \<Rightarrow> bool \<Rightarrow> string" where
  "slug_loop [] out lastHyphen = out"
| "slug_loop (SlugChar c # is) out lastHyphen = slug_loop is (out @ [c]) False"
| "slug_loop (SlugSep # is) out lastHyphen =
     (if \<not> lastHyphen \<and> length out > 0 then slug_loop is (out @ ''-'') True else slug_loop is out lastHyphen)"
| "slug_loop (SlugDrop # is) out lastHyphen = slug_loop is out lastHyphen"

fun drop_hyphens :: "string \<Rightarrow> string" where
  "drop_hyphens out = (if out \<noteq> [] \<and> last out = CHR ''-'' then drop_hyphens (butlast out) else out)"

declare drop_hyphens.simps [simp del]

definition slugify :: "string \<Rightarrow> string" where
  "slugify name = take 63 (drop_hyphens (slug_loop (slug_items name) [] False))"

text \<open>\<open>/^[a-z]([a-z0-9-]*[a-z0-9])?$/\<close>.\<close>

definition isValidIdentifier :: "string \<Rightarrow> bool" where
  "isValidIdentifier ident =
     (case ident of [] \<Rightarrow> False
      | c # r \<Rightarrow> lower_alnum c \<and> \<not> is_digit c \<and>
          (r = [] \<or> list_all (\<lambda>x. lower_alnum x \<or> x = CHR ''-'') r \<and> lower_alnum (last r)))"

section \<open>Literals cannot be escaped from\<close>

text \<open>
  An AIP-160 string literal: it begins with a quote and ends at the next quote that no
  backslash precedes; a backslash takes the next character as it is. The reader returns the
  value and the text behind the literal.
\<close>

fun read_chars :: "string \<Rightarrow> (string \<times> string) option" where
  "read_chars [] = None"
| "read_chars (c # s) =
     (if c = quote then Some ([], s)
      else if c = backslash then
        (case s of [] \<Rightarrow> None | d # t \<Rightarrow> map_option (map_prod ((#) d) id) (read_chars t))
      else map_option (map_prod ((#) c) id) (read_chars s))"

definition read_literal :: "string \<Rightarrow> (string \<times> string) option" where
  "read_literal s = (case s of [] \<Rightarrow> None | c # t \<Rightarrow> if c = quote then read_chars t else None)"

definition escape_char :: "char \<Rightarrow> string" where
  "escape_char c = (if c = backslash then [backslash, backslash] else if c = quote then [backslash, quote] else [c])"

lemma quote_backslash [simp]: "quote \<noteq> backslash" "backslash \<noteq> quote"
  by (simp_all add: char_of_eq_iff)

lemma aipStringLiteral_escape: "aipStringLiteral v = quote # concat (map escape_char v) @ [quote]"
proof -
  have "replace_char quote [backslash, quote] (replace_char backslash [backslash, backslash] v) = concat (map escape_char v)"
    by (induction v) (auto simp: replace_char_def escape_char_def)
  then show ?thesis by (simp add: aipStringLiteral_def)
qed

lemma read_chars_escape: "read_chars (concat (map escape_char v) @ quote # rest) = Some (v, rest)"
  by (induction v) (auto simp: escape_char_def)

text \<open>
  A value quoted by \<open>aipStringLiteral\<close> cannot break out of the filter expression: read as
  an AIP-160 literal, the quoted text followed by anything is exactly the value, and what is
  left is exactly what followed.
\<close>

theorem aipStringLiteral_reads_back: "read_literal (aipStringLiteral v @ rest) = Some (v, rest)"
  by (simp add: aipStringLiteral_escape read_literal_def read_chars_escape)

section \<open>Paging\<close>

text \<open>
  A settled state: the stack was reconciled with the current cursor, no navigation of our own is
  under way, and the first page is written as \<open>undefined\<close>.
\<close>

definition settled_lc :: "lc \<Rightarrow> bool" where
  "settled_lc s \<longleftrightarrow> lc_synced s = token_of (lc_value s) \<and> lc_pending s \<in> {None, Some (lc_synced s)}
     \<and> lv_pageToken (lc_value s) \<noteq> Some []"

lemma settled_mount: "lv_pageToken v \<noteq> Some [] \<Longrightarrow> settled_lc (lc_mount v)"
  by (simp add: settled_lc_def lc_mount_def)

lemma render_settled [simp]: "lc_synced s = token_of (lc_value s) \<Longrightarrow> render s = s"
  by (simp add: render_def)

text \<open>A setter of ours: the stack it leaves survives the commit.\<close>

lemma committed_own:
  assumes "lc_synced s = token_of (lc_value s)" and "lc_pending s = Some (token_of v)"
  shows "committed (s, (v, h)) =
    s\<lparr>lc_value := v, lc_synced := token_of v,
      lc_pending := (if token_of v = lc_synced s then lc_pending s else None)\<rparr>"
  using assms by (auto simp: committed_def render_def)

lemma committed_next:
  assumes "settled_lc s"
  shows "committed (nextPage t s) =
    s\<lparr>lc_value := (lc_value s)\<lparr>lv_pageToken := Some t\<rparr>, lc_stack := lc_stack s @ [token_of (lc_value s)],
      lc_synced := t, lc_pending := (if t = lc_synced s then Some t else None)\<rparr>"
  using assms committed_own [of "s\<lparr>lc_pending := Some t, lc_stack := lc_stack s @ [token_of (lc_value s)]\<rparr>"
      "(lc_value s)\<lparr>lv_pageToken := Some t\<rparr>" Push]
  by (simp add: nextPage_def settled_lc_def)

lemma committed_prev:
  assumes "settled_lc s"
  shows "committed (prevPage s) =
    s\<lparr>lc_value := (lc_value s)\<lparr>lv_pageToken := prev_target s\<rparr>, lc_stack := butlast (lc_stack s),
      lc_synced := or_default (prev_target s) [],
      lc_pending := (if or_default (prev_target s) [] = lc_synced s then Some (lc_synced s) else None)\<rparr>"
  using assms committed_own [of "s\<lparr>lc_pending := Some (or_default (prev_target s) []), lc_stack := butlast (lc_stack s)\<rparr>"
      "(lc_value s)\<lparr>lv_pageToken := prev_target s\<rparr>" Push]
  by (simp add: prevPage_def settled_lc_def)

lemma settled_next: "settled_lc s \<Longrightarrow> t \<noteq> [] \<Longrightarrow> settled_lc (committed (nextPage t s))"
  by (simp add: committed_next) (auto simp: settled_lc_def)

text \<open>What the pages show of a state: the committed value and the back-stack.\<close>

definition paging :: "lc \<Rightarrow> list_controls_value \<times> string list" where
  "paging s = (lc_value s, lc_stack s)"

lemma paging_next:
  "settled_lc s \<Longrightarrow> paging (committed (nextPage t s)) =
     ((lc_value s)\<lparr>lv_pageToken := Some t\<rparr>, lc_stack s @ [token_of (lc_value s)])"
  by (simp add: committed_next paging_def)

lemma paging_prev_eq:
  "settled_lc s \<Longrightarrow> paging (committed (prevPage s)) =
     ((lc_value s)\<lparr>lv_pageToken := prev_target s\<rparr>, butlast (lc_stack s))"
  by (simp add: committed_prev paging_def)

lemma settled_prev:
  assumes "settled_lc s"
  shows "settled_lc (committed (prevPage s))"
proof -
  have "prev_target s \<noteq> Some []" by (simp add: prev_target_def)
  then show ?thesis
    unfolding committed_prev [OF assms] by (simp add: settled_lc_def)
qed

lemma prev_next:
  assumes "settled_lc s" and "t \<noteq> []"
  shows "paging (committed (prevPage (committed (nextPage t s)))) = paging s"
proof -
  let ?n = "committed (nextPage t s)"
  have n: "lc_value ?n = (lc_value s)\<lparr>lv_pageToken := Some t\<rparr>" "lc_stack ?n = lc_stack s @ [token_of (lc_value s)]"
    using paging_next [OF assms(1), of t] by (simp_all add: paging_def)
  have "lv_pageToken (lc_value s) \<noteq> Some []" using assms(1) by (simp add: settled_lc_def)
  then have "prev_target ?n = lv_pageToken (lc_value s)"
    by (cases "lv_pageToken (lc_value s)") (simp_all add: prev_target_def n)
  then show ?thesis
    unfolding paging_prev_eq [OF settled_next [OF assms]] n by (simp add: paging_def)
qed

definition walk_forward :: "string list \<Rightarrow> lc \<Rightarrow> lc" where
  "walk_forward ts s = fold (\<lambda>t s. committed (nextPage t s)) ts s"

primrec walk_back :: "nat \<Rightarrow> lc \<Rightarrow> lc" where
  "walk_back 0 s = s"
| "walk_back (Suc n) s = walk_back n (committed (prevPage s))"

lemma settled_walk: "settled_lc s \<Longrightarrow> \<forall>t \<in> set ts. t \<noteq> [] \<Longrightarrow> settled_lc (walk_forward ts s)"
  by (induction ts arbitrary: s) (auto simp: walk_forward_def settled_next)

lemma paging_prev:
  assumes "settled_lc s" and "settled_lc s'" and "paging s = paging s'"
  shows "paging (committed (prevPage s)) = paging (committed (prevPage s'))"
proof -
  have "lc_value s = lc_value s'" "lc_stack s = lc_stack s'" using assms(3) by (simp_all add: paging_def)
  then show ?thesis
    unfolding paging_prev_eq [OF assms(1)] paging_prev_eq [OF assms(2)] by (simp add: prev_target_def)
qed

lemma paging_walk_back:
  assumes "settled_lc s" and "settled_lc s'" and "paging s = paging s'"
  shows "paging (walk_back n s) = paging (walk_back n s')"
  using assms
proof (induction n arbitrary: s s')
  case (Suc n)
  have "paging (walk_back n (committed (prevPage s))) = paging (walk_back n (committed (prevPage s')))"
    by (rule Suc.IH) (use Suc.prems settled_prev paging_prev in blast)+
  then show ?case by simp
qed simp

text \<open>
  Prev walks the pages back in order: from any settled state, after moving forward through
  the pages with the cursors \<open>ts\<close>, as many steps back restore the committed value (cursor,
  filters, sort, scope and size) and the back-stack exactly.
\<close>

theorem prev_walks_back:
  assumes "settled_lc s" and "\<forall>t \<in> set ts. t \<noteq> []"
  shows "paging (walk_back (length ts) (walk_forward ts s)) = paging s"
  using assms
proof (induction ts rule: rev_induct)
  case Nil
  then show ?case by (simp add: walk_forward_def)
next
  case (snoc t ts)
  let ?s = "walk_forward ts s"
  have ok: "settled_lc ?s" "t \<noteq> []" using snoc.prems settled_walk by auto
  have "walk_back (length (ts @ [t])) (walk_forward (ts @ [t]) s)
      = walk_back (length ts) (committed (prevPage (committed (nextPage t ?s))))"
    by (simp add: walk_forward_def)
  moreover have "paging (walk_back (length ts) (committed (prevPage (committed (nextPage t ?s)))))
      = paging (walk_back (length ts) ?s)"
    using prev_next [OF ok] ok settled_prev [OF settled_next [OF ok]] by (intro paging_walk_back) simp_all
  ultimately show ?case using snoc by simp
qed

definition sample_value :: list_controls_value where
  "sample_value = \<lparr>lv_filters = [], lv_sort = None, lv_pageSize = DEFAULT_PAGE_SIZE, lv_scope = [], lv_pageToken = Some ''z''\<rparr>"

theorem prev_walks_back_witness:
  "paging (walk_back (length [''a'', ''b'', ''b'']) (walk_forward [''a'', ''b'', ''b''] (lc_mount sample_value))) = (sample_value, [])"
proof -
  have "settled_lc (lc_mount sample_value)" by (simp add: settled_mount sample_value_def)
  then have "paging (walk_back (length [''a'', ''b'', ''b'']) (walk_forward [''a'', ''b'', ''b''] (lc_mount sample_value)))
      = paging (lc_mount sample_value)"
    by (rule prev_walks_back) simp
  then show ?thesis by (simp add: paging_def lc_mount_def)
qed

text \<open>
  Every change of filter, sort, scope or page size starts at the first page: the value the
  caller commits has no cursor, and after the commit the back-stack is empty, so Prev is off.
  A filter change sets exactly its field, clearing drops filters and scope and keeps the sort,
  and three toggles of one column return to the sort before, if it was on no column.
\<close>

theorem list_changes_restart_paging:
  assumes "settled_lc s" and "r \<in> {setFilter f x h s, clearFilters s, toggleSort f s, setPageSize n s, setScope x s}"
  shows "lv_pageToken (lc_value (committed r)) = None \<and> lc_stack (committed r) = [] \<and> \<not> hasPrevPage (committed r)
    \<and> settled_lc (committed r)
    \<and> map_of (lv_filters (fst (snd (setFilter f x h s)))) = (map_of (lv_filters (lc_value s)))(f \<mapsto> x)
    \<and> fst (snd (clearFilters s)) = (lc_value s)\<lparr>lv_filters := [], lv_scope := [], lv_pageToken := None\<rparr>
    \<and> cycleSort (cycleSort (cycleSort None f) f) f = None"
proof -
  obtain v hm where r: "r = (s\<lparr>lc_pending := Some [], lc_stack := []\<rparr>, (v, hm))" and v: "lv_pageToken v = None"
    using assms(2) by (auto simp: setFilter_def clearFilters_def toggleSort_def setPageSize_def setScope_def commit_def)
  have "committed r = s\<lparr>lc_pending := (if lc_synced s = [] then Some [] else None), lc_stack := [], lc_value := v, lc_synced := []\<rparr>"
    using assms(1) committed_own [of "s\<lparr>lc_pending := Some [], lc_stack := []\<rparr>" v hm] v
    by (simp add: r settled_lc_def)
  with v show ?thesis
    by (simp add: hasPrevPage_def settled_lc_def setFilter_def clearFilters_def commit_def cycleSort_def update_conv')
qed

theorem list_changes_restart_paging_witness:
  "lc_stack (committed (toggleSort ''name'' (committed (nextPage ''b'' (lc_mount sample_value))))) = []"
proof -
  have "settled_lc (committed (nextPage ''b'' (lc_mount sample_value)))"
    by (intro settled_next settled_mount) (simp_all add: sample_value_def)
  from list_changes_restart_paging [OF this, of "toggleSort ''name'' (committed (nextPage ''b'' (lc_mount sample_value)))" "''name''" "[]" Push 0]
  show ?thesis by simp
qed

text \<open>
  A cursor that changes without our setters (Back, Forward, a deep link): if the page is in
  the history, the stack is cut back to the pages before it, so that Prev goes on to the page
  before; otherwise the history is dropped and Prev leads to the first page.
\<close>

theorem external_navigation_trims:
  assumes "settled_lc s" and "token_of v \<noteq> token_of (lc_value s)"
  shows "lc_value (navigated v s) = v \<and> lc_synced (navigated v s) = token_of v \<and> lc_pending (navigated v s) = None
    \<and> lc_stack (navigated v s) = (if token_of v \<in> set (lc_stack s)
        then takeWhile (\<lambda>t. t \<noteq> token_of v) (lc_stack s) else [])
    \<and> (token_of v \<notin> set (lc_stack s) \<longrightarrow> prev_target (navigated v s) = None)"
  using assms by (auto simp: navigated_def render_def trim_stack_def settled_lc_def prev_target_def Let_def)

theorem external_navigation_trims_witness:
  "lc_stack (navigated (sample_value\<lparr>lv_pageToken := Some ''a''\<rparr>)
     (walk_forward [''a'', ''b''] (lc_mount sample_value))) = [''z'']"
proof -
  have s: "settled_lc (lc_mount sample_value)" by (simp add: settled_mount sample_value_def)
  then have w: "settled_lc (walk_forward [''a'', ''b''] (lc_mount sample_value))"
    by (rule settled_walk) simp
  have "walk_forward [''a'', ''b''] (lc_mount sample_value) = committed (nextPage ''b'' (committed (nextPage ''a'' (lc_mount sample_value))))"
    by (simp add: walk_forward_def)
  then have "lc_stack (walk_forward [''a'', ''b''] (lc_mount sample_value)) = [''z'', ''a'']"
    "token_of (lc_value (walk_forward [''a'', ''b''] (lc_mount sample_value))) = ''b''"
    using s settled_next [OF s, of "''a''"] by (simp_all add: committed_next) (simp_all add: lc_mount_def sample_value_def)
  then show ?thesis
    using external_navigation_trims [OF w, of "sample_value\<lparr>lv_pageToken := Some ''a''\<rparr>"] by simp
qed

section \<open>Slugs\<close>

text \<open>Lower-case letters and digits, with single hyphens between them but not in front.\<close>

definition slug_char :: "char \<Rightarrow> bool" where
  "slug_char c \<longleftrightarrow> lower_alnum c \<or> c = CHR ''-''"

definition slug_shape :: "string \<Rightarrow> bool" where
  "slug_shape s \<longleftrightarrow> list_all slug_char s \<and> (s \<noteq> [] \<longrightarrow> hd s \<noteq> CHR ''-'')
     \<and> successively (\<lambda>a b. \<not> (a = CHR ''-'' \<and> b = CHR ''-'')) s"

lemma slug_shape_append: "slug_shape (s @ t) \<Longrightarrow> slug_shape s"
  by (auto simp: slug_shape_def successively_append_iff hd_append split: if_splits)

lemma slug_shape_take: "slug_shape s \<Longrightarrow> slug_shape (take n s)"
  using slug_shape_append [of "take n s" "drop n s"] by simp

lemma slug_shape_snoc:
  "slug_shape (s @ [c]) \<longleftrightarrow> slug_shape s \<and> slug_char c \<and> (c = CHR ''-'' \<longrightarrow> s \<noteq> [] \<and> last s \<noteq> CHR ''-'')"
  by (auto simp: slug_shape_def successively_append_iff hd_append)

lemma slug_items_chars: "SlugChar c \<in> set (slug_items s) \<Longrightarrow> lower_alnum c"
proof (induction s rule: slug_items.induct)
  case (2 a s)
  have "slug_class a = SlugChar c \<Longrightarrow> lower_alnum c"
    by (auto simp: slug_class_def lower_alnum_def split: if_splits)
  with 2 show ?case
    by (auto simp: lower_alnum_def split: option.splits if_splits)
qed simp

lemma slug_loop_shape:
  assumes "\<And>c. SlugChar c \<in> set is \<Longrightarrow> lower_alnum c"
  shows "slug_shape out \<Longrightarrow> (lastHyphen \<longleftrightarrow> out \<noteq> [] \<and> last out = CHR ''-'') \<Longrightarrow> slug_shape (slug_loop is out lastHyphen)"
  using assms
proof (induction "is" out lastHyphen rule: slug_loop.induct)
  case (2 c "is" out lastHyphen)
  have c: "lower_alnum c" using "2.prems"(3) by simp
  then have "c \<noteq> CHR ''-''" by (auto simp: lower_alnum_def is_digit_def)
  then have "slug_shape (slug_loop is (out @ [c]) False)"
    using c "2.prems" by (intro "2.IH") (auto simp: slug_shape_snoc slug_char_def)
  then show ?case by simp
next
  case (3 "is" out lastHyphen)
  then show ?case by (auto simp: slug_shape_snoc slug_char_def)
qed auto

lemma drop_hyphens_snoc: "drop_hyphens (s @ [c]) = (if c = CHR ''-'' then drop_hyphens s else s @ [c])"
  by (subst drop_hyphens.simps) simp

lemma drop_hyphens_Nil [simp]: "drop_hyphens [] = []"
  by (subst drop_hyphens.simps) simp

lemma drop_hyphens_prefix: "\<exists>t. s = drop_hyphens s @ t"
proof (induction s rule: rev_induct)
  case (snoc c s)
  then obtain t where "s = drop_hyphens s @ t" ..
  then have e: "s @ [c] = drop_hyphens s @ (t @ [c])" by (metis append_assoc)
  show ?case
  proof (cases "c = CHR ''-''")
    case True
    then have "drop_hyphens (s @ [c]) = drop_hyphens s" by (simp add: drop_hyphens_snoc)
    with e show ?thesis by metis
  qed (simp add: drop_hyphens_snoc)
qed simp

lemma drop_hyphens_last: "drop_hyphens s \<noteq> [] \<Longrightarrow> last (drop_hyphens s) \<noteq> CHR ''-''"
  by (induction s rule: rev_induct) (auto simp: drop_hyphens_snoc split: if_splits)

lemma slug_loop_final: "slug_shape (slug_loop (slug_items name) [] False)"
  by (rule slug_loop_shape) (auto simp: slug_items_chars slug_shape_def)

lemma slug_shape_valid:
  assumes "slug_shape s" and "s \<noteq> []" and "last s \<noteq> CHR ''-''" and "\<not> is_digit (hd s)"
  shows "isValidIdentifier s"
proof -
  obtain c r where s: "s = c # r" using assms(2) by (cases s) auto
  then have "lower_alnum c" using assms(1) by (auto simp: slug_shape_def slug_char_def)
  moreover have "list_all (\<lambda>x. lower_alnum x \<or> x = CHR ''-'') r"
    using assms(1) s by (auto simp: slug_shape_def slug_char_def list_all_iff)
  moreover have "r = [] \<or> lower_alnum (last r)"
    using calculation(2) assms(3) s by (cases r rule: rev_cases) (auto simp: list_all_iff)
  ultimately show ?thesis
    using assms(4) s by (simp add: isValidIdentifier_def)
qed

lemma identifier_iff:
  assumes "slug_shape s"
  shows "isValidIdentifier s \<longleftrightarrow> s \<noteq> [] \<and> \<not> is_digit (hd s) \<and> last s \<noteq> CHR ''-''"
proof
  assume v: "isValidIdentifier s"
  then obtain c r where s: "s = c # r" by (cases s) (auto simp: isValidIdentifier_def)
  have "\<not> lower_alnum (CHR ''-'')" by (simp add: lower_alnum_def is_digit_def)
  moreover have "lower_alnum (last s)" using v s by (auto simp: isValidIdentifier_def)
  ultimately have "last s \<noteq> CHR ''-''" by metis
  then show "s \<noteq> [] \<and> \<not> is_digit (hd s) \<and> last s \<noteq> CHR ''-''" using v s by (simp add: isValidIdentifier_def)
qed (use slug_shape_valid [OF assms] in blast)

text \<open>Letters and digits are kept, and nothing is put before the first of them.\<close>

lemma slug_loop_keeps: "set out \<union> {c. SlugChar c \<in> set is} \<subseteq> set (slug_loop is out h)"
  by (induction "is" out h rule: slug_loop.induct) auto

lemma slug_loop_empty: "\<forall>c. SlugChar c \<notin> set is \<Longrightarrow> slug_loop is [] h = []"
proof (induction "is" arbitrary: h)
  case (Cons x xs)
  then show ?case by (cases x) auto
qed simp

lemma drop_hyphens_empty: "drop_hyphens s = [] \<Longrightarrow> set s \<subseteq> {CHR ''-''}"
  by (induction s rule: rev_induct) (auto simp: drop_hyphens_snoc split: if_splits)

lemma slugify_empty: "slugify name = [] \<longleftrightarrow> (\<forall>c. SlugChar c \<notin> set (slug_items name))"
proof
  assume "slugify name = []"
  then have "set (slug_loop (slug_items name) [] False) \<subseteq> {CHR ''-''}" by (intro drop_hyphens_empty) (simp add: slugify_def)
  moreover have "c \<noteq> CHR ''-''" if "SlugChar c \<in> set (slug_items name)" for c
    using slug_items_chars [OF that] by (auto simp: lower_alnum_def is_digit_def)
  ultimately show "\<forall>c. SlugChar c \<notin> set (slug_items name)" using slug_loop_keeps [of "[]" "slug_items name" False] by blast
qed (simp add: slugify_def slug_loop_empty)

text \<open>
  C40. An identifier derived from a display name consists of at most 63 lower-case letters,
  digits and single hyphens and does not begin with a hyphen. It is empty exactly for a name without
  a letter from a to z, in either case, or a digit. The form's own check accepts it exactly if it is not empty, does not begin with a
  digit and does not end in a hyphen, and only one that was cut can end in a hyphen
  (\<open>slugify_cut_leaves_hyphen\<close>).
\<close>

theorem slugify_identifiers:
  "length (slugify name) \<le> 63 \<and> slug_shape (slugify name)
   \<and> (slugify name = [] \<longleftrightarrow> (\<forall>c. SlugChar c \<notin> set (slug_items name)))
   \<and> (isValidIdentifier (slugify name)
       \<longleftrightarrow> slugify name \<noteq> [] \<and> \<not> is_digit (hd (slugify name)) \<and> last (slugify name) \<noteq> CHR ''-'')
   \<and> (if slugify name \<noteq> [] \<and> last (slugify name) = CHR ''-''
      then 63 < length (drop_hyphens (slug_loop (slug_items name) [] False)) else True)"
proof -
  let ?d = "drop_hyphens (slug_loop (slug_items name) [] False)"
  have "slug_shape ?d"
    using drop_hyphens_prefix slug_loop_final slug_shape_append by metis
  then have shape: "slug_shape (slugify name)" using slug_shape_take [of ?d 63] by (simp add: slugify_def)
  have "63 < length ?d" if "slugify name \<noteq> []" "last (slugify name) = CHR ''-''"
  proof (rule ccontr)
    assume "\<not> 63 < length ?d"
    then have "slugify name = ?d" by (simp add: slugify_def)
    with that drop_hyphens_last show False by metis
  qed
  then show ?thesis
    using shape slugify_empty identifier_iff [OF shape] by (simp add: slugify_def)
qed

text \<open>
  The cut at 63 characters comes after the hyphens at the end are removed, so that it can leave
  one: a name of 62 letters, a space and another letter gives an identifier that the form's own
  check refuses.
\<close>

theorem slugify_cut_leaves_hyphen:
  "slugify (replicate 62 (CHR ''a'') @ '' b'') = replicate 62 (CHR ''a'') @ ''-''
   \<and> \<not> isValidIdentifier (slugify (replicate 62 (CHR ''a'') @ '' b''))"
proof -
  have not_utf8: "CHR ''a'' \<noteq> char_of (226 :: nat)" "CHR ''a'' \<noteq> char_of (196 :: nat)"
    "CHR ''b'' \<noteq> char_of (226 :: nat)" "CHR ''b'' \<noteq> char_of (196 :: nat)"
    by (rule char_of_neqI, simp)+
  have letter: "slug_items (CHR ''a'' # s) = SlugChar (CHR ''a'') # slug_items s" for s
    by (simp add: ws_prefix_visible slug_class_def lower_alnum_def not_utf8)
  have items: "slug_items (replicate n (CHR ''a'') @ s) = replicate n (SlugChar (CHR ''a'')) @ slug_items s" for n s
    by (induction n) (simp_all only: replicate.simps append.simps letter)
  have loop: "slug_loop (replicate n (SlugChar c) @ is) out False = slug_loop is (out @ replicate n c) False" for n c "is" out
    by (induction n arbitrary: out) simp_all
  let ?a = "replicate 62 (CHR ''a'')"
  have tail: "slug_items '' b'' = [SlugSep, SlugChar (CHR ''b'')]"
    by (simp add: ws_prefix_space ws_prefix_visible slug_class_def lower_alnum_def not_utf8)
  have "slug_loop (slug_items (?a @ '' b'')) [] False = ?a @ ''-b''"
    unfolding items loop tail by simp
  then have "slugify (?a @ '' b'') = take 63 (?a @ ''-b'')"
    unfolding slugify_def by (subst drop_hyphens.simps) simp
  then have slug: "slugify (?a @ '' b'') = ?a @ ''-''"
    by (simp only: take_append length_replicate) simp
  have "last (?a @ ''-'') = CHR ''-''" "\<not> lower_alnum (CHR ''-'')"
    by (simp_all add: lower_alnum_def is_digit_def)
  moreover have "isValidIdentifier s \<Longrightarrow> lower_alnum (last s)" for s
    by (cases s) (auto simp: isValidIdentifier_def)
  ultimately have "\<not> isValidIdentifier (?a @ ''-'')"
    by metis
  then show ?thesis unfolding slug by simp
qed

end
