(* ===== verification/Js_Number.thy ===== *)
theory Js_Number
  imports Complex_Main
begin

text \<open>
  The numbers of the image editor. A JavaScript number is a real, one of the two infinities or
  NaN; the operations below are those of the language with exact instead of rounded results
  (there is no overflow, and zero has no sign: a division by zero is one by positive zero).
  What the editor computes before an image is loaded, where it divides by a width of zero, is
  covered by the infinities and NaN.
\<close>

datatype jsnum = N real | PosInf | NegInf | NaN

fun sign_num :: "jsnum \<Rightarrow> real" where
  "sign_num (N a) = sgn a"
| "sign_num PosInf = 1"
| "sign_num NegInf = -1"
| "sign_num NaN = 0"

definition infinite_num :: "real \<Rightarrow> jsnum" where
  "infinite_num s = (if s > 0 then PosInf else if s < 0 then NegInf else NaN)"

fun div_num :: "jsnum \<Rightarrow> jsnum \<Rightarrow> jsnum" where
  "div_num (N a) (N b) = (if b = 0 then infinite_num (sgn a) else N (a / b))"
| "div_num (N a) NaN = NaN"
| "div_num (N a) PosInf = N 0"
| "div_num (N a) NegInf = N 0"
| "div_num x (N b) = infinite_num (sign_num x * (if b < 0 then -1 else 1))"
| "div_num x y = NaN"

instantiation jsnum :: "{zero, one, plus, minus, uminus, times, inverse, ord}"
begin

definition zero_jsnum :: jsnum where "0 = N 0"

definition one_jsnum :: jsnum where "1 = N 1"

fun uminus_jsnum :: "jsnum \<Rightarrow> jsnum" where
  "- N a = N (- a)"
| "- PosInf = NegInf"
| "- NegInf = PosInf"
| "- NaN = NaN"

fun plus_jsnum :: "jsnum \<Rightarrow> jsnum \<Rightarrow> jsnum" where
  "N a + N b = N (a + b)"
| "PosInf + y = (if y = NaN \<or> y = NegInf then NaN else PosInf)"
| "NegInf + y = (if y = NaN \<or> y = PosInf then NaN else NegInf)"
| "NaN + y = NaN"
| "N a + y = y"

definition minus_jsnum :: "jsnum \<Rightarrow> jsnum \<Rightarrow> jsnum" where
  "x - y = x + (- y)" for x y :: jsnum

fun times_jsnum :: "jsnum \<Rightarrow> jsnum \<Rightarrow> jsnum" where
  "N a * N b = N (a * b)"
| "x * y = infinite_num (sign_num x * sign_num y)"

definition divide_jsnum :: "jsnum \<Rightarrow> jsnum \<Rightarrow> jsnum" where
  "divide_jsnum = div_num"

definition inverse_jsnum :: "jsnum \<Rightarrow> jsnum" where
  "inverse x = div_num (N 1) x" for x :: jsnum

fun less_eq_jsnum :: "jsnum \<Rightarrow> jsnum \<Rightarrow> bool" where
  "N a \<le> N b \<longleftrightarrow> a \<le> b"
| "NaN \<le> y \<longleftrightarrow> False"
| "x \<le> NaN \<longleftrightarrow> False"
| "NegInf \<le> y \<longleftrightarrow> True"
| "x \<le> PosInf \<longleftrightarrow> True"
| "x \<le> (y :: jsnum) \<longleftrightarrow> False"

definition less_jsnum :: "jsnum \<Rightarrow> jsnum \<Rightarrow> bool" where
  "x < y \<longleftrightarrow> x \<le> y \<and> x \<noteq> y" for x y :: jsnum

instance ..

end

text \<open>\<open>x !== y\<close>, and the functions of \<open>Math\<close>.\<close>

definition num_neq :: "jsnum \<Rightarrow> jsnum \<Rightarrow> bool" where
  "num_neq x y \<longleftrightarrow> x = NaN \<or> x \<noteq> y"

definition math_max :: "jsnum \<Rightarrow> jsnum \<Rightarrow> jsnum" where
  "math_max x y = (if x = NaN \<or> y = NaN then NaN else if x \<le> y then y else x)"

definition math_min :: "jsnum \<Rightarrow> jsnum \<Rightarrow> jsnum" where
  "math_min x y = (if x = NaN \<or> y = NaN then NaN else if x \<le> y then x else y)"

fun math_abs :: "jsnum \<Rightarrow> jsnum" where
  "math_abs (N a) = N \<bar>a\<bar>"
| "math_abs NaN = NaN"
| "math_abs x = PosInf"

fun math_cos :: "jsnum \<Rightarrow> jsnum" where
  "math_cos (N a) = N (cos a)"
| "math_cos x = NaN"

fun math_sin :: "jsnum \<Rightarrow> jsnum" where
  "math_sin (N a) = N (sin a)"
| "math_sin x = NaN"

text \<open>\<open>Math.round\<close> rounds halves up.\<close>

fun math_round :: "jsnum \<Rightarrow> jsnum" where
  "math_round (N a) = N (of_int \<lfloor>a + 1 / 2\<rfloor>)"
| "math_round x = x"

text \<open>\<open>x % m\<close> on integers: the sign of the result is that of the dividend.\<close>

definition js_rem :: "int \<Rightarrow> int \<Rightarrow> int" where
  "js_rem a m = sgn a * (\<bar>a\<bar> mod \<bar>m\<bar>)"

text \<open>\<open>x || d\<close> on numbers.\<close>

definition num_or :: "jsnum \<Rightarrow> jsnum \<Rightarrow> jsnum" where
  "num_or x d = (if x = NaN \<or> x = N 0 then d else x)"

section \<open>Finite numbers\<close>

lemma N_divide [simp]: "b \<noteq> 0 \<Longrightarrow> N a / N b = N (a / b)"
  by (simp add: divide_jsnum_def)

lemma N_minus [simp]: "N a - N b = N (a - b)"
  by (simp add: minus_jsnum_def)

lemma N_less [simp]: "N a < N b \<longleftrightarrow> a < b"
  by (auto simp: less_jsnum_def)

lemma num_neq_N [simp]: "num_neq (N a) (N b) \<longleftrightarrow> a \<noteq> b"
  by (simp add: num_neq_def)

lemma math_max_N [simp]: "math_max (N a) (N b) = N (max a b)"
  by (simp add: math_max_def max_def)

lemma math_min_N [simp]: "math_min (N a) (N b) = N (min a b)"
  by (simp add: math_min_def min_def)

lemma math_min_Inf [simp]: "math_min (N a) PosInf = N a" "math_min PosInf (N a) = N a"
  by (simp_all add: math_min_def)

lemma math_max_Inf [simp]: "math_max (N a) PosInf = PosInf" "math_max PosInf (N a) = PosInf"
  by (simp_all add: math_max_def)

end
