(* ===== verification/Crop_Math.thy ===== *)
theory Crop_Math
  imports Js_Number
begin

text \<open>
  The geometry of the image editor (\<^verbatim>\<open>packages/image-editor/src\<close>: \<^verbatim>\<open>types.ts\<close>,
  \<^verbatim>\<open>constants.ts\<close>, \<^verbatim>\<open>crop-math.ts\<close>, \<^verbatim>\<open>transforms.ts\<close>). The crop rectangle is a fixed window,
  centred at the origin; the image behind it is scaled, rotated and translated. The lemmas
  relate the formulas to what is seen: a point of the window shows a pixel of the image when
  the inverse transformation takes it into the image.
\<close>

section \<open>Types and constants\<close>

record crop_rect =
  cr_x :: jsnum
  cr_y :: jsnum
  cr_width :: jsnum
  cr_height :: jsnum

datatype resize_mode = Resize_crop | Resize_cover | Resize_fit

text \<open>Templates are compared by object identity, the field \<open>ct_ref\<close>.\<close>

record crop_template =
  ct_ref :: nat
  ct_label :: string
  ct_ratio :: "jsnum option"

datatype drag_handle = H_nw | H_n | H_ne | H_w | H_e | H_sw | H_s | H_se | H_move

datatype zoom_mode = Zoom_fit | Zoom_manual

datatype editor_mode = Mode_view | Mode_crop

definition FREE_TEMPLATE :: crop_template where
  "FREE_TEMPLATE = \<lparr>ct_ref = 0, ct_label = ''Free'', ct_ratio = None\<rparr>"

definition MIN_CROP_SIZE :: jsnum where "MIN_CROP_SIZE = N 10"

definition ZOOM_STEP :: jsnum where "ZOOM_STEP = N 25"

definition ZOOM_MIN :: jsnum where "ZOOM_MIN = N 10"

definition ZOOM_MAX :: jsnum where "ZOOM_MAX = N 800"

definition MAX_HISTORY :: nat where "MAX_HISTORY = 50"

definition DEFAULT_CROP_TEMPLATES :: "crop_template list" where
  "DEFAULT_CROP_TEMPLATES =
    [\<lparr>ct_ref = 1, ct_label = ''16:9'', ct_ratio = Some (N 16 / N 9)\<rparr>,
     \<lparr>ct_ref = 2, ct_label = ''4:3'', ct_ratio = Some (N 4 / N 3)\<rparr>,
     \<lparr>ct_ref = 3, ct_label = ''1:1'', ct_ratio = Some (N 1)\<rparr>,
     \<lparr>ct_ref = 4, ct_label = ''9:16'', ct_ratio = Some (N 9 / N 16)\<rparr>,
     \<lparr>ct_ref = 5, ct_label = ''3:4'', ct_ratio = Some (N 3 / N 4)\<rparr>,
     \<lparr>ct_ref = 6, ct_label = ''21:9'', ct_ratio = Some (N 21 / N 9)\<rparr>,
     \<lparr>ct_ref = 7, ct_label = ''2.39:1'', ct_ratio = Some (N (239 / 100))\<rparr>,
     \<lparr>ct_ref = 8, ct_label = ''1.85:1'', ct_ratio = Some (N (185 / 100))\<rparr>,
     \<lparr>ct_ref = 9, ct_label = ''2:1'', ct_ratio = Some (N 2)\<rparr>]"

fun handleToCursor :: "drag_handle option \<Rightarrow> string" where
  "handleToCursor (Some H_nw) = ''nwse-resize''"
| "handleToCursor (Some H_se) = ''nwse-resize''"
| "handleToCursor (Some H_ne) = ''nesw-resize''"
| "handleToCursor (Some H_sw) = ''nesw-resize''"
| "handleToCursor (Some H_n) = ''ns-resize''"
| "handleToCursor (Some H_s) = ''ns-resize''"
| "handleToCursor (Some H_e) = ''ew-resize''"
| "handleToCursor (Some H_w) = ''ew-resize''"
| "handleToCursor (Some H_move) = ''all-scroll''"
| "handleToCursor None = ''default''"

section \<open>The formulas\<close>

definition computeMinScale :: "jsnum \<Rightarrow> jsnum \<Rightarrow> jsnum \<Rightarrow> jsnum \<Rightarrow> jsnum \<Rightarrow> jsnum" where
  "computeMinScale cropW cropH imgW imgH angleRad =
     (let absCos = math_abs (math_cos angleRad);
          absSin = math_abs (math_sin angleRad);
          requiredW = cropW * absCos + cropH * absSin;
          requiredH = cropW * absSin + cropH * absCos
      in math_max (requiredW / imgW) (requiredH / imgH))"

definition computeTranslationBounds ::
  "jsnum \<Rightarrow> jsnum \<Rightarrow> jsnum \<Rightarrow> jsnum \<Rightarrow> jsnum \<Rightarrow> jsnum \<Rightarrow> jsnum \<times> jsnum" where
  "computeTranslationBounds cropW cropH imgW imgH scale angleRad =
     (let absCos = math_abs (math_cos angleRad);
          absSin = math_abs (math_sin angleRad);
          hIW = (imgW * scale) / N 2;
          hIH = (imgH * scale) / N 2;
          hCW = cropW / N 2;
          hCH = cropH / N 2;
          eps = N (1 / 10 ^ 10);
          txLimit1 = (if eps < absCos then (hIW - (hCW * absCos + hCH * absSin)) / absCos else PosInf);
          txLimit2 = (if eps < absSin then (hIH - (hCW * absSin + hCH * absCos)) / absSin else PosInf);
          maxTx = math_max (N 0) (math_min txLimit1 txLimit2);
          tyLimit1 = (if eps < absSin then (hIW - (hCW * absCos + hCH * absSin)) / absSin else PosInf);
          tyLimit2 = (if eps < absCos then (hIH - (hCW * absSin + hCH * absCos)) / absCos else PosInf);
          maxTy = math_max (N 0) (math_min tyLimit1 tyLimit2)
      in (maxTx, maxTy))"

definition clampTranslation :: "jsnum \<Rightarrow> jsnum \<Rightarrow> jsnum \<Rightarrow> jsnum \<Rightarrow> jsnum \<times> jsnum" where
  "clampTranslation tx ty maxTx maxTy =
     (math_max (- maxTx) (math_min tx maxTx), math_max (- maxTy) (math_min ty maxTy))"

definition stateToImageCropRect ::
  "jsnum \<Rightarrow> jsnum \<Rightarrow> jsnum \<Rightarrow> jsnum \<Rightarrow> jsnum \<Rightarrow> jsnum \<Rightarrow> jsnum \<Rightarrow> jsnum \<Rightarrow> crop_rect" where
  "stateToImageCropRect cropW cropH imgW imgH tx ty scale angleRad =
     (let cosA = math_cos (- angleRad);
          sinA = math_sin (- angleRad);
          imgOffsetX = (- tx / scale) * cosA - (- ty / scale) * sinA;
          imgOffsetY = (- tx / scale) * sinA + (- ty / scale) * cosA;
          cropCenterX = imgW / N 2 + imgOffsetX;
          cropCenterY = imgH / N 2 + imgOffsetY;
          unscaledCropW = cropW / scale;
          unscaledCropH = cropH / scale
      in \<lparr>cr_x = math_round (cropCenterX - unscaledCropW / N 2),
          cr_y = math_round (cropCenterY - unscaledCropH / N 2),
          cr_width = math_round unscaledCropW,
          cr_height = math_round unscaledCropH\<rparr>)"

definition applyCropTemplate :: "jsnum option \<Rightarrow> jsnum \<Rightarrow> jsnum \<Rightarrow> jsnum \<Rightarrow> jsnum \<Rightarrow> jsnum \<times> jsnum" where
  "applyCropTemplate ratio currentCropW currentCropH imgW imgH =
     (case ratio of
        None \<Rightarrow> (currentCropW, currentCropH)
      | Some r \<Rightarrow> if r < imgW / imgH then (imgH * r, imgH) else (imgW, imgW / r))"

text \<open>The switch of \<open>resizeCropFromHandle\<close>: what a handle adds to the width and the height.\<close>

fun handle_resize :: "drag_handle \<Rightarrow> jsnum \<Rightarrow> jsnum \<Rightarrow> jsnum \<Rightarrow> jsnum \<Rightarrow> jsnum \<times> jsnum" where
  "handle_resize H_nw dx dy w h = (w - dx * N 2, h - dy * N 2)"
| "handle_resize H_n dx dy w h = (w, h - dy * N 2)"
| "handle_resize H_ne dx dy w h = (w + dx * N 2, h - dy * N 2)"
| "handle_resize H_w dx dy w h = (w - dx * N 2, h)"
| "handle_resize H_e dx dy w h = (w + dx * N 2, h)"
| "handle_resize H_sw dx dy w h = (w - dx * N 2, h + dy * N 2)"
| "handle_resize H_s dx dy w h = (w, h + dy * N 2)"
| "handle_resize H_se dx dy w h = (w + dx * N 2, h + dy * N 2)"
| "handle_resize H_move dx dy w h = (w, h)"

definition resizeCropFromHandle ::
  "drag_handle \<Rightarrow> jsnum \<Rightarrow> jsnum \<Rightarrow> jsnum \<Rightarrow> jsnum \<Rightarrow> jsnum option \<Rightarrow> jsnum \<times> jsnum" where
  "resizeCropFromHandle handle deltaX deltaY currentCropW currentCropH aspectRatio =
     (if handle = H_move then (currentCropW, currentCropH)
      else
        (let (w, h) = handle_resize handle deltaX deltaY currentCropW currentCropH;
             w = math_max w MIN_CROP_SIZE;
             h = math_max h MIN_CROP_SIZE
         in case aspectRatio of
              None \<Rightarrow> (w, h)
            | Some r \<Rightarrow> if handle \<in> {H_w, H_e} then (w, w / r) else (h * r, h)))"

definition isCropSizeValid :: "jsnum \<Rightarrow> jsnum \<Rightarrow> jsnum \<Rightarrow> jsnum \<Rightarrow> jsnum \<Rightarrow> jsnum \<Rightarrow> bool" where
  "isCropSizeValid newCropW newCropH imgW imgH scale angleRad =
     (let absCos = math_abs (math_cos angleRad);
          absSin = math_abs (math_sin angleRad);
          maxW = imgW * scale * absCos + imgH * scale * absSin;
          maxH = imgW * scale * absSin + imgH * scale * absCos
      in newCropW \<le> maxW \<and> newCropH \<le> maxH)"

section \<open>The formulas on finite numbers\<close>

text \<open>The half extents that a window of the given half size needs along the axes of the image.\<close>

definition need_w :: "real \<Rightarrow> real \<Rightarrow> real \<Rightarrow> real" where
  "need_w cw ch a = cw * \<bar>cos a\<bar> + ch * \<bar>sin a\<bar>"

definition need_h :: "real \<Rightarrow> real \<Rightarrow> real \<Rightarrow> real" where
  "need_h cw ch a = cw * \<bar>sin a\<bar> + ch * \<bar>cos a\<bar>"

lemma computeMinScale_N:
  assumes "iw \<noteq> 0" and "ih \<noteq> 0"
  shows "computeMinScale (N cw) (N ch) (N iw) (N ih) (N a) = N (max (need_w cw ch a / iw) (need_h cw ch a / ih))"
  using assms by (simp add: computeMinScale_def need_w_def need_h_def Let_def)

lemma minScale_le:
  assumes "iw > 0" and "ih > 0"
  shows "computeMinScale (N cw) (N ch) (N iw) (N ih) (N a) \<le> N s
    \<longleftrightarrow> need_w cw ch a \<le> iw * s \<and> need_h cw ch a \<le> ih * s"
  using assms by (simp add: computeMinScale_N divide_le_eq mult.commute)

text \<open>Where the sine or the cosine is so small that the code ignores it, it is zero.\<close>

definition clear_angle :: "real \<Rightarrow> bool" where
  "clear_angle a \<longleftrightarrow> (cos a = 0 \<or> 1 / 10 ^ 10 < \<bar>cos a\<bar>) \<and> (sin a = 0 \<or> 1 / 10 ^ 10 < \<bar>sin a\<bar>)"

text \<open>A point of the window shows a pixel of the image; every point of the window does.\<close>

definition shows_pixel :: "real \<Rightarrow> real \<Rightarrow> real \<Rightarrow> real \<Rightarrow> real \<Rightarrow> real \<Rightarrow> real \<Rightarrow> real \<Rightarrow> bool" where
  "shows_pixel iw ih s tx ty a px py \<longleftrightarrow>
     \<bar>(px - tx) * cos a + (py - ty) * sin a\<bar> \<le> iw * s / 2 \<and> \<bar>(py - ty) * cos a - (px - tx) * sin a\<bar> \<le> ih * s / 2"

definition filled :: "real \<Rightarrow> real \<Rightarrow> real \<Rightarrow> real \<Rightarrow> real \<Rightarrow> real \<Rightarrow> real \<Rightarrow> real \<Rightarrow> bool" where
  "filled cw ch iw ih s tx ty a \<longleftrightarrow>
     (\<forall>px py. \<bar>px\<bar> \<le> cw / 2 \<longrightarrow> \<bar>py\<bar> \<le> ch / 2 \<longrightarrow> shows_pixel iw ih s tx ty a px py)"

lemma box_bound:
  fixes A B c d k R :: real
  assumes "0 \<le> A" and "0 \<le> B"
  shows "(\<forall>x y. \<bar>x\<bar> \<le> A \<longrightarrow> \<bar>y\<bar> \<le> B \<longrightarrow> \<bar>x * c + y * d - k\<bar> \<le> R) \<longleftrightarrow> \<bar>k\<bar> + A * \<bar>c\<bar> + B * \<bar>d\<bar> \<le> R"
proof
  assume all: "\<forall>x y. \<bar>x\<bar> \<le> A \<longrightarrow> \<bar>y\<bar> \<le> B \<longrightarrow> \<bar>x * c + y * d - k\<bar> \<le> R"
  define u where "u = (if k \<ge> 0 then - 1 else 1 :: real)"
  have "\<bar>u * (A * sgn c)\<bar> \<le> A" "\<bar>u * (B * sgn d)\<bar> \<le> B"
    using assms by (auto simp: u_def abs_mult sgn_if)
  with all have "\<bar>u * (A * sgn c) * c + u * (B * sgn d) * d - k\<bar> \<le> R" by blast
  moreover have "u * (A * sgn c) * c + u * (B * sgn d) * d - k = u * (\<bar>k\<bar> + A * \<bar>c\<bar> + B * \<bar>d\<bar>)"
    by (auto simp: u_def sgn_if algebra_simps)
  ultimately show "\<bar>k\<bar> + A * \<bar>c\<bar> + B * \<bar>d\<bar> \<le> R"
    using assms by (auto simp: u_def abs_mult split: if_splits)
next
  assume le: "\<bar>k\<bar> + A * \<bar>c\<bar> + B * \<bar>d\<bar> \<le> R"
  show "\<forall>x y. \<bar>x\<bar> \<le> A \<longrightarrow> \<bar>y\<bar> \<le> B \<longrightarrow> \<bar>x * c + y * d - k\<bar> \<le> R"
  proof (intro allI impI)
    fix x y assume "\<bar>x\<bar> \<le> A" "\<bar>y\<bar> \<le> B"
    then have "\<bar>x\<bar> * \<bar>c\<bar> \<le> A * \<bar>c\<bar>" "\<bar>y\<bar> * \<bar>d\<bar> \<le> B * \<bar>d\<bar>"
      by (simp_all add: mult_right_mono)
    moreover have "\<bar>x * c + y * d - k\<bar> \<le> \<bar>x\<bar> * \<bar>c\<bar> + \<bar>y\<bar> * \<bar>d\<bar> + \<bar>k\<bar>"
      unfolding abs_mult [symmetric] by linarith
    ultimately show "\<bar>x * c + y * d - k\<bar> \<le> R" using le by linarith
  qed
qed

lemma filled_iff:
  assumes "0 \<le> cw" and "0 \<le> ch"
  shows "filled cw ch iw ih s tx ty a \<longleftrightarrow>
    \<bar>tx * cos a + ty * sin a\<bar> + need_w cw ch a / 2 \<le> iw * s / 2
    \<and> \<bar>ty * cos a - tx * sin a\<bar> + need_h cw ch a / 2 \<le> ih * s / 2"
proof -
  have w: "(px - tx) * cos a + (py - ty) * sin a = px * cos a + py * sin a - (tx * cos a + ty * sin a)" for px py
    by (simp add: algebra_simps)
  have h: "(py - ty) * cos a - (px - tx) * sin a = px * (- sin a) + py * cos a - (ty * cos a - tx * sin a)" for px py
    by (simp add: algebra_simps)
  have pos: "0 \<le> cw / 2" "0 \<le> ch / 2" using assms by simp_all
  have "filled cw ch iw ih s tx ty a \<longleftrightarrow>
      (\<forall>px py. \<bar>px\<bar> \<le> cw / 2 \<longrightarrow> \<bar>py\<bar> \<le> ch / 2 \<longrightarrow>
        \<bar>px * cos a + py * sin a - (tx * cos a + ty * sin a)\<bar> \<le> iw * s / 2)
      \<and> (\<forall>px py. \<bar>px\<bar> \<le> cw / 2 \<longrightarrow> \<bar>py\<bar> \<le> ch / 2 \<longrightarrow>
        \<bar>px * (- sin a) + py * cos a - (ty * cos a - tx * sin a)\<bar> \<le> ih * s / 2)"
    unfolding filled_def shows_pixel_def w h by blast
  then show ?thesis
    unfolding box_bound [OF pos] by (simp add: need_w_def need_h_def add_divide_distrib add.assoc)
qed

text \<open>The room that is left for a translation, along each axis of the image.\<close>

definition room_w :: "real \<Rightarrow> real \<Rightarrow> real \<Rightarrow> real \<Rightarrow> real \<Rightarrow> real" where
  "room_w cw ch iw s a = iw * s / 2 - need_w cw ch a / 2"

definition room_h :: "real \<Rightarrow> real \<Rightarrow> real \<Rightarrow> real \<Rightarrow> real \<Rightarrow> real" where
  "room_h cw ch ih s a = ih * s / 2 - need_h cw ch a / 2"

text \<open>The limit along one axis of the screen: the larger of zero and what both axes of the image allow.\<close>

definition limit :: "real \<Rightarrow> real \<Rightarrow> real \<Rightarrow> real \<Rightarrow> real" where
  "limit r1 c r2 d = max 0 (if c = 0 then r2 / d else if d = 0 then r1 / c else min (r1 / c) (r2 / d))"

lemma bound_eq_limit:
  assumes "c \<noteq> 0 \<or> d \<noteq> 0" and "c = 0 \<or> e < c" and "d = 0 \<or> e < d" and "0 < e"
  shows "math_max (N 0) (math_min (if N e < N c then N r1 / N c else PosInf) (if N e < N d then N r2 / N d else PosInf))
    = N (limit r1 c r2 d)"
  using assms by (auto simp: limit_def)

lemma limit_iff:
  assumes "0 \<le> r1" "0 \<le> r2" "0 \<le> c" "0 \<le> d" "c \<noteq> 0 \<or> d \<noteq> 0" "0 \<le> t"
  shows "t \<le> limit r1 c r2 d \<longleftrightarrow> t * c \<le> r1 \<and> t * d \<le> r2"
proof -
  have "t \<le> 0 \<longleftrightarrow> t = 0" using assms by simp
  then show ?thesis
    using assms by (auto simp: limit_def le_max_iff_disj le_divide_eq)
qed

lemma sin_cos_nonzero: "\<bar>cos a\<bar> \<noteq> 0 \<or> \<bar>sin a\<bar> \<noteq> (0 :: real)"
  using sin_zero_abs_cos_one [of a] by auto

lemma computeTranslationBounds_rooms:
  "computeTranslationBounds (N cw) (N ch) (N iw) (N ih) (N s) (N a) =
    (math_max (N 0) (math_min (if N (1 / 10 ^ 10) < N \<bar>cos a\<bar> then N (room_w cw ch iw s a) / N \<bar>cos a\<bar> else PosInf)
       (if N (1 / 10 ^ 10) < N \<bar>sin a\<bar> then N (room_h cw ch ih s a) / N \<bar>sin a\<bar> else PosInf)),
     math_max (N 0) (math_min (if N (1 / 10 ^ 10) < N \<bar>sin a\<bar> then N (room_w cw ch iw s a) / N \<bar>sin a\<bar> else PosInf)
       (if N (1 / 10 ^ 10) < N \<bar>cos a\<bar> then N (room_h cw ch ih s a) / N \<bar>cos a\<bar> else PosInf)))"
proof -
  let ?c = "\<bar>cos a\<bar>" and ?d = "\<bar>sin a\<bar>"
  have rooms: "N iw * N s / N 2 - (N cw / N 2 * N ?c + N ch / N 2 * N ?d) = N (room_w cw ch iw s a)"
    "N ih * N s / N 2 - (N cw / N 2 * N ?d + N ch / N 2 * N ?c) = N (room_h cw ch ih s a)"
    by (simp_all add: room_w_def room_h_def need_w_def need_h_def add_divide_distrib)
  show ?thesis
    unfolding computeTranslationBounds_def Let_def math_cos.simps math_sin.simps math_abs.simps rooms ..
qed

lemma computeTranslationBounds_N:
  assumes "clear_angle a"
  shows "computeTranslationBounds (N cw) (N ch) (N iw) (N ih) (N s) (N a) =
    (N (limit (room_w cw ch iw s a) \<bar>cos a\<bar> (room_h cw ch ih s a) \<bar>sin a\<bar>),
     N (limit (room_w cw ch iw s a) \<bar>sin a\<bar> (room_h cw ch ih s a) \<bar>cos a\<bar>))"
proof -
  let ?c = "\<bar>cos a\<bar>" and ?d = "\<bar>sin a\<bar>"
  have c: "?c = 0 \<or> 1 / 10 ^ 10 < ?c" and d: "?d = 0 \<or> 1 / 10 ^ 10 < ?d"
    using assms by (auto simp: clear_angle_def)
  have nz: "?c \<noteq> 0 \<or> ?d \<noteq> 0" "?d \<noteq> 0 \<or> ?c \<noteq> 0" using sin_cos_nonzero [of a] by blast+
  have e: "(0 :: real) < 1 / 10 ^ 10" by simp
  show ?thesis
    unfolding computeTranslationBounds_rooms
    by (simp only: bound_eq_limit [OF nz(1) c d e] bound_eq_limit [OF nz(2) d c e])
qed

section \<open>Scale and translation bounds are exact\<close>

lemma minScale_room:
  assumes "iw > 0" and "ih > 0"
  shows "computeMinScale (N cw) (N ch) (N iw) (N ih) (N a) \<le> N s
    \<longleftrightarrow> 0 \<le> room_w cw ch iw s a \<and> 0 \<le> room_h cw ch ih s a"
  unfolding minScale_le [OF assms] by (auto simp: room_w_def room_h_def)

lemma filled_room:
  assumes "0 \<le> cw" and "0 \<le> ch"
  shows "filled cw ch iw ih s tx ty a \<longleftrightarrow>
    \<bar>tx * cos a + ty * sin a\<bar> \<le> room_w cw ch iw s a \<and> \<bar>ty * cos a - tx * sin a\<bar> \<le> room_h cw ch ih s a"
  unfolding filled_iff [OF assms] room_w_def room_h_def by auto

lemma limit_abs_iff:
  assumes "0 \<le> r1" "0 \<le> r2" "c \<noteq> 0 \<or> d \<noteq> 0"
  shows "\<bar>t\<bar> \<le> limit r1 \<bar>c\<bar> r2 \<bar>d\<bar> \<longleftrightarrow> \<bar>t * c\<bar> \<le> r1 \<and> \<bar>t * d\<bar> \<le> r2"
  using assms by (simp add: limit_iff abs_mult)

lemma limit_nonneg: "0 \<le> limit r1 c r2 d"
  by (simp add: limit_def)

text \<open>Angles at which an axis of the image is an axis of the screen: multiples of a quarter turn.\<close>

definition quarter_angle :: "real \<Rightarrow> bool" where
  "quarter_angle a \<longleftrightarrow> sin a = 0 \<or> cos a = 0"

lemma quarter_angle_clear: "quarter_angle a \<Longrightarrow> clear_angle a"
  using sin_zero_abs_cos_one [of a] sin_zero_abs_cos_one [of "pi / 2 - a"] by (auto simp: quarter_angle_def clear_angle_def sin_diff cos_diff)

definition clamp :: "real \<Rightarrow> real \<Rightarrow> real" where
  "clamp m t = max (- m) (min t m)"

lemma clampTranslation_N: "clampTranslation (N tx) (N ty) (N mx) (N my) = (N (clamp mx tx), N (clamp my ty))"
  by (simp add: clampTranslation_def clamp_def)

lemma clamp_abs: "0 \<le> m \<Longrightarrow> \<bar>clamp m t\<bar> \<le> m"
  by (auto simp: clamp_def)

lemma clamp_id: "0 \<le> m \<Longrightarrow> clamp m t = t \<longleftrightarrow> \<bar>t\<bar> \<le> m"
  by (auto simp: clamp_def)

lemma minScale_filled:
  assumes "0 \<le> cw" "0 \<le> ch" "0 < iw" "0 < ih"
  shows "computeMinScale (N cw) (N ch) (N iw) (N ih) (N a) \<le> N s \<longleftrightarrow> filled cw ch iw ih s 0 0 a"
  unfolding minScale_room [OF assms(3,4)] filled_room [OF assms(1,2)] by simp

lemma bounds_filled:
  assumes "0 \<le> cw" "0 \<le> ch" "clear_angle a" "filled cw ch iw ih s 0 0 a"
    and "computeTranslationBounds (N cw) (N ch) (N iw) (N ih) (N s) (N a) = (N mx, N my)"
  shows "\<bar>t\<bar> \<le> mx \<longleftrightarrow> filled cw ch iw ih s t 0 a" and "\<bar>t\<bar> \<le> my \<longleftrightarrow> filled cw ch iw ih s 0 t a"
    and "0 \<le> mx" and "0 \<le> my"
proof -
  let ?W = "room_w cw ch iw s a" and ?H = "room_h cw ch ih s a"
  have nz: "cos a \<noteq> 0 \<or> sin a \<noteq> 0" "sin a \<noteq> 0 \<or> cos a \<noteq> 0"
    using sin_cos_nonzero [of a] by auto
  have m: "mx = limit ?W \<bar>cos a\<bar> ?H \<bar>sin a\<bar>" "my = limit ?W \<bar>sin a\<bar> ?H \<bar>cos a\<bar>"
    using assms(5) by (simp_all add: computeTranslationBounds_N [OF assms(3)])
  note fr = filled_room [OF assms(1,2)]
  have pos: "0 \<le> ?W" "0 \<le> ?H" using assms(4) unfolding fr by simp_all
  show "\<bar>t\<bar> \<le> mx \<longleftrightarrow> filled cw ch iw ih s t 0 a"
    unfolding m limit_abs_iff [OF pos nz(1)] fr by simp
  show "\<bar>t\<bar> \<le> my \<longleftrightarrow> filled cw ch iw ih s 0 t a"
    unfolding m limit_abs_iff [OF pos nz(2)] fr by auto
  show "0 \<le> mx" "0 \<le> my" unfolding m by (rule limit_nonneg)+
qed

lemma quarter_filled:
  assumes "0 \<le> cw" "0 \<le> ch" "quarter_angle a" "filled cw ch iw ih s 0 0 a"
    and "computeTranslationBounds (N cw) (N ch) (N iw) (N ih) (N s) (N a) = (N mx, N my)"
  shows "filled cw ch iw ih s tx ty a \<longleftrightarrow> \<bar>tx\<bar> \<le> mx \<and> \<bar>ty\<bar> \<le> my"
proof -
  have "filled cw ch iw ih s tx ty a \<longleftrightarrow> filled cw ch iw ih s tx 0 a \<and> filled cw ch iw ih s 0 ty a"
    using assms(3,4) unfolding filled_room [OF assms(1,2)] quarter_angle_def by auto
  then show ?thesis
    using bounds_filled [OF assms(1,2) quarter_angle_clear [OF assms(3)] assms(4,5)] by simp
qed

text \<open>
  The minimum scale and the translation bounds are exactly what keeps the window filled. The
  image fills the crop window, centred, at exactly the scales from \<open>computeMinScale\<close> on; at
  such a scale a translation along one axis keeps it filled exactly up to the bound that
  \<open>computeTranslationBounds\<close> gives for that axis; and at quarter turns this holds for every
  translation, so that there \<open>clampTranslation\<close> never shows an empty pixel and never
  restricts a translation that would show none.
\<close>

theorem crop_bounds_exact:
  assumes "0 \<le> cw" "0 \<le> ch" "0 < iw" "0 < ih" "clear_angle a"
    and "computeTranslationBounds (N cw) (N ch) (N iw) (N ih) (N s) (N a) = (N mx, N my)"
  shows "(computeMinScale (N cw) (N ch) (N iw) (N ih) (N a) \<le> N s \<longleftrightarrow> filled cw ch iw ih s 0 0 a)
    \<and> (filled cw ch iw ih s 0 0 a \<longrightarrow>
        (\<bar>tx\<bar> \<le> mx \<longleftrightarrow> filled cw ch iw ih s tx 0 a) \<and> (\<bar>ty\<bar> \<le> my \<longleftrightarrow> filled cw ch iw ih s 0 ty a)
        \<and> (quarter_angle a \<longrightarrow>
            (clampTranslation (N tx) (N ty) (N mx) (N my) = (N tx, N ty) \<longleftrightarrow> filled cw ch iw ih s tx ty a)))"
proof (intro conjI impI)
  show "computeMinScale (N cw) (N ch) (N iw) (N ih) (N a) \<le> N s \<longleftrightarrow> filled cw ch iw ih s 0 0 a"
    by (rule minScale_filled [OF assms(1-4)])
  assume f: "filled cw ch iw ih s 0 0 a"
  note b = bounds_filled [OF assms(1,2,5) f assms(6)]
  show "\<bar>tx\<bar> \<le> mx \<longleftrightarrow> filled cw ch iw ih s tx 0 a" "\<bar>ty\<bar> \<le> my \<longleftrightarrow> filled cw ch iw ih s 0 ty a"
    by (rule b)+
  assume "quarter_angle a"
  then show "clampTranslation (N tx) (N ty) (N mx) (N my) = (N tx, N ty) \<longleftrightarrow> filled cw ch iw ih s tx ty a"
    using quarter_filled [OF assms(1,2) _ f assms(6)] b(3,4) by (simp add: clampTranslation_N clamp_id)
qed

theorem crop_bounds_exact_witness:
  "computeTranslationBounds (N 100) (N 100) (N 400) (N 200) (N 1) (N 0) = (N 150, N 50)
   \<and> filled 100 100 400 200 1 150 50 0 \<and> \<not> filled 100 100 400 200 1 150 51 0"
proof -
  have q: "quarter_angle 0" by (simp add: quarter_angle_def)
  have b: "computeTranslationBounds (N 100) (N 100) (N 400) (N 200) (N 1) (N 0) = (N 150, N 50)"
    unfolding computeTranslationBounds_N [OF quarter_angle_clear [OF q]]
    by (simp add: limit_def room_w_def room_h_def need_w_def need_h_def)
  have "computeMinScale (N 100) (N 100) (N 400) (N 200) (N 0) \<le> N 1"
    by (simp add: computeMinScale_N need_w_def need_h_def)
  then show ?thesis
    using b q crop_bounds_exact [OF _ _ _ _ quarter_angle_clear [OF q] b, of 150 50]
      crop_bounds_exact [OF _ _ _ _ quarter_angle_clear [OF q] b, of 150 51]
    by (simp add: clampTranslation_N clamp_def)
qed

text \<open>
  Away from quarter turns the two bounds are computed each for a translation along its own axis
  only. Together they allow too much: a square image turned by 45 degrees, moved to both
  bounds, leaves a corner of the window empty.
\<close>

theorem bounds_leave_corner_empty:
  "\<exists>mx my. computeTranslationBounds (N 100) (N 100) (N 200) (N 200) (N 1) (N (pi / 4)) = (N mx, N my)
    \<and> clampTranslation (N mx) (N my) (N mx) (N my) = (N mx, N my) \<and> \<not> filled 100 100 200 200 1 mx my (pi / 4)"
proof -
  let ?r = "100 - 50 * sqrt 2"
  have "sqrt 2 \<noteq> 0" "(1 :: real) < sqrt 2" "sqrt 2 < (2 :: real)" using sqrt2_less_2 by simp_all
  then have "1 < sqrt 2 * (5000000000 :: real)" by linarith
  then have "clear_angle (pi / 4)" by (simp add: clear_angle_def cos_45 sin_45)
  moreover have "room_w 100 100 200 1 (pi / 4) = ?r" "room_h 100 100 200 1 (pi / 4) = ?r"
    by (simp_all add: room_w_def room_h_def need_w_def need_h_def cos_45 sin_45)
  ultimately have b: "computeTranslationBounds (N 100) (N 100) (N 200) (N 200) (N 1) (N (pi / 4))
      = (N (limit ?r (sqrt 2 / 2) ?r (sqrt 2 / 2)), N (limit ?r (sqrt 2 / 2) ?r (sqrt 2 / 2)))"
    by (simp add: computeTranslationBounds_N cos_45 sin_45)
  have r: "0 < ?r" using \<open>sqrt 2 < 2\<close> by simp
  then have l: "limit ?r (sqrt 2 / 2) ?r (sqrt 2 / 2) = 2 * ?r / sqrt 2"
    by (simp add: limit_def)
  have "\<not> filled 100 100 200 200 1 (2 * ?r / sqrt 2) (2 * ?r / sqrt 2) (pi / 4)"
    using r by (simp add: filled_room room_w_def room_h_def need_w_def need_h_def cos_45 sin_45)
  moreover have "clamp (2 * ?r / sqrt 2) (2 * ?r / sqrt 2) = 2 * ?r / sqrt 2"
    using r by (simp add: clamp_id)
  ultimately show ?thesis using b l by (auto simp: clampTranslation_N)
qed

section \<open>Templates, handles and the crop rectangle of the source image\<close>

text \<open>A template gives the largest window of its aspect ratio that fits into the image.\<close>

lemma applyCropTemplate_largest:
  assumes "0 < r" "0 < iw" "0 < ih"
  obtains w h where "applyCropTemplate (Some (N r)) cw ch (N iw) (N ih) = (N w, N h)"
    and "0 < w" "0 < h" "w \<le> iw" "h \<le> ih" "w = r * h"
    and "\<And>w' h'. w' = r * h' \<Longrightarrow> w' \<le> iw \<Longrightarrow> h' \<le> ih \<Longrightarrow> w' \<le> w \<and> h' \<le> h"
proof (cases "r < iw / ih")
  case True
  then have fits: "ih * r \<le> iw" using assms by (simp add: less_divide_eq mult.commute)
  show ?thesis
    by (rule that [of "ih * r" ih]) (use True assms fits in \<open>auto simp: applyCropTemplate_def mult.commute\<close>)
next
  case False
  then have "iw \<le> r * ih" using assms by (simp add: divide_le_eq not_less)
  then have fits: "iw / r \<le> ih" using assms by (simp add: divide_le_eq mult.commute)
  have "h' \<le> iw / r" if "r * h' \<le> iw" for h'
    using that assms by (simp add: le_divide_eq mult.commute)
  then show ?thesis
    by (intro that [of iw "iw / r"]) (use False assms fits in \<open>auto simp: applyCropTemplate_def\<close>)
qed

lemma handle_resize_N:
  obtains w' h' where "handle_resize handle (N dx) (N dy) (N w) (N h) = (N w', N h')"
    and "handle \<in> {H_n, H_s, H_move} \<Longrightarrow> w' = w" and "handle \<in> {H_w, H_e, H_move} \<Longrightarrow> h' = h"
  by (cases handle) auto

text \<open>Without a ratio both sides stay at or above the minimum; with one, the ratio is exact.\<close>

lemma resizeCropFromHandle_N:
  assumes "handle \<noteq> H_move" and "\<And>r. ratio = Some r \<Longrightarrow> \<exists>x > 0. r = N x"
  obtains w' h' where "resizeCropFromHandle handle (N dx) (N dy) (N w) (N h) ratio = (N w', N h')"
    and "0 < w'" "0 < h'" "ratio = None \<Longrightarrow> 10 \<le> w' \<and> 10 \<le> h'" "\<And>r. ratio = Some (N r) \<Longrightarrow> w' = r * h'"
    and "10 \<le> w' \<or> 10 \<le> h'"
proof -
  obtain w1 h1 where r: "handle_resize handle (N dx) (N dy) (N w) (N h) = (N w1, N h1)"
    by (rule handle_resize_N)
  let ?w = "max w1 10" and ?h = "max h1 10"
  show ?thesis
  proof (cases ratio)
    case None
    show ?thesis
      by (rule that [of ?w ?h]) (use None assms(1) r in \<open>simp_all add: resizeCropFromHandle_def MIN_CROP_SIZE_def\<close>)
  next
    case (Some q)
    then obtain x where x: "q = N x" "x > 0" using assms(2) by blast
    show ?thesis
    proof (cases "handle \<in> {H_w, H_e}")
      case True
      show ?thesis
        by (rule that [of ?w "?w / x"])
          (use True Some assms(1) r x in \<open>simp_all add: resizeCropFromHandle_def MIN_CROP_SIZE_def\<close>)
    next
      case False
      show ?thesis
        by (rule that [of "?h * x" ?h])
          (use False Some assms(1) r x in \<open>simp_all add: resizeCropFromHandle_def MIN_CROP_SIZE_def\<close>)
    qed
  qed
qed

text \<open>The ratio is enforced after the minimum, so that a side can become smaller than the minimum.\<close>

theorem ratio_undercuts_minimum: "resizeCropFromHandle H_w (N 100) (N 0) (N 40) (N 20) (Some (N 2)) = (N 10, N 5)"
  by (simp add: resizeCropFromHandle_def MIN_CROP_SIZE_def)

text \<open>
  \<open>isCropSizeValid\<close> compares with the bounding box of the turned image: every window that the
  image fills passes, but at 45 degrees so does one that no pixel of the image reaches into
  the corners of.
\<close>

lemma isCropSizeValid_necessary:
  assumes "0 \<le> cw" "0 \<le> ch" "0 < iw" "0 < ih"
    and "computeMinScale (N cw) (N ch) (N iw) (N ih) (N a) \<le> N s"
  shows "isCropSizeValid (N cw) (N ch) (N iw) (N ih) (N s) (N a)"
proof -
  let ?c = "\<bar>cos a\<bar>" and ?d = "\<bar>sin a\<bar>"
  have sq: "?c * ?c + ?d * ?d = 1"
    using sin_cos_squared_add2 [of a] by (simp add: abs_mult_self_eq power2_eq_square)
  have need: "need_w cw ch a \<le> iw * s" "need_h cw ch a \<le> ih * s"
    using assms(5) unfolding minScale_le [OF assms(3,4)] by simp_all
  then have w: "?c * need_w cw ch a + ?d * need_h cw ch a \<le> ?c * (iw * s) + ?d * (ih * s)"
    and h: "?d * need_w cw ch a + ?c * need_h cw ch a \<le> ?d * (iw * s) + ?c * (ih * s)"
    by (simp_all add: add_mono mult_left_mono)
  have exp: "c * (p * c + q * d) + d * (p * d + q * c) = p * (c * c + d * d) + 2 * q * c * d" for c d p q :: real
    by (simp add: algebra_simps)
  have "?c * need_w cw ch a + ?d * need_h cw ch a = cw * (?c * ?c + ?d * ?d) + 2 * ch * ?c * ?d"
    "?d * need_w cw ch a + ?c * need_h cw ch a = ch * (?c * ?c + ?d * ?d) + 2 * cw * ?c * ?d"
    unfolding need_w_def need_h_def using exp [of ?c cw ch ?d] exp [of ?c ch cw ?d] by (simp_all only: add.commute)
  moreover have "0 \<le> 2 * ch * ?c * ?d" "0 \<le> 2 * cw * ?c * ?d" using assms by simp_all
  ultimately show ?thesis
    using w h unfolding sq isCropSizeValid_def by (simp add: Let_def mult.commute mult.left_commute)
qed

theorem isCropSizeValid_not_sufficient:
  "isCropSizeValid (N 140) (N 140) (N 100) (N 100) (N 1) (N (pi / 4)) \<and> \<not> filled 140 140 100 100 1 0 0 (pi / 4)"
proof -
  have "(1.4 :: real) < sqrt 2" by (rule real_less_rsqrt) (simp add: power2_eq_square)
  then have "140 \<le> 100 * sqrt 2" "100 < 140 * sqrt 2" by simp_all
  then show ?thesis
    by (simp add: isCropSizeValid_def filled_room room_w_def room_h_def need_w_def need_h_def cos_45 sin_45)
qed

lemma stateToImageCropRect_N:
  assumes "s \<noteq> 0"
  shows "stateToImageCropRect (N cw) (N ch) (N iw) (N ih) (N tx) (N ty) (N s) (N a) =
    \<lparr>cr_x = math_round (N (iw / 2 - (tx * cos a + ty * sin a) / s - cw / s / 2)),
     cr_y = math_round (N (ih / 2 - (ty * cos a - tx * sin a) / s - ch / s / 2)),
     cr_width = math_round (N (cw / s)), cr_height = math_round (N (ch / s))\<rparr>"
  using assms by (simp add: stateToImageCropRect_def Let_def diff_divide_distrib add_divide_distrib algebra_simps)



text \<open>The coordinates, in the image, of the pixel that a point of the window shows.\<close>

definition image_x :: "real \<Rightarrow> real \<Rightarrow> real \<Rightarrow> real \<Rightarrow> real \<Rightarrow> real \<Rightarrow> real \<Rightarrow> real" where
  "image_x iw s tx ty a px py = iw / 2 + ((px - tx) * cos a + (py - ty) * sin a) / s"

definition image_y :: "real \<Rightarrow> real \<Rightarrow> real \<Rightarrow> real \<Rightarrow> real \<Rightarrow> real \<Rightarrow> real \<Rightarrow> real" where
  "image_y ih s tx ty a px py = ih / 2 + ((py - ty) * cos a - (px - tx) * sin a) / s"




text \<open>
  At a quarter turn the rectangle is not the part of the image that the window shows. Width and
  height are those of the window, although they lie along the other axes of the image: a
  400 by 200 image that is turned once, at scale 2, fills a window of 400 by 200 that is moved by
  300; the window shows the left quarter of the image, from 0 to 100 and from 0 to 200, and the
  rectangle begins 50 pixels left of the image and is 200 wide and 100 high.
\<close>

theorem quarter_turn_rect_is_wrong:
  "filled 400 200 400 200 2 0 300 (pi / 2)
   \<and> image_x 400 2 0 300 (pi / 2) px py = 200 + (py - 300) / 2 \<and> image_y 200 2 0 300 (pi / 2) px py = 100 - px / 2
   \<and> stateToImageCropRect (N 400) (N 200) (N 400) (N 200) (N 0) (N 300) (N 2) (N (pi / 2))
       = \<lparr>cr_x = N (- 50), cr_y = N 50, cr_width = N 200, cr_height = N 100\<rparr>"
  by (simp add: stateToImageCropRect_N filled_room room_w_def room_h_def need_w_def need_h_def image_x_def image_y_def)

end
