(* ===== verification/Editor_Engine.thy ===== *)
theory Editor_Engine
  imports Crop_Math Prelude
begin

text \<open>
  The image editor engine (\<^verbatim>\<open>packages/image-editor/src/engine.ts\<close>, \<^verbatim>\<open>types.ts\<close>): edit state, undo
  history, the actions, loading of images and the pointer events. The object of class
  \<open>ImageEditorEngine\<close> is the record \<open>engine\<close>; a method is a function on it. A partial state
  passed to \<open>updateState\<close> is a function that overwrites its fields. The calls of the
  \<open>onChange\<close> and \<open>onEditChange\<close> callbacks are collected in order. The page around the engine
  and the drawing are the subject of \<^verbatim>\<open>Editor_Render\<close>.
\<close>

section \<open>State\<close>

datatype quarter = R0 | R90 | R180 | R270

fun deg :: "quarter \<Rightarrow> int" where
  "deg R0 = 0" | "deg R90 = 90" | "deg R180 = 180" | "deg R270 = 270"

record edit_state =
  ed_cropWidth :: jsnum
  ed_cropHeight :: jsnum
  ed_rotation :: quarter
  ed_straighten :: jsnum
  ed_scale :: jsnum
  ed_tx :: jsnum
  ed_ty :: jsnum
  ed_flipHorizontal :: bool
  ed_flipVertical :: bool
  ed_activeTemplate :: "crop_template option"
  ed_resizeMode :: resize_mode

datatype image_status = Img_idle | Img_loading | Img_loaded | Img_error

record editor_state = edit_state +
  st_src :: string
  st_imageStatus :: image_status
  st_imageError :: "string option"
  st_naturalWidth :: jsnum
  st_naturalHeight :: jsnum
  st_templates :: "crop_template list"
  st_isDragging :: bool
  st_activeHandle :: "drag_handle option"
  st_canUndo :: bool
  st_canRedo :: bool
  st_isDirty :: bool
  st_zoom :: jsnum
  st_zoomMode :: zoom_mode
  st_panX :: jsnum
  st_panY :: jsnum
  st_isPanning :: bool
  st_mode :: editor_mode

record crop_colors =
  co_canvas :: string
  co_border :: string
  co_handle :: string
  co_grid :: string
  co_overlay :: string

record engine_options =
  op_src :: "string option"
  op_initialCropWidth :: "jsnum option"
  op_initialCropHeight :: "jsnum option"
  op_templates :: "crop_template list option"
  op_defaultTemplate :: "crop_template option"
  op_maxHistory :: "nat option"
  op_onChange :: bool
  op_onEditChange :: bool
  op_colors :: "crop_colors option"

record undo_history =
  uh_past :: "edit_state list"
  uh_future :: "edit_state list"

record drag_origin =
  do_handle :: drag_handle
  do_screenX :: jsnum
  do_screenY :: jsnum
  do_originalEditState :: edit_state

record pan_origin =
  po_pointerX :: jsnum
  po_pointerY :: jsnum
  po_offsetX :: jsnum
  po_offsetY :: jsnum

text \<open>A decoded image: where it was loaded from and its natural size.\<close>

record image =
  im_src :: string
  im_width :: jsnum
  im_height :: jsnum

datatype callback = Changed editor_state | EditChanged edit_state

record engine =
  en_container :: "nat option"
  en_canvas :: "nat option"
  en_ctx :: bool
  en_mounted :: bool
  en_state :: editor_state
  en_history :: undo_history
  en_initialEditState :: edit_state
  en_preDragEditState :: "edit_state option"
  en_preStraightenEditState :: "edit_state option"
  en_maxHistory :: nat
  en_image :: "image option"
  en_loadCancelled :: bool
  en_pendingSrc :: "string option"
  en_dragOrigin :: "drag_origin option"
  en_panOrigin :: "pan_origin option"
  en_rafId :: nat
  en_dirty :: bool
  en_colors :: "crop_colors option"
  en_userColors :: "crop_colors option"
  en_viewportScale :: jsnum
  en_viewportOffsetX :: jsnum
  en_viewportOffsetY :: jsnum
  en_onChange :: bool
  en_onEditChange :: bool
  en_captured :: "nat list"
  en_cursor :: string
  en_calls :: "callback list"

section \<open>History and state helpers\<close>

definition pushHistory :: "undo_history \<Rightarrow> edit_state \<Rightarrow> nat \<Rightarrow> undo_history" where
  "pushHistory history current maxHistory =
     (let past = uh_past history @ [current]
      in \<lparr>uh_past = (if maxHistory < length past then tl past else past), uh_future = []\<rparr>)"

definition extractEditState :: "editor_state \<Rightarrow> edit_state" where
  "extractEditState s = edit_state.truncate s"

definition same_template :: "crop_template option \<Rightarrow> crop_template option \<Rightarrow> bool" where
  "same_template a b \<longleftrightarrow> map_option ct_ref a = map_option ct_ref b"

definition isEditStateDirty :: "edit_state \<Rightarrow> edit_state \<Rightarrow> bool" where
  "isEditStateDirty current initial \<longleftrightarrow>
     num_neq (ed_cropWidth current) (ed_cropWidth initial) \<or>
     num_neq (ed_cropHeight current) (ed_cropHeight initial) \<or>
     ed_rotation current \<noteq> ed_rotation initial \<or>
     num_neq (ed_straighten current) (ed_straighten initial) \<or>
     num_neq (ed_scale current) (ed_scale initial) \<or>
     num_neq (ed_tx current) (ed_tx initial) \<or>
     num_neq (ed_ty current) (ed_ty initial) \<or>
     ed_flipHorizontal current \<noteq> ed_flipHorizontal initial \<or>
     ed_flipVertical current \<noteq> ed_flipVertical initial \<or>
     \<not> same_template (ed_activeTemplate current) (ed_activeTemplate initial) \<or>
     ed_resizeMode current \<noteq> ed_resizeMode initial"

definition totalAngleRad :: "quarter \<Rightarrow> jsnum \<Rightarrow> jsnum" where
  "totalAngleRad rotation straighten = ((N (of_int (deg rotation)) + straighten) * N pi) / N 180"

definition CURSOR_MAP :: "drag_handle \<Rightarrow> string" where
  "CURSOR_MAP h = (case h of
     H_nw \<Rightarrow> ''nwse-resize'' | H_se \<Rightarrow> ''nwse-resize'' | H_ne \<Rightarrow> ''nesw-resize'' | H_sw \<Rightarrow> ''nesw-resize''
   | H_n \<Rightarrow> ''ns-resize'' | H_s \<Rightarrow> ''ns-resize'' | H_e \<Rightarrow> ''ew-resize'' | H_w \<Rightarrow> ''ew-resize'' | H_move \<Rightarrow> ''all-scroll'')"

definition handle_positions :: "jsnum \<Rightarrow> jsnum \<Rightarrow> (drag_handle \<times> jsnum \<times> jsnum) list" where
  "handle_positions hw hh =
     [(H_nw, - hw, - hh), (H_n, N 0, - hh), (H_ne, hw, - hh), (H_w, - hw, N 0),
      (H_e, hw, N 0), (H_sw, - hw, hh), (H_s, N 0, hh), (H_se, hw, hh)]"

definition hitTestHandles :: "jsnum \<Rightarrow> jsnum \<Rightarrow> jsnum \<Rightarrow> jsnum \<Rightarrow> jsnum \<Rightarrow> drag_handle option" where
  "hitTestHandles px py cropW cropH hitRadius =
     (let hw = cropW / N 2; hh = cropH / N 2;
          near = (\<lambda>(h, x, y). let dx = px - x; dy = py - y in dx * dx + dy * dy \<le> hitRadius * hitRadius)
      in case find near (handle_positions hw hh) of
           Some (h, _) \<Rightarrow> Some h
         | None \<Rightarrow> if math_abs px \<le> hw \<and> math_abs py \<le> hh then Some H_move else None)"

definition quarterTurn :: "int \<Rightarrow> quarter" where
  "quarterTurn d =
     (let n = js_rem (js_rem d 360 + 360) 360
      in if n = 90 then R90 else if n = 180 then R180 else if n = 270 then R270 else R0)"

section \<open>The engine\<close>

definition new_engine :: "engine_options \<Rightarrow> engine" where
  "new_engine options =
     (let userTemplates = filter (\<lambda>t. ct_label t \<noteq> ct_label FREE_TEMPLATE) (or_default (op_templates options) []);
          defaultTemplate = or_default (op_defaultTemplate options) FREE_TEMPLATE;
          initial = \<lparr>ed_cropWidth = or_default (op_initialCropWidth options) (N 0),
                     ed_cropHeight = or_default (op_initialCropHeight options) (N 0),
                     ed_rotation = R0, ed_straighten = N 0, ed_scale = N 1, ed_tx = N 0, ed_ty = N 0,
                     ed_flipHorizontal = False, ed_flipVertical = False,
                     ed_activeTemplate = Some defaultTemplate, ed_resizeMode = Resize_crop\<rparr>;
          rest = \<lparr>st_src = or_default (op_src options) [], st_imageStatus = Img_idle, st_imageError = None,
                  st_naturalWidth = N 0, st_naturalHeight = N 0, st_templates = FREE_TEMPLATE # userTemplates,
                  st_isDragging = False, st_activeHandle = None, st_canUndo = False, st_canRedo = False,
                  st_isDirty = False, st_zoom = N 100, st_zoomMode = Zoom_fit, st_panX = N 0, st_panY = N 0,
                  st_isPanning = False, st_mode = Mode_view\<rparr>
      in \<lparr>en_container = None, en_canvas = None, en_ctx = False, en_mounted = False,
          en_state = edit_state.extend initial rest, en_history = \<lparr>uh_past = [], uh_future = []\<rparr>,
          en_initialEditState = initial, en_preDragEditState = None, en_preStraightenEditState = None,
          en_maxHistory = or_default (op_maxHistory options) MAX_HISTORY, en_image = None,
          en_loadCancelled = False, en_pendingSrc = op_src options, en_dragOrigin = None, en_panOrigin = None,
          en_rafId = 0, en_dirty = True, en_colors = None, en_userColors = op_colors options,
          en_viewportScale = N 1, en_viewportOffsetX = N 0, en_viewportOffsetY = N 0,
          en_onChange = op_onChange options, en_onEditChange = op_onEditChange options,
          en_captured = [], en_cursor = [], en_calls = []\<rparr>)"

definition getCropRect :: "engine \<Rightarrow> crop_rect" where
  "getCropRect e =
     (let s = en_state e in
      stateToImageCropRect (ed_cropWidth s) (ed_cropHeight s) (st_naturalWidth s) (st_naturalHeight s)
        (ed_tx s) (ed_ty s) (ed_scale s) (totalAngleRad (ed_rotation s) (ed_straighten s)))"

definition markDirty :: "engine \<Rightarrow> engine" where
  "markDirty e = e\<lparr>en_dirty := True\<rparr>"

definition updateState :: "(editor_state \<Rightarrow> editor_state) \<Rightarrow> engine \<Rightarrow> engine" where
  "updateState partial e =
     (let prev = en_state e; next = partial prev; nextEdit = extractEditState next
      in (markDirty (e\<lparr>en_state := next\<rparr>))
         \<lparr>en_calls := en_calls e @ (if en_onChange e then [Changed next] else [])
            @ (if en_onEditChange e \<and> isEditStateDirty nextEdit (extractEditState prev) then [EditChanged nextEdit] else [])\<rparr>)"

definition pushHistoryAndUpdate :: "(editor_state \<Rightarrow> editor_state) \<Rightarrow> engine \<Rightarrow> engine" where
  "pushHistoryAndUpdate partial e =
     (let currentEdit = extractEditState (en_state e);
          e1 = e\<lparr>en_history := pushHistory (en_history e) currentEdit (en_maxHistory e)\<rparr>;
          newEdit = extractEditState (partial (en_state e))
      in updateState (\<lambda>s. (partial s)\<lparr>st_canUndo := True, st_canRedo := False,
           st_isDirty := isEditStateDirty newEdit (en_initialEditState e)\<rparr>) e1)"

text \<open>\<open>{ ...state, ...editState }\<close>.\<close>

definition with_edit :: "edit_state \<Rightarrow> editor_state \<Rightarrow> editor_state" where
  "with_edit d s = edit_state.extend d (edit_state.more s)"

section \<open>Loading\<close>

text \<open>The synchronous part of \<open>loadImage\<close>; the browser then loads \<open>src\<close> and calls one of the handlers.\<close>

definition loadImage :: "string \<Rightarrow> engine \<Rightarrow> engine" where
  "loadImage src e =
     (updateState (\<lambda>s. s\<lparr>st_src := src, st_imageStatus := Img_loading, st_imageError := None\<rparr>)
        (e\<lparr>en_loadCancelled := True\<rparr>))\<lparr>en_loadCancelled := False\<rparr>"

definition img_onload :: "string \<Rightarrow> jsnum \<Rightarrow> jsnum \<Rightarrow> engine \<Rightarrow> engine" where
  "img_onload src w h e =
     (if en_loadCancelled e then e
      else
        (let editState = \<lparr>ed_cropWidth = w, ed_cropHeight = h, ed_rotation = R0, ed_straighten = N 0,
               ed_scale = N 1, ed_tx = N 0, ed_ty = N 0, ed_flipHorizontal = False, ed_flipVertical = False,
               ed_activeTemplate = ed_activeTemplate (en_state e), ed_resizeMode = Resize_crop\<rparr>
         in updateState
              (\<lambda>s. (with_edit editState s)\<lparr>st_src := src, st_imageStatus := Img_loaded, st_imageError := None,
                 st_naturalWidth := w, st_naturalHeight := h, st_canUndo := False, st_canRedo := False,
                 st_isDirty := False, st_isDragging := False, st_activeHandle := None,
                 st_zoom := N 100, st_zoomMode := Zoom_fit, st_panX := N 0, st_panY := N 0,
                 st_isPanning := False, st_mode := Mode_view\<rparr>)
              (e\<lparr>en_image := Some \<lparr>im_src = src, im_width = w, im_height = h\<rparr>,
                 en_initialEditState := editState, en_history := \<lparr>uh_past = [], uh_future = []\<rparr>\<rparr>)))"

definition img_onerror :: "string \<Rightarrow> engine \<Rightarrow> engine" where
  "img_onerror src e =
     (if en_loadCancelled e then e
      else updateState (\<lambda>s. s\<lparr>st_imageStatus := Img_error, st_imageError := Some (''Failed to load: '' @ src)\<rparr>) e)"

section \<open>Actions\<close>

definition setResizeMode :: "resize_mode \<Rightarrow> engine \<Rightarrow> engine" where
  "setResizeMode mode e = pushHistoryAndUpdate (\<lambda>s. s\<lparr>ed_resizeMode := mode\<rparr>) e"

definition applyRotationChange :: "quarter \<Rightarrow> jsnum \<Rightarrow> bool \<Rightarrow> engine \<Rightarrow> engine" where
  "applyRotationChange rotation straighten pushToHistory e =
     (let s = en_state e;
          angle = ((N (of_int (deg rotation)) + straighten) * N pi) / N 180;
          iw = st_naturalWidth s; ih = st_naturalHeight s; cw = ed_cropWidth s; ch = ed_cropHeight s;
          minScale = computeMinScale cw ch iw ih angle;
          scale = math_max (ed_scale s) minScale;
          (maxTx, maxTy) = computeTranslationBounds cw ch iw ih scale angle;
          (tx, ty) = clampTranslation (ed_tx s) (ed_ty s) maxTx maxTy;
          partial = (\<lambda>s. s\<lparr>ed_rotation := rotation, ed_straighten := straighten, ed_scale := scale, ed_tx := tx, ed_ty := ty\<rparr>)
      in if pushToHistory then pushHistoryAndUpdate partial e else updateState partial e)"

definition rotateClockwise :: "engine \<Rightarrow> engine" where
  "rotateClockwise e =
     applyRotationChange (quarterTurn (deg (ed_rotation (en_state e)) + 90)) (ed_straighten (en_state e)) True e"

definition rotateCounterClockwise :: "engine \<Rightarrow> engine" where
  "rotateCounterClockwise e =
     applyRotationChange (quarterTurn (deg (ed_rotation (en_state e)) + 270)) (ed_straighten (en_state e)) True e"

definition setStraighten :: "jsnum \<Rightarrow> engine \<Rightarrow> engine" where
  "setStraighten degrees e =
     (let clamped = math_max (N (- 45)) (math_min (N 45) degrees);
          e1 = (if en_preStraightenEditState e = None
                then e\<lparr>en_preStraightenEditState := Some (extractEditState (en_state e))\<rparr> else e)
      in applyRotationChange (ed_rotation (en_state e1)) clamped False e1)"

definition commitStraighten :: "engine \<Rightarrow> engine" where
  "commitStraighten e =
     (case en_preStraightenEditState e of
        None \<Rightarrow> e
      | Some pre \<Rightarrow>
          updateState (\<lambda>s. s\<lparr>st_canUndo := True, st_canRedo := False,
              st_isDirty := isEditStateDirty (extractEditState s) (en_initialEditState e)\<rparr>)
            (e\<lparr>en_preStraightenEditState := None, en_history := pushHistory (en_history e) pre (en_maxHistory e)\<rparr>))"

definition toggleFlipHorizontal :: "engine \<Rightarrow> engine" where
  "toggleFlipHorizontal e =
     pushHistoryAndUpdate (\<lambda>s. s\<lparr>ed_flipHorizontal := \<not> ed_flipHorizontal (en_state e)\<rparr>) e"

definition toggleFlipVertical :: "engine \<Rightarrow> engine" where
  "toggleFlipVertical e =
     pushHistoryAndUpdate (\<lambda>s. s\<lparr>ed_flipVertical := \<not> ed_flipVertical (en_state e)\<rparr>) e"

definition applyTemplate :: "crop_template option \<Rightarrow> engine \<Rightarrow> engine" where
  "applyTemplate template e =
     (if template = None \<or> ct_ratio (the template) = None
      then pushHistoryAndUpdate (\<lambda>s. s\<lparr>ed_activeTemplate := template\<rparr>) e
      else
        (let s = en_state e;
             iw = st_naturalWidth s; ih = st_naturalHeight s;
             (cropW, cropH) = applyCropTemplate (ct_ratio (the template)) (ed_cropWidth s) (ed_cropHeight s) iw ih;
             angle = totalAngleRad (ed_rotation s) (ed_straighten s);
             minScale = computeMinScale cropW cropH iw ih angle;
             scale = math_max (ed_scale s) minScale;
             (maxTx, maxTy) = computeTranslationBounds cropW cropH iw ih scale angle;
             (tx, ty) = clampTranslation (ed_tx s) (ed_ty s) maxTx maxTy
         in pushHistoryAndUpdate
              (\<lambda>s. s\<lparr>ed_activeTemplate := template, ed_cropWidth := cropW, ed_cropHeight := cropH,
                 ed_scale := scale, ed_tx := tx, ed_ty := ty\<rparr>) e))"

definition reset :: "engine \<Rightarrow> engine" where
  "reset e = pushHistoryAndUpdate (with_edit (en_initialEditState e)) e"

definition undo :: "engine \<Rightarrow> engine" where
  "undo e =
     (let past = uh_past (en_history e) in
      if past = [] then e
      else
        (let previous = last past; past = butlast past; current = extractEditState (en_state e)
         in updateState (\<lambda>s. (with_edit previous s)\<lparr>st_canUndo := past \<noteq> [], st_canRedo := True,
                st_isDirty := isEditStateDirty previous (en_initialEditState e)\<rparr>)
              (e\<lparr>en_history := \<lparr>uh_past = past, uh_future = current # uh_future (en_history e)\<rparr>\<rparr>)))"

definition redo :: "engine \<Rightarrow> engine" where
  "redo e =
     (case uh_future (en_history e) of
        [] \<Rightarrow> e
      | next # future \<Rightarrow>
          updateState (\<lambda>s. (with_edit next s)\<lparr>st_canUndo := True, st_canRedo := future \<noteq> [],
              st_isDirty := isEditStateDirty next (en_initialEditState e)\<rparr>)
            (e\<lparr>en_history := \<lparr>uh_past = uh_past (en_history e) @ [extractEditState (en_state e)], uh_future = future\<rparr>\<rparr>))"

definition zoomIn :: "engine \<Rightarrow> engine" where
  "zoomIn e = updateState (\<lambda>s. s\<lparr>st_zoom := math_min ZOOM_MAX (st_zoom (en_state e) + ZOOM_STEP), st_zoomMode := Zoom_manual\<rparr>) e"

definition zoomOut :: "engine \<Rightarrow> engine" where
  "zoomOut e = updateState (\<lambda>s. s\<lparr>st_zoom := math_max ZOOM_MIN (st_zoom (en_state e) - ZOOM_STEP), st_zoomMode := Zoom_manual\<rparr>) e"

definition zoomToFit :: "engine \<Rightarrow> engine" where
  "zoomToFit e = updateState (\<lambda>s. s\<lparr>st_zoom := N 100, st_zoomMode := Zoom_fit, st_panX := N 0, st_panY := N 0\<rparr>) e"

definition setZoom :: "jsnum \<Rightarrow> engine \<Rightarrow> engine" where
  "setZoom level e = updateState (\<lambda>s. s\<lparr>st_zoom := math_max ZOOM_MIN (math_min ZOOM_MAX level), st_zoomMode := Zoom_manual\<rparr>) e"

definition enterCropMode :: "engine \<Rightarrow> engine" where
  "enterCropMode e = updateState (\<lambda>s. s\<lparr>st_mode := Mode_crop\<rparr>) e"

definition exitCropMode :: "engine \<Rightarrow> engine" where
  "exitCropMode e = updateState (\<lambda>s. s\<lparr>st_mode := Mode_view\<rparr>) e"

definition setColors :: "crop_colors \<Rightarrow> engine \<Rightarrow> engine" where
  "setColors colors e = markDirty (e\<lparr>en_userColors := Some colors, en_colors := Some colors\<rparr>)"

section \<open>Pointer events\<close>

text \<open>A pointer event, with the position of the canvas on the screen at that moment.\<close>

record pointer_event =
  pe_pointerId :: nat
  pe_button :: int
  pe_altKey :: bool
  pe_clientX :: jsnum
  pe_clientY :: jsnum
  pe_left :: jsnum
  pe_top :: jsnum

definition screenToCropSpace :: "pointer_event \<Rightarrow> engine \<Rightarrow> (jsnum \<times> jsnum) option" where
  "screenToCropSpace ev e =
     (if en_canvas e = None then None
      else
        (let screenX = pe_clientX ev - pe_left ev; screenY = pe_clientY ev - pe_top ev
         in Some ((screenX - en_viewportOffsetX e) / en_viewportScale e - ed_cropWidth (en_state e) / N 2,
                  (screenY - en_viewportOffsetY e) / en_viewportScale e - ed_cropHeight (en_state e) / N 2)))"

definition setPointerCapture :: "nat \<Rightarrow> engine \<Rightarrow> engine" where
  "setPointerCapture i e = (if en_canvas e = None then e else e\<lparr>en_captured := List.insert i (en_captured e)\<rparr>)"

definition releasePointerCapture :: "nat \<Rightarrow> engine \<Rightarrow> engine" where
  "releasePointerCapture i e = (if en_canvas e = None then e else e\<lparr>en_captured := removeAll i (en_captured e)\<rparr>)"

definition hit_handle :: "pointer_event \<Rightarrow> engine \<Rightarrow> drag_handle option" where
  "hit_handle ev e =
     (case screenToCropSpace ev e of
        None \<Rightarrow> None
      | Some (x, y) \<Rightarrow> hitTestHandles x y (ed_cropWidth (en_state e)) (ed_cropHeight (en_state e)) (N 16 / en_viewportScale e))"

definition onPointerDown :: "pointer_event \<Rightarrow> engine \<Rightarrow> engine" where
  "onPointerDown ev e =
     (let s = en_state e in
      if st_imageStatus s \<noteq> Img_loaded \<or> st_mode s \<noteq> Mode_crop then e
      else if (pe_button ev = 1 \<or> pe_button ev = 0 \<and> pe_altKey ev) \<and> st_zoomMode s = Zoom_manual \<and> N 100 < st_zoom s then
        updateState (\<lambda>s. s\<lparr>st_isPanning := True\<rparr>)
          ((setPointerCapture (pe_pointerId ev) e)\<lparr>en_panOrigin := Some
            \<lparr>po_pointerX = pe_clientX ev, po_pointerY = pe_clientY ev, po_offsetX = st_panX s, po_offsetY = st_panY s\<rparr>\<rparr>)
      else
        (case hit_handle ev e of
           None \<Rightarrow> e
         | Some handle \<Rightarrow>
             updateState (\<lambda>s. s\<lparr>st_isDragging := True, st_activeHandle := Some handle\<rparr>)
               ((setPointerCapture (pe_pointerId ev) e)
                 \<lparr>en_preDragEditState := Some (extractEditState s),
                  en_dragOrigin := Some \<lparr>do_handle = handle, do_screenX = pe_clientX ev, do_screenY = pe_clientY ev,
                    do_originalEditState = extractEditState s\<rparr>\<rparr>)))"

text \<open>The state while the image is moved, and while a handle is dragged.\<close>

definition drag_move :: "jsnum \<Rightarrow> jsnum \<Rightarrow> edit_state \<Rightarrow> editor_state \<Rightarrow> editor_state" where
  "drag_move dx dy orig s =
     (let angle = totalAngleRad (ed_rotation s) (ed_straighten s);
          (maxTx, maxTy) = computeTranslationBounds (ed_cropWidth s) (ed_cropHeight s)
             (st_naturalWidth s) (st_naturalHeight s) (ed_scale s) angle;
          (tx, ty) = clampTranslation (ed_tx orig + dx) (ed_ty orig + dy) maxTx maxTy
      in s\<lparr>ed_tx := tx, ed_ty := ty\<rparr>)"

definition keep_ratio :: "jsnum option \<Rightarrow> jsnum \<Rightarrow> jsnum \<Rightarrow> jsnum \<times> jsnum" where
  "keep_ratio ratio cropW cropH =
     (case ratio of
        None \<Rightarrow> (cropW, cropH)
      | Some r \<Rightarrow> if r < cropW / cropH then (cropH * r, cropH) else (cropW, cropW / r))"

definition drag_resize :: "drag_handle \<Rightarrow> jsnum \<Rightarrow> jsnum \<Rightarrow> edit_state \<Rightarrow> editor_state \<Rightarrow> editor_state" where
  "drag_resize handle dx dy orig s =
     (let angle = totalAngleRad (ed_rotation s) (ed_straighten s);
          ratio = Option.bind (ed_activeTemplate orig) ct_ratio;
          (cropW, cropH) = resizeCropFromHandle handle dx dy (ed_cropWidth orig) (ed_cropHeight orig) ratio;
          iw = st_naturalWidth s; ih = st_naturalHeight s;
          (cropW, cropH) = keep_ratio ratio (math_min cropW iw) (math_min cropH ih);
          newMinScale = computeMinScale cropW cropH iw ih angle;
          scale = math_max newMinScale (if ed_scale orig < ed_scale s then ed_scale s else newMinScale);
          (maxTx, maxTy) = computeTranslationBounds cropW cropH iw ih scale angle;
          (tx, ty) = clampTranslation (ed_tx s) (ed_ty s) maxTx maxTy
      in s\<lparr>ed_cropWidth := cropW, ed_cropHeight := cropH, ed_scale := scale, ed_tx := tx, ed_ty := ty\<rparr>)"

definition drag :: "drag_origin \<Rightarrow> pointer_event \<Rightarrow> engine \<Rightarrow> engine" where
  "drag org ev e =
     (let dx = (pe_clientX ev - do_screenX org) / en_viewportScale e;
          dy = (pe_clientY ev - do_screenY org) / en_viewportScale e;
          orig = do_originalEditState org;
          s = (if do_handle org = H_move then drag_move dx dy orig (en_state e)
               else drag_resize (do_handle org) dx dy orig (en_state e))
      in (markDirty (e\<lparr>en_state := s\<rparr>))\<lparr>en_calls := en_calls e @ (if en_onChange e then [Changed s] else [])\<rparr>)"

definition onPointerMove :: "pointer_event \<Rightarrow> engine \<Rightarrow> engine" where
  "onPointerMove ev e =
     (case (if st_isPanning (en_state e) then en_panOrigin e else None) of
        Some org \<Rightarrow>
          updateState (\<lambda>s. s\<lparr>st_panX := po_offsetX org + (pe_clientX ev - po_pointerX org),
             st_panY := po_offsetY org + (pe_clientY ev - po_pointerY org)\<rparr>) e
      | None \<Rightarrow>
          (case en_dragOrigin e of
             Some org \<Rightarrow> drag org ev e
           | None \<Rightarrow>
               if st_imageStatus (en_state e) \<noteq> Img_loaded \<or> st_mode (en_state e) \<noteq> Mode_crop \<or> en_canvas e = None then e
               else e\<lparr>en_cursor := (case hit_handle ev e of Some h \<Rightarrow> CURSOR_MAP h | None \<Rightarrow> ''default'')\<rparr>))"

definition onPointerUp :: "pointer_event \<Rightarrow> engine \<Rightarrow> engine" where
  "onPointerUp ev e0 =
     (let e = releasePointerCapture (pe_pointerId ev) e0 in
      if st_isPanning (en_state e) then updateState (\<lambda>s. s\<lparr>st_isPanning := False\<rparr>) (e\<lparr>en_panOrigin := None\<rparr>)
      else if en_dragOrigin e \<noteq> None then
        (let preDrag = or_default (en_preDragEditState e) (en_initialEditState e);
             editState = extractEditState (en_state e)
         in updateState (\<lambda>s. s\<lparr>st_isDragging := False, st_activeHandle := None, st_canUndo := True, st_canRedo := False,
                st_isDirty := isEditStateDirty editState (en_initialEditState e)\<rparr>)
              (e\<lparr>en_dragOrigin := None, en_preDragEditState := None,
                 en_history := pushHistory (en_history e) preDrag (en_maxHistory e)\<rparr>))
      else e)"

section \<open>What the operations keep\<close>

lemma extractEditState_eq:
  "extractEditState s = \<lparr>ed_cropWidth = ed_cropWidth s, ed_cropHeight = ed_cropHeight s, ed_rotation = ed_rotation s,
     ed_straighten = ed_straighten s, ed_scale = ed_scale s, ed_tx = ed_tx s, ed_ty = ed_ty s,
     ed_flipHorizontal = ed_flipHorizontal s, ed_flipVertical = ed_flipVertical s,
     ed_activeTemplate = ed_activeTemplate s, ed_resizeMode = ed_resizeMode s\<rparr>"
  by (simp add: extractEditState_def edit_state.truncate_def)

text \<open>The selectors of \<open>with_edit d s\<close>: the edit fields are those of \<open>d\<close>, the others those of \<open>s\<close>.\<close>

lemma with_edit_select [simp]:
  "ed_cropWidth (with_edit d s) = ed_cropWidth d" "ed_cropHeight (with_edit d s) = ed_cropHeight d"
  "ed_rotation (with_edit d s) = ed_rotation d" "ed_straighten (with_edit d s) = ed_straighten d"
  "ed_scale (with_edit d s) = ed_scale d" "ed_tx (with_edit d s) = ed_tx d" "ed_ty (with_edit d s) = ed_ty d"
  "ed_flipHorizontal (with_edit d s) = ed_flipHorizontal d" "ed_flipVertical (with_edit d s) = ed_flipVertical d"
  "ed_activeTemplate (with_edit d s) = ed_activeTemplate d" "ed_resizeMode (with_edit d s) = ed_resizeMode d"
  by (simp_all add: with_edit_def edit_state.extend_def)

lemma with_edit_more [simp]:
  "st_src (with_edit d s) = st_src s" "st_imageStatus (with_edit d s) = st_imageStatus s"
  "st_naturalWidth (with_edit d s) = st_naturalWidth s" "st_naturalHeight (with_edit d s) = st_naturalHeight s"
  "st_isDragging (with_edit d s) = st_isDragging s" "st_isPanning (with_edit d s) = st_isPanning s"
  "st_mode (with_edit d s) = st_mode s" "st_zoom (with_edit d s) = st_zoom s" "st_zoomMode (with_edit d s) = st_zoomMode s"
  by (cases s; simp add: with_edit_def edit_state.extend_def)+

lemma extract_with_edit [simp]: "extractEditState (with_edit d s) = d"
  by (simp add: extractEditState_eq)

lemma extract_status [simp]:
  "extractEditState (s\<lparr>st_src := a\<rparr>) = extractEditState s" "extractEditState (s\<lparr>st_imageStatus := b\<rparr>) = extractEditState s"
  "extractEditState (s\<lparr>st_imageError := c\<rparr>) = extractEditState s" "extractEditState (s\<lparr>st_naturalWidth := d\<rparr>) = extractEditState s"
  "extractEditState (s\<lparr>st_naturalHeight := d\<rparr>) = extractEditState s" "extractEditState (s\<lparr>st_isDragging := p\<rparr>) = extractEditState s"
  "extractEditState (s\<lparr>st_activeHandle := q\<rparr>) = extractEditState s" "extractEditState (s\<lparr>st_canUndo := p\<rparr>) = extractEditState s"
  "extractEditState (s\<lparr>st_canRedo := p\<rparr>) = extractEditState s" "extractEditState (s\<lparr>st_isDirty := p\<rparr>) = extractEditState s"
  "extractEditState (s\<lparr>st_zoom := d\<rparr>) = extractEditState s" "extractEditState (s\<lparr>st_zoomMode := z\<rparr>) = extractEditState s"
  "extractEditState (s\<lparr>st_panX := d\<rparr>) = extractEditState s" "extractEditState (s\<lparr>st_panY := d\<rparr>) = extractEditState s"
  "extractEditState (s\<lparr>st_isPanning := p\<rparr>) = extractEditState s" "extractEditState (s\<lparr>st_mode := m\<rparr>) = extractEditState s"
  by (simp_all add: extractEditState_eq)

lemma updateState_select [simp]:
  "en_state (updateState f e) = f (en_state e)" "en_history (updateState f e) = en_history e"
  "en_initialEditState (updateState f e) = en_initialEditState e" "en_maxHistory (updateState f e) = en_maxHistory e"
  "en_preDragEditState (updateState f e) = en_preDragEditState e" "en_dragOrigin (updateState f e) = en_dragOrigin e"
  "en_preStraightenEditState (updateState f e) = en_preStraightenEditState e" "en_panOrigin (updateState f e) = en_panOrigin e"
  "en_canvas (updateState f e) = en_canvas e" "en_viewportScale (updateState f e) = en_viewportScale e"
  "en_viewportOffsetX (updateState f e) = en_viewportOffsetX e" "en_viewportOffsetY (updateState f e) = en_viewportOffsetY e"
  "en_loadCancelled (updateState f e) = en_loadCancelled e" "en_image (updateState f e) = en_image e"
  "en_mounted (updateState f e) = en_mounted e" "en_container (updateState f e) = en_container e"
  "en_rafId (updateState f e) = en_rafId e" "en_ctx (updateState f e) = en_ctx e"
  "en_userColors (updateState f e) = en_userColors e" "en_pendingSrc (updateState f e) = en_pendingSrc e"
  by (simp_all add: updateState_def markDirty_def Let_def)

text \<open>The parts of the engine that an edit leaves alone.\<close>

definition frame_of :: "engine \<Rightarrow> nat \<times> edit_state \<times> edit_state option \<times> edit_state option \<times> drag_origin option \<times> pan_origin option
    \<times> nat option \<times> jsnum \<times> jsnum \<times> jsnum \<times> bool" where
  "frame_of e = (en_maxHistory e, en_initialEditState e, en_preStraightenEditState e, en_preDragEditState e, en_dragOrigin e,
     en_panOrigin e, en_canvas e, en_viewportScale e, en_viewportOffsetX e, en_viewportOffsetY e, en_loadCancelled e)"

lemma frame_updateState [simp]: "frame_of (updateState f e) = frame_of e"
  by (simp add: frame_of_def)

lemma pushHistoryAndUpdate_select [simp]:
  "frame_of (pushHistoryAndUpdate f e) = frame_of e"
  "en_history (pushHistoryAndUpdate f e) = pushHistory (en_history e) (extractEditState (en_state e)) (en_maxHistory e)"
  "extractEditState (en_state (pushHistoryAndUpdate f e)) = extractEditState (f (en_state e))"
  by (simp_all add: pushHistoryAndUpdate_def Let_def) (simp add: frame_of_def)

lemma pushHistoryAndUpdate_flags:
  "st_canUndo (en_state (pushHistoryAndUpdate f e))" "\<not> st_canRedo (en_state (pushHistoryAndUpdate f e))"
  "st_isDirty (en_state (pushHistoryAndUpdate f e)) =
     isEditStateDirty (extractEditState (f (en_state e))) (en_initialEditState e)"
  by (simp_all add: pushHistoryAndUpdate_def Let_def)

lemma pushHistory_future [simp]: "uh_future (pushHistory h d n) = []"
  by (simp add: pushHistory_def Let_def)

section \<open>Undo and redo\<close>

text \<open>
  The contract of an undo history: undo moves the present into the future and the last past
  state into the present, redo the other way round, and both do nothing at the end.
\<close>

locale undo_redo =
  fixes current :: "'e \<Rightarrow> 'd" and past future :: "'e \<Rightarrow> 'd list" and undo_op redo_op :: "'e \<Rightarrow> 'e"
  assumes undo_step: "past e = ps @ [p] \<Longrightarrow>
      current (undo_op e) = p \<and> past (undo_op e) = ps \<and> future (undo_op e) = current e # future e"
    and redo_step: "future e = f # fs \<Longrightarrow>
      current (redo_op e) = f \<and> past (redo_op e) = past e @ [current e] \<and> future (redo_op e) = fs"
    and undo_stop: "past e = [] \<Longrightarrow> undo_op e = e"
    and redo_stop: "future e = [] \<Longrightarrow> redo_op e = e"
begin

lemma undo_many:
  assumes "past e = ps @ qs"
  shows "past ((undo_op ^^ length qs) e) = ps
    \<and> current ((undo_op ^^ length qs) e) # future ((undo_op ^^ length qs) e) = qs @ current e # future e"
  using assms
proof (induction qs arbitrary: e rule: rev_induct)
  case (snoc q qs)
  have s: "current (undo_op e) = q" "past (undo_op e) = ps @ qs" "future (undo_op e) = current e # future e"
    using undo_step [of e "ps @ qs" q] snoc.prems by simp_all
  then show ?case
    using snoc.IH [OF s(2)] by (simp add: funpow_Suc_right del: funpow.simps)
qed simp

lemma redo_many:
  assumes "future e = fs @ gs"
  shows "past ((redo_op ^^ length fs) e) @ [current ((redo_op ^^ length fs) e)] = past e @ current e # fs
    \<and> future ((redo_op ^^ length fs) e) = gs"
  using assms
proof (induction fs arbitrary: e)
  case (Cons f fs)
  have s: "current (redo_op e) = f" "past (redo_op e) = past e @ [current e]" "future (redo_op e) = fs @ gs"
    using redo_step [of e f "fs @ gs"] Cons.prems by simp_all
  then show ?case
    using Cons.IH [OF s(3)] by (simp add: funpow_Suc_right del: funpow.simps)
qed simp

text \<open>Undoing the last \<open>n\<close> changes and redoing them again.\<close>

lemma undo_redo_many:
  assumes "past e = ps @ qs" and "u = (undo_op ^^ length qs) e" and "r = (redo_op ^^ length qs) u"
  shows "current u = hd (qs @ [current e]) \<and> past u = ps
    \<and> current r = current e \<and> past r = past e \<and> future r = future e"
proof -
  have u: "past u = ps" "current u # future u = qs @ current e # future e"
    using undo_many [OF assms(1)] assms(2) by simp_all
  have "hd (qs @ current e # future e) = hd (qs @ [current e])" by (cases qs) simp_all
  then have cu: "current u = hd (qs @ [current e])" using u(2) by (metis list.sel(1))
  obtain fs where fs: "future u = fs @ future e" "length fs = length qs" "current u # fs = qs @ [current e]"
    using u(2) by (cases qs) (auto simp: that)
  have "past r @ [current r] = past u @ current u # fs" "future r = future e"
    using redo_many [OF fs(1)] assms(3) fs(2) by simp_all
  then show ?thesis using u(1) cu fs(3) assms(1) by simp
qed

end

abbreviation cur :: "engine \<Rightarrow> edit_state" where "cur e \<equiv> extractEditState (en_state e)"

abbreviation past :: "engine \<Rightarrow> edit_state list" where "past e \<equiv> uh_past (en_history e)"

abbreviation future :: "engine \<Rightarrow> edit_state list" where "future e \<equiv> uh_future (en_history e)"

interpretation engine_history: undo_redo cur past future undo redo
proof unfold_locales
  fix e ps p assume "past e = ps @ [p]"
  then show "cur (undo e) = p \<and> past (undo e) = ps \<and> future (undo e) = cur e # future e"
    by (simp add: undo_def Let_def)
next
  fix e f fs assume "future e = f # fs"
  then show "cur (redo e) = f \<and> past (redo e) = past e @ [cur e] \<and> future (redo e) = fs"
    by (simp add: redo_def)
qed (simp_all add: undo_def redo_def)

text \<open>
  The edits of a user, each one step of the history: the buttons, and the two gestures of
  several events, moving the straighten slider and dragging with the pointer.
\<close>

datatype edit_action =
  A_resize_mode resize_mode | A_clockwise | A_counterclockwise | A_flip_h | A_flip_v
| A_template "crop_template option" | A_reset
| A_straighten jsnum "jsnum list"
| A_drag pointer_event "pointer_event list" pointer_event

fun perform :: "edit_action \<Rightarrow> engine \<Rightarrow> engine" where
  "perform (A_resize_mode m) e = setResizeMode m e"
| "perform A_clockwise e = rotateClockwise e"
| "perform A_counterclockwise e = rotateCounterClockwise e"
| "perform A_flip_h e = toggleFlipHorizontal e"
| "perform A_flip_v e = toggleFlipVertical e"
| "perform (A_template t) e = applyTemplate t e"
| "perform A_reset e = reset e"
| "perform (A_straighten d ds) e = commitStraighten (fold setStraighten ds (setStraighten d e))"
| "perform (A_drag down moves up) e = onPointerUp up (fold onPointerMove moves (onPointerDown down e))"

text \<open>A press that begins a drag: on a handle or inside the window, in crop mode, and not the pan gesture.\<close>

definition starts_drag :: "pointer_event \<Rightarrow> engine \<Rightarrow> bool" where
  "starts_drag ev e \<longleftrightarrow> st_imageStatus (en_state e) = Img_loaded \<and> st_mode (en_state e) = Mode_crop
     \<and> \<not> ((pe_button ev = 1 \<or> pe_button ev = 0 \<and> pe_altKey ev) \<and> st_zoomMode (en_state e) = Zoom_manual \<and> N 100 < st_zoom (en_state e))
     \<and> hit_handle ev e \<noteq> None"

fun performable :: "edit_action list \<Rightarrow> engine \<Rightarrow> bool" where
  "performable [] e = True"
| "performable (a # as) e \<longleftrightarrow> (case a of A_drag down moves up \<Rightarrow> starts_drag down e | _ \<Rightarrow> True) \<and> performable as (perform a e)"

text \<open>No gesture is under way.\<close>

definition calm :: "engine \<Rightarrow> bool" where
  "calm e \<longleftrightarrow> en_preStraightenEditState e = None \<and> en_dragOrigin e = None \<and> \<not> st_isPanning (en_state e)"

text \<open>One step of the history: the state before is pushed.\<close>

definition one_step :: "engine \<Rightarrow> engine \<Rightarrow> bool" where
  "one_step e e' \<longleftrightarrow> en_history e' = pushHistory (en_history e) (cur e) (en_maxHistory e) \<and> en_maxHistory e' = en_maxHistory e \<and> calm e'"

lemma calm_push:
  assumes "calm e" and "\<And>s. st_isPanning (f s) = st_isPanning s"
  shows "one_step e (pushHistoryAndUpdate f e)"
proof -
  have "frame_of (pushHistoryAndUpdate f e) = frame_of e" by simp
  moreover have "st_isPanning (en_state (pushHistoryAndUpdate f e)) = st_isPanning (en_state e)"
    using assms(2) by (simp add: pushHistoryAndUpdate_def Let_def)
  ultimately show ?thesis using assms(1) by (simp add: one_step_def calm_def frame_of_def)
qed

lemma rotation_step:
  assumes "calm e"
  shows "one_step e (applyRotationChange r d True e)"
  using assms unfolding applyRotationChange_def Let_def
  by (auto intro!: calm_push split: prod.splits)

lemma template_step: "calm e \<Longrightarrow> one_step e (applyTemplate t e)"
  unfolding applyTemplate_def Let_def by (auto intro!: calm_push split: prod.splits)

text \<open>The straighten slider: its moves keep the history and remember the state at the start.\<close>

lemma rotation_quiet:
  "en_history (applyRotationChange r d False e) = en_history e" "frame_of (applyRotationChange r d False e) = frame_of e"
  "st_isPanning (en_state (applyRotationChange r d False e)) = st_isPanning (en_state e)"
  by (simp_all add: applyRotationChange_def Let_def split: prod.splits)

definition straightening :: "edit_state \<Rightarrow> engine \<Rightarrow> engine \<Rightarrow> bool" where
  "straightening pre e e' \<longleftrightarrow> en_preStraightenEditState e' = Some pre \<and> en_history e' = en_history e
     \<and> en_maxHistory e' = en_maxHistory e \<and> en_dragOrigin e' = en_dragOrigin e \<and> st_isPanning (en_state e') = st_isPanning (en_state e)"

lemma setStraighten_first:
  assumes "en_preStraightenEditState e = None"
  shows "straightening (cur e) e (setStraighten d e)"
  using rotation_quiet [of "ed_rotation (en_state e)" "math_max (N (- 45)) (math_min (N 45) d)"
      "e\<lparr>en_preStraightenEditState := Some (cur e)\<rparr>"] assms
  by (simp add: setStraighten_def straightening_def frame_of_def Let_def)

lemma setStraighten_next:
  assumes "straightening pre e e'"
  shows "straightening pre e (setStraighten d e')"
  using rotation_quiet [of "ed_rotation (en_state e')" "math_max (N (- 45)) (math_min (N 45) d)" e'] assms
  by (simp add: setStraighten_def straightening_def frame_of_def Let_def)

lemma straighten_step:
  assumes "calm e"
  shows "one_step e (commitStraighten (fold setStraighten ds (setStraighten d e)))"
proof -
  have "straightening (cur e) e (fold setStraighten ds e')" if "straightening (cur e) e e'" for e'
    using that by (induction ds arbitrary: e') (auto simp: setStraighten_next)
  then have "straightening (cur e) e (fold setStraighten ds (setStraighten d e))"
    using assms setStraighten_first by (simp add: calm_def)
  then show ?thesis
    using assms by (simp add: straightening_def commitStraighten_def one_step_def calm_def)
qed

text \<open>A drag: its moves keep the history and remember the state at the press.\<close>

definition dragging :: "edit_state \<Rightarrow> engine \<Rightarrow> engine \<Rightarrow> bool" where
  "dragging pre e e' \<longleftrightarrow> en_preDragEditState e' = Some pre \<and> en_dragOrigin e' \<noteq> None \<and> en_history e' = en_history e
     \<and> en_maxHistory e' = en_maxHistory e \<and> en_preStraightenEditState e' = en_preStraightenEditState e \<and> \<not> st_isPanning (en_state e')"

lemma setPointerCapture_select [simp]:
  "en_state (setPointerCapture i e) = en_state e" "en_history (setPointerCapture i e) = en_history e"
  "frame_of (setPointerCapture i e) = frame_of e"
  by (simp_all add: setPointerCapture_def frame_of_def)

lemma releasePointerCapture_select [simp]:
  "en_state (releasePointerCapture i e) = en_state e" "en_history (releasePointerCapture i e) = en_history e"
  "frame_of (releasePointerCapture i e) = frame_of e"
  by (simp_all add: releasePointerCapture_def frame_of_def)

lemma setPointerCapture_fields [simp]:
  "en_maxHistory (setPointerCapture i e) = en_maxHistory e"
  "en_preStraightenEditState (setPointerCapture i e) = en_preStraightenEditState e"
  "en_viewportScale (setPointerCapture i e) = en_viewportScale e"
  "en_initialEditState (setPointerCapture i e) = en_initialEditState e"
  "en_canvas (setPointerCapture i e) = en_canvas e" "en_loadCancelled (setPointerCapture i e) = en_loadCancelled e"
  using setPointerCapture_select(3) [of i e] by (simp_all add: frame_of_def)

lemma releasePointerCapture_fields [simp]:
  "en_maxHistory (releasePointerCapture i e) = en_maxHistory e"
  "en_preStraightenEditState (releasePointerCapture i e) = en_preStraightenEditState e"
  "en_preDragEditState (releasePointerCapture i e) = en_preDragEditState e"
  "en_dragOrigin (releasePointerCapture i e) = en_dragOrigin e"
  "en_viewportScale (releasePointerCapture i e) = en_viewportScale e"
  "en_initialEditState (releasePointerCapture i e) = en_initialEditState e"
  using releasePointerCapture_select(3) [of i e] by (simp_all add: frame_of_def)

lemma drag_state_panning [simp]:
  "st_isPanning (drag_move dx dy orig s) = st_isPanning s" "st_isPanning (drag_resize h dx dy orig s) = st_isPanning s"
  by (simp_all add: drag_move_def drag_resize_def Let_def split: prod.splits)

lemma drag_select:
  "en_history (drag org ev e) = en_history e" "frame_of (drag org ev e) = frame_of e"
  "st_isPanning (en_state (drag org ev e)) = st_isPanning (en_state e)"
  by (simp_all add: drag_def markDirty_def frame_of_def Let_def)

lemma onPointerDown_starts:
  assumes "starts_drag ev e" and "\<not> st_isPanning (en_state e)"
  shows "dragging (cur e) e (onPointerDown ev e)"
proof -
  obtain h where h: "hit_handle ev e = Some h" using assms(1) by (auto simp: starts_drag_def)
  show ?thesis
    using assms h by (auto simp: starts_drag_def onPointerDown_def dragging_def Let_def)
qed

lemma onPointerMove_drags:
  assumes "dragging pre e e'"
  shows "dragging pre e (onPointerMove ev e')"
proof -
  obtain org where "en_dragOrigin e' = Some org" using assms by (auto simp: dragging_def)
  then have "onPointerMove ev e' = drag org ev e'"
    using assms by (simp add: onPointerMove_def dragging_def)
  then show ?thesis
    using drag_select [of org ev e'] assms by (simp add: dragging_def frame_of_def)
qed

lemma drag_step:
  assumes "calm e" and "starts_drag down e"
  shows "one_step e (onPointerUp up (fold onPointerMove moves (onPointerDown down e)))"
proof -
  have "dragging (cur e) e (fold onPointerMove moves e')" if "dragging (cur e) e e'" for e'
    using that by (induction moves arbitrary: e') (auto simp: onPointerMove_drags)
  then have "dragging (cur e) e (fold onPointerMove moves (onPointerDown down e))"
    using assms onPointerDown_starts by (simp add: calm_def)
  then show ?thesis
    using assms(1) by (auto simp: dragging_def onPointerUp_def one_step_def calm_def Let_def)
qed

lemma perform_step:
  assumes "calm e" and "performable (a # as) e"
  shows "one_step e (perform a e)"
  using assms
  by (cases a) (auto simp: setResizeMode_def rotateClockwise_def rotateCounterClockwise_def toggleFlipHorizontal_def
      toggleFlipVertical_def reset_def rotation_step template_step straighten_step drag_step intro!: calm_push)

lemma push_suffix:
  assumes "uh_past h = ps @ qs" and "length qs < m"
  shows "\<exists>ps'. uh_past (pushHistory h d m) = ps' @ qs @ [d]"
  using assms by (cases ps) (auto simp: pushHistory_def Let_def)

lemma performable_append: "performable (as @ bs) e \<longleftrightarrow> performable as e \<and> performable bs (fold perform as e)"
  by (induction as arbitrary: e) auto

lemma perform_chain:
  assumes "calm e" and "performable as e" and "length as \<le> en_maxHistory e"
  shows "calm (fold perform as e) \<and> en_maxHistory (fold perform as e) = en_maxHistory e
    \<and> (\<exists>ps qs. past (fold perform as e) = ps @ qs \<and> length qs = length as \<and> hd (qs @ [cur (fold perform as e)]) = cur e)"
  using assms
proof (induction as rule: rev_induct)
  case (snoc a as)
  let ?e = "fold perform as e"
  obtain ps qs where q: "past ?e = ps @ qs" "length qs = length as" "hd (qs @ [cur ?e]) = cur e"
    and c: "calm ?e" "en_maxHistory ?e = en_maxHistory e"
    using snoc by (auto simp: performable_append)
  have st: "one_step ?e (perform a ?e)"
    using perform_step [of ?e a "[]"] snoc.prems c by (simp add: performable_append)
  have "\<exists>ps'. past (perform a ?e) = ps' @ qs @ [cur ?e]"
    using push_suffix [OF q(1), of "en_maxHistory ?e"] st q(2) snoc.prems(3) c by (simp add: one_step_def)
  then obtain ps' where p: "past (perform a ?e) = ps' @ (qs @ [cur ?e])" by auto
  have "hd ((qs @ [cur ?e]) @ [cur (perform a ?e)]) = cur e" using q(3) by (cases qs) simp_all
  then have "\<exists>ps qs'. past (perform a ?e) = ps @ qs' \<and> length qs' = length (as @ [a]) \<and> hd (qs' @ [cur (perform a ?e)]) = cur e"
    using p q(2) by (intro exI [of _ ps'] exI [of _ "qs @ [cur ?e]"]) simp
  then show ?case using st c by (simp add: one_step_def)
qed auto

text \<open>
  C7. Undo and redo: after any sequence of edits (buttons, templates, straighten gestures and
  drags with any pointer moves in between), at most as many as the history keeps, as many
  undos restore the edit state from before the sequence exactly, and as many redos then bring
  back the edited state with the same history.
\<close>

theorem undo_redo_edits:
  assumes "calm e" and "performable as e" and "length as \<le> en_maxHistory e"
    and "e' = fold perform as e" and "u = (undo ^^ length as) e'" and "r = (redo ^^ length as) u"
  shows "cur u = cur e \<and> cur r = cur e' \<and> past r = past e' \<and> future r = future e'"
proof -
  obtain ps qs where q: "past e' = ps @ qs" "length qs = length as" "hd (qs @ [cur e']) = cur e"
    using perform_chain [OF assms(1-3)] assms(4) by auto
  show ?thesis
    using engine_history.undo_redo_many [OF q(1), of u r] assms(5,6) q by simp
qed

definition sample_options :: engine_options where
  "sample_options = \<lparr>op_src = None, op_initialCropWidth = None, op_initialCropHeight = None, op_templates = None,
     op_defaultTemplate = None, op_maxHistory = None, op_onChange = True, op_onEditChange = True, op_colors = None\<rparr>"

definition sample_engine :: engine where
  "sample_engine = img_onload ''a.png'' (N 400) (N 200) (loadImage ''a.png'' (new_engine sample_options))"

lemma sample_engine_calm: "calm sample_engine" "en_maxHistory sample_engine = 50"
  by (simp_all add: sample_engine_def img_onload_def loadImage_def calm_def Let_def)
    (simp_all add: new_engine_def sample_options_def MAX_HISTORY_def Let_def edit_state.extend_def)

theorem undo_redo_edits_witness:
  "cur (undo (undo (undo (reset (commitStraighten (setStraighten (N 7) (rotateClockwise sample_engine)))))))
   = cur sample_engine"
proof -
  let ?as = "[A_clockwise, A_straighten (N 7) [], A_reset]"
  have "cur ((undo ^^ length ?as) (fold perform ?as sample_engine)) = cur sample_engine"
    using undo_redo_edits [OF sample_engine_calm(1), of ?as] sample_engine_calm(2) by simp
  then show ?thesis by (simp add: eval_nat_numeral)
qed

end
