(* ===== verification/Editor_Render.thy ===== *)
theory Editor_Render
  imports Editor_Engine
begin

text \<open>
  Drawing and the page around the editor (\<^verbatim>\<open>packages/image-editor/src/renderer.ts\<close> and the mounting
  and rendering part of \<^verbatim>\<open>engine.ts\<close>). A drawing is the list of the calls on the canvas context.
  The page keeps what mounting creates: the canvas elements in their containers, the event
  listeners, the observers (named by the canvas of the mount that made them) and the animation
  frames that are still to come.
\<close>

section \<open>The overlay renderer\<close>

datatype draw_op =
  Fill_style string | Stroke_style string | Line_width jsnum
| Fill_rect jsnum jsnum jsnum jsnum | Stroke_rect jsnum jsnum jsnum jsnum
| Begin_path | Close_path | Fill | Stroke | Clip | Rect jsnum jsnum jsnum jsnum
| Move_to jsnum jsnum | Line_to jsnum jsnum | Arc_to jsnum jsnum jsnum jsnum jsnum
| Quadratic_to jsnum jsnum jsnum jsnum
| Save | Restore | Translate jsnum jsnum | Rotate jsnum | Scale jsnum jsnum
| Draw_image image jsnum jsnum
| Canvas_size jsnum jsnum jsnum jsnum

definition drawScreenOverlay ::
  "jsnum \<Rightarrow> jsnum \<Rightarrow> jsnum \<Rightarrow> jsnum \<Rightarrow> jsnum \<Rightarrow> jsnum \<Rightarrow> string \<Rightarrow> draw_op list" where
  "drawScreenOverlay containerWidth containerHeight cropScreenX cropScreenY cropScreenW cropScreenH overlayColor =
     [Fill_style overlayColor,
      Fill_rect (N 0) (N 0) containerWidth cropScreenY,
      Fill_rect (N 0) (cropScreenY + cropScreenH) containerWidth (containerHeight - cropScreenY - cropScreenH),
      Fill_rect (N 0) cropScreenY cropScreenX cropScreenH,
      Fill_rect (cropScreenX + cropScreenW) cropScreenY (containerWidth - cropScreenX - cropScreenW) cropScreenH]"

definition drawBorder :: "jsnum \<Rightarrow> jsnum \<Rightarrow> jsnum \<Rightarrow> jsnum \<Rightarrow> jsnum \<Rightarrow> string \<Rightarrow> draw_op list" where
  "drawBorder rx ry rw rh scale color =
     [Stroke_style color, Line_width (N (3 / 2) / scale), Stroke_rect rx ry rw rh]"

definition drawGrid :: "jsnum \<Rightarrow> jsnum \<Rightarrow> jsnum \<Rightarrow> jsnum \<Rightarrow> jsnum \<Rightarrow> string \<Rightarrow> draw_op list" where
  "drawGrid rx ry rw rh scale color =
     [Stroke_style color, Line_width (N 1 / scale)] @
     concat (map (\<lambda>i. let gx = rx + (rw * N i) / N 3; gy = ry + (rh * N i) / N 3 in
        [Begin_path, Move_to gx ry, Line_to gx (ry + rh), Stroke,
         Begin_path, Move_to rx gy, Line_to (rx + rw) gy, Stroke]) [1, 2])"

definition corner_handle :: "jsnum \<Rightarrow> jsnum \<Rightarrow> jsnum \<Rightarrow> jsnum \<Rightarrow> string \<Rightarrow> jsnum \<times> jsnum \<times> jsnum \<times> jsnum \<Rightarrow> draw_op list" where
  "corner_handle len half r scale strokeColor c =
     (case c of (x, y, dx, dy) \<Rightarrow>
        let outerX = x - dx * half; outerY = y - dy * half;
            innerX = x + dx * half; innerY = y + dy * half;
            hTip = x + dx * len; vTip = y + dy * len
        in [Begin_path, Move_to innerX vTip,
            Arc_to outerX vTip outerX outerY r, Arc_to outerX outerY hTip outerY r, Arc_to hTip outerY hTip innerY r,
            Line_to hTip innerY, Line_to innerX innerY, Line_to innerX vTip, Close_path,
            Fill_style ''white'', Fill, Stroke_style strokeColor, Line_width (N 1 / scale), Stroke])"

definition drawCornerHandles ::
  "jsnum \<Rightarrow> jsnum \<Rightarrow> jsnum \<Rightarrow> jsnum \<Rightarrow> jsnum \<Rightarrow> string \<Rightarrow> string \<Rightarrow> draw_op list" where
  "drawCornerHandles rx ry rw rh scale fillColor strokeColor =
     (let len = math_min (math_min (N 18 / scale) (rw / N 5)) (rh / N 5);
          t = N 5 / scale;
          half = t / N 2;
          r = math_min half (N (5 / 2) / scale)
      in concat (map (corner_handle len half r scale strokeColor)
           [(rx, ry, N 1, N 1), (rx + rw, ry, N (- 1), N 1), (rx, ry + rh, N 1, N (- 1)), (rx + rw, ry + rh, N (- 1), N (- 1))]))"

definition drawRoundedRect :: "jsnum \<Rightarrow> jsnum \<Rightarrow> jsnum \<Rightarrow> jsnum \<Rightarrow> jsnum \<Rightarrow> draw_op list" where
  "drawRoundedRect x y w h r0 =
     (let r = math_min (math_min r0 (w / N 2)) (h / N 2)
      in [Move_to (x + r) y, Line_to (x + w - r) y, Quadratic_to (x + w) y (x + w) (y + r),
          Line_to (x + w) (y + h - r), Quadratic_to (x + w) (y + h) (x + w - r) (y + h),
          Line_to (x + r) (y + h), Quadratic_to x (y + h) x (y + h - r),
          Line_to x (y + r), Quadratic_to x y (x + r) y, Close_path])"

definition drawEdgeHandles ::
  "jsnum \<Rightarrow> jsnum \<Rightarrow> jsnum \<Rightarrow> jsnum \<Rightarrow> jsnum \<Rightarrow> string \<Rightarrow> string \<Rightarrow> draw_op list" where
  "drawEdgeHandles rx ry rw rh scale fillColor strokeColor =
     (let barLen = math_min (math_min (N 22 / scale) (rw / N 5)) (rh / N 5);
          thickness = N 4 / scale;
          radius = thickness / N 2;
          edges =
            [(rx + rw / N 2 - barLen / N 2, ry - thickness / N 2, barLen, thickness),
             (rx + rw / N 2 - barLen / N 2, ry + rh - thickness / N 2, barLen, thickness),
             (rx - thickness / N 2, ry + rh / N 2 - barLen / N 2, thickness, barLen),
             (rx + rw - thickness / N 2, ry + rh / N 2 - barLen / N 2, thickness, barLen)]
      in concat (map (\<lambda>(x, y, w, h).
           Begin_path # drawRoundedRect x y w h radius @
           [Fill_style ''white'', Fill, Stroke_style strokeColor, Line_width (N 1 / scale), Stroke]) edges))"

definition drawControls :: "editor_state \<Rightarrow> jsnum \<Rightarrow> crop_colors \<Rightarrow> draw_op list" where
  "drawControls s scale colors =
     (let rx = N 0; ry = N 0; rw = ed_cropWidth s; rh = ed_cropHeight s
      in drawBorder rx ry rw rh scale (co_border colors) @
         drawGrid rx ry rw rh scale (co_grid colors) @
         drawCornerHandles rx ry rw rh scale (co_handle colors) (co_border colors) @
         drawEdgeHandles rx ry rw rh scale (co_handle colors) (co_border colors))"

section \<open>Rendering\<close>

text \<open>What the engine reads from the page: sizes, the device pixel ratio and the style sheet.\<close>

record surroundings =
  su_clientWidth :: jsnum
  su_clientHeight :: jsnum
  su_devicePixelRatio :: jsnum
  su_backgroundColor :: string
  su_property :: "string \<Rightarrow> string"

definition CANVAS_PADDING :: jsnum where "CANVAS_PADDING = N 16"

definition readColor :: "surroundings \<Rightarrow> string \<Rightarrow> string \<Rightarrow> string" where
  "readColor su name fallback =
     (let value = trim (su_property su name) in
      if value = [] then fallback
      else if startsWith value ''oklch'' then value
      else if is_digit (hd value) then ''oklch('' @ value @ '')''
      else value)"

definition readColorsFromCSS :: "surroundings \<Rightarrow> crop_colors" where
  "readColorsFromCSS su =
     \<lparr>co_canvas = (if su_backgroundColor su \<noteq> [] then su_backgroundColor su
        else readColor su ''--image-editor-canvas'' ''#f0f0f0''),
      co_border = readColor su ''--image-editor-crop-border'' ''#3b82f6'',
      co_handle = readColor su ''--image-editor-crop-handle'' ''#3b82f6'',
      co_grid = readColor su ''--image-editor-crop-grid'' ''rgba(120,120,120,0.4)'',
      co_overlay = readColor su ''--image-editor-crop-overlay'' ''rgba(0,0,0,0.5)''\<rparr>"

text \<open>The viewport: scale and position of the crop window on the screen.\<close>

definition viewport :: "surroundings \<Rightarrow> editor_state \<Rightarrow> jsnum \<times> jsnum \<times> jsnum" where
  "viewport su s =
     (let containerW = su_clientWidth su; containerH = su_clientHeight su;
          cw = ed_cropWidth s; ch = ed_cropHeight s;
          effectiveZoom = (if st_zoomMode s = Zoom_fit then N 100 else st_zoom s);
          drawW = containerW - CANVAS_PADDING * N 2;
          drawH = containerH - CANVAS_PADDING * N 2;
          vpScale = math_min (drawW / cw) (drawH / ch) * (effectiveZoom / N 100);
          cropScreenW = cw * vpScale;
          cropScreenH = ch * vpScale
      in (vpScale, (containerW - cropScreenW) / N 2 + num_or (st_panX s) (N 0),
          (containerH - cropScreenH) / N 2 + num_or (st_panY s) (N 0)))"

definition draw_transformed :: "image \<Rightarrow> editor_state \<Rightarrow> jsnum \<Rightarrow> jsnum \<Rightarrow> jsnum \<Rightarrow> jsnum \<Rightarrow> jsnum \<Rightarrow> draw_op list" where
  "draw_transformed pic s vpScale cropScreenX cropScreenY cropScreenW cropScreenH =
     [Translate (cropScreenX + cropScreenW / N 2 + ed_tx s * vpScale) (cropScreenY + cropScreenH / N 2 + ed_ty s * vpScale),
      Rotate (((N (of_int (deg (ed_rotation s))) + ed_straighten s) * N pi) / N 180),
      Scale ((if ed_flipHorizontal s then N (- 1) else N 1) * ed_scale s * vpScale)
            ((if ed_flipVertical s then N (- 1) else N 1) * ed_scale s * vpScale),
      Draw_image pic (- im_width pic / N 2) (- im_height pic / N 2),
      Restore]"

definition engine_render :: "surroundings \<Rightarrow> engine \<Rightarrow> engine \<times> draw_op list" where
  "engine_render su e =
     (case (en_canvas e, en_ctx e, en_image e, en_container e, en_colors e) of
        (Some _, True, Some pic, Some _, Some colors) \<Rightarrow>
          if st_imageStatus (en_state e) \<noteq> Img_loaded then (e, [])
          else
            (let s = en_state e;
                 dpr = num_or (su_devicePixelRatio su) (N 1);
                 containerW = su_clientWidth su; containerH = su_clientHeight su;
                 (vpScale, cropScreenX, cropScreenY) = viewport su s;
                 cropScreenW = ed_cropWidth s * vpScale;
                 cropScreenH = ed_cropHeight s * vpScale;
                 e' = e\<lparr>en_viewportScale := vpScale, en_viewportOffsetX := cropScreenX, en_viewportOffsetY := cropScreenY\<rparr>;
                 start = [Canvas_size (containerW * dpr) (containerH * dpr) containerW containerH, Scale dpr dpr,
                          Fill_style (co_canvas colors), Fill_rect (N 0) (N 0) containerW containerH];
                 picture = draw_transformed pic s vpScale cropScreenX cropScreenY cropScreenW cropScreenH
             in (e', start @
                  (if st_mode s = Mode_crop then
                     Save # picture @
                     drawScreenOverlay containerW containerH cropScreenX cropScreenY cropScreenW cropScreenH (co_overlay colors) @
                     [Save, Translate cropScreenX cropScreenY, Scale vpScale vpScale] @
                     drawControls s vpScale colors @ [Restore]
                   else
                     [Save, Begin_path, Rect cropScreenX cropScreenY cropScreenW cropScreenH, Clip] @ picture)))
      | _ \<Rightarrow> (e, []))"

section \<open>Mounting\<close>

record page_dom =
  pg_fresh :: nat
  pg_children :: "(nat \<times> nat) list"
  pg_listeners :: "(nat \<times> string) list"
  pg_resizeObservers :: "nat list"
  pg_themeObservers :: "nat list"
  pg_frames :: "nat list"

definition POINTER_EVENTS :: "string list" where
  "POINTER_EVENTS = [''pointerdown'', ''pointermove'', ''pointerup'', ''pointercancel'']"

definition requestAnimationFrame :: "engine \<times> page_dom \<Rightarrow> engine \<times> page_dom" where
  "requestAnimationFrame w =
     (case w of (e, p) \<Rightarrow>
        (e\<lparr>en_rafId := pg_fresh p\<rparr>, p\<lparr>pg_frames := pg_frames p @ [pg_fresh p], pg_fresh := pg_fresh p + 1\<rparr>))"

definition unmount :: "engine \<times> page_dom \<Rightarrow> engine \<times> page_dom" where
  "unmount w =
     (case w of (e, p) \<Rightarrow>
        if \<not> en_mounted e then (e, p)
        else
          (let p1 = p\<lparr>pg_frames := removeAll (en_rafId e) (pg_frames p)\<rparr>;
               p2 = (case en_canvas e of
                       None \<Rightarrow> p1
                     | Some c \<Rightarrow> p1\<lparr>pg_resizeObservers := removeAll c (pg_resizeObservers p1),
                         pg_themeObservers := removeAll c (pg_themeObservers p1),
                         pg_listeners := filter (\<lambda>l. l \<notin> set (map (Pair c) POINTER_EVENTS)) (pg_listeners p1),
                         pg_children := filter (\<lambda>k. snd k \<noteq> c) (pg_children p1)\<rparr>)
           in (e\<lparr>en_container := None, en_canvas := None, en_ctx := False, en_mounted := False\<rparr>, p2)))"

definition destroy :: "engine \<times> page_dom \<Rightarrow> engine \<times> page_dom" where
  "destroy w = (case w of (e, p) \<Rightarrow> unmount (e\<lparr>en_loadCancelled := True\<rparr>, p))"

text \<open>
  \<open>mount\<close> on a container; \<open>has_context\<close> says whether the browser gives a 2D context. The result
  is the error that is thrown, if any, the state at that moment, and the image that was asked for.
\<close>

definition mount ::
  "surroundings \<Rightarrow> nat \<Rightarrow> bool \<Rightarrow> engine \<times> page_dom \<Rightarrow> string option \<times> (engine \<times> page_dom) \<times> string option" where
  "mount su container has_context w =
     (case (if en_mounted (fst w) then unmount w else w) of (e, p) \<Rightarrow>
        let canvas = pg_fresh p;
            e1 = e\<lparr>en_container := Some container, en_canvas := Some canvas\<rparr>;
            p1 = p\<lparr>pg_fresh := pg_fresh p + 1, pg_children := pg_children p @ [(container, canvas)]\<rparr>
        in if \<not> has_context then (Some ''Canvas 2D context not available'', (e1, p1), None)
           else
             (let e2 = e1\<lparr>en_ctx := True, en_colors := Some (or_default (en_userColors e1) (readColorsFromCSS su)), en_mounted := True\<rparr>;
                  p2 = p1\<lparr>pg_listeners := pg_listeners p1 @ map (Pair canvas) POINTER_EVENTS,
                          pg_resizeObservers := pg_resizeObservers p1 @ [canvas],
                          pg_themeObservers := pg_themeObservers p1 @ [canvas]\<rparr>;
                  (e3, p3) = requestAnimationFrame (e2, p2)
              in if truthy (en_pendingSrc e3)
                 then (None, (loadImage (the (en_pendingSrc e3)) (e3\<lparr>en_pendingSrc := None\<rparr>), p3), en_pendingSrc e3)
                 else (None, (e3, p3), None)))"

text \<open>A frame of the animation loop, and the callbacks of the observers.\<close>

definition frame :: "surroundings \<Rightarrow> engine \<times> page_dom \<Rightarrow> engine \<times> page_dom \<times> draw_op list" where
  "frame su w =
     (case w of (e, p) \<Rightarrow>
        let p1 = p\<lparr>pg_frames := removeAll (en_rafId e) (pg_frames p)\<rparr>;
            (e1, ops) = (if en_dirty e then engine_render su (e\<lparr>en_dirty := False\<rparr>) else (e, []));
            (e2, p2) = requestAnimationFrame (e1, p1)
        in (e2, p2, ops))"

definition on_resize :: "engine \<Rightarrow> engine" where
  "on_resize e = markDirty e"

definition on_theme :: "surroundings \<Rightarrow> engine \<Rightarrow> engine" where
  "on_theme su e = markDirty (if en_userColors e = None then e\<lparr>en_colors := Some (readColorsFromCSS su)\<rparr> else e)"

section \<open>Mounting leaves nothing behind\<close>

definition empty_page :: page_dom where
  "empty_page = \<lparr>pg_fresh = 0, pg_children = [], pg_listeners = [], pg_resizeObservers = [], pg_themeObservers = [], pg_frames = []\<rparr>"

text \<open>
  The page of a tidy engine holds, while it is mounted, exactly one canvas with one listener for
  each pointer event, one observer of each kind and one animation frame; otherwise nothing.
\<close>

definition tidy :: "engine \<times> page_dom \<Rightarrow> bool" where
  "tidy w \<longleftrightarrow> (case w of (e, p) \<Rightarrow>
     if en_mounted e then
       (case (en_container e, en_canvas e) of
          (Some c, Some k) \<Rightarrow> pg_children p = [(c, k)] \<and> pg_listeners p = map (Pair k) POINTER_EVENTS
            \<and> pg_resizeObservers p = [k] \<and> pg_themeObservers p = [k] \<and> pg_frames p = [en_rafId e]
        | _ \<Rightarrow> False)
     else pg_children p = [] \<and> pg_listeners p = [] \<and> pg_resizeObservers p = [] \<and> pg_themeObservers p = [] \<and> pg_frames p = [])"

text \<open>The parts of the engine that belong to the page.\<close>

definition dom_of :: "engine \<Rightarrow> bool \<times> nat option \<times> nat option \<times> nat" where
  "dom_of e = (en_mounted e, en_container e, en_canvas e, en_rafId e)"

lemma dom_updateState [simp]: "dom_of (updateState f e) = dom_of e"
  by (simp add: dom_of_def)

lemma dom_push [simp]: "dom_of (pushHistoryAndUpdate f e) = dom_of e"
  by (simp add: pushHistoryAndUpdate_def Let_def) (simp add: dom_of_def)

lemma dom_rotation [simp]: "dom_of (applyRotationChange r d b e) = dom_of e"
  by (simp add: applyRotationChange_def Let_def split: prod.splits)

lemma dom_straighten [simp]: "dom_of (setStraighten d e) = dom_of e" "dom_of (commitStraighten e) = dom_of e"
  by (simp_all add: setStraighten_def commitStraighten_def Let_def split: option.splits) (simp_all add: dom_of_def)

lemma dom_pointer [simp]:
  "dom_of (onPointerDown ev e) = dom_of e" "dom_of (onPointerMove ev e) = dom_of e" "dom_of (onPointerUp ev e) = dom_of e"
  by (simp_all add: onPointerDown_def onPointerMove_def onPointerUp_def drag_def markDirty_def Let_def split: option.splits)
    (simp_all add: dom_of_def setPointerCapture_def releasePointerCapture_def)

lemma dom_fold:
  "(\<And>x e. dom_of (f x e) = dom_of e) \<Longrightarrow> dom_of (fold f xs e) = dom_of e"
  by (induction xs arbitrary: e) simp_all

lemma dom_perform [simp]: "dom_of (perform a e) = dom_of e"
  by (cases a) (simp_all add: setResizeMode_def rotateClockwise_def rotateCounterClockwise_def toggleFlipHorizontal_def
      toggleFlipVertical_def applyTemplate_def reset_def dom_fold Let_def split: prod.splits)

lemma dom_load [simp]:
  "dom_of (loadImage s e) = dom_of e" "dom_of (img_onload s x y e) = dom_of e" "dom_of (img_onerror s e) = dom_of e"
  by (simp_all add: loadImage_def img_onload_def img_onerror_def Let_def) (simp_all add: dom_of_def)

lemma dom_render [simp]: "dom_of (fst (engine_render su e)) = dom_of e"
  by (simp add: engine_render_def Let_def dom_of_def split: option.splits prod.splits bool.splits)

lemma tidy_dom:
  assumes "tidy (e, p)" and "dom_of e' = dom_of e"
  shows "tidy (e', p)"
  using assms by (auto simp: tidy_def dom_of_def split: option.splits if_splits)

lemma tidy_unmount:
  assumes "tidy w"
  shows "tidy (unmount w) \<and> \<not> en_mounted (fst (unmount w))"
proof (cases w)
  case (Pair e p)
  show ?thesis
  proof (cases "en_mounted e")
    case True
    then obtain c k where "en_container e = Some c" "en_canvas e = Some k"
      using assms Pair by (auto simp: tidy_def split: option.splits)
    then show ?thesis
      using assms Pair True by (simp add: tidy_def unmount_def Let_def)
  qed (use assms Pair in \<open>simp add: unmount_def\<close>)
qed

lemma tidy_destroy: "tidy (e, p) \<Longrightarrow> tidy (destroy (e, p))"
  unfolding destroy_def using tidy_unmount [of "(e\<lparr>en_loadCancelled := True\<rparr>, p)"] tidy_dom [of e p "e\<lparr>en_loadCancelled := True\<rparr>"]
  by (simp add: dom_of_def)

lemma tidy_mount:
  assumes "tidy w" and "mount su c True w = (err, w', src)"
  shows "err = None \<and> tidy w' \<and> en_mounted (fst w')"
proof -
  obtain e p where w: "(if en_mounted (fst w) then unmount w else w) = (e, p)" by (meson surj_pair)
  have t: "tidy (e, p)" "\<not> en_mounted e"
    using w assms(1) tidy_unmount [OF assms(1)] by (auto split: if_splits)
  let ?k = "pg_fresh p"
  let ?e = "e\<lparr>en_container := Some c, en_canvas := Some ?k, en_ctx := True,
    en_colors := Some (or_default (en_userColors e) (readColorsFromCSS su)), en_mounted := True, en_rafId := Suc ?k\<rparr>"
  have err: "err = None" and "dom_of (fst w') = dom_of ?e" and "pg_children (snd w') = [(c, ?k)]"
    and "pg_listeners (snd w') = map (Pair ?k) POINTER_EVENTS" and "pg_resizeObservers (snd w') = [?k]"
    and "pg_themeObservers (snd w') = [?k]" and "pg_frames (snd w') = [Suc ?k]"
    using assms(2) t unfolding mount_def w
    by (auto simp: Let_def requestAnimationFrame_def tidy_def dom_of_def loadImage_def split: if_splits)
  then show ?thesis by (cases w') (simp add: tidy_def dom_of_def)
qed

lemma tidy_frame:
  assumes "tidy (e, p)" and "en_mounted e" and "frame su (e, p) = (e', p', ops)"
  shows "tidy (e', p') \<and> en_mounted e'"
proof -
  obtain c k where ck: "en_container e = Some c" "en_canvas e = Some k"
    using assms by (auto simp: tidy_def split: option.splits)
  let ?e1 = "fst (if en_dirty e then engine_render su (e\<lparr>en_dirty := False\<rparr>) else (e, []))"
  have "dom_of ?e1 = dom_of e"
    using dom_render [of su "e\<lparr>en_dirty := False\<rparr>"] by (simp add: dom_of_def)
  moreover have "e' = ?e1\<lparr>en_rafId := pg_fresh p\<rparr>" "p' = p\<lparr>pg_frames := removeAll (en_rafId e) (pg_frames p) @ [pg_fresh p],
      pg_fresh := pg_fresh p + 1\<rparr>"
    using assms(3) by (auto simp: frame_def requestAnimationFrame_def Let_def split: prod.splits if_splits)
  ultimately show ?thesis
    using assms(1,2) ck by (simp add: tidy_def dom_of_def)
qed

text \<open>What can happen to an engine and its page, while every mount gets a drawing context.\<close>

inductive page_run :: "engine_options \<Rightarrow> engine \<times> page_dom \<Rightarrow> bool" for opts where
  start: "page_run opts (new_engine opts, empty_page)"
| mounts: "page_run opts w \<Longrightarrow> mount su c True w = (err, w', src) \<Longrightarrow> page_run opts w'"
| unmounts: "page_run opts w \<Longrightarrow> page_run opts (unmount w)"
| destroys: "page_run opts w \<Longrightarrow> page_run opts (destroy w)"
| frames: "page_run opts (e, p) \<Longrightarrow> en_mounted e \<Longrightarrow> frame su (e, p) = (e', p', ops) \<Longrightarrow> page_run opts (e', p')"
| works: "page_run opts (e, p) \<Longrightarrow> dom_of e' = dom_of e \<Longrightarrow> page_run opts (e', p)"

lemma page_run_tidy: "page_run opts w \<Longrightarrow> tidy w"
proof (induction rule: page_run.induct)
  case start
  show ?case by (simp add: tidy_def new_engine_def empty_page_def Let_def)
next
  case (destroys w)
  then show ?case by (cases w) (simp add: tidy_destroy)
qed (use tidy_mount tidy_unmount tidy_frame tidy_dom in blast)+

lemma mount_without_context:
  assumes "tidy w"
  shows "\<exists>w2 k. mount su c False w = (Some ''Canvas 2D context not available'', w2, None)
    \<and> \<not> en_mounted (fst w2) \<and> pg_children (snd w2) = [(c, k)] \<and> unmount w2 = w2"
proof -
  obtain e p where w: "(if en_mounted (fst w) then unmount w else w) = (e, p)" by (meson surj_pair)
  have t: "tidy (e, p)" "\<not> en_mounted e"
    using w assms tidy_unmount [OF assms] by (auto split: if_splits)
  then show ?thesis
    unfolding mount_def w by (simp add: Let_def tidy_def unmount_def)
qed

text \<open>
  Mounting and unmounting: whatever happens to an engine (mounts on any containers, unmounts,
  frames, edits, pointer events, loads), while it is mounted its page holds exactly one canvas
  with its four listeners, two observers and one animation frame, and when it is not, nothing
  is left. A mount always succeeds when the browser gives a context. When it does not, the
  mount throws, and then the canvas that was already added stays: the engine does not count
  as mounted, and a later \<open>unmount\<close> does not remove it.
\<close>

theorem mounted_page_is_tidy:
  assumes "page_run opts w"
  shows "tidy w \<and> (\<exists>w' src. mount su c True w = (None, w', src) \<and> tidy w' \<and> en_mounted (fst w'))
    \<and> tidy (unmount w) \<and> \<not> en_mounted (fst (unmount w))
    \<and> (\<exists>w2 k. mount su c False w = (Some ''Canvas 2D context not available'', w2, None)
         \<and> \<not> en_mounted (fst w2) \<and> pg_children (snd w2) = [(c, k)] \<and> unmount w2 = w2)"
proof -
  have t: "tidy w" by (rule page_run_tidy [OF assms])
  obtain err w' src where m: "mount su c True w = (err, w', src)" by (metis prod_cases3)
  show ?thesis
    using t m tidy_mount [OF t m] tidy_unmount [OF t] mount_without_context [OF t] by auto
qed

theorem mounted_page_is_tidy_witness:
  "tidy (unmount (fst (snd (mount (undefined\<lparr>su_clientWidth := N 640\<rparr>) 7 True (new_engine sample_options, empty_page)))))"
proof -
  let ?su = "undefined\<lparr>su_clientWidth := N 640\<rparr>"
  obtain err w' src where m: "mount ?su 7 True (new_engine sample_options, empty_page) = (err, w', src)"
    by (metis prod_cases3)
  then have "page_run sample_options w'"
    by (rule page_run.mounts [OF page_run.start])
  then have "tidy (unmount w')" using mounted_page_is_tidy by blast
  with m show ?thesis by simp
qed

section \<open>The pointer finds what was drawn\<close>

text \<open>
  A state whose numbers are finite: the window has a size, and the zoom is positive. The view
  has more than the padding.
\<close>

definition drawable :: "surroundings \<Rightarrow> editor_state \<Rightarrow> bool" where
  "drawable su s \<longleftrightarrow> (\<exists>cw ch z px py W H. ed_cropWidth s = N cw \<and> ed_cropHeight s = N ch \<and> st_zoom s = N z
     \<and> st_panX s = N px \<and> st_panY s = N py \<and> su_clientWidth su = N W \<and> su_clientHeight su = N H
     \<and> 0 < cw \<and> 0 < ch \<and> 0 < z \<and> 32 < W \<and> 32 < H)"

lemma num_or_N0 [simp]: "num_or (N a) (N 0) = N a"
  by (simp add: num_or_def)

lemma viewport_N:
  assumes "drawable su s"
  obtains v x y where "viewport su s = (N v, N x, N y)" and "0 < v"
proof -
  obtain cw ch z px py W H where d: "ed_cropWidth s = N cw" "ed_cropHeight s = N ch" "st_zoom s = N z"
    "st_panX s = N px" "st_panY s = N py" "su_clientWidth su = N W" "su_clientHeight su = N H"
    "0 < cw" "0 < ch" "0 < z" "32 < W" "32 < H"
    using assms unfolding drawable_def by blast
  define zoom where "zoom = (if st_zoomMode s = Zoom_fit then 100 else z)"
  let ?v = "min ((W - 32) / cw) ((H - 32) / ch) * (zoom / 100)"
  have "0 < zoom" using d by (simp add: zoom_def)
  then have pos: "0 < ?v" using d by simp
  have "(if st_zoomMode s = Zoom_fit then N 100 else st_zoom s) = N zoom" by (simp add: zoom_def d)
  then have "viewport su s = (N ?v, N ((W - cw * ?v) / 2 + px), N ((H - ch * ?v) / 2 + py))"
    using d by (simp add: viewport_def CANVAS_PADDING_def)
  with pos show ?thesis using that by blast
qed

text \<open>Where a point of the crop window, seen from its centre, was drawn.\<close>

definition drawn_at :: "engine \<Rightarrow> jsnum \<Rightarrow> jsnum \<Rightarrow> jsnum \<times> jsnum" where
  "drawn_at e x y =
     (en_viewportOffsetX e + (x + ed_cropWidth (en_state e) / N 2) * en_viewportScale e,
      en_viewportOffsetY e + (y + ed_cropHeight (en_state e) / N 2) * en_viewportScale e)"

lemma render_viewport:
  assumes "engine_render su e = (e', ops)" and "ops \<noteq> []"
  shows "(en_viewportScale e', en_viewportOffsetX e', en_viewportOffsetY e') = viewport su (en_state e)"
    and "en_state e' = en_state e" and "en_canvas e' = en_canvas e" and "en_canvas e' \<noteq> None"
  using assms by (auto simp: engine_render_def Let_def split: option.splits bool.splits prod.splits if_splits)

lemma screenToCropSpace_drawn:
  assumes "en_viewportScale e = N v" "en_viewportOffsetX e = N ox" "en_viewportOffsetY e = N oy" "0 < v" "en_canvas e \<noteq> None"
    and "ed_cropWidth (en_state e) = N cw" "ed_cropHeight (en_state e) = N ch" "pe_left ev = N l" "pe_top ev = N t"
    and "pe_clientX ev = N l + fst (drawn_at e (N x) (N y))" "pe_clientY ev = N t + snd (drawn_at e (N x) (N y))"
  shows "screenToCropSpace ev e = Some (N x, N y)"
  using assms by (simp add: screenToCropSpace_def drawn_at_def Let_def)

lemma find_unique:
  assumes "x \<in> set xs" and "P x" and "\<And>y. y \<in> set xs \<Longrightarrow> P y \<Longrightarrow> y = x"
  shows "find P xs = Some x"
  using assms(1,3)
proof (induction xs)
  case (Cons a xs)
  show ?case
  proof (cases "P a")
    case True
    then show ?thesis using Cons.prems(2) [of a] by simp
  next
    case False
    then have "x \<in> set xs" using Cons.prems(1) assms(2) by auto
    then show ?thesis using Cons.IH Cons.prems(2) False by simp
  qed
qed simp

lemma square_far:
  fixes a b r :: real
  assumes "0 < r" and "a * a + b * b \<le> r * r"
  shows "\<bar>a\<bar> \<le> r" and "\<bar>b\<bar> \<le> r"
proof -
  have "r * r < c * c" if "r < \<bar>c\<bar>" for c :: real
    using mult_strict_mono [OF that that] that assms(1) by auto
  moreover have "0 \<le> a * a" "0 \<le> b * b" by simp_all
  ultimately show "\<bar>a\<bar> \<le> r" "\<bar>b\<bar> \<le> r" using assms(2) by (smt (verit))+
qed

lemma handle_positions_far:
  assumes "(h, N x, N y) \<in> set (handle_positions (N (cw / 2)) (N (ch / 2)))"
    and "(h', N x', N y') \<in> set (handle_positions (N (cw / 2)) (N (ch / 2)))"
    and "\<bar>x - x'\<bar> \<le> r" "\<bar>y - y'\<bar> \<le> r" "2 * r < cw" "2 * r < ch"
  shows "h' = h \<and> x' = x \<and> y' = y"
  using assms by (auto simp: handle_positions_def)

lemma hitTest_handle:
  assumes "(h, N x, N y) \<in> set (handle_positions (N (cw / 2)) (N (ch / 2)))" and "2 * r < cw" and "2 * r < ch" and "0 < r"
  shows "hitTestHandles (N x) (N y) (N cw) (N ch) (N r) = Some h"
proof -
  define near where "near = (\<lambda>(h :: drag_handle, u, v). (N x - u) * (N x - u) + (N y - v) * (N y - v) \<le> N r * N r)"
  have self: "near (h, N x, N y)" using assms(4) by (simp add: near_def)
  have unique: "k = (h, N x, N y)" if k: "k \<in> set (handle_positions (N (cw / 2)) (N (ch / 2)))" and n: "near k" for k
  proof -
    obtain h' x' y' where k': "k = (h', N x', N y')" using k by (auto simp: handle_positions_def)
    then have "\<bar>x - x'\<bar> \<le> r" "\<bar>y - y'\<bar> \<le> r"
      using n square_far [OF assms(4)] by (simp_all add: near_def)
    then show ?thesis
      using handle_positions_far [OF assms(1)] k k' assms(2,3) by blast
  qed
  have "find near (handle_positions (N (cw / 2)) (N (ch / 2))) = Some (h, N x, N y)"
    using unique by (rule find_unique [where P = near, OF assms(1) self])
  then show ?thesis by (simp add: hitTestHandles_def near_def Let_def)
qed

text \<open>
  The pointer finds what was drawn. After a rendered frame, a pointer event at the place on
  the screen where a point of the crop window was drawn (at any zoom and pan) is mapped back
  to exactly that point, so that a press on the centre of a handle takes this handle, as long
  as the window is more than twice the hit radius wide and high on the screen.
\<close>

theorem pointer_hits_drawn_handle:
  assumes "engine_render su e = (e', ops)" and "ops \<noteq> []" and "drawable su (en_state e)"
    and "pe_left ev = N l" and "pe_top ev = N t"
    and "(h, N x, N y) \<in> set (handle_positions (ed_cropWidth (en_state e) / N 2) (ed_cropHeight (en_state e) / N 2))"
    and "N 32 < ed_cropWidth (en_state e) * en_viewportScale e'" and "N 32 < ed_cropHeight (en_state e) * en_viewportScale e'"
    and "pe_clientX ev = N l + fst (drawn_at e' (N x) (N y))" and "pe_clientY ev = N t + snd (drawn_at e' (N x) (N y))"
  shows "screenToCropSpace ev e' = Some (N x, N y) \<and> hit_handle ev e' = Some h"
proof -
  note r = render_viewport [OF assms(1,2)]
  obtain v ox oy where vp: "en_viewportScale e' = N v" "en_viewportOffsetX e' = N ox" "en_viewportOffsetY e' = N oy" "0 < v"
    using viewport_N [OF assms(3)] r(1) by (metis prod.inject)
  obtain cw ch where c: "ed_cropWidth (en_state e) = N cw" "ed_cropHeight (en_state e) = N ch" "0 < cw" "0 < ch"
    using assms(3) by (auto simp: drawable_def)
  have s: "screenToCropSpace ev e' = Some (N x, N y)"
    using screenToCropSpace_drawn [OF vp r(4) _ _ assms(4,5,9,10)] c r(2) by simp
  have "32 < cw * v" "32 < ch * v" using assms(7,8) vp c by simp_all
  then have "2 * (16 / v) < cw" "2 * (16 / v) < ch"
    using vp(4) by (simp_all add: divide_less_eq)
  then have "hitTestHandles (N x) (N y) (N cw) (N ch) (N (16 / v)) = Some h"
    using assms(6) c vp(4) by (intro hitTest_handle) simp_all
  then show ?thesis using s vp c r(2) by (simp add: hit_handle_def)
qed

definition sample_surroundings :: surroundings where
  "sample_surroundings = \<lparr>su_clientWidth = N 832, su_clientHeight = N 432, su_devicePixelRatio = N 2,
     su_backgroundColor = ''white'', su_property = (\<lambda>n. [])\<rparr>"

definition mounted_sample :: engine where
  "mounted_sample = sample_engine\<lparr>en_canvas := Some 0, en_container := Some 7, en_ctx := True,
     en_colors := Some (readColorsFromCSS sample_surroundings)\<rparr>"

lemma sample_state:
  "en_state sample_engine = \<lparr>ed_cropWidth = N 400, ed_cropHeight = N 200, ed_rotation = R0, ed_straighten = N 0,
     ed_scale = N 1, ed_tx = N 0, ed_ty = N 0, ed_flipHorizontal = False, ed_flipVertical = False,
     ed_activeTemplate = Some FREE_TEMPLATE, ed_resizeMode = Resize_crop,
     st_src = ''a.png'', st_imageStatus = Img_loaded, st_imageError = None, st_naturalWidth = N 400, st_naturalHeight = N 200,
     st_templates = [FREE_TEMPLATE], st_isDragging = False, st_activeHandle = None, st_canUndo = False, st_canRedo = False,
     st_isDirty = False, st_zoom = N 100, st_zoomMode = Zoom_fit, st_panX = N 0, st_panY = N 0,
     st_isPanning = False, st_mode = Mode_view\<rparr>"
  by (simp add: sample_engine_def img_onload_def loadImage_def new_engine_def sample_options_def Let_def
      with_edit_def edit_state.extend_def)

lemma sample_image: "en_image sample_engine = Some \<lparr>im_src = ''a.png'', im_width = N 400, im_height = N 200\<rparr>"
  by (simp add: sample_engine_def img_onload_def loadImage_def new_engine_def Let_def)

lemma render_happens:
  assumes "en_canvas e = Some k" "en_ctx e" "en_image e = Some pic" "en_container e = Some c" "en_colors e = Some col"
    and "st_imageStatus (en_state e) = Img_loaded" and "viewport su (en_state e) = (v, x, y)"
  shows "\<exists>ops. engine_render su e = (e\<lparr>en_viewportScale := v, en_viewportOffsetX := x, en_viewportOffsetY := y\<rparr>, ops) \<and> ops \<noteq> []"
  using assms by (simp add: engine_render_def Let_def)

lemma sample_render:
  "\<exists>ops. engine_render sample_surroundings mounted_sample =
      (mounted_sample\<lparr>en_viewportScale := N 2, en_viewportOffsetX := N 16, en_viewportOffsetY := N 16\<rparr>, ops) \<and> ops \<noteq> []"
proof (rule render_happens)
  show "viewport sample_surroundings (en_state mounted_sample) = (N 2, N 16, N 16)"
    by (simp add: mounted_sample_def viewport_def sample_state sample_surroundings_def CANVAS_PADDING_def)
qed (simp_all add: mounted_sample_def sample_image sample_state)

theorem pointer_hits_drawn_handle_witness:
  "\<exists>ops. hit_handle \<lparr>pe_pointerId = 1, pe_button = 0, pe_altKey = False, pe_clientX = N 826, pe_clientY = N 426, pe_left = N 10, pe_top = N 10\<rparr>
     (fst (engine_render sample_surroundings mounted_sample)) = Some H_se \<and> snd (engine_render sample_surroundings mounted_sample) = ops"
proof -
  let ?ev = "\<lparr>pe_pointerId = 1, pe_button = 0, pe_altKey = False, pe_clientX = N 826, pe_clientY = N 426, pe_left = N 10, pe_top = N 10\<rparr>"
  let ?e' = "mounted_sample\<lparr>en_viewportScale := N 2, en_viewportOffsetX := N 16, en_viewportOffsetY := N 16\<rparr>"
  obtain ops where r: "engine_render sample_surroundings mounted_sample = (?e', ops)" "ops \<noteq> []"
    using sample_render by blast
  have st: "en_state mounted_sample = en_state sample_engine" by (simp add: mounted_sample_def)
  have "drawable sample_surroundings (en_state mounted_sample)"
    by (simp add: drawable_def st sample_state sample_surroundings_def)
  then have "hit_handle ?ev ?e' = Some H_se"
    using pointer_hits_drawn_handle [OF r, of ?ev 10 10 H_se 200 100]
    by (simp add: st sample_state drawn_at_def handle_positions_def)
  with r show ?thesis by simp
qed

section \<open>The overlay\<close>

text \<open>A point of the screen is painted by a filled rectangle (with its left and upper edge).\<close>

fun paints :: "real \<Rightarrow> real \<Rightarrow> draw_op \<Rightarrow> bool" where
  "paints a b (Fill_rect (N x) (N y) (N w) (N h)) \<longleftrightarrow> x \<le> a \<and> a < x + w \<and> y \<le> b \<and> b < y + h"
| "paints a b _ \<longleftrightarrow> False"

text \<open>
  The overlay dims each point of the view exactly once outside the crop window and never
  inside it: for a window inside the view, the four rectangles cover the rest of the view
  without overlapping.
\<close>

theorem overlay_tiles_the_view:
  assumes "0 \<le> X" "0 \<le> Y" "0 \<le> w" "0 \<le> h" "X + w \<le> W" "Y + h \<le> H" "0 \<le> a" "a < W" "0 \<le> b" "b < H"
  shows "length (filter (paints a b) (drawScreenOverlay (N W) (N H) (N X) (N Y) (N w) (N h) color))
    = (if X \<le> a \<and> a < X + w \<and> Y \<le> b \<and> b < Y + h then 0 else 1)"
  using assms by (auto simp: drawScreenOverlay_def)

theorem overlay_tiles_the_view_witness:
  "length (filter (paints 5 70) (drawScreenOverlay (N 100) (N 100) (N 10) (N 20) (N 50) (N 60) ''black'')) = 1"
  using overlay_tiles_the_view [of 10 20 50 60 100 100 5 70 "''black''"] by simp

end
