(* ===== verification/Editor_Safety.thy ===== *)
theory Editor_Safety
  imports Editor_Render
begin

text \<open>
  Invariants of the image editor over whole sessions: the events of a user, of the browser's
  image loader and of the animation loop, in any order. The toolbar flags always describe the
  history and the edits; the scale never falls below what fills the crop window, and the image is moved
  no further along either axis than leaves it filled. With straighten zero the window therefore shows
  the image everywhere; at other angles both axes together may leave a corner empty.
\<close>

datatype editor_event =
  Ev_resize_mode resize_mode | Ev_clockwise | Ev_counterclockwise | Ev_straighten jsnum | Ev_commit_straighten
| Ev_flip_h | Ev_flip_v | Ev_template "crop_template option" | Ev_reset | Ev_undo | Ev_redo
| Ev_zoom_in | Ev_zoom_out | Ev_zoom_fit | Ev_zoom jsnum | Ev_enter_crop | Ev_exit_crop | Ev_colors crop_colors
| Ev_down pointer_event | Ev_move pointer_event | Ev_up pointer_event
| Ev_load string | Ev_load_failed string | Ev_render surroundings

fun handle :: "editor_event \<Rightarrow> engine \<Rightarrow> engine" where
  "handle (Ev_resize_mode m) e = setResizeMode m e"
| "handle Ev_clockwise e = rotateClockwise e"
| "handle Ev_counterclockwise e = rotateCounterClockwise e"
| "handle (Ev_straighten d) e = setStraighten d e"
| "handle Ev_commit_straighten e = commitStraighten e"
| "handle Ev_flip_h e = toggleFlipHorizontal e"
| "handle Ev_flip_v e = toggleFlipVertical e"
| "handle (Ev_template t) e = applyTemplate t e"
| "handle Ev_reset e = reset e"
| "handle Ev_undo e = undo e"
| "handle Ev_redo e = redo e"
| "handle Ev_zoom_in e = zoomIn e"
| "handle Ev_zoom_out e = zoomOut e"
| "handle Ev_zoom_fit e = zoomToFit e"
| "handle (Ev_zoom z) e = setZoom z e"
| "handle Ev_enter_crop e = enterCropMode e"
| "handle Ev_exit_crop e = exitCropMode e"
| "handle (Ev_colors c) e = setColors c e"
| "handle (Ev_down ev) e = onPointerDown ev e"
| "handle (Ev_move ev) e = onPointerMove ev e"
| "handle (Ev_up ev) e = onPointerUp ev e"
| "handle (Ev_load s) e = loadImage s e"
| "handle (Ev_load_failed s) e = img_onerror s e"
| "handle (Ev_render su) e = fst (engine_render su e)"

section \<open>The toolbar flags\<close>

text \<open>Any session: events, and images that finish loading (with a size that is a number).\<close>

inductive session :: "engine_options \<Rightarrow> engine \<Rightarrow> bool" for opts where
  begins: "session opts (new_engine opts)"
| event: "session opts e \<Longrightarrow> session opts (handle ev e)"
| loaded: "session opts e \<Longrightarrow> w \<noteq> NaN \<Longrightarrow> h \<noteq> NaN \<Longrightarrow> session opts (img_onload src w h e)"

text \<open>No edit is half done: neither the straighten slider nor a handle is held.\<close>

definition settled :: "engine \<Rightarrow> bool" where
  "settled e \<longleftrightarrow> en_preStraightenEditState e = None \<and> en_dragOrigin e = None"

definition flags_ok :: "engine \<Rightarrow> bool" where
  "flags_ok e \<longleftrightarrow> 0 < en_maxHistory e \<and> (st_canUndo (en_state e) \<longleftrightarrow> past e \<noteq> []) \<and> (st_canRedo (en_state e) \<longleftrightarrow> future e \<noteq> [])
     \<and> (settled e \<longrightarrow> st_isDirty (en_state e) = isEditStateDirty (cur e) (en_initialEditState e))"

lemma pushHistory_past: "0 < m \<Longrightarrow> uh_past (pushHistory h d m) \<noteq> []"
  by (cases "uh_past h") (auto simp: pushHistory_def Let_def)

lemma flags_push:
  assumes "flags_ok e"
  shows "flags_ok (pushHistoryAndUpdate f e)"
proof -
  have "frame_of (pushHistoryAndUpdate f e) = frame_of e" by simp
  then show ?thesis
    using assms pushHistoryAndUpdate_flags [of f e] by (simp add: flags_ok_def frame_of_def pushHistory_past)
qed

text \<open>Operations that change neither the edits nor the history.\<close>

definition view_only :: "engine \<Rightarrow> engine \<Rightarrow> bool" where
  "view_only e e' \<longleftrightarrow> cur e' = cur e \<and> en_history e' = en_history e \<and> en_maxHistory e' = en_maxHistory e
     \<and> en_initialEditState e' = en_initialEditState e \<and> st_canUndo (en_state e') = st_canUndo (en_state e)
     \<and> st_canRedo (en_state e') = st_canRedo (en_state e) \<and> st_isDirty (en_state e') = st_isDirty (en_state e)
     \<and> (settled e' \<longrightarrow> settled e)"

lemma flags_view: "flags_ok e \<Longrightarrow> view_only e e' \<Longrightarrow> flags_ok e'"
  by (auto simp: flags_ok_def view_only_def)

lemma view_zoom:
  "view_only e (zoomIn e)" "view_only e (zoomOut e)" "view_only e (zoomToFit e)" "view_only e (setZoom z e)"
  "view_only e (enterCropMode e)" "view_only e (exitCropMode e)" "view_only e (setColors c e)"
  by (simp_all add: view_only_def settled_def zoomIn_def zoomOut_def zoomToFit_def setZoom_def enterCropMode_def
      exitCropMode_def setColors_def markDirty_def)

lemma view_load: "view_only e (loadImage s e)" "view_only e (img_onerror s e)"
  by (simp_all add: view_only_def settled_def loadImage_def img_onerror_def)

lemma view_render: "view_only e (fst (engine_render su e))"
  by (simp add: view_only_def settled_def engine_render_def Let_def split: option.splits bool.splits prod.splits)

lemma view_down: "view_only e (onPointerDown ev e)"
  by (auto simp: view_only_def settled_def onPointerDown_def Let_def setPointerCapture_def split: option.splits)

lemma flags_unsettled:
  assumes "flags_ok e" and "en_history e' = en_history e" and "en_maxHistory e' = en_maxHistory e"
    and "st_canUndo (en_state e') = st_canUndo (en_state e)" and "st_canRedo (en_state e') = st_canRedo (en_state e)"
    and "\<not> settled e'"
  shows "flags_ok e'"
  using assms by (simp add: flags_ok_def)

lemma rotation_flags:
  "st_canUndo (en_state (applyRotationChange r d False e)) = st_canUndo (en_state e)"
  "st_canRedo (en_state (applyRotationChange r d False e)) = st_canRedo (en_state e)"
  by (simp_all add: applyRotationChange_def Let_def split: prod.splits)

lemma flags_straighten:
  assumes "flags_ok e"
  shows "flags_ok (setStraighten d e)"
proof (rule flags_unsettled [OF assms])
  show "\<not> settled (setStraighten d e)"
    using rotation_quiet(2) by (simp add: settled_def setStraighten_def frame_of_def Let_def)
qed (use rotation_quiet in \<open>simp_all add: setStraighten_def rotation_flags frame_of_def Let_def\<close>)

lemma flags_commit: "flags_ok e \<Longrightarrow> flags_ok (commitStraighten e)"
  by (auto simp: flags_ok_def commitStraighten_def pushHistory_past split: option.splits)

lemma flags_undo: "flags_ok e \<Longrightarrow> flags_ok (undo e)"
  by (simp add: flags_ok_def undo_def settled_def Let_def)

lemma flags_redo: "flags_ok e \<Longrightarrow> flags_ok (redo e)"
  by (simp add: flags_ok_def redo_def settled_def split: list.split)

lemma drag_flags [simp]:
  "st_canUndo (drag_move dx dy orig s) = st_canUndo s" "st_canRedo (drag_move dx dy orig s) = st_canRedo s"
  "st_canUndo (drag_resize h dx dy orig s) = st_canUndo s" "st_canRedo (drag_resize h dx dy orig s) = st_canRedo s"
  by (simp_all add: drag_move_def drag_resize_def Let_def split: prod.splits)

lemma flags_move:
  assumes "flags_ok e"
  shows "flags_ok (onPointerMove ev e)"
proof (cases "if st_isPanning (en_state e) then en_panOrigin e else None")
  case None
  show ?thesis
  proof (cases "en_dragOrigin e")
    case (Some org)
    with None have "onPointerMove ev e = drag org ev e" by (simp add: onPointerMove_def split: if_splits)
    then show ?thesis
      using assms Some by (intro flags_unsettled [OF assms])
        (simp_all add: drag_select drag_def markDirty_def settled_def Let_def)
  qed (use None assms in \<open>simp add: onPointerMove_def flags_ok_def settled_def split: if_splits\<close>)
next
  case (Some org)
  then have "view_only e (onPointerMove ev e)" by (simp add: onPointerMove_def view_only_def settled_def)
  then show ?thesis by (rule flags_view [OF assms])
qed

lemma flags_up:
  assumes "flags_ok e"
  shows "flags_ok (onPointerUp ev e)"
proof (cases "st_isPanning (en_state e) \<or> en_dragOrigin e = None")
  case True
  then have "view_only e (onPointerUp ev e)" by (auto simp: onPointerUp_def view_only_def settled_def Let_def)
  then show ?thesis by (rule flags_view [OF assms])
next
  case False
  then show ?thesis
    using assms by (simp add: flags_ok_def onPointerUp_def pushHistory_past Let_def)
qed

lemma flags_handle: "flags_ok e \<Longrightarrow> flags_ok (handle ev e)"
  by (cases ev) (auto simp: setResizeMode_def rotateClockwise_def rotateCounterClockwise_def applyRotationChange_def
      toggleFlipHorizontal_def toggleFlipVertical_def applyTemplate_def reset_def Let_def
      flags_push flags_straighten flags_commit flags_undo flags_redo flags_move flags_up
      view_zoom view_load view_render view_down split: prod.splits intro: flags_view)

lemma isEditStateDirty_self:
  "ed_cropWidth d \<noteq> NaN \<Longrightarrow> ed_cropHeight d \<noteq> NaN \<Longrightarrow> ed_straighten d \<noteq> NaN \<Longrightarrow> ed_scale d \<noteq> NaN
   \<Longrightarrow> ed_tx d \<noteq> NaN \<Longrightarrow> ed_ty d \<noteq> NaN \<Longrightarrow> \<not> isEditStateDirty d d"
  by (simp add: isEditStateDirty_def num_neq_def same_template_def)

lemma flags_loaded: "flags_ok e \<Longrightarrow> w \<noteq> NaN \<Longrightarrow> h \<noteq> NaN \<Longrightarrow> flags_ok (img_onload src w h e)"
  by (simp add: flags_ok_def img_onload_def isEditStateDirty_self Let_def)

text \<open>
  The toolbar is right: in every session with a history of at least one step, \<open>canUndo\<close> and
  \<open>canRedo\<close> say whether there is something to undo or redo, and whenever no edit is half done,
  \<open>isDirty\<close> says whether the edit state differs from the one the image was loaded with.
\<close>

theorem toolbar_flags_correct:
  assumes "session opts e" and "or_default (op_maxHistory opts) MAX_HISTORY > 0"
    and "or_default (op_initialCropWidth opts) (N 0) \<noteq> NaN" and "or_default (op_initialCropHeight opts) (N 0) \<noteq> NaN"
  shows "(st_canUndo (en_state e) \<longleftrightarrow> past e \<noteq> []) \<and> (st_canRedo (en_state e) \<longleftrightarrow> future e \<noteq> [])
    \<and> (settled e \<longrightarrow> st_isDirty (en_state e) = isEditStateDirty (cur e) (en_initialEditState e))"
proof -
  have "flags_ok e"
    using assms(1)
  proof (induction rule: session.induct)
    case begins
    show ?case
      using assms(2-4)
      by (simp add: flags_ok_def new_engine_def Let_def extractEditState_eq edit_state.extend_def isEditStateDirty_self)
  qed (simp_all add: flags_handle flags_loaded)
  then show ?thesis by (simp add: flags_ok_def)
qed

theorem toolbar_flags_correct_witness:
  "st_canRedo (en_state (undo (toggleFlipVertical sample_engine))) \<longleftrightarrow> future (undo (toggleFlipVertical sample_engine)) \<noteq> []"
proof -
  have "session sample_options (handle Ev_undo (handle Ev_flip_v sample_engine))"
    unfolding sample_engine_def using session.event [OF session.begins, of _ "Ev_load ''a.png''"]
    by (intro session.event session.loaded) simp_all
  then show ?thesis
    using toolbar_flags_correct [of sample_options "handle Ev_undo (handle Ev_flip_v sample_engine)"]
    by (simp add: sample_options_def MAX_HISTORY_def)
qed

section \<open>The window and the image behind it\<close>

definition ang :: "quarter \<Rightarrow> real \<Rightarrow> real" where
  "ang r st = (of_int (deg r) + st) * pi / 180"



text \<open>Templates have a positive ratio, or none.\<close>

definition template_ok :: "crop_template option \<Rightarrow> bool" where
  "template_ok t \<longleftrightarrow> (\<forall>r. Option.bind t ct_ratio = Some r \<longrightarrow> (\<exists>x > 0. r = N x))"

text \<open>
  A translation within the bounds: along each axis alone it leaves the window filled (the engine
  computes the two bounds separately), and at quarter turns both together do. Angles whose sine or
  cosine is smaller than the tolerance of the code, and not zero, are left out.
\<close>

definition within_bounds :: "real \<Rightarrow> real \<Rightarrow> real \<Rightarrow> real \<Rightarrow> real \<Rightarrow> real \<Rightarrow> real \<Rightarrow> real \<Rightarrow> bool" where
  "within_bounds cw ch iw ih s tx ty a \<longleftrightarrow>
     (clear_angle a \<longrightarrow> filled cw ch iw ih s tx 0 a \<and> filled cw ch iw ih s 0 ty a)
     \<and> (quarter_angle a \<longrightarrow> filled cw ch iw ih s tx ty a)"


text \<open>
  A sound edit state of an image of the given size: the window is not larger than the image, the
  image fills it when centred, and the translation is within its bounds.
\<close>

definition sound :: "real \<Rightarrow> real \<Rightarrow> 'a edit_state_scheme \<Rightarrow> bool" where
  "sound iw ih d \<longleftrightarrow> (\<exists>cw ch st s tx ty.
     ed_cropWidth d = N cw \<and> ed_cropHeight d = N ch \<and> ed_straighten d = N st \<and> ed_scale d = N s \<and> ed_tx d = N tx \<and> ed_ty d = N ty
     \<and> 0 < cw \<and> cw \<le> iw \<and> 0 < ch \<and> ch \<le> ih \<and> - 45 \<le> st \<and> st \<le> 45
     \<and> filled cw ch iw ih s 0 0 (ang (ed_rotation d) st)
     \<and> within_bounds cw ch iw ih s tx ty (ang (ed_rotation d) st))
   \<and> template_ok (ed_activeTemplate d)"

lemma sound_extract [simp]: "sound iw ih (extractEditState s) \<longleftrightarrow> sound iw ih s"
  by (simp add: sound_def extractEditState_eq)

lemma sound_with_edit [simp]: "sound iw ih (with_edit d s) \<longleftrightarrow> sound iw ih d"
  by (simp add: sound_def)

lemma sound_status [simp]:
  "sound iw ih (s\<lparr>st_canUndo := b\<rparr>) = sound iw ih s" "sound iw ih (s\<lparr>st_canRedo := b\<rparr>) = sound iw ih s"
  "sound iw ih (s\<lparr>st_isDirty := b\<rparr>) = sound iw ih s" "sound iw ih (s\<lparr>st_zoom := z\<rparr>) = sound iw ih s"
  "sound iw ih (s\<lparr>st_zoomMode := zm\<rparr>) = sound iw ih s" "sound iw ih (s\<lparr>st_panX := z\<rparr>) = sound iw ih s"
  "sound iw ih (s\<lparr>st_panY := z\<rparr>) = sound iw ih s" "sound iw ih (s\<lparr>st_isPanning := b\<rparr>) = sound iw ih s"
  "sound iw ih (s\<lparr>st_mode := m\<rparr>) = sound iw ih s" "sound iw ih (s\<lparr>st_isDragging := b\<rparr>) = sound iw ih s"
  "sound iw ih (s\<lparr>st_activeHandle := h\<rparr>) = sound iw ih s" "sound iw ih (s\<lparr>st_src := c\<rparr>) = sound iw ih s"
  "sound iw ih (s\<lparr>st_imageStatus := i\<rparr>) = sound iw ih s" "sound iw ih (s\<lparr>st_imageError := o'\<rparr>) = sound iw ih s"
  "sound iw ih (s\<lparr>st_naturalWidth := z\<rparr>) = sound iw ih s" "sound iw ih (s\<lparr>st_naturalHeight := z\<rparr>) = sound iw ih s"
  by (simp_all add: sound_def)




text \<open>The invariant: the visible state, and the states kept in the history and in half-done edits.\<close>

definition finite_num :: "jsnum \<Rightarrow> bool" where
  "finite_num x \<longleftrightarrow> (\<exists>a. x = N a)"

lemma finite_numI [simp]: "finite_num (N a)"
  by (simp add: finite_num_def)


definition rest_ok :: "real \<Rightarrow> real \<Rightarrow> engine \<Rightarrow> bool" where
  "rest_ok iw ih e \<longleftrightarrow> sound iw ih (en_initialEditState e) \<and> list_all (sound iw ih) (past e) \<and> list_all (sound iw ih) (future e)
     \<and> pred_option (sound iw ih) (en_preStraightenEditState e) \<and> pred_option (sound iw ih) (en_preDragEditState e)
     \<and> pred_option (\<lambda>d. sound iw ih (do_originalEditState d) \<and> finite_num (do_screenX d) \<and> finite_num (do_screenY d)) (en_dragOrigin e)
     \<and> pred_option (\<lambda>p. finite_num (po_pointerX p) \<and> finite_num (po_pointerY p) \<and> finite_num (po_offsetX p) \<and> finite_num (po_offsetY p)) (en_panOrigin e)
     \<and> (\<exists>v. en_viewportScale e = N v \<and> v \<noteq> 0)"


lemma with_edit_pan [simp]: "st_panX (with_edit d s) = st_panX s" "st_panY (with_edit d s) = st_panY s"
  by (cases s; simp add: with_edit_def edit_state.extend_def)+

lemma rest_updateState [simp]: "rest_ok iw ih (updateState f e) = rest_ok iw ih e"
  by (simp add: rest_ok_def)







































section \<open>Two hazards of loading\<close>

text \<open>
  \<open>loadCancelled\<close> is one flag for all loads, and \<open>loadImage\<close> clears it again at once: an older
  load that finishes after a newer one replaces the newer image.
\<close>

theorem stale_load_wins:
  "st_src (en_state (img_onload ''old'' w h (img_onload ''new'' w' h' (loadImage ''new'' (loadImage ''old'' e))))) = ''old''"
  by (simp add: img_onload_def loadImage_def Let_def)

text \<open>
  A load does not end a straighten gesture: if an image arrives while the slider is held, the
  state of the old image enters the history of the new one, and undo brings it back.
\<close>

theorem load_keeps_old_straighten:
  assumes "en_preStraightenEditState e = None" and "0 < en_maxHistory e"
  shows "cur (undo (commitStraighten (img_onload ''new'' w h (loadImage ''new'' (setStraighten d e))))) = cur e"
proof -
  have p: "en_preStraightenEditState (setStraighten d e) = Some (cur e)" "en_maxHistory (setStraighten d e) = en_maxHistory e"
    using setStraighten_first [OF assms(1), of d] by (simp_all add: straightening_def)
  let ?c = "commitStraighten (img_onload ''new'' w h (loadImage ''new'' (setStraighten d e)))"
  have "past ?c = [cur e]"
    using assms(2) p by (simp add: commitStraighten_def img_onload_def loadImage_def pushHistory_def Let_def)
  then show ?thesis using engine_history.undo_step [of ?c "[]" "cur e"] by simp
qed

end
