(* ===== verification/Editor_Hooks.thy ===== *)
theory Editor_Hooks
  imports Editor_Safety
begin

text \<open>
  The React side of the image editor: the hook that owns an engine
  (\<^verbatim>\<open>packages/ui/src/image-editor/image-editor.hooks.ts\<close>) and the keyboard shortcuts
  (\<^verbatim>\<open>packages/features/src/image-editor/use-image-editor.ts\<close>). The actions of the hook only
  delegate to the engine: they are the events that \<open>handle\<close> dispatches.
\<close>

section \<open>The hook\<close>

record editor_hook =
  eh_world :: "engine \<times> page_dom"
  eh_hasOnChange :: bool

text \<open>\<open>useState(() => new ImageEditorEngine(...))\<close>: the engine reports every change to the hook.\<close>

definition useImageEditorState :: "engine_options \<Rightarrow> page_dom \<Rightarrow> bool \<Rightarrow> editor_hook" where
  "useImageEditorState engineOptions p onChange =
     \<lparr>eh_world = ((new_engine engineOptions)\<lparr>en_onChange := True\<rparr>, p), eh_hasOnChange = onChange\<rparr>"

text \<open>The effect that follows the \<open>onChange\<close> prop.\<close>

definition sync_onChange :: "bool \<Rightarrow> editor_hook \<Rightarrow> editor_hook" where
  "sync_onChange onChange k =
     k\<lparr>eh_hasOnChange := onChange, eh_world := ((fst (eh_world k))\<lparr>en_onEditChange := onChange\<rparr>, snd (eh_world k))\<rparr>"

definition containerRef :: "surroundings \<Rightarrow> nat option \<Rightarrow> bool \<Rightarrow> editor_hook \<Rightarrow> string option \<times> editor_hook \<times> string option" where
  "containerRef su el has_context k =
     (case el of
        Some c \<Rightarrow> (case mount su c has_context (eh_world k) of (err, w, src) \<Rightarrow> (err, k\<lparr>eh_world := w\<rparr>, src))
      | None \<Rightarrow> (None, k\<lparr>eh_world := unmount (eh_world k)\<rparr>, None))"

definition teardown :: "editor_hook \<Rightarrow> editor_hook" where
  "teardown k = k\<lparr>eh_world := destroy (eh_world k)\<rparr>"

definition dispatch :: "editor_event \<Rightarrow> editor_hook \<Rightarrow> editor_hook" where
  "dispatch ev k = k\<lparr>eh_world := (handle ev (fst (eh_world k)), snd (eh_world k))\<rparr>"

section \<open>Keyboard\<close>

text \<open>\<open>navigator.userAgentData.platform\<close> where the browser has it, otherwise the user agent string.\<close>

definition contains :: "string \<Rightarrow> string \<Rightarrow> bool" where
  "contains s t \<longleftrightarrow> t \<in> set (map (take (length t)) (suffixes s))"

definition isMacPlatform :: "(string option \<times> string) option \<Rightarrow> bool" where
  "isMacPlatform navigator =
     (case navigator of
        None \<Rightarrow> False
      | Some (platform, userAgent) \<Rightarrow>
          if truthy platform then platform = Some ''macOS''
          else list_ex (contains userAgent) [''Mac'', ''iPhone'', ''iPad'', ''iPod''])"

datatype shortcut_name =
  S_undo | S_redo | S_rotateClockwise | S_rotateCounterClockwise | S_flipHorizontal | S_flipVertical
| S_zoomIn | S_zoomOut | S_zoomToFit | S_reset

text \<open>The command and shift signs of the Mac keyboard, in UTF-8.\<close>

definition mac_command :: string where "mac_command = [CHR 0xE2, CHR 0x8C, CHR 0x98]"

definition mac_shift :: string where "mac_shift = [CHR 0xE2, CHR 0x87, CHR 0xA7]"

definition buildShortcuts :: "bool \<Rightarrow> shortcut_name \<Rightarrow> string" where
  "buildShortcuts isMac name =
     (let mod_key = (if isMac then mac_command else ''Ctrl+'') in
      case name of
        S_undo \<Rightarrow> mod_key @ ''Z''
      | S_redo \<Rightarrow> (if isMac then mac_command @ mac_shift @ ''Z'' else ''Ctrl+Y'')
      | S_rotateClockwise \<Rightarrow> '']''
      | S_rotateCounterClockwise \<Rightarrow> ''[''
      | S_flipHorizontal \<Rightarrow> ''H''
      | S_flipVertical \<Rightarrow> ''V''
      | S_zoomIn \<Rightarrow> mod_key @ ''+''
      | S_zoomOut \<Rightarrow> mod_key @ ''-''
      | S_zoomToFit \<Rightarrow> mod_key @ ''0''
      | S_reset \<Rightarrow> (if isMac then mac_command @ mac_shift @ ''R'' else ''Ctrl+Shift+R''))"

record key_event =
  ke_metaKey :: bool
  ke_ctrlKey :: bool
  ke_shiftKey :: bool
  ke_key :: string
  ke_editable :: bool

definition lower_char :: "char \<Rightarrow> char" where
  "lower_char c = (if 65 \<le> (of_char c :: nat) \<and> (of_char c :: nat) \<le> 90 then char_of ((of_char c :: nat) + 32) else c)"

text \<open>The handler: the action of a key press, if any. A press inside an input element is ignored.\<close>

definition createKeyHandler :: "bool \<Rightarrow> key_event \<Rightarrow> editor_event option" where
  "createKeyHandler isMac ev =
     (let md = (if isMac then ke_metaKey ev else ke_ctrlKey ev);
          shift = ke_shiftKey ev;
          key = map lower_char (ke_key ev)
      in if ke_editable ev then None
         else if md \<and> \<not> shift \<and> key = ''z'' then Some Ev_undo
         else if isMac \<and> md \<and> shift \<and> key = ''z'' then Some Ev_redo
         else if \<not> isMac \<and> md \<and> key = ''y'' then Some Ev_redo
         else if \<not> md \<and> key = ''['' then Some Ev_counterclockwise
         else if \<not> md \<and> key = '']'' then Some Ev_clockwise
         else if \<not> md \<and> \<not> shift \<and> key = ''h'' then Some Ev_flip_h
         else if \<not> md \<and> \<not> shift \<and> key = ''v'' then Some Ev_flip_v
         else if md \<and> (key = ''='' \<or> key = ''+'') then Some Ev_zoom_in
         else if md \<and> key = ''-'' then Some Ev_zoom_out
         else if md \<and> key = ''0'' then Some Ev_zoom_fit
         else if md \<and> shift \<and> key = ''r'' then Some Ev_reset
         else None)"

text \<open>The registered listener: none when shortcuts are disabled.\<close>

definition useImageEditorFeature :: "bool \<Rightarrow> bool \<Rightarrow> key_event \<Rightarrow> editor_hook \<Rightarrow> editor_hook" where
  "useImageEditorFeature disableKeyboardShortcuts isMac ev k =
     (if disableKeyboardShortcuts then k
      else (case createKeyHandler isMac ev of Some a \<Rightarrow> dispatch a k | None \<Rightarrow> k))"

section \<open>The tooltips are true\<close>

text \<open>
  What a user presses after reading a tooltip: the modifiers in front, then the key. A letter is
  reported in capitals exactly when shift is held.
\<close>

definition strip_sign :: "string \<Rightarrow> string \<Rightarrow> string option" where
  "strip_sign sign s = (if startsWith s sign then Some (drop (length sign) s) else None)"

definition press :: "string \<Rightarrow> key_event" where
  "press s =
     (let (meta, s) = (case strip_sign mac_command s of Some r \<Rightarrow> (True, r) | None \<Rightarrow> (False, s));
          (ctrl, s) = (case strip_sign ''Ctrl+'' s of Some r \<Rightarrow> (True, r) | None \<Rightarrow> (False, s));
          (shift, s) = (case strip_sign mac_shift s of Some r \<Rightarrow> (True, r)
                        | None \<Rightarrow> (case strip_sign ''Shift+'' s of Some r \<Rightarrow> (True, r) | None \<Rightarrow> (False, s)))
      in \<lparr>ke_metaKey = meta, ke_ctrlKey = ctrl, ke_shiftKey = shift,
          ke_key = (if shift then s else map lower_char s), ke_editable = False\<rparr>)"

fun shortcut_action :: "shortcut_name \<Rightarrow> editor_event" where
  "shortcut_action S_undo = Ev_undo"
| "shortcut_action S_redo = Ev_redo"
| "shortcut_action S_rotateClockwise = Ev_clockwise"
| "shortcut_action S_rotateCounterClockwise = Ev_counterclockwise"
| "shortcut_action S_flipHorizontal = Ev_flip_h"
| "shortcut_action S_flipVertical = Ev_flip_v"
| "shortcut_action S_zoomIn = Ev_zoom_in"
| "shortcut_action S_zoomOut = Ev_zoom_out"
| "shortcut_action S_zoomToFit = Ev_zoom_fit"
| "shortcut_action S_reset = Ev_reset"

lemma lower_letters:
  "lower_char (CHR ''Z'') = CHR ''z''" "lower_char (CHR ''Y'') = CHR ''y''" "lower_char (CHR ''H'') = CHR ''h''"
  "lower_char (CHR ''V'') = CHR ''v''" "lower_char (CHR ''R'') = CHR ''r''" "lower_char (CHR ''z'') = CHR ''z''"
  "lower_char (CHR ''y'') = CHR ''y''" "lower_char (CHR ''h'') = CHR ''h''" "lower_char (CHR ''v'') = CHR ''v''"
  "lower_char (CHR ''+'') = CHR ''+''" "lower_char (CHR ''-'') = CHR ''-''" "lower_char (CHR ''0'') = CHR ''0''"
  "lower_char (CHR ''['') = CHR ''[''" "lower_char (CHR '']'') = CHR '']''"
  by code_simp+

text \<open>
  The shortcuts shown in the tooltips are the ones that work: on both platforms pressing what
  \<open>buildShortcuts\<close> shows for an action performs exactly this action on the engine, and no key
  press inside an input element, or with shortcuts disabled, changes anything.
\<close>

theorem tooltips_are_true:
  "useImageEditorFeature False isMac (press (buildShortcuts isMac name)) k = dispatch (shortcut_action name) k
   \<and> useImageEditorFeature False isMac (ev\<lparr>ke_editable := True\<rparr>) k = k \<and> useImageEditorFeature True isMac ev k = k"
proof -
  have "createKeyHandler isMac (press (buildShortcuts isMac name)) = Some (shortcut_action name)"
    by (cases isMac; cases name)
      (simp_all add: createKeyHandler_def press_def buildShortcuts_def strip_sign_def mac_command_def mac_shift_def
        lower_letters Let_def)
  then show ?thesis by (simp add: useImageEditorFeature_def createKeyHandler_def)
qed

section \<open>A remount after a teardown\<close>

text \<open>
  The image given to the constructor is asked for once, at the first mount. When the hook is torn
  down before it arrives and the container is mounted again, as React's strict mode does, the
  answer is ignored and nothing asks again: the editor stays in the state \<open>loading\<close>.
\<close>

theorem remount_loses_image:
  assumes "en_pendingSrc (new_engine opts) = Some src" and "src \<noteq> []"
    and "mount su c True (new_engine opts, p) = (None, w1, Some src)"
    and "mount su c True (destroy w1) = (err, w2, again)"
  shows "again = None \<and> st_imageStatus (en_state (img_onload src w h (fst w2))) = Img_loading"
proof -
  obtain e1 p1 where w1: "w1 = (e1, p1)" by fastforce
  have e1: "en_pendingSrc e1 = None" "st_imageStatus (en_state e1) = Img_loading"
    using assms(3) by (auto simp: w1 mount_def requestAnimationFrame_def loadImage_def new_engine_def Let_def split: if_splits)
  obtain e2 p2 where u: "destroy w1 = (e2, p2)" by fastforce
  have e2: "en_pendingSrc e2 = None" "en_state e2 = en_state e1" "en_loadCancelled e2" "\<not> en_mounted e2"
    using u e1(1) by (auto simp: w1 destroy_def unmount_def Let_def split: if_splits)
  have "again = None" "en_state (fst w2) = en_state e2" "en_loadCancelled (fst w2)"
    using assms(4) e2 unfolding u by (auto simp: mount_def requestAnimationFrame_def Let_def)
  then show ?thesis using e1 e2 by (simp add: img_onload_def)
qed

end
