(* ===== verification/Resource_Requests.thy ===== *)
theory Resource_Requests
  imports Resource_Names List_Controls Uri_Coding
begin

text \<open>
  The requests of the admin pages for connectors, secrets and workflows
  (\<^verbatim>\<open>packages/features/src/connectors\<close>, \<^verbatim>\<open>secrets\<close>, \<^verbatim>\<open>workflows\<close>): request bodies, filters, list
  requests, and the routes on which a resource is created, changed and deleted. A request is
  the value that is handed to the HTTP client; a builder that throws gives \<open>Inl\<close>. The bodies
  are JSON values whose fields are those that are present: the server updates exactly these.
\<close>

section \<open>Requests and bodies\<close>

datatype json = JString string | JObject "(string \<times> json) list"

datatype http_method = GET | POST | PATCH | DELETE

record request =
  rq_method :: http_method
  rq_path :: string
  rq_params :: "(string \<times> string) list"
  rq_query :: "(string \<times> string) list"
  rq_body :: "json option"

datatype form_mode = Mode_create | Mode_edit

record key_value_entry =
  kv_key :: string
  kv_value :: string

text \<open>
  Assigning a string to the key \<open>__proto__\<close> of an object does nothing.
\<close>

fun entries_loop :: "key_value_entry list \<Rightarrow> (string \<times> string) list \<Rightarrow> (string \<times> string) list" where
  "entries_loop [] out = out"
| "entries_loop (e # es) out =
     (let trimmed = trim (kv_key e)
      in entries_loop es (if trimmed \<noteq> [] \<and> trimmed \<noteq> ''__proto__'' then AList.update trimmed (kv_value e) out else out))"

definition entriesToMap :: "key_value_entry list \<Rightarrow> (string \<times> string) list" where
  "entriesToMap entries = entries_loop entries []"

abbreviation string_map :: "(string \<times> string) list \<Rightarrow> json" where
  "string_map m \<equiv> JObject (map (map_prod id JString) m)"

record connector_form_values =
  cf_connectorId :: string
  cf_displayName :: string
  cf_description :: string
  cf_baseUrl :: string
  cf_headers :: "key_value_entry list"
  cf_agent :: string
  cf_scope :: string

definition buildConnectorBody :: "connector_form_values \<Rightarrow> json" where
  "buildConnectorBody values =
     JObject
       [(''displayName'', JString (cf_displayName values)),
        (''description'', JString (cf_description values)),
        (''http'', JObject [(''baseUrl'', JString (trim (cf_baseUrl values))), (''headers'', string_map (entriesToMap (cf_headers values)))]),
        (''agent'', JString (trim (cf_agent values)))]"

record secret_form_values =
  sf_secretId :: string
  sf_displayName :: string
  sf_annotations :: "key_value_entry list"
  sf_value :: string
  sf_rotate :: bool
  sf_scope :: string

text \<open>\<open>btoa\<close> of the UTF-8 bytes: base 64 with padding.\<close>

definition base64_alphabet :: string where
  "base64_alphabet = ''ABCDEFGHIJKLMNOPQRSTUVWXYZabcdefghijklmnopqrstuvwxyz0123456789+/''"

definition base64_char :: "nat \<Rightarrow> char" where
  "base64_char n = base64_alphabet ! (n mod 64)"

fun btoa :: "string \<Rightarrow> string" where
  "btoa [] = []"
| "btoa [a] = [base64_char (byte a div 4), base64_char (byte a mod 4 * 16), CHR ''='', CHR ''='']"
| "btoa [a, b] = [base64_char (byte a div 4), base64_char (byte a mod 4 * 16 + byte b div 16),
     base64_char (byte b mod 16 * 4), CHR ''='']"
| "btoa (a # b # c # s) = base64_char (byte a div 4) # base64_char (byte a mod 4 * 16 + byte b div 16)
     # base64_char (byte b mod 16 * 4 + byte c div 64) # base64_char (byte c) # btoa s"

definition encodeBytes :: "string \<Rightarrow> string" where
  "encodeBytes value = btoa value"

definition buildSecretCreateBody :: "secret_form_values \<Rightarrow> json" where
  "buildSecretCreateBody values =
     (let annotations = entriesToMap (sf_annotations values)
      in JObject ([(''displayName'', JString (sf_displayName values)), (''value'', JString (encodeBytes (sf_value values)))]
           @ (if annotations \<noteq> [] then [(''annotations'', string_map annotations)] else [])))"

definition buildSecretUpdateBody :: "secret_form_values \<Rightarrow> string option \<Rightarrow> json" where
  "buildSecretUpdateBody values etag =
     JObject ([(''displayName'', JString (sf_displayName values)), (''annotations'', string_map (entriesToMap (sf_annotations values)))]
       @ (if truthy etag then [(''etag'', JString (the etag))] else [])
       @ (if sf_rotate values then [(''value'', JString (encodeBytes (sf_value values)))] else []))"

section \<open>Filters and list requests\<close>

definition AGENT_FILTER_ANY :: string where "AGENT_FILTER_ANY = ''__any__''"

definition AGENT_FILTER_CLOUD :: string where "AGENT_FILTER_CLOUD = ''__cloud__''"

definition name_predicate :: "(string \<times> string) list \<Rightarrow> string list" where
  "name_predicate filters =
     (case map_of filters ''displayName'' of
        None \<Rightarrow> []
      | Some n \<Rightarrow> if trim n \<noteq> [] then [''displayName:'' @ aipStringLiteral (trim n)] else [])"

definition buildConnectorFilter :: "(string \<times> string) list \<Rightarrow> string option" where
  "buildConnectorFilter filters =
     (let predicates = name_predicate filters @
        (let agent = map_of filters ''agent'' in
         if truthy agent \<and> agent \<noteq> Some AGENT_FILTER_ANY
         then [''agent='' @ aipStringLiteral (if agent = Some AGENT_FILTER_CLOUD then [] else the agent)] else [])
      in if predicates \<noteq> [] then Some (join_with '' AND '' predicates) else None)"

definition buildSecretFilter :: "(string \<times> string) list \<Rightarrow> string option" where
  "buildSecretFilter filters = (case name_predicate filters of [] \<Rightarrow> None | p # _ \<Rightarrow> Some p)"

definition buildWorkflowFilter :: "(string \<times> string) list \<Rightarrow> string option" where
  "buildWorkflowFilter filters = (case name_predicate filters of [] \<Rightarrow> None | p # _ \<Rightarrow> Some p)"

record list_query =
  lq_filter :: "string option"
  lq_orderBy :: "string option"
  lq_pageSize :: nat
  lq_pageToken :: "string option"

datatype list_request =
    Org_list "(string \<times> string) list" list_query
  | Space_list "(string \<times> string) list" list_query

definition list_query_of :: "((string \<times> string) list \<Rightarrow> string option) \<Rightarrow> list_controls_value \<Rightarrow> list_query" where
  "list_query_of build v = \<lparr>lq_filter = build (lv_filters v), lq_orderBy = orderByParam (lv_sort v),
     lq_pageSize = lv_pageSize v, lq_pageToken = lv_pageToken v\<rparr>"

definition scoped_list :: "string \<Rightarrow> list_controls_value \<Rightarrow> list_query \<Rightarrow> list_request" where
  "scoped_list organization v q =
     (if lv_scope v \<noteq> [] then Space_list [(''organization'', organization), (''space'', lv_scope v)] q
      else Org_list [(''organization'', organization)] q)"

definition buildConnectorsListRequest :: "string \<Rightarrow> list_controls_value \<Rightarrow> list_request" where
  "buildConnectorsListRequest organization v = scoped_list organization v (list_query_of buildConnectorFilter v)"

definition buildSecretsListRequest :: "string \<Rightarrow> list_controls_value \<Rightarrow> list_request" where
  "buildSecretsListRequest organization v = scoped_list organization v (list_query_of buildSecretFilter v)"

definition buildWorkflowsListRequest :: "string \<Rightarrow> list_controls_value \<Rightarrow> list_request" where
  "buildWorkflowsListRequest organization v = scoped_list organization v (list_query_of buildWorkflowFilter v)"

section \<open>Routes\<close>

definition CONNECTORS_PATH :: string where "CONNECTORS_PATH = ''/v1/organizations/{organization}/connectors''"

definition SPACE_CONNECTORS_PATH :: string where
  "SPACE_CONNECTORS_PATH = ''/v1/organizations/{organization}/spaces/{space}/connectors''"

definition CONNECTOR_PATH :: string where "CONNECTOR_PATH = ''/v1/organizations/{organization}/connectors/{connector}''"

definition SPACE_CONNECTOR_PATH :: string where
  "SPACE_CONNECTOR_PATH = ''/v1/organizations/{organization}/spaces/{space}/connectors/{connector}''"

definition SECRETS_PATH :: string where "SECRETS_PATH = ''/v1/organizations/{organization}/secrets''"

definition SPACE_SECRETS_PATH :: string where
  "SPACE_SECRETS_PATH = ''/v1/organizations/{organization}/spaces/{space}/secrets''"

definition SECRET_PATH :: string where "SECRET_PATH = ''/v1/organizations/{organization}/secrets/{secret}''"

definition SPACE_SECRET_PATH :: string where
  "SPACE_SECRET_PATH = ''/v1/organizations/{organization}/spaces/{space}/secrets/{secret}''"

definition WORKFLOW_PATH :: string where "WORKFLOW_PATH = ''/v1/organizations/{organization}/workflows/{workflow}''"

definition SPACE_WORKFLOW_PATH :: string where
  "SPACE_WORKFLOW_PATH = ''/v1/organizations/{organization}/spaces/{space}/workflows/{workflow}''"

text \<open>The path parameters of an item: organization, space if any, and the item itself.\<close>

type_synonym item_params = "string \<times> string option \<times> string"

definition connectorItemParams :: "string \<Rightarrow> name_error + item_params" where
  "connectorItemParams name =
     map_sum id (\<lambda>p. (or_default (map_of p ''organization'') [], map_of p ''space'', or_default (map_of p ''connector'') []))
       (resourcePathParams name)"

definition secretItemParams :: "string \<Rightarrow> name_error + item_params" where
  "secretItemParams name =
     map_sum id (\<lambda>p. (or_default (map_of p ''organization'') [], map_of p ''space'', or_default (map_of p ''secret'') []))
       (resourcePathParams name)"

text \<open>The request on one item, on the path its scope dictates.\<close>

definition item_request ::
  "http_method \<Rightarrow> string \<Rightarrow> string \<Rightarrow> string \<Rightarrow> (string \<times> string) list \<Rightarrow> json option \<Rightarrow> item_params \<Rightarrow> request" where
  "item_request meth org_path space_path param query body item =
     (case item of (organization, space, ident) \<Rightarrow>
        if truthy space
        then \<lparr>rq_method = meth, rq_path = space_path,
               rq_params = [(''organization'', organization), (''space'', the space), (param, ident)], rq_query = query, rq_body = body\<rparr>
        else \<lparr>rq_method = meth, rq_path = org_path, rq_params = [(''organization'', organization), (param, ident)],
               rq_query = query, rq_body = body\<rparr>)"

definition create_request :: "string \<Rightarrow> string \<Rightarrow> string \<Rightarrow> string \<Rightarrow> (string \<times> string) list \<Rightarrow> json \<Rightarrow> request" where
  "create_request org_path space_path organization scope query body =
     (if scope \<noteq> []
      then \<lparr>rq_method = POST, rq_path = space_path, rq_params = [(''organization'', organization), (''space'', scope)],
             rq_query = query, rq_body = Some body\<rparr>
      else \<lparr>rq_method = POST, rq_path = org_path, rq_params = [(''organization'', organization)], rq_query = query, rq_body = Some body\<rparr>)"

text \<open>A stored resource: its name and its version tag, where present.\<close>

record stored =
  so_name :: "string option"
  so_etag :: "string option"

definition etag_query :: "stored \<Rightarrow> (string \<times> string) list" where
  "etag_query r = (if truthy (so_etag r) then [(''etag'', the (so_etag r))] else [])"

definition editing_name :: "stored option \<Rightarrow> string" where
  "editing_name editing = or_default (Option.bind editing so_name) []"

definition saveConnector :: "form_mode \<Rightarrow> stored option \<Rightarrow> string \<Rightarrow> connector_form_values \<Rightarrow> name_error + request" where
  "saveConnector mode editing organization values =
     (let body = buildConnectorBody values in
      if mode = Mode_create
      then Inr (create_request CONNECTORS_PATH SPACE_CONNECTORS_PATH organization (cf_scope values)
             [(''connectorId'', cf_connectorId values)] body)
      else map_sum id (item_request PATCH CONNECTOR_PATH SPACE_CONNECTOR_PATH ''connector'' [] (Some body))
             (connectorItemParams (editing_name editing)))"

definition deleteConnector :: "stored \<Rightarrow> name_error + request" where
  "deleteConnector r =
     map_sum id (item_request DELETE CONNECTOR_PATH SPACE_CONNECTOR_PATH ''connector'' (etag_query r) None)
       (connectorItemParams (or_default (so_name r) []))"

definition saveSecret :: "form_mode \<Rightarrow> stored option \<Rightarrow> string \<Rightarrow> secret_form_values \<Rightarrow> name_error + request" where
  "saveSecret mode editing organization values =
     (if mode = Mode_create
      then Inr (create_request SECRETS_PATH SPACE_SECRETS_PATH organization (sf_scope values)
             [(''secretId'', sf_secretId values)] (buildSecretCreateBody values))
      else map_sum id (item_request PATCH SECRET_PATH SPACE_SECRET_PATH ''secret'' []
             (Some (buildSecretUpdateBody values (Option.bind editing so_etag))))
             (secretItemParams (editing_name editing)))"

definition deleteSecret :: "stored \<Rightarrow> name_error + request" where
  "deleteSecret r =
     map_sum id (item_request DELETE SECRET_PATH SPACE_SECRET_PATH ''secret'' (etag_query r) None)
       (secretItemParams (or_default (so_name r) []))"

definition deleteWorkflow :: "stored \<Rightarrow> name_error + request" where
  "deleteWorkflow r =
     map_sum id
       (\<lambda>parts. item_request DELETE WORKFLOW_PATH SPACE_WORKFLOW_PATH ''workflow'' (etag_query r) None
          (or_default (map_of parts ''organizations'') [], map_of parts ''spaces'', or_default (map_of parts ''workflows'') []))
       (parseResourceName (or_default (so_name r) []))"

section \<open>A request goes to its resource\<close>

text \<open>
  The HTTP client (openapi-fetch) is not part of the repository: how it writes the path of a request
  from a path template and its parameters is the argument \<open>ser\<close> of what follows. The code relies on
  its documented path serialization (the OpenAPI style \<open>simple\<close>): every segment \<open>{param}\<close> of the
  template is replaced by the parameter's value, percent-encoded, and the rest of the template
  stands. Of the encoding it is only assumed that it writes unreserved characters and percent
  escapes, that decoding gives the text back, and that it leaves letters, digits and \<open>-._~\<close> alone;
  \<open>encodeURIComponent\<close> is one.
\<close>

definition plain_char :: "char \<Rightarrow> bool" where
  "plain_char c \<longleftrightarrow> (65 \<le> byte c \<and> byte c \<le> 90) \<or> (97 \<le> byte c \<and> byte c \<le> 122) \<or> is_digit c \<or> c \<in> set ''-._~''"

definition percent_coding :: "(string \<Rightarrow> string) \<Rightarrow> bool" where
  "percent_coding enc \<longleftrightarrow>
     (\<forall>v. list_all cookie_octet (enc v) \<and> (utf8 v \<longrightarrow> decodeURIComponent (enc v) = Some v) \<and> (list_all plain_char v \<longrightarrow> enc v = v))"

definition fill_segment :: "(string \<Rightarrow> string) \<Rightarrow> (string \<times> string) list \<Rightarrow> string \<Rightarrow> string" where
  "fill_segment enc params seg =
     (if seg \<noteq> [] \<and> hd seg = CHR 0x7B \<and> last seg = CHR 0x7D
      then case map_of params (butlast (tl seg)) of Some v \<Rightarrow> enc v | None \<Rightarrow> seg else seg)"

definition simple_template :: "string \<Rightarrow> (string \<times> string) list \<Rightarrow> bool" where
  "simple_template path params \<longleftrightarrow>
     list_all (\<lambda>seg. list_all plain_char seg
         \<or> list_ex (\<lambda>p. list_all plain_char (fst p) \<and> seg = CHR 0x7B # fst p @ [CHR 0x7D]) params)
       (split_on (CHR ''/'') path)"

definition path_serializer :: "(string \<Rightarrow> (string \<times> string) list \<Rightarrow> string) \<Rightarrow> bool" where
  "path_serializer ser \<longleftrightarrow>
     (\<exists>enc. percent_coding enc
        \<and> (\<forall>path params. simple_template path params \<longrightarrow>
             ser path params = join_with ''/'' (map (fill_segment enc params) (split_on (CHR ''/'') path))))"

lemma plain_decodes: "list_all plain_char s \<Longrightarrow> decodeURIComponent s = Some s"
proof (induction s)
  case (Cons c s)
  have "c \<noteq> CHR ''%''" using Cons.prems by (auto simp: plain_char_def is_digit_def)
  with Cons show ?case by simp
qed simp

lemma plain_octets: "list_all plain_char s \<Longrightarrow> list_all cookie_octet s"
  unfolding list_all_iff by (auto simp: plain_char_def cookie_octet_def unreserved_def)

lemma encodeURIComponent_codes: "percent_coding encodeURIComponent"
proof -
  have "encodeURIComponent v = v" if "list_all plain_char v" for v
    using that by (induction v) (auto simp: encodeURIComponent_def encode_char_def plain_char_def unreserved_def)
  then show ?thesis by (simp add: percent_coding_def encode_octets decode_encode)
qed

text \<open>
  A URL path addresses the resource of a name: it is the version prefix followed by segments that
  decode to exactly those of the name, and it holds no character that would end it early (no
  question mark, no hash, no other slash). Of a name in plain characters it is the name itself.
\<close>

definition addresses :: "string \<Rightarrow> segments \<Rightarrow> bool" where
  "addresses url segs \<longleftrightarrow>
     (\<exists>rest. url = ''/v1/'' @ rest
        \<and> list_all (\<lambda>c. cookie_octet c \<or> c = CHR ''/'') rest
        \<and> map decodeURIComponent (split_on (CHR ''/'') rest) = map Some (flat_pairs segs)
        \<and> (list_all (list_all plain_char) (flat_pairs segs) \<longrightarrow> rest = format_name segs))"

definition goes_to :: "(string \<Rightarrow> (string \<times> string) list \<Rightarrow> string) \<Rightarrow> request \<Rightarrow> segments \<Rightarrow> bool" where
  "goes_to ser r segs \<longleftrightarrow> addresses (ser (rq_path r) (rq_params r)) segs"

text \<open>The collections of a name are plain, and its identifiers are text.\<close>

definition text_segments :: "segments \<Rightarrow> bool" where
  "text_segments segs \<longleftrightarrow> list_all (\<lambda>(c, i). list_all plain_char c \<and> utf8 i) segs"

fun coded_pairs :: "(string \<Rightarrow> string) \<Rightarrow> segments \<Rightarrow> string list" where
  "coded_pairs enc [] = []"
| "coded_pairs enc ((c, i) # segs) = c # enc i # coded_pairs enc segs"

lemma octets_join: "\<forall>p \<in> set ps. list_all cookie_octet p \<Longrightarrow> list_all (\<lambda>c. cookie_octet c \<or> c = CHR ''/'') (join_with ''/'' ps)"
proof (induction ps)
  case (Cons p ps)
  then have "list_all (\<lambda>c. cookie_octet c \<or> c = CHR ''/'') p" by (auto simp: list_all_iff)
  with Cons show ?case by (cases ps) simp_all
qed simp

lemma octets_no_slash: "list_all cookie_octet p \<Longrightarrow> CHR ''/'' \<notin> set p"
  by (auto simp: list_all_iff cookie_octet_def unreserved_def is_digit_def)

lemma coded_addresses:
  assumes "percent_coding enc" and "text_segments segs" and "segs \<noteq> []"
  shows "addresses (join_with ''/'' ([[]] @ ''v1'' # coded_pairs enc segs)) segs"
proof -
  have oct: "\<forall>p \<in> set (coded_pairs enc segs). list_all cookie_octet p"
    using assms(1,2) plain_octets by (induction enc segs rule: coded_pairs.induct) (auto simp: text_segments_def percent_coding_def)
  have dec: "map decodeURIComponent (coded_pairs enc segs) = map Some (flat_pairs segs)"
    using assms(1,2) plain_decodes by (induction enc segs rule: coded_pairs.induct) (auto simp: text_segments_def percent_coding_def)
  have pl: "list_all (list_all plain_char) (flat_pairs segs) \<Longrightarrow> coded_pairs enc segs = flat_pairs segs"
    using assms(1) by (induction enc segs rule: coded_pairs.induct) (auto simp: percent_coding_def)
  have ne: "coded_pairs enc segs \<noteq> []" using assms(3) by (cases segs) auto
  then have "join_with ''/'' ([[]] @ ''v1'' # coded_pairs enc segs) = ''/v1/'' @ join_with ''/'' (coded_pairs enc segs)"
    by (cases "coded_pairs enc segs") simp_all
  moreover have "split_on (CHR ''/'') (join_with ''/'' (coded_pairs enc segs)) = coded_pairs enc segs"
    using ne oct octets_no_slash by (intro split_join) auto
  ultimately show ?thesis
    using oct dec pl octets_join [OF oct] unfolding addresses_def format_name_def by auto
qed

text \<open>The name of a resource below an organization, or below a space of it.\<close>

definition scoped_segments :: "string \<Rightarrow> string \<Rightarrow> string option \<Rightarrow> string \<Rightarrow> segments" where
  "scoped_segments collection organization space ident =
     (''organizations'', organization) # (case space of None \<Rightarrow> [] | Some s \<Rightarrow> [(''spaces'', s)]) @ [(collection, ident)]"

lemma resourcePathParams_scoped:
  assumes "wf_segments (scoped_segments collection org sp ident)" and "map_of COLLECTION_TO_PARAM collection = Some param"
  shows "resourcePathParams (format_name (scoped_segments collection org sp ident)) =
    Inr ((''organization'', org) # (case sp of None \<Rightarrow> [] | Some s \<Rightarrow> [(''space'', s)]) @ [(param, ident)])"
proof -
  let ?segs = "scoped_segments collection org sp ident"
  have d: "distinct (map fst ?segs)" using assms(1) by (simp add: wf_segments_def)
  have dom: "fst ` set ?segs \<subseteq> dom (map_of COLLECTION_TO_PARAM)"
  proof -
    have "{''organizations'', ''spaces''} \<subseteq> dom (map_of COLLECTION_TO_PARAM)"
      by (simp add: COLLECTION_TO_PARAM_def)
    with assms(2) show ?thesis by (auto simp: scoped_segments_def split: option.splits)
  qed
  have "path_params_loop ?segs [] = Inr (map (\<lambda>x. (param_of (fst x), snd x)) ?segs)"
    using path_params_loop_eq [OF d, of "[]"] dom by simp
  moreover have "map_of COLLECTION_TO_PARAM ''organizations'' = Some ''organization''" "map_of COLLECTION_TO_PARAM ''spaces'' = Some ''space''"
    by (simp_all add: COLLECTION_TO_PARAM_def)
  ultimately show ?thesis
    using assms(2) parseResourceName_complete [OF assms(1)]
    by (cases sp) (simp_all add: resourcePathParams_def scoped_segments_def)
qed

text \<open>
  The contract of the routes of one kind of resource: the parameters are read off the name, and
  the two paths, filled in, spell the name again, with its identifiers percent-encoded.
\<close>

locale item_route =
  fixes item_of :: "string \<Rightarrow> name_error + item_params" and collection param org_path space_path :: string
  assumes item_of_name: "wf_segments (scoped_segments collection org sp ident) \<Longrightarrow>
      item_of (format_name (scoped_segments collection org sp ident)) = Inr (org, sp, ident)"
    and org_path_name: "simple_template org_path [(''organization'', org), (param, ident)]
      \<and> map (fill_segment enc [(''organization'', org), (param, ident)]) (split_on (CHR ''/'') org_path)
          = [[]] @ ''v1'' # coded_pairs enc (scoped_segments collection org None ident)"
    and space_path_name: "simple_template space_path [(''organization'', org), (''space'', s), (param, ident)]
      \<and> map (fill_segment enc [(''organization'', org), (''space'', s), (param, ident)]) (split_on (CHR ''/'') space_path)
          = [[]] @ ''v1'' # coded_pairs enc (scoped_segments collection org (Some s) ident)"
begin

lemma item_request_url:
  assumes "wf_segments (scoped_segments collection org sp ident)" and "text_segments (scoped_segments collection org sp ident)"
    and "name = format_name (scoped_segments collection org sp ident)" and "path_serializer ser"
  shows "\<exists>r. map_sum id (item_request meth org_path space_path param query body) (item_of name) = Inr r
    \<and> goes_to ser r (scoped_segments collection org sp ident)
    \<and> rq_method r = meth \<and> rq_query r = query \<and> rq_body r = body"
proof -
  obtain enc where enc: "percent_coding enc" and
    ser: "\<And>path params. simple_template path params \<Longrightarrow>
      ser path params = join_with ''/'' (map (fill_segment enc params) (split_on (CHR ''/'') path))"
    using assms(4) unfolding path_serializer_def by blast
  have "scoped_segments collection org sp ident \<noteq> []" by (simp add: scoped_segments_def)
  note url = coded_addresses [OF enc assms(2) this]
  show ?thesis
  proof (cases sp)
    case None
    have "addresses (ser org_path [(''organization'', org), (param, ident)]) (scoped_segments collection org sp ident)"
      using url org_path_name [of org ident enc] None by (simp add: ser del: append.simps)
    then show ?thesis using item_of_name [OF assms(1)] assms(3) None by (simp add: item_request_def goes_to_def)
  next
    case (Some s)
    then have "truthy (Some s)" using assms(1) by (simp add: wf_segments_def scoped_segments_def truthy_def)
    moreover have "addresses (ser space_path [(''organization'', org), (''space'', s), (param, ident)]) (scoped_segments collection org sp ident)"
      using url space_path_name [of org s ident enc] Some by (simp add: ser del: append.simps)
    ultimately show ?thesis using item_of_name [OF assms(1)] assms(3) Some by (simp add: item_request_def goes_to_def)
  qed
qed

end

lemma connector_paths:
  "split_on (CHR ''/'') CONNECTOR_PATH = [[], ''v1'', ''organizations'', ''{organization}'', ''connectors'', ''{connector}'']"
  "split_on (CHR ''/'') SPACE_CONNECTOR_PATH
     = [[], ''v1'', ''organizations'', ''{organization}'', ''spaces'', ''{space}'', ''connectors'', ''{connector}'']"
  by code_simp+

lemma secret_paths:
  "split_on (CHR ''/'') SECRET_PATH = [[], ''v1'', ''organizations'', ''{organization}'', ''secrets'', ''{secret}'']"
  "split_on (CHR ''/'') SPACE_SECRET_PATH
     = [[], ''v1'', ''organizations'', ''{organization}'', ''spaces'', ''{space}'', ''secrets'', ''{secret}'']"
  by code_simp+

lemma workflow_paths:
  "split_on (CHR ''/'') WORKFLOW_PATH = [[], ''v1'', ''organizations'', ''{organization}'', ''workflows'', ''{workflow}'']"
  "split_on (CHR ''/'') SPACE_WORKFLOW_PATH
     = [[], ''v1'', ''organizations'', ''{organization}'', ''spaces'', ''{space}'', ''workflows'', ''{workflow}'']"
  by code_simp+

definition workflowItemParams :: "string \<Rightarrow> name_error + item_params" where
  "workflowItemParams name =
     map_sum id (\<lambda>parts. (or_default (map_of parts ''organizations'') [], map_of parts ''spaces'', or_default (map_of parts ''workflows'') []))
       (parseResourceName name)"

interpretation connector_route: item_route connectorItemParams "''connectors''" "''connector''" CONNECTOR_PATH SPACE_CONNECTOR_PATH
proof unfold_locales
  fix org sp ident assume wf: "wf_segments (scoped_segments ''connectors'' org sp ident)"
  have "map_of COLLECTION_TO_PARAM ''connectors'' = Some ''connector''" by (simp add: COLLECTION_TO_PARAM_def)
  from resourcePathParams_scoped [OF wf this]
  show "connectorItemParams (format_name (scoped_segments ''connectors'' org sp ident)) = Inr (org, sp, ident)"
    by (cases sp) (simp_all add: connectorItemParams_def)
qed (simp_all add: connector_paths simple_template_def plain_char_def is_digit_def fill_segment_def scoped_segments_def)

interpretation secret_route: item_route secretItemParams "''secrets''" "''secret''" SECRET_PATH SPACE_SECRET_PATH
proof unfold_locales
  fix org sp ident assume wf: "wf_segments (scoped_segments ''secrets'' org sp ident)"
  have "map_of COLLECTION_TO_PARAM ''secrets'' = Some ''secret''" by (simp add: COLLECTION_TO_PARAM_def)
  from resourcePathParams_scoped [OF wf this]
  show "secretItemParams (format_name (scoped_segments ''secrets'' org sp ident)) = Inr (org, sp, ident)"
    by (cases sp) (simp_all add: secretItemParams_def)
qed (simp_all add: secret_paths simple_template_def plain_char_def is_digit_def fill_segment_def scoped_segments_def)

interpretation workflow_route: item_route workflowItemParams "''workflows''" "''workflow''" WORKFLOW_PATH SPACE_WORKFLOW_PATH
proof unfold_locales
  fix org sp ident assume wf: "wf_segments (scoped_segments ''workflows'' org sp ident)"
  show "workflowItemParams (format_name (scoped_segments ''workflows'' org sp ident)) = Inr (org, sp, ident)"
    unfolding workflowItemParams_def parseResourceName_complete [OF wf]
    by (cases sp) (simp_all add: scoped_segments_def)
qed (simp_all add: workflow_paths simple_template_def plain_char_def is_digit_def fill_segment_def scoped_segments_def)

lemma deleteWorkflow_route:
  "deleteWorkflow r = map_sum id (item_request DELETE WORKFLOW_PATH SPACE_WORKFLOW_PATH ''workflow'' (etag_query r) None)
     (workflowItemParams (or_default (so_name r) []))"
  by (cases "parseResourceName (or_default (so_name r) [])") (simp_all add: deleteWorkflow_def workflowItemParams_def)

lemma text_scoped:
  "text_segments (scoped_segments collection org sp ident) \<longleftrightarrow> list_all plain_char collection \<and> utf8 org \<and> pred_option utf8 sp \<and> utf8 ident"
  by (cases sp) (auto simp: text_segments_def scoped_segments_def plain_char_def is_digit_def)

lemma text_collections:
  "list_all plain_char ''connectors''" "list_all plain_char ''secrets''" "list_all plain_char ''workflows''" "list_all plain_char ''versions''"
  by (simp_all add: plain_char_def is_digit_def)

text \<open>
  C24. Changing and deleting go to the resource itself: for a resource below an organization or
  below one of its spaces, whose identifiers are well-formed text, the request to save an edited
  connector or secret, or to delete a connector, secret or workflow, is built without an error, and
  the path the client writes from it addresses exactly this resource: the version prefix, then
  segments that decode to those of the name, and the name itself where it needs no escapes. A save
  carries the body of the form; a deletion carries the version tag that was read, if there is one.
  About the client this assumes only that it percent-encodes the parameters into the template.
  (The platform's URL parser may still resolve a segment that is a dot or two.)
\<close>

theorem item_requests_hit_their_resource:
  assumes "path_serializer ser" and "utf8 org" "pred_option utf8 sp" "utf8 ident"
    and "wf_segments (scoped_segments ''connectors'' org sp ident)" and "so_name c = Some (format_name (scoped_segments ''connectors'' org sp ident))"
    and "wf_segments (scoped_segments ''secrets'' org sp ident)" and "so_name s = Some (format_name (scoped_segments ''secrets'' org sp ident))"
    and "wf_segments (scoped_segments ''workflows'' org sp ident)" and "so_name w = Some (format_name (scoped_segments ''workflows'' org sp ident))"
  shows "\<exists>r1 r2 r3 r4 r5.
      saveConnector Mode_edit (Some c) organization cv = Inr r1 \<and> goes_to ser r1 (scoped_segments ''connectors'' org sp ident) \<and> rq_method r1 = PATCH
        \<and> rq_body r1 = Some (buildConnectorBody cv)
      \<and> deleteConnector c = Inr r2 \<and> goes_to ser r2 (scoped_segments ''connectors'' org sp ident) \<and> rq_method r2 = DELETE \<and> rq_query r2 = etag_query c
      \<and> saveSecret Mode_edit (Some s) organization sv = Inr r3 \<and> goes_to ser r3 (scoped_segments ''secrets'' org sp ident) \<and> rq_method r3 = PATCH
        \<and> rq_body r3 = Some (buildSecretUpdateBody sv (so_etag s))
      \<and> deleteSecret s = Inr r4 \<and> goes_to ser r4 (scoped_segments ''secrets'' org sp ident) \<and> rq_method r4 = DELETE \<and> rq_query r4 = etag_query s
      \<and> deleteWorkflow w = Inr r5 \<and> goes_to ser r5 (scoped_segments ''workflows'' org sp ident) \<and> rq_method r5 = DELETE \<and> rq_query r5 = etag_query w"
proof -
  have written: "text_segments (scoped_segments collection org sp ident)"
    if "collection \<in> {''connectors'', ''secrets'', ''workflows''}" for collection
    using that assms(2-4) text_collections by (auto simp: text_scoped)
  have n: "editing_name (Some c) = the (so_name c)" "editing_name (Some s) = the (so_name s)"
    using assms(6,8) by (simp_all add: editing_name_def)
  have names: "the (so_name c) = format_name (scoped_segments ''connectors'' org sp ident)"
    "the (so_name s) = format_name (scoped_segments ''secrets'' org sp ident)"
    "the (so_name w) = format_name (scoped_segments ''workflows'' org sp ident)" using assms(6,8,10) by simp_all
  have o: "or_default (so_name c) [] = the (so_name c)" "or_default (so_name s) [] = the (so_name s)"
    "or_default (so_name w) [] = the (so_name w)" using assms(6,8,10) by simp_all
  note connector = connector_route.item_request_url [OF assms(5) written names(1) assms(1)]
    and secret = secret_route.item_request_url [OF assms(7) written names(2) assms(1)]
    and workflow = workflow_route.item_request_url [OF assms(9) written names(3) assms(1)]
  have "\<exists>r1. saveConnector Mode_edit (Some c) organization cv = Inr r1 \<and> goes_to ser r1 (scoped_segments ''connectors'' org sp ident) \<and> rq_method r1 = PATCH
      \<and> rq_body r1 = Some (buildConnectorBody cv)"
    using connector [of PATCH "[]" "Some (buildConnectorBody cv)"] by (auto simp: saveConnector_def n)
  moreover have "\<exists>r2. deleteConnector c = Inr r2 \<and> goes_to ser r2 (scoped_segments ''connectors'' org sp ident) \<and> rq_method r2 = DELETE \<and> rq_query r2 = etag_query c"
    using connector [of DELETE "etag_query c" None] by (auto simp: deleteConnector_def o)
  moreover have "\<exists>r3. saveSecret Mode_edit (Some s) organization sv = Inr r3 \<and> goes_to ser r3 (scoped_segments ''secrets'' org sp ident) \<and> rq_method r3 = PATCH
      \<and> rq_body r3 = Some (buildSecretUpdateBody sv (so_etag s))"
    using secret [of PATCH "[]" "Some (buildSecretUpdateBody sv (so_etag s))"] by (auto simp: saveSecret_def n)
  moreover have "\<exists>r4. deleteSecret s = Inr r4 \<and> goes_to ser r4 (scoped_segments ''secrets'' org sp ident) \<and> rq_method r4 = DELETE \<and> rq_query r4 = etag_query s"
    using secret [of DELETE "etag_query s" None] by (auto simp: deleteSecret_def o)
  moreover have "\<exists>r5. deleteWorkflow w = Inr r5 \<and> goes_to ser r5 (scoped_segments ''workflows'' org sp ident) \<and> rq_method r5 = DELETE \<and> rq_query r5 = etag_query w"
    using workflow [of DELETE "etag_query w" None] by (auto simp: deleteWorkflow_route o)
  ultimately show ?thesis by blast
qed

definition sample_connector_values :: connector_form_values where
  "sample_connector_values = \<lparr>cf_connectorId = ''mail'', cf_displayName = ''Mail'', cf_description = [], cf_baseUrl = ''https://m'',
     cf_headers = [], cf_agent = [], cf_scope = ''ops''\<rparr>"

definition sample_secret_values :: secret_form_values where
  "sample_secret_values = \<lparr>sf_secretId = ''mail'', sf_displayName = ''Mail'', sf_annotations = [], sf_value = ''x'',
     sf_rotate = True, sf_scope = ''ops''\<rparr>"

text \<open>The hypothesis on the client can hold: it does for \<open>encodeURIComponent\<close>.\<close>

definition sample_client :: "string \<Rightarrow> (string \<times> string) list \<Rightarrow> string" where
  "sample_client path params = join_with ''/'' (map (fill_segment encodeURIComponent params) (split_on (CHR ''/'') path))"

lemma sample_client_serializes: "path_serializer sample_client"
  unfolding path_serializer_def sample_client_def using encodeURIComponent_codes by blast

lemma addresses_plain: "addresses url segs \<Longrightarrow> list_all (list_all plain_char) (flat_pairs segs) \<Longrightarrow> url = ''/v1/'' @ format_name segs"
  by (auto simp: addresses_def)

theorem item_requests_witness:
  "\<exists>r. deleteConnector \<lparr>so_name = Some ''organizations/acme/spaces/ops/connectors/mail'', so_etag = Some ''7''\<rparr> = Inr r
     \<and> sample_client (rq_path r) (rq_params r) = ''/v1/organizations/acme/spaces/ops/connectors/mail'' \<and> rq_query r = [(''etag'', ''7'')]"
proof -
  let ?seg = "\<lambda>c. scoped_segments c ''acme'' (Some ''ops'') ''mail''"
  let ?st = "\<lambda>c. \<lparr>so_name = Some (format_name (?seg c)), so_etag = Some ''7''\<rparr>"
  have wf: "wf_segments (?seg ''connectors'')" "wf_segments (?seg ''secrets'')" "wf_segments (?seg ''workflows'')"
    by (simp_all add: wf_segments_def scoped_segments_def object_prototype_keys_def)
  have n: "format_name (?seg ''connectors'') = ''organizations/acme/spaces/ops/connectors/mail''"
    by (simp add: format_name_def scoped_segments_def)
  have utf: "utf8 ''acme''" "pred_option utf8 (Some ''ops'')" "utf8 ''mail''" by (simp_all add: utf8_ascii)
  obtain r where r: "deleteConnector (?st ''connectors'') = Inr r"
    "goes_to sample_client r (?seg ''connectors'')" "rq_query r = etag_query (?st ''connectors'')"
    using item_requests_hit_their_resource [OF sample_client_serializes utf wf(1) _ wf(2) _ wf(3), of "?st ''connectors''" "?st ''secrets''"
        "?st ''workflows''" "''acme''" sample_connector_values sample_secret_values] by auto
  have "list_all (list_all plain_char) (flat_pairs (?seg ''connectors''))" by (simp add: scoped_segments_def plain_char_def is_digit_def)
  from addresses_plain [OF r(2) [unfolded goes_to_def] this] r(1,3) show ?thesis by (simp add: n etag_query_def truthy_def)
qed

section \<open>Secret values\<close>

text \<open>The inverse of \<open>btoa\<close>, as the server reads a field of type bytes.\<close>

definition base64_value :: "char \<Rightarrow> nat option" where
  "base64_value c = map_of (zip base64_alphabet [0..<64]) c"

definition base64_bytes :: "nat option list \<Rightarrow> nat \<Rightarrow> string option" where
  "base64_bytes vs n =
     (case vs of
        [Some w, Some x, Some y, Some z] \<Rightarrow>
          Some (take n [char_of (w * 4 + x div 16), char_of (x mod 16 * 16 + y div 4), char_of (y mod 4 * 64 + z)])
      | _ \<Rightarrow> None)"

fun atob :: "string \<Rightarrow> string option" where
  "atob [] = Some []"
| "atob (a # b # c # d # s) =
     (if d = CHR ''='' \<and> s = [] then
        (if c = CHR ''='' then base64_bytes [base64_value a, base64_value b, Some 0, Some 0] 1
         else base64_bytes [base64_value a, base64_value b, base64_value c, Some 0] 2)
      else
        (case (base64_bytes [base64_value a, base64_value b, base64_value c, base64_value d] 3, atob s) of
           (Some x, Some y) \<Rightarrow> Some (x @ y) | _ \<Rightarrow> None))"
| "atob _ = None"

lemma base64_alphabet_facts: "length base64_alphabet = 64" "distinct base64_alphabet" "CHR ''='' \<notin> set base64_alphabet"
  by code_simp+

lemma base64_value_char [simp]: "n < 64 \<Longrightarrow> base64_value (base64_char n) = Some n"
  using base64_alphabet_facts by (simp add: base64_value_def base64_char_def map_of_zip_nth)

lemma base64_value_mod: "base64_value (base64_char n) = Some (n mod 64)"
proof -
  have "base64_char n = base64_char (n mod 64)" by (simp add: base64_char_def)
  then show ?thesis by simp
qed

lemma base64_char_not_pad [simp]: "base64_char n \<noteq> CHR ''=''"
proof -
  have "base64_char n \<in> set base64_alphabet"
    using base64_alphabet_facts(1) by (simp add: base64_char_def nth_mem)
  then show ?thesis using base64_alphabet_facts(3) by metis
qed

lemma base64_digits [simp]:
  "byte a div 4 < 64" "byte a mod 4 * 16 + byte b div 16 < 64" "byte b mod 16 * 4 + byte c div 64 < 64"
  "byte a mod 4 * 16 < 64" "byte b mod 16 * 4 < 64"
proof -
  have "byte b div 16 < 16" "byte c div 64 < 4" "byte a mod 4 \<le> 3" "byte b mod 16 \<le> 15"
    by (simp_all add: div_less_iff_less_mult less_Suc_eq_le [symmetric])
  then show "byte a mod 4 * 16 + byte b div 16 < 64" "byte b mod 16 * 4 + byte c div 64 < 64"
    "byte a mod 4 * 16 < 64" "byte b mod 16 * 4 < 64" by linarith+
qed (simp add: div_less_iff_less_mult)

lemma byte_small [simp]:
  "byte b div 16 div 16 = 0" "byte c div 64 div 4 = 0" "byte b div 16 mod 16 = byte b div 16" "byte c div 64 mod 4 = byte c div 64"
proof -
  have "byte b div 16 < 16" "byte c div 64 < 4" by (simp_all add: div_less_iff_less_mult)
  then show "byte b div 16 div 16 = 0" "byte c div 64 div 4 = 0" "byte b div 16 mod 16 = byte b div 16" "byte c div 64 mod 4 = byte c div 64"
    by simp_all
qed

lemma atob_btoa: "atob (btoa s) = Some s"
proof (induction s rule: btoa.induct)
  case (2 a)
  show ?case by (simp add: base64_bytes_def)
next
  case (3 a b)
  show ?case by (simp add: base64_bytes_def)
next
  case (4 a b c s)
  then show ?case by (simp add: base64_bytes_def base64_value_mod [of "byte c"])
qed simp

text \<open>The fields a body sets.\<close>

fun field :: "string \<Rightarrow> json \<Rightarrow> json option" where
  "field k (JObject m) = map_of m k"
| "field k (JString s) = None"

text \<open>
  A secret's value leaves the browser only when it should: the body that creates a secret
  carries the value, the body that edits one carries it exactly when the user rotates it, so
  that an edit of the name or the annotations never touches the stored value; what is sent
  decodes to exactly the bytes typed. An edit always sends the annotations, so that removing
  the last one clears them, and the version tag if there is one.
\<close>

theorem secret_value_sent_when_rotated:
  "Option.bind (field ''value'' (buildSecretCreateBody v)) (\<lambda>j. case j of JString t \<Rightarrow> atob t | _ \<Rightarrow> None) = Some (sf_value v)
   \<and> (field ''value'' (buildSecretUpdateBody v etag) \<noteq> None \<longleftrightarrow> sf_rotate v)
   \<and> (case field ''value'' (buildSecretUpdateBody v etag) of
        Some (JString t) \<Rightarrow> atob t = Some (sf_value v) | Some _ \<Rightarrow> False | None \<Rightarrow> True)
   \<and> field ''annotations'' (buildSecretUpdateBody v etag) = Some (string_map (entriesToMap (sf_annotations v)))
   \<and> field ''etag'' (buildSecretUpdateBody v etag) = (if truthy etag then Some (JString (the etag)) else None)"
  by (simp add: buildSecretCreateBody_def buildSecretUpdateBody_def encodeBytes_def atob_btoa Let_def)

end
