(* ===== verification/Resource_Admin.thy ===== *)
theory Resource_Admin
  imports Resource_Requests
begin

text \<open>
  The generic list and form hooks of the admin pages
  (\<^verbatim>\<open>packages/features/src/resource-admin\<close>: \<^verbatim>\<open>rpc-error.ts\<close>, \<^verbatim>\<open>use-resource-list.ts\<close>,
  \<^verbatim>\<open>use-resource-form.ts\<close>), their descriptors for connectors, secrets and workflows, and the
  loading of a workflow definition (\<^verbatim>\<open>workflows/use-workflow-definition.ts\<close>). A request that
  is under way is part of the state; it ends with an answer (with or without an error status)
  or with a rejected promise, in any order with the user's actions.
\<close>

section \<open>Errors\<close>

record rpc_status =
  rs_code :: "int option"
  rs_message :: "string option"

type_synonym api_error = "rpc_status option"

definition FAILED_PRECONDITION :: int where "FAILED_PRECONDITION = 9"

definition isFailedPrecondition :: "api_error \<Rightarrow> bool" where
  "isFailedPrecondition error \<longleftrightarrow> Option.bind error rs_code = Some FAILED_PRECONDITION"

definition describeRpcError :: "api_error \<Rightarrow> string \<Rightarrow> string" where
  "describeRpcError error fallback =
     (let message = map_option trim (Option.bind error rs_message)
      in if truthy message then the message else fallback)"

definition describeCaughtError :: "'x \<Rightarrow> string \<Rightarrow> string" where
  "describeCaughtError err fallback = fallback"

definition IN_USE_TEXT :: string where
  "IN_USE_TEXT = ''Still in use '' @ em_dash @ '' remove the references before deleting.''"

definition DELETE_TEXT :: string where
  "DELETE_TEXT = ''Couldn'' @ [CHR 39] @ ''t delete. Please try again.''"

definition mapDeleteError :: "api_error \<Rightarrow> string" where
  "mapDeleteError error =
     (if isFailedPrecondition error then describeRpcError error IN_USE_TEXT else describeRpcError error DELETE_TEXT)"

text \<open>How a request ends: an answer, with the error body of a failed status, or a rejected promise.\<close>

datatype outcome = Answered api_error | Rejected

section \<open>Descriptors\<close>

record ('d, 'x, 'j) list_descriptor =
  ld_rowsOf :: "'d option \<Rightarrow> stored list"
  ld_nextPageTokenOf :: "'d option \<Rightarrow> string option"
  ld_rowId :: "stored \<Rightarrow> string"
  ld_extrasOf :: "'d option \<Rightarrow> 'j \<Rightarrow> 'x"
  ld_remove :: "stored \<Rightarrow> name_error + request"
  ld_request :: "string \<Rightarrow> list_controls_value \<Rightarrow> list_request"

record list_response =
  lr_rows :: "stored list option"
  lr_nextPageToken :: "string option"
  lr_agentsInUse :: "string list option"

definition rows_of :: "list_response option \<Rightarrow> stored list" where
  "rows_of data = or_default (Option.bind data lr_rows) []"

definition next_token_of :: "list_response option \<Rightarrow> string option" where
  "next_token_of data = Option.bind data lr_nextPageToken"

definition row_id :: "stored \<Rightarrow> string" where
  "row_id r = or_default (so_name r) []"

definition connectorsListDescriptor ::
  "(list_response, agent_option list \<times> space_option list \<times> string list, agent_option list \<times> space_option list) list_descriptor" where
  "connectorsListDescriptor = \<lparr>ld_rowsOf = rows_of, ld_nextPageTokenOf = next_token_of, ld_rowId = row_id,
     ld_extrasOf = (\<lambda>data injected. (fst injected, snd injected, or_default (Option.bind data lr_agentsInUse) [])),
     ld_remove = deleteConnector, ld_request = buildConnectorsListRequest\<rparr>"

definition secretsListDescriptor :: "(list_response, space_option list, space_option list) list_descriptor" where
  "secretsListDescriptor = \<lparr>ld_rowsOf = rows_of, ld_nextPageTokenOf = next_token_of, ld_rowId = row_id,
     ld_extrasOf = (\<lambda>data injected. injected), ld_remove = deleteSecret, ld_request = buildSecretsListRequest\<rparr>"

definition workflowsListDescriptor :: "(list_response, unit, unit) list_descriptor" where
  "workflowsListDescriptor = \<lparr>ld_rowsOf = rows_of, ld_nextPageTokenOf = next_token_of, ld_rowId = row_id,
     ld_extrasOf = (\<lambda>data injected. ()), ld_remove = deleteWorkflow, ld_request = buildWorkflowsListRequest\<rparr>"

section \<open>The list hook\<close>

record remove_state =
  rm_target :: "stored option"
  rm_error :: "string option"
  rm_pending :: bool

text \<open>The delete confirmation, the deletions under way, and how often the list was fetched again.\<close>

record list_hook =
  lh_remove :: remove_state
  lh_inflight :: "stored list"
  lh_refetches :: nat

definition no_remove :: remove_state where
  "no_remove = \<lparr>rm_target = None, rm_error = None, rm_pending = False\<rparr>"

definition list_mount :: list_hook where
  "list_mount = \<lparr>lh_remove = no_remove, lh_inflight = [], lh_refetches = 0\<rparr>"

definition openRemove :: "stored \<Rightarrow> list_hook \<Rightarrow> list_hook" where
  "openRemove row h = h\<lparr>lh_remove := \<lparr>rm_target = Some row, rm_error = None, rm_pending = False\<rparr>\<rparr>"

definition closeRemove :: "list_hook \<Rightarrow> list_hook" where
  "closeRemove h = h\<lparr>lh_remove := (lh_remove h)\<lparr>rm_target := None\<rparr>\<rparr>"

definition confirmRemove :: "('d, 'x, 'j) list_descriptor \<Rightarrow> list_hook \<Rightarrow> list_hook" where
  "confirmRemove descriptor h =
     (case rm_target (lh_remove h) of
        None \<Rightarrow> h
      | Some t \<Rightarrow>
          if ld_rowId descriptor t = [] then h
          else h\<lparr>lh_remove := (lh_remove h)\<lparr>rm_pending := True, rm_error := None\<rparr>, lh_inflight := lh_inflight h @ [t]\<rparr>)"

text \<open>What follows the \<open>await\<close>: a rejection ends the async function and changes nothing.\<close>

definition removeEnds :: "stored \<Rightarrow> outcome \<Rightarrow> list_hook \<Rightarrow> list_hook" where
  "removeEnds row out h =
     (let h' = h\<lparr>lh_inflight := remove1 row (lh_inflight h)\<rparr> in
      case out of
        Answered (Some e) \<Rightarrow> h'\<lparr>lh_remove := (lh_remove h')\<lparr>rm_pending := False, rm_error := Some (mapDeleteError (Some e))\<rparr>\<rparr>
      | Answered None \<Rightarrow> h'\<lparr>lh_remove := no_remove, lh_refetches := lh_refetches h' + 1\<rparr>
      | Rejected \<Rightarrow> h')"

definition list_nextPage :: "('d, 'x, 'j) list_descriptor \<Rightarrow> 'd option \<Rightarrow> lc \<Rightarrow> lc \<times> emission option" where
  "list_nextPage descriptor data c =
     (let t = ld_nextPageTokenOf descriptor data in
      if truthy t then (case nextPage (the t) c of (c', em) \<Rightarrow> (c', Some em)) else (c, None))"

definition hasNextPage :: "('d, 'x, 'j) list_descriptor \<Rightarrow> 'd option \<Rightarrow> bool" where
  "hasNextPage descriptor data \<longleftrightarrow> truthy (ld_nextPageTokenOf descriptor data)"

section \<open>The form hook\<close>

record form_hook =
  fh_pending :: bool
  fh_error :: "string option"
  fh_removeOpen :: bool
  fh_removePending :: bool
  fh_removeError :: "string option"
  fh_saves :: nat
  fh_deletes :: nat
  fh_done :: nat

definition form_mount :: form_hook where
  "form_mount = \<lparr>fh_pending = False, fh_error = None, fh_removeOpen = False, fh_removePending = False, fh_removeError = None,
     fh_saves = 0, fh_deletes = 0, fh_done = 0\<rparr>"

definition mutate :: "form_hook \<Rightarrow> form_hook" where
  "mutate h = h\<lparr>fh_pending := True, fh_error := None, fh_saves := fh_saves h + 1\<rparr>"

definition saveEnds :: "string \<Rightarrow> outcome \<Rightarrow> form_hook \<Rightarrow> form_hook" where
  "saveEnds saveErrorFallback out h =
     (let h' = h\<lparr>fh_saves := fh_saves h - 1, fh_pending := False\<rparr> in
      case out of
        Answered (Some e) \<Rightarrow> h'\<lparr>fh_error := Some (describeRpcError (Some e) saveErrorFallback)\<rparr>
      | Answered None \<Rightarrow> h'\<lparr>fh_done := fh_done h' + 1\<rparr>
      | Rejected \<Rightarrow> h'\<lparr>fh_error := Some (describeCaughtError out saveErrorFallback)\<rparr>)"

definition onDelete :: "form_hook \<Rightarrow> form_hook" where
  "onDelete h = h\<lparr>fh_removeOpen := True\<rparr>"

definition onRemoveOpenChange :: "bool \<Rightarrow> form_hook \<Rightarrow> form_hook" where
  "onRemoveOpenChange open_now h = (if \<not> fh_removePending h then h\<lparr>fh_removeOpen := open_now\<rparr> else h)"

definition form_confirmRemove :: "stored option \<Rightarrow> form_hook \<Rightarrow> form_hook" where
  "form_confirmRemove rec h =
     (if rec = None then h else h\<lparr>fh_removePending := True, fh_removeError := None, fh_deletes := fh_deletes h + 1\<rparr>)"

definition form_removeEnds :: "outcome \<Rightarrow> form_hook \<Rightarrow> form_hook" where
  "form_removeEnds out h =
     (let h' = h\<lparr>fh_deletes := fh_deletes h - 1\<rparr> in
      case out of
        Answered (Some e) \<Rightarrow> h'\<lparr>fh_removePending := False, fh_removeError := Some (mapDeleteError (Some e))\<rparr>
      | Answered None \<Rightarrow> h'\<lparr>fh_done := fh_done h' + 1\<rparr>
      | Rejected \<Rightarrow> h'\<lparr>fh_removePending := False, fh_removeError := Some (describeCaughtError out DELETE_TEXT)\<rparr>)"

section \<open>Loading a workflow definition\<close>

text \<open>
  The graph made from a version has an identity (the memo makes one per version object). The
  effect starts a layout for each new graph and deactivates the one before; a layout ends with a
  laid-out graph or with an error.
\<close>

record 'l definition_hook =
  dh_astGraph :: "nat option"
  dh_laid :: "(nat \<times> 'l) option"
  dh_layoutError :: "string option"
  dh_layouts :: "(nat \<times> bool) list"

definition definition_mount :: "'l definition_hook" where
  "definition_mount = \<lparr>dh_astGraph = None, dh_laid = None, dh_layoutError = None, dh_layouts = []\<rparr>"

definition deactivate :: "(nat \<times> bool) list \<Rightarrow> (nat \<times> bool) list" where
  "deactivate ls = map (\<lambda>(g, a). (g, False)) ls"

text \<open>A render with another graph, followed by the effect.\<close>

definition new_astGraph :: "nat option \<Rightarrow> 'l definition_hook \<Rightarrow> 'l definition_hook" where
  "new_astGraph g h =
     (if g = dh_astGraph h then h
      else
        (let h' = h\<lparr>dh_astGraph := g, dh_layouts := deactivate (dh_layouts h)\<rparr> in
         case g of
           None \<Rightarrow> h'
         | Some i \<Rightarrow> h'\<lparr>dh_layoutError := None, dh_layouts := dh_layouts h' @ [(i, True)]\<rparr>))"

definition layout_ends :: "nat \<Rightarrow> string + 'l \<Rightarrow> 'l definition_hook \<Rightarrow> 'l definition_hook" where
  "layout_ends k res h =
     (if k < length (dh_layouts h) then
        (let (g, active) = dh_layouts h ! k;
             h' = h\<lparr>dh_layouts := take k (dh_layouts h) @ drop (Suc k) (dh_layouts h)\<rparr>
         in if \<not> active then h'
            else (case res of Inr l \<Rightarrow> h'\<lparr>dh_laid := Some (g, l)\<rparr> | Inl m \<Rightarrow> h'\<lparr>dh_layoutError := Some m\<rparr>))
      else h)"

definition shown_graph :: "'l definition_hook \<Rightarrow> 'l option" where
  "shown_graph h =
     (case dh_laid h of None \<Rightarrow> None | Some (source, l) \<Rightarrow> if dh_astGraph h = Some source then Some l else None)"

definition layingOut :: "'l definition_hook \<Rightarrow> bool" where
  "layingOut h \<longleftrightarrow> dh_astGraph h \<noteq> None \<and> shown_graph h = None \<and> dh_layoutError h = None"

text \<open>The guard at the top: names below a space are refused.\<close>

definition useWorkflowDefinition_guard :: "string \<Rightarrow> (name_error + string) + unit" where
  "useWorkflowDefinition_guard name =
     (case isSpaceScoped name of
        Inl e \<Rightarrow> Inl (Inl e)
      | Inr b \<Rightarrow> if b then Inl (Inr (''useWorkflowDefinition: space-scoped names are not supported yet (got \"'' @ name @ ''\")'')) else Inr ())"

definition isVersionName :: "string \<Rightarrow> name_error + bool" where
  "isVersionName name = map_sum id (\<lambda>m. map_of m ''versions'' \<noteq> None) (parseResourceName name)"

text \<open>The version to show: the name itself, or the live version of the workflow.\<close>

definition targetVersionName :: "bool \<Rightarrow> string \<Rightarrow> string option \<Rightarrow> string option" where
  "targetVersionName asVersion name live = (if asVersion then Some name else live)"

definition definition_error :: "api_error \<Rightarrow> api_error \<Rightarrow> 'l definition_hook \<Rightarrow> string option" where
  "definition_error workflowError versionError h =
     (if workflowError \<noteq> None then Some (describeRpcError workflowError (''Couldn'' @ [CHR 39] @ ''t load the workflow.''))
      else if versionError \<noteq> None then Some (describeRpcError versionError (''Couldn'' @ [CHR 39] @ ''t load the definition.''))
      else dh_layoutError h)"

section \<open>A form never hangs\<close>

lemma describeRpcError_nonempty: "fallback \<noteq> [] \<Longrightarrow> describeRpcError e fallback \<noteq> []"
  by (simp add: describeRpcError_def truthy_def Let_def) (cases e; auto)

lemma delete_texts: "IN_USE_TEXT \<noteq> []" "DELETE_TEXT \<noteq> []"
  by (simp_all add: IN_USE_TEXT_def DELETE_TEXT_def)

lemma mapDeleteError_nonempty: "mapDeleteError e \<noteq> []"
  by (simp add: mapDeleteError_def describeRpcError_nonempty delete_texts)

text \<open>Every order of user actions and ends of requests; a deletion is confirmed in the open dialog.\<close>

inductive form_run :: "string \<Rightarrow> form_hook \<Rightarrow> bool" for fallback where
  mounted: "form_run fallback form_mount"
| submits: "form_run fallback h \<Longrightarrow> form_run fallback (mutate h)"
| saved: "form_run fallback h \<Longrightarrow> 0 < fh_saves h \<Longrightarrow> form_run fallback (saveEnds fallback out h)"
| asks: "form_run fallback h \<Longrightarrow> form_run fallback (onDelete h)"
| toggles: "form_run fallback h \<Longrightarrow> form_run fallback (onRemoveOpenChange b h)"
| confirms: "form_run fallback h \<Longrightarrow> fh_removeOpen h \<Longrightarrow> form_run fallback (form_confirmRemove rec h)"
| deleted: "form_run fallback h \<Longrightarrow> 0 < fh_deletes h \<Longrightarrow> form_run fallback (form_removeEnds out h)"

definition form_ok :: "form_hook \<Rightarrow> bool" where
  "form_ok h \<longleftrightarrow> (fh_pending h \<longrightarrow> 0 < fh_saves h) \<and> (fh_removePending h \<longrightarrow> fh_removeOpen h \<and> (0 < fh_deletes h \<or> 0 < fh_done h))
     \<and> fh_error h \<noteq> Some [] \<and> fh_removeError h \<noteq> Some []"

lemma form_run_ok:
  assumes "form_run fallback h" and "fallback \<noteq> []"
  shows "form_ok h"
  using assms(1)
proof (induction rule: form_run.induct)
  case (saved h out)
  then show ?case
    using assms(2)
    by (auto simp: form_ok_def saveEnds_def describeCaughtError_def describeRpcError_nonempty Let_def split: outcome.splits option.splits)
next
  case (deleted h out)
  then show ?case
    by (auto simp: form_ok_def form_removeEnds_def describeCaughtError_def mapDeleteError_nonempty delete_texts Let_def
        split: outcome.splits option.splits)
qed (auto simp: form_ok_def form_mount_def mutate_def onDelete_def onRemoveOpenChange_def form_confirmRemove_def)

text \<open>
  C32. The form never hangs: after any sequence of submits, deletions and ends of requests, the
  form is pending only while a save is under way and the delete dialog only while a deletion
  is under way or the page was already left, and it stays open meanwhile. Whatever the end of a
  save (success, an error status with or without a message, a rejected promise), the form is
  not pending afterwards and either leaves the page or shows a text that is not empty.
\<close>

theorem form_never_hangs:
  assumes "form_run fallback h" and "fallback \<noteq> []"
  shows "(fh_saves h = 0 \<longrightarrow> \<not> fh_pending h) \<and> (fh_deletes h = 0 \<and> fh_done h = 0 \<longrightarrow> \<not> fh_removePending h)
    \<and> (fh_removePending h \<longrightarrow> fh_removeOpen h)
    \<and> \<not> fh_pending (saveEnds fallback out h)
    \<and> (fh_done (saveEnds fallback out h) = fh_done h + 1 \<or> (\<exists>m. fh_error (saveEnds fallback out h) = Some m \<and> m \<noteq> []))
    \<and> (fh_done (form_removeEnds out h) = fh_done h + 1
       \<or> \<not> fh_removePending (form_removeEnds out h) \<and> (\<exists>m. fh_removeError (form_removeEnds out h) = Some m \<and> m \<noteq> []))"
proof -
  have "form_ok h" by (rule form_run_ok [OF assms])
  moreover have "\<not> fh_pending (saveEnds fallback out h)"
    by (simp add: saveEnds_def Let_def split: outcome.split option.split)
  moreover have "fh_done (saveEnds fallback out h) = fh_done h + 1 \<or> (\<exists>m. fh_error (saveEnds fallback out h) = Some m \<and> m \<noteq> [])"
    using assms(2) by (simp add: saveEnds_def describeCaughtError_def describeRpcError_nonempty Let_def split: outcome.split option.split)
  moreover have "fh_done (form_removeEnds out h) = fh_done h + 1
       \<or> \<not> fh_removePending (form_removeEnds out h) \<and> (\<exists>m. fh_removeError (form_removeEnds out h) = Some m \<and> m \<noteq> [])"
    by (simp add: form_removeEnds_def describeCaughtError_def mapDeleteError_nonempty delete_texts Let_def
        split: outcome.split option.split)
  ultimately show ?thesis by (auto simp: form_ok_def)
qed

theorem form_never_hangs_witness:
  "\<exists>m. fh_error (saveEnds ''failed'' Rejected (mutate form_mount)) = Some m \<and> m \<noteq> [] \<and> \<not> fh_pending (saveEnds ''failed'' Rejected (mutate form_mount))"
proof -
  have "form_run ''failed'' (mutate form_mount)" by (intro form_run.intros)
  from form_never_hangs [OF this, of Rejected] show ?thesis by (auto simp: saveEnds_def mutate_def form_mount_def)
qed

section \<open>Deleting from a list\<close>

text \<open>
  Deleting a row of a list. Confirming sends a deletion only for a row with a name. An error
  status ends the wait and shows a text that is not empty beside the row: the server's message,
  which names what still refers to a resource in use, or a fallback. A success closes the dialog
  and fetches the list again. A rejected promise (the network is down) is not caught: the
  dialog stays pending, without a message, although no request is under way.
\<close>

theorem list_remove_outcomes:
  assumes "ld_rowId d row \<noteq> []" and "h = confirmRemove d (openRemove row list_mount)"
  shows "lh_inflight h = [row] \<and> rm_pending (lh_remove h)
    \<and> lh_remove (removeEnds row (Answered (Some e)) h) = \<lparr>rm_target = Some row, rm_error = Some (mapDeleteError (Some e)), rm_pending = False\<rparr>
    \<and> mapDeleteError (Some e) \<noteq> []
    \<and> (rs_message e = Some msg \<longrightarrow> trim msg \<noteq> [] \<longrightarrow> mapDeleteError (Some e) = trim msg)
    \<and> removeEnds row (Answered None) h = list_mount\<lparr>lh_refetches := 1\<rparr>
    \<and> lh_inflight (removeEnds row Rejected h) = [] \<and> rm_pending (lh_remove (removeEnds row Rejected h))
    \<and> rm_error (lh_remove (removeEnds row Rejected h)) = None"
proof -
  have h: "h = \<lparr>lh_remove = \<lparr>rm_target = Some row, rm_error = None, rm_pending = True\<rparr>, lh_inflight = [row], lh_refetches = 0\<rparr>"
    using assms by (simp add: confirmRemove_def openRemove_def list_mount_def)
  moreover have "rs_message e = Some msg \<longrightarrow> trim msg \<noteq> [] \<longrightarrow> mapDeleteError (Some e) = trim msg"
    by (simp add: mapDeleteError_def describeRpcError_def)
  ultimately show ?thesis
    by (simp add: removeEnds_def list_mount_def no_remove_def mapDeleteError_nonempty)
qed

theorem list_remove_outcomes_witness:
  "rm_pending (lh_remove (removeEnds \<lparr>so_name = Some ''organizations/a/secrets/b'', so_etag = None\<rparr> Rejected
     (confirmRemove secretsListDescriptor (openRemove \<lparr>so_name = Some ''organizations/a/secrets/b'', so_etag = None\<rparr> list_mount))))"
  by (rule list_remove_outcomes [THEN conjunct2, THEN conjunct2, THEN conjunct2, THEN conjunct2, THEN conjunct2, THEN conjunct2,
        THEN conjunct2, THEN conjunct1, OF _ refl]) (simp add: secretsListDescriptor_def row_id_def)

text \<open>The end of a deletion is not matched with the row that is asked about now.\<close>

theorem list_remove_error_moves:
  assumes "ld_rowId d a \<noteq> []"
  shows "lh_remove (removeEnds a (Answered (Some e)) (openRemove b (closeRemove (confirmRemove d (openRemove a list_mount)))))
    = \<lparr>rm_target = Some b, rm_error = Some (mapDeleteError (Some e)), rm_pending = False\<rparr>"
  using assms by (simp add: confirmRemove_def openRemove_def closeRemove_def removeEnds_def list_mount_def)

section \<open>The definition on the canvas\<close>

text \<open>Renders with new graphs and ends of layouts, in any order; \<open>layout\<close> is what a layout gives for a graph.\<close>

inductive definition_run :: "(nat \<Rightarrow> string + 'l) \<Rightarrow> 'l definition_hook \<Rightarrow> bool" for layout where
  starts: "definition_run layout definition_mount"
| renders: "definition_run layout h \<Longrightarrow> definition_run layout (new_astGraph g h)"
| laid_out: "definition_run layout h \<Longrightarrow> k < length (dh_layouts h)
    \<Longrightarrow> definition_run layout (layout_ends k (layout (fst (dh_layouts h ! k))) h)"

text \<open>The layouts under way are for older graphs, except possibly the last, which is the active one.\<close>

definition definition_ok :: "(nat \<Rightarrow> string + 'l) \<Rightarrow> 'l definition_hook \<Rightarrow> bool" where
  "definition_ok layout h \<longleftrightarrow>
     (\<forall>g l. dh_laid h = Some (g, l) \<longrightarrow> layout g = Inr l)
     \<and> (\<forall>x \<in> set (dh_layouts h). snd x \<longrightarrow> dh_astGraph h = Some (fst x))
     \<and> (\<forall>g. dh_astGraph h = Some g \<longrightarrow> (g, True) \<in> set (dh_layouts h) \<or> shown_graph h \<noteq> None \<or> dh_layoutError h \<noteq> None)"

lemma set_deactivate: "x \<in> set (deactivate ls) \<Longrightarrow> \<not> snd x"
  by (auto simp: deactivate_def)

lemma definition_ok_new: "definition_ok layout h \<Longrightarrow> definition_ok layout (new_astGraph g h)"
  by (auto simp: definition_ok_def new_astGraph_def Let_def dest: set_deactivate split: option.splits)

lemma set_remove_nth: "k < length ls \<Longrightarrow> x \<in> set ls \<Longrightarrow> x \<noteq> ls ! k \<Longrightarrow> x \<in> set (take k ls @ drop (Suc k) ls)"
  by (metis Un_iff id_take_nth_drop set_ConsD set_append)

lemma definition_ok_ends:
  assumes "definition_ok layout h" and "k < length (dh_layouts h)"
  shows "definition_ok layout (layout_ends k (layout (fst (dh_layouts h ! k))) h)"
proof -
  obtain g active where ga: "dh_layouts h ! k = (g, active)" by fastforce
  let ?ls = "take k (dh_layouts h) @ drop (Suc k) (dh_layouts h)"
  have sub: "x \<in> set ?ls \<Longrightarrow> x \<in> set (dh_layouts h)" for x by (auto dest: in_set_takeD in_set_dropD)
  have rest: "x \<in> set (dh_layouts h) \<Longrightarrow> x \<noteq> (g, active) \<Longrightarrow> x \<in> set ?ls" for x
    using set_remove_nth [OF assms(2)] ga by metis
  have mem: "(g, active) \<in> set (dh_layouts h)" using assms(2) ga nth_mem by metis
  show ?thesis
  proof (cases active)
    case False
    then have e: "layout_ends k (layout (fst (dh_layouts h ! k))) h = h\<lparr>dh_layouts := ?ls\<rparr>"
      using assms(2) ga by (simp add: layout_ends_def)
    have "(g', True) \<in> set (dh_layouts h) \<Longrightarrow> (g', True) \<in> set ?ls" for g' using rest False by simp
    moreover have "shown_graph (h\<lparr>dh_layouts := ?ls\<rparr>) = shown_graph h"
      by (simp add: shown_graph_def split: option.split)
    ultimately show ?thesis
      using assms(1) sub unfolding e definition_ok_def by simp blast
  next
    case True
    then have cur: "dh_astGraph h = Some g" using mem assms(1) by (auto simp: definition_ok_def)
    show ?thesis
      using True assms ga cur sub
      by (cases "layout g") (auto simp: definition_ok_def layout_ends_def shown_graph_def)
  qed
qed

text \<open>
  The canvas shows the version it is asked for: whatever versions were switched to while
  layouts were running, a graph that is shown is the layout of the current version's graph, and
  once the layout of the current version has ended the hook no longer says it is laying out:
  either the graph is shown or there is an error. A name below a space, or one that does not
  parse, throws before any request.
\<close>

theorem definition_shows_current_version:
  assumes "definition_run layout h"
  shows "(\<forall>l. shown_graph h = Some l \<longrightarrow> (\<exists>g. dh_astGraph h = Some g \<and> layout g = Inr l))
    \<and> (\<forall>g. dh_astGraph h = Some g \<longrightarrow> (g, True) \<notin> set (dh_layouts h) \<longrightarrow> \<not> layingOut h)
    \<and> (useWorkflowDefinition_guard name = Inr () \<longleftrightarrow> (\<exists>m. parseResourceName name = Inr m \<and> map_of m ''spaces'' = None))"
proof -
  have "definition_ok layout h"
    using assms
  proof (induction rule: definition_run.induct)
    case starts
    show ?case by (simp add: definition_ok_def definition_mount_def)
  qed (simp_all add: definition_ok_new definition_ok_ends)
  moreover have "useWorkflowDefinition_guard name = Inr () \<longleftrightarrow> (\<exists>m. parseResourceName name = Inr m \<and> map_of m ''spaces'' = None)"
    by (cases "parseResourceName name") (auto simp: useWorkflowDefinition_guard_def isSpaceScoped_def)
  ultimately show ?thesis
    by (auto simp: definition_ok_def shown_graph_def layingOut_def split: option.splits if_splits)
qed

theorem definition_shows_current_version_witness:
  "\<exists>g. dh_astGraph (layout_ends 1 (Inr ''two'') (new_astGraph (Some 2) (new_astGraph (Some 1) definition_mount))) = Some g
     \<and> g = 2 \<and> shown_graph (layout_ends 1 (Inr ''two'') (new_astGraph (Some 2) (new_astGraph (Some 1) definition_mount))) = Some ''two''"
proof -
  let ?layout = "\<lambda>g. if g = 1 then Inr ''one'' else Inr ''two'' :: string + string"
  let ?h = "new_astGraph (Some 2) (new_astGraph (Some 1) definition_mount) :: string definition_hook"
  have h: "?h = \<lparr>dh_astGraph = Some 2, dh_laid = None, dh_layoutError = None, dh_layouts = [(1, False), (2, True)]\<rparr>"
    by (simp add: new_astGraph_def definition_mount_def deactivate_def)
  have "definition_run ?layout ?h" by (intro definition_run.intros)
  then have "definition_run ?layout (layout_ends 1 (?layout (fst (dh_layouts ?h ! 1))) ?h)"
    by (rule definition_run.laid_out) (unfold h, simp)
  moreover have "?layout (fst (dh_layouts ?h ! 1)) = Inr ''two''" unfolding h by simp
  ultimately have r: "definition_run ?layout (layout_ends 1 (Inr ''two'') ?h)" by simp
  have a: "dh_astGraph (layout_ends 1 (Inr ''two'') ?h) = Some 2" unfolding h by (simp add: layout_ends_def)
  have "shown_graph (layout_ends 1 (Inr ''two'') ?h) = Some ''two''" unfolding h by (simp add: layout_ends_def shown_graph_def)
  with definition_shows_current_version [OF r] obtain g
    where "dh_astGraph (layout_ends 1 (Inr ''two'') ?h) = Some g" by blast
  with a \<open>shown_graph (layout_ends 1 (Inr ''two'') ?h) = Some ''two''\<close> show ?thesis by blast
qed

text \<open>
  An error of the layout stays when the version disappears: while the next workflow is still being
  fetched, the error of the one before is shown.
\<close>

theorem layout_error_outlives_version:
  "dh_layoutError (new_astGraph None (layout_ends 0 (Inl m) (new_astGraph (Some g) definition_mount))) = Some m"
  by (simp add: new_astGraph_def layout_ends_def definition_mount_def deactivate_def)

end
