(* ===== verification/Web_Url.thy ===== *)
theory Web_Url
  imports Uri_Coding
begin

text \<open>
  \<open>new URL(input, base)\<close> of the platform for a base that is an \<open>http\<close> or \<open>https\<close> origin, as
  far as the code uses it: control characters are removed, a scheme is looked for, a leading pair
  of slashes names a host, back slashes count as slashes, dot segments are resolved (escaped dots
  included), and the path, the query and the fragment are percent-encoded. Inputs that name a host
  or another scheme are parsed by a parameter, \<open>foreign\<close>: nothing here depends on how hosts are
  read.

  The theory proves that a path that was serialised once is read back unchanged, and that it has
  no dot segment left.
\<close>

section \<open>The parser\<close>

record url =
  u_origin :: string
  u_pathname :: string
  u_search :: string
  u_hash :: string

type_synonym foreign_parser = "string \<Rightarrow> string \<Rightarrow> url option"

definition control_or_space :: "char \<Rightarrow> bool" where
  "control_or_space c \<longleftrightarrow> byte c \<le> 32"

definition clean_input :: "string \<Rightarrow> string" where
  "clean_input s = filter (\<lambda>c. byte c \<noteq> 9 \<and> byte c \<noteq> 10 \<and> byte c \<noteq> 13)
     (rev (dropWhile control_or_space (rev (dropWhile control_or_space s))))"

definition back_slash :: char where "back_slash = CHR 0x5C"

definition is_slash :: "char \<Rightarrow> bool" where
  "is_slash c \<longleftrightarrow> c = CHR ''/'' \<or> c = back_slash"

definition lower_char :: "char \<Rightarrow> char" where
  "lower_char c = (if 65 \<le> byte c \<and> byte c \<le> 90 then char_of (byte c + 32) else c)"

definition to_lower :: "string \<Rightarrow> string" where
  "to_lower s = map lower_char s"

text \<open>What is percent-encoded in a path, in the query and in the fragment.\<close>

definition unprintable :: "char \<Rightarrow> bool" where
  "unprintable c \<longleftrightarrow> byte c \<le> 32 \<or> 127 \<le> byte c"

definition path_set :: "char \<Rightarrow> bool" where
  "path_set c \<longleftrightarrow> unprintable c \<or> c \<in> {CHR 0x22, CHR ''#'', CHR ''<'', CHR ''>'', CHR ''?'', CHR 0x5E, CHR 0x60, CHR 0x7B, CHR 0x7D}"

definition query_set :: "char \<Rightarrow> bool" where
  "query_set c \<longleftrightarrow> unprintable c \<or> c \<in> {CHR 0x22, CHR ''#'', CHR ''<'', CHR ''>'', CHR 39}"

definition fragment_set :: "char \<Rightarrow> bool" where
  "fragment_set c \<longleftrightarrow> unprintable c \<or> c \<in> {CHR 0x22, CHR ''<'', CHR ''>'', CHR 0x60}"

definition percent_encode :: "(char \<Rightarrow> bool) \<Rightarrow> string \<Rightarrow> string" where
  "percent_encode P s = concat (map (\<lambda>c. if P c then escape c else [c]) s)"

definition dot_segment :: "string \<Rightarrow> bool" where
  "dot_segment s \<longleftrightarrow> to_lower s = ''.'' \<or> to_lower s = ''%2e''"

definition dotdot_segment :: "string \<Rightarrow> bool" where
  "dotdot_segment s \<longleftrightarrow> to_lower s \<in> {''..'', ''.%2e'', ''%2e.'', ''%2e%2e''}"

definition path_segments :: "string \<Rightarrow> string list" where
  "path_segments s = split_on (CHR ''/'') (map (\<lambda>c. if c = back_slash then CHR ''/'' else c) s)"

fun path_walk :: "string list \<Rightarrow> string list \<Rightarrow> string list" where
  "path_walk [] path = path"
| "path_walk [s] path =
     (if dotdot_segment s then butlast path @ [[]]
      else if dot_segment s then path @ [[]]
      else path @ [percent_encode path_set s])"
| "path_walk (s # segs) path =
     (if dotdot_segment s then path_walk segs (butlast path)
      else if dot_segment s then path_walk segs path
      else path_walk segs (path @ [percent_encode path_set s]))"

definition path_text :: "string list \<Rightarrow> string" where
  "path_text segs = concat (map (\<lambda>s. CHR ''/'' # s) segs)"

definition ends_path :: "char \<Rightarrow> bool" where
  "ends_path c \<longleftrightarrow> c = CHR ''?'' \<or> c = CHR ''#''"

definition query_part :: "string \<Rightarrow> string" where
  "query_part s = (case dropWhile (\<lambda>c. \<not> ends_path c) s of
     [] \<Rightarrow> []
   | c # r \<Rightarrow> if c = CHR ''?'' \<and> takeWhile (\<lambda>d. d \<noteq> CHR ''#'') r \<noteq> []
             then CHR ''?'' # percent_encode query_set (takeWhile (\<lambda>d. d \<noteq> CHR ''#'') r) else [])"

definition fragment_part :: "string \<Rightarrow> string" where
  "fragment_part s = (case dropWhile (\<lambda>d. d \<noteq> CHR ''#'') s of
     [] \<Rightarrow> [] | c # r \<Rightarrow> if r = [] then [] else CHR ''#'' # percent_encode fragment_set r)"

definition path_url :: "string \<Rightarrow> string \<Rightarrow> url" where
  "path_url origin s = \<lparr>u_origin = origin,
     u_pathname = path_text (path_walk (path_segments (takeWhile (\<lambda>c. \<not> ends_path c) s)) []),
     u_search = query_part s, u_hash = fragment_part s\<rparr>"

text \<open>A scheme: a letter, then letters, digits and three signs, up to a colon.\<close>

definition is_letter :: "char \<Rightarrow> bool" where
  "is_letter c \<longleftrightarrow> 97 \<le> byte (lower_char c) \<and> byte (lower_char c) \<le> 122"

definition scheme_char :: "char \<Rightarrow> bool" where
  "scheme_char c \<longleftrightarrow> is_letter c \<or> is_digit c \<or> c \<in> set ''+-.''"

definition scheme_of :: "string \<Rightarrow> (string \<times> string) option" where
  "scheme_of s =
     (case s of [] \<Rightarrow> None
      | c # _ \<Rightarrow> if is_letter c \<and> startsWith (dropWhile scheme_char s) '':''
                then Some (to_lower (takeWhile scheme_char s), tl (dropWhile scheme_char s)) else None)"

definition relative_url :: "foreign_parser \<Rightarrow> string \<Rightarrow> string \<times> string \<Rightarrow> url option" where
  "relative_url foreign s base =
     (case s of
        c # d # r \<Rightarrow> if is_slash c \<and> is_slash d then foreign (fst base) s
                    else if is_slash c then Some (path_url (snd base) (d # r))
                    else Some (path_url (snd base) s)
      | [c] \<Rightarrow> Some (path_url (snd base) (if is_slash c then [] else s))
      | [] \<Rightarrow> Some (path_url (snd base) []))"

text \<open>The base is the scheme and the serialised origin.\<close>

definition new_URL :: "foreign_parser \<Rightarrow> string \<Rightarrow> string \<times> string \<Rightarrow> url option" where
  "new_URL foreign input base =
     (let s = clean_input input
      in case scheme_of s of
           Some (scheme, rest) \<Rightarrow>
             if scheme = fst base \<and> \<not> startsWith rest ''//'' then relative_url foreign rest base
             else foreign scheme rest
         | None \<Rightarrow> relative_url foreign s base)"

definition href_path :: "url \<Rightarrow> string" where
  "href_path u = u_pathname u @ u_search u @ u_hash u"

section \<open>What encoding leaves\<close>

lemma hex_digit_byte: "d < 16 \<Longrightarrow> byte (hex_digit d) = (if d < 10 then 48 + d else 55 + d)"
  by (simp add: hex_digit_def)

lemma hex_digit_plain:
  assumes "d < 16"
  shows "\<not> path_set (hex_digit d)" "\<not> query_set (hex_digit d)" "\<not> fragment_set (hex_digit d)"
    "\<not> is_slash (hex_digit d)"
proof -
  have b: "byte (hex_digit d) \<in> {48 .. 57} \<union> {65 .. 70}" using assms by (auto simp: hex_digit_byte)
  then have "hex_digit d \<notin> {CHR 0x22, CHR ''#'', CHR ''<'', CHR ''>'', CHR ''?'', CHR 0x5E, CHR 0x60, CHR 0x7B, CHR 0x7D, CHR 39, CHR ''/'', CHR 0x5C}"
    by auto
  with b show "\<not> path_set (hex_digit d)" "\<not> query_set (hex_digit d)" "\<not> fragment_set (hex_digit d)" "\<not> is_slash (hex_digit d)"
    by (auto simp: path_set_def query_set_def fragment_set_def unprintable_def is_slash_def back_slash_def)
qed

lemma escape_chars: "d \<in> set (escape c) \<Longrightarrow> d = CHR ''%'' \<or> (\<exists>k < 16. d = hex_digit k)"
proof -
  assume "d \<in> set (escape c)"
  then consider "d = CHR ''%''" | "d = hex_digit (byte c div 16)" | "d = hex_digit (byte c mod 16)"
    by (auto simp: escape_def)
  then show ?thesis 
  proof cases
    case 2
    then show ?thesis using high_nibble [of c] by blast
  next
    case 3
    moreover have "byte c mod 16 < 16" by simp
    ultimately show ?thesis by blast
  qed simp
qed

lemma escape_plain:
  assumes "d \<in> set (escape c)"
  shows "\<not> path_set d" "\<not> query_set d" "\<not> fragment_set d" "\<not> is_slash d"
  using escape_chars [OF assms] hex_digit_plain
  by (auto simp: path_set_def query_set_def fragment_set_def unprintable_def is_slash_def back_slash_def)

lemma percent_encode_fixed: "(\<And>c. c \<in> set s \<Longrightarrow> \<not> P c) \<Longrightarrow> percent_encode P s = s"
  by (induction s) (auto simp: percent_encode_def)

lemma percent_encode_Cons: "percent_encode P (c # s) = (if P c then escape c else [c]) @ percent_encode P s"
  by (simp add: percent_encode_def)

lemma percent_encode_Nil [simp]: "percent_encode P s = [] \<longleftrightarrow> s = []"
  by (cases s) (auto simp: percent_encode_def escape_def)

lemma encoded_plain:
  "c \<in> set (percent_encode path_set s) \<Longrightarrow> \<not> path_set c"
  "c \<in> set (percent_encode query_set s) \<Longrightarrow> \<not> query_set c"
  "c \<in> set (percent_encode fragment_set s) \<Longrightarrow> \<not> fragment_set c"
  using escape_plain by (auto simp: percent_encode_def split: if_splits)

lemma encoded_slash:
  "(\<And>c. c \<in> set s \<Longrightarrow> \<not> is_slash c) \<Longrightarrow> c \<in> set (percent_encode P s) \<Longrightarrow> \<not> is_slash c"
  using escape_plain(4) by (auto simp: percent_encode_def split: if_splits)

lemma encoded_visible:
  "\<not> path_set c \<Longrightarrow> 32 < byte c" "\<not> query_set c \<Longrightarrow> 32 < byte c" "\<not> fragment_set c \<Longrightarrow> 32 < byte c"
  by (auto simp: path_set_def query_set_def fragment_set_def unprintable_def)

text \<open>Encoding makes no dot segment: no escaped byte is a dot.\<close>

definition dot_texts :: "string set" where
  "dot_texts = {'''', ''.'', ''..'', ''.%2e'', ''%2e.'', ''%2e%2e'', ''%2e'', ''2e'', ''e'', ''2e.'', ''e.'', ''2e%2e'', ''e%2e''}"

lemma dot_texts_tl: "c # t \<in> dot_texts \<Longrightarrow> t \<in> dot_texts"
  unfolding dot_texts_def by (elim insertE) simp_all

lemma dot_texts_escape: "CHR ''%'' # h # l # t \<in> dot_texts \<Longrightarrow> h = CHR ''2'' \<and> l = CHR ''e''"
  unfolding dot_texts_def by (elim insertE) simp_all

lemma lower_hex:
  assumes "d < 16"
  shows "lower_char (hex_digit d) = CHR ''2'' \<Longrightarrow> d = 2" and "lower_char (hex_digit d) = CHR ''e'' \<Longrightarrow> d = 14"
proof -
  have b: "byte (lower_char (hex_digit d)) = (if d < 10 then 48 + d else 87 + d)"
    using assms by (simp add: lower_char_def hex_digit_byte)
  { assume "lower_char (hex_digit d) = CHR ''2''"
    then have "byte (lower_char (hex_digit d)) = 50" by simp
    with b show "d = 2" using assms by (simp split: if_splits) }
  { assume "lower_char (hex_digit d) = CHR ''e''"
    then have "byte (lower_char (hex_digit d)) = 101" by simp
    with b show "d = 14" using assms by (simp split: if_splits) }
qed

lemma path_set_not_dot: "path_set c \<Longrightarrow> byte c \<noteq> 46"
  by (auto simp: path_set_def unprintable_def)

lemma encode_dot_text: "to_lower (percent_encode path_set s) \<in> dot_texts \<Longrightarrow> percent_encode path_set s = s"
proof (induction s)
  case (Cons c s)
  show ?case
  proof (cases "path_set c")
    case False
    with Cons have "lower_char c # to_lower (percent_encode path_set s) \<in> dot_texts"
      by (simp add: percent_encode_Cons to_lower_def)
    then have "to_lower (percent_encode path_set s) \<in> dot_texts" by (rule dot_texts_tl)
    with Cons.IH False show ?thesis by (simp add: percent_encode_Cons)
  next
    case True
    have p: "lower_char (CHR ''%'') = CHR ''%''" by (simp add: lower_char_def)
    from Cons.prems True have "CHR ''%'' # lower_char (hex_digit (byte c div 16)) # lower_char (hex_digit (byte c mod 16))
      # to_lower (percent_encode path_set s) \<in> dot_texts"
      by (simp add: percent_encode_Cons to_lower_def escape_def p)
    from dot_texts_escape [OF this] have "byte c div 16 = 2" "byte c mod 16 = 14"
      using lower_hex [of "byte c div 16"] lower_hex [of "byte c mod 16"] high_nibble [of c] by simp_all
    then have "byte c = 46" using div_mult_mod_eq [of "byte c" 16] by simp
    with True show ?thesis by (simp add: path_set_not_dot)
  qed
qed (simp add: percent_encode_def)

lemma dot_segment_texts: "dot_segment s \<Longrightarrow> to_lower s \<in> dot_texts" "dotdot_segment s \<Longrightarrow> to_lower s \<in> dot_texts"
  by (auto simp: dot_segment_def dotdot_segment_def dot_texts_def)

lemma encode_keeps_dots:
  "dot_segment (percent_encode path_set s) \<Longrightarrow> dot_segment s"
  "dotdot_segment (percent_encode path_set s) \<Longrightarrow> dotdot_segment s"
  using encode_dot_text dot_segment_texts by fastforce+

section \<open>A serialised path is read back\<close>

text \<open>The segments a path can have: encoded, without slashes, and no dot segments.\<close>

definition plain_segment :: "string \<Rightarrow> bool" where
  "plain_segment s \<longleftrightarrow> (\<forall>c \<in> set s. \<not> path_set c \<and> \<not> is_slash c) \<and> \<not> dot_segment s \<and> \<not> dotdot_segment s"

lemma plain_Nil [simp]: "plain_segment []"
  by (simp add: plain_segment_def dot_segment_def dotdot_segment_def to_lower_def)

lemma path_walk_ne: "segs \<noteq> [] \<Longrightarrow> path_walk segs path \<noteq> []"
  by (induction segs path rule: path_walk.induct) auto

lemma plain_encode:
  assumes "\<forall>c \<in> set s. \<not> is_slash c" and "\<not> dot_segment s" and "\<not> dotdot_segment s"
  shows "plain_segment (percent_encode path_set s)"
  using assms encoded_slash [of s] encoded_plain(1) [of _ s] encode_keeps_dots [of s]
  by (auto simp: plain_segment_def)

lemma path_walk_plain:
  assumes "\<forall>s \<in> set segs. \<forall>c \<in> set s. \<not> is_slash c" and "\<forall>s \<in> set path. plain_segment s"
  shows "\<forall>s \<in> set (path_walk segs path). plain_segment s"
  using assms
  by (induction segs path rule: path_walk.induct) (auto simp: plain_encode dest: in_set_butlastD)

lemma path_segments_slash: "s \<in> set (path_segments t) \<Longrightarrow> c \<in> set s \<Longrightarrow> \<not> is_slash c"
proof -
  let ?u = "map (\<lambda>c. if c = back_slash then CHR ''/'' else c) t"
  assume s: "s \<in> set (path_segments t)" and c: "c \<in> set s"
  then have "CHR ''/'' \<notin> set s" by (auto simp: path_segments_def dest: split_on_parts_no_sep)
  moreover have "set s \<subseteq> set ?u"
  proof -
    have "set p \<subseteq> set (join_with [CHR ''/''] ps)" if "p \<in> set ps" for p ps
      using that by (induction "[CHR ''/'']" ps rule: join_with.induct) auto
    then show ?thesis using s join_split_on [of "CHR ''/''" ?u] by (metis path_segments_def)
  qed
  moreover have "back_slash \<notin> set ?u" by (auto simp: back_slash_def)
  ultimately show ?thesis using c by (auto simp: is_slash_def)
qed

lemma path_walk_fixed: "\<forall>s \<in> set segs. plain_segment s \<Longrightarrow> path_walk segs path = path @ segs"
proof (induction segs path rule: path_walk.induct)
  case (2 s path)
  then show ?case using percent_encode_fixed [of s path_set] by (simp add: plain_segment_def)
next
  case (3 s t segs path)
  then show ?case using percent_encode_fixed [of s path_set] by (simp add: plain_segment_def)
qed simp

lemma path_text_join: "segs \<noteq> [] \<Longrightarrow> path_text segs = CHR ''/'' # join_with ''/'' segs"
  by (induction "''/''" segs rule: join_with.induct) (simp_all add: path_text_def)

lemma path_segments_join:
  assumes "segs \<noteq> []" and "\<forall>s \<in> set segs. plain_segment s"
  shows "path_segments (join_with ''/'' segs) = segs"
proof -
  have sl: "\<forall>p \<in> set segs. CHR ''/'' \<notin> set p \<and> back_slash \<notin> set p"
    using assms(2) by (auto simp: plain_segment_def is_slash_def)
  have "back_slash \<notin> set (join_with ''/'' segs)"
    using sl by (induction "''/''" segs rule: join_with.induct) (auto simp: back_slash_def)
  then have "map (\<lambda>c. if c = back_slash then CHR ''/'' else c) (join_with ''/'' segs) = join_with ''/'' segs"
    by (intro map_idI) auto
  then show ?thesis using split_join [OF assms(1), of "CHR ''/''"] sl by (simp add: path_segments_def)
qed

lemma join_chars:
  assumes "\<forall>s \<in> set segs. plain_segment s" and "c \<in> set (join_with ''/'' segs)"
  shows "\<not> path_set c \<and> \<not> ends_path c"
proof -
  have "c = CHR ''/'' \<or> (\<exists>s \<in> set segs. c \<in> set s)"
    using assms(2) by (induction "''/''" segs rule: join_with.induct) auto
  moreover have "\<not> path_set (CHR ''/'')" by (simp add: path_set_def unprintable_def)
  ultimately have "\<not> path_set c" using assms(1) unfolding plain_segment_def by metis
  then show ?thesis unfolding ends_path_def path_set_def by blast
qed

lemma query_part_cases:
  obtains "query_part s = []"
  | q where "query_part s = CHR ''?'' # q" and "q \<noteq> []" and "\<forall>c \<in> set q. \<not> query_set c" and "CHR ''#'' \<notin> set q"
proof (cases "query_part s")
  case (Cons c q)
  then obtain r where "c = CHR ''?''" "q = percent_encode query_set r" "r \<noteq> []"
    by (auto simp: query_part_def split: list.splits if_splits)
  moreover then have "\<forall>c \<in> set q. \<not> query_set c" using encoded_plain(2) by simp
  moreover then have "CHR ''#'' \<notin> set q" unfolding query_set_def by blast
  ultimately show thesis using that(2) Cons by simp
qed (rule that(1))

lemma fragment_part_cases:
  obtains "fragment_part s = []"
  | q where "fragment_part s = CHR ''#'' # q" and "q \<noteq> []" and "\<forall>c \<in> set q. \<not> fragment_set c"
proof (cases "fragment_part s")
  case (Cons c q)
  then obtain r where "c = CHR ''#''" "q = percent_encode fragment_set r" "r \<noteq> []"
    by (auto simp: fragment_part_def split: list.splits if_splits)
  moreover then have "\<forall>c \<in> set q. \<not> fragment_set c" using encoded_plain(3) by simp
  ultimately show thesis using that(2) Cons by simp
qed (rule that(1))

lemma parts_of_serialised:
  assumes p: "\<forall>c \<in> set p. \<not> ends_path c"
    and q: "q = [] \<or> (\<exists>r. q = CHR ''?'' # r \<and> r \<noteq> [] \<and> (\<forall>c \<in> set r. \<not> query_set c) \<and> CHR ''#'' \<notin> set r)"
    and f: "f = [] \<or> (\<exists>r. f = CHR ''#'' # r \<and> r \<noteq> [] \<and> (\<forall>c \<in> set r. \<not> fragment_set c))"
  shows "takeWhile (\<lambda>c. \<not> ends_path c) (p @ q @ f) = p" "query_part (p @ q @ f) = q" "fragment_part (p @ q @ f) = f"
proof -
  have e: "ends_path (CHR ''?'')" "ends_path (CHR ''#'')" by (simp_all add: ends_path_def)
  show "takeWhile (\<lambda>c. \<not> ends_path c) (p @ q @ f) = p" using p q f e by (auto simp: takeWhile_append)
  have d: "dropWhile (\<lambda>c. \<not> ends_path c) (p @ q @ f) = q @ f" using p q f e by (auto simp: dropWhile_append)
  have "CHR ''#'' \<notin> set (p @ q)"
  proof
    assume "CHR ''#'' \<in> set (p @ q)"
    moreover have "CHR ''#'' \<notin> set p" using p e(2) by blast
    ultimately show False using q by auto
  qed
  then have "\<forall>d \<in> set (p @ q). d \<noteq> CHR ''#''" by metis
  moreover have "dropWhile (\<lambda>d. d \<noteq> CHR ''#'') f = f" using f by auto
  ultimately have "dropWhile (\<lambda>d. d \<noteq> CHR ''#'') ((p @ q) @ f) = f"
    using dropWhile_append2 [of "p @ q" "\<lambda>d. d \<noteq> CHR ''#''" f] by simp
  then have "dropWhile (\<lambda>d. d \<noteq> CHR ''#'') (p @ q @ f) = f" by simp
  then show "fragment_part (p @ q @ f) = f"
    using f percent_encode_fixed [of _ fragment_set] by (auto simp: fragment_part_def)
  show "query_part (p @ q @ f) = q"
    using q
  proof
    assume "q = []"
    then show ?thesis using f d by (auto simp: query_part_def)
  next
    assume "\<exists>r. q = CHR ''?'' # r \<and> r \<noteq> [] \<and> (\<forall>c \<in> set r. \<not> query_set c) \<and> CHR ''#'' \<notin> set r"
    then obtain r where r: "q = CHR ''?'' # r" "r \<noteq> []" "\<forall>c \<in> set r. \<not> query_set c" "CHR ''#'' \<notin> set r" by blast
    have "\<And>d. d \<in> set r \<Longrightarrow> d \<noteq> CHR ''#''" using r(4) by metis
    then have "takeWhile (\<lambda>d. d \<noteq> CHR ''#'') (r @ f) = r @ takeWhile (\<lambda>d. d \<noteq> CHR ''#'') f"
      by (rule takeWhile_append2)
    moreover have "takeWhile (\<lambda>d. d \<noteq> CHR ''#'') f = []" using f by auto
    ultimately have "takeWhile (\<lambda>d. d \<noteq> CHR ''#'') (r @ f) = r" by simp
    then show ?thesis using d r percent_encode_fixed [of r query_set] by (simp add: query_part_def)
  qed
qed

lemma path_url_shape:
  obtains segs where "segs \<noteq> []" and "\<forall>s \<in> set segs. plain_segment s"
    and "u_pathname (path_url origin t) = CHR ''/'' # join_with ''/'' segs"
proof -
  let ?segs = "path_walk (path_segments (takeWhile (\<lambda>c. \<not> ends_path c) t)) []"
  have ne: "?segs \<noteq> []" by (rule path_walk_ne) (simp add: path_segments_def)
  moreover have "\<forall>s \<in> set ?segs. plain_segment s"
    by (rule path_walk_plain) (auto dest: path_segments_slash)
  ultimately show thesis using that path_text_join [OF ne] by (simp add: path_url_def)
qed

lemma path_url_stable:
  obtains r where "href_path (path_url origin t) = CHR ''/'' # r" and "path_url origin r = path_url origin t"
    and "\<forall>c \<in> set r. 32 < byte c" and "\<And>c r'. r = c # r' \<Longrightarrow> c \<noteq> CHR ''/'' \<Longrightarrow> \<not> is_slash c"
proof -
  obtain segs where segs: "segs \<noteq> []" "\<forall>s \<in> set segs. plain_segment s"
    and path: "u_pathname (path_url origin t) = CHR ''/'' # join_with ''/'' segs" by (rule path_url_shape)
  let ?p = "join_with ''/'' segs" and ?q = "query_part t" and ?f = "fragment_part t"
  have p: "\<forall>c \<in> set ?p. \<not> ends_path c" using join_chars [OF segs(2)] by blast
  have q: "?q = [] \<or> (\<exists>r. ?q = CHR ''?'' # r \<and> r \<noteq> [] \<and> (\<forall>c \<in> set r. \<not> query_set c) \<and> CHR ''#'' \<notin> set r)"
    by (rule query_part_cases [of t]) simp_all
  have f: "?f = [] \<or> (\<exists>r. ?f = CHR ''#'' # r \<and> r \<noteq> [] \<and> (\<forall>c \<in> set r. \<not> fragment_set c))"
    by (rule fragment_part_cases [of t]) simp_all
  note parts = parts_of_serialised [OF p q f]
  have "path_url origin (?p @ ?q @ ?f) = path_url origin t"
    using path_text_join [OF segs(1)] path
    by (simp add: path_url_def parts path_segments_join [OF segs] path_walk_fixed [OF segs(2)])
  moreover have "\<forall>c \<in> set (?p @ ?q @ ?f). 32 < byte c"
    using join_chars [OF segs(2)] q f encoded_visible by (auto split: if_splits)
  moreover have "\<not> is_slash c" if "?p @ ?q @ ?f = c # r'" "c \<noteq> CHR ''/''" for c r'
  proof (cases ?p)
    case Nil
    then show ?thesis using that q f by (auto simp: is_slash_def back_slash_def)
  next
    case (Cons d p')
    then have "c \<in> set ?p" using that by simp
    moreover have "x = CHR ''/'' \<or> (\<exists>s \<in> set segs. x \<in> set s)" if "x \<in> set ?p" for x
      using that by (induction "''/''" segs rule: join_with.induct) auto
    ultimately show ?thesis using that(2) segs(2) unfolding plain_segment_def by metis
  qed
  ultimately show thesis using that [of "?p @ ?q @ ?f"] path by (simp add: href_path_def path_url_def)
qed

lemma dropWhile_id: "(\<And>c. c \<in> set s \<Longrightarrow> \<not> P c) \<Longrightarrow> dropWhile P s = s"
  by (cases s) simp_all

lemma clean_visible: "\<forall>c \<in> set s. 32 < byte c \<Longrightarrow> clean_input s = s"
proof -
  assume v: "\<forall>c \<in> set s. 32 < byte c"
  then have "\<And>c. c \<in> set s \<Longrightarrow> \<not> control_or_space c" by (auto simp: control_or_space_def)
  then have "dropWhile control_or_space s = s" "dropWhile control_or_space (rev s) = rev s"
    by (auto intro!: dropWhile_id)
  then show ?thesis using v by (auto simp: clean_input_def intro!: filter_True)
qed

text \<open>A serialised path that does not begin with two slashes stays on its origin.\<close>

lemma new_URL_of_path:
  assumes "\<not> startsWith (href_path (path_url origin t)) ''//''"
  shows "new_URL foreign (href_path (path_url origin t)) (scheme, origin) = Some (path_url origin t)"
proof -
  obtain r where r: "href_path (path_url origin t) = CHR ''/'' # r" "path_url origin r = path_url origin t"
    "\<forall>c \<in> set r. 32 < byte c" "\<And>c r'. r = c # r' \<Longrightarrow> c \<noteq> CHR ''/'' \<Longrightarrow> \<not> is_slash c"
    by (rule path_url_stable [of origin t]) blast
  have "clean_input (CHR ''/'' # r) = CHR ''/'' # r" using r(3) by (intro clean_visible) simp
  moreover have "scheme_of (CHR ''/'' # r) = None" by (simp add: scheme_of_def is_letter_def lower_char_def)
  moreover have "relative_url foreign (CHR ''/'' # r) (scheme, origin) = Some (path_url origin r)"
    using r(4) assms r(1) by (cases r) (auto simp: relative_url_def is_slash_def)
  ultimately show ?thesis using r(1,2) by (simp add: new_URL_def)
qed

text \<open>One that does begin with two slashes names a host.\<close>

lemma new_URL_of_slashes:
  assumes "startsWith (href_path (path_url origin t)) ''//''"
  shows "new_URL foreign (href_path (path_url origin t)) (scheme, origin) = foreign scheme (href_path (path_url origin t))"
proof -
  obtain r where r: "href_path (path_url origin t) = CHR ''/'' # r" "\<forall>c \<in> set r. 32 < byte c"
    by (rule path_url_stable [of origin t]) blast
  have "clean_input (CHR ''/'' # r) = CHR ''/'' # r" using r(2) by (intro clean_visible) simp
  moreover have "scheme_of (CHR ''/'' # r) = None" by (simp add: scheme_of_def is_letter_def lower_char_def)
  ultimately show ?thesis using assms r(1) by (cases r) (auto simp: new_URL_def relative_url_def is_slash_def)
qed

end
