(* ===== verification/Navigation.thy ===== *)
theory Navigation
  imports Web_Url Resource_Requests
begin

text \<open>
  Where the web app goes: the paths it may return to after a form or a sign-in
  (\<^verbatim>\<open>packages/ui/src/form-page/safe-internal-path.ts\<close>, \<^verbatim>\<open>apps/start/src/lib/return-to.ts\<close>,
  \<open>sanitizeReturnTo\<close> of \<^verbatim>\<open>apps/start/src/routes/auth/sign-in.ts\<close>), the list state in the URL
  (\<^verbatim>\<open>apps/start/src/lib/connectors-search.ts\<close>, \<^verbatim>\<open>secrets-search.ts\<close>, \<^verbatim>\<open>workflows-search.ts\<close>) and the
  scope of a page (\<^verbatim>\<open>scope-nav.ts\<close>, \<^verbatim>\<open>scope-resolve.ts\<close>, \<^verbatim>\<open>orgs-query.ts\<close>).

  It is proved that an accepted return path stays on the origin unless it begins with two slashes,
  and that such a path is in fact accepted; that a list state put into the URL and read back asks
  the server for the same rows; and that choosing a scope keeps the resource and never leaves the
  user's organizations.
\<close>

section \<open>Return paths\<close>

type_synonym base = "string \<times> string"

definition safeInternalPath :: "foreign_parser \<Rightarrow> string option \<Rightarrow> base \<Rightarrow> string option" where
  "safeInternalPath foreign from appOrigin =
     (case from of
        None \<Rightarrow> None
      | Some f \<Rightarrow>
          if f = [] then None
          else let lower = to_lower f in
            if \<not> startsWith f ''/'' \<or> startsWith f ''//'' \<or> startsWith f [CHR ''/'', back_slash]
               \<or> startsWith lower ''/%2f'' \<or> startsWith lower ''/%5c'' then None
            else (case new_URL foreign f appOrigin of
                    None \<Rightarrow> None
                  | Some url \<Rightarrow> if u_origin url \<noteq> snd appOrigin then None else Some (href_path url)))"

text \<open>\<open>window\<close> is the page's origin, absent during server rendering.\<close>

definition appOrigin :: "base option \<Rightarrow> base" where
  "appOrigin window = or_default window (''http'', ''http://ssr.invalid'')"

definition resolveReturnTo :: "foreign_parser \<Rightarrow> base option \<Rightarrow> string option \<Rightarrow> string \<Rightarrow> string" where
  "resolveReturnTo foreign window from fallback = or_default (safeInternalPath foreign from (appOrigin window)) fallback"

definition sanitizeReturnTo :: "foreign_parser \<Rightarrow> string option \<Rightarrow> base \<Rightarrow> string" where
  "sanitizeReturnTo foreign value origin =
     (if \<not> truthy value then ''/''
      else case new_URL foreign (the value) origin of
             None \<Rightarrow> ''/''
           | Some url \<Rightarrow> if u_origin url = snd origin then href_path url else ''/'')"

section \<open>The list state in the URL\<close>

text \<open>
  A search parameter is a string, a number or something else; \<open>convert\<close> is the language's
  \<open>Number(...)\<close> on what is there and not a number already (of a missing value it is \<open>NaN\<close>). The three search shapes share one record: the
  secrets have no agent, the workflows neither agent nor scope, so these fields stay absent.
\<close>

datatype search_value = SString string | SNumber nat | SOther

type_synonym search_params = "(string \<times> search_value) list"

record list_search =
  se_q :: "string option"
  se_agent :: "string option"
  se_scope :: "string option"
  se_sort :: "string option"
  se_dir :: "sort_direction option"
  se_size :: "nat option"
  se_cursor :: "string option"

definition string_param :: "search_params \<Rightarrow> string \<Rightarrow> string option" where
  "string_param search k =
     (case map_of search k of Some (SString s) \<Rightarrow> if s \<noteq> [] then Some s else None | _ \<Rightarrow> None)"

definition dir_param :: "search_params \<Rightarrow> sort_direction option" where
  "dir_param search =
     (if map_of search ''dir'' = Some (SString ''asc'') then Some Asc
      else if map_of search ''dir'' = Some (SString ''desc'') then Some Desc else None)"

definition size_param :: "(search_value \<Rightarrow> nat option) \<Rightarrow> search_params \<Rightarrow> nat option" where
  "size_param convert search =
     (let size = (case map_of search ''size'' of None \<Rightarrow> None | Some (SNumber n) \<Rightarrow> Some n | Some v \<Rightarrow> convert v)
      in case size of Some n \<Rightarrow> if n \<in> set PAGE_SIZES then Some n else None | None \<Rightarrow> None)"

definition validateConnectorsSearch :: "(search_value \<Rightarrow> nat option) \<Rightarrow> search_params \<Rightarrow> list_search" where
  "validateConnectorsSearch convert search =
     \<lparr>se_q = string_param search ''q'', se_agent = string_param search ''agent'', se_scope = string_param search ''scope'',
      se_sort = string_param search ''sort'', se_dir = dir_param search, se_size = size_param convert search,
      se_cursor = string_param search ''cursor''\<rparr>"

definition validateSecretsSearch :: "(search_value \<Rightarrow> nat option) \<Rightarrow> search_params \<Rightarrow> list_search" where
  "validateSecretsSearch convert search =
     \<lparr>se_q = string_param search ''q'', se_agent = None, se_scope = string_param search ''scope'',
      se_sort = string_param search ''sort'', se_dir = dir_param search, se_size = size_param convert search,
      se_cursor = string_param search ''cursor''\<rparr>"

definition validateWorkflowsSearch :: "(search_value \<Rightarrow> nat option) \<Rightarrow> search_params \<Rightarrow> list_search" where
  "validateWorkflowsSearch convert search =
     \<lparr>se_q = string_param search ''q'', se_agent = None, se_scope = None,
      se_sort = string_param search ''sort'', se_dir = dir_param search, se_size = size_param convert search,
      se_cursor = string_param search ''cursor''\<rparr>"

definition optional_filter :: "string \<Rightarrow> string option \<Rightarrow> (string \<times> string) list" where
  "optional_filter k v = (if truthy v then [(k, the v)] else [])"

definition search_sort :: "list_search \<Rightarrow> sort_state option" where
  "search_sort s = (if truthy (se_sort s) then Some \<lparr>ss_field = the (se_sort s), ss_direction = or_default (se_dir s) Asc\<rparr> else None)"

definition connectors_searchToValue :: "list_search \<Rightarrow> list_controls_value" where
  "connectors_searchToValue s =
     \<lparr>lv_filters = optional_filter ''displayName'' (se_q s) @ optional_filter ''agent'' (se_agent s),
      lv_sort = search_sort s, lv_pageSize = or_default (se_size s) DEFAULT_PAGE_SIZE,
      lv_scope = or_default (se_scope s) [], lv_pageToken = se_cursor s\<rparr>"

definition secrets_searchToValue :: "list_search \<Rightarrow> list_controls_value" where
  "secrets_searchToValue s =
     \<lparr>lv_filters = optional_filter ''displayName'' (se_q s),
      lv_sort = search_sort s, lv_pageSize = or_default (se_size s) DEFAULT_PAGE_SIZE,
      lv_scope = or_default (se_scope s) [], lv_pageToken = se_cursor s\<rparr>"

definition workflows_searchToValue :: "list_search \<Rightarrow> list_controls_value" where
  "workflows_searchToValue s =
     \<lparr>lv_filters = optional_filter ''displayName'' (se_q s),
      lv_sort = search_sort s, lv_pageSize = or_default (se_size s) DEFAULT_PAGE_SIZE,
      lv_scope = [], lv_pageToken = se_cursor s\<rparr>"

definition keep_truthy :: "string option \<Rightarrow> string option" where
  "keep_truthy v = (if truthy v then v else None)"

definition base_search :: "list_controls_value \<Rightarrow> list_search" where
  "base_search v =
     \<lparr>se_q = keep_truthy (map_option trim (map_of (lv_filters v) ''displayName'')), se_agent = None,
      se_scope = keep_truthy (Some (lv_scope v)),
      se_sort = map_option ss_field (lv_sort v),
      se_dir = (case lv_sort v of Some s \<Rightarrow> if ss_direction s = Desc then Some Desc else None | None \<Rightarrow> None),
      se_size = (if lv_pageSize v \<noteq> DEFAULT_PAGE_SIZE then Some (lv_pageSize v) else None),
      se_cursor = keep_truthy (lv_pageToken v)\<rparr>"

definition connectors_valueToSearch :: "list_controls_value \<Rightarrow> list_search" where
  "connectors_valueToSearch v =
     (base_search v)\<lparr>se_agent := (let agent = map_of (lv_filters v) ''agent''
        in if truthy agent \<and> agent \<noteq> Some AGENT_FILTER_ANY then agent else None)\<rparr>"

definition secrets_valueToSearch :: "list_controls_value \<Rightarrow> list_search" where
  "secrets_valueToSearch v = base_search v"

definition workflows_valueToSearch :: "list_controls_value \<Rightarrow> list_search" where
  "workflows_valueToSearch v = (base_search v)\<lparr>se_scope := None\<rparr>"

section \<open>Scopes\<close>

datatype scoped_resource = Connectors | Secrets | Workflows

fun resource_text :: "scoped_resource \<Rightarrow> string" where
  "resource_text Connectors = ''connectors''"
| "resource_text Secrets = ''secrets''"
| "resource_text Workflows = ''workflows''"

text \<open>\<open>s[i]\<close> beyond the end is \<open>undefined\<close>.\<close>

definition part_at :: "string list \<Rightarrow> nat \<Rightarrow> string option" where
  "part_at s i = (if i < length s then Some (s ! i) else None)"

definition resourceFromPathname :: "string \<Rightarrow> scoped_resource option" where
  "resourceFromPathname pathname =
     (let s = filter (\<lambda>p. p \<noteq> []) (split_on (CHR ''/'') pathname) in
      if part_at s 0 \<noteq> Some ''organizations'' \<or> \<not> truthy (part_at s 1) then None
      else let resource = (if part_at s 2 = Some ''spaces'' then part_at s 4 else part_at s 2) in
        if resource = Some ''connectors'' then Some Connectors
        else if resource = Some ''secrets'' then Some Secrets
        else if resource = Some ''workflows'' then Some Workflows
        else None)"

definition spaceNavTarget :: "string \<Rightarrow> string \<Rightarrow> string option \<Rightarrow> string" where
  "spaceNavTarget pathname orgSlug spaceSlug =
     (let resource = or_default (resourceFromPathname pathname) Connectors in
      if truthy spaceSlug
      then ''/organizations/'' @ orgSlug @ ''/spaces/'' @ the spaceSlug @ ''/'' @ resource_text resource
      else ''/organizations/'' @ orgSlug @ ''/'' @ resource_text resource)"

definition orgNavTarget :: "string \<Rightarrow> string \<Rightarrow> string" where
  "orgNavTarget pathname orgSlug =
     (case resourceFromPathname pathname of
        Some resource \<Rightarrow> ''/organizations/'' @ orgSlug @ ''/'' @ resource_text resource
      | None \<Rightarrow> ''/organizations/'' @ orgSlug)"

record account_organization =
  ao_organization :: "string option"
  ao_displayName :: "string option"

record scope_org =
  sc_organization :: string
  sc_displayName :: string

definition toScopeOrgs :: "account_organization list option \<Rightarrow> scope_org list" where
  "toScopeOrgs data =
     map (\<lambda>org. \<lparr>sc_organization = the (ao_organization org),
               sc_displayName = or_default (ao_displayName org) (the (ao_organization org))\<rparr>)
       (filter (\<lambda>org. truthy (ao_organization org)) (or_default data []))"

datatype root_target = RootOrg string | RootSelector | RootCreate

definition resolveRootTarget :: "scope_org list \<Rightarrow> string option \<Rightarrow> root_target" where
  "resolveRootTarget orgs rememberedOrg =
     (if orgs = [] then RootCreate
      else if truthy rememberedOrg \<and> (\<exists>org \<in> set orgs. sc_organization org = the rememberedOrg)
      then RootOrg (the rememberedOrg)
      else RootSelector)"

text \<open>\<open>find\<close> stops at the first match, and at a name that does not parse.\<close>

fun find_org :: "scope_org list \<Rightarrow> string \<Rightarrow> name_error + scope_org option" where
  "find_org [] slug = Inr None"
| "find_org (org # orgs) slug =
     bind_result (organizationId (sc_organization org))
       (\<lambda>i. if i = slug then Inr (Some org) else find_org orgs slug)"

definition resolveOrgBySlug :: "scope_org list \<Rightarrow> string \<Rightarrow> name_error + scope_org option" where
  "resolveOrgBySlug orgs slug = (if slug = [] then Inr None else find_org orgs slug)"

section \<open>Return paths stay on the origin\<close>

definition web_scheme :: "string \<Rightarrow> bool" where
  "web_scheme s \<longleftrightarrow> s = ''http'' \<or> s = ''https''"

text \<open>What the URL standard says of \<open>foreign\<close>: a web URL of the origin is serialised like any other.\<close>

definition web_parser :: "foreign_parser \<Rightarrow> string \<Rightarrow> bool" where
  "web_parser foreign origin \<longleftrightarrow>
     (\<forall>s r u. web_scheme s \<longrightarrow> foreign s r = Some u \<longrightarrow> u_origin u = origin \<longrightarrow> (\<exists>t. path_url origin t = u))"

definition web_input :: "string \<Rightarrow> bool" where
  "web_input v \<longleftrightarrow> (case scheme_of (clean_input v) of None \<Rightarrow> True | Some (s, r) \<Rightarrow> web_scheme s)"

lemma new_URL_same_origin:
  assumes "web_parser foreign origin" and "web_scheme scheme" and "web_input v"
    and u: "new_URL foreign v (scheme, origin) = Some u" "u_origin u = origin"
  shows "\<exists>t. path_url origin t = u"
proof -
  have foreign: "\<exists>t. path_url origin t = u" if "web_scheme s" "foreign s r = Some u" for s r
    using that assms(1) u(2) by (auto simp: web_parser_def)
  have rel: "\<exists>t. path_url origin t = u" if "relative_url foreign s (scheme, origin) = Some u" for s
    using that foreign [OF assms(2)] by (auto simp: relative_url_def split: list.splits if_splits)
  show ?thesis
  proof (cases "scheme_of (clean_input v)")
    case None
    with u(1) rel show ?thesis by (simp add: new_URL_def)
  next
    case (Some sr)
    obtain s r where sr: "sr = (s, r)" by fastforce
    with Some u(1) rel foreign assms(3) show ?thesis
      by (auto simp: new_URL_def web_input_def split: if_splits)
  qed
qed

lemma path_leads_back:
  assumes "\<not> startsWith (href_path (path_url origin t)) ''//''"
  shows "\<exists>u. new_URL foreign (href_path (path_url origin t)) (scheme, origin) = Some u \<and> u_origin u = origin
    \<and> href_path u = href_path (path_url origin t)"
  using new_URL_of_path [OF assms] by (simp add: path_url_def)

lemma href_path_slash: "startsWith (href_path (path_url origin t)) ''/''"
  by (rule path_url_stable [of origin t]) simp

lemma href_root: "href_path (path_url origin []) = ''/''"
  by (simp add: href_path_def path_url_def path_segments_def path_text_def query_part_def fragment_part_def
      dot_segment_def dotdot_segment_def to_lower_def percent_encode_def)

lemma no_scheme_of_slash:
  assumes "startsWith f ''/''"
  shows "scheme_of (clean_input f) = None"
proof -
  obtain r where "f = CHR ''/'' # r" using assms by (cases f) auto
  then have "dropWhile control_or_space f = f" by (simp add: control_or_space_def)
  moreover have "\<exists>r'. rev (dropWhile control_or_space (rev r @ ''/'')) = CHR ''/'' # r'"
    by (simp add: dropWhile_append control_or_space_def) (metis rev_rev_ident)
  ultimately obtain r' where "clean_input f = CHR ''/'' # r'"
    using \<open>f = CHR ''/'' # r\<close> by (auto simp: clean_input_def)
  then show ?thesis by (simp add: scheme_of_def is_letter_def lower_char_def)
qed

text \<open>
  A path that begins with a dot segment and an empty one is accepted, and what is returned names a
  host.
\<close>

lemma dots_then_host:
  "safeInternalPath foreign (Some ''/.//evil.example'') (scheme, origin) = Some ''//evil.example''"
proof -
  have c: "clean_input ''/.//evil.example'' = ''/.//evil.example''"
    by (rule clean_visible) simp
  have seg: "path_segments ''.//evil.example'' = [''.'', [], ''evil.example'']"
    by (simp add: path_segments_def back_slash_def)
  have w: "path_walk [''.'', [], ''evil.example''] [] = [[], ''evil.example'']"
    by (simp add: dot_segment_def dotdot_segment_def to_lower_def lower_char_def percent_encode_def path_set_def unprintable_def)
  have t: "takeWhile (\<lambda>c. \<not> ends_path c) ''.//evil.example'' = ''.//evil.example''" by (simp add: ends_path_def)
  have "path_url origin ''.//evil.example'' = \<lparr>u_origin = origin, u_pathname = ''//evil.example'', u_search = [], u_hash = []\<rparr>"
    unfolding path_url_def t seg w by (simp add: path_text_def query_part_def fragment_part_def ends_path_def)
  moreover have "scheme_of ''/.//evil.example'' = None" by (simp add: scheme_of_def is_letter_def lower_char_def)
  ultimately have "new_URL foreign ''/.//evil.example'' (scheme, origin)
      = Some \<lparr>u_origin = origin, u_pathname = ''//evil.example'', u_search = [], u_hash = []\<rparr>"
    by (simp add: new_URL_def c relative_url_def is_slash_def back_slash_def)
  then show ?thesis
    by (simp add: safeInternalPath_def back_slash_def to_lower_def lower_char_def href_path_def)
qed

text \<open>
  C30. Return paths, for an origin of the web and a parser that gives every http or https URL of this
  origin a path, a query and a fragment as the URL standard serialises them. A path that
  \<open>safeInternalPath\<close> returns begins with a slash, and if it does not begin with two slashes it
  leads to exactly itself on the app's own origin. The same holds for what \<open>sanitizeReturnTo\<close>
  returns for an input that names no scheme, or http or https; an input that names another one can
  lead to an answer without a leading slash (below). Two slashes are possible, though: the input
  \<open>/.//evil.example\<close> is accepted and returned as \<open>//evil.example\<close>, which a browser reads as another host.
\<close>

theorem return_paths_stay:
  assumes "web_parser foreign origin" and "web_scheme scheme"
    and "safeInternalPath foreign from (scheme, origin) = Some p"
  shows "startsWith p ''/''
    \<and> (startsWith p ''//'' \<or> (\<exists>u. new_URL foreign p (scheme, origin) = Some u \<and> u_origin u = origin \<and> href_path u = p))
    \<and> (web_input v \<longrightarrow>
         startsWith (sanitizeReturnTo foreign (Some v) (scheme, origin)) ''/''
         \<and> (startsWith (sanitizeReturnTo foreign (Some v) (scheme, origin)) ''//''
            \<or> (\<exists>u. new_URL foreign (sanitizeReturnTo foreign (Some v) (scheme, origin)) (scheme, origin) = Some u \<and> u_origin u = origin
                   \<and> href_path u = sanitizeReturnTo foreign (Some v) (scheme, origin))))
    \<and> safeInternalPath foreign (Some ''/.//evil.example'') (scheme, origin) = Some ''//evil.example''"
proof -
  have good: "startsWith (href_path (path_url origin t)) ''/'' \<and>
     (startsWith (href_path (path_url origin t)) ''//'' \<or> (\<exists>u. new_URL foreign (href_path (path_url origin t)) (scheme, origin) = Some u
        \<and> u_origin u = origin \<and> href_path u = href_path (path_url origin t)))" for t
    using path_leads_back href_path_slash by blast
  obtain f url where f: "startsWith f ''/''" "new_URL foreign f (scheme, origin) = Some url" "u_origin url = origin" "p = href_path url"
    using assms(3) by (auto simp: safeInternalPath_def Let_def split: option.splits if_splits)
  have "web_input f" using no_scheme_of_slash [OF f(1)] by (simp add: web_input_def)
  then obtain t where "path_url origin t = url"
    using new_URL_same_origin [OF assms(1,2) _ f(2,3)] by blast
  with good [of t] f(4) have 1: "startsWith p ''/''
    \<and> (startsWith p ''//'' \<or> (\<exists>u. new_URL foreign p (scheme, origin) = Some u \<and> u_origin u = origin \<and> href_path u = p))" by simp
  have "\<exists>t. sanitizeReturnTo foreign (Some v) (scheme, origin) = href_path (path_url origin t)" if "web_input v"
    using new_URL_same_origin [OF assms(1,2) that] href_root
    by (simp add: sanitizeReturnTo_def split: option.split) metis
  then show ?thesis using 1 good dots_then_host by metis
qed

theorem return_paths_stay_witness:
  "safeInternalPath (\<lambda>s r. None) (Some ''/connectors?q=a'') (''https'', ''https://app.example'') = Some ''/connectors?q=a''
   \<and> startsWith ''/connectors?q=a'' ''/''
   \<and> startsWith (sanitizeReturnTo (\<lambda>s r. None) (Some ''/connectors?q=a'') (''https'', ''https://app.example'')) ''/''"
proof -
  let ?base = "(''https'', ''https://app.example'')"
  have v: "clean_input ''/connectors?q=a'' = ''/connectors?q=a''" by (rule clean_visible) simp
  have "path_url (snd ?base) ''connectors?q=a'' = \<lparr>u_origin = snd ?base, u_pathname = ''/connectors'', u_search = ''?q=a'', u_hash = []\<rparr>"
    by (simp add: path_url_def ends_path_def path_segments_def back_slash_def dot_segment_def dotdot_segment_def to_lower_def lower_char_def
        percent_encode_def path_set_def query_set_def unprintable_def path_text_def query_part_def fragment_part_def)
  then have "new_URL (\<lambda>s r. None) ''/connectors?q=a'' ?base = Some \<lparr>u_origin = snd ?base, u_pathname = ''/connectors'', u_search = ''?q=a'', u_hash = []\<rparr>"
    by (simp add: new_URL_def v scheme_of_def is_letter_def lower_char_def relative_url_def is_slash_def back_slash_def)
  then have s: "safeInternalPath (\<lambda>s r. None) (Some ''/connectors?q=a'') ?base = Some ''/connectors?q=a''"
    by (simp add: safeInternalPath_def back_slash_def to_lower_def lower_char_def href_path_def)
  have "web_input ''/connectors?q=a''" by (simp add: web_input_def v scheme_of_def is_letter_def lower_char_def)
  moreover have "web_parser (\<lambda>s r. None) ''https://app.example''" "web_scheme ''https''"
    by (simp_all add: web_parser_def web_scheme_def)
  note return_paths_stay [OF this s, of "''/connectors?q=a''"]
  ultimately show ?thesis using s by blast
qed

text \<open>
  A URL of the scheme blob has the origin of the URL it wraps, and its path is that whole URL: such
  an input passes the comparison of origins, and the answer does not begin with a slash.
\<close>

lemma blob_answer_is_no_path:
  assumes "foreign ''blob'' ''https://app.example/a''
      = Some \<lparr>u_origin = ''https://app.example'', u_pathname = ''https://app.example/a'', u_search = [], u_hash = []\<rparr>"
  shows "sanitizeReturnTo foreign (Some ''blob:https://app.example/a'') (''https'', ''https://app.example'') = ''https://app.example/a''"
proof -
  have "clean_input ''blob:https://app.example/a'' = ''blob:https://app.example/a''" by (rule clean_visible) simp
  then have "new_URL foreign ''blob:https://app.example/a'' (''https'', ''https://app.example'') = foreign ''blob'' ''https://app.example/a''"
    by (simp add: new_URL_def scheme_of_def is_letter_def lower_char_def scheme_char_def is_digit_def to_lower_def)
  then show ?thesis using assms by (simp add: sanitizeReturnTo_def truthy_def href_path_def)
qed

section \<open>The URL keeps what the request depends on\<close>

lemma trim_left_tight: "ws_prefix s = None \<Longrightarrow> trim_left s = s"
  by (subst trim_left.simps) simp

lemma trim_right_tight: "ws_suffix s = None \<Longrightarrow> trim_right s = s"
  by (subst trim_right.simps) simp

lemma ws_prefix_of_prefix:
  assumes "ws_prefix s = None" and "prefix t s"
  shows "ws_prefix t = None"
proof -
  have "startsWith s w" if "startsWith t w" for w
    using that assms(2) by (auto simp: startsWith_iff_prefix prefix_def)
  then show ?thesis using assms(1) by (auto simp: ws_prefix_def find_None_iff)
qed

lemma trim_trim [simp]: "trim (trim s) = trim s"
proof -
  have "ws_prefix (trim s) = None"
    using ws_prefix_of_prefix [OF trim_left_fixed trim_right_prefix] by (simp add: trim_def)
  then show ?thesis
    using trim_right_tight [OF trim_right_fixed] by (simp add: trim_def [of "trim s"] trim_left_tight) (simp add: trim_def)
qed

text \<open>
  How the router carries a search: every field under its name, strings as strings and the size as a
  number, absent fields left out.
\<close>

definition text_param :: "string \<Rightarrow> string option \<Rightarrow> search_params" where
  "text_param k v = (case v of None \<Rightarrow> [] | Some s \<Rightarrow> [(k, SString s)])"

definition search_params_of :: "list_search \<Rightarrow> search_params" where
  "search_params_of s =
     text_param ''q'' (se_q s) @ text_param ''agent'' (se_agent s) @ text_param ''scope'' (se_scope s)
     @ text_param ''sort'' (se_sort s)
     @ text_param ''dir'' (map_option (\<lambda>d. case d of Asc \<Rightarrow> ''asc'' | Desc \<Rightarrow> ''desc'') (se_dir s))
     @ (case se_size s of None \<Rightarrow> [] | Some n \<Rightarrow> [(''size'', SNumber n)])
     @ text_param ''cursor'' (se_cursor s)"

lemma map_of_text: "map_of (text_param k v) k' = (if k' = k then map_option SString v else None)"
  by (simp add: text_param_def split: option.split)

lemma map_of_size:
  "map_of (case v of None \<Rightarrow> [] | Some n \<Rightarrow> [(''size'', SNumber n)]) k = (if k = ''size'' then map_option SNumber v else None)"
  by (cases v) simp_all

lemmas params_lookup = search_params_of_def map_of_text map_of_size map_add_def option.map_comp comp_def

lemma map_of_params:
  "map_of (search_params_of s) ''q'' = map_option SString (se_q s)"
  "map_of (search_params_of s) ''agent'' = map_option SString (se_agent s)"
  "map_of (search_params_of s) ''scope'' = map_option SString (se_scope s)"
  "map_of (search_params_of s) ''sort'' = map_option SString (se_sort s)"
  "map_of (search_params_of s) ''dir'' = map_option (\<lambda>d. SString (case d of Asc \<Rightarrow> ''asc'' | Desc \<Rightarrow> ''desc'')) (se_dir s)"
  "map_of (search_params_of s) ''size'' = map_option SNumber (se_size s)"
  "map_of (search_params_of s) ''cursor'' = map_option SString (se_cursor s)"
  subgoal by (cases "se_q s") (simp_all add: params_lookup)
  subgoal by (cases "se_agent s") (simp_all add: params_lookup)
  subgoal by (cases "se_scope s") (simp_all add: params_lookup)
  subgoal by (cases "se_sort s") (simp_all add: params_lookup)
  subgoal by (cases "se_dir s") (simp_all add: params_lookup)
  subgoal by (cases "se_size s") (simp_all add: params_lookup)
  subgoal by (cases "se_cursor s") (simp_all add: params_lookup)
  done

lemma string_param_of:
  "map_of search k = map_option SString v \<Longrightarrow> string_param search k = keep_truthy v"
  by (cases v) (simp_all add: string_param_def keep_truthy_def)

lemma dir_param_of: "dir_param (search_params_of s) = se_dir s"
  by (cases "se_dir s") (simp_all add: dir_param_def map_of_params split: sort_direction.split)

lemma size_param_of: "se_size s = None \<or> the (se_size s) \<in> set PAGE_SIZES \<Longrightarrow> size_param convert (search_params_of s) = se_size s"
  by (cases "se_size s") (simp_all add: size_param_def map_of_params)

lemmas search_params_back = string_param_of [OF map_of_params(1)] string_param_of [OF map_of_params(2)]
  string_param_of [OF map_of_params(3)] string_param_of [OF map_of_params(4)] string_param_of [OF map_of_params(7)]
  dir_param_of

text \<open>A list state as the controls produce it: a page size on offer, no empty sort field, no empty cursor.\<close>

definition offered :: "list_controls_value \<Rightarrow> bool" where
  "offered v \<longleftrightarrow> lv_pageSize v \<in> set PAGE_SIZES \<and> lv_pageToken v \<noteq> Some []
     \<and> (case lv_sort v of None \<Rightarrow> True | Some s \<Rightarrow> ss_field s \<noteq> [])"

lemma keep_truthy_idem [simp]: "keep_truthy (keep_truthy v) = keep_truthy v"
  by (simp add: keep_truthy_def)

lemma or_default_keep_truthy [simp]: "or_default (keep_truthy (Some s)) [] = s"
  by (simp add: keep_truthy_def)

lemma name_predicate_back:
  "name_predicate (optional_filter ''displayName'' (keep_truthy (map_option trim (map_of fs ''displayName''))) @ optional_filter ''agent'' a)
     = name_predicate fs"
  by (cases "map_of fs ''displayName''") (auto simp: name_predicate_def optional_filter_def keep_truthy_def)

lemma name_predicate_back':
  "name_predicate (optional_filter ''displayName'' (keep_truthy (map_option trim (map_of fs ''displayName'')))) = name_predicate fs"
  using name_predicate_back [of fs None] by (simp add: optional_filter_def)

lemma agent_back:
  "map_of (optional_filter ''displayName'' n @ optional_filter ''agent'' a) ''agent'' = keep_truthy a"
  by (auto simp: optional_filter_def keep_truthy_def truthy_def)

lemma connector_filter_back:
  "buildConnectorFilter (optional_filter ''displayName'' (keep_truthy (map_option trim (map_of fs ''displayName'')))
       @ optional_filter ''agent'' (if truthy (map_of fs ''agent'') \<and> map_of fs ''agent'' \<noteq> Some AGENT_FILTER_ANY then map_of fs ''agent'' else None))
     = buildConnectorFilter fs"
  unfolding buildConnectorFilter_def name_predicate_back agent_back
  by (cases "truthy (map_of fs ''agent'') \<and> map_of fs ''agent'' \<noteq> Some AGENT_FILTER_ANY") (auto simp: keep_truthy_def Let_def)

lemma base_search_size: "offered v \<Longrightarrow> se_size (base_search v) = None \<or> the (se_size (base_search v)) \<in> set PAGE_SIZES"
  by (simp add: base_search_def offered_def)

lemma sort_back:
  assumes "offered v" and "se_sort s = keep_truthy (se_sort (base_search v))" and "se_dir s = se_dir (base_search v)"
  shows "search_sort s = lv_sort v"
proof (cases "lv_sort v")
  case (Some t)
  then show ?thesis
    using assms by (cases "ss_direction t") (auto simp: offered_def search_sort_def base_search_def keep_truthy_def intro: sort_state.equality)
qed (use assms in \<open>simp add: search_sort_def base_search_def keep_truthy_def\<close>)

lemma cursor_back: "offered v \<Longrightarrow> keep_truthy (lv_pageToken v) = lv_pageToken v"
  by (auto simp: offered_def keep_truthy_def truthy_def)

lemma size_back: "or_default (se_size (base_search v)) DEFAULT_PAGE_SIZE = lv_pageSize v"
  by (simp add: base_search_def)

lemmas search_back_simps = search_params_back size_param_of size_back cursor_back list_query_of_def scoped_list_def

text \<open>
  C38. The list state in the URL is enough: a state as the controls produce it, written into the
  search parameters and validated and read back, asks the server for the same rows, of the same
  scope, in the same order and page, for connectors, for secrets, and for workflows when the route
  gives the scope. So the server that renders the page first and the browser that takes over send
  the same request.
\<close>

theorem url_keeps_the_request:
  assumes "offered v"
  shows "buildConnectorsListRequest org
       (connectors_searchToValue (validateConnectorsSearch convert (search_params_of (connectors_valueToSearch v))))
     = buildConnectorsListRequest org v
    \<and> buildSecretsListRequest org
       (secrets_searchToValue (validateSecretsSearch convert (search_params_of (secrets_valueToSearch v))))
     = buildSecretsListRequest org v
    \<and> buildWorkflowsListRequest org
       ((workflows_searchToValue (validateWorkflowsSearch convert (search_params_of (workflows_valueToSearch v))))\<lparr>lv_scope := lv_scope v\<rparr>)
     = buildWorkflowsListRequest org v"
proof -
  note size = base_search_size [OF assms]
  let ?c = "validateConnectorsSearch convert (search_params_of (connectors_valueToSearch v))"
  let ?s = "validateSecretsSearch convert (search_params_of (secrets_valueToSearch v))"
  let ?w = "validateWorkflowsSearch convert (search_params_of (workflows_valueToSearch v))"
  have c: "?c = (connectors_valueToSearch v)\<lparr>se_sort := keep_truthy (se_sort (base_search v))\<rparr>"
    using size by (simp add: validateConnectorsSearch_def connectors_valueToSearch_def search_params_back size_param_of)
      (auto simp: base_search_def keep_truthy_def Let_def)
  have s: "?s = (base_search v)\<lparr>se_sort := keep_truthy (se_sort (base_search v))\<rparr>"
    using size by (simp add: validateSecretsSearch_def secrets_valueToSearch_def search_params_back size_param_of)
      (auto simp: base_search_def keep_truthy_def)
  have w: "?w = (base_search v)\<lparr>se_sort := keep_truthy (se_sort (base_search v)), se_scope := None\<rparr>"
    using size by (simp add: validateWorkflowsSearch_def workflows_valueToSearch_def search_params_back size_param_of)
      (auto simp: base_search_def keep_truthy_def)
  have sorts: "search_sort ?c = lv_sort v" "search_sort ?s = lv_sort v" "search_sort ?w = lv_sort v"
    unfolding c s w by (intro sort_back [OF assms]; simp add: connectors_valueToSearch_def)+
  have cur: "se_cursor (base_search v) = lv_pageToken v" "or_default (se_scope (base_search v)) [] = lv_scope v"
    using cursor_back [OF assms] by (simp_all add: base_search_def)
  have q: "se_q (base_search v) = keep_truthy (map_option trim (map_of (lv_filters v) ''displayName''))"
    by (simp add: base_search_def)
  have "buildConnectorFilter (lv_filters (connectors_searchToValue ?c)) = buildConnectorFilter (lv_filters v)"
    using connector_filter_back [of "lv_filters v"]
    by (simp only: c) (simp add: connectors_searchToValue_def connectors_valueToSearch_def q Let_def)
  then have 1: "buildConnectorsListRequest org (connectors_searchToValue ?c) = buildConnectorsListRequest org v"
    using sorts(1) cur size_back [of v] unfolding c
    by (simp add: buildConnectorsListRequest_def scoped_list_def list_query_of_def connectors_searchToValue_def connectors_valueToSearch_def)
  have 2: "buildSecretsListRequest org (secrets_searchToValue ?s) = buildSecretsListRequest org v"
    using sorts(2) cur size_back [of v] unfolding s
    by (simp add: buildSecretsListRequest_def buildSecretFilter_def scoped_list_def list_query_of_def secrets_searchToValue_def q name_predicate_back')
  have 3: "buildWorkflowsListRequest org ((workflows_searchToValue ?w)\<lparr>lv_scope := lv_scope v\<rparr>) = buildWorkflowsListRequest org v"
    using sorts(3) cur size_back [of v] unfolding w
    by (simp add: buildWorkflowsListRequest_def buildWorkflowFilter_def scoped_list_def list_query_of_def workflows_searchToValue_def q name_predicate_back')
  from 1 2 3 show ?thesis by blast
qed

theorem url_keeps_the_request_witness:
  "\<exists>s. buildSecretsListRequest ''acme'' (secrets_searchToValue s) = Space_list [(''organization'', ''acme''), (''space'', ''ops'')]
     \<lparr>lq_filter = None, lq_orderBy = Some ''name desc'', lq_pageSize = 50, lq_pageToken = Some ''t''\<rparr>"
proof -
  let ?v = "\<lparr>lv_filters = [], lv_sort = Some \<lparr>ss_field = ''name'', ss_direction = Desc\<rparr>, lv_pageSize = 50,
    lv_scope = ''ops'', lv_pageToken = Some ''t''\<rparr>"
  have "offered ?v" by (simp add: offered_def PAGE_SIZES_def)
  from url_keeps_the_request [OF this, of "''acme''" "\<lambda>_. None"] show ?thesis
    by (auto simp: buildSecretsListRequest_def [of _ ?v] scoped_list_def list_query_of_def orderByParam_def buildSecretFilter_def name_predicate_def)
qed

section \<open>Choosing a scope\<close>

definition slug :: "string \<Rightarrow> bool" where
  "slug s \<longleftrightarrow> s \<noteq> [] \<and> CHR ''/'' \<notin> set s"

lemma split_path: "CHR ''/'' \<notin> set p \<Longrightarrow> split_on (CHR ''/'') (p @ CHR ''/'' # r) = p # split_on (CHR ''/'') r"
  by (rule split_on_append)

lemma resource_text_slug: "slug (resource_text r)"
  by (cases r) (simp_all add: slug_def)

lemma parts_of_target:
  assumes "\<forall>p \<in> set ps. slug p" and "ps \<noteq> []"
  shows "filter (\<lambda>p. p \<noteq> []) (split_on (CHR ''/'') (path_text ps)) = ps"
proof -
  have "split_on (CHR ''/'') (join_with ''/'' ps) = ps"
    using assms by (intro split_join) (auto simp: slug_def)
  then have "split_on (CHR ''/'') (path_text ps) = [] # ps" by (simp add: path_text_join [OF assms(2)])
  moreover have "filter (\<lambda>p. p \<noteq> []) ps = ps" using assms(1) by (auto simp: slug_def intro!: filter_True)
  ultimately show ?thesis by simp
qed

lemma resource_of_org_target:
  "slug org \<Longrightarrow> resourceFromPathname (path_text [''organizations'', org, resource_text r]) = Some r"
  by (subst resourceFromPathname_def, subst parts_of_target)
    (cases r; auto simp: slug_def part_at_def)+

lemma resource_of_space_target:
  "slug org \<Longrightarrow> slug sp \<Longrightarrow> resourceFromPathname (path_text [''organizations'', org, ''spaces'', sp, resource_text r]) = Some r"
  by (subst resourceFromPathname_def, subst parts_of_target)
    (cases r; auto simp: slug_def part_at_def)+

lemma resource_of_home: "slug org \<Longrightarrow> resourceFromPathname (path_text [''organizations'', org]) = None"
  by (subst resourceFromPathname_def, subst parts_of_target) (auto simp: slug_def part_at_def)

lemma find_org_sound: "find_org orgs s = Inr (Some org) \<Longrightarrow> org \<in> set orgs \<and> organizationId (sc_organization org) = Inr s"
  by (induction orgs) (auto split: if_splits)

lemma find_org_complete:
  "(\<forall>org \<in> set orgs. \<exists>i. organizationId (sc_organization org) = Inr i) \<Longrightarrow> org \<in> set orgs \<Longrightarrow>
     organizationId (sc_organization org) = Inr s \<Longrightarrow> \<exists>org'. find_org orgs s = Inr (Some org')"
proof (induction orgs)
  case (Cons a orgs)
  then obtain i where "organizationId (sc_organization a) = Inr i" by auto
  with Cons show ?case by (cases "i = s") auto
qed simp

text \<open>
  Choosing a scope keeps the place and stays inside the user's memberships: choosing a space,
  all spaces or another organization leads to a page of the same resource (connectors where the
  page had none), choosing an organization off a resource leads to its home; the start page sends
  the user only into an organization of the list; and an organization found for a slug is in the
  list and has this slug, is found whenever there is one and all names parse, and never for the
  empty slug.
\<close>

theorem scope_navigation:
  assumes "slug org" and "slug sp"
  shows "resourceFromPathname (spaceNavTarget path org (Some sp)) = Some (or_default (resourceFromPathname path) Connectors)
    \<and> resourceFromPathname (spaceNavTarget path org None) = Some (or_default (resourceFromPathname path) Connectors)
    \<and> resourceFromPathname (orgNavTarget path org) = resourceFromPathname path
    \<and> (\<forall>x. resolveRootTarget orgs remembered = RootOrg x \<longrightarrow> x \<in> sc_organization ` set orgs)
    \<and> (\<forall>found. resolveOrgBySlug orgs s = Inr (Some found) \<longrightarrow> s \<noteq> [] \<and> found \<in> set orgs \<and> organizationId (sc_organization found) = Inr s)
    \<and> ((\<forall>g \<in> set orgs. \<exists>i. organizationId (sc_organization g) = Inr i) \<longrightarrow> s \<noteq> [] \<longrightarrow>
       (\<exists>g \<in> set orgs. organizationId (sc_organization g) = Inr s) \<longrightarrow> (\<exists>found. resolveOrgBySlug orgs s = Inr (Some found)))"
proof -
  have "spaceNavTarget path org (Some sp) = path_text [''organizations'', org, ''spaces'', sp, resource_text (or_default (resourceFromPathname path) Connectors)]"
    "spaceNavTarget path org None = path_text [''organizations'', org, resource_text (or_default (resourceFromPathname path) Connectors)]"
    using assms by (simp_all add: spaceNavTarget_def path_text_def slug_def)
  moreover have "orgNavTarget path org = (case resourceFromPathname path of None \<Rightarrow> path_text [''organizations'', org]
      | Some r \<Rightarrow> path_text [''organizations'', org, resource_text r])"
    by (simp add: orgNavTarget_def path_text_def split: option.split)
  moreover have "\<forall>x. resolveRootTarget orgs remembered = RootOrg x \<longrightarrow> x \<in> sc_organization ` set orgs"
    by (auto simp: resolveRootTarget_def image_iff split: if_splits) metis
  ultimately show ?thesis
    using assms find_org_sound [of orgs s] find_org_complete [of orgs _ s]
    by (auto simp: resource_of_org_target resource_of_space_target resource_of_home resolveOrgBySlug_def split: option.split if_splits)
qed

theorem scope_navigation_witness:
  "resourceFromPathname (spaceNavTarget ''/organizations/acme/secrets/new'' ''acme'' (Some ''ops'')) = Some Secrets"
proof -
  have "slug ''acme''" "slug ''ops''" by (simp_all add: slug_def)
  moreover have "resourceFromPathname ''/organizations/acme/secrets/new'' = Some Secrets"
    by (simp add: resourceFromPathname_def part_at_def)
  ultimately show ?thesis
    using scope_navigation [of "''acme''" "''ops''" "''/organizations/acme/secrets/new''" "[]" None "[]"] by simp
qed

end
