(* ===== verification/Oidc_Session.thy ===== *)
theory Oidc_Session
  imports Prelude
begin

text \<open>
  The sessions of the web server: the token set of a login
  (\<^verbatim>\<open>packages/oidc/src/tokens.ts\<close>, \<^verbatim>\<open>refresh.ts\<close>), the table of sessions
  (\<^verbatim>\<open>apps/start/src/server/oidc/session-store.ts\<close>), the single-flighted refresh
  (\<^verbatim>\<open>apps/start/src/server/oidc/session.ts\<close>) and the requests that use them: the API proxy
  (\<^verbatim>\<open>apps/start/src/routes/api/v1/$.ts\<close>), the token for server rendering (\<^verbatim>\<open>ssr-token.ts\<close>), the
  logout (\<^verbatim>\<open>routes/auth/logout.ts\<close>) and the gate (\<^verbatim>\<open>oidc-session.server.ts\<close>).

  The server is one JavaScript process: code runs without interruption up to the next \<open>await\<close>.
  A request or a refresh in progress is therefore a program counter that says which answer it
  waits for, and a step is the arrival of one answer together with the code that runs up to the
  next \<open>await\<close>. Answers come in any order, and each may be a failure: of the operation itself, or
  of the way back, when the database or the provider has done what it was asked and its answer is
  lost. The database statements are single steps. Every request begins with the session id of its cookie; requests without a
  cookie never come this far.

  It is proved that, as long as no replaced token set is lost on its way from the provider to the
  table, a refresh token the identity provider has replaced is never presented again,
  that at most one refresh of a session runs at a time, that a session that is gone stays gone
  whatever refreshes are still in flight, and that every request ends.
\<close>

section \<open>Tokens\<close>

text \<open>Times are milliseconds.\<close>

record session_tokens =
  tk_access_token :: string
  tk_refresh_token :: "string option"
  tk_id_token :: "string option"
  tk_expires_at :: int

record token_response =
  tr_access_token :: string
  tr_refresh_token :: "string option"
  tr_id_token :: "string option"
  tr_expires_in :: "int option"

definition EXPIRY_SKEW_MS :: int where "EXPIRY_SKEW_MS = 30000"

definition tokensFromResponse :: "int \<Rightarrow> token_response \<Rightarrow> session_tokens" where
  "tokensFromResponse now response =
     \<lparr>tk_access_token = tr_access_token response, tk_refresh_token = tr_refresh_token response,
      tk_id_token = tr_id_token response, tk_expires_at = now + or_default (tr_expires_in response) 300 * 1000\<rparr>"

definition isTokenFresh :: "int \<Rightarrow> session_tokens \<Rightarrow> bool" where
  "isTokenFresh now tokens \<longleftrightarrow> EXPIRY_SKEW_MS \<le> tk_expires_at tokens - now"

text \<open>The answer of the provider to a refresh, turned into the next token set.\<close>

definition refreshTokens :: "int \<Rightarrow> string \<Rightarrow> token_response \<Rightarrow> session_tokens" where
  "refreshTokens now refreshToken response =
     (let tokens = tokensFromResponse now response
      in if \<not> truthy (tk_refresh_token tokens) then tokens\<lparr>tk_refresh_token := Some refreshToken\<rparr> else tokens)"

section \<open>The session table\<close>

text \<open>The columns \<open>created_at\<close> and \<open>updated_at\<close> are never read and are left out.\<close>

record session_row =
  sr_tokens :: session_tokens
  sr_sub :: string
  sr_expires_at :: int

type_synonym web_sessions = "string \<rightharpoonup> session_row"

definition SESSION_TTL_MS :: int where "SESSION_TTL_MS = 1000 * 60 * 60 * 24 * 30"

text \<open>An insert violates the primary key when the id is taken.\<close>

definition createSession :: "string \<Rightarrow> session_tokens \<Rightarrow> string \<Rightarrow> int \<Rightarrow> web_sessions \<Rightarrow> web_sessions option" where
  "createSession i tokens sub now db =
     (if db i \<noteq> None then None
      else Some (db(i \<mapsto> \<lparr>sr_tokens = tokens, sr_sub = sub, sr_expires_at = now + SESSION_TTL_MS\<rparr>)))"

definition row_expired :: "int \<Rightarrow> session_row \<Rightarrow> bool" where
  "row_expired now row \<longleftrightarrow> sr_expires_at row < now"

definition updateSession :: "string \<Rightarrow> session_tokens \<Rightarrow> int \<Rightarrow> web_sessions \<Rightarrow> web_sessions" where
  "updateSession i tokens now db =
     (case db i of
        None \<Rightarrow> db
      | Some row \<Rightarrow> db(i \<mapsto> row\<lparr>sr_tokens := tokens, sr_expires_at := now + SESSION_TTL_MS\<rparr>))"

definition deleteSession :: "string \<Rightarrow> web_sessions \<Rightarrow> web_sessions" where
  "deleteSession i db = db(i := None)"

definition deleteSessionsBySub :: "string \<Rightarrow> web_sessions \<Rightarrow> web_sessions" where
  "deleteSessionsBySub sub db =
     (\<lambda>i. case db i of None \<Rightarrow> None | Some row \<Rightarrow> if sr_sub row = sub then None else Some row)"

section \<open>The process\<close>

text \<open>
  A refresh waits for the row, for the deletion of an expired row, for the provider's
  configuration, for the token grant (with the refresh token it presents) or for the update; then
  its promise is settled, with the error or the tokens.
\<close>

datatype flight_pc =
    F_Select
  | F_Delete
  | F_Config string
  | F_Grant string
  | F_Update session_tokens
  | F_Settled "unit + session_tokens"

datatype request_kind = Proxy | Ssr | Logout | Gate

text \<open>
  What a request has come to: \<open>Use_token\<close> goes on to the backend with these tokens; \<open>Thrown\<close> is
  an exception out of the handler.
\<close>

datatype outcome =
    Unauthenticated
  | Session_expired
  | Use_token session_tokens
  | No_token
  | Signed_out "session_tokens option"
  | Seen "session_tokens option"
  | Thrown

text \<open>
  A request waits for \<open>getSession\<close> (the row, then perhaps its deletion), for the refresh with a
  number, as its owner or as one that joined, for the deletion of a dead session, or for the
  deletion of the session it signs out.
\<close>

datatype request_pc =
    T_Select
  | T_Delete
  | T_Await nat bool
  | T_Drop
  | T_SignOut "session_tokens option"
  | T_Done outcome

record request_task =
  ta_kind :: request_kind
  ta_id :: string
  ta_pc :: request_pc

text \<open>
  The last four fields only record what happened: the ids and refresh tokens ever issued, the
  refresh tokens the provider replaced, and whether a set that replaced another was lost, because
  the provider's answer did not arrive or because the set could not be stored.
\<close>

record bff =
  b_now :: int
  b_rows :: web_sessions
  b_flights :: "(string \<times> flight_pc) list"
  b_inflight :: "string \<rightharpoonup> nat"
  b_tasks :: "request_task list"
  b_ids :: "string list"
  b_issued :: "string list"
  b_replaced :: "string list"
  b_lost :: bool

definition bff_start :: bff where
  "bff_start = \<lparr>b_now = 0, b_rows = Map.empty, b_flights = [], b_inflight = Map.empty, b_tasks = [],
     b_ids = [], b_issued = [], b_replaced = [], b_lost = False\<rparr>"

text \<open>
  The answers: \<open>Fails\<close> is a refusal or an error before anything was done; \<open>Unheard\<close> is a database
  statement that was executed and whose answer was lost; \<open>Granted_unheard\<close> is a token grant whose
  answer was lost after the provider had issued its token set. The code sees the same rejected
  promise in all three.
\<close>

datatype reply = Fine | Fails | Unheard | Granted token_response | Granted_unheard token_response

text \<open>\<open>refreshSession\<close>, up to its first \<open>await\<close>: join the refresh in flight or start one.\<close>

definition refreshSession :: "string \<Rightarrow> bff \<Rightarrow> bff \<times> request_pc" where
  "refreshSession i s =
     (case b_inflight s i of
        Some n \<Rightarrow> (s, T_Await n False)
      | None \<Rightarrow>
          (let n = length (b_flights s)
           in (s\<lparr>b_flights := b_flights s @ [(i, F_Select)], b_inflight := (b_inflight s)(i \<mapsto> n)\<rparr>, T_Await n True)))"

text \<open>What each kind of request does with the session it found.\<close>

definition with_session :: "request_kind \<Rightarrow> string \<Rightarrow> session_tokens option \<Rightarrow> bff \<Rightarrow> bff \<times> request_pc" where
  "with_session kind i session s =
     (case kind of
        Proxy \<Rightarrow>
          (case session of
             None \<Rightarrow> (s, T_Done Unauthenticated)
           | Some t \<Rightarrow> if \<not> isTokenFresh (b_now s) t \<and> truthy (tk_refresh_token t) then refreshSession i s
                       else (s, T_Done (Use_token t)))
      | Ssr \<Rightarrow>
          (case session of
             None \<Rightarrow> (s, T_Done No_token)
           | Some t \<Rightarrow> if tk_access_token t = [] then (s, T_Done No_token)
                       else if \<not> isTokenFresh (b_now s) t \<and> truthy (tk_refresh_token t) then refreshSession i s
                       else (s, T_Done (Use_token t)))
      | Logout \<Rightarrow> (s, T_SignOut session)
      | Gate \<Rightarrow> (s, T_Done (Seen session)))"

definition after_refresh :: "request_kind \<Rightarrow> unit + session_tokens \<Rightarrow> request_pc" where
  "after_refresh kind res =
     (case res of
        Inr t \<Rightarrow> T_Done (Use_token t)
      | Inl _ \<Rightarrow> if kind = Proxy then T_Drop else T_Done No_token)"

definition set_pc :: "nat \<Rightarrow> request_pc \<Rightarrow> bff \<Rightarrow> bff" where
  "set_pc k pc s = s\<lparr>b_tasks := (b_tasks s)[k := (b_tasks s ! k)\<lparr>ta_pc := pc\<rparr>]\<rparr>"

definition resume :: "nat \<Rightarrow> session_tokens option \<Rightarrow> bff \<Rightarrow> bff" where
  "resume k session s =
     (let (s', pc) = with_session (ta_kind (b_tasks s ! k)) (ta_id (b_tasks s ! k)) session s in set_pc k pc s')"

definition request_step :: "nat \<Rightarrow> reply \<Rightarrow> bff \<Rightarrow> bff option" where
  "request_step k r s =
     (if length (b_tasks s) \<le> k then None
      else let i = ta_id (b_tasks s ! k) in
        case ta_pc (b_tasks s ! k) of
          T_Done _ \<Rightarrow> None
        | T_Await n owner \<Rightarrow>
            (case snd (b_flights s ! n) of
               F_Settled res \<Rightarrow>
                 Some (set_pc k (after_refresh (ta_kind (b_tasks s ! k)) res)
                   (if owner then s\<lparr>b_inflight := (b_inflight s)(i := None)\<rparr> else s))
             | _ \<Rightarrow> None)
        | T_Select \<Rightarrow>
            if r = Fails \<or> r = Unheard then Some (set_pc k (T_Done Thrown) s)
            else (case b_rows s i of
                    None \<Rightarrow> Some (resume k None s)
                  | Some row \<Rightarrow> if row_expired (b_now s) row then Some (set_pc k T_Delete s)
                                else Some (resume k (Some (sr_tokens row)) s))
        | T_Delete \<Rightarrow>
            if r = Fails then Some (set_pc k (T_Done Thrown) s)
            else if r = Unheard then Some (set_pc k (T_Done Thrown) (s\<lparr>b_rows := deleteSession i (b_rows s)\<rparr>))
            else Some (resume k None (s\<lparr>b_rows := deleteSession i (b_rows s)\<rparr>))
        | T_Drop \<Rightarrow>
            if r = Fails then Some (set_pc k (T_Done Thrown) s)
            else if r = Unheard then Some (set_pc k (T_Done Thrown) (s\<lparr>b_rows := deleteSession i (b_rows s)\<rparr>))
            else Some (set_pc k (T_Done Session_expired) (s\<lparr>b_rows := deleteSession i (b_rows s)\<rparr>))
        | T_SignOut session \<Rightarrow>
            if r = Fails then Some (set_pc k (T_Done Thrown) s)
            else if r = Unheard then Some (set_pc k (T_Done Thrown) (s\<lparr>b_rows := deleteSession i (b_rows s)\<rparr>))
            else Some (set_pc k (T_Done (Signed_out session)) (s\<lparr>b_rows := deleteSession i (b_rows s)\<rparr>)))"

definition set_flight :: "nat \<Rightarrow> flight_pc \<Rightarrow> bff \<Rightarrow> bff" where
  "set_flight n pc s = s\<lparr>b_flights := (b_flights s)[n := (fst (b_flights s ! n), pc)]\<rparr>"

abbreviation reject :: flight_pc where "reject \<equiv> F_Settled (Inl ())"

definition flight_step :: "nat \<Rightarrow> reply \<Rightarrow> bff \<Rightarrow> bff option" where
  "flight_step n r s =
     (if length (b_flights s) \<le> n then None
      else let i = fst (b_flights s ! n) in
        case snd (b_flights s ! n) of
          F_Settled _ \<Rightarrow> None
        | F_Select \<Rightarrow>
            if r = Fails \<or> r = Unheard then Some (set_flight n reject s)
            else (case b_rows s i of
                    None \<Rightarrow> Some (set_flight n reject s)
                  | Some row \<Rightarrow>
                      if row_expired (b_now s) row then Some (set_flight n F_Delete s)
                      else let current = sr_tokens row in
                        if isTokenFresh (b_now s) current then Some (set_flight n (F_Settled (Inr current)) s)
                        else if \<not> truthy (tk_refresh_token current) then Some (set_flight n reject s)
                        else Some (set_flight n (F_Config (the (tk_refresh_token current))) s))
        | F_Delete \<Rightarrow>
            if r = Fails then Some (set_flight n reject s)
            else Some (set_flight n reject (s\<lparr>b_rows := deleteSession i (b_rows s)\<rparr>))
        | F_Config rt \<Rightarrow> Some (set_flight n (if r = Fails \<or> r = Unheard then reject else F_Grant rt) s)
        | F_Grant rt \<Rightarrow>
            (case r of
               Granted response \<Rightarrow>
                 (let tokens = refreshTokens (b_now s) rt response; new = the (tk_refresh_token tokens)
                  in Some (set_flight n (F_Update tokens)
                       (s\<lparr>b_issued := new # b_issued s, b_replaced := (if new = rt then b_replaced s else rt # b_replaced s)\<rparr>)))
             | Granted_unheard response \<Rightarrow>
                 (let new = the (tk_refresh_token (refreshTokens (b_now s) rt response))
                  in Some (set_flight n reject
                       (if new = rt then s
                        else s\<lparr>b_issued := new # b_issued s, b_replaced := rt # b_replaced s, b_lost := True\<rparr>)))
             | _ \<Rightarrow> Some (set_flight n reject s))
        | F_Update tokens \<Rightarrow>
            if r = Fails then Some (set_flight n reject (s\<lparr>b_lost := True\<rparr>))
            else if r = Unheard then Some (set_flight n reject (s\<lparr>b_rows := updateSession i tokens (b_now s) (b_rows s)\<rparr>))
            else Some (set_flight n (F_Settled (Inr tokens)) (s\<lparr>b_rows := updateSession i tokens (b_now s) (b_rows s)\<rparr>)))"

text \<open>Time passes, a request comes in, an answer arrives, a login is stored, all sessions of a subject are deleted.\<close>

datatype event =
    Clock int
  | Request request_kind string
  | Answer nat reply
  | Refreshed nat reply
  | Sign_in string session_tokens string
  | Sign_out_everywhere string

definition bff_step :: "event \<Rightarrow> bff \<Rightarrow> bff option" where
  "bff_step e s =
     (case e of
        Clock t \<Rightarrow> Some (s\<lparr>b_now := t\<rparr>)
      | Request kind i \<Rightarrow> Some (s\<lparr>b_tasks := b_tasks s @ [\<lparr>ta_kind = kind, ta_id = i, ta_pc = T_Select\<rparr>]\<rparr>)
      | Answer k r \<Rightarrow> request_step k r s
      | Refreshed n r \<Rightarrow> flight_step n r s
      | Sign_in i tokens sub \<Rightarrow>
          map_option (\<lambda>db. s\<lparr>b_rows := db, b_ids := i # b_ids s,
              b_issued := (if truthy (tk_refresh_token tokens) then the (tk_refresh_token tokens) # b_issued s else b_issued s)\<rparr>)
            (createSession i tokens sub (b_now s) (b_rows s))
      | Sign_out_everywhere sub \<Rightarrow> Some (s\<lparr>b_rows := deleteSessionsBySub sub (b_rows s)\<rparr>))"

text \<open>
  What the code relies on: a session id of 32 random bytes was never used before, and the provider
  issues refresh tokens it never issued before (or lets the old one stand).
\<close>

definition honest :: "event \<Rightarrow> bff \<Rightarrow> bool" where
  "honest e s \<longleftrightarrow>
     (case e of
        Sign_in i tokens sub \<Rightarrow> i \<notin> set (b_ids s) \<and> (truthy (tk_refresh_token tokens) \<longrightarrow> the (tk_refresh_token tokens) \<notin> set (b_issued s))
      | Refreshed n (Granted response) \<Rightarrow>
          truthy (tr_refresh_token response) \<longrightarrow> the (tr_refresh_token response) \<notin> set (b_issued s)
            \<or> snd (b_flights s ! n) = F_Grant (the (tr_refresh_token response))
      | _ \<Rightarrow> True)"

inductive bff_run :: "bff \<Rightarrow> bff \<Rightarrow> bool" where
  run_here: "bff_run s s"
| run_step: "bff_run s t \<Longrightarrow> honest e t \<Longrightarrow> bff_step e t = Some u \<Longrightarrow> bff_run s u"

inductive_cases bff_run_cases: "bff_run s t"

section \<open>One refresh at a time\<close>

definition settled :: "flight_pc \<Rightarrow> bool" where
  "settled pc \<longleftrightarrow> (\<exists>res. pc = F_Settled res)"

lemma settled_simps [simp]:
  "settled (F_Settled res)" "\<not> settled F_Select" "\<not> settled F_Delete" "\<not> settled (F_Config r)"
  "\<not> settled (F_Grant r)" "\<not> settled (F_Update t)"
  by (simp_all add: settled_def)

definition entries_ok :: "(string \<times> flight_pc) list \<Rightarrow> (string \<rightharpoonup> nat) \<Rightarrow> bool" where
  "entries_ok fs m \<longleftrightarrow>
     (\<forall>i n. m i = Some n \<longrightarrow> n < length fs \<and> fst (fs ! n) = i)
     \<and> (\<forall>n < length fs. \<not> settled (snd (fs ! n)) \<longrightarrow> m (fst (fs ! n)) = Some n)"

lemma entries_okD:
  assumes "entries_ok fs m"
  shows "m i = Some n \<Longrightarrow> n < length fs" and "m i = Some n \<Longrightarrow> fst (fs ! n) = i"
    and "n < length fs \<Longrightarrow> \<not> settled (snd (fs ! n)) \<Longrightarrow> m (fst (fs ! n)) = Some n"
  using assms by (simp_all add: entries_ok_def)

definition waits_ok :: "(string \<times> flight_pc) list \<Rightarrow> (string \<rightharpoonup> nat) \<Rightarrow> request_task \<Rightarrow> bool" where
  "waits_ok fs m t \<longleftrightarrow>
     (\<forall>n own. ta_pc t = T_Await n own \<longrightarrow> n < length fs \<and> fst (fs ! n) = ta_id t \<and> (own \<longrightarrow> m (ta_id t) = Some n))"

definition owns :: "request_task list \<Rightarrow> nat \<Rightarrow> nat \<Rightarrow> bool" where
  "owns ts k n \<longleftrightarrow> k < length ts \<and> ta_pc (ts ! k) = T_Await n True"

definition flights_ok :: "bff \<Rightarrow> bool" where
  "flights_ok s \<longleftrightarrow> entries_ok (b_flights s) (b_inflight s)
     \<and> (\<forall>t \<in> set (b_tasks s). waits_ok (b_flights s) (b_inflight s) t)
     \<and> (\<forall>j k n. owns (b_tasks s) j n \<longrightarrow> owns (b_tasks s) k n \<longrightarrow> j = k)"

lemma flights_okD:
  assumes "flights_ok s"
  shows "entries_ok (b_flights s) (b_inflight s)" and "\<And>t. t \<in> set (b_tasks s) \<Longrightarrow> waits_ok (b_flights s) (b_inflight s) t"
    and "\<And>j k n. owns (b_tasks s) j n \<Longrightarrow> owns (b_tasks s) k n \<Longrightarrow> j = k"
  using assms by (auto simp: flights_ok_def)

lemma flights_ok_other [simp]:
  "flights_ok (s\<lparr>b_rows := db\<rparr>) = flights_ok s" "flights_ok (s\<lparr>b_now := t\<rparr>) = flights_ok s"
  "flights_ok (s\<lparr>b_rows := db, b_ids := is, b_issued := rs\<rparr>) = flights_ok s"
  "flights_ok (s\<lparr>b_issued := rs, b_replaced := ps\<rparr>) = flights_ok s" "flights_ok (s\<lparr>b_lost := l\<rparr>) = flights_ok s"
  by (simp_all add: flights_ok_def)

lemma set_pc_other [simp]:
  "b_flights (set_pc k pc s) = b_flights s" "b_inflight (set_pc k pc s) = b_inflight s" "b_rows (set_pc k pc s) = b_rows s"
  "b_lost (set_pc k pc s) = b_lost s" "b_issued (set_pc k pc s) = b_issued s" "b_replaced (set_pc k pc s) = b_replaced s"
  "b_ids (set_pc k pc s) = b_ids s" "length (b_tasks (set_pc k pc s)) = length (b_tasks s)" "b_now (set_pc k pc s) = b_now s"
  by (simp_all add: set_pc_def)

lemma set_flight_other [simp]:
  "b_tasks (set_flight n pc s) = b_tasks s" "b_inflight (set_flight n pc s) = b_inflight s" "b_rows (set_flight n pc s) = b_rows s"
  "b_lost (set_flight n pc s) = b_lost s" "b_issued (set_flight n pc s) = b_issued s" "b_replaced (set_flight n pc s) = b_replaced s"
  "b_ids (set_flight n pc s) = b_ids s" "length (b_flights (set_flight n pc s)) = length (b_flights s)"
  by (simp_all add: set_flight_def)

lemma set_pc_tasks: "b_tasks (set_pc k pc s) = (b_tasks s)[k := (b_tasks s ! k)\<lparr>ta_pc := pc\<rparr>]"
  by (simp add: set_pc_def)

lemma owns_set_pc: "owns (b_tasks (set_pc k pc s)) j n \<longleftrightarrow> (if j = k then k < length (b_tasks s) \<and> pc = T_Await n True else owns (b_tasks s) j n)"
  by (auto simp: owns_def set_pc_tasks nth_list_update)

lemma waits_ok_done [simp]: "(\<And>n own. pc \<noteq> T_Await n own) \<Longrightarrow> waits_ok fs m (t\<lparr>ta_pc := pc\<rparr>)"
  by (simp add: waits_ok_def)

lemma flights_okI_pc:
  assumes "entries_ok (b_flights s) (b_inflight s)"
    and tasks: "\<And>j. j < length (b_tasks s) \<Longrightarrow> j \<noteq> k \<Longrightarrow> waits_ok (b_flights s) (b_inflight s) (b_tasks s ! j)"
    and task: "waits_ok (b_flights s) (b_inflight s) ((b_tasks s ! k)\<lparr>ta_pc := pc\<rparr>)"
    and owners: "\<And>i j n. i \<noteq> k \<Longrightarrow> j \<noteq> k \<Longrightarrow> owns (b_tasks s) i n \<Longrightarrow> owns (b_tasks s) j n \<Longrightarrow> i = j"
    and fresh: "\<And>j n. pc = T_Await n True \<Longrightarrow> j \<noteq> k \<Longrightarrow> \<not> owns (b_tasks s) j n"
  shows "flights_ok (set_pc k pc s)"
  unfolding flights_ok_def
proof (intro conjI allI impI)
  show "\<forall>t \<in> set (b_tasks (set_pc k pc s)). waits_ok (b_flights (set_pc k pc s)) (b_inflight (set_pc k pc s)) t"
  proof
    fix t assume "t \<in> set (b_tasks (set_pc k pc s))"
    then obtain j where "j < length (b_tasks s)" "t = (if j = k then (b_tasks s ! k)\<lparr>ta_pc := pc\<rparr> else b_tasks s ! j)"
      by (auto simp: set_pc_tasks in_set_conv_nth nth_list_update)
    then show "waits_ok (b_flights (set_pc k pc s)) (b_inflight (set_pc k pc s)) t" using tasks [of j] task by simp
  qed
  show "j = l" if "owns (b_tasks (set_pc k pc s)) j n" "owns (b_tasks (set_pc k pc s)) l n" for j l n
    using that owners [of j l n] fresh [of n l] fresh [of n j] by (simp add: owns_set_pc split: if_splits)
qed (use assms(1) in simp)

lemma flights_ok_set_pc:
  assumes "flights_ok s" and "\<And>n own. pc \<noteq> T_Await n own"
  shows "flights_ok (set_pc k pc s)"
  by (rule flights_okI_pc) (use flights_okD [OF assms(1)] assms(2) in auto)

lemma flights_ok_set_flight:
  assumes "flights_ok s" and "n < length (b_flights s)" and "\<not> settled (snd (b_flights s ! n))"
  shows "flights_ok (set_flight n pc s)"
proof -
  let ?fs = "(b_flights s)[n := (fst (b_flights s ! n), pc)]"
  have f: "fst (?fs ! m) = fst (b_flights s ! m)" for m
    using assms(2) by (cases "m = n") simp_all
  have e: "entries_ok (b_flights s) (b_inflight s)" using flights_okD(1) [OF assms(1)] .
  then have "entries_ok ?fs (b_inflight s)"
    using assms(2,3) f by (auto simp: entries_ok_def nth_list_update)
  moreover have "waits_ok ?fs (b_inflight s) t" if "t \<in> set (b_tasks s)" for t
    using flights_okD(2) [OF assms(1) that] f by (simp add: waits_ok_def)
  ultimately show ?thesis
    using flights_okD(3) [OF assms(1)] by (simp add: flights_ok_def set_flight_def)
qed

text \<open>Starting or joining a refresh.\<close>

lemma flights_ok_refreshSession:
  assumes ok: "flights_ok s" and k: "k < length (b_tasks s)" "ta_id (b_tasks s ! k) = i" "\<And>n own. ta_pc (b_tasks s ! k) \<noteq> T_Await n own"
    and r: "refreshSession i s = (s', pc)"
  shows "flights_ok (set_pc k pc s')"
proof (cases "b_inflight s i")
  case (Some n)
  then have s': "s' = s" "pc = T_Await n False" using r by (simp_all add: refreshSession_def)
  have "n < length (b_flights s) \<and> fst (b_flights s ! n) = i"
    using flights_okD(1) [OF ok] Some by (simp add: entries_ok_def)
  then have "waits_ok (b_flights s) (b_inflight s) ((b_tasks s ! k)\<lparr>ta_pc := pc\<rparr>)"
    using k(2) s'(2) by (simp add: waits_ok_def)
  then show ?thesis
    unfolding s'(1) by (intro flights_okI_pc) (use flights_okD [OF ok] s'(2) in auto)
next
  case None
  let ?n = "length (b_flights s)"
  let ?fs = "b_flights s @ [(i, F_Select)]" and ?m = "(b_inflight s)(i \<mapsto> ?n)"
  have s': "s' = s\<lparr>b_flights := ?fs, b_inflight := ?m\<rparr>" "pc = T_Await ?n True"
    using r None by (simp_all add: refreshSession_def Let_def)
  have e: "entries_ok (b_flights s) (b_inflight s)" using flights_okD(1) [OF ok] .
  have ent: "entries_ok ?fs ?m"
    unfolding entries_ok_def
  proof (intro conjI allI impI)
    show "n < length ?fs" "fst (?fs ! n) = j" if "?m j = Some n" for j n
      using that e by (auto simp: entries_ok_def nth_append less_Suc_eq split: if_splits)
    show "?m (fst (?fs ! n)) = Some n" if "n < length ?fs" "\<not> settled (snd (?fs ! n))" for n
    proof (cases "n < ?n")
      case True
      then have "b_inflight s (fst (b_flights s ! n)) = Some n" using that e by (simp add: entries_ok_def nth_append)
      with True None show ?thesis by (auto simp: nth_append)
    qed (use that in \<open>simp add: nth_append\<close>)
  qed
  have old: "waits_ok ?fs ?m t" if "t \<in> set (b_tasks s)" for t
    using flights_okD(2) [OF ok that] None by (fastforce simp: waits_ok_def nth_append)
  have new: "waits_ok ?fs ?m ((b_tasks s ! k)\<lparr>ta_pc := pc\<rparr>)"
    using k(2) s'(2) by (simp add: waits_ok_def)
  have fresh: "\<not> owns (b_tasks s) j ?n" for j
    using flights_okD(2) [OF ok, of "b_tasks s ! j"] by (auto simp: owns_def waits_ok_def)
  have t: "b_tasks s' = b_tasks s" "b_flights s' = ?fs" "b_inflight s' = ?m" by (simp_all add: s')
  show ?thesis
  proof (rule flights_okI_pc, unfold t)
    show "waits_ok ?fs ?m (b_tasks s ! j)" if "j < length (b_tasks s)" for j using that by (intro old) simp
    show "\<not> owns (b_tasks s) j n" if "pc = T_Await n True" for j n using that fresh s'(2) by simp
  qed (use ent new flights_okD(3) [OF ok] in blast)+
qed

lemma flights_ok_resume:
  assumes "flights_ok s" and "k < length (b_tasks s)" and "\<And>n own. ta_pc (b_tasks s ! k) \<noteq> T_Await n own"
  shows "flights_ok (resume k session s)"
proof -
  obtain s' pc where w: "with_session (ta_kind (b_tasks s ! k)) (ta_id (b_tasks s ! k)) session s = (s', pc)" by fastforce
  then consider "refreshSession (ta_id (b_tasks s ! k)) s = (s', pc)" | "s' = s" "\<And>n own. pc \<noteq> T_Await n own"
    by (auto simp: with_session_def split: request_kind.splits option.splits if_splits)
  then show ?thesis
  proof cases
    case 1
    then show ?thesis using flights_ok_refreshSession [OF assms(1,2) refl assms(3) 1] w by (simp add: resume_def)
  next
    case 2
    then show ?thesis using flights_ok_set_pc [OF assms(1)] w by (simp add: resume_def)
  qed
qed

text \<open>The owner of a settled refresh takes it out of the table as it goes on.\<close>

lemma flights_ok_owner:
  assumes ok: "flights_ok s" and k: "k < length (b_tasks s)" "ta_pc (b_tasks s ! k) = T_Await n True"
    and n: "settled (snd (b_flights s ! n))" and pc: "\<And>n own. pc \<noteq> T_Await n own"
  shows "flights_ok (set_pc k pc (s\<lparr>b_inflight := (b_inflight s)(ta_id (b_tasks s ! k) := None)\<rparr>))"
proof -
  let ?i = "ta_id (b_tasks s ! k)"
  let ?s = "s\<lparr>b_inflight := (b_inflight s)(?i := None)\<rparr>"
  have e: "entries_ok (b_flights s) (b_inflight s)" using flights_okD(1) [OF ok] .
  have i: "b_inflight s ?i = Some n"
    using flights_okD(2) [OF ok, of "b_tasks s ! k"] k by (auto simp: waits_ok_def)
  show ?thesis
  proof (rule flights_okI_pc)
    show "entries_ok (b_flights ?s) (b_inflight ?s)"
      unfolding entries_ok_def
    proof (intro conjI allI impI)
      show "m < length (b_flights ?s)" "fst (b_flights ?s ! m) = j" if "b_inflight ?s j = Some m" for j m
        using that entries_okD(1,2) [OF e] by (simp_all split: if_splits)
      show "b_inflight ?s (fst (b_flights ?s ! m)) = Some m" if "m < length (b_flights ?s)" "\<not> settled (snd (b_flights ?s ! m))" for m
      proof -
        have "b_inflight s (fst (b_flights s ! m)) = Some m" using that entries_okD(3) [OF e] by simp
        moreover have "m \<noteq> n" using that n by auto
        ultimately show ?thesis using i by auto
      qed
    qed
    show "waits_ok (b_flights ?s) (b_inflight ?s) (b_tasks ?s ! j)" if "j < length (b_tasks ?s)" "j \<noteq> k" for j
    proof -
      have w: "waits_ok (b_flights s) (b_inflight s) (b_tasks s ! j)" using flights_okD(2) [OF ok] that(1) by simp
      have "m \<noteq> n" if "ta_pc (b_tasks s ! j) = T_Await m True" for m
        using flights_okD(3) [OF ok, of j n k] that k \<open>j < length (b_tasks ?s)\<close> \<open>j \<noteq> k\<close> by (auto simp: owns_def)
      then show ?thesis using w i by (fastforce simp: waits_ok_def)
    qed
  qed (use pc flights_okD(3) [OF ok] in auto)
qed

lemma flights_ok_request_step:
  assumes ok: "flights_ok s" and step: "request_step k r s = Some s'"
  shows "flights_ok s'"
proof -
  have k: "k < length (b_tasks s)" using step by (auto simp: request_step_def split: if_splits)
  show ?thesis
  proof (cases "ta_pc (b_tasks s ! k)")
    case (T_Await n own)
    have "pc \<noteq> T_Await m o'" if "pc = after_refresh kind res" for pc kind res m o'
      using that by (auto simp: after_refresh_def split: sum.splits if_splits)
    then show ?thesis
      using step k T_Await flights_ok_owner [OF ok k, of n] flights_ok_set_pc [OF ok]
      by (auto simp: request_step_def Let_def split: flight_pc.splits if_splits)
  next
    case T_Select
    then show ?thesis
      using step k flights_ok_resume [OF ok k] flights_ok_set_pc [OF ok]
      by (auto simp: request_step_def Let_def split: option.splits if_splits)
  next
    case T_Delete
    let ?s = "s\<lparr>b_rows := deleteSession (ta_id (b_tasks s ! k)) (b_rows s)\<rparr>"
    have "flights_ok (resume k None ?s)" by (rule flights_ok_resume) (use ok k T_Delete in simp_all)
    then show ?thesis
      using step k T_Delete flights_ok_set_pc [OF ok] flights_ok_set_pc [of ?s] ok by (auto simp: request_step_def Let_def split: if_splits)
  qed (use step k flights_ok_set_pc [of "s\<lparr>b_rows := deleteSession (ta_id (b_tasks s ! k)) (b_rows s)\<rparr>"] flights_ok_set_pc [OF ok] ok in
      \<open>auto simp: request_step_def Let_def split: if_splits\<close>)
qed

lemma flight_stepD:
  assumes "flight_step n r s = Some s'"
  shows "n < length (b_flights s)" and "\<not> settled (snd (b_flights s ! n))"
  using assms by (auto simp: flight_step_def settled_def Let_def split: if_splits flight_pc.splits)

text \<open>A step of a refresh moves its counter, and changes rows and records only.\<close>

lemma flight_step_shape:
  assumes "flight_step n r s = Some s'"
  obtains pc u where "s' = set_flight n pc u" and "b_flights u = b_flights s" and "b_inflight u = b_inflight s" and "b_tasks u = b_tasks s"
  using assms
  by (auto simp: flight_step_def Let_def split: if_splits flight_pc.splits option.splits reply.splits)

lemma flights_ok_flight_step:
  assumes "flights_ok s" and "flight_step n r s = Some s'"
  shows "flights_ok s'"
proof -
  obtain pc u where u: "s' = set_flight n pc u" "b_flights u = b_flights s" "b_inflight u = b_inflight s" "b_tasks u = b_tasks s"
    using flight_step_shape [OF assms(2)] .
  have "flights_ok u" using assms(1) u(2-4) by (simp add: flights_ok_def)
  then show ?thesis unfolding u(1) by (rule flights_ok_set_flight) (use flight_stepD [OF assms(2)] u(2) in simp_all)
qed

lemma flights_ok_step:
  assumes "flights_ok s" and "bff_step e s = Some s'"
  shows "flights_ok s'"
proof (cases e)
  case (Request kind i)
  then have s': "s' = s\<lparr>b_tasks := b_tasks s @ [\<lparr>ta_kind = kind, ta_id = i, ta_pc = T_Select\<rparr>]\<rparr>"
    using assms(2) by (simp add: bff_step_def)
  have "owns (b_tasks s @ [\<lparr>ta_kind = kind, ta_id = i, ta_pc = T_Select\<rparr>]) j n \<longleftrightarrow> owns (b_tasks s) j n" for j n
    by (auto simp: owns_def nth_append less_Suc_eq)
  then show ?thesis using flights_okD [OF assms(1)] unfolding flights_ok_def s' by (auto simp: waits_ok_def)
next
  case (Answer k r)
  then show ?thesis using assms flights_ok_request_step [of s k r s'] by (simp add: bff_step_def)
next
  case (Refreshed n r)
  then show ?thesis using assms flights_ok_flight_step [of s n r s'] by (simp add: bff_step_def)
next
  case (Sign_in i tokens sub)
  then obtain db where "s' = s\<lparr>b_rows := db, b_ids := i # b_ids s,
      b_issued := (if truthy (tk_refresh_token tokens) then the (tk_refresh_token tokens) # b_issued s else b_issued s)\<rparr>"
    using assms(2) by (auto simp: bff_step_def)
  then show ?thesis using assms(1) by simp
qed (use assms in \<open>auto simp: bff_step_def\<close>)

lemma flights_ok_run: "bff_run s t \<Longrightarrow> flights_ok s \<Longrightarrow> flights_ok t"
  by (induction rule: bff_run.induct) (auto intro: flights_ok_step)

lemma flights_ok_start: "flights_ok bff_start"
  by (simp add: flights_ok_def bff_start_def entries_ok_def owns_def)

lemma one_flight:
  assumes "flights_ok s" and "m < length (b_flights s)" "n < length (b_flights s)" "fst (b_flights s ! m) = fst (b_flights s ! n)"
    and "\<not> settled (snd (b_flights s ! m))" "\<not> settled (snd (b_flights s ! n))"
  shows "m = n"
proof -
  have "b_inflight s (fst (b_flights s ! m)) = Some m" "b_inflight s (fst (b_flights s ! n)) = Some n"
    using entries_okD(3) [OF flights_okD(1) [OF assms(1)]] assms(2,3,5,6) by simp_all
  then show ?thesis using assms(4) by (metis option.inject)
qed

section \<open>Who holds which refresh token\<close>

fun flight_token :: "flight_pc \<Rightarrow> string option" where
  "flight_token (F_Config r) = Some r"
| "flight_token (F_Grant r) = Some r"
| "flight_token (F_Update t) = tk_refresh_token t"
| "flight_token _ = None"

definition row_token :: "web_sessions \<Rightarrow> string \<Rightarrow> string option" where
  "row_token db i = Option.bind (db i) (\<lambda>row. if truthy (tk_refresh_token (sr_tokens row)) then tk_refresh_token (sr_tokens row) else None)"

definition holds :: "web_sessions \<Rightarrow> (string \<times> flight_pc) list \<Rightarrow> string \<Rightarrow> string \<Rightarrow> bool" where
  "holds db fs i r \<longleftrightarrow> r \<noteq> [] \<and> (row_token db i = Some r \<or> (\<exists>pc. (i, pc) \<in> set fs \<and> flight_token pc = Some r))"

text \<open>
  Every token held was issued; no two sessions hold the same; no refresh holds a replaced one; and
  a row holds a replaced one only while the refresh that replaced it is about to overwrite it.
\<close>

definition tok_ok :: "web_sessions \<Rightarrow> (string \<times> flight_pc) list \<Rightarrow> string list \<Rightarrow> string list \<Rightarrow> bool" where
  "tok_ok db fs iss rep \<longleftrightarrow>
     (\<forall>i r. holds db fs i r \<longrightarrow> r \<in> set iss) \<and> set rep \<subseteq> set iss
     \<and> (\<forall>i j r. holds db fs i r \<longrightarrow> holds db fs j r \<longrightarrow> i = j)
     \<and> (\<forall>i pc r. (i, pc) \<in> set fs \<longrightarrow> flight_token pc = Some r \<longrightarrow> r \<noteq> [] \<and> r \<notin> set rep)
     \<and> (\<forall>i r. row_token db i = Some r \<longrightarrow> r \<in> set rep \<longrightarrow> (\<exists>t. (i, F_Update t) \<in> set fs))"

lemma tok_okD:
  assumes "tok_ok db fs iss rep"
  shows "holds db fs i r \<Longrightarrow> r \<in> set iss" "set rep \<subseteq> set iss" "holds db fs i r \<Longrightarrow> holds db fs j r \<Longrightarrow> i = j"
    "(i, pc) \<in> set fs \<Longrightarrow> flight_token pc = Some r \<Longrightarrow> r \<noteq> [] \<and> r \<notin> set rep"
    "row_token db i = Some r \<Longrightarrow> r \<in> set rep \<Longrightarrow> \<exists>t. (i, F_Update t) \<in> set fs"
  using assms unfolding tok_ok_def by metis+

lemma holds_flight: "(i, pc) \<in> set fs \<Longrightarrow> flight_token pc = Some r \<Longrightarrow> r \<noteq> [] \<Longrightarrow> holds db fs i r"
  by (auto simp: holds_def)

lemma holds_row: "row_token db i = Some r \<Longrightarrow> r \<noteq> [] \<Longrightarrow> holds db fs i r"
  by (simp add: holds_def)

text \<open>Rows may go.\<close>

lemma tok_ok_fewer_rows:
  assumes ok: "tok_ok db fs iss rep" and sub: "\<And>i. db' i = None \<or> db' i = db i"
  shows "tok_ok db' fs iss rep"
proof -
  have r: "row_token db' i = Some r \<Longrightarrow> row_token db i = Some r" for i r
    using sub [of i] by (auto simp: row_token_def)
  then have h: "holds db' fs i r \<Longrightarrow> holds db fs i r" for i r by (auto simp: holds_def)
  show ?thesis unfolding tok_ok_def
  proof (intro conjI allI impI)
    show "set rep \<subseteq> set iss" by (rule tok_okD(2) [OF ok])
    show "\<And>i r. holds db' fs i r \<Longrightarrow> r \<in> set iss" using tok_okD(1) [OF ok] h by blast
    show "\<And>i j r. holds db' fs i r \<Longrightarrow> holds db' fs j r \<Longrightarrow> i = j" using tok_okD(3) [OF ok] h by blast
    show "\<And>i pc r. (i, pc) \<in> set fs \<Longrightarrow> flight_token pc = Some r \<Longrightarrow> r \<noteq> []" using tok_okD(4) [OF ok] by blast
    show "\<And>i pc r. (i, pc) \<in> set fs \<Longrightarrow> flight_token pc = Some r \<Longrightarrow> r \<notin> set rep" using tok_okD(4) [OF ok] by blast
    show "\<And>i r. row_token db' i = Some r \<Longrightarrow> r \<in> set rep \<Longrightarrow> \<exists>t. (i, F_Update t) \<in> set fs" using tok_okD(5) [OF ok] r by blast
  qed
qed

text \<open>A refresh begins, holding nothing.\<close>

lemma tok_ok_new_flight:
  assumes ok: "tok_ok db fs iss rep"
  shows "tok_ok db (fs @ [(i, F_Select)]) iss rep"
proof -
  have "holds db (fs @ [(i, F_Select)]) j r \<longleftrightarrow> holds db fs j r" for j r
    by (auto simp: holds_def)
  then show ?thesis unfolding tok_ok_def using tok_okD [OF ok] by auto
qed

text \<open>A refresh moves on, with a token it may hold, unless it leaves an update undone.\<close>

lemma update_set_cases: "f \<in> set (fs[n := g]) \<Longrightarrow> f = g \<or> f \<in> set fs"
  using set_update_subset_insert [of fs n g] by blast

lemma update_set_keep: "f \<in> set fs \<Longrightarrow> f \<noteq> fs ! n \<Longrightarrow> f \<in> set (fs[n := g])"
  by (metis in_set_conv_nth length_list_update nth_list_update_neq)

lemma tok_ok_move:
  assumes ok: "tok_ok db fs iss rep" and n: "n < length fs" "fs ! n = (i, pc)" and up: "\<And>t. pc \<noteq> F_Update t"
    and tok: "\<And>r. flight_token pc' = Some r \<Longrightarrow> r \<noteq> [] \<and> r \<notin> set rep \<and> holds db fs i r"
  shows "tok_ok db (fs[n := (i, pc')]) iss rep"
proof -
  let ?fs = "fs[n := (i, pc')]"
  have h: "holds db ?fs j r \<Longrightarrow> holds db fs j r" for j r
    using tok by (auto simp: holds_def dest!: update_set_cases)
  have "r \<noteq> [] \<and> r \<notin> set rep" if "(j, q) \<in> set ?fs" "flight_token q = Some r" for j q r
    using update_set_cases [OF that(1)] that(2) tok tok_okD(4) [OF ok, of j q r] by blast
  moreover have "\<exists>t. (j, F_Update t) \<in> set ?fs" if row: "row_token db j = Some r" "r \<in> set rep" for j r
  proof -
    obtain t where "(j, F_Update t) \<in> set fs" using tok_okD(5) [OF ok row] by blast
    moreover have "(j, F_Update t) \<noteq> fs ! n" using up [of t] n(2) by simp
    ultimately show ?thesis using update_set_keep by fast
  qed
  ultimately show ?thesis unfolding tok_ok_def using tok_okD(1-3) [OF ok] h by metis
qed

lemma update_set_index: "f \<in> set (fs[n := g]) \<Longrightarrow> f = g \<or> (\<exists>m < length fs. m \<noteq> n \<and> f = fs ! m)"
  by (metis in_set_conv_nth length_list_update nth_list_update_eq nth_list_update_neq)

text \<open>The provider answers a refresh: the old token is replaced, or stands.\<close>

lemma tok_ok_granted:
  assumes ok: "tok_ok db fs iss rep" and n: "n < length fs" "fs ! n = (i, F_Grant rt)"
    and alone: "\<And>m. m < length fs \<Longrightarrow> m \<noteq> n \<Longrightarrow> fst (fs ! m) = i \<Longrightarrow> flight_token (snd (fs ! m)) = None"
    and new: "tk_refresh_token t = Some new" "new \<noteq> []" "new \<notin> set iss \<or> new = rt"
  shows "tok_ok db (fs[n := (i, F_Update t)]) (new # iss) (if new = rt then rep else rt # rep)"
proof -
  let ?fs = "fs[n := (i, F_Update t)]" and ?rep = "if new = rt then rep else rt # rep"
  have here: "(i, F_Grant rt) \<in> set fs" using n nth_mem [OF n(1)] by simp
  then have rt: "rt \<noteq> []" "rt \<notin> set rep" using tok_okD(4) [OF ok here] by auto
  have hrt: "holds db fs i rt" using holds_flight [OF here] rt by simp
  have h: "holds db fs j r \<or> (j = i \<and> r = new)" if "holds db ?fs j r" for j r
    using that new by (auto simp: holds_def dest!: update_set_cases)
  have "r \<in> set (new # iss)" if "holds db ?fs j r" for j r using h [OF that] tok_okD(1) [OF ok] by auto
  moreover have "set ?rep \<subseteq> set (new # iss)" using tok_okD(1) [OF ok hrt] tok_okD(2) [OF ok] by auto
  moreover have "j = k" if "holds db ?fs j r" "holds db ?fs k r" for j k r
  proof (cases "r = new \<and> new \<notin> set iss")
    case True
    then have "\<not> holds db fs l r" for l using tok_okD(1) [OF ok, of l r] by blast
    then show ?thesis using h [OF that(1)] h [OF that(2)] by blast
  next
    case False
    then have "holds db fs l r" if "holds db ?fs l r" for l using h [OF that] new(3) hrt by blast
    then show ?thesis using tok_okD(3) [OF ok, of j r k] that by blast
  qed
  moreover have "r \<noteq> [] \<and> r \<notin> set ?rep" if q: "(j, q) \<in> set ?fs" "flight_token q = Some r" for j q r
    using update_set_index [OF q(1)]
  proof
    assume "(j, q) = (i, F_Update t)"
    then have "r = new" using q(2) new(1) by simp
    then show ?thesis using new(2,3) rt tok_okD(1) [OF ok hrt] subsetD [OF tok_okD(2) [OF ok], of r] by (cases "new = rt") auto
  next
    assume "\<exists>m < length fs. m \<noteq> n \<and> (j, q) = fs ! m"
    then obtain m where m: "m < length fs" "m \<noteq> n" "fs ! m = (j, q)" by metis
    then have r: "r \<noteq> []" "r \<notin> set rep" using tok_okD(4) [OF ok, of j q r] q(2) nth_mem by metis+
    have "r \<noteq> rt"
    proof
      assume "r = rt"
      then have "holds db fs j rt" using holds_flight [of j q fs rt db] m q(2) rt(1) nth_mem by metis
      then have "j = i" using tok_okD(3) [OF ok _ hrt] by blast
      then show False using alone [OF m(1,2)] m(3) q(2) by simp
    qed
    with r show ?thesis by simp
  qed
  moreover have "\<exists>t'. (j, F_Update t') \<in> set ?fs" if row: "row_token db j = Some r" "r \<in> set ?rep" for j r
  proof (cases "r = rt")
    case True
    then have "j = i" using tok_okD(3) [OF ok _ hrt] holds_row [OF row(1)] rt(1) by blast
    then show ?thesis using n(1) by (metis length_list_update nth_list_update_eq nth_mem)
  next
    case False
    then obtain t' where t': "(j, F_Update t') \<in> set fs" using tok_okD(5) [OF ok row(1)] row(2) by (auto split: if_splits)
    have "(j, F_Update t') \<noteq> fs ! n" using n(2) by simp
    with t' show ?thesis using update_set_keep by fast
  qed
  ultimately show ?thesis unfolding tok_ok_def by blast
qed

text \<open>The row takes the new set, and the refresh is done.\<close>

lemma row_token_update:
  "row_token (updateSession i t now db) j =
     (if j = i \<and> db i \<noteq> None then if truthy (tk_refresh_token t) then tk_refresh_token t else None else row_token db j)"
  by (auto simp: row_token_def updateSession_def split: option.split)

lemma tok_ok_updated:
  assumes ok: "tok_ok db fs iss rep" and n: "n < length fs" "fs ! n = (i, F_Update t)"
  shows "tok_ok (updateSession i t now db) (fs[n := (i, F_Settled res)]) iss rep"
proof -
  let ?fs = "fs[n := (i, F_Settled res)]" and ?db = "updateSession i t now db"
  have here: "(i, F_Update t) \<in> set fs" using n nth_mem [OF n(1)] by simp
  have h: "holds db fs j r" if "holds ?db ?fs j r" for j r
    using that here by (auto simp: holds_def row_token_update split: if_splits dest!: update_set_cases intro: exI [of _ "F_Update t"])
  have "r \<noteq> [] \<and> r \<notin> set rep" if "(j, q) \<in> set ?fs" "flight_token q = Some r" for j q r
    using update_set_cases [OF that(1)] that(2) tok_okD(4) [OF ok, of j q r] by auto
  moreover have "\<exists>t'. (j, F_Update t') \<in> set ?fs" if row: "row_token ?db j = Some r" "r \<in> set rep" for j r
  proof (cases "j = i \<and> db i \<noteq> None")
    case True
    then have "flight_token (F_Update t) = Some r" using row(1) by (simp add: row_token_update split: if_splits)
    then show ?thesis using tok_okD(4) [OF ok here] row(2) by blast
  next
    case False
    then have row': "row_token db j = Some r" using row(1) by (auto simp: row_token_update split: if_splits)
    then have "j \<noteq> i" using False by (auto simp: row_token_def)
    obtain t' where t': "(j, F_Update t') \<in> set fs" using tok_okD(5) [OF ok row' row(2)] by blast
    have "(j, F_Update t') \<noteq> fs ! n" using n(2) \<open>j \<noteq> i\<close> by simp
    with t' show ?thesis using update_set_keep by fast
  qed
  ultimately show ?thesis unfolding tok_ok_def using tok_okD(1-3) [OF ok] h by metis
qed

text \<open>A login is stored under a new id with a new token.\<close>

lemma tok_ok_login:
  assumes ok: "tok_ok db fs iss rep" and "db i = None"
    and new: "\<And>r. row_token (db(i \<mapsto> row)) i = Some r \<Longrightarrow> r \<notin> set iss \<and> r \<in> set iss'" and sub: "set iss \<subseteq> set iss'"
  shows "tok_ok (db(i \<mapsto> row)) fs iss' rep"
proof -
  have other: "row_token (db(i \<mapsto> row)) j = row_token db j" if "j \<noteq> i" for j using that by (simp add: row_token_def)
  have h: "holds db fs j r \<or> (j = i \<and> row_token (db(i \<mapsto> row)) i = Some r)" if "holds (db(i \<mapsto> row)) fs j r" for j r
    using that other by (cases "j = i") (auto simp: holds_def)
  have "r \<in> set iss'" if "holds (db(i \<mapsto> row)) fs j r" for j r
    using h [OF that] tok_okD(1) [OF ok] new sub by blast
  moreover have "j = k" if "holds (db(i \<mapsto> row)) fs j r" "holds (db(i \<mapsto> row)) fs k r" for j k r
    using h [OF that(1)] h [OF that(2)] tok_okD(1,3) [OF ok] new by metis
  moreover have "\<exists>t. (j, F_Update t) \<in> set fs" if "row_token (db(i \<mapsto> row)) j = Some r" "r \<in> set rep" for j r
    using that other tok_okD(2,5) [OF ok] new by (cases "j = i") auto
  ultimately show ?thesis unfolding tok_ok_def using tok_okD(2,4) [OF ok] sub by blast
qed

text \<open>A step of a request deletes at most its own row and starts at most one refresh.\<close>

definition mild :: "bff \<Rightarrow> bff \<Rightarrow> bool" where
  "mild s s' \<longleftrightarrow> (\<forall>i. b_rows s' i = None \<or> b_rows s' i = b_rows s i)
     \<and> (b_flights s' = b_flights s \<or> (\<exists>i. b_flights s' = b_flights s @ [(i, F_Select)]))
     \<and> b_issued s' = b_issued s \<and> b_replaced s' = b_replaced s \<and> b_lost s' = b_lost s \<and> b_ids s' = b_ids s
     \<and> length (b_tasks s') = length (b_tasks s)"

lemma mild_set_pc: "mild s s' \<Longrightarrow> mild s (set_pc k pc s')"
  by (simp add: mild_def)

lemma mild_here [simp]: "mild s s" "mild s (s\<lparr>b_rows := deleteSession i (b_rows s)\<rparr>)" "mild s (s\<lparr>b_inflight := m\<rparr>)"
  by (simp_all add: mild_def deleteSession_def)

lemma mild_refreshSession: "refreshSession i s = (s', pc) \<Longrightarrow> mild s s'"
  by (auto simp: refreshSession_def mild_def Let_def split: option.splits)

lemma mild_resume: "mild s (resume k session s)"
proof -
  obtain s' pc where w: "with_session (ta_kind (b_tasks s ! k)) (ta_id (b_tasks s ! k)) session s = (s', pc)" by fastforce
  then have "mild s s'"
    by (auto simp: with_session_def mild_refreshSession split: request_kind.splits option.splits if_splits)
  then show ?thesis using w by (simp add: resume_def mild_set_pc)
qed

lemma mild_trans_delete:
  "mild (s\<lparr>b_rows := deleteSession i (b_rows s)\<rparr>) s' \<Longrightarrow> mild s s'"
  unfolding mild_def deleteSession_def by (auto; metis)

lemma mild_request_step:
  assumes "request_step k r s = Some s'"
  shows "mild s s'"
proof -
  have k: "k < length (b_tasks s)" using assms by (auto simp: request_step_def split: if_splits)
  show ?thesis
    using assms k mild_resume [of s k] mild_trans_delete [OF mild_resume [of "s\<lparr>b_rows := deleteSession (ta_id (b_tasks s ! k)) (b_rows s)\<rparr>" k None]]
    by (cases "ta_pc (b_tasks s ! k)")
      (auto simp: request_step_def Let_def mild_set_pc split: option.splits if_splits flight_pc.splits)
qed

definition bff_ok :: "bff \<Rightarrow> bool" where
  "bff_ok s \<longleftrightarrow> flights_ok s \<and> (b_lost s \<or> tok_ok (b_rows s) (b_flights s) (b_issued s) (b_replaced s))"

lemma tok_ok_mild:
  assumes "mild s s'" and "tok_ok (b_rows s) (b_flights s) (b_issued s) (b_replaced s)"
  shows "tok_ok (b_rows s') (b_flights s') (b_issued s') (b_replaced s')"
proof -
  have "tok_ok (b_rows s') (b_flights s) (b_issued s) (b_replaced s)"
    by (rule tok_ok_fewer_rows [OF assms(2)]) (use assms(1) in \<open>simp add: mild_def\<close>)
  then show ?thesis using assms(1) tok_ok_new_flight by (auto simp: mild_def)
qed

lemma refreshTokens_token:
  "rt \<noteq> [] \<Longrightarrow> tk_refresh_token (refreshTokens now rt response) =
     Some (if truthy (tr_refresh_token response) then the (tr_refresh_token response) else rt)"
  by (auto simp: refreshTokens_def tokensFromResponse_def truthy_def)

text \<open>Within a session only the refresh in flight holds a token.\<close>

lemma alone_in_session:
  assumes ok: "flights_ok s" and n: "n < length (b_flights s)" "\<not> settled (snd (b_flights s ! n))"
    and m: "m < length (b_flights s)" "m \<noteq> n" "fst (b_flights s ! m) = fst (b_flights s ! n)"
  shows "settled (snd (b_flights s ! m))"
  using one_flight [OF ok m(1) n(1) m(3) _ n(2)] m(2) by blast

lemma flight_token_settled: "settled pc \<Longrightarrow> flight_token pc = None"
  by (auto simp: settled_def)

lemma select_token_not_replaced:
  assumes ok: "flights_ok s" and tok: "tok_ok (b_rows s) (b_flights s) (b_issued s) (b_replaced s)"
    and n: "n < length (b_flights s)" "b_flights s ! n = (i, F_Select)" and row: "row_token (b_rows s) i = Some r"
  shows "r \<notin> set (b_replaced s)"
proof
  assume "r \<in> set (b_replaced s)"
  then obtain t where "(i, F_Update t) \<in> set (b_flights s)" using tok_okD(5) [OF tok row] by blast
  then obtain m where m: "m < length (b_flights s)" "b_flights s ! m = (i, F_Update t)" by (auto simp: in_set_conv_nth)
  then have "m \<noteq> n" using n(2) by auto
  then show False using alone_in_session [OF ok n(1) _ m(1)] m(2) n(2) by simp
qed

lemma tok_ok_flight_step:
  assumes ok: "flights_ok s" and tok: "tok_ok (b_rows s) (b_flights s) (b_issued s) (b_replaced s)"
    and step: "flight_step n r s = Some s'" and hon: "honest (Refreshed n r) s"
  shows "b_lost s' \<or> tok_ok (b_rows s') (b_flights s') (b_issued s') (b_replaced s')"
proof -
  note n = flight_stepD(1) [OF step]
  obtain i pc where p: "b_flights s ! n = (i, pc)" by fastforce
  have move: "tok_ok (b_rows s) (b_flights (set_flight n pc' s)) (b_issued s) (b_replaced s)"
    if "\<And>t. pc \<noteq> F_Update t" "\<And>r. flight_token pc' = Some r \<Longrightarrow> r \<noteq> [] \<and> r \<notin> set (b_replaced s) \<and> holds (b_rows s) (b_flights s) i r" for pc'
    using tok_ok_move [OF tok n p that] p by (simp add: set_flight_def)
  have idle: "tok_ok (b_rows s) (b_flights (set_flight n pc' s)) (b_issued s) (b_replaced s)"
    if "\<forall>t. pc \<noteq> F_Update t" "flight_token pc' = None" for pc'
    by (rule move) (use that in simp_all)
  have carry: "tok_ok (b_rows s) (b_flights (set_flight n pc' s)) (b_issued s) (b_replaced s)"
    if "\<forall>t. pc \<noteq> F_Update t" "flight_token pc' = Some x" "x \<noteq> [] \<and> x \<notin> set (b_replaced s) \<and> holds (b_rows s) (b_flights s) i x" for pc' x
    by (rule move) (use that in simp_all)
  have here: "(i, pc) \<in> set (b_flights s)" using p n nth_mem by metis
  show ?thesis
  proof (cases pc)
    case F_Select
    have "r' \<noteq> [] \<and> r' \<notin> set (b_replaced s) \<and> holds (b_rows s) (b_flights s) i r'"
      if "b_rows s i = Some row" "tk_refresh_token (sr_tokens row) = Some r'" "r' \<noteq> []" for row r'
    proof -
      have "row_token (b_rows s) i = Some r'" using that by (simp add: row_token_def)
      then show ?thesis using select_token_not_replaced [OF ok tok n p [unfolded F_Select]] holds_row that(3) by blast
    qed
    then show ?thesis
      using step n p F_Select idle carry [of "F_Config _"]
      by (auto simp: flight_step_def Let_def truthy_def split: if_splits option.splits)
  next
    case F_Delete
    have "tok_ok (deleteSession i (b_rows s)) (b_flights (set_flight n reject s)) (b_issued s) (b_replaced s)"
      by (rule tok_ok_fewer_rows [OF idle]) (simp_all add: F_Delete deleteSession_def)
    then show ?thesis
      using step n p F_Delete idle [of reject] by (auto simp: flight_step_def Let_def set_flight_def split: if_splits)
  next
    case (F_Config rt)
    have "rt \<noteq> [] \<and> rt \<notin> set (b_replaced s) \<and> holds (b_rows s) (b_flights s) i rt"
      using tok_okD(4) [OF tok here] holds_flight [OF here] F_Config by simp
    then show ?thesis
      using step n p F_Config idle [of reject] carry [of "F_Grant rt" rt] by (auto simp: flight_step_def split: if_splits)
  next
    case (F_Grant rt)
    have rt: "rt \<noteq> []" using tok_okD(4) [OF tok here] F_Grant by simp
    show ?thesis
    proof (cases r)
      case (Granted response)
      let ?t = "refreshTokens (b_now s) rt response"
      define new where "new = the (tk_refresh_token ?t)"
      have new: "tk_refresh_token ?t = Some new" using refreshTokens_token [OF rt] by (simp add: new_def)
      have "new \<noteq> [] \<and> (new \<notin> set (b_issued s) \<or> new = rt)"
        using hon Granted p F_Grant rt refreshTokens_token [OF rt, of "b_now s" response]
        by (auto simp: new_def honest_def truthy_def split: if_splits)
      moreover have "flight_token (snd (b_flights s ! m)) = None" if "m < length (b_flights s)" "m \<noteq> n" "fst (b_flights s ! m) = i" for m
        using alone_in_session [OF ok n _ that(1,2)] that(3) p F_Grant flight_token_settled by simp
      ultimately have "tok_ok (b_rows s) ((b_flights s)[n := (i, F_Update ?t)]) (new # b_issued s) (if new = rt then b_replaced s else rt # b_replaced s)"
        using tok_ok_granted [OF tok n p [unfolded F_Grant] _ new] by blast
      then show ?thesis
        using step n p F_Grant Granted by (auto simp: flight_step_def Let_def set_flight_def new_def split: if_splits)
    qed (use step n p F_Grant idle [of reject] in \<open>auto simp: flight_step_def Let_def split: if_splits\<close>)
  next
    case (F_Update t)
    then show ?thesis
      using step n p tok_ok_updated [OF tok n p [unfolded F_Update], of "b_now s"]
      by (auto simp: flight_step_def Let_def set_flight_def split: if_splits)
  next
    case (F_Settled res)
    then show ?thesis using step n p by (simp add: flight_step_def)
  qed
qed

lemma lost_stays: "bff_step e s = Some s' \<Longrightarrow> b_lost s \<Longrightarrow> b_lost s'"
proof (cases e)
  case (Answer k r)
  then show "bff_step e s = Some s' \<Longrightarrow> b_lost s \<Longrightarrow> b_lost s'"
    using mild_request_step [of k r s s'] by (simp add: bff_step_def mild_def)
next
  case (Refreshed n r)
  then show "bff_step e s = Some s' \<Longrightarrow> b_lost s \<Longrightarrow> b_lost s'"
    by (auto simp: bff_step_def flight_step_def Let_def split: if_splits flight_pc.splits option.splits reply.splits)
qed (auto simp: bff_step_def)

lemma bff_ok_step:
  assumes ok: "bff_ok s" and hon: "honest e s" and step: "bff_step e s = Some s'"
  shows "bff_ok s'"
proof -
  have fl: "flights_ok s'" using ok flights_ok_step [OF _ step] by (simp add: bff_ok_def)
  show ?thesis
  proof (cases "b_lost s")
    case True
    then show ?thesis using fl lost_stays [OF step] by (simp add: bff_ok_def)
  next
    case False
    then have tok: "tok_ok (b_rows s) (b_flights s) (b_issued s) (b_replaced s)" and f: "flights_ok s"
      using ok by (simp_all add: bff_ok_def)
    have "b_lost s' \<or> tok_ok (b_rows s') (b_flights s') (b_issued s') (b_replaced s')"
    proof (cases e)
      case (Answer k r)
      then show ?thesis using tok_ok_mild [OF mild_request_step tok] step by (simp add: bff_step_def)
    next
      case (Refreshed n r)
      then show ?thesis using tok_ok_flight_step [OF f tok] hon step by (simp add: bff_step_def)
    next
      case (Sign_in i tokens sub)
      let ?row = "\<lparr>sr_tokens = tokens, sr_sub = sub, sr_expires_at = b_now s + SESSION_TTL_MS\<rparr>"
      let ?iss = "if truthy (tk_refresh_token tokens) then the (tk_refresh_token tokens) # b_issued s else b_issued s"
      have i: "b_rows s i = None" and s': "s' = s\<lparr>b_rows := (b_rows s)(i \<mapsto> ?row), b_ids := i # b_ids s, b_issued := ?iss\<rparr>"
        using step Sign_in by (auto simp: bff_step_def createSession_def split: if_splits)
      have "tok_ok ((b_rows s)(i \<mapsto> ?row)) (b_flights s) ?iss (b_replaced s)"
        using hon Sign_in by (intro tok_ok_login [OF tok i]) (auto simp: row_token_def honest_def split: if_splits)
      then show ?thesis by (simp add: s')
    next
      case (Sign_out_everywhere sub)
      then have "s' = s\<lparr>b_rows := deleteSessionsBySub sub (b_rows s)\<rparr>" using step by (auto simp: bff_step_def)
      then show ?thesis
        using tok_ok_fewer_rows [OF tok, of "deleteSessionsBySub sub (b_rows s)"] by (auto simp: deleteSessionsBySub_def split: option.splits)
    qed (use step tok in \<open>auto simp: bff_step_def\<close>)
    with fl show ?thesis by (simp add: bff_ok_def)
  qed
qed

lemma bff_ok_run: "bff_run s t \<Longrightarrow> bff_ok s \<Longrightarrow> bff_ok t"
  by (induction rule: bff_run.induct) (auto intro: bff_ok_step)

lemma bff_ok_start: "bff_ok bff_start"
  using flights_ok_start by (simp add: bff_ok_def tok_ok_def holds_def row_token_def bff_start_def)

text \<open>
  C1. Refresh tokens are not reused: in every run of the server in which no token set that replaced
  another was lost, neither on its way from the provider (the answer to the grant arrives) nor on
  its way into the table (the update does not fail), and whatever the order of requests and answers
  and whichever other answers are errors or lost, no token grant in progress presents a refresh
  token the provider has already replaced, no two grants in progress present the same one, and at
  most one refresh of a session is in progress. Without that assumption the code does present a
  replaced token again: \<open>lost_update_reuses_token\<close> and \<open>lost_answer_reuses_token\<close> below.
\<close>

theorem replaced_token_never_presented:
  assumes "bff_run bff_start s" and "\<not> b_lost s"
  shows "(\<forall>i r. (i, F_Grant r) \<in> set (b_flights s) \<longrightarrow> r \<notin> set (b_replaced s))
    \<and> (\<forall>m < length (b_flights s). \<forall>n < length (b_flights s). \<forall>r.
         snd (b_flights s ! m) = F_Grant r \<longrightarrow> snd (b_flights s ! n) = F_Grant r \<longrightarrow> m = n)
    \<and> (\<forall>m < length (b_flights s). \<forall>n < length (b_flights s). fst (b_flights s ! m) = fst (b_flights s ! n) \<longrightarrow>
         \<not> settled (snd (b_flights s ! m)) \<longrightarrow> \<not> settled (snd (b_flights s ! n)) \<longrightarrow> m = n)"
proof -
  have ok: "flights_ok s" and tok: "tok_ok (b_rows s) (b_flights s) (b_issued s) (b_replaced s)"
    using bff_ok_run [OF assms(1) bff_ok_start] assms(2) by (simp_all add: bff_ok_def)
  have one: "m = n" if "m < length (b_flights s)" "n < length (b_flights s)" "fst (b_flights s ! m) = fst (b_flights s ! n)"
    "\<not> settled (snd (b_flights s ! m))" "\<not> settled (snd (b_flights s ! n))" for m n
    using one_flight [OF ok that] .
  have grant: "m = n" if mn: "m < length (b_flights s)" "n < length (b_flights s)" "snd (b_flights s ! m) = F_Grant r" "snd (b_flights s ! n) = F_Grant r" for m n r
  proof -
    have h: "holds (b_rows s) (b_flights s) (fst (b_flights s ! l)) r" if "l < length (b_flights s)" "snd (b_flights s ! l) = F_Grant r" for l
    proof -
      have "(fst (b_flights s ! l), F_Grant r) \<in> set (b_flights s)" using that nth_mem [OF that(1)] by (metis prod.collapse)
      then show ?thesis using holds_flight tok_okD(4) [OF tok] by simp
    qed
    show ?thesis using one [OF mn(1,2) tok_okD(3) [OF tok h [OF mn(1,3)] h [OF mn(2,4)]]] mn(3,4) by simp
  qed
  show ?thesis using tok_okD(4) [OF tok, of _ "F_Grant _"] one grant by auto
qed

section \<open>What is gone stays gone\<close>

lemma request_step_tasks:
  assumes "request_step k r s = Some s'"
  shows "\<exists>pc. b_tasks s' = (b_tasks s)[k := (b_tasks s ! k)\<lparr>ta_pc := pc\<rparr>]"
proof -
  have r: "refreshSession i u = (u', pc) \<Longrightarrow> b_tasks u' = b_tasks u" for i u u' pc
    by (auto simp: refreshSession_def Let_def split: option.splits)
  then have "with_session kind i session u = (u', pc) \<Longrightarrow> b_tasks u' = b_tasks u" for kind i session u u' pc
    by (auto simp: with_session_def split: request_kind.splits option.splits if_splits)
  then have "\<exists>pc. b_tasks (resume k session u) = (b_tasks u)[k := (b_tasks u ! k)\<lparr>ta_pc := pc\<rparr>]" for session u
    by (cases "with_session (ta_kind (b_tasks u ! k)) (ta_id (b_tasks u ! k)) session u") (auto simp: resume_def set_pc_tasks)
  from this [of None s] this [of "Some _" s] this [of None "s\<lparr>b_rows := deleteSession (ta_id (b_tasks s ! k)) (b_rows s)\<rparr>"]
  show ?thesis
    using assms
    by (cases "ta_pc (b_tasks s ! k)")
      (auto simp: request_step_def Let_def set_pc_tasks split: option.splits if_splits flight_pc.splits)
qed

text \<open>A request of a session without a row never gets as far as a token.\<close>

definition tokenless :: "request_pc \<Rightarrow> bool" where
  "tokenless pc \<longleftrightarrow> pc \<in> {T_Select, T_SignOut None, T_Done Unauthenticated, T_Done No_token, T_Done (Signed_out None), T_Done (Seen None), T_Done Thrown}"

lemma tokenless_Select [simp]: "tokenless T_Select"
  by (simp add: tokenless_def)

lemma tokenless_step:
  assumes "request_step k r s = Some s'" and "b_rows s (ta_id (b_tasks s ! k)) = None" and "tokenless (ta_pc (b_tasks s ! k))"
  shows "tokenless (ta_pc (b_tasks s' ! k))"
proof -
  have k: "k < length (b_tasks s)" using assms(1) by (auto simp: request_step_def split: if_splits)
  have "tokenless (ta_pc (b_tasks (resume k None s) ! k))"
    using k by (cases "ta_kind (b_tasks s ! k)") (auto simp: resume_def with_session_def set_pc_tasks tokenless_def)
  then show ?thesis
    using assms k by (auto simp: request_step_def Let_def set_pc_tasks tokenless_def split: if_splits)
qed

lemma flight_step_rows: "flight_step n r s = Some s' \<Longrightarrow> b_rows s i = None \<Longrightarrow> b_rows s' i = None"
  by (auto simp: flight_step_def Let_def deleteSession_def updateSession_def
      split: if_splits flight_pc.splits option.splits reply.splits)

lemma flight_step_ids: "flight_step n r s = Some s' \<Longrightarrow> b_ids s' = b_ids s \<and> b_tasks s' = b_tasks s"
  by (auto simp: flight_step_def Let_def split: if_splits flight_pc.splits option.splits reply.splits)

definition gone :: "string \<Rightarrow> nat \<Rightarrow> bff \<Rightarrow> bool" where
  "gone i n s \<longleftrightarrow> i \<in> set (b_ids s) \<and> b_rows s i = None \<and> n \<le> length (b_tasks s)
     \<and> (\<forall>k. n \<le> k \<longrightarrow> k < length (b_tasks s) \<longrightarrow> ta_id (b_tasks s ! k) = i \<longrightarrow> tokenless (ta_pc (b_tasks s ! k)))"

lemma gone_step:
  assumes "gone i n s" and "honest e s" and "bff_step e s = Some s'"
  shows "gone i n s'"
proof (cases e)
  case (Request kind j)
  then show ?thesis using assms by (auto simp: gone_def bff_step_def nth_append less_Suc_eq)
next
  case (Answer k r)
  then have st: "request_step k r s = Some s'" using assms(3) by (simp add: bff_step_def)
  obtain pc where pc: "b_tasks s' = (b_tasks s)[k := (b_tasks s ! k)\<lparr>ta_pc := pc\<rparr>]" using request_step_tasks [OF st] ..
  have "tokenless (ta_pc (b_tasks s' ! l))" if "n \<le> l" "l < length (b_tasks s')" "ta_id (b_tasks s' ! l) = i" for l
  proof (cases "l = k")
    case True
    then show ?thesis using tokenless_step [OF st] assms(1) that pc by (auto simp: gone_def)
  qed (use that assms(1) pc in \<open>simp add: gone_def\<close>)
  moreover have "b_rows s' i = None" "b_ids s' = b_ids s" "length (b_tasks s') = length (b_tasks s)"
    using mild_request_step [OF st] assms(1) by (auto simp: mild_def gone_def)
  ultimately show ?thesis using assms(1) by (simp add: gone_def)
next
  case (Refreshed m r)
  then show ?thesis
    using assms flight_step_rows [of m r s s' i] flight_step_ids [of m r s s'] by (simp add: gone_def bff_step_def)
next
  case (Sign_in j tokens sub)
  then show ?thesis using assms by (auto simp: gone_def bff_step_def createSession_def honest_def split: if_splits)
qed (use assms in \<open>auto simp: gone_def bff_step_def deleteSessionsBySub_def\<close>)

lemma gone_run: "bff_run s t \<Longrightarrow> gone i n s \<Longrightarrow> gone i n t"
  by (induction rule: bff_run.induct) (auto intro: gone_step)

text \<open>
  C6. Signing out is final: once a session that was created has no row, by a logout, a failed
  refresh, expiry or a deletion of all sessions of its subject, it never has one again, whatever
  refreshes of it are still under way, and no request that comes in afterwards with its id gets a
  token or is seen as signed in.
\<close>

theorem revocation_is_final:
  assumes "i \<in> set (b_ids s)" and "b_rows s i = None" and "bff_run s t"
  shows "b_rows t i = None \<and> (\<forall>k \<ge> length (b_tasks s). k < length (b_tasks t) \<longrightarrow> ta_id (b_tasks t ! k) = i \<longrightarrow>
     (\<forall>tokens. ta_pc (b_tasks t ! k) \<noteq> T_Done (Use_token tokens) \<and> ta_pc (b_tasks t ! k) \<noteq> T_Done (Seen (Some tokens))))"
proof -
  have "gone i (length (b_tasks s)) s" using assms by (simp add: gone_def)
  from gone_run [OF assms(3) this] show ?thesis by (auto simp: gone_def tokenless_def)
qed

section \<open>Every request ends\<close>

fun flight_rest :: "flight_pc \<Rightarrow> nat" where
  "flight_rest F_Select = 5"
| "flight_rest F_Delete = 1"
| "flight_rest (F_Config r) = 3"
| "flight_rest (F_Grant r) = 2"
| "flight_rest (F_Update t) = 1"
| "flight_rest (F_Settled res) = 0"

text \<open>A bound on the answers a request still needs.\<close>

definition rest :: "bff \<Rightarrow> nat \<Rightarrow> nat" where
  "rest s k =
     (case ta_pc (b_tasks s ! k) of
        T_Select \<Rightarrow> 9 | T_Delete \<Rightarrow> 8 | T_Await n own \<Rightarrow> 2 + flight_rest (snd (b_flights s ! n))
      | T_Drop \<Rightarrow> 1 | T_SignOut _ \<Rightarrow> 1 | T_Done _ \<Rightarrow> 0)"

lemma flight_rest_le: "flight_rest pc \<le> 5"
  by (cases pc) simp_all

lemma rest_le: "rest s k \<le> 9"
proof (cases "ta_pc (b_tasks s ! k)")
  case (T_Await n own)
  then show ?thesis using flight_rest_le [of "snd (b_flights s ! n)"] by (simp add: rest_def)
qed (simp_all add: rest_def)

lemma rest_resume:
  assumes "k < length (b_tasks s)"
  shows "rest (resume k session s) k \<le> 7"
proof -
  have t: "b_tasks s' = b_tasks s" if "with_session kind i session s = (s', pc)" for kind i s' pc
    using that by (auto simp: with_session_def refreshSession_def Let_def split: request_kind.splits option.splits if_splits)
  obtain s' pc where w: "with_session (ta_kind (b_tasks s ! k)) (ta_id (b_tasks s ! k)) session s = (s', pc)" by fastforce
  have "pc \<noteq> T_Select" "pc \<noteq> T_Delete" using w
    by (auto simp: with_session_def refreshSession_def Let_def split: request_kind.splits option.splits if_splits)
  then show ?thesis
    using w t [OF w] assms flight_rest_le
    by (cases pc) (auto simp: resume_def rest_def set_pc_tasks)
qed

lemma resume_None_rest:
  assumes "k < length (b_tasks s)"
  shows "rest (resume k None s) k \<le> 1"
  using assms by (cases "ta_kind (b_tasks s ! k)") (auto simp: resume_def with_session_def rest_def set_pc_tasks)

lemma flight_step_rest:
  assumes "flight_step n r s = Some s'"
  shows "flight_rest (snd (b_flights s' ! n)) < flight_rest (snd (b_flights s ! n))"
  using assms
  by (cases "snd (b_flights s ! n)")
    (auto simp: flight_step_def Let_def set_flight_def split: if_splits option.splits reply.splits)

lemma flight_step_others: "flight_step n r s = Some s' \<Longrightarrow> m \<noteq> n \<Longrightarrow> b_flights s' ! m = b_flights s ! m"
  by (auto simp: flight_step_def Let_def set_flight_def split: if_splits flight_pc.splits option.splits reply.splits)

text \<open>The step of the request itself brings it closer to its end; no other step takes it back.\<close>

lemma rest_own:
  assumes "request_step k r s = Some s'"
  shows "rest s' k < rest s k"
proof -
  have k: "k < length (b_tasks s)" using assms by (auto simp: request_step_def split: if_splits)
  let ?d = "s\<lparr>b_rows := deleteSession (ta_id (b_tasks s ! k)) (b_rows s)\<rparr>"
  have res: "rest (resume k session s) k < 9" for session using rest_resume [OF k, of session] by linarith
  have del: "rest (resume k None ?d) k < 8" using resume_None_rest [of k ?d] k by simp
  show ?thesis
  proof (cases "ta_pc (b_tasks s ! k)")
    case T_Select
    then show ?thesis
      using assms k res by (auto simp: request_step_def Let_def rest_def [of s k] split: if_splits option.splits)
        (simp_all add: rest_def set_pc_tasks)
  next
    case T_Delete
    then show ?thesis
      using assms k del by (auto simp: request_step_def Let_def rest_def [of s k] split: if_splits)
        (simp_all add: rest_def set_pc_tasks)
  qed (use assms k in \<open>auto simp: request_step_def Let_def rest_def set_pc_tasks after_refresh_def split: if_splits option.splits flight_pc.splits sum.splits\<close>)
qed

lemma rest_mono:
  assumes ok: "flights_ok s" and k: "k < length (b_tasks s)" and step: "bff_step e s = Some s'"
  shows "rest s' k \<le> rest s k"
proof -
  have await: "n < length (b_flights s)" if "ta_pc (b_tasks s ! k) = T_Await n own" for n own
    using flights_okD(2) [OF ok nth_mem [OF k]] that by (simp add: waits_ok_def)
  show ?thesis
  proof (cases e)
    case (Answer j r)
    then have st: "request_step j r s = Some s'" using step by (simp add: bff_step_def)
    show ?thesis
    proof (cases "j = k")
      case True
      then show ?thesis using rest_own st by (simp add: order.strict_implies_order)
    next
      case False
      obtain pc where "b_tasks s' = (b_tasks s)[j := (b_tasks s ! j)\<lparr>ta_pc := pc\<rparr>]" using request_step_tasks [OF st] ..
      then show ?thesis
        using False await mild_request_step [OF st] by (auto simp: rest_def mild_def nth_append split: request_pc.split)
    qed
  next
    case (Refreshed n r)
    then have st: "flight_step n r s = Some s'" using step by (simp add: bff_step_def)
    have "flight_rest (snd (b_flights s' ! m)) \<le> flight_rest (snd (b_flights s ! m))" for m
      using flight_step_rest [OF st] flight_step_others [OF st, of m] by (cases "m = n") auto
    then show ?thesis using flight_step_ids [OF st] by (auto simp: rest_def split: request_pc.split)
  qed (use step k in \<open>auto simp: bff_step_def rest_def nth_append split: request_pc.split\<close>)
qed

lemma request_step_enabled:
  assumes "k < length (b_tasks s)" and "\<And>out. ta_pc (b_tasks s ! k) \<noteq> T_Done out"
    and "\<And>n own. ta_pc (b_tasks s ! k) = T_Await n own \<Longrightarrow> settled (snd (b_flights s ! n))"
  shows "\<exists>s'. request_step k r s = Some s'"
  using assms by (cases "ta_pc (b_tasks s ! k)") (auto simp: request_step_def Let_def settled_def split: option.splits)

lemma flight_step_enabled:
  assumes "n < length (b_flights s)" and "\<not> settled (snd (b_flights s ! n))"
  shows "\<exists>s'. flight_step n r s = Some s'"
  using assms by (cases "snd (b_flights s ! n)") (auto simp: flight_step_def Let_def split: option.splits reply.splits)

text \<open>
  Every request ends: in every run, a request that has not ended waits for one particular
  answer, of the database or the provider, to itself or to the refresh it waits for. Whatever this
  answer is, also an error, it brings the request at least one step closer to its end, and no other
  event takes it back; never more than nine answers are needed.
\<close>

theorem requests_end:
  assumes "bff_run bff_start s" and "k < length (b_tasks s)" and "\<forall>out. ta_pc (b_tasks s ! k) \<noteq> T_Done out"
  shows "rest s k \<le> 9
    \<and> (\<exists>answer. (answer = Answer k \<or> (\<exists>n. answer = Refreshed n))
         \<and> (\<forall>r. \<exists>s'. bff_step (answer r) s = Some s' \<and> rest s' k < rest s k))
    \<and> (\<forall>e s'. bff_step e s = Some s' \<longrightarrow> rest s' k \<le> rest s k)"
proof -
  have ok: "flights_ok s" using flights_ok_run [OF assms(1) flights_ok_start] .
  have "\<exists>answer. (answer = Answer k \<or> (\<exists>n. answer = Refreshed n)) \<and> (\<forall>r. \<exists>s'. bff_step (answer r) s = Some s' \<and> rest s' k < rest s k)"
  proof (cases "\<exists>n own. ta_pc (b_tasks s ! k) = T_Await n own \<and> \<not> settled (snd (b_flights s ! n))")
    case True
    then obtain n own where n: "ta_pc (b_tasks s ! k) = T_Await n own" "\<not> settled (snd (b_flights s ! n))" by blast
    then have len: "n < length (b_flights s)" using flights_okD(2) [OF ok nth_mem [OF assms(2)]] by (simp add: waits_ok_def)
    have "\<exists>s'. bff_step (Refreshed n r) s = Some s' \<and> rest s' k < rest s k" for r
    proof -
      obtain s' where s': "flight_step n r s = Some s'" using flight_step_enabled [OF len n(2)] by blast
      then have "rest s' k < rest s k" using flight_step_rest [OF s'] flight_step_ids [OF s'] n(1) by (simp add: rest_def)
      with s' show ?thesis by (simp add: bff_step_def)
    qed
    then show ?thesis by blast
  next
    case False
    have "\<exists>s'. bff_step (Answer k r) s = Some s' \<and> rest s' k < rest s k" for r
    proof -
      obtain s' where "request_step k r s = Some s'" using request_step_enabled [OF assms(2)] assms(3) False by metis
      then show ?thesis using rest_own by (auto simp: bff_step_def)
    qed
    then show ?thesis by blast
  qed
  then show ?thesis using rest_le rest_mono [OF ok assms(2)] by blast
qed

section \<open>Runs\<close>

fun bff_exec :: "event list \<Rightarrow> bff \<Rightarrow> bff option" where
  "bff_exec [] s = Some s"
| "bff_exec (e # es) s = (if honest e s then Option.bind (bff_step e s) (bff_exec es) else None)"

lemma bff_run_front: "bff_run t u \<Longrightarrow> bff_run s t \<Longrightarrow> bff_run s u"
  by (induction rule: bff_run.induct) (auto intro: run_step)

lemma bff_exec_run: "bff_exec es s = Some t \<Longrightarrow> bff_run s t"
proof (induction es arbitrary: s)
  case (Cons e es)
  then obtain u where "honest e s" "bff_step e s = Some u" "bff_exec es u = Some t"
    by (auto simp: bind_eq_Some_conv split: if_splits)
  then show ?case using Cons.IH bff_run_front run_step [OF run_here] by blast
qed (simp add: run_here)

lemmas bff_eval = bff_start_def bff_step_def honest_def createSession_def request_step_def flight_step_def Let_def
  set_pc_def set_flight_def resume_def with_session_def refreshSession_def after_refresh_def isTokenFresh_def row_expired_def
  refreshTokens_def tokensFromResponse_def updateSession_def deleteSession_def EXPIRY_SKEW_MS_def SESSION_TTL_MS_def

definition first_tokens :: session_tokens where
  "first_tokens = \<lparr>tk_access_token = ''a1'', tk_refresh_token = Some ''r1'', tk_id_token = Some ''i1'', tk_expires_at = 60000\<rparr>"

definition next_response :: token_response where
  "next_response = \<lparr>tr_access_token = ''a2'', tr_refresh_token = Some ''r2'', tr_id_token = Some ''i2'', tr_expires_in = Some 60\<rparr>"

text \<open>Two requests find the same stale session; the second joins the refresh of the first.\<close>

definition joined_events :: "event list" where
  "joined_events = [Sign_in ''s'' first_tokens ''u'', Clock 50000, Request Proxy ''s'', Request Ssr ''s'',
     Answer 0 Fine, Answer 1 Fine, Refreshed 0 Fine, Refreshed 0 Fine, Refreshed 0 (Granted next_response)]"

definition joined_state :: bff where
  "joined_state = \<lparr>b_now = 50000,
     b_rows = [''s'' \<mapsto> \<lparr>sr_tokens = first_tokens, sr_sub = ''u'', sr_expires_at = 2592000000\<rparr>],
     b_flights = [(''s'', F_Update \<lparr>tk_access_token = ''a2'', tk_refresh_token = Some ''r2'', tk_id_token = Some ''i2'', tk_expires_at = 110000\<rparr>)],
     b_inflight = [''s'' \<mapsto> 0],
     b_tasks = [\<lparr>ta_kind = Proxy, ta_id = ''s'', ta_pc = T_Await 0 True\<rparr>, \<lparr>ta_kind = Ssr, ta_id = ''s'', ta_pc = T_Await 0 False\<rparr>],
     b_ids = [''s''], b_issued = [''r2'', ''r1''], b_replaced = [''r1''], b_lost = False\<rparr>"

lemma joined_run: "bff_run bff_start joined_state"
  by (rule bff_exec_run [of joined_events]) (simp add: joined_events_def joined_state_def first_tokens_def next_response_def bff_eval)

theorem replaced_token_never_presented_witness:
  "b_replaced joined_state = [''r1'']
     \<and> \<not> (\<exists>m n. m < length (b_flights joined_state) \<and> n < length (b_flights joined_state)
       \<and> fst (b_flights joined_state ! m) = fst (b_flights joined_state ! n)
       \<and> \<not> settled (snd (b_flights joined_state ! m)) \<and> \<not> settled (snd (b_flights joined_state ! n)) \<and> m \<noteq> n)"
proof -
  have "\<not> b_lost joined_state" "b_replaced joined_state = [''r1'']" by (simp_all add: joined_state_def)
  with replaced_token_never_presented [OF joined_run] show ?thesis by blast
qed

theorem requests_end_witness:
  "\<exists>answer. (answer = Answer 1 \<or> (\<exists>n. answer = Refreshed n))
     \<and> (\<forall>r. \<exists>s'. bff_step (answer r) joined_state = Some s' \<and> rest s' 1 < rest joined_state 1)"
proof -
  have "1 < length (b_tasks joined_state)" "\<forall>out. ta_pc (b_tasks joined_state ! 1) \<noteq> T_Done out"
    by (simp_all add: joined_state_def)
  from requests_end [OF joined_run this] show ?thesis by blast
qed

text \<open>The user signs out while the refresh is about to store the new set.\<close>

definition signed_out_state :: bff where
  "signed_out_state = joined_state\<lparr>b_rows := Map.empty,
     b_tasks := b_tasks joined_state @ [\<lparr>ta_kind = Logout, ta_id = ''s'', ta_pc = T_Done (Signed_out (Some first_tokens))\<rparr>]\<rparr>"

lemma signed_out_run: "bff_run joined_state signed_out_state"
  by (rule bff_exec_run [of "[Request Logout ''s'', Answer 2 Fine, Answer 2 Fine]"])
    (simp add: signed_out_state_def joined_state_def first_tokens_def bff_eval)

theorem revocation_is_final_witness:
  "\<exists>t. bff_exec [Refreshed 0 Fine, Request Proxy ''s'', Answer 3 Fine] signed_out_state = Some t
     \<and> b_rows t ''s'' = None \<and> ta_pc (b_tasks t ! 3) \<noteq> T_Done (Use_token first_tokens)"
proof -
  obtain t where t: "bff_exec [Refreshed 0 Fine, Request Proxy ''s'', Answer 3 Fine] signed_out_state = Some t"
    and k: "length (b_tasks t) = 4" "ta_id (b_tasks t ! 3) = ''s''"
    by (simp add: signed_out_state_def joined_state_def first_tokens_def bff_eval)
  have "''s'' \<in> set (b_ids signed_out_state)" "b_rows signed_out_state ''s'' = None" "length (b_tasks signed_out_state) = 3"
    by (simp_all add: signed_out_state_def joined_state_def)
  with revocation_is_final [OF this(1,2) bff_exec_run [OF t]] t k show ?thesis by auto
qed

section \<open>What can go wrong\<close>

text \<open>
  When the provider has replaced a token but the new set cannot be stored, the row keeps the
  replaced one. The proxy deletes such a session; the server rendering only gives up, and the next
  request presents the replaced token again.
\<close>

theorem lost_update_reuses_token:
  "\<exists>s. bff_exec [Sign_in ''s'' first_tokens ''u'', Clock 50000, Request Ssr ''s'', Answer 0 Fine,
         Refreshed 0 Fine, Refreshed 0 Fine, Refreshed 0 (Granted next_response), Refreshed 0 Fails, Answer 0 Fine,
         Request Proxy ''s'', Answer 1 Fine, Refreshed 1 Fine, Refreshed 1 Fine] bff_start = Some s
     \<and> (''s'', F_Grant ''r1'') \<in> set (b_flights s) \<and> ''r1'' \<in> set (b_replaced s)"
  by (simp add: first_tokens_def next_response_def bff_eval)

text \<open>
  The same happens when the provider has replaced the token and its answer is lost on the way: the
  refresh rejects as if nothing had been granted, the row keeps the replaced token, and the next
  request presents it again.
\<close>

theorem lost_answer_reuses_token:
  "\<exists>s. bff_exec [Sign_in ''s'' first_tokens ''u'', Clock 50000, Request Ssr ''s'', Answer 0 Fine,
         Refreshed 0 Fine, Refreshed 0 Fine, Refreshed 0 (Granted_unheard next_response), Answer 0 Fine,
         Request Proxy ''s'', Answer 1 Fine, Refreshed 1 Fine, Refreshed 1 Fine] bff_start = Some s
     \<and> (''s'', F_Grant ''r1'') \<in> set (b_flights s) \<and> ''r1'' \<in> set (b_replaced s)"
  by (simp add: first_tokens_def next_response_def bff_eval)

text \<open>
  A refresh answered without an id token leaves a session without one, though its tokens are good:
  \<open>refreshTokens\<close> keeps the refresh token that was not renewed, but not the id token.
\<close>

theorem refresh_drops_id_token:
  "tr_id_token response = None \<Longrightarrow> tk_id_token (refreshTokens now rt response) = None"
  by (simp add: refreshTokens_def tokensFromResponse_def Let_def)

end
