(* ===== verification/Desktop_Session.thy ===== *)
theory Desktop_Session
  imports Oidc_Session
begin

text \<open>
  The session of the desktop app, in the main process of Electron: the encrypted file with the
  refresh token (\<^verbatim>\<open>apps/electron/src/main/token-store.ts\<close>), the token engine
  (\<^verbatim>\<open>auth-session.ts\<close>) and its wiring (\<^verbatim>\<open>keycloak-auth.ts\<close>).

  An event is one message to the process (a call of the renderer, an answer from the network, the
  start of the program) with all the code it runs, the continuations of promises included: the
  process finishes them before it takes the next message. The engine takes its storage and its
  decoder of id tokens as arguments, as the constructor does.

  It is proved that the token file follows the tokens in memory, so a restart goes on with the
  newest refresh token, that a replaced refresh token is never presented again, that all callers
  of a refresh get the same end, and that each change of the user is announced to the windows,
  and it is shown where a sign-out is undone by a refresh that was under way.
\<close>

section \<open>The token file\<close>

text \<open>
  What the operating system offers. The file holds what \<open>encryptString\<close> returned; its bytes may
  not be readable later. \<open>os_backend\<close> is \<open>None\<close> where the call throws.
\<close>

record os =
  os_encryption :: bool
  os_linux :: bool
  os_backend :: "string option"
  os_encrypt :: "string \<Rightarrow> string"
  os_decrypt :: "string \<Rightarrow> string option"

type_synonym token_file = "string option"

definition encryptionUsable :: "os \<Rightarrow> bool" where
  "encryptionUsable m \<longleftrightarrow> os_encryption m \<and> \<not> (os_linux m \<and> os_backend m = Some ''basic_text'')"

text \<open>
  The interface of the engine to its storage, \<open>TokenPersistence\<close>. A \<open>save\<close> can fail: the first
  argument says whether the system lets the file be written.
\<close>

record 'f persistence =
  ps_load :: "'f \<Rightarrow> string option"
  ps_save :: "bool \<Rightarrow> string \<Rightarrow> 'f \<Rightarrow> 'f option"
  ps_clear :: "'f \<Rightarrow> 'f"

definition store_load :: "os \<Rightarrow> token_file \<Rightarrow> string option" where
  "store_load m file =
     (case file of None \<Rightarrow> None
      | Some content \<Rightarrow> if \<not> encryptionUsable m then None else os_decrypt m content)"

definition store_save :: "os \<Rightarrow> bool \<Rightarrow> string \<Rightarrow> token_file \<Rightarrow> token_file option" where
  "store_save m writes refreshToken file =
     (if \<not> encryptionUsable m then Some file
      else if writes then Some (Some (os_encrypt m refreshToken)) else None)"

definition store_clear :: "token_file \<Rightarrow> token_file" where
  "store_clear file = None"

definition createTokenStore :: "os \<Rightarrow> token_file persistence" where
  "createTokenStore m = \<lparr>ps_load = store_load m, ps_save = store_save m, ps_clear = store_clear\<rparr>"

section \<open>The engine\<close>

text \<open>
  A refresh holds the refresh token it was started with. It waits for the configuration or for
  the grant; \<open>R_Current\<close> found the tokens fresh after all and ends with them.
\<close>

datatype refresh_pc =
    R_Current session_tokens
  | R_Config
  | R_Grant
  | R_Settled

datatype call_kind = Get_token | Restore_session

text \<open>How a call ended: with an access token, with an exception, or with the answer of \<open>restore\<close>.\<close>

datatype call_result =
    Token string
  | Not_signed_in
  | Refresh_failed
  | Restored bool

datatype call_pc = C_Await nat | C_Done call_result

text \<open>
  \<open>d_notices\<close> counts the calls of the listeners. The last four fields only record what happened:
  the refresh tokens ever issued and those replaced, the answers the provider gave, and whether a
  token was lost (a failed write, or the program stopped while a grant was on its way).
\<close>

record 'f desktop =
  d_now :: int
  d_tokens :: "session_tokens option"
  d_file :: 'f
  d_refreshes :: "(string \<times> refresh_pc) list"
  d_inflight :: "nat option"
  d_calls :: "(call_kind \<times> call_pc) list"
  d_ready :: bool
  d_notices :: nat
  d_issued :: "string list"
  d_replaced :: "string list"
  d_lost :: bool

definition desktop_start :: "'f \<Rightarrow> 'f desktop" where
  "desktop_start file = \<lparr>d_now = 0, d_tokens = None, d_file = file, d_refreshes = [], d_inflight = None, d_calls = [],
     d_ready = False, d_notices = 0, d_issued = [], d_replaced = [], d_lost = False\<rparr>"

definition notify :: "'f desktop \<Rightarrow> 'f desktop" where
  "notify s = s\<lparr>d_notices := d_notices s + 1\<rparr>"

definition isAuthenticated :: "'f desktop \<Rightarrow> bool" where
  "isAuthenticated s \<longleftrightarrow> d_tokens s \<noteq> None"

definition clear_session :: "'f persistence \<Rightarrow> 'f desktop \<Rightarrow> 'f desktop" where
  "clear_session p s = s\<lparr>d_tokens := None, d_file := ps_clear p (d_file s)\<rparr>"

text \<open>\<open>persistence.save\<close> where the tokens have a refresh token; \<open>None\<close> is an exception.\<close>

definition persist :: "'f persistence \<Rightarrow> bool \<Rightarrow> session_tokens \<Rightarrow> 'f \<Rightarrow> 'f option" where
  "persist p writes tokens file =
     (if truthy (tk_refresh_token tokens) then ps_save p writes (the (tk_refresh_token tokens)) file else Some file)"

text \<open>\<open>setTokens\<close>, and whether it returned.\<close>

definition setTokens :: "'f persistence \<Rightarrow> bool \<Rightarrow> session_tokens \<Rightarrow> 'f desktop \<Rightarrow> 'f desktop \<times> bool" where
  "setTokens p writes tokens s =
     (case persist p writes tokens (d_file s) of
        Some file \<Rightarrow> (s\<lparr>d_tokens := Some tokens, d_file := file\<rparr>, True)
      | None \<Rightarrow> (s\<lparr>d_tokens := Some tokens, d_lost := True\<rparr>, False))"

text \<open>\<open>refresh\<close>: join the one in flight, or start one with this refresh token.\<close>

definition start_refresh :: "string \<Rightarrow> 'f desktop \<Rightarrow> 'f desktop \<times> nat" where
  "start_refresh refreshToken s =
     (case d_inflight s of
        Some n \<Rightarrow> (s, n)
      | None \<Rightarrow>
          (let n = length (d_refreshes s);
               pc = (case d_tokens s of
                       Some current \<Rightarrow> if isTokenFresh (d_now s) current then R_Current current else R_Config
                     | None \<Rightarrow> R_Config)
           in (s\<lparr>d_refreshes := d_refreshes s @ [(refreshToken, pc)], d_inflight := Some n\<rparr>, n)))"

definition add_call :: "call_kind \<Rightarrow> call_pc \<Rightarrow> 'f desktop \<Rightarrow> 'f desktop" where
  "add_call kind pc s = s\<lparr>d_calls := d_calls s @ [(kind, pc)]\<rparr>"

text \<open>\<open>current?.refresh_token ?? persistence.load()\<close>\<close>

definition stored_token :: "'f persistence \<Rightarrow> 'f desktop \<Rightarrow> string option" where
  "stored_token p s =
     (case d_tokens s of
        Some t \<Rightarrow> (case tk_refresh_token t of Some r \<Rightarrow> Some r | None \<Rightarrow> ps_load p (d_file s))
      | None \<Rightarrow> ps_load p (d_file s))"

text \<open>\<open>if (!refreshToken)\<close>: the empty string counts as none.\<close>

definition with_token :: "string option \<Rightarrow> (string \<Rightarrow> 'b) \<Rightarrow> 'b \<Rightarrow> 'b" where
  "with_token v go none = (if truthy v then go (the v) else none)"

lemma with_token_cases: "(\<And>rt. v = Some rt \<Longrightarrow> rt \<noteq> [] \<Longrightarrow> P (go rt)) \<Longrightarrow> P none \<Longrightarrow> P (with_token v go none)"
  by (cases v) (auto simp: with_token_def)

text \<open>The call of the renderer, with the wrapper of \<open>keycloak-auth.ts\<close> that announces a sign-out.\<close>

definition getAccessToken :: "'f persistence \<Rightarrow> 'f desktop \<Rightarrow> 'f desktop" where
  "getAccessToken p s =
     (if (case d_tokens s of Some t \<Rightarrow> isTokenFresh (d_now s) t | None \<Rightarrow> False)
      then add_call Get_token (C_Done (Token (tk_access_token (the (d_tokens s))))) s
      else with_token (stored_token p s)
        (\<lambda>rt. let (s', n) = start_refresh rt s in add_call Get_token (C_Await n) s')
        (add_call Get_token (C_Done Not_signed_in) (if isAuthenticated s then s else notify s)))"

text \<open>\<open>restoreSession\<close> and \<open>restore\<close>; the wrapper's \<open>finally\<close> marks the app ready.\<close>

definition restored :: "'f desktop \<Rightarrow> 'f desktop" where
  "restored s = notify (s\<lparr>d_ready := True\<rparr>)"

definition restoreSession :: "'f persistence \<Rightarrow> 'f desktop \<Rightarrow> 'f desktop" where
  "restoreSession p s =
     (if isAuthenticated s then add_call Restore_session (C_Done (Restored True)) (restored s)
      else with_token (ps_load p (d_file s))
        (\<lambda>rt. let (s', n) = start_refresh rt s in add_call Restore_session (C_Await n) s')
        (add_call Restore_session (C_Done (Restored False)) (restored s)))"

text \<open>What a caller does when the refresh it waits for has ended.\<close>

definition end_call :: "'f persistence \<Rightarrow> unit + session_tokens \<Rightarrow> nat \<Rightarrow> 'f desktop \<Rightarrow> 'f desktop" where
  "end_call p res k s =
     (let answer = (\<lambda>a s. s\<lparr>d_calls := (d_calls s)[k := (fst (d_calls s ! k), C_Done a)]\<rparr>)
      in case (fst (d_calls s ! k), res) of
        (Get_token, Inr t) \<Rightarrow> answer (Token (tk_access_token t)) s
      | (Get_token, Inl _) \<Rightarrow> answer Refresh_failed (notify (clear_session p s))
      | (Restore_session, Inr _) \<Rightarrow> answer (Restored True) (restored s)
      | (Restore_session, Inl _) \<Rightarrow> answer (Restored False) (restored (clear_session p s)))"

definition waiting :: "nat \<Rightarrow> 'f desktop \<Rightarrow> nat list" where
  "waiting n s = filter (\<lambda>k. snd (d_calls s ! k) = C_Await n) [0..<length (d_calls s)]"

text \<open>
  The promise of a refresh settles: \<open>finally\<close> forgets it, then the callers go on, the one that
  started it last.
\<close>

definition settle :: "'f persistence \<Rightarrow> nat \<Rightarrow> unit + session_tokens \<Rightarrow> 'f desktop \<Rightarrow> 'f desktop" where
  "settle p n res s =
     fold (end_call p res) (rotate1 (waiting n s))
       (s\<lparr>d_refreshes := (d_refreshes s)[n := (fst (d_refreshes s ! n), R_Settled)], d_inflight := None\<rparr>)"

text \<open>The grant arrives: the refresh ends with the tokens once they are adopted.\<close>

definition end_grant :: "'f persistence \<Rightarrow> nat \<Rightarrow> token_response \<Rightarrow> bool \<Rightarrow> 'f desktop \<Rightarrow> 'f desktop" where
  "end_grant p n response writes s =
     (let rt = fst (d_refreshes s ! n); tokens = refreshTokens (d_now s) rt response; new = the (tk_refresh_token tokens);
          q = setTokens p writes tokens
            (s\<lparr>d_issued := new # d_issued s, d_replaced := (if new = rt then d_replaced s else rt # d_replaced s)\<rparr>)
      in settle p n (if snd q then Inr tokens else Inl ()) (fst q))"

text \<open>
  \<open>Token_unheard\<close> is a grant whose answer was lost after the provider had issued its token set: the
  code sees a rejected promise, the provider has replaced the token that was presented.
\<close>

datatype network_reply = Arrived | Broken | Token_set token_response bool | Token_unheard token_response

definition unheard :: "string \<Rightarrow> network_reply \<Rightarrow> 'f desktop \<Rightarrow> 'f desktop" where
  "unheard rt r s =
     (case r of
        Token_unheard response \<Rightarrow>
          (let new = the (tk_refresh_token (refreshTokens (d_now s) rt response))
           in s\<lparr>d_issued := new # d_issued s, d_replaced := (if new = rt then d_replaced s else rt # d_replaced s)\<rparr>)
      | _ \<Rightarrow> s)"

lemma unheard_other [simp]: "unheard rt Broken s = s" "unheard rt Arrived s = s" "unheard rt (Token_set response writes) s = s"
  by (simp_all add: unheard_def)

lemma unheard_frame [simp]:
  "d_tokens (unheard rt r s) = d_tokens s" "d_file (unheard rt r s) = d_file s" "d_refreshes (unheard rt r s) = d_refreshes s"
  "d_inflight (unheard rt r s) = d_inflight s" "d_calls (unheard rt r s) = d_calls s" "d_now (unheard rt r s) = d_now s"
  "d_ready (unheard rt r s) = d_ready s" "d_notices (unheard rt r s) = d_notices s" "d_lost (unheard rt r s) = d_lost s"
  by (simp_all add: unheard_def Let_def split: network_reply.split)

definition refresh_step :: "'f persistence \<Rightarrow> nat \<Rightarrow> network_reply \<Rightarrow> 'f desktop \<Rightarrow> 'f desktop option" where
  "refresh_step p n r s =
     (if length (d_refreshes s) \<le> n then None
      else case d_refreshes s ! n of
        (_, R_Settled) \<Rightarrow> None
      | (_, R_Current t) \<Rightarrow> Some (settle p n (Inr t) s)
      | (rt, R_Config) \<Rightarrow>
          Some (if r = Broken then settle p n (Inl ()) s
                else s\<lparr>d_refreshes := (d_refreshes s)[n := (rt, R_Grant)]\<rparr>)
      | (rt, R_Grant) \<Rightarrow>
          (case r of
             Token_set response writes \<Rightarrow> Some (end_grant p n response writes s)
           | _ \<Rightarrow> Some (settle p n (Inl ()) (unheard rt r s))))"

text \<open>The adoption of the tokens of a login, by \<open>login\<close>.\<close>

definition adopt_login :: "'f persistence \<Rightarrow> bool \<Rightarrow> session_tokens \<Rightarrow> 'f desktop \<Rightarrow> 'f desktop" where
  "adopt_login p writes tokens s =
     (let s' = s\<lparr>d_issued := (if truthy (tk_refresh_token tokens) then the (tk_refresh_token tokens) # d_issued s else d_issued s)\<rparr>
      in case setTokens p writes tokens s' of (s'', returned) \<Rightarrow> if returned then notify s'' else s'')"

text \<open>\<open>logout\<close>, up to the end of the provider's session, which needs no state but the hint.\<close>

definition logout :: "'f persistence \<Rightarrow> 'f desktop \<Rightarrow> 'f desktop" where
  "logout p s = notify (clear_session p s)"

text \<open>The program stops and starts again: the memory is gone, the file stays.\<close>

definition relaunch :: "'f desktop \<Rightarrow> 'f desktop" where
  "relaunch s = (desktop_start (d_file s))\<lparr>d_now := d_now s, d_issued := d_issued s, d_replaced := d_replaced s,
     d_lost := d_lost s \<or> (\<exists>x \<in> set (d_refreshes s). snd x = R_Grant)\<rparr>"

datatype desktop_event =
    Tick int
  | Ask_token
  | Boot
  | Logged_in session_tokens bool
  | Log_out
  | Network nat network_reply
  | Relaunch

definition desktop_step :: "'f persistence \<Rightarrow> desktop_event \<Rightarrow> 'f desktop \<Rightarrow> 'f desktop option" where
  "desktop_step p e s =
     (case e of
        Tick t \<Rightarrow> Some (s\<lparr>d_now := t\<rparr>)
      | Ask_token \<Rightarrow> Some (getAccessToken p s)
      | Boot \<Rightarrow> Some (restoreSession p s)
      | Logged_in tokens writes \<Rightarrow> Some (adopt_login p writes tokens s)
      | Log_out \<Rightarrow> Some (logout p s)
      | Network n r \<Rightarrow> refresh_step p n r s
      | Relaunch \<Rightarrow> Some (relaunch s))"

text \<open>The provider issues refresh tokens it never issued before, or lets the presented one stand.\<close>

definition fresh_tokens :: "desktop_event \<Rightarrow> 'f desktop \<Rightarrow> bool" where
  "fresh_tokens e s \<longleftrightarrow>
     (case e of
        Logged_in tokens writes \<Rightarrow> truthy (tk_refresh_token tokens) \<longrightarrow> the (tk_refresh_token tokens) \<notin> set (d_issued s)
      | Network n (Token_set response writes) \<Rightarrow>
          truthy (tr_refresh_token response) \<longrightarrow> the (tr_refresh_token response) \<notin> set (d_issued s)
            \<or> the (tr_refresh_token response) = fst (d_refreshes s ! n)
      | _ \<Rightarrow> True)"

inductive desktop_run :: "'f persistence \<Rightarrow> 'f desktop \<Rightarrow> 'f desktop \<Rightarrow> bool" for p where
  desktop_here: "desktop_run p s s"
| desktop_next: "desktop_run p s t \<Longrightarrow> fresh_tokens e t \<Longrightarrow> desktop_step p e t = Some u \<Longrightarrow> desktop_run p s u"

section \<open>What the windows see\<close>

text \<open>The claims of the id token that are read.\<close>

record oidc_claims =
  oc_sub :: "string option"
  oc_email :: "string option"
  oc_name :: "string option"
  oc_preferred_username :: "string option"
  oc_picture :: "string option"

record auth_user =
  au_id :: string
  au_email :: "string option"
  au_displayName :: "string option"
  au_photoURL :: "string option"

record auth_state =
  as_ready :: bool
  as_user :: "auth_user option"

definition getUser :: "(string \<Rightarrow> oidc_claims option) \<Rightarrow> 'f desktop \<Rightarrow> auth_user option" where
  "getUser decode s =
     (let idToken = Option.bind (d_tokens s) tk_id_token
      in if \<not> truthy idToken then None
         else case decode (the idToken) of
             None \<Rightarrow> None
           | Some claims \<Rightarrow>
               if \<not> truthy (oc_sub claims) then None
               else Some \<lparr>au_id = the (oc_sub claims), au_email = oc_email claims,
                      au_displayName = (case oc_name claims of Some n \<Rightarrow> Some n | None \<Rightarrow> oc_preferred_username claims),
                      au_photoURL = oc_picture claims\<rparr>)"

definition getAuthState :: "(string \<Rightarrow> oidc_claims option) \<Rightarrow> 'f desktop \<Rightarrow> auth_state" where
  "getAuthState decode s = \<lparr>as_ready = d_ready s, as_user = getUser decode s\<rparr>"

section \<open>The storage as an interface\<close>

text \<open>What the engine relies on: nothing is found after \<open>clear\<close>, and after \<open>save\<close> nothing but the saved token.\<close>

locale token_persistence =
  fixes p :: "'f persistence"
  assumes load_clear: "ps_load p (ps_clear p f) = None"
    and load_save: "ps_save p writes t f = Some f' \<Longrightarrow> ps_load p f' = Some t \<or> ps_load p f' = None"

text \<open>A storage that keeps what it is given.\<close>

locale durable_persistence = token_persistence +
  assumes load_saved: "ps_save p writes t f = Some f' \<Longrightarrow> ps_load p f' = Some t"

definition keychain :: "os \<Rightarrow> bool" where
  "keychain m \<longleftrightarrow> (\<forall>t. os_decrypt m (os_encrypt m t) = Some t)"

lemmas store_simps = createTokenStore_def store_load_def store_save_def store_clear_def

lemma token_store: "keychain m \<Longrightarrow> token_persistence (createTokenStore m)"
  by unfold_locales (auto simp: store_simps keychain_def split: if_splits option.splits)

lemma token_store_durable: "keychain m \<Longrightarrow> encryptionUsable m \<Longrightarrow> durable_persistence (createTokenStore m)"
  by unfold_locales (auto simp: store_simps keychain_def split: if_splits)

text \<open>Without usable encryption nothing is written and nothing is read.\<close>

lemma token_store_unusable:
  "\<not> encryptionUsable m \<Longrightarrow> ps_load (createTokenStore m) f = None \<and> ps_save (createTokenStore m) writes t f = Some f"
  by (simp add: store_simps split: option.split)

section \<open>How a refresh ends\<close>

definition answer_of :: "unit + session_tokens \<Rightarrow> call_kind \<Rightarrow> call_result" where
  "answer_of res kind =
     (case (kind, res) of
        (Get_token, Inr t) \<Rightarrow> Token (tk_access_token t)
      | (Get_token, Inl _) \<Rightarrow> Refresh_failed
      | (Restore_session, _) \<Rightarrow> Restored (\<not> isl res))"

lemma end_call_fields:
  "d_calls (end_call p res k s) = (d_calls s)[k := (fst (d_calls s ! k), C_Done (answer_of res (fst (d_calls s ! k))))]"
  "d_tokens (end_call p res k s) = (if isl res then None else d_tokens s)"
  "d_file (end_call p res k s) = (if isl res then ps_clear p (d_file s) else d_file s)"
  "d_notices s \<le> d_notices (end_call p res k s)"
  "isl res \<Longrightarrow> d_notices s < d_notices (end_call p res k s)"
  "d_ready s \<Longrightarrow> d_ready (end_call p res k s)"
  "d_now (end_call p res k s) = d_now s" "d_refreshes (end_call p res k s) = d_refreshes s"
  "d_inflight (end_call p res k s) = d_inflight s" "d_issued (end_call p res k s) = d_issued s"
  "d_replaced (end_call p res k s) = d_replaced s" "d_lost (end_call p res k s) = d_lost s"
  by (cases "fst (d_calls s ! k)"; cases res;
      simp add: end_call_def answer_of_def notify_def restored_def clear_session_def Let_def)+

lemma fold_end_call_frame:
  "d_now (fold (end_call p res) ks s) = d_now s" "d_refreshes (fold (end_call p res) ks s) = d_refreshes s"
  "d_inflight (fold (end_call p res) ks s) = d_inflight s" "d_issued (fold (end_call p res) ks s) = d_issued s"
  "d_replaced (fold (end_call p res) ks s) = d_replaced s" "d_lost (fold (end_call p res) ks s) = d_lost s"
  "length (d_calls (fold (end_call p res) ks s)) = length (d_calls s)"
  by (induction ks arbitrary: s) (simp_all add: end_call_fields)

lemma fold_end_call_success:
  "d_tokens (fold (end_call p (Inr t)) ks s) = d_tokens s" "d_file (fold (end_call p (Inr t)) ks s) = d_file s"
  "d_notices s \<le> d_notices (fold (end_call p (Inr t)) ks s)"
  by (induction ks arbitrary: s) (auto simp: end_call_fields intro: le_trans [OF end_call_fields(4)])

lemma fold_end_call_notices: "d_notices s \<le> d_notices (fold (end_call p res) ks s)"
  by (induction ks arbitrary: s) (auto intro: le_trans [OF end_call_fields(4)])

lemma fold_end_call_failure:
  assumes "ks \<noteq> []"
  shows "d_tokens (fold (end_call p (Inl ())) ks s) = None" "\<exists>f. d_file (fold (end_call p (Inl ())) ks s) = ps_clear p f"
    "d_notices s < d_notices (fold (end_call p (Inl ())) ks s)"
proof -
  obtain ks' k where ks: "ks = ks' @ [k]" using assms by (metis append_butlast_last_id)
  then show "d_tokens (fold (end_call p (Inl ())) ks s) = None" "\<exists>f. d_file (fold (end_call p (Inl ())) ks s) = ps_clear p f"
    by (auto simp: end_call_fields)
  show "d_notices s < d_notices (fold (end_call p (Inl ())) ks s)"
    using ks le_less_trans [OF fold_end_call_notices [of s p "Inl ()" ks'] end_call_fields(5) [of "Inl ()" _ p k]] by simp
qed

lemma fold_end_call_calls:
  "\<forall>k \<in> set ks. k < length (d_calls s) \<Longrightarrow> j < length (d_calls s) \<Longrightarrow>
   d_calls (fold (end_call p res) ks s) ! j =
     (fst (d_calls s ! j), if j \<in> set ks then C_Done (answer_of res (fst (d_calls s ! j))) else snd (d_calls s ! j))"
  by (induction ks arbitrary: s) (auto simp: end_call_fields nth_list_update split: if_splits)

lemma set_waiting: "k \<in> set (waiting n s) \<longleftrightarrow> k < length (d_calls s) \<and> snd (d_calls s ! k) = C_Await n"
  by (auto simp: waiting_def)

definition ended :: "nat \<Rightarrow> 'f desktop \<Rightarrow> 'f desktop" where
  "ended n s = s\<lparr>d_refreshes := (d_refreshes s)[n := (fst (d_refreshes s ! n), R_Settled)], d_inflight := None\<rparr>"

lemma settle_eq: "settle p n res s = fold (end_call p res) (rotate1 (waiting n s)) (ended n s)"
  by (simp add: settle_def ended_def)

lemma settle_frame:
  "d_refreshes (settle p n res s) = (d_refreshes s)[n := (fst (d_refreshes s ! n), R_Settled)]"
  "d_inflight (settle p n res s) = None" "d_issued (settle p n res s) = d_issued s"
  "d_replaced (settle p n res s) = d_replaced s" "d_lost (settle p n res s) = d_lost s"
  "d_now (settle p n res s) = d_now s" "length (d_calls (settle p n res s)) = length (d_calls s)"
  by (simp_all add: settle_eq fold_end_call_frame ended_def)

lemma settle_success: "d_tokens (settle p n (Inr t) s) = d_tokens s" "d_file (settle p n (Inr t) s) = d_file s"
  by (simp_all add: settle_eq fold_end_call_success ended_def)

lemma settle_failure:
  assumes "waiting n s \<noteq> []"
  shows "d_tokens (settle p n (Inl ()) s) = None" "\<exists>f. d_file (settle p n (Inl ()) s) = ps_clear p f"
    "d_notices s < d_notices (settle p n (Inl ()) s)"
proof -
  have "rotate1 (waiting n s) \<noteq> []" using assms by simp
  note f = fold_end_call_failure [OF this, where p = p and s = "ended n s"]
  show "d_tokens (settle p n (Inl ()) s) = None" "\<exists>f. d_file (settle p n (Inl ()) s) = ps_clear p f"
    using f(1,2) by (simp_all add: settle_eq)
  show "d_notices s < d_notices (settle p n (Inl ()) s)" using f(3) by (simp add: settle_eq) (simp add: ended_def)
qed

lemma settle_calls:
  assumes "j < length (d_calls s)"
  shows "d_calls (settle p n res s) ! j =
    (fst (d_calls s ! j), if snd (d_calls s ! j) = C_Await n then C_Done (answer_of res (fst (d_calls s ! j))) else snd (d_calls s ! j))"
proof -
  have "d_calls (ended n s) = d_calls s" by (simp add: ended_def)
  moreover have "\<forall>k \<in> set (rotate1 (waiting n s)). k < length (d_calls s)" by (simp add: set_waiting)
  ultimately show ?thesis using fold_end_call_calls [of "rotate1 (waiting n s)" "ended n s" j p res] assms
    by (simp add: settle_eq set_waiting)
qed

section \<open>The invariant\<close>

text \<open>One refresh at most is alive, the last one, and somebody waits for it.\<close>

definition awaited :: "nat \<Rightarrow> (call_kind \<times> call_pc) list \<Rightarrow> bool" where
  "awaited n cs \<longleftrightarrow> (\<exists>c \<in> set cs. snd c = C_Await n)"

lemma awaited_simps [simp]:
  "\<not> awaited n []" "awaited n (cs @ [(kind, pc)]) \<longleftrightarrow> awaited n cs \<or> pc = C_Await n"
  by (auto simp: awaited_def)

definition idle :: "'f desktop \<Rightarrow> bool" where
  "idle s \<longleftrightarrow> d_inflight s = None \<and> (\<forall>x \<in> set (d_refreshes s). snd x = R_Settled) \<and> (\<forall>n. \<not> awaited n (d_calls s))"

definition running_after :: "(string \<times> refresh_pc) list \<Rightarrow> string \<Rightarrow> refresh_pc \<Rightarrow> 'f desktop \<Rightarrow> bool" where
  "running_after old rt pc s \<longleftrightarrow> d_refreshes s = old @ [(rt, pc)] \<and> d_inflight s = Some (length old)
     \<and> (\<forall>x \<in> set old. snd x = R_Settled) \<and> (\<forall>n. awaited n (d_calls s) \<longleftrightarrow> n = length old)"

definition running :: "string \<Rightarrow> refresh_pc \<Rightarrow> 'f desktop \<Rightarrow> bool" where
  "running rt pc s \<longleftrightarrow> (\<exists>old. running_after old rt pc s)"

definition refreshes_ok :: "'f desktop \<Rightarrow> bool" where
  "refreshes_ok s \<longleftrightarrow> idle s \<or> (\<exists>rt. running rt R_Config s \<or> running rt R_Grant s)"

lemma running_afterD:
  assumes "running_after old rt pc s"
  shows "d_refreshes s = old @ [(rt, pc)]" "d_inflight s = Some (length old)"
    "x \<in> set old \<Longrightarrow> snd x = R_Settled" "awaited n (d_calls s) \<longleftrightarrow> n = length old"
  using assms by (simp_all add: running_after_def)

lemma running_after_cong:
  "d_refreshes s' = d_refreshes s \<Longrightarrow> d_inflight s' = d_inflight s \<Longrightarrow> d_calls s' = d_calls s \<Longrightarrow>
   running_after old rt pc s' \<longleftrightarrow> running_after old rt pc s"
  by (simp add: running_after_def)

lemma running_cong:
  "d_refreshes s' = d_refreshes s \<Longrightarrow> d_inflight s' = d_inflight s \<Longrightarrow> d_calls s' = d_calls s \<Longrightarrow>
   running rt pc s' \<longleftrightarrow> running rt pc s"
  by (simp add: running_def running_after_def)

lemma refreshes_ok_cong:
  "d_refreshes s' = d_refreshes s \<Longrightarrow> d_inflight s' = d_inflight s \<Longrightarrow> d_calls s' = d_calls s \<Longrightarrow>
   refreshes_ok s' \<longleftrightarrow> refreshes_ok s"
  by (simp add: refreshes_ok_def idle_def running_def running_after_def)

lemma awaited_nth: "awaited n cs \<longleftrightarrow> (\<exists>k < length cs. snd (cs ! k) = C_Await n)"
  unfolding awaited_def using in_set_conv_nth by metis

lemma awaited_waiting: "awaited n (d_calls s) \<longleftrightarrow> waiting n s \<noteq> []"
  unfolding awaited_nth by (metis set_waiting list.set_intros(1) list.set_cases neq_Nil_conv list.distinct(1) length_pos_if_in_set list.size(3) less_numeral_extra(3))

lemma add_call_sel [simp]:
  "d_refreshes (add_call kind pc s) = d_refreshes s" "d_inflight (add_call kind pc s) = d_inflight s"
  "d_calls (add_call kind pc s) = d_calls s @ [(kind, pc)]" "d_tokens (add_call kind pc s) = d_tokens s"
  "d_file (add_call kind pc s) = d_file s" "d_issued (add_call kind pc s) = d_issued s"
  "d_replaced (add_call kind pc s) = d_replaced s" "d_lost (add_call kind pc s) = d_lost s"
  "d_notices (add_call kind pc s) = d_notices s" "d_ready (add_call kind pc s) = d_ready s"
  by (simp_all add: add_call_def)

lemma refreshes_ok_done:
  assumes "refreshes_ok s" shows "refreshes_ok (add_call kind (C_Done a) s)"
  using assms by (simp add: refreshes_ok_def idle_def running_def running_after_def)

lemma running_start:
  assumes idle: "idle s" and stale: "\<And>t. d_tokens s = Some t \<Longrightarrow> \<not> isTokenFresh (d_now s) t"
    and start: "start_refresh rt s = (s', n)"
  shows "running_after (d_refreshes s) rt R_Config (add_call kind (C_Await n) s')"
proof -
  have i: "d_inflight s = None" "\<forall>x \<in> set (d_refreshes s). snd x = R_Settled" "\<not> awaited m (d_calls s)" for m
    using idle by (simp_all add: idle_def)
  have "s' = s\<lparr>d_refreshes := d_refreshes s @ [(rt, R_Config)], d_inflight := Some (length (d_refreshes s))\<rparr>"
    "n = length (d_refreshes s)"
    using start stale i(1) by (auto simp: start_refresh_def Let_def split: option.splits if_splits)
  then show ?thesis using i(2,3) by (simp add: running_after_def eq_commute)
qed

lemma running_join:
  assumes "running_after old rt pc s" and "start_refresh rt' s = (s', n)"
  shows "running_after old rt pc (add_call kind (C_Await n) s')"
proof -
  have "s' = s" "n = length old" using assms by (simp_all add: start_refresh_def running_after_def)
  then show ?thesis using assms(1) by (auto simp: running_after_def)
qed

lemma refreshes_ok_start:
  assumes "refreshes_ok s" and "\<And>t. d_tokens s = Some t \<Longrightarrow> \<not> isTokenFresh (d_now s) t"
    and "start_refresh rt s = (s', n)"
  shows "refreshes_ok (add_call kind (C_Await n) s')"
  using assms running_start running_join unfolding refreshes_ok_def running_def by metis

lemma awaited_settle:
  "awaited m (d_calls (settle p n res s)) \<longleftrightarrow> awaited m (d_calls s) \<and> m \<noteq> n"
proof -
  have "snd (d_calls (settle p n res s) ! k) = C_Await m \<longleftrightarrow> snd (d_calls s ! k) = C_Await m \<and> m \<noteq> n"
    if "k < length (d_calls s)" for k
    using that by (auto simp: settle_calls)
  then show ?thesis unfolding awaited_nth settle_frame by blast
qed

lemma idle_settle:
  assumes "running rt pc s" and "d_inflight s = Some n"
  shows "idle (settle p n res s)"
proof -
  obtain old where old: "running_after old rt pc s" using assms by (auto simp: running_def)
  then have "n = length old" using assms(2) by (simp add: running_afterD(2))
  then show ?thesis using old by (simp add: idle_def settle_frame awaited_settle running_after_def)
qed

lemma running_inflight:
  assumes "running rt pc s" "n < length (d_refreshes s)" "snd (d_refreshes s ! n) \<noteq> R_Settled"
  shows "d_inflight s = Some n" "d_refreshes s ! n = (rt, pc)"
proof -
  obtain old where old: "running_after old rt pc s" using assms by (auto simp: running_def)
  then have "n = length old" using assms(2,3) running_afterD(3) [OF old, of "old ! n"]
    by (cases "n < length old") (auto simp: running_afterD(1) nth_append)
  then show "d_inflight s = Some n" "d_refreshes s ! n = (rt, pc)" using old by (simp_all add: running_after_def)
qed

text \<open>A write that fails leaves the tokens in memory only.\<close>

lemma setTokens_refreshes:
  "d_refreshes (fst (setTokens p w t s)) = d_refreshes s" "d_inflight (fst (setTokens p w t s)) = d_inflight s"
  "d_calls (fst (setTokens p w t s)) = d_calls s" "d_tokens (fst (setTokens p w t s)) = Some t"
  "d_issued (fst (setTokens p w t s)) = d_issued s" "d_replaced (fst (setTokens p w t s)) = d_replaced s"
  "d_now (fst (setTokens p w t s)) = d_now s" "d_ready (fst (setTokens p w t s)) = d_ready s"
  "d_notices (fst (setTokens p w t s)) = d_notices s"
  "d_lost (fst (setTokens p w t s)) \<longleftrightarrow> d_lost s \<or> \<not> snd (setTokens p w t s)"
  "snd (setTokens p w t s) \<Longrightarrow> persist p w t (d_file s) = Some (d_file (fst (setTokens p w t s)))"
  by (auto simp: setTokens_def split: option.splits)

lemma refresh_stepE:
  assumes ok: "refreshes_ok s" and step: "refresh_step p n r s = Some s'"
  obtains rt where "running rt R_Config s" "d_inflight s = Some n" "r = Broken" "s' = settle p n (Inl ()) s"
  | rt where "running rt R_Config s" "d_inflight s = Some n" "r \<noteq> Broken"
      "s' = s\<lparr>d_refreshes := (d_refreshes s)[n := (rt, R_Grant)]\<rparr>"
  | rt response writes where "running rt R_Grant s" "d_inflight s = Some n" "d_refreshes s ! n = (rt, R_Grant)"
      "r = Token_set response writes" "s' = end_grant p n response writes s"
  | rt where "running rt R_Grant s" "d_inflight s = Some n" "\<forall>response writes. r \<noteq> Token_set response writes"
      "s' = settle p n (Inl ()) (unheard rt r s)"
proof -
  have live: "n < length (d_refreshes s)" "snd (d_refreshes s ! n) \<noteq> R_Settled"
    using step by (auto simp: refresh_step_def split: if_splits prod.splits)
  then have "\<not> idle s" by (auto simp: idle_def)
  then consider rt where "running rt R_Config s" | rt where "running rt R_Grant s" using ok by (auto simp: refreshes_ok_def)
  then show thesis
  proof cases
    case (1 rt)
    note pc = running_inflight [OF 1 live]
    show thesis
    proof (cases "r = Broken")
      case True
      then show thesis using that(1) [OF 1 pc(1)] step live(1) pc(2) by (simp add: refresh_step_def)
    next
      case False
      then show thesis using that(2) [OF 1 pc(1)] step live(1) pc(2) by (simp add: refresh_step_def)
    qed
  next
    case (2 rt)
    note pc = running_inflight [OF 2 live]
    show thesis
    proof (cases r)
      case (Token_set response writes)
      then show thesis using that(3) [OF 2 pc] step live(1) pc(2) by (simp add: refresh_step_def)
    qed (use that(4) [OF 2 pc(1)] step live(1) pc(2) in \<open>simp_all add: refresh_step_def\<close>)
  qed
qed

lemma idle_end_grant: "running rt pc s \<Longrightarrow> d_inflight s = Some n \<Longrightarrow> idle (end_grant p n response writes s)"
  unfolding end_grant_def Let_def
  by (rule idle_settle [where rt = rt and pc = pc]) (simp_all add: setTokens_refreshes cong: running_cong)

lemma running_granting:
  assumes "running rt R_Config s" "d_inflight s = Some n"
  shows "running rt R_Grant (s\<lparr>d_refreshes := (d_refreshes s)[n := (rt, R_Grant)]\<rparr>)"
proof -
  obtain old where old: "running_after old rt R_Config s" using assms by (auto simp: running_def)
  then have "n = length old" using assms(2) by (simp add: running_afterD(2))
  then have "running_after old rt R_Grant (s\<lparr>d_refreshes := (d_refreshes s)[n := (rt, R_Grant)]\<rparr>)"
    using old by (simp add: running_after_def)
  then show ?thesis by (auto simp: running_def)
qed

lemma refreshes_ok_refresh_step:
  assumes ok: "refreshes_ok s" and step: "refresh_step p n r s = Some s'"
  shows "refreshes_ok s'"
  using ok step
proof (cases rule: refresh_stepE)
  case (2 rt)
  then show ?thesis using running_granting by (auto simp: refreshes_ok_def)
next
  case (4 rt)
  then have "running rt R_Grant (unheard rt r s)" by (simp cong: running_cong)
  then show ?thesis using idle_settle [of rt R_Grant "unheard rt r s" n] 4 by (simp add: refreshes_ok_def)
qed (auto simp: refreshes_ok_def dest: idle_settle idle_end_grant)

lemma refreshes_ok_step:
  assumes ok: "refreshes_ok s" and step: "desktop_step p e s = Some s'"
  shows "refreshes_ok s'"
proof (cases e)
  case Ask_token
  show ?thesis
  proof (cases "\<exists>t. d_tokens s = Some t \<and> isTokenFresh (d_now s) t")
    case True
    then show ?thesis using step Ask_token refreshes_ok_done [OF ok] by (auto simp: desktop_step_def getAccessToken_def)
  next
    case False
    then have 2: "\<And>t. d_tokens s = Some t \<Longrightarrow> \<not> isTokenFresh (d_now s) t" by blast
    have none: "refreshes_ok (if isAuthenticated s then s else notify s)"
      using ok by (simp add: notify_def cong: refreshes_ok_cong)
    have "(case d_tokens s of Some t \<Rightarrow> isTokenFresh (d_now s) t | None \<Rightarrow> False) = False" using 2 by (auto split: option.splits)
    then have s': "s' = with_token (stored_token p s) (\<lambda>rt. let (s', n) = start_refresh rt s in add_call Get_token (C_Await n) s')
        (add_call Get_token (C_Done Not_signed_in) (if isAuthenticated s then s else notify s))"
      using step Ask_token by (simp add: desktop_step_def getAccessToken_def)
    show ?thesis unfolding s' by (rule with_token_cases) (use refreshes_ok_done [OF none] refreshes_ok_start [OF ok 2] in \<open>auto split: prod.split\<close>)
  qed
next
  case Boot
  have none: "refreshes_ok (restored s)" using ok by (simp add: notify_def restored_def cong: refreshes_ok_cong)
  show ?thesis
  proof (cases "isAuthenticated s")
    case True
    then show ?thesis using step Boot refreshes_ok_done [OF none] by (auto simp: desktop_step_def restoreSession_def)
  next
    case False
    then have 2: "\<And>t. d_tokens s = Some t \<Longrightarrow> \<not> isTokenFresh (d_now s) t" by (simp add: isAuthenticated_def)
    have s': "s' = with_token (ps_load p (d_file s)) (\<lambda>rt. let (s', n) = start_refresh rt s in add_call Restore_session (C_Await n) s')
        (add_call Restore_session (C_Done (Restored False)) (restored s))"
      using step Boot False by (simp add: desktop_step_def restoreSession_def)
    show ?thesis unfolding s' by (rule with_token_cases) (use refreshes_ok_done [OF none] refreshes_ok_start [OF ok 2] in \<open>auto split: prod.split\<close>)
  qed
next
  case (Logged_in tokens writes)
  then show ?thesis using step ok
    by (auto simp: desktop_step_def adopt_login_def Let_def notify_def split_def setTokens_refreshes cong: refreshes_ok_cong)
next
  case (Network n r)
  then show ?thesis using step ok refreshes_ok_refresh_step by (simp add: desktop_step_def)
next
  case Relaunch
  then show ?thesis using step by (auto simp: desktop_step_def relaunch_def desktop_start_def refreshes_ok_def idle_def)
qed (use assms in \<open>auto simp: desktop_step_def logout_def clear_session_def notify_def cong: refreshes_ok_cong\<close>)

section \<open>No replaced token is presented\<close>

text \<open>Where a refresh token can still come from.\<close>

definition live_tokens :: "'f desktop \<Rightarrow> string set" where
  "live_tokens s = fst ` {x \<in> set (d_refreshes s). snd x \<noteq> R_Settled}"

definition sources :: "'f persistence \<Rightarrow> 'f desktop \<Rightarrow> string set" where
  "sources p s = set_option (ps_load p (d_file s)) \<union> live_tokens s
     \<union> (set_option (Option.bind (d_tokens s) tk_refresh_token) - {[]})"

lemma sources_eqI:
  "d_file s' = d_file s \<Longrightarrow> d_refreshes s' = d_refreshes s \<Longrightarrow> d_tokens s' = d_tokens s \<Longrightarrow> sources p s' = sources p s"
  by (simp add: sources_def live_tokens_def)

definition tokens_ok :: "'f persistence \<Rightarrow> 'f desktop \<Rightarrow> bool" where
  "tokens_ok p s \<longleftrightarrow> d_lost s \<or>
     (sources p s \<inter> set (d_replaced s) = {} \<and> sources p s \<subseteq> set (d_issued s) \<and> set (d_replaced s) \<subseteq> set (d_issued s)
      \<and> [] \<notin> sources p s)"

lemma tokens_okD:
  assumes "tokens_ok p s" "\<not> d_lost s"
  shows "r \<in> sources p s \<Longrightarrow> r \<notin> set (d_replaced s) \<and> r \<in> set (d_issued s) \<and> r \<noteq> []"
    and "r \<in> set (d_replaced s) \<Longrightarrow> r \<in> set (d_issued s)"
  using assms by (auto simp: tokens_ok_def)

definition fewer_sources :: "'f persistence \<Rightarrow> 'f desktop \<Rightarrow> 'f desktop \<Rightarrow> bool" where
  "fewer_sources p s s' \<longleftrightarrow> sources p s' \<subseteq> sources p s \<and> d_issued s' = d_issued s \<and> d_replaced s' = d_replaced s \<and> (d_lost s \<longrightarrow> d_lost s')"

lemma tokens_ok_mild: "tokens_ok p s \<Longrightarrow> fewer_sources p s s' \<Longrightarrow> tokens_ok p s'"
  by (auto simp: tokens_ok_def fewer_sources_def)

lemma fewer_refl [simp]: "fewer_sources p s s"
  by (simp add: fewer_sources_def)

lemma idle_live: "idle s \<Longrightarrow> live_tokens s = {}"
  by (auto simp: idle_def live_tokens_def)

lemma running_live: "running rt pc s \<Longrightarrow> pc \<noteq> R_Settled \<Longrightarrow> live_tokens s = {rt}"
proof -
  assume "running rt pc s" "pc \<noteq> R_Settled"
  then obtain old where "d_refreshes s = old @ [(rt, pc)]" "\<forall>x \<in> set old. snd x = R_Settled"
    by (auto simp: running_def running_after_def)
  then have "{x \<in> set (d_refreshes s). snd x \<noteq> R_Settled} = {(rt, pc)}" using \<open>pc \<noteq> R_Settled\<close> by auto
  then show ?thesis by (simp add: live_tokens_def)
qed

lemma running_source: "running rt pc s \<Longrightarrow> pc \<noteq> R_Settled \<Longrightarrow> rt \<in> sources p s"
  by (simp add: sources_def running_live)

lemma stored_token_source: "stored_token p s = Some rt \<Longrightarrow> rt \<noteq> [] \<Longrightarrow> rt \<in> sources p s"
  by (auto simp: stored_token_def sources_def split: option.splits)

lemma load_source: "ps_load p (d_file s) = Some rt \<Longrightarrow> rt \<in> sources p s"
  by (simp add: sources_def)

lemma fewer_start:
  assumes "rt \<in> sources p s" "start_refresh rt s = (s', n)"
  shows "fewer_sources p s (add_call kind (C_Await n) s')"
proof -
  have "live_tokens s' \<subseteq> insert rt (live_tokens s)" "d_file s' = d_file s" "d_tokens s' = d_tokens s"
    "d_issued s' = d_issued s" "d_replaced s' = d_replaced s" "d_lost s' = d_lost s"
    using assms(2) by (auto simp: start_refresh_def Let_def live_tokens_def image_iff split: option.splits)
  moreover have "sources p (add_call kind (C_Await n) s') = sources p s'" by (simp add: sources_def live_tokens_def)
  ultimately show ?thesis using assms(1) by (auto simp: fewer_sources_def) (auto simp: sources_def)
qed

lemma fewer_done: "fewer_sources p s s' \<Longrightarrow> fewer_sources p s (add_call kind pc s')"
  by (simp add: fewer_sources_def sources_def live_tokens_def)

lemma fewer_noticed: "fewer_sources p s (notify s)" "fewer_sources p s (restored s)"
  by (simp_all add: fewer_sources_def sources_def live_tokens_def notify_def restored_def)

lemma sources_idle: "idle s \<Longrightarrow> sources p s = set_option (ps_load p (d_file s)) \<union> (set_option (Option.bind (d_tokens s) tk_refresh_token) - {[]})"
  by (simp add: sources_def idle_live)

context token_persistence
begin

lemma settle_failure_empties:
  assumes "running rt pc s" "d_inflight s = Some n"
  shows "d_tokens (settle p n (Inl ()) s) = None" "ps_load p (d_file (settle p n (Inl ()) s)) = None"
    "sources p (settle p n (Inl ()) s) = {}"
proof -
  have "waiting n s \<noteq> []" using assms by (auto simp: running_def running_after_def awaited_waiting [symmetric])
  note f = settle_failure [OF this, where p = p]
  show "d_tokens (settle p n (Inl ()) s) = None" "ps_load p (d_file (settle p n (Inl ()) s)) = None"
    using f(1,2) load_clear by auto
  then show "sources p (settle p n (Inl ()) s) = {}"
    by (simp add: sources_idle [OF idle_settle [OF assms]])
qed

lemma fewer_clear: "fewer_sources p s (clear_session p s)"
  by (auto simp: fewer_sources_def sources_def live_tokens_def clear_session_def load_clear)

lemma load_persist:
  "persist p w t f = Some f' \<Longrightarrow> truthy (tk_refresh_token t) \<Longrightarrow> set_option (ps_load p f') \<subseteq> set_option (tk_refresh_token t)"
  using load_save by (cases "tk_refresh_token t") (fastforce simp: persist_def)+

lemma tokens_ok_end_grant:
  assumes ok: "tokens_ok p s" and run: "running rt R_Grant s" "d_inflight s = Some n" "d_refreshes s ! n = (rt, R_Grant)"
    and new: "truthy (tr_refresh_token response) \<longrightarrow> the (tr_refresh_token response) \<notin> set (d_issued s) \<or> the (tr_refresh_token response) = rt"
  shows "tokens_ok p (end_grant p n response writes s)"
proof (cases "d_lost (end_grant p n response writes s)")
  case False
  define t where "t = refreshTokens (d_now s) rt response"
  define r where "r = the (tk_refresh_token t)"
  define s' where "s' = s\<lparr>d_issued := r # d_issued s, d_replaced := (if r = rt then d_replaced s else rt # d_replaced s)\<rparr>"
  define q where "q = setTokens p writes t s'"
  have e: "end_grant p n response writes s = settle p n (if snd q then Inr t else Inl ()) (fst q)"
    by (simp add: end_grant_def Let_def run(3) t_def r_def s'_def q_def)
  have idle: "idle (end_grant p n response writes s)" by (rule idle_end_grant [OF run(1,2)])
  have saved: "snd q" "\<not> d_lost s"
    using False setTokens_refreshes(10) [of p writes t s'] by (auto simp: e settle_frame q_def s'_def split: if_splits)
  have old: "rt \<notin> set (d_replaced s)" "rt \<in> set (d_issued s)" "rt \<noteq> []"
    using tokens_okD(1) [OF ok saved(2) running_source [OF run(1)]] by simp_all
  have tok: "tk_refresh_token t = Some r" "r \<noteq> []" "r = rt \<or> r \<notin> set (d_issued s)"
    using new old(3) by (auto simp: t_def r_def refreshTokens_def tokensFromResponse_def Let_def truthy_def split: if_splits)
  have "persist p writes t (d_file s) = Some (d_file (fst q))"
    using setTokens_refreshes(11) [of p writes t s'] saved(1) by (simp add: q_def s'_def)
  then have "set_option (ps_load p (d_file (fst q))) \<subseteq> {r}" using load_persist tok by fastforce
  then have "sources p (end_grant p n response writes s) \<subseteq> {r}"
    using saved(1) tok by (auto simp: sources_idle [OF idle]) (auto simp: e settle_success q_def setTokens_refreshes)
  moreover have "d_issued (end_grant p n response writes s) = r # d_issued s"
    "d_replaced (end_grant p n response writes s) = (if r = rt then d_replaced s else rt # d_replaced s)"
    by (simp_all add: e settle_frame q_def setTokens_refreshes s'_def)
  ultimately show ?thesis using tok old tokens_okD(2) [OF ok saved(2)] by (auto simp: tokens_ok_def)
qed (simp add: tokens_ok_def)

lemma tokens_ok_adopt:
  assumes ok: "tokens_ok p s" and new: "truthy (tk_refresh_token t) \<longrightarrow> the (tk_refresh_token t) \<notin> set (d_issued s)"
  shows "tokens_ok p (adopt_login p writes t s)"
proof (cases "d_lost (adopt_login p writes t s)")
  case False
  define s' where "s' = s\<lparr>d_issued := (if truthy (tk_refresh_token t) then the (tk_refresh_token t) # d_issued s else d_issued s)\<rparr>"
  define q where "q = setTokens p writes t s'"
  have e: "adopt_login p writes t s = (if snd q then notify (fst q) else fst q)"
    by (simp add: adopt_login_def Let_def s'_def q_def split_def)
  have saved: "snd q" "\<not> d_lost s"
    using False setTokens_refreshes(10) [of p writes t s'] by (auto simp: e q_def s'_def notify_def split: if_splits)
  then have a: "adopt_login p writes t s = notify (fst q)" by (simp add: e)
  have wrote: "persist p writes t (d_file s) = Some (d_file (fst q))"
    using setTokens_refreshes(11) [of p writes t s'] saved(1) by (simp add: q_def s'_def)
  have "set_option (ps_load p (d_file (fst q))) \<subseteq> sources p s \<union> (set_option (tk_refresh_token t) - {[]})"
  proof (cases "truthy (tk_refresh_token t)")
    case True
    then show ?thesis using load_persist [OF wrote] by (auto simp: truthy_def)
  next
    case False
    then show ?thesis using wrote by (auto simp: persist_def sources_def)
  qed
  moreover have "live_tokens (fst q) = live_tokens s" "d_tokens (fst q) = Some t"
    by (simp_all add: live_tokens_def q_def setTokens_refreshes s'_def)
  moreover have "live_tokens s \<subseteq> sources p s" by (auto simp: sources_def)
  ultimately have "sources p (adopt_login p writes t s) \<subseteq> sources p s \<union> (set_option (tk_refresh_token t) - {[]})"
    by (auto simp: a sources_def notify_def live_tokens_def)
  moreover have "d_issued (adopt_login p writes t s) = d_issued s'" "d_replaced (adopt_login p writes t s) = d_replaced s"
    by (simp_all add: a notify_def q_def setTokens_refreshes s'_def)
  ultimately show ?thesis using new tokens_okD [OF ok saved(2)]
    by (fastforce simp: tokens_ok_def s'_def truthy_def)
qed (simp add: tokens_ok_def)

end

lemma live_granting: "live_tokens (s\<lparr>d_refreshes := (d_refreshes s)[n := (rt, R_Grant)]\<rparr>) \<subseteq> insert rt (live_tokens s)"
  using set_update_subset_insert [of "d_refreshes s" n "(rt, R_Grant)"] by (force simp: live_tokens_def)

lemma fewer_relaunch: "fewer_sources p s (relaunch s)"
  by (auto simp: fewer_sources_def sources_def live_tokens_def relaunch_def desktop_start_def)

lemma fewer_trans: "fewer_sources p s t \<Longrightarrow> fewer_sources p t u \<Longrightarrow> fewer_sources p s u"
  by (auto simp: fewer_sources_def)

lemma fewer_ask: "fewer_sources p s (getAccessToken p s)"
proof (cases "\<exists>t. d_tokens s = Some t \<and> isTokenFresh (d_now s) t")
  case True
  then show ?thesis by (auto simp: getAccessToken_def intro: fewer_done)
next
  case False
  then have "(case d_tokens s of Some t \<Rightarrow> isTokenFresh (d_now s) t | None \<Rightarrow> False) = False" by (auto split: option.splits)
  then have e: "getAccessToken p s = with_token (stored_token p s) (\<lambda>rt. let (s', n) = start_refresh rt s in add_call Get_token (C_Await n) s')
        (add_call Get_token (C_Done Not_signed_in) (if isAuthenticated s then s else notify s))"
    by (simp add: getAccessToken_def)
  show ?thesis unfolding e
    by (rule with_token_cases) (auto intro: fewer_done [OF fewer_noticed(1)] fewer_done [OF fewer_refl] fewer_start stored_token_source split: prod.split)
qed

lemma fewer_boot: "fewer_sources p s (restoreSession p s)"
proof (cases "isAuthenticated s")
  case True
  then show ?thesis by (simp add: restoreSession_def fewer_done fewer_noticed)
next
  case False
  then have e: "restoreSession p s = with_token (ps_load p (d_file s))
        (\<lambda>rt. let (s', n) = start_refresh rt s in add_call Restore_session (C_Await n) s')
        (add_call Restore_session (C_Done (Restored False)) (restored s))"
    by (simp add: restoreSession_def)
  show ?thesis unfolding e
    by (rule with_token_cases) (auto intro: fewer_done [OF fewer_noticed(2)] fewer_start load_source split: prod.split)
qed

context token_persistence
begin

lemma tokens_ok_step:
  assumes run: "refreshes_ok s" and ok: "tokens_ok p s" and fresh: "fresh_tokens e s" and step: "desktop_step p e s = Some s'"
  shows "tokens_ok p s'"
proof (cases e)
  case (Tick t)
  then have "fewer_sources p s s'" using step by (auto simp: desktop_step_def fewer_sources_def sources_def live_tokens_def)
  with ok show ?thesis by (rule tokens_ok_mild)
next
  case (Logged_in tokens writes)
  then have "s' = adopt_login p writes tokens s" "truthy (tk_refresh_token tokens) \<longrightarrow> the (tk_refresh_token tokens) \<notin> set (d_issued s)"
    using step fresh by (simp_all add: desktop_step_def fresh_tokens_def)
  then show ?thesis using tokens_ok_adopt [OF ok] by blast
next
  case Log_out
  then have "s' = notify (clear_session p s)" using step by (simp add: desktop_step_def logout_def)
  then show ?thesis using tokens_ok_mild [OF ok fewer_trans [OF fewer_clear fewer_noticed(1)]] by simp
next
  case (Network n r)
  then have r: "refresh_step p n r s = Some s'" using step by (simp add: desktop_step_def)
  have failed: "tokens_ok p (settle p n (Inl ()) s)" if "running rt pc s" "d_inflight s = Some n" for rt pc
    by (rule tokens_ok_mild [OF ok]) (simp add: fewer_sources_def settle_frame settle_failure_empties [OF that])
  show ?thesis using run r
  proof (cases rule: refresh_stepE)
    case (2 rt)
    have "rt \<in> live_tokens s" using running_live [OF 2(1)] by simp
    then have "fewer_sources p s s'" using live_granting [of s n rt] unfolding 2(4) by (auto simp: fewer_sources_def sources_def)
    with ok show ?thesis by (rule tokens_ok_mild)
  next
    case (3 rt response writes)
    then show ?thesis using tokens_ok_end_grant [OF ok 3(1-3)] fresh Network by (simp add: fresh_tokens_def)
  next
    case (4 rt)
    let ?u = "unheard rt r s"
    have u: "running rt R_Grant ?u" "d_inflight ?u = Some n" using 4(1,2) by (simp_all cong: running_cong)
    have none: "sources p s' = {}" unfolding 4(4) by (rule settle_failure_empties(3) [OF u])
    show ?thesis
    proof (cases "d_lost s")
      case False
      have "rt \<in> set (d_issued s)" using tokens_okD(1) [OF ok False running_source [OF 4(1)]] by simp
      then have "set (d_replaced ?u) \<subseteq> set (d_issued ?u)"
        using tokens_okD(2) [OF ok False] by (auto simp: unheard_def Let_def split: network_reply.split)
      then show ?thesis using none by (simp add: tokens_ok_def) (simp add: 4(4) settle_frame)
    qed (simp add: tokens_ok_def 4(4) settle_frame)
  qed (use failed in auto)
qed (use step in \<open>auto simp: desktop_step_def intro: tokens_ok_mild [OF ok] fewer_ask fewer_boot fewer_relaunch\<close>)

lemma desktop_ok_run:
  "desktop_run p s t \<Longrightarrow> refreshes_ok s \<and> tokens_ok p s \<Longrightarrow> refreshes_ok t \<and> tokens_ok p t"
  by (induction rule: desktop_run.induct) (blast intro: refreshes_ok_step tokens_ok_step)+

lemma desktop_ok_start: "ps_load p f = None \<Longrightarrow> refreshes_ok (desktop_start f) \<and> tokens_ok p (desktop_start f)"
  by (simp add: desktop_start_def refreshes_ok_def idle_def tokens_ok_def sources_def live_tokens_def)

lemma no_replaced_token:
  assumes "desktop_run p (desktop_start f) s" "ps_load p f = None" "\<not> d_lost s"
  shows "(r, R_Grant) \<in> set (d_refreshes s) \<Longrightarrow> r \<notin> set (d_replaced s)"
    and "length (filter (\<lambda>x. snd x \<noteq> R_Settled) (d_refreshes s)) \<le> 1"
proof -
  have ok: "refreshes_ok s" "tokens_ok p s" using desktop_ok_run [OF assms(1) desktop_ok_start [OF assms(2)]] by simp_all
  show "r \<notin> set (d_replaced s)" if "(r, R_Grant) \<in> set (d_refreshes s)"
  proof -
    have "r \<in> live_tokens s" using that by (force simp: live_tokens_def)
    then show ?thesis using tokens_okD(1) [OF ok(2) assms(3)] by (simp add: sources_def)
  qed
  show "length (filter (\<lambda>x. snd x \<noteq> R_Settled) (d_refreshes s)) \<le> 1"
    using ok(1) by (auto simp: refreshes_ok_def idle_def running_def running_after_def filter_False)
qed

text \<open>How a refresh ends: for everybody in the same way.\<close>

lemma settled_calls:
  assumes "running rt pc s" "d_inflight s = Some n" "k < length (d_calls s)" "snd (d_calls s ! k) = C_Await m"
  shows "d_calls (settle p n res s) ! k = (fst (d_calls s ! k), C_Done (answer_of res (fst (d_calls s ! k))))"
proof -
  have "awaited m (d_calls s)" using assms(3,4) by (auto simp: awaited_nth)
  then have "m = n" using assms(1,2) by (auto simp: running_def running_after_def)
  then show ?thesis using settle_calls [OF assms(3)] assms(4) by simp
qed

end

definition follows :: "'f persistence \<Rightarrow> 'f desktop \<Rightarrow> bool" where
  "follows p s \<longleftrightarrow> d_lost s \<or>
     (\<forall>t. d_tokens s = Some t \<longrightarrow> truthy (tk_refresh_token t) \<longrightarrow> ps_load p (d_file s) = tk_refresh_token t)"

lemma kept_start: "d_tokens (fst (start_refresh rt s)) = d_tokens s" "d_file (fst (start_refresh rt s)) = d_file s"
  "d_lost (fst (start_refresh rt s)) = d_lost s" "d_ready (fst (start_refresh rt s)) = d_ready s"
  "d_notices (fst (start_refresh rt s)) = d_notices s"
  by (simp_all add: start_refresh_def Let_def split: option.split)

lemma kept_ask: "d_tokens (getAccessToken p s) = d_tokens s" "d_file (getAccessToken p s) = d_file s"
  "d_lost (getAccessToken p s) = d_lost s" "d_ready (getAccessToken p s) = d_ready s"
  by (auto simp: getAccessToken_def with_token_def notify_def split_def kept_start Let_def)

lemma kept_boot: "d_tokens (restoreSession p s) = d_tokens s" "d_file (restoreSession p s) = d_file s"
  "d_lost (restoreSession p s) = d_lost s"
  "(d_ready (restoreSession p s) \<longleftrightarrow> d_ready s) \<or> d_notices s < d_notices (restoreSession p s)"
  by (auto simp: restoreSession_def with_token_def notify_def restored_def split_def kept_start Let_def)

lemma follows_keep:
  "follows p s \<Longrightarrow> (d_lost s \<Longrightarrow> d_lost s') \<Longrightarrow> (d_tokens s' = d_tokens s \<and> d_file s' = d_file s) \<or> d_tokens s' = None \<Longrightarrow> follows p s'"
  by (auto simp: follows_def)

context durable_persistence
begin

lemma follows_setTokens:
  assumes "setTokens p writes t s = (s', returned)"
  shows "follows p s'" "\<not> returned \<Longrightarrow> d_lost s'"
  using assms load_saved
  by (auto simp: setTokens_def persist_def follows_def truthy_def split: option.splits if_splits)

lemma follows_settle:
  assumes "follows p s" "running rt pc s" "d_inflight s = Some n"
  shows "follows p (settle p n res s)"
proof (cases res)
  case (Inl u)
  then show ?thesis using settle_failure_empties [OF assms(2,3)] by (simp add: follows_def)
next
  case (Inr t)
  then show ?thesis using assms(1) by (simp add: follows_def settle_success settle_frame)
qed

lemma follows_step:
  assumes run: "refreshes_ok s" and ok: "follows p s" and step: "desktop_step p e s = Some s'"
  shows "follows p s'"
proof (cases e)
  case (Logged_in tokens writes)
  obtain u returned where u: "setTokens p writes tokens
      (s\<lparr>d_issued := (if truthy (tk_refresh_token tokens) then the (tk_refresh_token tokens) # d_issued s else d_issued s)\<rparr>) = (u, returned)"
    by fastforce
  have "s' = (if returned then notify u else u)" using step Logged_in u by (simp add: desktop_step_def adopt_login_def Let_def)
  then show ?thesis using follows_setTokens [OF u] by (simp add: follows_def notify_def)
next
  case (Network n r)
  then have r: "refresh_step p n r s = Some s'" using step by (simp add: desktop_step_def)
  show ?thesis using run r
  proof (cases rule: refresh_stepE)
    case (2 rt)
    show ?thesis using follows_keep [OF ok, of s'] 2 by simp
  next
    case (3 rt response writes)
    show ?thesis unfolding 3 end_grant_def Let_def
      by (rule follows_settle [where rt = rt and pc = R_Grant])
        (use 3 follows_setTokens in \<open>simp_all add: setTokens_refreshes split_def prod_eq_iff cong: running_cong\<close>)
  next
    case (4 rt)
    show ?thesis unfolding 4(4)
      by (rule follows_settle [where rt = rt and pc = R_Grant]) (use 4 ok in \<open>simp_all add: follows_def cong: running_cong\<close>)
  qed (use follows_settle [OF ok] in auto)
qed (use step follows_keep [OF ok] in \<open>auto simp: desktop_step_def kept_ask kept_boot logout_def clear_session_def notify_def relaunch_def desktop_start_def\<close>)

lemma follows_run: "desktop_run p s t \<Longrightarrow> refreshes_ok s \<and> follows p s \<Longrightarrow> refreshes_ok t \<and> follows p t"
  by (induction rule: desktop_run.induct) (blast intro: refreshes_ok_step follows_step)+

end

section \<open>What the desktop session promises\<close>

text \<open>Each call that waits in \<open>s\<close> has its answer in \<open>s'\<close>.\<close>

definition waiters_got :: "(call_kind \<Rightarrow> call_result) \<Rightarrow> 'f desktop \<Rightarrow> 'f desktop \<Rightarrow> bool" where
  "waiters_got answer s s' \<longleftrightarrow> (\<forall>k < length (d_calls s). \<forall>n. snd (d_calls s ! k) = C_Await n \<longrightarrow>
     d_calls s' ! k = (fst (d_calls s ! k), C_Done (answer (fst (d_calls s ! k)))))"


text \<open>
  When a refresh ends, everybody who waits for it gets the same answer: either the new tokens
  are the tokens of the session, the file holds their refresh token, every waiting call for a
  token returns their access token and a restore reports success; or the session is signed out,
  in memory and in the file, the windows are told, and every waiting call fails.
\<close>

theorem refresh_ends_alike:
  assumes "keychain m" and run: "desktop_run (createTokenStore m) (desktop_start None) s"
    and step: "desktop_step (createTokenStore m) (Network n r) s = Some s'" and over: "d_inflight s' = None"
  shows "(\<exists>t. d_tokens s' = Some t \<and> (encryptionUsable m \<longrightarrow> truthy (tk_refresh_token t) \<longrightarrow> store_load m (d_file s') = tk_refresh_token t)
        \<and> waiters_got (\<lambda>kind. case kind of Get_token \<Rightarrow> Token (tk_access_token t) | Restore_session \<Rightarrow> Restored True) s s')
    \<or> (d_tokens s' = None \<and> store_load m (d_file s') = None \<and> d_notices s < d_notices s'
        \<and> waiters_got (\<lambda>kind. case kind of Get_token \<Rightarrow> Refresh_failed | Restore_session \<Rightarrow> Restored False) s s')"
proof -
  let ?p = "createTokenStore m"
  note store = token_store [OF assms(1)]
  have ok: "refreshes_ok s" using token_persistence.desktop_ok_run [OF store run token_persistence.desktop_ok_start [OF store]]
    by (simp add: store_simps)
  have r: "refresh_step ?p n r s = Some s'" using step by (simp add: desktop_step_def)
  have failed: "d_tokens (settle ?p n (Inl ()) u) = None \<and> store_load m (d_file (settle ?p n (Inl ()) u)) = None
      \<and> d_notices u < d_notices (settle ?p n (Inl ()) u)
      \<and> waiters_got (\<lambda>kind. case kind of Get_token \<Rightarrow> Refresh_failed | Restore_session \<Rightarrow> Restored False) u (settle ?p n (Inl ()) u)"
    if "running rt pc u" "d_inflight u = Some n" for rt pc u
  proof -
    have "waiting n u \<noteq> []" using that by (auto simp: running_def running_after_def awaited_waiting [symmetric])
    then show ?thesis
      using token_persistence.settle_failure_empties [OF store that] settle_failure(3) token_persistence.settled_calls [OF store that]
      by (auto simp: waiters_got_def answer_of_def createTokenStore_def split: call_kind.split)
  qed
  show ?thesis using ok r
  proof (cases rule: refresh_stepE)
    case (2 rt)
    then show ?thesis using over by simp
  next
    case (3 rt response writes)
    define t where "t = refreshTokens (d_now s) rt response"
    define q where "q = setTokens ?p writes t (s\<lparr>d_issued := the (tk_refresh_token t) # d_issued s,
       d_replaced := (if the (tk_refresh_token t) = rt then d_replaced s else rt # d_replaced s)\<rparr>)"
    have q: "d_calls (fst q) = d_calls s" "d_tokens (fst q) = Some t" "d_notices (fst q) = d_notices s"
      "running rt R_Grant (fst q)" "d_inflight (fst q) = Some n"
      using 3(1,2) by (simp_all add: q_def setTokens_refreshes cong: running_cong)
    have s': "s' = settle ?p n (if snd q then Inr t else Inl ()) (fst q)"
      using 3(3,5) by (simp add: end_grant_def Let_def q_def t_def)
    show ?thesis
    proof (cases "snd q")
      case True
      have wrote: "persist ?p writes t (d_file s) = Some (d_file (fst q))"
        using setTokens_refreshes(11) True by (fastforce simp: q_def)
      have "store_load m (d_file (fst q)) = tk_refresh_token t" if u: "encryptionUsable m" "truthy (tk_refresh_token t)"
      proof -
        from u(2) obtain r where r: "tk_refresh_token t = Some r" by (auto simp: truthy_def)
        then have "ps_save ?p writes r (d_file s) = Some (d_file (fst q))" using wrote u(2) by (simp add: persist_def)
        from durable_persistence.load_saved [OF token_store_durable [OF assms(1) u(1)] this] r
        show ?thesis by (simp add: createTokenStore_def)
      qed
      then show ?thesis using True q token_persistence.settled_calls [OF store q(4,5)]
        by (auto simp: waiters_got_def s' settle_success answer_of_def split: call_kind.split)
    next
      case False
      then show ?thesis using failed [OF q(4,5)] q by (simp add: s' waiters_got_def)
    qed
  next
    case (1 rt)
    show ?thesis using failed [OF 1(1,2)] unfolding 1(4) by blast
  next
    case (4 rt)
    have "running rt R_Grant (unheard rt r s)" using 4(1) by (simp cong: running_cong)
    from failed [OF this] 4(2) show ?thesis by (simp add: 4(4) waiters_got_def)
  qed
qed

fun desktop_exec :: "'f persistence \<Rightarrow> desktop_event list \<Rightarrow> 'f desktop \<Rightarrow> 'f desktop option" where
  "desktop_exec p [] s = Some s"
| "desktop_exec p (e # es) s = Option.bind (desktop_step p e s) (desktop_exec p es)"

text \<open>
  A restart of the program goes on with the newest refresh token: the boot presents the refresh
  token of the tokens that were in memory, and when the provider grants it the user is signed in
  with the new tokens.
\<close>

theorem restart_resumes_session:
  assumes "keychain m" and "encryptionUsable m" and run: "desktop_run (createTokenStore m) (desktop_start None) s"
    and "\<not> d_lost s" and t: "d_tokens s = Some t" "truthy (tk_refresh_token t)"
  shows "\<exists>u. desktop_exec (createTokenStore m) [Relaunch, Boot] s = Some u
      \<and> d_refreshes u = [(the (tk_refresh_token t), R_Config)] \<and> d_calls u = [(Restore_session, C_Await 0)]
      \<and> (\<exists>v. desktop_exec (createTokenStore m) [Network 0 Arrived, Network 0 (Token_set response True)] u = Some v
          \<and> d_tokens v = Some (refreshTokens (d_now s) (the (tk_refresh_token t)) response)
          \<and> d_calls v = [(Restore_session, C_Done (Restored True))] \<and> d_ready v)"
proof -
  obtain r where r: "tk_refresh_token t = Some r" "r \<noteq> []" using t(2) by (auto simp: truthy_def)
  note store = token_store_durable [OF assms(1,2)]
  have "follows (createTokenStore m) (desktop_start None)" by (simp add: follows_def desktop_start_def)
  moreover have "refreshes_ok (desktop_start (None :: token_file))" by (simp add: refreshes_ok_def idle_def desktop_start_def)
  ultimately have "follows (createTokenStore m) s" using durable_persistence.follows_run [OF store run] by blast
  then have "store_load m (d_file s) = Some r" using t r assms(4) by (simp add: follows_def createTokenStore_def)
  moreover obtain c where "d_file s = Some c" using calculation by (auto simp: store_load_def split: option.splits)
  ultimately show ?thesis using r assms(2)
    by (simp add: desktop_step_def relaunch_def desktop_start_def restoreSession_def isAuthenticated_def createTokenStore_def
        with_token_def start_refresh_def add_call_def refresh_step_def end_grant_def setTokens_def persist_def store_save_def
        settle_def waiting_def end_call_def restored_def notify_def Let_def refreshTokens_token)
qed

text \<open>
  Every call ends: while a call waits, a refresh is under way whose next answer, whatever it is,
  ends the call or makes the grant the next answer; and the one after that ends the call.
\<close>

theorem desktop_calls_end:
  assumes run: "desktop_run (createTokenStore m) (desktop_start None) s" and "keychain m"
    and k: "k < length (d_calls s)" "snd (d_calls s ! k) = C_Await n"
  shows "\<exists>s'. desktop_step (createTokenStore m) (Network n r) s = Some s'
    \<and> ((\<exists>a. snd (d_calls s' ! k) = C_Done a)
       \<or> (\<forall>r'. \<exists>s'' a. desktop_step (createTokenStore m) (Network n r') s' = Some s'' \<and> snd (d_calls s'' ! k) = C_Done a))"
proof -
  let ?p = "createTokenStore m"
  note store = token_store [OF assms(2)]
  have ok: "refreshes_ok s" using token_persistence.desktop_ok_run [OF store run token_persistence.desktop_ok_start [OF store]]
    by (simp add: store_simps)
  have aw: "awaited n (d_calls s)" using k by (auto simp: awaited_nth)
  have granting: "\<exists>u' a. refresh_step ?p n r' u = Some u' \<and> snd (d_calls u' ! k) = C_Done a"
    if g: "running rt R_Grant u" "d_inflight u = Some n" "d_calls u = d_calls s" for r' rt u
  proof -
    obtain old where old: "running_after old rt R_Grant u" using g(1) by (auto simp: running_def)
    have at: "n < length (d_refreshes u)" "d_refreshes u ! n = (rt, R_Grant)" using old g(2) by (auto simp: running_after_def)
    have settled: "snd (d_calls (settle ?p n res v) ! k) = C_Done (answer_of res (fst (d_calls s ! k)))"
      if "d_calls v = d_calls s" for res v
      using settle_calls [of k v ?p n res] k that by simp
    show ?thesis
    proof (cases r')
      case (Token_set response writes)
      then show ?thesis using at settled g(3) by (simp add: refresh_step_def end_grant_def Let_def setTokens_refreshes)
    qed (use at settled that(3) in \<open>simp_all add: refresh_step_def\<close>)
  qed
  consider rt where "running rt R_Config s" | rt where "running rt R_Grant s"
    using ok aw by (auto simp: refreshes_ok_def idle_def)
  then show ?thesis
  proof cases
    case (1 rt)
    obtain old where old: "running_after old rt R_Config s" using 1 by (auto simp: running_def)
    then have at: "d_inflight s = Some n" "n < length (d_refreshes s)" "d_refreshes s ! n = (rt, R_Config)"
      using aw by (auto simp: running_after_def)
    show ?thesis
    proof (cases "r = Broken")
      case True
      then show ?thesis using at settle_calls [OF k(1), of ?p n "Inl ()"] k(2) by (simp add: desktop_step_def refresh_step_def)
    next
      case False
      then show ?thesis using at granting [OF running_granting [OF 1 at(1)]] by (simp add: desktop_step_def refresh_step_def)
    qed
  next
    case (2 rt)
    then have "d_inflight s = Some n" using aw by (auto simp: running_def running_after_def)
    from granting [OF 2 this refl, of r] show ?thesis unfolding desktop_step_def by auto
  qed
qed

section \<open>What is announced, and what is not\<close>

lemma store_writes: "ps_save (createTokenStore m) True t f \<noteq> None"
  by (simp add: store_simps)

lemma getUser_eqI: "d_tokens s' = d_tokens s \<Longrightarrow> d_ready s' = d_ready s \<Longrightarrow> getAuthState decode s' = getAuthState decode s"
  by (simp add: getAuthState_def getUser_def)

lemma getAuthState_frame [simp]:
  "getAuthState decode (s\<lparr>d_refreshes := x\<rparr>) = getAuthState decode s" "getAuthState decode (s\<lparr>d_now := t\<rparr>) = getAuthState decode s"
  by (rule getUser_eqI; simp)+

lemma change_is_noticed:
  assumes step: "desktop_step (createTokenStore m) e s = Some s'" and change: "getAuthState decode s' \<noteq> getAuthState decode s"
    and e: "e \<noteq> Relaunch" "\<forall>n response writes. e \<noteq> Network n (Token_set response writes)" "\<forall>t. e \<noteq> Logged_in t False"
  shows "d_notices s < d_notices s'"
proof -
  let ?p = "createTokenStore m"
  have fold_notices: "d_notices s < d_notices (fold (end_call ?p res) ks u)"
    if "d_notices u = d_notices s" "d_tokens u = d_tokens s" "d_ready u = d_ready s"
      "getAuthState decode (fold (end_call ?p res) ks u) \<noteq> getAuthState decode u" for res ks and u
    using that
  proof (induction ks arbitrary: u)
    case (Cons k ks)
    show ?case
    proof (cases "d_notices (end_call ?p res k u) = d_notices u")
      case True
      then have "d_tokens (end_call ?p res k u) = d_tokens u \<and> d_ready (end_call ?p res k u) = d_ready u"
        by (cases "fst (d_calls u ! k)"; cases res) (auto simp: end_call_def notify_def restored_def clear_session_def Let_def)
      then show ?thesis using Cons True getUser_eqI [of "end_call ?p res k u" u decode] by simp
    next
      case False
      then have "d_notices s < d_notices (end_call ?p res k u)" using end_call_fields(4) [of u ?p res k] Cons.prems(1) by simp
      then show ?thesis using fold_end_call_notices less_le_trans by fastforce
    qed
  qed simp
  have settled: "d_notices s < d_notices (settle ?p n res s)" if "getAuthState decode (settle ?p n res s) \<noteq> getAuthState decode s" for n res
    using fold_notices [of "ended n s" res "rotate1 (waiting n s)"] that getUser_eqI [of "ended n s" s decode]
    unfolding settle_eq by (simp add: ended_def)
  show ?thesis
  proof (cases e)
    case Ask_token
    then have "s' = getAccessToken ?p s" using step by (simp add: desktop_step_def)
    then show ?thesis using change getUser_eqI [OF kept_ask(1,4)] by metis
  next
    case Boot
    then have "s' = restoreSession ?p s" using step by (simp add: desktop_step_def)
    then show ?thesis using change getUser_eqI [OF kept_boot(1)] kept_boot(4) by metis
  next
    case (Logged_in t writes)
    then show ?thesis using step e(3)
      by (cases writes) (auto simp: desktop_step_def adopt_login_def Let_def notify_def setTokens_def persist_def store_writes split: option.splits if_splits)
  next
    case (Network n r)
    have unheard: "d_notices s < d_notices (settle ?p n (Inl ()) (unheard rt r s))"
      if "getAuthState decode (settle ?p n (Inl ()) (unheard rt r s)) \<noteq> getAuthState decode s" for rt
      using fold_notices [of "ended n (unheard rt r s)" "Inl ()" "rotate1 (waiting n (unheard rt r s))"] that
        getUser_eqI [of "ended n (unheard rt r s)" s decode]
      unfolding settle_eq by (simp add: ended_def)
    show ?thesis using Network step settled unheard change e(2) getUser_eqI
      by (auto simp: desktop_step_def refresh_step_def split: refresh_pc.splits network_reply.splits if_splits prod.splits)
  qed (use step change e(1) getUser_eqI in \<open>auto simp: desktop_step_def logout_def notify_def clear_session_def\<close>)
qed

text \<open>
  Whatever changes the state that the windows show is announced to them: only the start of the
  program, the tokens of a refresh and a login whose tokens could not be written change it silently.
\<close>

theorem changes_are_announced:
  assumes step: "desktop_step (createTokenStore m) e s = Some s'" and change: "getAuthState decode s' \<noteq> getAuthState decode s"
    and e: "e \<noteq> Relaunch" "\<forall>n response writes. e \<noteq> Network n (Token_set response writes)" "\<forall>t. e \<noteq> Logged_in t False"
  shows "d_notices s < d_notices s'"
  using change_is_noticed [OF assms] .

section \<open>Runs\<close>

fun desktop_allowed :: "'f persistence \<Rightarrow> desktop_event list \<Rightarrow> 'f desktop \<Rightarrow> bool" where
  "desktop_allowed p [] s \<longleftrightarrow> True"
| "desktop_allowed p (e # es) s \<longleftrightarrow> fresh_tokens e s \<and> (case desktop_step p e s of None \<Rightarrow> False | Some t \<Rightarrow> desktop_allowed p es t)"

lemma desktop_run_front: "desktop_run p t u \<Longrightarrow> desktop_run p s t \<Longrightarrow> desktop_run p s u"
  by (induction rule: desktop_run.induct) (auto intro: desktop_next)

lemma desktop_exec_run: "desktop_exec p es s = Some t \<Longrightarrow> desktop_allowed p es s \<Longrightarrow> desktop_run p s t"
proof (induction es arbitrary: s)
  case (Cons e es)
  then obtain u where "fresh_tokens e s" "desktop_step p e s = Some u" "desktop_exec p es u = Some t" "desktop_allowed p es u"
    by (auto simp: bind_eq_Some_conv split: option.splits)
  then show ?case using Cons.IH desktop_run_front desktop_next [OF desktop_here] by blast
qed (simp add: desktop_here)

lemmas desktop_eval = desktop_start_def desktop_step_def fresh_tokens_def getAccessToken_def restoreSession_def stored_token_def
  with_token_def start_refresh_def add_call_def refresh_step_def end_grant_def setTokens_def persist_def store_simps
  settle_def waiting_def end_call_def restored_def notify_def clear_session_def logout_def adopt_login_def Let_def
  isTokenFresh_def EXPIRY_SKEW_MS_def refreshTokens_def tokensFromResponse_def isAuthenticated_def

text \<open>A computer whose system encrypts by a mark in front.\<close>

definition sample_os :: os where
  "sample_os = \<lparr>os_encryption = True, os_linux = True, os_backend = Some ''gnome_libsecret'',
     os_encrypt = (\<lambda>t. CHR ''!'' # t), os_decrypt = (\<lambda>c. Some (tl c))\<rparr>"

lemma sample_os_ok: "keychain sample_os" "encryptionUsable sample_os"
  by (simp_all add: sample_os_def keychain_def encryptionUsable_def)

interpretation sample_store: durable_persistence "createTokenStore sample_os"
  by (rule token_store_durable [OF sample_os_ok])

text \<open>Two calls find the tokens of a login stale; the grant is on its way.\<close>

definition asking_events :: "desktop_event list" where
  "asking_events = [Logged_in first_tokens True, Tick 50000, Ask_token, Ask_token, Network 0 Arrived]"

definition asking_state :: "token_file desktop" where
  "asking_state = \<lparr>d_now = 50000, d_tokens = Some first_tokens, d_file = Some ''!r1'',
     d_refreshes = [(''r1'', R_Grant)], d_inflight = Some 0,
     d_calls = [(Get_token, C_Await 0), (Get_token, C_Await 0)], d_ready = False, d_notices = 1,
     d_issued = [''r1''], d_replaced = [], d_lost = False\<rparr>"

lemma sample_usable: "encryptionUsable sample_os = True" "os_encrypt sample_os t = CHR ''!'' # t" "os_decrypt sample_os c = Some (tl c)"
  using sample_os_ok(2) by (simp_all add: sample_os_def)

lemma asking_run: "desktop_run (createTokenStore sample_os) (desktop_start None) asking_state"
  by (rule desktop_exec_run [of _ asking_events])
    (simp_all add: asking_events_def asking_state_def first_tokens_def desktop_eval sample_usable)

definition second_tokens :: session_tokens where
  "second_tokens = refreshTokens 50000 ''r1'' next_response"

definition granted_state :: "token_file desktop" where
  "granted_state = \<lparr>d_now = 50000, d_tokens = Some second_tokens, d_file = Some ''!r2'',
     d_refreshes = [(''r1'', R_Settled)], d_inflight = None,
     d_calls = [(Get_token, C_Done (Token ''a2'')), (Get_token, C_Done (Token ''a2''))], d_ready = False, d_notices = 1,
     d_issued = [''r2'', ''r1''], d_replaced = [''r1''], d_lost = False\<rparr>"

lemma granted_step: "desktop_step (createTokenStore sample_os) (Network 0 (Token_set next_response True)) asking_state = Some granted_state"
  by (simp add: asking_state_def granted_state_def second_tokens_def next_response_def first_tokens_def desktop_eval sample_usable)

lemma granted_run: "desktop_run (createTokenStore sample_os) (desktop_start None) granted_state"
  by (rule desktop_next [OF asking_run _ granted_step]) (simp add: fresh_tokens_def asking_state_def next_response_def)





theorem refresh_ends_alike_witness:
  "d_inflight granted_state = None \<and> (\<exists>t. d_tokens granted_state = Some t \<and> tk_access_token t = ''a2''
     \<and> store_load sample_os (d_file granted_state) = Some ''r2''
     \<and> waiters_got (\<lambda>kind. case kind of Get_token \<Rightarrow> Token ''a2'' | Restore_session \<Rightarrow> Restored True) asking_state granted_state)"
proof -
  have i: "d_inflight granted_state = None" and t: "d_tokens granted_state = Some second_tokens" by (simp_all add: granted_state_def)
  have tok: "tk_refresh_token second_tokens = Some ''r2''" "tk_access_token second_tokens = ''a2''"
    by (simp_all add: second_tokens_def next_response_def refreshTokens_def tokensFromResponse_def)
  show ?thesis using refresh_ends_alike [OF sample_os_ok(1) asking_run granted_step i] t i tok sample_os_ok(2) by auto
qed

theorem restart_resumes_session_witness:
  "\<exists>u. desktop_exec (createTokenStore sample_os) [Relaunch, Boot] granted_state = Some u \<and> d_refreshes u = [(''r2'', R_Config)]"
proof -
  have t: "d_tokens granted_state = Some second_tokens" "\<not> d_lost granted_state" by (simp_all add: granted_state_def)
  have "tk_refresh_token second_tokens = Some ''r2''"
    by (simp add: second_tokens_def next_response_def refreshTokens_def tokensFromResponse_def)
  then show ?thesis using restart_resumes_session [OF sample_os_ok granted_run t(2,1)] by auto
qed

theorem desktop_calls_end_witness:
  "\<exists>s' a. desktop_step (createTokenStore sample_os) (Network 0 Broken) asking_state = Some s' \<and> snd (d_calls s' ! 1) = C_Done a"
proof -
  have k: "1 < length (d_calls asking_state)" "snd (d_calls asking_state ! 1) = C_Await 0" by (simp_all add: asking_state_def)
  obtain s' where s': "desktop_step (createTokenStore sample_os) (Network 0 Broken) asking_state = Some s'"
    "(\<exists>a. snd (d_calls s' ! 1) = C_Done a)
       \<or> (\<forall>r'. \<exists>s'' a. desktop_step (createTokenStore sample_os) (Network 0 r') s' = Some s'' \<and> snd (d_calls s'' ! 1) = C_Done a)"
    using desktop_calls_end [OF asking_run sample_os_ok(1) k] by blast
  moreover have "desktop_step (createTokenStore sample_os) (Network 0 Broken) s' = None" using s'(1)
    by (auto simp: asking_state_def desktop_eval sample_usable)
  ultimately show ?thesis by (metis option.distinct(1))
qed

theorem changes_are_announced_witness:
  "\<exists>s'. desktop_step (createTokenStore sample_os) Log_out granted_state = Some s' \<and> d_notices granted_state < d_notices s'"
proof -
  define decode where "decode = (\<lambda>t :: string. Some \<lparr>oc_sub = Some ''ada'', oc_email = None, oc_name = None,
    oc_preferred_username = None, oc_picture = None\<rparr>)"
  obtain s' where s': "desktop_step (createTokenStore sample_os) Log_out granted_state = Some s'" by (simp add: desktop_step_def)
  moreover have "getAuthState decode s' \<noteq> getAuthState decode granted_state"
    using s' by (auto simp: desktop_eval granted_state_def getAuthState_def getUser_def decode_def second_tokens_def next_response_def)
  ultimately show ?thesis using changes_are_announced [of sample_os Log_out granted_state s' decode] by auto
qed

text \<open>
  A sign-out while the grant is on its way does not last: the answer signs the user in again, in
  memory and in the file, and nothing is announced after the sign-out.
\<close>

theorem sign_out_is_undone:
  assumes "keychain m" "encryptionUsable m" and run: "running rt R_Grant s" "d_inflight s = Some n" "rt \<noteq> []"
  shows "\<exists>u v. desktop_step (createTokenStore m) Log_out s = Some u \<and> desktop_step (createTokenStore m) (Network n (Token_set response True)) u = Some v
    \<and> d_tokens v = Some (refreshTokens (d_now s) rt response) \<and> store_load m (d_file v) \<noteq> None"
proof -
  let ?p = "createTokenStore m"
  obtain old where old: "running_after old rt R_Grant s" using run(1) by (auto simp: running_def)
  then have at: "n < length (d_refreshes s)" "d_refreshes s ! n = (rt, R_Grant)" using run(2) by (auto simp: running_after_def)
  define t where "t = refreshTokens (d_now s) rt response"
  obtain r where r: "tk_refresh_token t = Some r" "r \<noteq> []"
    using run(3) by (cases "truthy (tr_refresh_token response)") (auto simp: t_def refreshTokens_token truthy_def)
  have "desktop_step ?p (Network n (Token_set response True)) (logout ?p s) = Some (end_grant ?p n response True (logout ?p s))"
    using at by (simp add: desktop_step_def refresh_step_def logout_def notify_def clear_session_def)
  moreover have "d_tokens (end_grant ?p n response True (logout ?p s)) = Some t
      \<and> store_load m (d_file (end_grant ?p n response True (logout ?p s))) \<noteq> None"
    using at r assms(1,2)
    by (simp add: end_grant_def logout_def notify_def clear_session_def Let_def flip: t_def)
      (simp add: setTokens_def persist_def store_simps settle_success keychain_def)
  ultimately show ?thesis by (auto simp: desktop_step_def t_def)
qed

text \<open>A refresh that fails after a new login signs the new user out.\<close>

theorem old_refresh_ends_new_login:
  assumes "keychain m" and "running rt pc s" "d_inflight s = Some n" and "pc = R_Config \<or> pc = R_Grant"
  shows "\<exists>u v. desktop_step (createTokenStore m) (Logged_in t True) s = Some u \<and> d_tokens u = Some t
    \<and> desktop_step (createTokenStore m) (Network n Broken) u = Some v \<and> d_tokens v = None \<and> store_load m (d_file v) = None"
proof -
  let ?p = "createTokenStore m"
  define u where "u = adopt_login ?p True t s"
  have u: "d_refreshes u = d_refreshes s" "d_inflight u = d_inflight s" "d_calls u = d_calls s" "d_tokens u = Some t"
    by (simp_all add: u_def adopt_login_def Let_def split_def notify_def setTokens_refreshes)
  then have run: "running rt pc u" "d_inflight u = Some n" using assms(2,3) by (simp_all cong: running_cong)
  obtain old where "running_after old rt pc u" using run(1) by (auto simp: running_def)
  then have "n < length (d_refreshes u)" "d_refreshes u ! n = (rt, pc)" using run(2) by (auto simp: running_after_def)
  then have "desktop_step ?p (Network n Broken) u = Some (settle ?p n (Inl ()) u)"
    using assms(4) by (auto simp: desktop_step_def refresh_step_def)
  then show ?thesis using u(4) token_persistence.settle_failure_empties [OF token_store [OF assms(1)] run]
    by (auto simp: desktop_step_def u_def createTokenStore_def)
qed

text \<open>
  Stale tokens without a refresh token: every call fails, but the session stays signed in and
  nothing is announced.
\<close>

theorem stale_session_stays_signed_in:
  assumes "d_tokens s = Some t" "\<not> isTokenFresh (d_now s) t" "tk_refresh_token t = None" "d_file s = None"
  shows "getAccessToken (createTokenStore m) s = add_call Get_token (C_Done Not_signed_in) s"
    and "isAuthenticated (getAccessToken (createTokenStore m) s)"
  using assms by (simp_all add: getAccessToken_def stored_token_def store_simps with_token_def isAuthenticated_def)

text \<open>The second look at the tokens inside the refresh never finds them fresh.\<close>

theorem second_look_finds_nothing:
  assumes "keychain m" and run: "desktop_run (createTokenStore m) (desktop_start None) s"
  shows "x \<in> set (d_refreshes s) \<Longrightarrow> snd x \<noteq> R_Current t"
proof -
  have "refreshes_ok s" using token_persistence.desktop_ok_run [OF token_store [OF assms(1)] run
      token_persistence.desktop_ok_start [OF token_store [OF assms(1)]]] by (simp add: store_simps)
  then show "x \<in> set (d_refreshes s) \<Longrightarrow> snd x \<noteq> R_Current t"
    by (fastforce simp: refreshes_ok_def idle_def running_def running_after_def)
qed

end
