(* ===== verification/Url_Params.thy ===== *)
theory Url_Params
  imports Uri_Coding
begin

text \<open>
  \<open>searchParams.get\<close> of the platform: the pairs between \<open>&\<close>, plus signs as spaces, then percent-decoding. (Bytes
  that are no UTF-8 stay as they are; the code compares the values it reads with ASCII texts only.)
\<close>

fun percent_decode :: "string \<Rightarrow> string" where
  "percent_decode (c # a # b # s) =
     (case (c = CHR ''%'', hex_value a, hex_value b) of
        (True, Some x, Some y) \<Rightarrow> char_of (16 * x + y) # percent_decode s
      | _ \<Rightarrow> c # percent_decode (a # b # s))"
| "percent_decode s = s"

definition form_decode :: "string \<Rightarrow> string" where
  "form_decode s = percent_decode (map (\<lambda>c. if c = CHR ''+'' then CHR '' '' else c) s)"

definition form_pair :: "string \<Rightarrow> string \<times> string" where
  "form_pair s = (form_decode (takeWhile (\<lambda>c. c \<noteq> CHR ''='') s), form_decode (tl (dropWhile (\<lambda>c. c \<noteq> CHR ''='') s)))"

definition search_params :: "string \<Rightarrow> (string \<times> string) list" where
  "search_params search =
     map form_pair (filter (\<lambda>s. s \<noteq> []) (split_on (CHR ''&'') (if startsWith search ''?'' then tl search else search)))"

definition search_get :: "string \<Rightarrow> string \<Rightarrow> string option" where
  "search_get search name = map_of (search_params search) name"

end
