(* ===== verification/Desktop_Login.thy ===== *)
theory Desktop_Login
  imports Desktop_Session Web_Url Url_Params
begin

text \<open>
  The login of the desktop app (\<^verbatim>\<open>apps/electron/src/main/oidc-login-flow.ts\<close>) and the guard of its
  window (\<^verbatim>\<open>navigation-guard.ts\<close> and the handlers of \<^verbatim>\<open>main.ts\<close>).

  A login waits for the provider's configuration, for its loopback server, for the authorization
  request, for the redirect of the browser and for the exchange of the code. All of these answer
  in any order, or not at all, and a cancellation or the timer can come between any two of them.
  An event is one answer with the code it runs.

  It is proved that one login runs at a time and that each resolves once and leaves nothing
  behind, that a code is exchanged once at most, for the redirect that carries the state of the
  login, with the verifier of that login, and that a login that was started ends.
\<close>

section \<open>The state of the login\<close>

datatype transport = Loopback | Scheme

definition selectedTransport :: "string option \<Rightarrow> bool \<Rightarrow> transport" where
  "selectedTransport redirect_override packaged =
     (if redirect_override = Some ''scheme'' then Scheme
      else if redirect_override = Some ''loopback'' then Loopback
      else if packaged then Scheme else Loopback)"

definition LOOPBACK_PATH :: string where "LOOPBACK_PATH = ''/oidc/callback''"

datatype login_result = Login_ok session_tokens | Login_error string

text \<open>\<open>PendingFlow\<close>: the login it belongs to stands for its \<open>finish\<close> and its \<open>config\<close>.\<close>

record pending_flow =
  pf_login :: nat
  pf_state :: string
  pf_codeVerifier :: string
  pf_redirectUri :: string

text \<open>
  Where a login is. \<open>W_Config\<close>: waiting for the configuration. \<open>W_Listen\<close>: the server is not
  listening yet. \<open>W_Authorize\<close>: the authorization request is being built. \<open>W_Browser\<close>: the browser
  has it. \<open>W_Exchange\<close>: the code is being exchanged, for a redirect that is answered with a page or not. \<open>W_Over\<close>: nothing of it is pending.
\<close>

datatype login_pc = W_Config | W_Listen | W_Authorize string | W_Browser | W_Exchange bool | W_Over

record login =
  lg_pc :: login_pc
  lg_settled :: bool
  lg_timer :: bool
  lg_server :: bool
  lg_result :: "login_result option"

text \<open>
  The module: \<open>inProgress\<close>, \<open>current\<close>, the logins so far, and what happened: the exchanges that
  were started (the login, the query of the callback and the verifier), the pages the browser was
  given, and whether a request handler threw.
\<close>

datatype page = Done_page | Fail_page

record login_module =
  m_inProgress :: bool
  m_current :: "pending_flow option"
  m_logins :: "login list"
  m_refused :: nat
  m_exchanges :: "(nat \<times> string \<times> string) list"
  m_states :: "(nat \<times> string \<times> string) list"
  m_pages :: "(nat \<times> page) list"
  m_thrown :: bool

definition login_start :: login_module where
  "login_start = \<lparr>m_inProgress = False, m_current = None, m_logins = [], m_refused = 0, m_exchanges = [],
     m_states = [], m_pages = [], m_thrown = False\<rparr>"

definition set_login :: "nat \<Rightarrow> (login \<Rightarrow> login) \<Rightarrow> login_module \<Rightarrow> login_module" where
  "set_login n f s = s\<lparr>m_logins := (m_logins s)[n := f (m_logins s ! n)]\<rparr>"

text \<open>\<open>finish\<close>: the single way out, which works once.\<close>

definition finish :: "nat \<Rightarrow> login_result \<Rightarrow> login_module \<Rightarrow> login_module" where
  "finish n res s =
     (if lg_settled (m_logins s ! n) then s
      else set_login n (\<lambda>l. l\<lparr>lg_settled := True, lg_timer := False, lg_server := False, lg_result := Some res\<rparr>)
        (s\<lparr>m_current := None, m_inProgress := False\<rparr>))"

text \<open>\<open>runLogin\<close>, up to the configuration.\<close>

definition runLogin :: "login_module \<Rightarrow> login_module" where
  "runLogin s =
     (if m_inProgress s then s\<lparr>m_refused := m_refused s + 1\<rparr>
      else s\<lparr>m_inProgress := True, m_logins := m_logins s @
             [\<lparr>lg_pc = W_Config, lg_settled = False, lg_timer = False, lg_server = False, lg_result = None\<rparr>]\<rparr>)"

text \<open>Discovery fails: the slot is free again, and the call returns. There is no flow to finish yet.\<close>

definition discovery_failed :: "nat \<Rightarrow> login_module \<Rightarrow> login_module" where
  "discovery_failed n s =
     set_login n (\<lambda>l. l\<lparr>lg_pc := W_Over, lg_settled := True, lg_result := Some (Login_error ''discovery_failed'')\<rparr>)
       (s\<lparr>m_inProgress := False\<rparr>)"

definition begin_login :: "nat \<Rightarrow> string \<Rightarrow> login_module \<Rightarrow> login_module" where
  "begin_login n redirectUri s = set_login n (\<lambda>l. l\<lparr>lg_pc := W_Authorize redirectUri\<rparr>) s"

text \<open>The configuration is there: the timer, the flow without a state, and the transport.\<close>

definition configured :: "transport \<Rightarrow> string \<Rightarrow> nat \<Rightarrow> login_module \<Rightarrow> login_module" where
  "configured t landing n s =
     (let s' = (set_login n (\<lambda>l. l\<lparr>lg_timer := True\<rparr>) s)
            \<lparr>m_current := Some \<lparr>pf_login = n, pf_state = [], pf_codeVerifier = [], pf_redirectUri = []\<rparr>\<rparr>
      in case t of
           Scheme \<Rightarrow> begin_login n landing s'
         | Loopback \<Rightarrow> set_login n (\<lambda>l. l\<lparr>lg_pc := W_Listen, lg_server := True\<rparr>) s')"

text \<open>The server listens, on a port or on nothing that has one.\<close>

definition listening :: "nat \<Rightarrow> nat option \<Rightarrow> login_module \<Rightarrow> login_module" where
  "listening n port s =
     (case port of
        None \<Rightarrow> finish n (Login_error ''loopback_server_error'') (set_login n (\<lambda>l. l\<lparr>lg_pc := W_Over\<rparr>) s)
      | Some k \<Rightarrow> begin_login n (''http://127.0.0.1:'' @ nat_str k @ LOOPBACK_PATH) s)"

text \<open>The authorization request is built: nothing happens when the login is settled.\<close>

definition authorized :: "nat \<Rightarrow> string \<Rightarrow> (string \<times> string) option \<Rightarrow> login_module \<Rightarrow> login_module" where
  "authorized n redirectUri request s =
     (case request of
        None \<Rightarrow> finish n (Login_error ''authorize_failed'') (set_login n (\<lambda>l. l\<lparr>lg_pc := W_Over\<rparr>) s)
      | Some (codeVerifier, state) \<Rightarrow>
          if lg_settled (m_logins s ! n) then set_login n (\<lambda>l. l\<lparr>lg_pc := W_Over\<rparr>) s
          else set_login n (\<lambda>l. l\<lparr>lg_pc := W_Browser\<rparr>)
            (s\<lparr>m_current := Some \<lparr>pf_login = n, pf_state = state, pf_codeVerifier = codeVerifier, pf_redirectUri = redirectUri\<rparr>,
               m_states := (n, state, codeVerifier) # m_states s\<rparr>))"

text \<open>\<open>complete\<close>, up to the exchange.\<close>

definition complete :: "bool \<Rightarrow> pending_flow \<Rightarrow> string \<Rightarrow> login_module \<Rightarrow> login_module" where
  "complete responds flow search s =
     (let n = pf_login flow; oauthError = search_get search ''error''
      in if truthy oauthError
         then finish n (Login_error (the oauthError)) (set_login n (\<lambda>l. l\<lparr>lg_pc := W_Over\<rparr>)
                (if responds then s\<lparr>m_pages := (n, Fail_page) # m_pages s\<rparr> else s))
         else set_login n (\<lambda>l. l\<lparr>lg_pc := W_Exchange responds\<rparr>)
                (s\<lparr>m_exchanges := (n, search, pf_codeVerifier flow) # m_exchanges s\<rparr>))"

definition matching_flow :: "string \<Rightarrow> login_module \<Rightarrow> pending_flow option" where
  "matching_flow search s =
     (case m_current s of None \<Rightarrow> None
      | Some flow \<Rightarrow> if pf_state flow = [] \<or> search_get search ''state'' \<noteq> Some (pf_state flow) then None else Some flow)"

text \<open>A request to the loopback server, with the target of its request line.\<close>

definition handleLoopback :: "foreign_parser \<Rightarrow> string \<Rightarrow> login_module \<Rightarrow> login_module" where
  "handleLoopback foreign target s =
     (case new_URL foreign target (''http'', ''http://127.0.0.1'') of
        None \<Rightarrow> s\<lparr>m_thrown := True\<rparr>
      | Some reqUrl \<Rightarrow>
          if u_pathname reqUrl \<noteq> LOOPBACK_PATH then s
          else case matching_flow (u_search reqUrl) s of
            None \<Rightarrow> s
          | Some flow \<Rightarrow> complete True flow (u_search reqUrl) (s\<lparr>m_current := None\<rparr>))"

text \<open>
  A link that the system hands to the app. \<open>new URL\<close> of an absolute address is an argument of the
  model; of the result, these parts are read.
\<close>

record absolute_url =
  ab_protocol :: string
  ab_host :: string
  ab_origin :: string
  ab_search :: string

type_synonym url_parser = "string \<Rightarrow> absolute_url option"

definition handleAuthCallbackDeepLink :: "url_parser \<Rightarrow> string \<Rightarrow> login_module \<Rightarrow> login_module \<times> bool" where
  "handleAuthCallbackDeepLink parse url s =
     (case parse url of
        None \<Rightarrow> (s, False)
      | Some parsed \<Rightarrow>
          if ab_protocol parsed \<noteq> ''pivox:'' \<or> ab_host parsed \<noteq> ''oidc-callback'' then (s, False)
          else case matching_flow (ab_search parsed) s of
            None \<Rightarrow> (s, False)
          | Some flow \<Rightarrow> (complete False flow (ab_search parsed) (s\<lparr>m_current := None\<rparr>), True))"

text \<open>The exchange answers. A redirect to the loopback server gets a page whatever became of the login.\<close>

definition exchanged :: "bool \<Rightarrow> nat \<Rightarrow> session_tokens option \<Rightarrow> login_module \<Rightarrow> login_module" where
  "exchanged responds n tokens s =
     (let s' = set_login n (\<lambda>l. l\<lparr>lg_pc := W_Over\<rparr>)
            (if responds then s\<lparr>m_pages := (n, if tokens = None then Fail_page else Done_page) # m_pages s\<rparr> else s)
      in finish n (case tokens of Some t \<Rightarrow> Login_ok t | None \<Rightarrow> Login_error ''exchange_failed'') s')"

definition cancelLogin :: "login_module \<Rightarrow> login_module" where
  "cancelLogin s = (case m_current s of None \<Rightarrow> s | Some flow \<Rightarrow> finish (pf_login flow) (Login_error ''cancelled'') s)"

section \<open>The steps\<close>

text \<open>What the module reads from its surroundings.\<close>

record login_world =
  lw_transport :: transport
  lw_landing :: string
  lw_foreign :: foreign_parser
  lw_parse :: url_parser

datatype login_event =
    Start_login
  | Configured nat bool
  | Listening nat "nat option"
  | Server_broke nat
  | Authorized nat "(string \<times> string) option"
  | Browser_failed nat
  | Request_target string
  | Link string
  | Exchanged nat "session_tokens option"
  | Timer nat
  | Cancel

definition login_step :: "login_world \<Rightarrow> login_event \<Rightarrow> login_module \<Rightarrow> login_module option" where
  "login_step w e s =
     (case e of
        Start_login \<Rightarrow> Some (runLogin s)
      | Configured n ok \<Rightarrow>
          if n < length (m_logins s) \<and> lg_pc (m_logins s ! n) = W_Config
          then Some (if ok then configured (lw_transport w) (lw_landing w) n s else discovery_failed n s) else None
      | Listening n port \<Rightarrow>
          if n < length (m_logins s) \<and> lg_pc (m_logins s ! n) = W_Listen then Some (listening n port s) else None
      | Server_broke n \<Rightarrow>
          if n < length (m_logins s) \<and> lg_server (m_logins s ! n)
          then Some (finish n (Login_error ''loopback_server_error'') s) else None
      | Authorized n request \<Rightarrow>
          if n < length (m_logins s)
          then (case lg_pc (m_logins s ! n) of W_Authorize redirectUri \<Rightarrow> Some (authorized n redirectUri request s) | _ \<Rightarrow> None)
          else None
      | Browser_failed n \<Rightarrow>
          if n < length (m_logins s) \<and> n \<in> fst ` set (m_states s)
          then Some (finish n (Login_error ''browser_open_failed'') s) else None
      | Request_target target \<Rightarrow> if lw_transport w = Loopback then Some (handleLoopback (lw_foreign w) target s) else None
      | Link url \<Rightarrow> Some (fst (handleAuthCallbackDeepLink (lw_parse w) url s))
      | Exchanged n tokens \<Rightarrow>
          if n < length (m_logins s)
          then (case lg_pc (m_logins s ! n) of W_Exchange responds \<Rightarrow> Some (exchanged responds n tokens s) | _ \<Rightarrow> None)
          else None
      | Timer n \<Rightarrow>
          if n < length (m_logins s) \<and> lg_timer (m_logins s ! n) then Some (finish n (Login_error ''auth_timeout'') s) else None
      | Cancel \<Rightarrow> Some (cancelLogin s))"

inductive login_run :: "login_world \<Rightarrow> login_module \<Rightarrow> login_module \<Rightarrow> bool" for w where
  login_here: "login_run w s s"
| login_next: "login_run w s t \<Longrightarrow> login_step w e t = Some u \<Longrightarrow> login_run w s u"

section \<open>The invariant\<close>

definition asked :: "login_pc \<Rightarrow> bool" where
  "asked pc \<longleftrightarrow> pc = W_Browser \<or> pc = W_Over \<or> (\<exists>b. pc = W_Exchange b)"

lemma asked_simps [simp]:
  "asked W_Browser" "asked W_Over" "asked (W_Exchange b)" "\<not> asked W_Config" "\<not> asked W_Listen" "\<not> asked (W_Authorize u)"
  by (simp_all add: asked_def)

text \<open>A login by itself: settled means cleaned up and resolved; unsettled means unresolved, with the timer running.\<close>

definition clean :: "login \<Rightarrow> bool" where
  "clean l \<longleftrightarrow> (if lg_settled l then \<not> lg_timer l \<and> \<not> lg_server l \<and> lg_result l \<noteq> None \<and> lg_pc l \<noteq> W_Config
     else lg_result l = None \<and> (lg_timer l \<longleftrightarrow> lg_pc l \<noteq> W_Config) \<and> (lg_server l \<longrightarrow> lg_pc l \<noteq> W_Config))"

definition logins_ok :: "login_module \<Rightarrow> bool" where
  "logins_ok s \<longleftrightarrow> (\<forall>l \<in> set (m_logins s). clean l)
     \<and> (if m_inProgress s then m_logins s \<noteq> [] \<and> \<not> lg_settled (last (m_logins s)) \<and> (\<forall>l \<in> set (butlast (m_logins s)). lg_settled l)
        else m_current s = None \<and> (\<forall>l \<in> set (m_logins s). lg_settled l))
     \<and> (\<forall>f. m_current s = Some f \<longrightarrow> pf_login f = length (m_logins s) - 1 \<and> lg_pc (last (m_logins s)) \<noteq> W_Config)"

text \<open>What is asked, redirected and exchanged.\<close>

definition current_ok :: "login_module \<Rightarrow> bool" where
  "current_ok s \<longleftrightarrow> (\<forall>f. m_current s = Some f \<longrightarrow> pf_state f \<noteq> [] \<longrightarrow>
     lg_pc (m_logins s ! pf_login f) = W_Browser \<and> (pf_login f, pf_state f, pf_codeVerifier f) \<in> set (m_states s))"

definition exchanges_ok :: "login_module \<Rightarrow> bool" where
  "exchanges_ok s \<longleftrightarrow> distinct (map fst (m_exchanges s)) \<and> distinct (map fst (m_states s))
     \<and> (\<forall>x \<in> set (m_states s). fst x < length (m_logins s) \<and> asked (lg_pc (m_logins s ! fst x)))
     \<and> (\<forall>(n, search, v) \<in> set (m_exchanges s). lg_pc (m_logins s ! n) \<noteq> W_Browser
          \<and> (\<exists>st. (n, st, v) \<in> set (m_states s) \<and> st \<noteq> [] \<and> search_get search ''state'' = Some st))"

lemma last_update: "n < length xs \<Longrightarrow> last (xs[n := y]) = (if n = length xs - 1 then y else last xs)"
  by (cases "xs = []") (auto simp: last_list_update)

lemma logins_okD:
  assumes "logins_ok s" "n < length (m_logins s)" "\<not> lg_settled (m_logins s ! n)"
  shows "m_inProgress s" "n = length (m_logins s) - 1" "lg_result (m_logins s ! n) = None"
    "lg_pc (m_logins s ! n) \<noteq> W_Config \<Longrightarrow> lg_timer (m_logins s ! n)"
proof -
  have c: "clean (m_logins s ! n)" using assms by (simp add: logins_ok_def)
  then show "lg_result (m_logins s ! n) = None" "lg_pc (m_logins s ! n) \<noteq> W_Config \<Longrightarrow> lg_timer (m_logins s ! n)"
    using assms(3) by (auto simp: clean_def)
  show p: "m_inProgress s" using assms nth_mem [OF assms(2)] by (auto simp: logins_ok_def split: if_splits)
  show "n = length (m_logins s) - 1"
  proof (rule ccontr)
    assume "n \<noteq> length (m_logins s) - 1"
    then have "n < length (butlast (m_logins s))" using assms(2) by simp
    then have "m_logins s ! n \<in> set (butlast (m_logins s))" by (metis nth_butlast nth_mem)
    then show False using assms p by (simp add: logins_ok_def)
  qed
qed

text \<open>The step of one login leaves the others as they are.\<close>

lemma set_login_sel [simp]:
  "m_inProgress (set_login n f s) = m_inProgress s" "m_current (set_login n f s) = m_current s"
  "m_exchanges (set_login n f s) = m_exchanges s" "m_states (set_login n f s) = m_states s"
  "m_logins (set_login n f s) = (m_logins s)[n := f (m_logins s ! n)]"
  "length (m_logins (set_login n f s)) = length (m_logins s)" "m_pages (set_login n f s) = m_pages s"
  by (simp_all add: set_login_def)

lemma in_list_update: "x \<in> set (xs[n := y]) \<Longrightarrow> x = y \<or> x \<in> set xs"
  using set_update_subset_insert by fastforce

lemma logins_ok_set:
  assumes ok: "logins_ok s" and n: "n < length (m_logins s)"
    and c: "clean (f (m_logins s ! n))" and same: "lg_settled (f (m_logins s ! n)) = lg_settled (m_logins s ! n)"
    and s': "m_logins s' = (m_logins s)[n := f (m_logins s ! n)]" "m_inProgress s' = m_inProgress s"
    and cur: "\<And>g. m_current s' = Some g \<Longrightarrow> m_inProgress s \<and> pf_login g = length (m_logins s) - 1 \<and> lg_pc (last (m_logins s')) \<noteq> W_Config"
  shows "logins_ok s'"
proof -
  have all: "\<forall>l \<in> set (m_logins s'). clean l" using ok c in_list_update unfolding s'(1) logins_ok_def by fastforce
  have others: "lg_settled l" if "l \<in> set (butlast (m_logins s'))" "m_inProgress s" for l
  proof -
    have old: "\<forall>l \<in> set (butlast (m_logins s)). lg_settled l" using ok that(2) by (simp add: logins_ok_def)
    show ?thesis
    proof (cases "n < length (m_logins s) - 1")
      case True
      then have "m_logins s ! n \<in> set (butlast (m_logins s))" by (metis length_butlast nth_butlast nth_mem)
      then show ?thesis using that(1) old same in_list_update True unfolding s'(1) by (metis butlast_list_update nat_neq_iff)
    next
      case False
      then have "n = length (m_logins s) - 1" using n by simp
      then show ?thesis using that(1) old unfolding s'(1) by (simp add: butlast_list_update)
    qed
  qed
  have final: "lg_settled (last (m_logins s')) = lg_settled (last (m_logins s))"
  proof (cases "n = length (m_logins s) - 1")
    case True
    moreover have "m_logins s \<noteq> []" using n by auto
    ultimately have "last (m_logins s) = m_logins s ! n" by (simp add: last_conv_nth)
    then show ?thesis using same last_update [OF n] True by (metis s'(1))
  next
    case False
    then show ?thesis using last_update [OF n] by (metis s'(1))
  qed
  show ?thesis
  proof (cases "m_inProgress s")
    case True
    then show ?thesis using ok all others final cur s' n by (auto simp: logins_ok_def)
  next
    case False
    then have "\<forall>l \<in> set (m_logins s). lg_settled l" using ok by (simp add: logins_ok_def)
    then have "\<forall>l \<in> set (m_logins s'). lg_settled l" using same n in_list_update unfolding s'(1) by (metis nth_mem)
    then show ?thesis using all cur False s' by (fastforce simp: logins_ok_def)
  qed
qed

lemma finish_frame [simp]:
  "m_exchanges (finish n res s) = m_exchanges s" "m_states (finish n res s) = m_states s"
  "length (m_logins (finish n res s)) = length (m_logins s)" "m_pages (finish n res s) = m_pages s"
  by (simp_all add: finish_def)

lemma logins_ok_finish:
  assumes ok: "logins_ok s" and n: "n < length (m_logins s)" and pc: "lg_pc (m_logins s ! n) \<noteq> W_Config"
  shows "logins_ok (finish n res s)"
proof (cases "lg_settled (m_logins s ! n)")
  case True
  then show ?thesis using ok by (simp add: finish_def)
next
  case False
  note d = logins_okD [OF ok n False]
  have "lg_settled l \<and> clean l" if mem: "l \<in> set (m_logins (finish n res s))" for l
  proof -
    obtain k where "k < length (m_logins (finish n res s))" "l = m_logins (finish n res s) ! k"
      using mem unfolding in_set_conv_nth by blast
    then have k: "k < length (m_logins s)" "l = m_logins (finish n res s) ! k" by simp_all
    show ?thesis
    proof (cases "k = n")
      case True
      then show ?thesis using k n False pc by (simp add: finish_def clean_def)
    next
      case ne: False
      then have "lg_settled (m_logins s ! k)" using logins_okD(2) [OF ok k(1)] d(2) by blast
      moreover have "clean (m_logins s ! k)" using ok k(1) by (simp add: logins_ok_def)
      ultimately show ?thesis using k ne False by (simp add: finish_def)
    qed
  qed
  moreover have "\<not> m_inProgress (finish n res s)" "m_current (finish n res s) = None" using False by (simp_all add: finish_def)
  ultimately show ?thesis by (simp add: logins_ok_def)
qed

lemma finish_pc [simp]: "lg_pc (m_logins (finish n res s) ! k) = lg_pc (m_logins s ! k)"
  by (cases "k = n"; cases "n < length (m_logins s)") (simp_all add: finish_def list_update_beyond)

lemma exchanges_ok_cong:
  "m_exchanges s' = m_exchanges s \<Longrightarrow> m_states s' = m_states s \<Longrightarrow> length (m_logins s') = length (m_logins s) \<Longrightarrow>
   (\<And>k. lg_pc (m_logins s' ! k) = lg_pc (m_logins s ! k)) \<Longrightarrow> exchanges_ok s' \<longleftrightarrow> exchanges_ok s"
  by (simp add: exchanges_ok_def)

lemma exchanges_ok_finish [simp]: "exchanges_ok (finish n res s) \<longleftrightarrow> exchanges_ok s"
  by (rule exchanges_ok_cong) simp_all

lemma current_ok_finish: "current_ok s \<Longrightarrow> current_ok (finish n res s)"
  unfolding current_ok_def by (cases "lg_settled (m_logins s ! n)") (auto simp: finish_def)

lemma exchange_has_state:
  assumes "exchanges_ok s" and x: "(k, search, v) \<in> set (m_exchanges s)"
  shows "k \<in> fst ` set (m_states s)"
proof -
  note all = assms(1) [unfolded exchanges_ok_def, THEN conjunct2, THEN conjunct2, THEN conjunct2]
  from bspec [OF all x] obtain st where "(k, st, v) \<in> set (m_states s)" by auto
  from imageI [OF this, of fst] show ?thesis by simp
qed

lemma exchanges_ok_set:
  assumes ok: "exchanges_ok s" and pc: "n \<in> fst ` set (m_states s) \<Longrightarrow> asked (lg_pc (f (m_logins s ! n))) \<and> lg_pc (f (m_logins s ! n)) \<noteq> W_Browser"
    and n: "n < length (m_logins s)"
  shows "exchanges_ok (set_login n f s)"
proof -
  have "asked (lg_pc (m_logins (set_login n f s) ! fst x))" if "x \<in> set (m_states s)" for x
    using that ok pc n by (cases "fst x = n") (auto simp: exchanges_ok_def)
  moreover have "lg_pc (m_logins (set_login n f s) ! k) \<noteq> W_Browser" if "(k, search, v) \<in> set (m_exchanges s)" for k search v
  proof -
    have "k \<in> fst ` set (m_states s)" by (rule exchange_has_state [OF ok that])
    then show ?thesis using that ok pc n by (cases "k = n") (auto simp: exchanges_ok_def)
  qed
  ultimately show ?thesis using ok by (auto simp: exchanges_ok_def)
qed

lemma current_ok_keep:
  assumes "current_ok s" "\<And>g. m_current s = Some g \<Longrightarrow> pf_state g \<noteq> [] \<Longrightarrow> pf_login g \<noteq> n"
  shows "current_ok (set_login n f s)"
  using assms by (auto simp: current_ok_def)

definition login_ok :: "login_module \<Rightarrow> bool" where
  "login_ok s \<longleftrightarrow> logins_ok s \<and> current_ok s \<and> exchanges_ok s"

lemma login_ok_finish:
  "login_ok s \<Longrightarrow> n < length (m_logins s) \<Longrightarrow> lg_pc (m_logins s ! n) \<noteq> W_Config \<Longrightarrow> login_ok (finish n res s)"
  by (simp add: login_ok_def logins_ok_finish current_ok_finish)

lemma login_ok_pc:
  assumes ok: "login_ok s" and n: "n < length (m_logins s)" and pc: "lg_pc (m_logins s ! n) \<noteq> W_Config" "pc \<noteq> W_Config"
    and asked: "n \<in> fst ` set (m_states s) \<Longrightarrow> asked pc \<and> pc \<noteq> W_Browser"
    and cur: "\<And>g. m_current s = Some g \<Longrightarrow> pf_state g \<noteq> [] \<Longrightarrow> pf_login g \<noteq> n"
  shows "login_ok (set_login n (\<lambda>l. l\<lparr>lg_pc := pc\<rparr>) s)"
proof -
  have "clean (m_logins s ! n)" using ok n by (simp add: login_ok_def logins_ok_def)
  then have c: "clean ((m_logins s ! n)\<lparr>lg_pc := pc\<rparr>)" using pc by (auto simp: clean_def split: if_splits)
  have "logins_ok (set_login n (\<lambda>l. l\<lparr>lg_pc := pc\<rparr>) s)"
  proof (rule logins_ok_set [where s = s and n = n and f = "\<lambda>l. l\<lparr>lg_pc := pc\<rparr>"])
    show "logins_ok s" using ok by (simp add: login_ok_def)
    fix g assume "m_current (set_login n (\<lambda>l. l\<lparr>lg_pc := pc\<rparr>) s) = Some g"
    then have "m_inProgress s" "pf_login g = length (m_logins s) - 1" "lg_pc (last (m_logins s)) \<noteq> W_Config"
      using ok by (auto simp: login_ok_def logins_ok_def split: if_splits)
    then show "m_inProgress s \<and> pf_login g = length (m_logins s) - 1
      \<and> lg_pc (last (m_logins (set_login n (\<lambda>l. l\<lparr>lg_pc := pc\<rparr>) s))) \<noteq> W_Config"
      using pc last_update [OF n] by simp
  qed (use n c in simp_all)
  moreover have "current_ok (set_login n (\<lambda>l. l\<lparr>lg_pc := pc\<rparr>) s)"
    using ok cur by (intro current_ok_keep) (auto simp: login_ok_def)
  moreover have "exchanges_ok (set_login n (\<lambda>l. l\<lparr>lg_pc := pc\<rparr>) s)"
    using ok n asked by (intro exchanges_ok_set) (auto simp: login_ok_def)
  ultimately show ?thesis by (simp add: login_ok_def)
qed

lemma current_login:
  assumes "login_ok s" "m_current s = Some f"
  shows "m_inProgress s" "pf_login f < length (m_logins s)" "lg_pc (m_logins s ! pf_login f) \<noteq> W_Config"
    "\<not> lg_settled (m_logins s ! pf_login f)"
    "pf_state f \<noteq> [] \<Longrightarrow> lg_pc (m_logins s ! pf_login f) = W_Browser \<and> (pf_login f, pf_state f, pf_codeVerifier f) \<in> set (m_states s)"
proof -
  have c: "m_inProgress s" "m_logins s \<noteq> []" "\<not> lg_settled (last (m_logins s))" "pf_login f = length (m_logins s) - 1"
    "lg_pc (last (m_logins s)) \<noteq> W_Config"
    using assms by (auto simp: login_ok_def logins_ok_def split: if_splits)
  then show "m_inProgress s" "pf_login f < length (m_logins s)" "lg_pc (m_logins s ! pf_login f) \<noteq> W_Config"
    "\<not> lg_settled (m_logins s ! pf_login f)"
    by (simp_all add: last_conv_nth)
  show "pf_state f \<noteq> [] \<Longrightarrow> lg_pc (m_logins s ! pf_login f) = W_Browser \<and> (pf_login f, pf_state f, pf_codeVerifier f) \<in> set (m_states s)"
    using assms by (auto simp: login_ok_def current_ok_def)
qed

lemma not_asked_states: "login_ok s \<Longrightarrow> \<not> asked (lg_pc (m_logins s ! n)) \<Longrightarrow> n \<notin> fst ` set (m_states s)"
  by (auto simp: login_ok_def exchanges_ok_def)

lemma login_ok_notes [simp]:
  "login_ok (s\<lparr>m_refused := x\<rparr>) \<longleftrightarrow> login_ok s" "login_ok (s\<lparr>m_pages := ps\<rparr>) \<longleftrightarrow> login_ok s" "login_ok (s\<lparr>m_thrown := b\<rparr>) \<longleftrightarrow> login_ok s"
  by (simp_all add: login_ok_def logins_ok_def current_ok_def exchanges_ok_def)

lemma login_ok_run_login: "login_ok s \<Longrightarrow> login_ok (runLogin s)"
proof (cases "m_inProgress s")
  case False
  assume ok: "login_ok s"
  then have old: "m_current s = None" "\<forall>l \<in> set (m_logins s). lg_settled l" "\<forall>l \<in> set (m_logins s). clean l"
    using False by (simp_all add: login_ok_def logins_ok_def)
  have "logins_ok (runLogin s)" using old False by (auto simp: logins_ok_def runLogin_def clean_def)
  moreover have "current_ok (runLogin s)" using old False by (simp add: current_ok_def runLogin_def)
  moreover have "exchanges_ok (runLogin s)"
  proof -
    have e: "exchanges_ok s" using ok by (simp add: login_ok_def)
    have "fst x < length (m_logins s)" if "x \<in> set (m_exchanges s)" for x
      using e that by (force simp: exchanges_ok_def)
    then show ?thesis using e False by (auto simp: exchanges_ok_def runLogin_def nth_append less_SucI)
  qed
  ultimately show ?thesis by (simp add: login_ok_def)
qed (simp add: runLogin_def)

lemma login_ok_complete:
  assumes ok: "login_ok s" and flow: "matching_flow search s = Some f" 
  shows "login_ok (complete responds f search (s\<lparr>m_current := None\<rparr>))"
proof -
  have cur: "m_current s = Some f" "pf_state f \<noteq> []" "search_get search ''state'' = Some (pf_state f)"
    using flow by (auto simp: matching_flow_def split: option.splits if_splits)
  note c = current_login [OF ok cur(1)] current_login(5) [OF ok cur(1,2)]
  have ok': "login_ok (s\<lparr>m_current := None, m_pages := ps\<rparr>)" for ps
    using ok by (auto simp: login_ok_def logins_ok_def current_ok_def exchanges_ok_def)
  have over: "login_ok (set_login (pf_login f) (\<lambda>l. l\<lparr>lg_pc := W_Over\<rparr>) (s\<lparr>m_current := None, m_pages := ps\<rparr>))" for ps
    by (rule login_ok_pc [OF ok']) (use c in auto)
  show ?thesis
  proof (cases "truthy (search_get search ''error'')")
    case True
    then show ?thesis using login_ok_finish [OF over [of "m_pages s"]] login_ok_finish [OF over] c(2)
      by (simp add: complete_def Let_def)
  next
    case False
    have e: "exchanges_ok s" using ok by (simp add: login_ok_def)
    have fresh: "pf_login f \<notin> fst ` set (m_exchanges s)" using e c(6) by (force simp: exchanges_ok_def)
    have "login_ok (set_login (pf_login f) (\<lambda>l. l\<lparr>lg_pc := W_Exchange responds\<rparr>) (s\<lparr>m_current := None\<rparr>))"
      by (rule login_ok_pc) (use ok' [of "m_pages s"] c in auto)
    moreover have "lg_pc (m_logins (set_login (pf_login f) (\<lambda>l. l\<lparr>lg_pc := W_Exchange responds\<rparr>) (s\<lparr>m_current := None\<rparr>)) ! pf_login f) \<noteq> W_Browser"
      using c(2) by simp
    ultimately show ?thesis using False fresh cur c(6)
      by (auto simp: complete_def Let_def login_ok_def logins_ok_def current_ok_def exchanges_ok_def)
  qed
qed

lemma settled_pc: "login_ok s \<Longrightarrow> n < length (m_logins s) \<Longrightarrow> lg_pc (m_logins s ! n) = W_Config \<Longrightarrow> \<not> lg_settled (m_logins s ! n)"
  by (auto simp: login_ok_def logins_ok_def clean_def dest!: bspec [OF _ nth_mem] split: if_splits)

lemma timer_pc: "login_ok s \<Longrightarrow> n < length (m_logins s) \<Longrightarrow> lg_timer (m_logins s ! n) \<or> lg_server (m_logins s ! n) \<Longrightarrow> lg_pc (m_logins s ! n) \<noteq> W_Config"
  by (auto simp: login_ok_def logins_ok_def clean_def dest!: bspec [OF _ nth_mem] split: if_splits)

lemma login_ok_configured:
  assumes ok: "login_ok s" and n: "n < length (m_logins s)" and pc: "lg_pc (m_logins s ! n) = W_Config"
  shows "login_ok (configured t landing n s)"
proof -
  have l: "\<not> lg_settled (m_logins s ! n)" by (rule settled_pc [OF ok n pc])
  have d: "m_inProgress s" "n = length (m_logins s) - 1" "lg_result (m_logins s ! n) = None"
    using logins_okD [OF _ n l] ok by (simp_all add: login_ok_def)
  define f :: "login \<Rightarrow> login" where "f = (\<lambda>l. l\<lparr>lg_timer := True, lg_pc := (case t of Scheme \<Rightarrow> W_Authorize landing | Loopback \<Rightarrow> W_Listen),
    lg_server := (case t of Scheme \<Rightarrow> lg_server l | Loopback \<Rightarrow> True)\<rparr>)"
  have e: "configured t landing n s = (set_login n f s)\<lparr>m_current := Some \<lparr>pf_login = n, pf_state = [], pf_codeVerifier = [], pf_redirectUri = []\<rparr>\<rparr>"
    using n by (cases t) (simp_all add: configured_def begin_login_def Let_def set_login_def f_def)
  have f: "lg_settled (f l) = lg_settled l" "lg_pc (f l) \<noteq> W_Config" "\<not> asked (lg_pc (f l))" for l
    by (simp_all add: f_def split: transport.split)
  have "logins_ok (configured t landing n s)" unfolding e
  proof (rule logins_ok_set [where s = s and n = n and f = f])
    show "logins_ok s" using ok by (simp add: login_ok_def)
    show "clean (f (m_logins s ! n))" using l d(3) by (cases t) (simp_all add: clean_def f_def)
  qed (use n f d last_update [OF n] in \<open>auto simp: set_login_def\<close>)
  moreover have "exchanges_ok (set_login n f s)"
    using exchanges_ok_set [of s n f] ok n not_asked_states [OF ok, of n] pc by (auto simp: login_ok_def)
  ultimately show ?thesis by (simp add: login_ok_def current_ok_def e exchanges_ok_def)
qed

lemma login_ok_discovery_failed:
  assumes ok: "login_ok s" and n: "n < length (m_logins s)" and pc: "lg_pc (m_logins s ! n) = W_Config"
  shows "login_ok (discovery_failed n s)"
proof -
  have l: "\<not> lg_settled (m_logins s ! n)" by (rule settled_pc [OF ok n pc])
  have ok': "logins_ok s" using ok by (simp add: login_ok_def)
  have d: "m_inProgress s" "n = length (m_logins s) - 1" using logins_okD [OF ok' n l] by simp_all
  have cl: "clean (m_logins s ! n)" using ok' n by (simp add: logins_ok_def)
  have none: "m_current s = None" using current_login(3) [OF ok] current_login(2) [OF ok] d(2) pc ok'
    by (cases "m_current s") (auto simp: logins_ok_def)
  have "lg_settled l \<and> clean l" if mem: "l \<in> set (m_logins (discovery_failed n s))" for l
  proof -
    obtain k where "k < length (m_logins (discovery_failed n s))" "l = m_logins (discovery_failed n s) ! k"
      using mem unfolding in_set_conv_nth by blast
    then have k: "k < length (m_logins s)" "l = m_logins (discovery_failed n s) ! k" by (simp_all add: discovery_failed_def)
    show ?thesis
    proof (cases "k = n")
      case True
      then show ?thesis using k cl l pc by (simp add: discovery_failed_def clean_def)
    next
      case False
      then have "lg_settled (m_logins s ! k)" using logins_okD(2) [OF ok' k(1)] d(2) by blast
      moreover have "clean (m_logins s ! k)" using ok' k(1) by (simp add: logins_ok_def)
      ultimately show ?thesis using k False by (simp add: discovery_failed_def)
    qed
  qed
  then have "logins_ok (discovery_failed n s)" using none by (simp add: logins_ok_def) (simp add: discovery_failed_def)
  moreover have "exchanges_ok (discovery_failed n s)"
    using exchanges_ok_set [of s n "\<lambda>l. l\<lparr>lg_pc := W_Over, lg_settled := True, lg_result := Some (Login_error ''discovery_failed'')\<rparr>"] ok n
      not_asked_states [OF ok, of n] pc
    by (auto simp: login_ok_def discovery_failed_def exchanges_ok_def)
  moreover have "current_ok (discovery_failed n s)" using none by (simp add: current_ok_def discovery_failed_def)
  ultimately show ?thesis by (simp add: login_ok_def)
qed

lemma login_ok_authorized:
  assumes ok: "login_ok s" and n: "n < length (m_logins s)" and pc: "lg_pc (m_logins s ! n) = W_Authorize u"
  shows "login_ok (authorized n u request s)"
proof -
  have fresh: "n \<notin> fst ` set (m_states s)" using not_asked_states [OF ok, of n] pc by simp
  have cur: "pf_login g \<noteq> n" if "m_current s = Some g" "pf_state g \<noteq> []" for g
    using current_login(5) [OF ok that] fresh by force
  have step: "login_ok (set_login n (\<lambda>l. l\<lparr>lg_pc := pc'\<rparr>) s)" if "pc' \<noteq> W_Config" for pc'
    by (rule login_ok_pc [OF ok n]) (use pc that fresh cur in auto)
  show ?thesis
  proof (cases request)
    case None
    then show ?thesis using login_ok_finish [OF step] n by (simp add: authorized_def)
  next
    case (Some vs)
    obtain v st where vs: "vs = (v, st)" by fastforce
    show ?thesis
    proof (cases "lg_settled (m_logins s ! n)")
      case True
      then show ?thesis using Some vs step by (simp add: authorized_def)
    next
      case False
      have d: "m_inProgress s" "n = length (m_logins s) - 1" using logins_okD [OF _ n False] ok by (simp_all add: login_ok_def)
      have ne: "m_logins s \<noteq> []" using n by auto
      define s' where "s' = set_login n (\<lambda>l. l\<lparr>lg_pc := W_Browser\<rparr>) s"
      have s': "login_ok s'" unfolding s'_def by (rule step) simp
      have a: "authorized n u request s = s'\<lparr>m_current := Some \<lparr>pf_login = n, pf_state = st, pf_codeVerifier = v, pf_redirectUri = u\<rparr>,
          m_states := (n, st, v) # m_states s\<rparr>"
        using Some vs False by (simp add: authorized_def s'_def set_login_def)
      have at: "lg_pc (m_logins s' ! n) = W_Browser" "m_states s' = m_states s" "m_exchanges s' = m_exchanges s" "m_inProgress s'"
        "length (m_logins s') = length (m_logins s)" "lg_pc (last (m_logins s')) = W_Browser"
        using n d last_update [OF n] by (simp_all add: s'_def)
      have "logins_ok (authorized n u request s)" unfolding a using s' at d by (simp add: login_ok_def logins_ok_def)
      moreover have "exchanges_ok (authorized n u request s)"
      proof -
        have e: "exchanges_ok s'" using s' by (simp add: login_ok_def)
        have sub: "exchanges_ok (s'\<lparr>m_current := c, m_states := (n, st, v) # m_states s\<rparr>)" for c
          unfolding exchanges_ok_def
        proof (intro conjI ballI)
          fix x assume "x \<in> set (m_states (s'\<lparr>m_current := c, m_states := (n, st, v) # m_states s\<rparr>))"
          then have "x = (n, st, v) \<or> x \<in> set (m_states s')" using at by auto
          then show "fst x < length (m_logins (s'\<lparr>m_current := c, m_states := (n, st, v) # m_states s\<rparr>))"
            "asked (lg_pc (m_logins (s'\<lparr>m_current := c, m_states := (n, st, v) # m_states s\<rparr>) ! fst x))"
            using e n at by (auto simp: exchanges_ok_def)
        next
          fix x assume x: "x \<in> set (m_exchanges (s'\<lparr>m_current := c, m_states := (n, st, v) # m_states s\<rparr>))"
          obtain k search w where k: "x = (k, search, w)" by (cases x) auto
          then show "case x of (k, search, w) \<Rightarrow> lg_pc (m_logins (s'\<lparr>m_current := c, m_states := (n, st, v) # m_states s\<rparr>) ! k) \<noteq> W_Browser
            \<and> (\<exists>st'. (k, st', w) \<in> set (m_states (s'\<lparr>m_current := c, m_states := (n, st, v) # m_states s\<rparr>)) \<and> st' \<noteq> []
                 \<and> search_get search ''state'' = Some st')"
            using e x at by (fastforce simp: exchanges_ok_def)
        qed (use e at fresh in \<open>auto simp: exchanges_ok_def\<close>)
        show ?thesis unfolding a by (rule sub)
      qed
      moreover have "current_ok (authorized n u request s)" unfolding a using at by (simp add: current_ok_def)
      ultimately show ?thesis by (simp add: login_ok_def)
    qed
  qed
qed

lemma login_ok_listening:
  assumes ok: "login_ok s" and n: "n < length (m_logins s)" and pc: "lg_pc (m_logins s ! n) = W_Listen"
  shows "login_ok (listening n port s)"
proof -
  have fresh: "n \<notin> fst ` set (m_states s)" using not_asked_states [OF ok, of n] pc by simp
  have cur: "pf_login g \<noteq> n" if "m_current s = Some g" "pf_state g \<noteq> []" for g
    using current_login(5) [OF ok that] fresh by force
  have step: "login_ok (set_login n (\<lambda>l. l\<lparr>lg_pc := pc'\<rparr>) s)" if "pc' \<noteq> W_Config" for pc'
    by (rule login_ok_pc [OF ok n]) (use pc that fresh cur in auto)
  show ?thesis using login_ok_finish [OF step] step n by (cases port) (simp_all add: listening_def begin_login_def)
qed

lemma login_ok_exchanged:
  assumes ok: "login_ok s" and n: "n < length (m_logins s)" and pc: "lg_pc (m_logins s ! n) = W_Exchange b"
  shows "login_ok (exchanged responds n tokens s)"
proof -
  define ps where "ps = (if responds then (n, if tokens = None then Fail_page else Done_page) # m_pages s else m_pages s)"
  have cur: "pf_login g \<noteq> n" if "m_current s = Some g" "pf_state g \<noteq> []" for g
    using current_login(5) [OF ok that] pc by auto
  have "login_ok (set_login n (\<lambda>l. l\<lparr>lg_pc := W_Over\<rparr>) (s\<lparr>m_pages := ps\<rparr>))"
    by (rule login_ok_pc) (use ok n pc cur in auto)
  from login_ok_finish [OF this] have "login_ok (finish n res (set_login n (\<lambda>l. l\<lparr>lg_pc := W_Over\<rparr>) (s\<lparr>m_pages := ps\<rparr>)))" for res
    using n by simp
  moreover have "(if responds then s\<lparr>m_pages := (n, if tokens = None then Fail_page else Done_page) # m_pages s\<rparr> else s) = s\<lparr>m_pages := ps\<rparr>"
    by (simp add: ps_def)
  ultimately show ?thesis by (simp add: exchanged_def Let_def)
qed

lemma login_ok_step:
  assumes ok: "login_ok s" and step: "login_step w e s = Some s'"
  shows "login_ok s'"
proof (cases e)
  case (Configured n b)
  then show ?thesis using step ok login_ok_configured login_ok_discovery_failed by (auto simp: login_step_def split: if_splits)
next
  case (Browser_failed n)
  then have n: "n \<in> fst ` set (m_states s)" "s' = finish n (Login_error ''browser_open_failed'') s" "n < length (m_logins s)"
    using step by (auto simp: login_step_def split: if_splits)
  then have "asked (lg_pc (m_logins s ! n))" using ok by (auto simp: login_ok_def exchanges_ok_def)
  then have "lg_pc (m_logins s ! n) \<noteq> W_Config" using asked_simps(4) by metis
  then show ?thesis using login_ok_finish [OF ok n(3)] n(2) by simp
next
  case (Request_target target)
  then have "s' = handleLoopback (lw_foreign w) target s" using step by (simp add: login_step_def split: if_splits)
  then show ?thesis using ok login_ok_complete [OF ok] by (auto simp: handleLoopback_def split: option.splits)
next
  case (Link url)
  then show ?thesis using step ok login_ok_complete [OF ok] by (auto simp: login_step_def handleAuthCallbackDeepLink_def split: option.splits)
next
  case Cancel
  then show ?thesis using step ok login_ok_finish [OF ok current_login(2,3) [OF ok]]
    by (auto simp: login_step_def cancelLogin_def split: option.splits)
qed (use step ok login_ok_run_login login_ok_listening login_ok_authorized login_ok_exchanged login_ok_finish timer_pc
    in \<open>auto simp: login_step_def split: if_splits login_pc.splits\<close>)

lemma login_ok_start: "login_ok login_start"
  by (simp add: login_ok_def logins_ok_def current_ok_def exchanges_ok_def login_start_def)

lemma login_ok_run: "login_run w s t \<Longrightarrow> login_ok s \<Longrightarrow> login_ok t"
  by (induction rule: login_run.induct) (blast intro: login_ok_step)+

section \<open>What a login promises\<close>

text \<open>
  One login runs at a time: the module is busy exactly while a login is unresolved, and then
  it is the last one; a login that is resolved has no timer, no server and no place in the module.
\<close>

theorem one_login_at_a_time:
  assumes "login_run w login_start s"
  shows "(\<forall>n < length (m_logins s). \<not> lg_settled (m_logins s ! n) \<longrightarrow> m_inProgress s \<and> n = length (m_logins s) - 1)
    \<and> (m_inProgress s \<longrightarrow> m_logins s \<noteq> [] \<and> \<not> lg_settled (last (m_logins s)))
    \<and> (\<forall>l \<in> set (m_logins s). lg_settled l \<longleftrightarrow> lg_result l \<noteq> None)
    \<and> (\<forall>l \<in> set (m_logins s). lg_settled l \<longrightarrow> \<not> lg_timer l \<and> \<not> lg_server l)
    \<and> (\<not> m_inProgress s \<longrightarrow> m_current s = None)"
proof -
  have ok: "logins_ok s" using login_ok_run [OF assms login_ok_start] by (simp add: login_ok_def)
  have "\<forall>l \<in> set (m_logins s). (lg_settled l \<longleftrightarrow> lg_result l \<noteq> None) \<and> (lg_settled l \<longrightarrow> \<not> lg_timer l \<and> \<not> lg_server l)"
    using ok by (auto simp: logins_ok_def clean_def split: if_splits)
  then show ?thesis using ok logins_okD(1,2) [OF ok] by (auto simp: logins_ok_def)
qed

text \<open>
  C15. A code is exchanged once at most for a login, only for a redirect that carries the state
  of that login, and with the verifier that was made with this state.
\<close>

theorem one_exchange_per_login:
  assumes "login_run w login_start s"
  shows "distinct (map fst (m_exchanges s)) \<and> distinct (map fst (m_states s))
    \<and> (\<forall>(n, search, verifier) \<in> set (m_exchanges s).
         \<exists>state. (n, state, verifier) \<in> set (m_states s) \<and> state \<noteq> [] \<and> search_get search ''state'' = Some state)"
proof -
  have "exchanges_ok s" using login_ok_run [OF assms login_ok_start] by (simp add: login_ok_def)
  then show ?thesis by (auto simp: exchanges_ok_def)
qed

text \<open>The answer of a login is final.\<close>

definition answered :: "nat \<Rightarrow> login_result option \<Rightarrow> login_module \<Rightarrow> bool" where
  "answered n res s \<longleftrightarrow> n < length (m_logins s) \<and> lg_settled (m_logins s ! n) \<and> lg_result (m_logins s ! n) = res"

lemma answered_notes [simp]:
  "answered n res (s\<lparr>m_refused := x\<rparr>) = answered n res s" "answered n res (s\<lparr>m_pages := ps\<rparr>) = answered n res s"
  "answered n res (s\<lparr>m_thrown := b\<rparr>) = answered n res s" "answered n res (s\<lparr>m_current := c\<rparr>) = answered n res s"
  "answered n res (s\<lparr>m_inProgress := b\<rparr>) = answered n res s" "answered n res (s\<lparr>m_states := x2\<rparr>) = answered n res s"
  "answered n res (s\<lparr>m_exchanges := x3\<rparr>) = answered n res s"
  by (simp_all add: answered_def)

lemma answered_set:
  "answered n res s \<Longrightarrow> (k = n \<Longrightarrow> lg_settled (f (m_logins s ! n)) \<and> lg_result (f (m_logins s ! n)) = res) \<Longrightarrow> answered n res (set_login k f s)"
  by (cases "k = n") (auto simp: answered_def)

lemma answered_pc: "answered n res s \<Longrightarrow> answered n res (set_login k (\<lambda>l. l\<lparr>lg_pc := pc\<rparr>) s)"
  by (rule answered_set) (auto simp: answered_def)

lemma answered_finish: "answered n res s \<Longrightarrow> answered n res (finish k r s)"
proof (cases "k = n")
  case False
  assume "answered n res s"
  then show ?thesis using False by (auto simp: finish_def intro!: answered_set)
qed (simp add: finish_def answered_def)

lemma answered_complete: "answered n res s \<Longrightarrow> answered n res (complete responds flow search s)"
  by (auto simp: complete_def Let_def intro!: answered_finish answered_pc)

lemma answered_step:
  assumes a: "answered n res s" and ok: "login_ok s" and step: "login_step w e s = Some s'"
  shows "answered n res s'"
proof (cases e)
  case Start_login
  then show ?thesis using step a by (auto simp: login_step_def runLogin_def answered_def nth_append)
next
  case (Configured k b)
  then have k: "k < length (m_logins s)" "lg_pc (m_logins s ! k) = W_Config"
    "s' = (if b then configured (lw_transport w) (lw_landing w) k s else discovery_failed k s)"
    using step by (auto simp: login_step_def split: if_splits)
  then have "k \<noteq> n" using settled_pc [OF ok] a by (auto simp: answered_def)
  then show ?thesis using a unfolding k(3)
    by (auto simp: configured_def discovery_failed_def begin_login_def Let_def intro!: answered_set split: transport.split)
next
  case (Listening k port)
  then show ?thesis using step a
    by (auto simp: login_step_def listening_def begin_login_def intro!: answered_finish answered_pc split: if_splits option.splits)
next
  case (Authorized k request)
  then obtain u where "s' = authorized k u request s" using step by (auto simp: login_step_def split: if_splits login_pc.splits)
  then show ?thesis using a by (auto simp: authorized_def intro!: answered_finish answered_pc split: option.splits)
next
  case (Request_target target)
  then show ?thesis using step a
    by (auto simp: login_step_def handleLoopback_def intro!: answered_complete split: if_splits option.splits)
next
  case (Link url)
  then show ?thesis using step a
    by (auto simp: login_step_def handleAuthCallbackDeepLink_def intro!: answered_complete split: if_splits option.splits)
next
  case (Exchanged k tokens)
  then obtain b where "s' = exchanged b k tokens s" using step by (auto simp: login_step_def split: if_splits login_pc.splits)
  then show ?thesis using a by (auto simp: exchanged_def Let_def intro!: answered_finish answered_pc)
next
  case Cancel
  then show ?thesis using step a by (auto simp: login_step_def cancelLogin_def intro!: answered_finish split: option.splits)
qed (use step a in \<open>auto simp: login_step_def intro!: answered_finish split: if_splits\<close>)

text \<open>
  C27. Every login ends, once: the answer to its discovery ends it or starts its timer, from then on
  the timer can end it at any moment, and an answer that was given is never changed.
\<close>

theorem every_login_ends:
  assumes run: "login_run w login_start s" and n: "n < length (m_logins s)"
  shows "(lg_pc (m_logins s ! n) = W_Config \<longrightarrow> (\<forall>ok. \<exists>s'. login_step w (Configured n ok) s = Some s'
           \<and> (if ok then lg_timer (m_logins s' ! n) else lg_result (m_logins s' ! n) = Some (Login_error ''discovery_failed''))))
    \<and> (\<not> lg_settled (m_logins s ! n) \<longrightarrow> lg_pc (m_logins s ! n) \<noteq> W_Config \<longrightarrow> (\<exists>s'. login_step w (Timer n) s = Some s'
           \<and> lg_result (m_logins s' ! n) = Some (Login_error ''auth_timeout'') \<and> \<not> m_inProgress s'))
    \<and> (lg_settled (m_logins s ! n) \<longrightarrow> (\<forall>e s'. login_step w e s = Some s' \<longrightarrow> lg_result (m_logins s' ! n) = lg_result (m_logins s ! n)))"
proof -
  have ok: "login_ok s" by (rule login_ok_run [OF run login_ok_start])
  have "lg_result (m_logins s' ! n) = lg_result (m_logins s ! n)" if "lg_settled (m_logins s ! n)" "login_step w e s = Some s'" for e s'
    using answered_step [OF _ ok that(2), of n "lg_result (m_logins s ! n)"] that(1) n by (simp add: answered_def)
  moreover have "\<exists>s'. login_step w (Timer n) s = Some s' \<and> lg_result (m_logins s' ! n) = Some (Login_error ''auth_timeout'') \<and> \<not> m_inProgress s'"
    if "\<not> lg_settled (m_logins s ! n)" "lg_pc (m_logins s ! n) \<noteq> W_Config"
  proof -
    have "lg_timer (m_logins s ! n)" using logins_okD(4) [OF _ n that] ok by (simp add: login_ok_def)
    then show ?thesis using n that by (simp add: login_step_def finish_def)
  qed
  moreover have "\<exists>s'. login_step w (Configured n b) s = Some s'
       \<and> (if b then lg_timer (m_logins s' ! n) else lg_result (m_logins s' ! n) = Some (Login_error ''discovery_failed''))"
    if "lg_pc (m_logins s ! n) = W_Config" for b
    using that n by (cases "lw_transport w") (simp_all add: login_step_def configured_def discovery_failed_def begin_login_def Let_def)
  ultimately show ?thesis by blast
qed

section \<open>Where a login goes wrong\<close>

text \<open>
  A cancellation while the code is being exchanged is ignored: the user is signed in.
\<close>

theorem cancel_after_redirect_is_ignored:
  assumes run: "login_run w login_start s" and flow: "matching_flow search s = Some f"
    and code: "\<not> truthy (search_get search ''error'')"
  shows "\<exists>u. cancelLogin (complete b f search (s\<lparr>m_current := None\<rparr>)) = complete b f search (s\<lparr>m_current := None\<rparr>)
    \<and> login_step w (Exchanged (pf_login f) (Some t)) (complete b f search (s\<lparr>m_current := None\<rparr>)) = Some u
    \<and> lg_result (m_logins u ! pf_login f) = Some (Login_ok t)"
proof -
  have ok: "login_ok s" by (rule login_ok_run [OF run login_ok_start])
  have "m_current s = Some f" using flow by (auto simp: matching_flow_def split: option.splits if_splits)
  note c = current_login [OF ok this]
  show ?thesis using c(2,4) code
    by (auto simp: complete_def Let_def cancelLogin_def login_step_def exchanged_def finish_def)
qed

text \<open>When the timer was faster than the exchange, the browser still reports a success.\<close>

theorem late_exchange_shows_success:
  assumes run: "login_run w login_start s" and flow: "matching_flow search s = Some f"
    and code: "\<not> truthy (search_get search ''error'')"
  shows "\<exists>u v. login_step w (Timer (pf_login f)) (complete True f search (s\<lparr>m_current := None\<rparr>)) = Some u
    \<and> login_step w (Exchanged (pf_login f) (Some t)) u = Some v
    \<and> lg_result (m_logins v ! pf_login f) = Some (Login_error ''auth_timeout'') \<and> (pf_login f, Done_page) \<in> set (m_pages v)"
proof -
  have ok: "login_ok s" by (rule login_ok_run [OF run login_ok_start])
  have "m_current s = Some f" using flow by (auto simp: matching_flow_def split: option.splits if_splits)
  note c = current_login [OF ok this]
  have "lg_timer (m_logins s ! pf_login f)" using logins_okD(4) [OF _ c(2,4,3)] ok by (simp add: login_ok_def)
  then show ?thesis using c(2,4) code
    by (auto simp: complete_def Let_def login_step_def exchanged_def finish_def)
qed

text \<open>A request target that is no address makes the request handler throw, whoever sent it.\<close>

theorem bad_request_target_throws:
  "foreign ''http'' ''//'' = None \<Longrightarrow> m_thrown (handleLoopback foreign ''//'' s)"
  by (simp add: handleLoopback_def new_URL_def clean_input_def control_or_space_def scheme_of_def is_letter_def lower_char_def
      relative_url_def is_slash_def)

section \<open>The window\<close>

datatype navigation_decision = Allow | Open_external | Deny

definition decideNavigation :: "url_parser \<Rightarrow> string \<Rightarrow> string option \<Rightarrow> navigation_decision" where
  "decideNavigation parse targetUrl rendererOrigin =
     (let web = (\<lambda>target. if ab_protocol target = ''http:'' \<or> ab_protocol target = ''https:'' then Open_external else Deny)
      in case parse targetUrl of
           None \<Rightarrow> Deny
         | Some target \<Rightarrow>
             (case rendererOrigin of
                None \<Rightarrow> if ab_protocol target = ''file:'' then Allow else web target
              | Some origin \<Rightarrow>
                  if ab_origin target = origin then Allow
                  else if ab_protocol target = ''file:'' then Deny
                  else web target))"

text \<open>The window: its document, and what was handed to the system's browser.\<close>

record window =
  wi_page :: string
  wi_opened :: "string list"

definition will_navigate :: "url_parser \<Rightarrow> string option \<Rightarrow> string \<Rightarrow> window \<Rightarrow> window" where
  "will_navigate parse rendererOrigin targetUrl v =
     (case decideNavigation parse targetUrl rendererOrigin of
        Allow \<Rightarrow> v\<lparr>wi_page := targetUrl\<rparr>
      | Open_external \<Rightarrow> v\<lparr>wi_opened := targetUrl # wi_opened v\<rparr>
      | Deny \<Rightarrow> v)"

definition window_open :: "url_parser \<Rightarrow> string \<Rightarrow> window \<Rightarrow> window" where
  "window_open parse url v =
     (case parse url of
        None \<Rightarrow> v
      | Some u \<Rightarrow> if ab_protocol u = ''http:'' \<or> ab_protocol u = ''https:'' then v\<lparr>wi_opened := url # wi_opened v\<rparr> else v)"

datatype window_event = Navigate string | Open_window string

fun window_step :: "url_parser \<Rightarrow> string option \<Rightarrow> window_event \<Rightarrow> window \<Rightarrow> window" where
  "window_step parse rendererOrigin (Navigate url) v = will_navigate parse rendererOrigin url v"
| "window_step parse rendererOrigin (Open_window url) v = window_open parse url v"

definition in_app :: "url_parser \<Rightarrow> string option \<Rightarrow> string \<Rightarrow> bool" where
  "in_app parse rendererOrigin url \<longleftrightarrow>
     (case parse url of None \<Rightarrow> False
      | Some u \<Rightarrow> (case rendererOrigin of None \<Rightarrow> ab_protocol u = ''file:'' | Some origin \<Rightarrow> ab_origin u = origin))"

definition on_web :: "url_parser \<Rightarrow> string \<Rightarrow> bool" where
  "on_web parse url \<longleftrightarrow> (case parse url of None \<Rightarrow> False | Some u \<Rightarrow> ab_protocol u = ''http:'' \<or> ab_protocol u = ''https:'')"

lemma decide_allows: "decideNavigation parse url origin = Allow \<Longrightarrow> in_app parse origin url"
  by (cases "parse url"; cases origin) (simp_all add: decideNavigation_def in_app_def Let_def split: if_splits)

lemma decide_opens: "decideNavigation parse url origin = Open_external \<Longrightarrow> on_web parse url"
  by (cases "parse url"; cases origin) (simp_all add: decideNavigation_def on_web_def Let_def split: if_splits)

lemma window_step_safe:
  assumes "in_app parse origin (wi_page v)" "\<forall>url \<in> set (wi_opened v). on_web parse url"
  shows "in_app parse origin (wi_page (window_step parse origin e v))
    \<and> (\<forall>url \<in> set (wi_opened (window_step parse origin e v)). on_web parse url)"
proof (cases e)
  case (Navigate url)
  then have w: "window_step parse origin e v = will_navigate parse origin url v" by simp
  show ?thesis
  proof (cases "decideNavigation parse url origin")
    case Allow
    show ?thesis unfolding w will_navigate_def using assms(2) decide_allows [OF Allow] by (simp add: Allow)
  next
    case Open_external
    show ?thesis unfolding w will_navigate_def using assms decide_opens [OF Open_external] by (simp add: Open_external)
  next
    case Deny
    show ?thesis unfolding w will_navigate_def using assms by (simp add: Deny)
  qed
next
  case (Open_window url)
  then have w: "window_step parse origin e v = window_open parse url v" by simp
  have "on_web parse url" if "window_open parse url v \<noteq> v" using that by (auto simp: window_open_def on_web_def split: option.splits if_splits)
  moreover have "window_open parse url v = v \<or> window_open parse url v = v\<lparr>wi_opened := url # wi_opened v\<rparr>"
    by (simp add: window_open_def split: option.split)
  ultimately show ?thesis unfolding w using assms by fastforce
qed

lemma window_fold_safe:
  "in_app parse origin (wi_page v) \<and> (\<forall>url \<in> set (wi_opened v). on_web parse url) \<Longrightarrow>
   in_app parse origin (wi_page (fold (window_step parse origin) events v))
   \<and> (\<forall>url \<in> set (wi_opened (fold (window_step parse origin) events v)). on_web parse url)"
proof (induction events arbitrary: v)
  case (Cons e events)
  show ?case unfolding fold_simps by (rule Cons.IH, rule window_step_safe) (use Cons.prems in blast)+
qed simp

text \<open>
  Whatever the document navigates to or opens, the window stays in the app, and only web pages
  are handed to the system.
\<close>

theorem window_stays_in_app:
  assumes "in_app parse rendererOrigin (wi_page v)" and "wi_opened v = []"
  shows "in_app parse rendererOrigin (wi_page (fold (window_step parse rendererOrigin) events v))
    \<and> (\<forall>url \<in> set (wi_opened (fold (window_step parse rendererOrigin) events v)). on_web parse url)"
  using window_fold_safe [of parse rendererOrigin v events] assms by simp

text \<open>The packaged app takes every \<open>file:\<close> address for its own, one with a host too.\<close>

theorem packaged_app_allows_any_file:
  assumes "parse url = Some \<lparr>ab_protocol = ''file:'', ab_host = h, ab_origin = ''null'', ab_search = q\<rparr>"
  shows "wi_page (will_navigate parse None url v) = url"
  using assms by (simp add: will_navigate_def decideNavigation_def)

section \<open>Sample runs\<close>

definition sample_parse :: url_parser where
  "sample_parse url =
     (if url = ''pivox://oidc-callback?code=c&state=s1''
      then Some \<lparr>ab_protocol = ''pivox:'', ab_host = ''oidc-callback'', ab_origin = ''null'', ab_search = ''?code=c&state=s1''\<rparr>
      else if startsWith url ''https://'' then Some \<lparr>ab_protocol = ''https:'', ab_host = [], ab_origin = url, ab_search = []\<rparr>
      else None)"

definition sample_world :: login_world where
  "sample_world = \<lparr>lw_transport = Scheme, lw_landing = ''https://app.example/launch'', lw_foreign = (\<lambda>_ _. None), lw_parse = sample_parse\<rparr>"

fun login_exec :: "login_world \<Rightarrow> login_event list \<Rightarrow> login_module \<Rightarrow> login_module option" where
  "login_exec w [] s = Some s"
| "login_exec w (e # es) s = Option.bind (login_step w e s) (login_exec w es)"

lemma login_run_front: "login_run w t u \<Longrightarrow> login_run w s t \<Longrightarrow> login_run w s u"
  by (induction rule: login_run.induct) (auto intro: login_next)

lemma login_exec_run: "login_exec w es s = Some t \<Longrightarrow> login_run w s t"
proof (induction es arbitrary: s)
  case (Cons e es)
  then obtain u where "login_step w e s = Some u" "login_exec w es u = Some t" by (auto simp: bind_eq_Some_conv)
  then show ?case using Cons.IH login_run_front login_next [OF login_here] by blast
qed (simp add: login_here)

lemma sample_search: "search_get ''?code=c&state=s1'' ''state'' = Some ''s1''" "search_get ''?code=c&state=s1'' ''error'' = None"
  by code_simp+

definition redirected_events :: "login_event list" where
  "redirected_events = [Start_login, Start_login, Configured 0 True, Authorized 0 (Some (''v1'', ''s1'')), Link ''pivox://oidc-callback?code=c&state=s1'']"

definition redirected_state :: login_module where
  "redirected_state = \<lparr>m_inProgress = True, m_current = None,
     m_logins = [\<lparr>lg_pc = W_Exchange False, lg_settled = False, lg_timer = True, lg_server = False, lg_result = None\<rparr>],
     m_refused = 1, m_exchanges = [(0, ''?code=c&state=s1'', ''v1'')], m_states = [(0, ''s1'', ''v1'')], m_pages = [], m_thrown = False\<rparr>"

lemma redirected_run: "login_run sample_world login_start redirected_state"
  by (rule login_exec_run [of _ redirected_events])
    (simp add: redirected_events_def redirected_state_def login_start_def login_step_def runLogin_def configured_def begin_login_def
      set_login_def authorized_def handleAuthCallbackDeepLink_def matching_flow_def complete_def sample_world_def sample_parse_def
      sample_search Let_def)

theorem one_login_at_a_time_witness:
  "m_refused redirected_state = 1 \<and> m_inProgress redirected_state \<and> \<not> lg_settled (last (m_logins redirected_state))"
proof -
  have "m_inProgress redirected_state" "m_refused redirected_state = 1" by (simp_all add: redirected_state_def)
  then show ?thesis using one_login_at_a_time [OF redirected_run] by blast
qed

theorem one_exchange_per_login_witness:
  "m_exchanges redirected_state = [(0, ''?code=c&state=s1'', ''v1'')]
   \<and> (\<exists>state. (0, state, ''v1'') \<in> set (m_states redirected_state) \<and> search_get ''?code=c&state=s1'' ''state'' = Some state)"
proof -
  have "m_exchanges redirected_state = [(0, ''?code=c&state=s1'', ''v1'')]" by (simp add: redirected_state_def)
  then show ?thesis using one_exchange_per_login [OF redirected_run] by auto
qed

theorem every_login_ends_witness:
  "\<exists>s'. login_step sample_world (Timer 0) redirected_state = Some s'
    \<and> lg_result (m_logins s' ! 0) = Some (Login_error ''auth_timeout'') \<and> \<not> m_inProgress s'"
proof -
  have "0 < length (m_logins redirected_state)" "\<not> lg_settled (m_logins redirected_state ! 0)"
    "lg_pc (m_logins redirected_state ! 0) \<noteq> W_Config" by (simp_all add: redirected_state_def)
  then show ?thesis using every_login_ends [OF redirected_run] by blast
qed

theorem window_stays_in_app_witness:
  "on_web sample_parse ''https://evil.example''
   \<and> in_app sample_parse (Some ''https://dev'') (wi_page (fold (window_step sample_parse (Some ''https://dev''))
       [Navigate ''https://evil.example''] \<lparr>wi_page = ''https://dev'', wi_opened = []\<rparr>))"
proof -
  have "in_app sample_parse (Some ''https://dev'') (wi_page \<lparr>wi_page = ''https://dev'', wi_opened = []\<rparr>)"
    by (simp add: in_app_def sample_parse_def startsWith_def)
  moreover have "on_web sample_parse ''https://evil.example''" by (simp add: on_web_def sample_parse_def startsWith_def)
  ultimately show ?thesis using window_stays_in_app [of sample_parse "Some ''https://dev''" "\<lparr>wi_page = ''https://dev'', wi_opened = []\<rparr>"
      "[Navigate ''https://evil.example'']"] by (metis window.select_convs(2))
qed

end
