(* ===== verification/Desktop_Windows.thy ===== *)
theory Desktop_Windows
  imports Desktop_Session
begin

text \<open>
  What a window of the desktop app shows of the session: the provider of the renderer
  (\<^verbatim>\<open>apps/electron/src/renderer/lib/keycloak-auth-provider.tsx\<close>) beside the main process of
  Desktop_Session. Each notice of the main process is a message to the window; on a message the
  window asks for the state again. Questions and answers travel in any order. The window numbers its
  questions and takes an answer only when no later question was asked.

  It is proved that the window shows the state of the session once all messages and answers have
  arrived.
\<close>

section \<open>The provider\<close>

text \<open>
  \<open>wd_reads\<close> holds the calls of \<open>getAuthState\<close> without an answer, under their numbers: with the
  state once the main process has handled the call. \<open>wd_silent\<close> records that the session changed
  without a notice.
\<close>

record desktop_window =
  wd_loading :: bool
  wd_user :: "auth_user option"
  wd_active :: bool
  wd_seq :: nat
  wd_reads :: "nat \<rightharpoonup> auth_state option"

record 'f with_window =
  ww_main :: "'f desktop"
  ww_changed :: nat
  ww_window :: desktop_window
  ww_silent :: bool

text \<open>\<open>sync\<close>, up to its answer.\<close>

definition sync_start :: "desktop_window \<Rightarrow> desktop_window" where
  "sync_start v = (let mine = wd_seq v + 1 in v\<lparr>wd_seq := mine, wd_reads := (wd_reads v)(mine \<mapsto> None)\<rparr>)"

definition sync_end :: "nat \<Rightarrow> auth_state \<Rightarrow> desktop_window \<Rightarrow> desktop_window" where
  "sync_end mine state v =
     (let v' = v\<lparr>wd_reads := (wd_reads v)(mine := None)\<rparr>
      in if wd_active v \<and> mine = wd_seq v then v'\<lparr>wd_loading := \<not> as_ready state, wd_user := as_user state\<rparr> else v')"

text \<open>The window is mounted: the first question is asked at once.\<close>

definition mount_window :: "'f desktop \<Rightarrow> 'f with_window" where
  "mount_window main = \<lparr>ww_main = main, ww_changed = 0,
     ww_window = sync_start \<lparr>wd_loading = True, wd_user = None, wd_active = True, wd_seq = 0, wd_reads = Map.empty\<rparr>,
     ww_silent = False\<rparr>"

datatype window_message =
    Main_event desktop_event
  | Changed_arrives
  | Read_handled nat
  | Read_answered nat
  | Unmounted

definition windowed_step ::
  "(string \<Rightarrow> oidc_claims option) \<Rightarrow> 'f persistence \<Rightarrow> window_message \<Rightarrow> 'f with_window \<Rightarrow> 'f with_window option" where
  "windowed_step decode p e s =
     (case e of
        Main_event d \<Rightarrow>
          (case desktop_step p d (ww_main s) of
             None \<Rightarrow> None
           | Some main \<Rightarrow>
               let told = d_notices main - d_notices (ww_main s)
               in Some (s\<lparr>ww_main := main, ww_changed := ww_changed s + told,
                    ww_silent := ww_silent s \<or> (told = 0 \<and> getAuthState decode main \<noteq> getAuthState decode (ww_main s))\<rparr>))
      | Changed_arrives \<Rightarrow>
          if ww_changed s = 0 then None
          else Some (s\<lparr>ww_changed := ww_changed s - 1, ww_window := sync_start (ww_window s)\<rparr>)
      | Read_handled mine \<Rightarrow>
          if wd_reads (ww_window s) mine = Some None
          then Some (s\<lparr>ww_window := (ww_window s)\<lparr>wd_reads := (wd_reads (ww_window s))(mine \<mapsto> Some (getAuthState decode (ww_main s)))\<rparr>\<rparr>)
          else None
      | Read_answered mine \<Rightarrow>
          (case wd_reads (ww_window s) mine of
             Some (Some state) \<Rightarrow> Some (s\<lparr>ww_window := sync_end mine state (ww_window s)\<rparr>)
           | _ \<Rightarrow> None)
      | Unmounted \<Rightarrow> Some (s\<lparr>ww_window := (ww_window s)\<lparr>wd_active := False\<rparr>\<rparr>))"

inductive windowed_run :: "(string \<Rightarrow> oidc_claims option) \<Rightarrow> 'f persistence \<Rightarrow> 'f with_window \<Rightarrow> 'f with_window \<Rightarrow> bool"
  for decode p where
  windowed_here: "windowed_run decode p s s"
| windowed_next: "windowed_run decode p s t \<Longrightarrow> windowed_step decode p e t = Some u \<Longrightarrow> windowed_run decode p s u"

section \<open>The window catches up\<close>

text \<open>
  Unless a message is on its way, the last question will bring the state as it is, or it has brought it.
\<close>

definition up_to_date :: "(string \<Rightarrow> oidc_claims option) \<Rightarrow> 'f with_window \<Rightarrow> bool" where
  "up_to_date decode s \<longleftrightarrow>
     (let v = ww_window s; now = getAuthState decode (ww_main s)
      in \<not> wd_active v \<or> (ww_silent s \<or> ww_changed s > 0
         \<or> wd_reads v (wd_seq v) = Some None \<or> wd_reads v (wd_seq v) = Some (Some now)
         \<or> (wd_reads v (wd_seq v) = None \<and> wd_loading v = (\<not> as_ready now) \<and> wd_user v = as_user now)))"

lemma up_to_date_step:
  assumes ok: "up_to_date decode s" and step: "windowed_step decode p e s = Some s'"
  shows "up_to_date decode s'"
proof (cases e)
  case (Main_event d)
  then obtain main where main: "desktop_step p d (ww_main s) = Some main"
    "s' = s\<lparr>ww_main := main, ww_changed := ww_changed s + (d_notices main - d_notices (ww_main s)),
       ww_silent := ww_silent s \<or> (d_notices main - d_notices (ww_main s) = 0 \<and> getAuthState decode main \<noteq> getAuthState decode (ww_main s))\<rparr>"
    using step by (auto simp: windowed_step_def Let_def split: option.splits)
  show ?thesis
  proof (cases "getAuthState decode main = getAuthState decode (ww_main s)")
    case True
    then show ?thesis using ok main(2) by (auto simp: up_to_date_def Let_def)
  next
    case False
    then have "ww_silent s' \<or> ww_changed s' > 0" using main(2) by (cases "d_notices main \<le> d_notices (ww_main s)") simp_all
    then show ?thesis using ok main(2) by (auto simp: up_to_date_def Let_def)
  qed
next
  case Changed_arrives
  then have "s' = s\<lparr>ww_changed := ww_changed s - 1, ww_window := sync_start (ww_window s)\<rparr>"
    using step by (simp add: windowed_step_def split: if_splits)
  then show ?thesis using ok by (simp add: up_to_date_def sync_start_def Let_def)
next
  case (Read_handled mine)
  then have "s' = s\<lparr>ww_window := (ww_window s)\<lparr>wd_reads := (wd_reads (ww_window s))(mine \<mapsto> Some (getAuthState decode (ww_main s)))\<rparr>\<rparr>"
    "wd_reads (ww_window s) mine = Some None"
    using step by (simp_all add: windowed_step_def split: if_splits)
  then show ?thesis using ok by (cases "mine = wd_seq (ww_window s)") (simp_all add: up_to_date_def Let_def)
next
  case (Read_answered mine)
  then obtain state where st: "wd_reads (ww_window s) mine = Some (Some state)" "s' = s\<lparr>ww_window := sync_end mine state (ww_window s)\<rparr>"
    using step by (auto simp: windowed_step_def split: option.splits)
  then show ?thesis using ok by (cases "mine = wd_seq (ww_window s)") (auto simp: up_to_date_def sync_end_def Let_def)
next
  case Unmounted
  then show ?thesis using step by (auto simp: windowed_step_def up_to_date_def Let_def)
qed

lemma up_to_date_run: "windowed_run decode p s t \<Longrightarrow> up_to_date decode s \<Longrightarrow> up_to_date decode t"
  by (induction rule: windowed_run.induct) (blast intro: up_to_date_step)+

lemma up_to_date_mount: "up_to_date decode (mount_window main)"
  by (simp add: up_to_date_def mount_window_def sync_start_def Let_def)

text \<open>
  C17. When all messages and answers have arrived, a window that is still mounted shows the state of the session: it has
  stopped loading exactly when the session was restored, and it shows the session's user, provided
  that the session changed with a notice each time.
\<close>

theorem window_shows_the_session:
  assumes "windowed_run decode p (mount_window main) s" and "\<not> ww_silent s" and "ww_changed s = 0" and "wd_reads (ww_window s) = Map.empty"
    and "wd_active (ww_window s)"
  shows "wd_loading (ww_window s) = (\<not> d_ready (ww_main s)) \<and> wd_user (ww_window s) = getUser decode (ww_main s)"
  using up_to_date_run [OF assms(1) up_to_date_mount] assms(2-5) by (simp add: up_to_date_def getAuthState_def Let_def)

text \<open>
  The session changes with a notice each time, except at a start of the program, by the
  tokens of a refresh, and by a login whose tokens could not be written: in a run without these,
  the window is never silent.
\<close>

definition announced_event :: "window_message \<Rightarrow> bool" where
  "announced_event e \<longleftrightarrow> (\<forall>d. e = Main_event d \<longrightarrow>
     d \<noteq> Relaunch \<and> (\<forall>n response writes. d \<noteq> Network n (Token_set response writes)) \<and> (\<forall>t. d \<noteq> Logged_in t False))"

fun windowed_exec ::
  "(string \<Rightarrow> oidc_claims option) \<Rightarrow> 'f persistence \<Rightarrow> window_message list \<Rightarrow> 'f with_window \<Rightarrow> 'f with_window option" where
  "windowed_exec decode p [] s = Some s"
| "windowed_exec decode p (e # es) s = Option.bind (windowed_step decode p e s) (windowed_exec decode p es)"

lemma never_silent_step:
  assumes "windowed_step decode (createTokenStore m) e s = Some s'" "announced_event e" "\<not> ww_silent s"
  shows "\<not> ww_silent s'"
proof (cases e)
  case (Main_event d)
  then obtain main where main: "desktop_step (createTokenStore m) d (ww_main s) = Some main"
    "ww_silent s' \<longleftrightarrow> d_notices main - d_notices (ww_main s) = 0 \<and> getAuthState decode main \<noteq> getAuthState decode (ww_main s)"
    using assms by (auto simp: windowed_step_def Let_def split: option.splits)
  then show ?thesis using change_is_noticed [OF main(1)] assms(2) Main_event by (fastforce simp: announced_event_def)
qed (use assms in \<open>auto simp: windowed_step_def Let_def split: option.splits if_splits\<close>)

theorem announced_run_is_shown:
  assumes "windowed_exec decode (createTokenStore m) es (mount_window main) = Some s" and "\<forall>e \<in> set es. announced_event e"
    and "ww_changed s = 0" and "wd_reads (ww_window s) = Map.empty"
    and "wd_active (ww_window s)"
  shows "wd_loading (ww_window s) = (\<not> d_ready (ww_main s)) \<and> wd_user (ww_window s) = getUser decode (ww_main s)"
proof -
  have "\<not> ww_silent s \<and> up_to_date decode s"
    if "windowed_exec decode (createTokenStore m) es t = Some s" "\<forall>e \<in> set es. announced_event e" "\<not> ww_silent t" "up_to_date decode t" for t
    using that
  proof (induction es arbitrary: t)
    case (Cons e es)
    then obtain u where u: "windowed_step decode (createTokenStore m) e t = Some u" "windowed_exec decode (createTokenStore m) es u = Some s"
      by (auto simp: bind_eq_Some_conv)
    then show ?case using Cons never_silent_step [OF u(1)] up_to_date_step [OF _ u(1)] by simp
  qed simp
  from this [OF assms(1,2) _ up_to_date_mount] have "\<not> ww_silent s" "up_to_date decode s" by (simp_all add: mount_window_def)
  then show ?thesis using assms(3-5) by (simp add: up_to_date_def getAuthState_def Let_def)
qed

text \<open>The user signs out while the first answer is on its way; the answers arrive in the wrong order.\<close>

definition sign_out_messages :: "window_message list" where
  "sign_out_messages = [Read_handled 1, Main_event Log_out, Changed_arrives, Read_handled 2, Read_answered 2, Read_answered 1]"

definition ada :: "string \<Rightarrow> oidc_claims option" where
  "ada token = Some \<lparr>oc_sub = Some ''ada'', oc_email = None, oc_name = None, oc_preferred_username = None, oc_picture = None\<rparr>"

lemma windowed_run_front: "windowed_run decode p t u \<Longrightarrow> windowed_run decode p s t \<Longrightarrow> windowed_run decode p s u"
  by (induction rule: windowed_run.induct) (auto intro: windowed_next)

lemma windowed_exec_run: "windowed_exec decode p es s = Some t \<Longrightarrow> windowed_run decode p s t"
proof (induction es arbitrary: s)
  case (Cons e es)
  then obtain u where "windowed_step decode p e s = Some u" "windowed_exec decode p es u = Some t" by (auto simp: bind_eq_Some_conv)
  then show ?case using Cons.IH windowed_run_front windowed_next [OF windowed_here] by blast
qed (simp add: windowed_here)

theorem window_shows_the_session_witness:
  "getUser ada granted_state \<noteq> None
   \<and> (\<exists>s. windowed_exec ada (createTokenStore sample_os) sign_out_messages (mount_window granted_state) = Some s \<and> wd_user (ww_window s) = None)"
proof -
  obtain s where s: "windowed_exec ada (createTokenStore sample_os) sign_out_messages (mount_window granted_state) = Some s"
    "\<not> ww_silent s" "ww_changed s = 0" "wd_reads (ww_window s) = Map.empty" "wd_active (ww_window s)" "getUser ada (ww_main s) = None"
    by (simp add: sign_out_messages_def windowed_step_def mount_window_def sync_start_def sync_end_def granted_state_def desktop_step_def
        logout_def notify_def clear_session_def getUser_def Let_def numeral_2_eq_2)
  have "getUser ada granted_state \<noteq> None"
    by (simp add: getUser_def granted_state_def ada_def second_tokens_def refreshTokens_def tokensFromResponse_def next_response_def)
  then show ?thesis using s window_shows_the_session [OF windowed_exec_run [OF s(1)] s(2-5)] by auto
qed

end
