(* ===== verification/Json_Text.thy ===== *)
theory Json_Text
  imports Storage_Boot
begin

text \<open>
  \<open>JSON.parse\<close> of the standard library, on UTF-8 bytes, and \<open>JSON.stringify\<close> of an object whose
  members are texts. The server reads cookies and id tokens with the first
  (\<^verbatim>\<open>apps/start/src/server/oidc/session.ts\<close>, \<^verbatim>\<open>packages/oidc/src/claims.ts\<close>) and writes the
  cookie of a login with the second.

  It is proved that parsing reads back what was written, whatever the texts contain.
\<close>

section \<open>Values\<close>

text \<open>A number stays the text it was written as: no code here computes with one. An object has each key once.\<close>

datatype jvalue =
    VNull
  | VBool bool
  | VNumber string
  | VString string
  | VArray "jvalue list"
  | VObject "(string \<times> jvalue) list"

definition json_ws :: "string \<Rightarrow> string" where
  "json_ws s = dropWhile (\<lambda>c. byte c = 32 \<or> byte c = 9 \<or> byte c = 10 \<or> byte c = 13) s"

section \<open>Strings\<close>

text \<open>A string literal is a row of bytes and of escaped UTF-16 code units.\<close>

datatype piece = Byte char | Unit nat

definition simple_escape :: "char \<Rightarrow> char option" where
  "simple_escape c =
     (if byte c = 34 \<or> byte c = 92 \<or> c = CHR ''/'' then Some c
      else if c = CHR ''b'' then Some (char_of (8 :: nat)) else if c = CHR ''f'' then Some (char_of (12 :: nat))
      else if c = CHR ''n'' then Some (char_of (10 :: nat)) else if c = CHR ''r'' then Some (char_of (13 :: nat))
      else if c = CHR ''t'' then Some (char_of (9 :: nat)) else None)"

fun hex_unit :: "string \<Rightarrow> (nat \<times> string) option" where
  "hex_unit (a # b # c # d # s) =
     Option.bind (hex_value a) (\<lambda>w. Option.bind (hex_value b) (\<lambda>x. Option.bind (hex_value c) (\<lambda>y.
       map_option (\<lambda>z. (4096 * w + 256 * x + 16 * y + z, s)) (hex_value d))))"
| "hex_unit _ = None"

lemma hex_unit_length: "hex_unit s = Some (n, r) \<Longrightarrow> length r < length s"
  by (induction s rule: hex_unit.induct) (auto simp: bind_eq_Some_conv)

text \<open>The rest of a literal behind its opening quote, and what follows it.\<close>

function json_pieces :: "string \<Rightarrow> (piece list \<times> string) option" where
  "json_pieces s =
     (case s of [] \<Rightarrow> None
      | c # r \<Rightarrow>
          if byte c = 34 then Some ([], r)
          else if byte c < 32 then None
          else if byte c \<noteq> 92 then map_option (apfst ((#) (Byte c))) (json_pieces r)
          else (case r of [] \<Rightarrow> None
            | e # t \<Rightarrow>
                (case simple_escape e of
                   Some d \<Rightarrow> map_option (apfst ((#) (Byte d))) (json_pieces t)
                 | None \<Rightarrow>
                     if e \<noteq> CHR ''u'' then None
                     else (case hex_unit t of None \<Rightarrow> None
                       | Some (n, u) \<Rightarrow> map_option (apfst ((#) (Unit n))) (json_pieces u)))))"
  by pat_completeness auto
termination by (relation "measure length") (auto dest: hex_unit_length)

declare json_pieces.simps [simp del]

definition utf8_encode :: "nat \<Rightarrow> string" where
  "utf8_encode n = map char_of
     (if n < 128 then [n]
      else if n < 2048 then [192 + n div 64, 128 + n mod 64]
      else if n < 65536 then [224 + n div 4096, 128 + n div 64 mod 64, 128 + n mod 64]
      else [240 + n div 262144, 128 + n div 4096 mod 64, 128 + n div 64 mod 64, 128 + n mod 64])"

fun pieces_text :: "piece list \<Rightarrow> string" where
  "pieces_text [] = []"
| "pieces_text (Byte c # ps) = c # pieces_text ps"
| "pieces_text (Unit m # Unit n # ps) =
     (if 55296 \<le> m \<and> m < 56320 \<and> 56320 \<le> n \<and> n < 57344
      then utf8_encode (65536 + (m - 55296) * 1024 + (n - 56320)) @ pieces_text ps
      else utf8_encode m @ pieces_text (Unit n # ps))"
| "pieces_text (Unit m # ps) = utf8_encode m @ pieces_text ps"

definition json_text :: "string \<Rightarrow> (string \<times> string) option" where
  "json_text s = map_option (apfst pieces_text) (json_pieces s)"

section \<open>The parser\<close>

definition digits_of :: "string \<Rightarrow> string \<times> string" where
  "digits_of s = (takeWhile is_digit s, dropWhile is_digit s)"

definition json_number :: "string \<Rightarrow> (string \<times> string) option" where
  "json_number s =
     (let (sign, s1) = (if startsWith s ''-'' then (''-'', tl s) else ([], s));
          (whole, s2) = (if startsWith s1 ''0'' then (''0'', tl s1) else digits_of s1);
          (frac, s3) = (if startsWith s2 ''.'' then (let (ds, t) = digits_of (tl s2) in if ds = [] then ([], s2) else (CHR ''.'' # ds, t)) else ([], s2));
          (ex, s4) = (if startsWith s3 ''e'' \<or> startsWith s3 ''E''
             then (let (sg, t) = (if startsWith (tl s3) ''+'' \<or> startsWith (tl s3) ''-'' then ([hd (tl s3)], tl (tl s3)) else ([], tl s3));
                       (ds, u) = digits_of t
                   in if ds = [] then ([], s3) else (hd s3 # sg @ ds, u)) else ([], s3))
      in if whole = [] then None else Some (sign @ whole @ frac @ ex, s4))"

fun json_value :: "nat \<Rightarrow> string \<Rightarrow> (jvalue \<times> string) option"
  and json_elements :: "nat \<Rightarrow> jvalue list \<Rightarrow> string \<Rightarrow> (jvalue \<times> string) option"
  and json_members :: "nat \<Rightarrow> (string \<times> jvalue) list \<Rightarrow> string \<Rightarrow> (jvalue \<times> string) option" where
  "json_value 0 s = None"
| "json_value (Suc k) s =
     (case json_ws s of [] \<Rightarrow> None
      | c # r \<Rightarrow>
          if byte c = 34 then map_option (apfst VString) (json_text r)
          else if byte c = 123 then
            (if startsWith (json_ws r) [CHR 0x7D] then Some (VObject [], tl (json_ws r)) else json_members k [] (json_ws r))
          else if byte c = 91 then
            (if startsWith (json_ws r) [CHR 0x5D] then Some (VArray [], tl (json_ws r)) else json_elements k [] r)
          else if startsWith (c # r) ''true'' then Some (VBool True, drop 3 r)
          else if startsWith (c # r) ''false'' then Some (VBool False, drop 4 r)
          else if startsWith (c # r) ''null'' then Some (VNull, drop 3 r)
          else map_option (apfst VNumber) (json_number (c # r)))"
| "json_elements 0 vs s = None"
| "json_elements (Suc k) vs s =
     (case json_value k s of None \<Rightarrow> None
      | Some (v, r) \<Rightarrow>
          (case json_ws r of
             c # t \<Rightarrow> if byte c = 44 then json_elements k (vs @ [v]) t
                     else if byte c = 93 then Some (VArray (vs @ [v]), t) else None
           | [] \<Rightarrow> None))"
| "json_members 0 ms s = None"
| "json_members (Suc k) ms s =
     (case s of [] \<Rightarrow> None
      | q # r \<Rightarrow>
          if byte q \<noteq> 34 then None
          else case json_text r of None \<Rightarrow> None
            | Some (name, t) \<Rightarrow>
                (case json_ws t of [] \<Rightarrow> None
                 | colon # u \<Rightarrow>
                     if byte colon \<noteq> 58 then None
                     else case json_value k u of None \<Rightarrow> None
                       | Some (v, w) \<Rightarrow>
                           (case json_ws w of
                              c # x \<Rightarrow> if byte c = 44 then json_members k (AList.update name v ms) (json_ws x)
                                      else if byte c = 125 then Some (VObject (AList.update name v ms), x) else None
                            | [] \<Rightarrow> None)))"

text \<open>
  \<open>JSON.parse\<close>; \<open>None\<close> is a \<open>SyntaxError\<close>. Every nested value lies behind a character of its own,
  so the length of the text is enough fuel.
\<close>

definition json_parse :: "string \<Rightarrow> jvalue option" where
  "json_parse s =
     (case json_value (length s + 1) s of
        Some (v, r) \<Rightarrow> if json_ws r = [] then Some v else None
      | None \<Rightarrow> None)"

text \<open>\<open>JSON.stringify\<close> of an object of texts.\<close>

definition json_member :: "string \<times> string \<Rightarrow> string" where
  "json_member m = json_string (fst m) @ '':'' @ json_string (snd m)"

definition json_object :: "(string \<times> string) list \<Rightarrow> string" where
  "json_object ms = [CHR 0x7B] @ join_with '','' (map json_member ms) @ [CHR 0x7D]"

section \<open>Reading back\<close>

lemma hex_value_lower: "d < 16 \<Longrightarrow> hex_value (lower (hex_digit d)) = Some d"
  by (auto simp: hex_value_def hex_digit_def lower_def)

lemma json_pieces_plain:
  "byte c \<noteq> 34 \<Longrightarrow> byte c \<noteq> 92 \<Longrightarrow> \<not> byte c < 32 \<Longrightarrow> json_pieces (c # s) = map_option (apfst ((#) (Byte c))) (json_pieces s)"
  by (subst json_pieces.simps) simp

lemma json_pieces_escape:
  "simple_escape e = Some d \<Longrightarrow> json_pieces (char_of (92 :: nat) # e # s) = map_option (apfst ((#) (Byte d))) (json_pieces s)"
  by (subst json_pieces.simps) simp

lemma json_pieces_unit:
  "hex_unit t = Some (n, u) \<Longrightarrow> json_pieces (char_of (92 :: nat) # CHR ''u'' # t) = map_option (apfst ((#) (Unit n))) (json_pieces u)"
  by (subst json_pieces.simps) (simp add: simple_escape_def)

text \<open>One written character is read as one piece that stands for it.\<close>

definition stands_for :: "piece \<Rightarrow> char \<Rightarrow> bool" where
  "stands_for p c \<longleftrightarrow> p = Byte c \<or> (p = Unit (byte c) \<and> byte c < 32)"

lemma json_pieces_char: "\<exists>p. stands_for p c \<and> json_pieces (json_char c @ s) = map_option (apfst ((#) p)) (json_pieces s)"
proof -
  consider "byte c = 34 \<or> byte c = 92" | "byte c \<in> {8, 12, 10, 13, 9}" | "byte c < 32" "byte c \<notin> {8, 12, 10, 13, 9}"
    | "\<not> byte c < 32" "byte c \<noteq> 34" "byte c \<noteq> 92" by blast
  then show ?thesis
  proof cases
    case 1
    then have "simple_escape c = Some c" "json_char c = [char_of (92 :: nat), c]"
      by (auto simp: simple_escape_def json_char_def) (metis char_of_char)+
    then show ?thesis using json_pieces_escape [of c c s] by (auto simp: stands_for_def)
  next
    case 2
    then have "\<exists>e. simple_escape e = Some c \<and> json_char c = [char_of (92 :: nat), e]"
      by (auto simp: simple_escape_def json_char_def) (metis char_of_char)+
    then show ?thesis using json_pieces_escape by (fastforce simp: stands_for_def)
  next
    case 3
    have lt: "byte c div 16 < 16" "byte c mod 16 < 16" using 3 by auto
    have "json_char c = char_of (92 :: nat) # CHR ''u'' # ''00'' @ map lower [hex_digit (byte c div 16), hex_digit (byte c mod 16)]"
      using 3 by (simp add: json_char_def)
    moreover have "hex_unit (''00'' @ map lower [hex_digit (byte c div 16), hex_digit (byte c mod 16)] @ s) = Some (byte c, s)"
      using hex_value_lower [OF lt(1)] hex_value_lower [OF lt(2)] by (simp add: hex_value_def [of "CHR ''0''"])
    ultimately show ?thesis using json_pieces_unit 3 by (fastforce simp: stands_for_def)
  next
    case 4
    then have "json_char c = [c]" by (auto simp: json_char_def)
    then show ?thesis using json_pieces_plain 4 by (auto simp: stands_for_def)
  qed
qed

lemma pieces_text_stands:
  "list_all2 stands_for ps s \<Longrightarrow> pieces_text ps = s"
proof (induction ps arbitrary: s rule: pieces_text.induct)
  case (3 m n ps)
  then obtain c t where s: "s = c # t" "stands_for (Unit m) c" "list_all2 stands_for (Unit n # ps) t"
    using list_all2_Cons1 [of stands_for "Unit m" "Unit n # ps" s] by blast
  then have m: "m = byte c" "byte c < 32" by (simp_all add: stands_for_def)
  have "pieces_text (Unit n # ps) = t" by (rule 3(2) [OF _ s(3)]) (use m in simp)
  then show ?case using s(1) m by (simp add: utf8_encode_def)
qed (auto simp: list_all2_Cons1 stands_for_def utf8_encode_def)

lemma json_text_string: "json_text (concat (map json_char s) @ char_of (34 :: nat) # r) = Some (s, r)"
proof -
  have "\<exists>ps. list_all2 stands_for ps s \<and> json_pieces (concat (map json_char s) @ char_of (34 :: nat) # r) = Some (ps, r)"
  proof (induction s)
    case Nil
    then show ?case by (subst json_pieces.simps) simp
  next
    case (Cons c s)
    then obtain ps where ps: "list_all2 stands_for ps s" "json_pieces (concat (map json_char s) @ char_of (34 :: nat) # r) = Some (ps, r)"
      by blast
    obtain p where p: "stands_for p c"
      "json_pieces (json_char c @ concat (map json_char s) @ char_of (34 :: nat) # r) = map_option (apfst ((#) p)) (json_pieces (concat (map json_char s) @ char_of (34 :: nat) # r))"
      using json_pieces_char by blast
    then show ?case using ps by (intro exI [of _ "p # ps"]) simp
  qed
  then show ?thesis using pieces_text_stands by (fastforce simp: json_text_def)
qed

lemma json_ws_plain: "32 < byte c \<Longrightarrow> json_ws (c # s) = c # s"
  by (simp add: json_ws_def)

lemma json_string_split: "json_string s @ r = char_of (34 :: nat) # concat (map json_char s) @ char_of (34 :: nat) # r"
  by (simp add: json_string_def)

lemma json_value_string: "json_value (Suc k) (json_string s @ r) = Some (VString s, r)"
  by (simp add: json_string_split json_ws_plain json_text_string)

lemma json_member_string:
  "json_members (Suc (Suc k)) ms (json_member (name, v) @ r) =
     (case json_ws r of
        c # x \<Rightarrow> if byte c = 44 then json_members (Suc k) (AList.update name (VString v) ms) (json_ws x)
                else if byte c = 125 then Some (VObject (AList.update name (VString v) ms), x) else None
      | [] \<Rightarrow> None)"
proof -
  have "json_member (name, v) @ r = char_of (34 :: nat) # concat (map json_char name) @ char_of (34 :: nat) # CHR '':'' # json_string v @ r"
    by (simp add: json_member_def json_string_def)
  then show ?thesis using json_value_string [of k v r] json_text_string [of name "CHR '':'' # json_string v @ r"]
    by (simp del: json_value.simps add: json_ws_plain)
qed

lemma json_member_ws: "json_ws (json_member m @ r) = json_member m @ r"
  by (simp add: json_member_def json_string_def json_ws_plain)

lemma json_members_strings:
  assumes "ms \<noteq> []" "length ms < k" "\<forall>m \<in> set ms. fst m \<notin> fst ` set acc" "distinct (map fst ms)"
  shows "json_members k acc (join_with '','' (map json_member ms) @ CHR 0x7D # r)
    = Some (VObject (acc @ map (\<lambda>(n, v). (n, VString v)) ms), r)"
  using assms
proof (induction ms arbitrary: k acc)
  case (Cons m ms)
  obtain name v where m: "m = (name, v)" by (cases m)
  obtain j where k: "k = Suc (Suc j)" using Cons.prems(2) by (cases k; cases "k - 1") auto
  have new: "AList.update name (VString v) acc = acc @ [(name, VString v)]" using Cons.prems(3) m by (simp add: update_append_new)
  show ?case
  proof (cases ms)
    case Nil
    then show ?thesis using m k new json_member_string [of j acc name v "CHR 0x7D # r"] by (simp add: json_ws_plain)
  next
    case (Cons m' ms')
    then have "join_with '','' (map json_member (m # ms)) @ CHR 0x7D # r
        = json_member (name, v) @ CHR '','' # join_with '','' (map json_member ms) @ CHR 0x7D # r"
      using m by simp
    moreover have "json_ws (join_with '','' (map json_member ms) @ CHR 0x7D # r) = join_with '','' (map json_member ms) @ CHR 0x7D # r"
      using Cons by (cases ms') (simp_all add: json_member_ws)
    moreover have "json_members (Suc j) (acc @ [(name, VString v)]) (join_with '','' (map json_member ms) @ CHR 0x7D # r)
        = Some (VObject ((acc @ [(name, VString v)]) @ map (\<lambda>(n, v). (n, VString v)) ms), r)"
      by (rule Cons.IH) (use Cons Cons.prems m k in auto)
    ultimately show ?thesis using m k new by (simp add: json_member_string json_ws_plain del: json_members.simps)
  qed
qed simp

lemma length_json_members: "length ms \<le> length (join_with '','' (map json_member ms))"
proof (induction ms)
  case (Cons m ms)
  then show ?case by (cases ms) (simp_all add: json_member_def json_string_def)
qed simp

lemma quote_no_brace: "char_of (34 :: nat) \<noteq> CHR 0x7D"
  by (rule not_sym, rule char_of_neqI) simp

lemma json_parse_object:
  assumes "ms \<noteq> []" "distinct (map fst ms)"
  shows "json_parse (json_object ms) = Some (VObject (map (\<lambda>(n, v). (n, VString v)) ms))"
proof -
  let ?body = "join_with '','' (map json_member ms)"
  have "length ms < length (json_object ms)" using length_json_members [of ms] by (simp add: json_object_def)
  from json_members_strings [OF assms(1) this, of "[]" "[]"] assms(2)
  have m: "json_members (length (json_object ms)) [] (?body @ [CHR 0x7D]) = Some (VObject (map (\<lambda>(n, v). (n, VString v)) ms), [])" by simp
  obtain a ms' where ms: "ms = a # ms'" using assms(1) by (cases ms) auto
  have ws: "json_ws (?body @ [CHR 0x7D]) = ?body @ [CHR 0x7D]" using ms by (cases ms') (simp_all add: json_member_ws)
  moreover have "\<not> startsWith (?body @ [CHR 0x7D]) [CHR 0x7D]"
    using ms by (cases ms') (simp_all add: json_member_def json_string_def startsWith_Cons quote_no_brace)
  ultimately show ?thesis using m
    by (simp add: json_parse_def json_object_def json_ws_plain del: json_members.simps) (simp add: json_ws_def)
qed

end
