(* ===== verification/Bff.thy ===== *)
theory Bff
  imports Oidc_Session Navigation Json_Text Url_Params
begin

text \<open>
  What the handlers of the web server share: its cookies (\<^verbatim>\<open>apps/start/src/server/oidc/session.ts\<close>), its
  public origin (\<^verbatim>\<open>client.ts\<close>), the session shown to pages (\<^verbatim>\<open>apps/start/src/server/oidc-session.ts\<close>,
  \<^verbatim>\<open>oidc-session.server.ts\<close>) and the parameters sent to the identity provider
  (\<^verbatim>\<open>packages/oidc/src/authorize.ts\<close>, \<^verbatim>\<open>logout.ts\<close>, \<^verbatim>\<open>claims.ts\<close>).

  The cookie library, the provider's library and the reader of a whole address are arguments. The
  handlers are in Bff_Routes.
\<close>

section \<open>Requests\<close>

text \<open>
  The parsed URL and the headers, under lower-case names, repeated ones joined. \<open>hr_scheme\<close> is the
  protocol without its colon.
\<close>

record http_request =
  hr_method :: string
  hr_scheme :: string
  hr_host :: string
  hr_origin :: string
  hr_pathname :: string
  hr_search :: string
  hr_headers :: "(string \<times> string) list"
  hr_body :: string

definition header :: "http_request \<Rightarrow> string \<Rightarrow> string option" where
  "header r name = map_of (hr_headers r) name"

record set_cookie =
  sc_name :: string
  sc_value :: string
  sc_httpOnly :: bool
  sc_secure :: bool
  sc_sameSite :: "string option"
  sc_path :: string
  sc_maxAge :: nat

text \<open>
  The environment: the variables of the process, and the libraries. \<open>be_parseCookie\<close> is
  \<open>parseCookie\<close>; \<open>be_readBase\<close> reads an origin as a base URL; \<open>be_authorizationUrl\<close> and
  \<open>be_endSessionUrl\<close> build the provider's addresses; \<open>be_grant\<close> is the code grant, for the
  callback's address, the verifier and the expected state; \<open>be_payload\<close> decodes base64url;
  \<open>be_discovered\<close> says whether the provider's configuration can be had; \<open>be_column\<close> is what the
  database driver makes of a value that is no string in a text column.
\<close>

record bff_env =
  be_backend :: "string option"
  be_allowedOrigins :: "string option"
  be_issuer :: "string option"
  be_foreign :: foreign_parser
  be_parseCookie :: "string \<Rightarrow> (string \<times> string) list"
  be_readBase :: "string \<Rightarrow> base option"
  be_authorizationUrl :: "(string \<times> string) list \<Rightarrow> string"
  be_endSessionUrl :: "(string \<times> string) list \<Rightarrow> string option"
  be_grant :: "string \<Rightarrow> string \<Rightarrow> string \<Rightarrow> token_response option"
  be_payload :: "string \<Rightarrow> string"
  be_discovered :: bool
  be_column :: "jvalue \<Rightarrow> string option"

section \<open>Cookies\<close>

definition SESSION_COOKIE :: string where "SESSION_COOKIE = ''__pivox_oidc''"
definition TX_COOKIE :: string where "TX_COOKIE = ''__pivox_oidc_tx''"
definition SESSION_MAX_AGE_SECONDS :: nat where "SESSION_MAX_AGE_SECONDS = 60 * 60 * 24 * 30"
definition TX_MAX_AGE_SECONDS :: nat where "TX_MAX_AGE_SECONDS = 60 * 10"

definition isSecure :: "http_request \<Rightarrow> bool" where
  "isSecure r \<longleftrightarrow> hr_scheme r = ''https'' \<or> header r ''x-forwarded-proto'' = Some ''https''"

definition readCookie :: "bff_env \<Rightarrow> http_request \<Rightarrow> string \<Rightarrow> string option" where
  "readCookie env r name =
     (if \<not> truthy (header r ''cookie'') then None else map_of (be_parseCookie env (the (header r ''cookie''))) name)"

definition readJsonCookie :: "bff_env \<Rightarrow> http_request \<Rightarrow> string \<Rightarrow> jvalue option" where
  "readJsonCookie env r name =
     (let raw = readCookie env r name in if \<not> truthy raw then None else json_parse (the raw))"

definition buildSetCookie :: "string \<Rightarrow> string \<Rightarrow> nat \<Rightarrow> bool \<Rightarrow> set_cookie" where
  "buildSetCookie name value maxAge secure =
     \<lparr>sc_name = name, sc_value = value, sc_httpOnly = True, sc_secure = secure, sc_sameSite = Some ''lax'', sc_path = ''/'', sc_maxAge = maxAge\<rparr>"

definition readSessionId :: "bff_env \<Rightarrow> http_request \<Rightarrow> string option" where
  "readSessionId env r = readCookie env r SESSION_COOKIE"

definition sessionSetCookie :: "http_request \<Rightarrow> string \<Rightarrow> set_cookie" where
  "sessionSetCookie r i = buildSetCookie SESSION_COOKIE i SESSION_MAX_AGE_SECONDS (isSecure r)"

definition sessionClearCookie :: "http_request \<Rightarrow> set_cookie" where
  "sessionClearCookie r = buildSetCookie SESSION_COOKIE [] 0 (isSecure r)"

record login_tx =
  tx_code_verifier :: string
  tx_state :: string
  tx_return_to :: string

definition isLoginTx :: "jvalue \<Rightarrow> login_tx option" where
  "isLoginTx value =
     (case value of
        VObject ms \<Rightarrow>
          (case (map_of ms ''code_verifier'', map_of ms ''state'', map_of ms ''return_to'') of
             (Some (VString v), Some (VString s), Some (VString p)) \<Rightarrow> Some \<lparr>tx_code_verifier = v, tx_state = s, tx_return_to = p\<rparr>
           | _ \<Rightarrow> None)
      | _ \<Rightarrow> None)"

definition readLoginTx :: "bff_env \<Rightarrow> http_request \<Rightarrow> login_tx option" where
  "readLoginTx env r = Option.bind (readJsonCookie env r TX_COOKIE) isLoginTx"

definition loginTxSetCookie :: "http_request \<Rightarrow> login_tx \<Rightarrow> set_cookie" where
  "loginTxSetCookie r tx =
     buildSetCookie TX_COOKIE
       (json_object [(''code_verifier'', tx_code_verifier tx), (''state'', tx_state tx), (''return_to'', tx_return_to tx)])
       TX_MAX_AGE_SECONDS (isSecure r)"

definition loginTxClearCookie :: "http_request \<Rightarrow> set_cookie" where
  "loginTxClearCookie r = buildSetCookie TX_COOKIE [] 0 (isSecure r)"

section \<open>The public origin\<close>

definition allowedOrigins :: "bff_env \<Rightarrow> string list option" where
  "allowedOrigins env =
     (if \<not> truthy (be_allowedOrigins env) then None
      else Some (filter (\<lambda>o'. o' \<noteq> []) (map trim (split_on (CHR '','') (the (be_allowedOrigins env))))))"

definition firstHeaderValue :: "http_request \<Rightarrow> string \<Rightarrow> string option" where
  "firstHeaderValue r name =
     (if truthy (header r name) then Some (trim (hd (split_on (CHR '','') (the (header r name))))) else None)"

text \<open>\<open>Inl\<close> carries the origin that is not allowed.\<close>

definition publicOrigin :: "bff_env \<Rightarrow> http_request \<Rightarrow> string + string" where
  "publicOrigin env r =
     (let proto = or_default (firstHeaderValue r ''x-forwarded-proto'') (hr_scheme r);
          host = or_default (firstHeaderValue r ''x-forwarded-host'') (hr_host r);
          origin = proto @ ''://'' @ host
      in case allowedOrigins env of
           None \<Rightarrow> Inr origin
         | Some allow \<Rightarrow> if origin \<in> set allow then Inr origin else Inl origin)"

text \<open>The \<open>href\<close> of the callback on the public origin; an origin that is no URL throws.\<close>

definition callbackUrl :: "bff_env \<Rightarrow> http_request \<Rightarrow> string + string" where
  "callbackUrl env r = bind_result (publicOrigin env r) (\<lambda>origin.
     case be_readBase env origin of None \<Rightarrow> Inl origin | Some base \<Rightarrow> Inr (snd base @ ''/auth/callback''))"

section \<open>The provider\<close>

text \<open>The object spread: a later key replaces an earlier one.\<close>

definition authorization_params :: "(string \<times> string) list \<Rightarrow> string \<Rightarrow> string \<Rightarrow> string \<Rightarrow> string \<Rightarrow> (string \<times> string) list" where
  "authorization_params extraParams redirectUri scope codeChallenge state =
     fold (\<lambda>(k, v). AList.update k v)
       [(''redirect_uri'', redirectUri), (''scope'', scope), (''code_challenge'', codeChallenge),
        (''code_challenge_method'', ''S256''), (''state'', state)] extraParams"

definition end_session_params :: "string option \<Rightarrow> string option \<Rightarrow> (string \<times> string) list" where
  "end_session_params postLogoutRedirectUri idTokenHint =
     (if truthy postLogoutRedirectUri then [(''post_logout_redirect_uri'', the postLogoutRedirectUri)] else [])
     @ (if truthy idTokenHint then [(''id_token_hint'', the idTokenHint)] else [])"

definition OIDC_SCOPE :: string where "OIDC_SCOPE = ''openid profile email offline_access''"

text \<open>The claims are whatever the payload holds; an array has none of these names.\<close>

definition decodeIdTokenClaims :: "(string \<Rightarrow> string) \<Rightarrow> string \<Rightarrow> (string \<times> jvalue) list option" where
  "decodeIdTokenClaims payload_text idToken =
     (let parts = split_on (CHR ''.'') idToken
      in if length parts \<noteq> 3 then None
         else case json_parse (payload_text (parts ! 1)) of
             Some (VObject claims) \<Rightarrow> Some claims
           | Some (VArray _) \<Rightarrow> Some []
           | _ \<Rightarrow> None)"

text \<open>\<open>claims.x ?? ...\<close> and \<open>!claims.x\<close>: null counts as missing; a number is false when it is zero.\<close>

definition claim :: "(string \<times> jvalue) list \<Rightarrow> string \<Rightarrow> jvalue option" where
  "claim claims name = (case map_of claims name of Some VNull \<Rightarrow> None | v \<Rightarrow> v)"

definition zero_number :: "string \<Rightarrow> bool" where
  "zero_number t \<longleftrightarrow> set (takeWhile (\<lambda>c. c \<noteq> CHR ''e'' \<and> c \<noteq> CHR ''E'') t) \<subseteq> set ''-0.''"

definition truthy_claim :: "jvalue option \<Rightarrow> bool" where
  "truthy_claim v \<longleftrightarrow>
     (case v of None \<Rightarrow> False | Some VNull \<Rightarrow> False | Some (VBool b) \<Rightarrow> b | Some (VNumber t) \<Rightarrow> \<not> zero_number t
      | Some (VString s) \<Rightarrow> s \<noteq> [] | Some _ \<Rightarrow> True)"

record server_session =
  ss_id :: jvalue
  ss_email :: "jvalue option"
  ss_displayName :: "jvalue option"
  ss_photoURL :: "jvalue option"

definition toServerSession :: "(string \<times> jvalue) list \<Rightarrow> server_session" where
  "toServerSession claims =
     \<lparr>ss_id = or_default (claim claims ''sub'') (VString []), ss_email = claim claims ''email'',
      ss_displayName = (case claim claims ''name'' of Some n \<Rightarrow> Some n | None \<Rightarrow> claim claims ''preferred_username''),
      ss_photoURL = claim claims ''picture''\<rparr>"

definition accountConsoleUrl :: "bff_env \<Rightarrow> string option" where
  "accountConsoleUrl env =
     (if \<not> truthy (be_issuer env) then None
      else Some (rev (dropWhile (\<lambda>c. c = CHR ''/'') (rev (the (be_issuer env)))) @ ''/account''))"

record session_status =
  st_user :: "server_session option"
  st_cookiePresent :: bool
  st_accountConsoleUrl :: "string option"

text \<open>\<open>session\<close> is what \<open>getSession\<close> answers for the id of the cookie.\<close>

definition readServerSession :: "bff_env \<Rightarrow> string option \<Rightarrow> session_tokens option \<Rightarrow> session_status" where
  "readServerSession env i session =
     (let none = \<lparr>st_user = None, st_cookiePresent = True, st_accountConsoleUrl = accountConsoleUrl env\<rparr>
      in if \<not> truthy i then none\<lparr>st_cookiePresent := False\<rparr>
         else case session of
             None \<Rightarrow> none
           | Some tokens \<Rightarrow>
               if \<not> truthy (tk_id_token tokens) then none
               else case decodeIdTokenClaims (be_payload env) (the (tk_id_token tokens)) of
                   None \<Rightarrow> none
                 | Some claims \<Rightarrow>
                     if \<not> truthy_claim (map_of claims ''sub'') then none
                     else none\<lparr>st_user := Some (toServerSession claims)\<rparr>)"

end
