(* ===== verification/Bff_Routes.thy ===== *)
theory Bff_Routes
  imports Bff
begin

text \<open>
  The handlers of the web server: the API proxy (\<^verbatim>\<open>apps/start/src/routes/api/v1/$.ts\<close>) and the
  sign-in, the callback and the logout (\<^verbatim>\<open>apps/start/src/routes/auth\<close>).

  What the proxy and the logout await of the session table and of the refresh is the subject of
  Oidc_Session: a handler that comes that far asks for the outcome of a request of its kind and
  goes on with it, a handler that answers before asks nothing.

  It is proved that a forwarded request stays under \<open>/v1/\<close> of the backend, whatever the path it was
  made with, that it carries the token of the session and none of the browser's credentials, that
  no request of another site reaches a session, and that a login that was started is completed with
  its own secrets and leads back to the path it came from.
\<close>

section \<open>Answers\<close>

text \<open>A reply with its headers and, apart from them, the cookies it sets.\<close>

record reply =
  re_status :: nat
  re_headers :: "(string \<times> string) list"
  re_cookies :: "set_cookie list"
  re_body :: string

datatype 'a handled = Answered 'a | Ask request_kind string "Oidc_Session.outcome \<Rightarrow> 'a"

definition json_error :: "nat \<Rightarrow> string \<Rightarrow> set_cookie list \<Rightarrow> reply" where
  "json_error status error cookies =
     \<lparr>re_status = status, re_headers = [(''content-type'', ''application/json'')], re_cookies = cookies,
      re_body = json_object [(''error'', error)]\<rparr>"

definition redirect :: "string \<Rightarrow> set_cookie list \<Rightarrow> reply" where
  "redirect location cookies = \<lparr>re_status = 302, re_headers = [(''location'', location)], re_cookies = cookies, re_body = []\<rparr>"

section \<open>The API proxy\<close>

definition STRIP_REQUEST_HEADERS :: "string list" where
  "STRIP_REQUEST_HEADERS =
     [''cookie'', ''host'', ''content-length'', ''x-forwarded-for'', ''x-forwarded-host'', ''x-forwarded-proto'',
      ''x-forwarded-port'', ''x-real-ip'', ''forwarded'', ''connection'', ''keep-alive'', ''te'', ''trailer'',
      ''transfer-encoding'', ''upgrade'', ''proxy-authorization'']"

definition STRIP_RESPONSE_HEADERS :: "string list" where
  "STRIP_RESPONSE_HEADERS =
     [''content-encoding'', ''content-length'', ''set-cookie'', ''connection'', ''keep-alive'', ''transfer-encoding'', ''upgrade'']"

definition headers_delete :: "string \<Rightarrow> (string \<times> string) list \<Rightarrow> (string \<times> string) list" where
  "headers_delete name hs = filter (\<lambda>h. fst h \<noteq> name) hs"

definition safe_method :: "string \<Rightarrow> bool" where
  "safe_method m \<longleftrightarrow> m \<in> set [''GET'', ''HEAD'', ''OPTIONS'']"

definition sameOrigin :: "http_request \<Rightarrow> bool" where
  "sameOrigin r \<longleftrightarrow> header r ''origin'' = Some (hr_origin r) \<or> header r ''sec-fetch-site'' = Some ''same-origin''"

fun mentions :: "string \<Rightarrow> string \<Rightarrow> bool" where
  "mentions p [] \<longleftrightarrow> startsWith [] p"
| "mentions p (c # s) \<longleftrightarrow> startsWith (c # s) p \<or> mentions p s"

text \<open>The setter of \<open>search\<close>.\<close>

definition set_search :: "string \<Rightarrow> url \<Rightarrow> url" where
  "set_search q u =
     (let s = filter (\<lambda>c. byte c \<noteq> 9 \<and> byte c \<noteq> 10 \<and> byte c \<noteq> 13) (if startsWith q ''?'' then tl q else q)
      in u\<lparr>u_search := (if s = [] then [] else CHR ''?'' # percent_encode query_set s)\<rparr>)"

record upstream_request =
  uq_url :: url
  uq_method :: string
  uq_headers :: "(string \<times> string) list"
  uq_body :: "string option"

datatype proxied = Replied reply | Forwarded upstream_request | Raised

text \<open>The session is there and fresh: \<open>tokens\<close> is its token set.\<close>

definition forward :: "bff_env \<Rightarrow> http_request \<Rightarrow> string \<Rightarrow> session_tokens \<Rightarrow> proxied" where
  "forward env r splat tokens =
     (if mentions ''%2e'' (to_lower splat) then Replied (json_error 400 ''bad_path'' [])
      else case be_readBase env (the (be_backend env)) of
        None \<Rightarrow> Raised
      | Some api \<Rightarrow>
          case new_URL (be_foreign env) (''/v1/'' @ splat) api of
            None \<Rightarrow> Raised
          | Some url \<Rightarrow>
              let target = set_search (hr_search r) url
              in if u_origin target \<noteq> snd api \<or> \<not> startsWith (u_pathname target) ''/v1/'' then Replied (json_error 400 ''bad_path'' [])
                 else Forwarded
                   \<lparr>uq_url = target, uq_method = hr_method r,
                    uq_headers = AList.update ''authorization'' (''Bearer '' @ tk_access_token tokens)
                      (fold headers_delete STRIP_REQUEST_HEADERS (hr_headers r)),
                    uq_body = (if hr_method r \<noteq> ''GET'' \<and> hr_method r \<noteq> ''HEAD'' then Some (hr_body r) else None)\<rparr>)"

definition api_proxy :: "bff_env \<Rightarrow> http_request \<Rightarrow> string option \<Rightarrow> proxied handled" where
  "api_proxy env r splat =
     (if \<not> truthy (be_backend env) then Answered (Replied (json_error 500 ''backend_not_configured'' []))
      else if \<not> safe_method (hr_method r) \<and> \<not> sameOrigin r then Answered (Replied (json_error 403 ''csrf'' []))
      else let i = readSessionId env r
           in if \<not> truthy i then Answered (Replied (json_error 401 ''unauthenticated'' []))
              else Ask Proxy (the i) (\<lambda>out.
                case out of
                  Unauthenticated \<Rightarrow> Replied (json_error 401 ''unauthenticated'' [])
                | Session_expired \<Rightarrow> Replied (json_error 401 ''session_expired'' [sessionClearCookie r])
                | Use_token tokens \<Rightarrow> forward env r (or_default splat []) tokens
                | _ \<Rightarrow> Raised))"

text \<open>What comes back of the backend.\<close>

record upstream_reply =
  ur_status :: nat
  ur_headers :: "(string \<times> string) list"
  ur_body :: string

definition proxy_response :: "upstream_reply \<Rightarrow> reply" where
  "proxy_response u =
     \<lparr>re_status = ur_status u, re_headers = fold headers_delete STRIP_RESPONSE_HEADERS (ur_headers u), re_cookies = [],
      re_body = ur_body u\<rparr>"

section \<open>Sign-in, callback and logout\<close>

text \<open>
  The verifier, its challenge and the state are random. \<open>Inl\<close> is an exception out of the handler.
\<close>

record login_secrets =
  ls_verifier :: string
  ls_challenge :: string
  ls_state :: string

definition sign_in :: "bff_env \<Rightarrow> http_request \<Rightarrow> login_secrets \<Rightarrow> unit + reply" where
  "sign_in env r secrets =
     (if \<not> be_discovered env then Inl ()
      else let returnTo = sanitizeReturnTo (be_foreign env) (search_get (hr_search r) ''return'') (hr_scheme r, hr_origin r)
           in case callbackUrl env r of
                Inl _ \<Rightarrow> Inl ()
              | Inr redirectUri \<Rightarrow>
                  Inr (redirect
                    (be_authorizationUrl env (authorization_params [] redirectUri OIDC_SCOPE (ls_challenge secrets) (ls_state secrets)))
                    [loginTxSetCookie r \<lparr>tx_code_verifier = ls_verifier secrets, tx_state = ls_state secrets, tx_return_to = returnTo\<rparr>]))"

text \<open>The address of the callback on the public origin, and the exchange. The handler catches what fails in either.\<close>

definition currentUrl :: "bff_env \<Rightarrow> http_request \<Rightarrow> url option" where
  "currentUrl env r =
     (case publicOrigin env r of
        Inl _ \<Rightarrow> None
      | Inr origin \<Rightarrow> Option.bind (be_readBase env origin) (new_URL (be_foreign env) (hr_pathname r @ hr_search r)))"

definition exchangeAuthorizationCode :: "bff_env \<Rightarrow> url \<Rightarrow> string \<Rightarrow> string \<Rightarrow> int \<Rightarrow> session_tokens option" where
  "exchangeAuthorizationCode env url codeVerifier expectedState now =
     map_option (tokensFromResponse now) (be_grant env (u_origin url @ href_path url) codeVerifier expectedState)"

definition callback_tokens :: "bff_env \<Rightarrow> http_request \<Rightarrow> login_tx \<Rightarrow> int \<Rightarrow> session_tokens option" where
  "callback_tokens env r tx now =
     Option.bind (currentUrl env r) (\<lambda>url. exchangeAuthorizationCode env url (tx_code_verifier tx) (tx_state tx) now)"

definition id_token_sub :: "bff_env \<Rightarrow> session_tokens \<Rightarrow> jvalue option" where
  "id_token_sub env tokens =
     (if truthy (tk_id_token tokens)
      then Option.bind (decodeIdTokenClaims (be_payload env) (the (tk_id_token tokens))) (\<lambda>claims. map_of claims ''sub'')
      else None)"

definition column_text :: "bff_env \<Rightarrow> jvalue \<Rightarrow> string option" where
  "column_text env v = (case v of VString s \<Rightarrow> Some s | _ \<Rightarrow> be_column env v)"

text \<open>\<open>i\<close> is the random id of the new session.\<close>

definition callback :: "bff_env \<Rightarrow> http_request \<Rightarrow> string \<Rightarrow> int \<Rightarrow> web_sessions \<Rightarrow> unit + (web_sessions \<times> reply)" where
  "callback env r i now db =
     (let restart = Inr (db, redirect ''/auth/sign-in'' [loginTxClearCookie r])
      in case readLoginTx env r of
           None \<Rightarrow> restart
         | Some tx \<Rightarrow>
             if \<not> be_discovered env then Inl ()
             else case callback_tokens env r tx now of
                 None \<Rightarrow> restart
               | Some tokens \<Rightarrow>
                   let sub = id_token_sub env tokens
                   in if \<not> truthy_claim sub then restart
                      else case Option.bind (column_text env (the sub)) (\<lambda>s. createSession i tokens s now db) of
                          None \<Rightarrow> Inl ()
                        | Some db' \<Rightarrow> Inr (db', redirect (tx_return_to tx) [sessionSetCookie r i, loginTxClearCookie r]))"

definition ACTIVE_ORG_clear :: set_cookie where
  "ACTIVE_ORG_clear =
     \<lparr>sc_name = si_name ACTIVE_ORG, sc_value = [], sc_httpOnly = False, sc_secure = False, sc_sameSite = None, sc_path = si_path ACTIVE_ORG, sc_maxAge = 0\<rparr>"

definition logout_location :: "bff_env \<Rightarrow> http_request \<Rightarrow> session_tokens option \<Rightarrow> string" where
  "logout_location env r session =
     (case publicOrigin env r of
        Inl _ \<Rightarrow> ''/''
      | Inr origin \<Rightarrow>
          if \<not> be_discovered env then origin @ ''/''
          else or_default (be_endSessionUrl env (end_session_params (Some (origin @ ''/'')) (Option.bind session tk_id_token)))
            (origin @ ''/''))"

definition signed_out :: "bff_env \<Rightarrow> http_request \<Rightarrow> session_tokens option \<Rightarrow> reply" where
  "signed_out env r session = redirect (logout_location env r session) [sessionClearCookie r, ACTIVE_ORG_clear]"

definition handleLogout :: "bff_env \<Rightarrow> http_request \<Rightarrow> (unit + reply) handled" where
  "handleLogout env r =
     (if \<not> sameOrigin r then Answered (Inr \<lparr>re_status = 403, re_headers = [], re_cookies = [], re_body = ''forbidden''\<rparr>)
      else let i = readSessionId env r
           in if \<not> truthy i then Answered (Inr (signed_out env r None))
              else Ask Logout (the i) (\<lambda>out. case out of Signed_out session \<Rightarrow> Inr (signed_out env r session) | _ \<Rightarrow> Inl ()))"

section \<open>The path that is forwarded\<close>

lemma clean_prefix:
  assumes "p \<noteq> []" and "\<forall>c \<in> set p. 32 < byte c"
  shows "\<exists>t. clean_input (p @ s) = p @ t"
proof -
  have n: "\<not> control_or_space c" if "c \<in> set p" for c using that assms(2) by (auto simp: control_or_space_def)
  have left: "dropWhile control_or_space (p @ s) = p @ s" using assms(1) n by (cases p) auto
  have "dropWhile control_or_space (rev p) = rev p" using n by (intro dropWhile_id) simp
  then have "\<exists>t. rev (dropWhile control_or_space (rev (p @ s))) = p @ t"
    by (cases "\<forall>c \<in> set s. control_or_space c") (auto simp: dropWhile_append)
  then obtain t where "clean_input (p @ s) = filter (\<lambda>c. byte c \<noteq> 9 \<and> byte c \<noteq> 10 \<and> byte c \<noteq> 13) (p @ t)"
    unfolding clean_input_def left by metis
  moreover have "filter (\<lambda>c. byte c \<noteq> 9 \<and> byte c \<noteq> 10 \<and> byte c \<noteq> 13) p = p" using assms(2) by (intro filter_True) auto
  ultimately show ?thesis by auto
qed

lemma api_url: "\<exists>t. new_URL foreign (''/v1/'' @ s) (scheme, origin) = Some (path_url origin t)"
proof -
  obtain t where t: "clean_input (''/v1/'' @ s) = ''/v1/'' @ t" using clean_prefix [of "''/v1/''" s] by auto
  have "scheme_of (''/v1/'' @ t) = None" by (simp add: scheme_of_def is_letter_def lower_char_def)
  then have "new_URL foreign (''/v1/'' @ s) (scheme, origin) = Some (path_url origin (''v1/'' @ t))"
    using t by (simp add: new_URL_def relative_url_def is_slash_def back_slash_def)
  then show ?thesis by blast
qed

lemma path_below:
  assumes "startsWith (u_pathname (path_url origin t)) ''/v1/''"
  obtains segs where "segs \<noteq> []" and "\<forall>s \<in> set segs. plain_segment s" and "u_pathname (path_url origin t) = ''/v1/'' @ join_with ''/'' segs"
proof -
  obtain all where all: "all \<noteq> []" "\<forall>s \<in> set all. plain_segment s" "u_pathname (path_url origin t) = CHR ''/'' # join_with ''/'' all"
    by (rule path_url_shape)
  moreover obtain y where "u_pathname (path_url origin t) = ''/v1/'' @ y" using assms by (auto simp: startsWith_iff_prefix)
  ultimately have y: "join_with ''/'' all = ''v1'' @ CHR ''/'' # y" by simp
  have "\<forall>p \<in> set all. CHR ''/'' \<notin> set p" using all(2) by (auto simp: plain_segment_def is_slash_def)
  then have "all = ''v1'' # split_on (CHR ''/'') y"
    using split_join [OF all(1), of "CHR ''/''"] y split_path [of "''v1''" y] by simp
  then show thesis
    using that [of "split_on (CHR ''/'') y"] all(2,3) y join_split_on [of "CHR ''/''" y] by simp
qed

lemma set_search_keeps [simp]: "u_origin (set_search q u) = u_origin u" "u_pathname (set_search q u) = u_pathname u"
  by (simp_all add: set_search_def Let_def)

lemma forward_cases:
  assumes "forward env r splat tokens = Forwarded q"
  obtains scheme t where "be_readBase env (the (be_backend env)) = Some (scheme, u_origin (uq_url q))"
    and "uq_url q = set_search (hr_search r) (path_url (u_origin (uq_url q)) t)" and "startsWith (u_pathname (uq_url q)) ''/v1/''"
    and "uq_headers q = AList.update ''authorization'' (''Bearer '' @ tk_access_token tokens) (fold headers_delete STRIP_REQUEST_HEADERS (hr_headers r))"
    and "uq_method q = hr_method r" and "uq_body q = (if hr_method r \<noteq> ''GET'' \<and> hr_method r \<noteq> ''HEAD'' then Some (hr_body r) else None)"
proof -
  obtain scheme origin where b: "be_readBase env (the (be_backend env)) = Some (scheme, origin)"
    using assms by (auto simp: forward_def split: if_splits option.splits)
  obtain t where "new_URL (be_foreign env) (''/v1/'' @ splat) (scheme, origin) = Some (path_url origin t)" using api_url by blast
  then show thesis using that [of scheme t] assms b by (auto simp: forward_def Let_def path_url_def split: if_splits)
qed

definition answered_with :: "'a handled \<Rightarrow> Oidc_Session.outcome \<Rightarrow> 'a" where
  "answered_with h out = (case h of Answered a \<Rightarrow> a | Ask kind i k \<Rightarrow> k out)"

lemma answered_with_simps [simp]: "answered_with (Answered a) out = a" "answered_with (Ask kind i k) out = k out"
  by (simp_all add: answered_with_def)

lemma proxy_asks:
  assumes "answered_with (api_proxy env r splat) out = Forwarded q"
  obtains i tokens k where "api_proxy env r splat = Ask Proxy i k" and "readSessionId env r = Some i" and "i \<noteq> []"
    and "out = Use_token tokens" and "forward env r (or_default splat []) tokens = Forwarded q"
    and "safe_method (hr_method r) \<or> sameOrigin r"
  using assms by (auto simp: api_proxy_def Let_def truthy_def split: if_splits Oidc_Session.outcome.splits)

text \<open>A server in front of one API, for the examples: cookies have one pair, origins are https.\<close>

definition sample_env :: bff_env where
  "sample_env =
     \<lparr>be_backend = Some ''https://api.test'', be_allowedOrigins = Some ''https://app.test'',
      be_issuer = Some ''https://kc.test/'', be_foreign = (\<lambda>_ _. None),
      be_parseCookie = (\<lambda>c. [(takeWhile (\<lambda>x. x \<noteq> CHR ''='') c, tl (dropWhile (\<lambda>x. x \<noteq> CHR ''='') c))]),
      be_readBase = (\<lambda>s. if startsWith s ''https://'' then Some (''https'', s) else None),
      be_authorizationUrl = (\<lambda>ps. ''https://kc.test/auth''), be_endSessionUrl = (\<lambda>ps. Some ''https://kc.test/logout''),
      be_grant = (\<lambda>url verifier state. if state = ''st'' then
        Some \<lparr>tr_access_token = ''at'', tr_refresh_token = Some ''rt'', tr_id_token = Some ''h.b.s'', tr_expires_in = Some 60\<rparr> else None),
      be_payload = (\<lambda>s. json_object [(''sub'', ''u1'')]), be_discovered = True, be_column = (\<lambda>_. None)\<rparr>"

definition sample_request :: "string \<Rightarrow> string \<Rightarrow> string \<Rightarrow> (string \<times> string) list \<Rightarrow> http_request" where
  "sample_request m path search headers =
     \<lparr>hr_method = m, hr_scheme = ''https'', hr_host = ''app.test'', hr_origin = ''https://app.test'', hr_pathname = path,
      hr_search = search, hr_headers = headers, hr_body = ''{}''\<rparr>"

definition sample_tokens :: session_tokens where
  "sample_tokens = \<lparr>tk_access_token = ''at'', tk_refresh_token = Some ''rt'', tk_id_token = Some ''h.b.s'', tk_expires_at = 60000\<rparr>"

definition sample_post :: http_request where
  "sample_post = sample_request ''POST'' ''/api/v1/a/../b'' ''?q=1''
     [(''cookie'', ''__pivox_oidc=s1''), (''origin'', ''https://app.test''), (''authorization'', ''Bearer mine'')]"

definition sample_upstream :: upstream_request where
  "sample_upstream =
     \<lparr>uq_url = \<lparr>u_origin = ''https://api.test'', u_pathname = ''/v1/b'', u_search = ''?q=1'', u_hash = []\<rparr>, uq_method = ''POST'',
      uq_headers = [(''origin'', ''https://app.test''), (''authorization'', ''Bearer at'')], uq_body = Some ''{}''\<rparr>"

lemmas url_eval = new_URL_def clean_input_def control_or_space_def scheme_of_def is_letter_def lower_char_def relative_url_def
  is_slash_def back_slash_def path_url_def path_segments_def dot_segment_def dotdot_segment_def to_lower_def percent_encode_def
  path_set_def query_set_def unprintable_def ends_path_def path_text_def query_part_def fragment_part_def

lemma sample_is_forwarded: "answered_with (api_proxy sample_env sample_post (Some ''a/../b'')) (Use_token sample_tokens) = Forwarded sample_upstream"
proof -
  have url: "new_URL (\<lambda>_ _. None) ''/v1/a/../b'' (''https'', ''https://api.test'')
    = Some \<lparr>u_origin = ''https://api.test'', u_pathname = ''/v1/b'', u_search = [], u_hash = []\<rparr>"
    by (simp add: url_eval)
  have m: "\<not> mentions ''%2e'' (to_lower ''a/../b'')" by (simp add: to_lower_def lower_char_def)
  have s: "set_search ''?q=1'' \<lparr>u_origin = ''https://api.test'', u_pathname = ''/v1/b'', u_search = [], u_hash = []\<rparr>
    = \<lparr>u_origin = ''https://api.test'', u_pathname = ''/v1/b'', u_search = ''?q=1'', u_hash = []\<rparr>"
    by (simp add: set_search_def percent_encode_def query_set_def unprintable_def)
  have i: "readSessionId sample_env sample_post = Some ''s1''"
    by (simp add: readSessionId_def readCookie_def header_def sample_env_def sample_post_def sample_request_def SESSION_COOKIE_def truthy_def)
  have f: "forward sample_env sample_post ''a/../b'' sample_tokens = Forwarded sample_upstream"
    using m url s
    by (simp add: forward_def sample_env_def sample_post_def sample_request_def sample_upstream_def sample_tokens_def
        STRIP_REQUEST_HEADERS_def headers_delete_def)
  have "sameOrigin sample_post" by (simp add: sameOrigin_def header_def sample_post_def sample_request_def)
  then show ?thesis using i f by (simp add: api_proxy_def truthy_def sample_env_def or_default_def)
qed

section \<open>What a forwarded request is\<close>

lemma headers_delete_all: "fold headers_delete ns hs = filter (\<lambda>h. fst h \<notin> set ns) hs"
  by (induction ns arbitrary: hs) (auto simp: headers_delete_def intro: filter_cong)

lemma map_of_kept: "map_of (filter (\<lambda>h. fst h \<notin> N) hs) n = (if n \<in> N then None else map_of hs n)"
  by (induction hs) auto

text \<open>
  C10. A request the proxy forwards goes to the origin of the configured backend and to a path below
  \<open>/v1/\<close>; no segment of that path is a dot segment, escaped ones included, or holds a slash of either
  kind or a character that a path has to escape, whatever the path it was made with.
\<close>

theorem proxy_stays_in_v1:
  assumes "answered_with (api_proxy env r splat) out = Forwarded q"
  shows "\<exists>scheme segs. be_readBase env (the (be_backend env)) = Some (scheme, u_origin (uq_url q))
    \<and> u_pathname (uq_url q) = ''/v1/'' @ join_with ''/'' segs \<and> segs \<noteq> [] \<and> (\<forall>s \<in> set segs. plain_segment s)"
proof -
  obtain tokens where "forward env r (or_default splat []) tokens = Forwarded q"
    using assms by (rule proxy_asks)
  then obtain scheme t where b: "be_readBase env (the (be_backend env)) = Some (scheme, u_origin (uq_url q))"
    and u: "uq_url q = set_search (hr_search r) (path_url (u_origin (uq_url q)) t)" and v: "startsWith (u_pathname (uq_url q)) ''/v1/''"
    by (rule forward_cases)
  have p: "u_pathname (uq_url q) = u_pathname (path_url (u_origin (uq_url q)) t)" by (subst u) simp
  obtain segs where "segs \<noteq> []" "\<forall>s \<in> set segs. plain_segment s" "u_pathname (uq_url q) = ''/v1/'' @ join_with ''/'' segs"
    using path_below [of "u_origin (uq_url q)" t] v p by metis
  with b show ?thesis by blast
qed

lemma proxy_stays_in_v1_witness:
  "answered_with (api_proxy sample_env sample_post (Some ''a/../b'')) (Use_token sample_tokens) = Forwarded sample_upstream
   \<and> (\<exists>scheme segs. be_readBase sample_env (the (be_backend sample_env)) = Some (scheme, u_origin (uq_url sample_upstream))
    \<and> u_pathname (uq_url sample_upstream) = ''/v1/'' @ join_with ''/'' segs \<and> segs \<noteq> [] \<and> (\<forall>s \<in> set segs. plain_segment s))"
  using sample_is_forwarded proxy_stays_in_v1 [OF sample_is_forwarded] by blast

text \<open>
  C16. A forwarded request speaks for the session of the cookie and for nothing the browser chose: its
  only Authorization is the token of that session, the headers the proxy strips are gone, all the
  others are those of the browser, the body goes along unless the method has none, and a method that
  may change something came from a page of the same origin.
\<close>

theorem proxy_speaks_for_the_session:
  assumes "answered_with (api_proxy env r splat) out = Forwarded q"
  shows "\<exists>i tokens k. readSessionId env r = Some i \<and> i \<noteq> [] \<and> api_proxy env r splat = Ask Proxy i k \<and> out = Use_token tokens
    \<and> (\<forall>n. map_of (uq_headers q) n =
        (if n = ''authorization'' then Some (''Bearer '' @ tk_access_token tokens)
         else if n \<in> set STRIP_REQUEST_HEADERS then None else header r n))
    \<and> uq_method q = hr_method r \<and> (uq_body q = None \<longleftrightarrow> hr_method r \<in> {''GET'', ''HEAD''})
    \<and> (hr_method r \<in> {''GET'', ''HEAD'', ''OPTIONS''} \<or> header r ''origin'' = Some (hr_origin r)
       \<or> header r ''sec-fetch-site'' = Some ''same-origin'')"
proof -
  obtain i tokens k where a: "api_proxy env r splat = Ask Proxy i k" "readSessionId env r = Some i" "i \<noteq> []" "out = Use_token tokens"
    and f: "forward env r (or_default splat []) tokens = Forwarded q" and s: "safe_method (hr_method r) \<or> sameOrigin r"
    using assms by (rule proxy_asks)
  obtain h: "uq_headers q = AList.update ''authorization'' (''Bearer '' @ tk_access_token tokens)
      (filter (\<lambda>h. fst h \<notin> set STRIP_REQUEST_HEADERS) (hr_headers r))"
    and m: "uq_method q = hr_method r" "uq_body q = (if hr_method r \<noteq> ''GET'' \<and> hr_method r \<noteq> ''HEAD'' then Some (hr_body r) else None)"
    using f by (rule forward_cases) (simp add: headers_delete_all)
  have "map_of (uq_headers q) n =
      (if n = ''authorization'' then Some (''Bearer '' @ tk_access_token tokens)
       else if n \<in> set STRIP_REQUEST_HEADERS then None else header r n)" for n
    by (simp add: h update_conv map_of_kept header_def)
  moreover have "hr_method r \<in> {''GET'', ''HEAD'', ''OPTIONS''} \<or> header r ''origin'' = Some (hr_origin r)
       \<or> header r ''sec-fetch-site'' = Some ''same-origin''"
    using s by (auto simp: safe_method_def sameOrigin_def)
  ultimately show ?thesis using a m by auto
qed

lemma proxy_speaks_for_the_session_witness:
  "answered_with (api_proxy sample_env sample_post (Some ''a/../b'')) (Use_token sample_tokens) = Forwarded sample_upstream
   \<and> map_of (uq_headers sample_upstream) ''authorization'' = Some ''Bearer at'' \<and> map_of (uq_headers sample_upstream) ''cookie'' = None"
proof -
  obtain tokens where t: "Use_token sample_tokens = Use_token tokens"
    "map_of (uq_headers sample_upstream) ''authorization'' = Some (''Bearer '' @ tk_access_token tokens)"
    "map_of (uq_headers sample_upstream) ''cookie'' = None"
    using proxy_speaks_for_the_session [OF sample_is_forwarded] by (auto simp: STRIP_REQUEST_HEADERS_def)
  moreover have "tk_access_token tokens = ''at''" using t(1) by (auto simp: sample_tokens_def)
  ultimately show ?thesis using sample_is_forwarded by simp
qed

text \<open>
  A request of another site changes nothing: the logout refuses it whatever its method, the proxy
  when its method may change something, and neither asks for the session the cookie names.
\<close>

theorem cross_site_changes_nothing:
  assumes "header r ''origin'' \<noteq> Some (hr_origin r)" and "header r ''sec-fetch-site'' \<noteq> Some ''same-origin''"
  shows "(\<exists>p. handleLogout env r = Answered (Inr p) \<and> re_status p = 403 \<and> re_cookies p = [])
    \<and> (hr_method r \<notin> {''GET'', ''HEAD'', ''OPTIONS''} \<longrightarrow>
         (\<exists>p. api_proxy env r splat = Answered (Replied p) \<and> re_status p \<in> {403, 500} \<and> re_cookies p = []))"
  using assms by (auto simp: handleLogout_def api_proxy_def sameOrigin_def safe_method_def json_error_def)

lemma cross_site_changes_nothing_witness:
  "\<exists>p. handleLogout sample_env (sample_request ''POST'' ''/auth/logout'' [] [(''cookie'', ''__pivox_oidc=s1''), (''origin'', ''https://evil.test'')])
     = Answered (Inr p) \<and> re_status p = 403"
  using cross_site_changes_nothing [of "sample_request ''POST'' ''/auth/logout'' [] [(''cookie'', ''__pivox_oidc=s1''), (''origin'', ''https://evil.test'')]"
    sample_env "None"] by (auto simp: header_def sample_request_def)

text \<open>
  The guard on escaped dots does not see an escaped slash: literal dots beside one are no dot segment
  of the URL, and the path that is forwarded leaves \<open>/v1/\<close> once its escapes are read.
\<close>

lemma escaped_slash_passes:
  "\<exists>q. forward sample_env sample_post ''..%2f..%2finternal'' sample_tokens = Forwarded q
     \<and> u_pathname (uq_url q) = ''/v1/..%2f..%2finternal'' \<and> percent_decode (u_pathname (uq_url q)) = ''/v1/../../internal''"
proof -
  have url: "new_URL (\<lambda>_ _. None) ''/v1/..%2f..%2finternal'' (''https'', ''https://api.test'')
    = Some \<lparr>u_origin = ''https://api.test'', u_pathname = ''/v1/..%2f..%2finternal'', u_search = [], u_hash = []\<rparr>"
    by (simp add: url_eval)
  have m: "\<not> mentions ''%2e'' (to_lower ''..%2f..%2finternal'')" by (simp add: to_lower_def lower_char_def)
  have "percent_decode ''/v1/..%2f..%2finternal'' = ''/v1/../../internal''"
    using char_of_char [of "CHR ''/''", where 'a = nat] by (simp add: hex_value_def)
  then show ?thesis using m url by (auto simp: forward_def sample_env_def)
qed

section \<open>What is forwarded\<close>

lemma api_url_plain:
  assumes "segs \<noteq> []" and "\<forall>s \<in> set segs. plain_segment s"
  shows "new_URL foreign (''/v1/'' @ join_with ''/'' segs) (scheme, origin)
    = Some \<lparr>u_origin = origin, u_pathname = ''/v1/'' @ join_with ''/'' segs, u_search = [], u_hash = []\<rparr>"
proof -
  let ?all = "''v1'' # segs"
  have v: "plain_segment ''v1''"
    by (simp add: plain_segment_def path_set_def unprintable_def is_slash_def back_slash_def dot_segment_def dotdot_segment_def
        to_lower_def lower_char_def)
  then have all: "?all \<noteq> []" "\<forall>s \<in> set ?all. plain_segment s" using assms(2) by simp_all
  have j: "join_with ''/'' ?all = ''v1/'' @ join_with ''/'' segs" using assms(1) by (cases segs) simp_all
  have e: "\<forall>c \<in> set (join_with ''/'' ?all). \<not> ends_path c" using join_chars [OF all(2)] by blast
  note parts = parts_of_serialised [OF e, of "[]" "[]", OF disjI1 disjI1, OF refl refl, unfolded append_Nil2]
  have "path_url origin (join_with ''/'' ?all) = \<lparr>u_origin = origin, u_pathname = CHR ''/'' # join_with ''/'' ?all, u_search = [], u_hash = []\<rparr>"
    unfolding path_url_def parts path_segments_join [OF all] path_walk_fixed [OF all(2)] append_Nil path_text_join [OF all(1)] ..
  moreover have "clean_input (''/v1/'' @ join_with ''/'' segs) = ''/v1/'' @ join_with ''/'' segs"
    using join_chars [OF assms(2)] encoded_visible(1) by (intro clean_visible) auto
  moreover have "scheme_of (''/v1/'' @ join_with ''/'' segs) = None" by (simp add: scheme_of_def is_letter_def lower_char_def)
  ultimately show ?thesis using j by (simp add: new_URL_def relative_url_def is_slash_def back_slash_def)
qed

text \<open>The query of a request's URL: none, or a question mark and what a query holds.\<close>

definition serialised_search :: "string \<Rightarrow> bool" where
  "serialised_search q \<longleftrightarrow> q = [] \<or> (startsWith q ''?'' \<and> tl q \<noteq> [] \<and> (\<forall>c \<in> set (tl q). \<not> query_set c))"

lemma set_search_serialised: "serialised_search q \<Longrightarrow> u_search (set_search q u) = q"
proof -
  assume q: "serialised_search q"
  show ?thesis
  proof (cases q)
    case (Cons c s)
    with q have s: "c = CHR ''?''" "s \<noteq> []" "\<forall>d \<in> set s. \<not> query_set d" by (auto simp: serialised_search_def)
    have f: "filter (\<lambda>c. byte c \<noteq> 9 \<and> byte c \<noteq> 10 \<and> byte c \<noteq> 13) s = s"
      using s(3) encoded_visible(2) by (intro filter_True) fastforce
    have p: "percent_encode query_set s = s" using s(3) by (intro percent_encode_fixed) blast
    have "startsWith q ''?''" "tl q = s" using Cons s(1) by simp_all
    then show ?thesis using Cons s(1,2) f p by (simp only: set_search_def Let_def if_True) simp
  qed (simp add: set_search_def)
qed

text \<open>
  The proxy answers for the whole of \<open>/v1/\<close>: a request with a session, of a safe method or of the
  same origin, for a path that the URL leaves as it is and that has no escaped dot, is forwarded with
  exactly that path and its own query.
\<close>

theorem plain_paths_are_forwarded:
  assumes "truthy (be_backend env)" and "be_readBase env (the (be_backend env)) = Some (scheme, origin)"
    and "truthy (readSessionId env r)" and "safe_method (hr_method r) \<or> sameOrigin r"
    and "segs \<noteq> []" and "\<forall>s \<in> set segs. plain_segment s" and "\<not> mentions ''%2e'' (to_lower (join_with ''/'' segs))"
    and "serialised_search (hr_search r)"
  shows "\<exists>q. answered_with (api_proxy env r (Some (join_with ''/'' segs))) (Use_token tokens) = Forwarded q
    \<and> uq_url q = \<lparr>u_origin = origin, u_pathname = ''/v1/'' @ join_with ''/'' segs, u_search = hr_search r, u_hash = []\<rparr>"
proof -
  let ?u = "\<lparr>u_origin = origin, u_pathname = ''/v1/'' @ join_with ''/'' segs, u_search = [], u_hash = []\<rparr>"
  have "set_search (hr_search r) ?u = ?u\<lparr>u_search := hr_search r\<rparr>"
    using set_search_serialised [OF assms(8), of ?u] by (simp add: set_search_def Let_def)
  then have "\<exists>q. forward env r (join_with ''/'' segs) tokens = Forwarded q \<and> uq_url q = ?u\<lparr>u_search := hr_search r\<rparr>"
    using assms(2,7) api_url_plain [OF assms(5,6)] by (simp add: forward_def)
  then show ?thesis using assms(1,3,4) by (auto simp: api_proxy_def Let_def or_default_def)
qed

lemma plain_paths_are_forwarded_witness:
  "\<exists>q. answered_with (api_proxy sample_env sample_post (Some ''b'')) (Use_token sample_tokens) = Forwarded q \<and> u_pathname (uq_url q) = ''/v1/b''
     \<and> u_search (uq_url q) = ''?q=1''"
proof -
  have i: "truthy (readSessionId sample_env sample_post)"
    by (simp add: readSessionId_def readCookie_def header_def sample_env_def sample_post_def sample_request_def SESSION_COOKIE_def truthy_def)
  have s: "sameOrigin sample_post" by (simp add: sameOrigin_def header_def sample_post_def sample_request_def)
  have p: "plain_segment ''b''"
    by (simp add: plain_segment_def path_set_def unprintable_def is_slash_def back_slash_def dot_segment_def dotdot_segment_def
        to_lower_def lower_char_def)
  have q: "hr_search sample_post = ''?q=1''" "serialised_search (hr_search sample_post)"
    by (simp_all add: sample_post_def sample_request_def serialised_search_def query_set_def unprintable_def)
  have e: "truthy (be_backend sample_env)" "be_readBase sample_env (the (be_backend sample_env)) = Some (''https'', ''https://api.test'')"
    by (simp_all add: sample_env_def truthy_def)
  have m: "\<not> mentions ''%2e'' (to_lower (join_with ''/'' [''b'']))" by (simp add: to_lower_def lower_char_def)
  show ?thesis
    using plain_paths_are_forwarded [OF e i disjI2 [OF s], of "[''b'']" sample_tokens] p q m by auto
qed

section \<open>A login\<close>

lemma callback_address:
  assumes "q = [] \<or> startsWith q ''?''"
  shows "\<exists>u. new_URL foreign (''/auth/callback'' @ q) (scheme, origin) = Some u \<and> u_origin u = origin \<and> u_pathname u = ''/auth/callback''"
proof -
  have "\<exists>t. clean_input (''/auth/callback'' @ q) = ''/auth/callback'' @ t \<and> (t = [] \<or> startsWith t ''?'')"
  proof (cases q)
    case Nil
    then show ?thesis using clean_visible [of "''/auth/callback''"] by simp
  next
    case (Cons c s)
    then show ?thesis using assms clean_prefix [of "''/auth/callback?''" s] by auto
  qed
  then obtain t where t: "clean_input (''/auth/callback'' @ q) = ''/auth/callback'' @ t" "t = [] \<or> startsWith t ''?''" by blast
  have "scheme_of (''/auth/callback'' @ t) = None" by (simp add: scheme_of_def is_letter_def lower_char_def)
  then have u: "new_URL foreign (''/auth/callback'' @ q) (scheme, origin) = Some (path_url origin (''auth/callback'' @ t))"
    using t(1) by (simp add: new_URL_def relative_url_def is_slash_def back_slash_def)
  have "takeWhile (\<lambda>c. \<not> ends_path c) t = []" using t(2) by (cases t) (auto simp: ends_path_def)
  then have "takeWhile (\<lambda>c. \<not> ends_path c) (''auth/callback'' @ t) = ''auth/callback''" by (simp add: ends_path_def)
  then have "u_pathname (path_url origin (''auth/callback'' @ t)) = ''/auth/callback''"
    unfolding path_url_def
    by (simp add: path_segments_def back_slash_def dot_segment_def dotdot_segment_def to_lower_def lower_char_def percent_encode_def
        path_set_def unprintable_def path_text_def)
  with u show ?thesis by (simp add: path_url_def)
qed

lemma login_tx_back:
  assumes "readCookie env r (sc_name (loginTxSetCookie s tx)) = Some (sc_value (loginTxSetCookie s tx))"
  shows "readLoginTx env r = Some tx"
proof -
  let ?ms = "[(''code_verifier'', tx_code_verifier tx), (''state'', tx_state tx), (''return_to'', tx_return_to tx)]"
  have "json_parse (json_object ?ms) = Some (VObject (map (\<lambda>(n, v). (n, VString v)) ?ms))" by (rule json_parse_object) simp_all
  moreover have "json_object ?ms \<noteq> []" by (simp add: json_object_def)
  ultimately show ?thesis using assms
    by (simp add: readLoginTx_def readJsonCookie_def loginTxSetCookie_def buildSetCookie_def TX_COOKIE_def truthy_def isLoginTx_def Let_def)
qed

text \<open>
  C4. A login that was started is completed with its own secrets: when the browser comes back to the
  callback with the cookie the sign-in set, on the same public origin, the code is exchanged at the
  very address the provider was told to send it to, with the verifier whose challenge the provider was
  given and the state it was given. A grant that names a subject makes the one new row of the table
  and leads to the destination of the sign-in; a grant that fails changes no row and starts over.
\<close>

theorem login_round_trip:
  assumes "sign_in env r secrets = Inr p"
    and "readCookie env r' (sc_name (hd (re_cookies p))) = Some (sc_value (hd (re_cookies p)))"
    and "publicOrigin env r' = publicOrigin env r" and "hr_pathname r' = ''/auth/callback''"
    and "hr_search r' = [] \<or> startsWith (hr_search r') ''?''"
  shows "\<exists>url params. currentUrl env r' = Some url
    \<and> map_of (re_headers p) ''location'' = Some (be_authorizationUrl env params)
    \<and> map_of params ''redirect_uri'' = Some (u_origin url @ u_pathname url)
    \<and> map_of params ''code_challenge'' = Some (ls_challenge secrets) \<and> map_of params ''code_challenge_method'' = Some ''S256''
    \<and> map_of params ''state'' = Some (ls_state secrets)
    \<and> (case be_grant env (u_origin url @ href_path url) (ls_verifier secrets) (ls_state secrets) of
         None \<Rightarrow> callback env r' i now db = Inr (db, redirect ''/auth/sign-in'' [loginTxClearCookie r'])
       | Some response \<Rightarrow>
           \<forall>sub. id_token_sub env (tokensFromResponse now response) = Some (VString sub) \<and> sub \<noteq> [] \<and> db i = None \<longrightarrow>
             callback env r' i now db =
               Inr (db(i \<mapsto> \<lparr>sr_tokens = tokensFromResponse now response, sr_sub = sub, sr_expires_at = now + SESSION_TTL_MS\<rparr>),
                 redirect (sanitizeReturnTo (be_foreign env) (search_get (hr_search r) ''return'') (hr_scheme r, hr_origin r))
                   [sessionSetCookie r' i, loginTxClearCookie r']))"
proof -
  let ?path = "sanitizeReturnTo (be_foreign env) (search_get (hr_search r) ''return'') (hr_scheme r, hr_origin r)"
  let ?tx = "\<lparr>tx_code_verifier = ls_verifier secrets, tx_state = ls_state secrets, tx_return_to = ?path\<rparr>"
  obtain origin base where o': "publicOrigin env r = Inr origin" "be_readBase env origin = Some base" and d: "be_discovered env"
    and p: "p = redirect (be_authorizationUrl env (authorization_params [] (snd base @ ''/auth/callback'') OIDC_SCOPE (ls_challenge secrets) (ls_state secrets)))
      [loginTxSetCookie r ?tx]"
    using assms(1) by (auto simp: sign_in_def callbackUrl_def bind_result_def Let_def split: if_splits sum.splits option.splits)
  obtain url where url: "new_URL (be_foreign env) (''/auth/callback'' @ hr_search r') (fst base, snd base) = Some url"
    "u_origin url = snd base" "u_pathname url = ''/auth/callback''"
    using callback_address [OF assms(5)] by blast
  then have c: "currentUrl env r' = Some url" using assms(3,4) o' by (simp add: currentUrl_def)
  have tx: "readLoginTx env r' = Some ?tx" using assms(2) p by (intro login_tx_back) (simp add: redirect_def)
  show ?thesis
    using c p url(2,3) tx d
    by (intro exI [of _ url] exI [of _ "authorization_params [] (snd base @ ''/auth/callback'') OIDC_SCOPE (ls_challenge secrets) (ls_state secrets)"])
      (auto simp: redirect_def authorization_params_def callback_def callback_tokens_def exchangeAuthorizationCode_def createSession_def
        column_text_def truthy_claim_def split: option.split)
qed

definition sample_secrets :: login_secrets where
  "sample_secrets = \<lparr>ls_verifier = ''ve'', ls_challenge = ''ch'', ls_state = ''st''\<rparr>"

definition sample_return :: "reply \<Rightarrow> http_request" where
  "sample_return p = sample_request ''GET'' ''/auth/callback'' ''?code=c&state=st''
     [(''cookie'', sc_name (hd (re_cookies p)) @ ''='' @ sc_value (hd (re_cookies p)))]"

lemma sample_trim: "trim ''https://app.test'' = ''https://app.test''"
  by (rule trim_visible) simp_all

lemma sample_origin: "publicOrigin sample_env (sample_request m path q [(''cookie'', c)]) = Inr ''https://app.test''"
    "publicOrigin sample_env (sample_request m path q []) = Inr ''https://app.test''"
  by (simp_all add: publicOrigin_def firstHeaderValue_def header_def sample_request_def truthy_def or_default_def Let_def
      allowedOrigins_def sample_env_def sample_trim)

lemma sample_signs_in: "\<exists>p. sign_in sample_env (sample_request ''GET'' ''/auth/sign-in'' ''?return=%2Fhome'' []) sample_secrets = Inr p
    \<and> sc_name (hd (re_cookies p)) = TX_COOKIE"
  using sample_origin(2)
  by (auto simp: sign_in_def callbackUrl_def bind_result_def sample_env_def redirect_def Let_def loginTxSetCookie_def buildSetCookie_def)

lemma sample_sub: "id_token_sub sample_env (tokensFromResponse now \<lparr>tr_access_token = ''at'', tr_refresh_token = Some ''rt'', tr_id_token = Some ''h.b.s'', tr_expires_in = Some 60\<rparr>)
    = Some (VString ''u1'')"
  using json_parse_object [of "[(''sub'', ''u1'')]"]
  by (simp add: id_token_sub_def tokensFromResponse_def truthy_def decodeIdTokenClaims_def sample_env_def Let_def)

lemma login_round_trip_witness:
  "\<exists>p db' p'. sign_in sample_env (sample_request ''GET'' ''/auth/sign-in'' ''?return=%2Fhome'' []) sample_secrets = Inr p
     \<and> callback sample_env (sample_return p) ''s1'' 0 Map.empty = Inr (db', p') \<and> db' ''s1'' \<noteq> None"
proof -
  obtain p where p: "sign_in sample_env (sample_request ''GET'' ''/auth/sign-in'' ''?return=%2Fhome'' []) sample_secrets = Inr p"
    and n: "sc_name (hd (re_cookies p)) = TX_COOKIE" using sample_signs_in by blast
  have c: "readCookie sample_env (sample_return p) (sc_name (hd (re_cookies p))) = Some (sc_value (hd (re_cookies p)))"
    by (simp add: n readCookie_def header_def sample_return_def sample_request_def truthy_def TX_COOKIE_def sample_env_def)
  have o': "publicOrigin sample_env (sample_return p) = publicOrigin sample_env (sample_request ''GET'' ''/auth/sign-in'' ''?return=%2Fhome'' [])"
    by (simp add: sample_return_def sample_origin)
  have h: "hr_pathname (sample_return p) = ''/auth/callback''" "hr_search (sample_return p) = [] \<or> startsWith (hr_search (sample_return p)) ''?''"
    by (simp_all add: sample_return_def sample_request_def)
  have "be_grant sample_env u v (ls_state sample_secrets)
      = Some \<lparr>tr_access_token = ''at'', tr_refresh_token = Some ''rt'', tr_id_token = Some ''h.b.s'', tr_expires_in = Some 60\<rparr>" for u v
    by (simp add: sample_env_def sample_secrets_def)
  then have "\<exists>db' p'. callback sample_env (sample_return p) ''s1'' 0 Map.empty = Inr (db', p') \<and> db' ''s1'' \<noteq> None"
    using login_round_trip [OF p c o' h, of "''s1''" 0 Map.empty] sample_sub [of 0] by auto
  with p show ?thesis by blast
qed

text \<open>
  C31. The callback changes the table only to complete a login: a row appears only for a request that
  carries the transaction of a sign-in, when the provider granted the code for the verifier and the
  state of that transaction, and it is the one row of the new id, with the tokens of that grant; the
  browser is then sent where that transaction says.
\<close>

theorem session_needs_its_login:
  assumes "callback env r i now db = Inr (db', p)" and "db' \<noteq> db"
  shows "\<exists>tx url response sub. readLoginTx env r = Some tx \<and> currentUrl env r = Some url
    \<and> be_grant env (u_origin url @ href_path url) (tx_code_verifier tx) (tx_state tx) = Some response
    \<and> db i = None \<and> db' = db(i \<mapsto> \<lparr>sr_tokens = tokensFromResponse now response, sr_sub = sub, sr_expires_at = now + SESSION_TTL_MS\<rparr>)
    \<and> p = redirect (tx_return_to tx) [sessionSetCookie r i, loginTxClearCookie r]"
  using assms
  by (auto simp: callback_def callback_tokens_def exchangeAuthorizationCode_def createSession_def Let_def
      split: option.splits if_splits bind_splits)

lemma session_needs_its_login_witness:
  "\<exists>p db' p' tx. callback sample_env (sample_return p) ''s1'' 0 Map.empty = Inr (db', p') \<and> db' \<noteq> Map.empty
     \<and> readLoginTx sample_env (sample_return p) = Some tx \<and> tx_state tx = ''st''"
proof -
  obtain p :: reply where n: "re_cookies p = [loginTxSetCookie (sample_request ''GET'' [] [] []) \<lparr>tx_code_verifier = ''ve'', tx_state = ''st'', tx_return_to = ''/''\<rparr>]"
    by (rule that [of "redirect [] [loginTxSetCookie (sample_request ''GET'' [] [] []) \<lparr>tx_code_verifier = ''ve'', tx_state = ''st'', tx_return_to = ''/''\<rparr>]"])
      (simp add: redirect_def)
  have "readCookie sample_env (sample_return p) (sc_name (hd (re_cookies p))) = Some (sc_value (hd (re_cookies p)))"
    by (simp add: n loginTxSetCookie_def buildSetCookie_def readCookie_def header_def sample_return_def sample_request_def truthy_def TX_COOKIE_def sample_env_def)
  then have tx: "readLoginTx sample_env (sample_return p) = Some \<lparr>tx_code_verifier = ''ve'', tx_state = ''st'', tx_return_to = ''/''\<rparr>"
    by (intro login_tx_back) (simp add: n)
  have "publicOrigin sample_env (sample_return p) = Inr ''https://app.test''" by (simp add: sample_return_def sample_origin)
  moreover obtain u where "new_URL (be_foreign sample_env) (''/auth/callback'' @ ''?code=c&state=st'') (''https'', ''https://app.test'') = Some u"
    using callback_address [of "''?code=c&state=st''"] by fastforce
  ultimately have "currentUrl sample_env (sample_return p) = Some u"
    by (simp add: currentUrl_def sample_return_def sample_request_def sample_env_def)
  moreover have "be_grant sample_env a v ''st''
      = Some \<lparr>tr_access_token = ''at'', tr_refresh_token = Some ''rt'', tr_id_token = Some ''h.b.s'', tr_expires_in = Some 60\<rparr>"
    "be_discovered sample_env" for a v
    by (simp_all add: sample_env_def)
  ultimately obtain db' p' where c: "callback sample_env (sample_return p) ''s1'' 0 Map.empty = Inr (db', p')" "db' \<noteq> Map.empty"
    using tx sample_sub [of 0]
    by (auto simp: callback_def callback_tokens_def exchangeAuthorizationCode_def createSession_def column_text_def truthy_claim_def)
  with session_needs_its_login [OF c] tx show ?thesis by fastforce
qed

section \<open>Where the browser is sent\<close>

lemma publicOrigin_allowed: "publicOrigin env r = Inr origin \<Longrightarrow> allowedOrigins env = Some allow \<Longrightarrow> origin \<in> set allow"
  by (auto simp: publicOrigin_def Let_def split: option.splits if_splits)

text \<open>
  With a list of allowed origins no header of a request sends the browser elsewhere: the provider
  is told to come back to the callback of an allowed origin or the sign-in fails, and after a logout
  the browser goes to an allowed origin's root, or to the provider with such a root to return to, or
  to the root of the page it is on; both user cookies are cleared then.
\<close>

theorem redirects_stay_allowed:
  assumes "allowedOrigins env = Some allow"
  shows "(\<forall>url. callbackUrl env r = Inr url \<longrightarrow>
       (\<exists>origin \<in> set allow. \<exists>base. be_readBase env origin = Some base \<and> url = snd base @ ''/auth/callback''))
    \<and> (\<forall>session p. answered_with (handleLogout env r) (Signed_out session) = Inr p \<and> re_status p = 302 \<longrightarrow>
       set (re_cookies p) = {sessionClearCookie r, ACTIVE_ORG_clear}
       \<and> (\<exists>location. map_of (re_headers p) ''location'' = Some location \<and>
            (location = ''/'' \<or> (\<exists>origin \<in> set allow. location = origin @ ''/''
               \<or> (\<exists>params. be_endSessionUrl env params = Some location \<and> map_of params ''post_logout_redirect_uri'' = Some (origin @ ''/''))))))"
proof (intro conjI allI impI)
  fix url assume "callbackUrl env r = Inr url"
  then show "\<exists>origin \<in> set allow. \<exists>base. be_readBase env origin = Some base \<and> url = snd base @ ''/auth/callback''"
    using publicOrigin_allowed [OF _ assms, of r]
    by (auto simp: callbackUrl_def bind_result_def split: sum.splits option.splits) blast
next
  fix session p assume "answered_with (handleLogout env r) (Signed_out session) = Inr p \<and> re_status p = 302"
  then obtain s where p: "p = signed_out env r s"
    by (auto simp: handleLogout_def Let_def split: if_splits)
  then show "set (re_cookies p) = {sessionClearCookie r, ACTIVE_ORG_clear}" by (simp add: signed_out_def redirect_def)
  have "map_of (end_session_params (Some (origin @ ''/'')) hint) ''post_logout_redirect_uri'' = Some (origin @ ''/'')" for origin hint
    by (simp add: end_session_params_def truthy_def)
  then show "\<exists>location. map_of (re_headers p) ''location'' = Some location \<and>
            (location = ''/'' \<or> (\<exists>origin \<in> set allow. location = origin @ ''/''
               \<or> (\<exists>params. be_endSessionUrl env params = Some location \<and> map_of params ''post_logout_redirect_uri'' = Some (origin @ ''/''))))"
    using publicOrigin_allowed [OF _ assms]
    by (auto simp: p signed_out_def redirect_def logout_location_def or_default_def split: sum.split option.split) blast
qed

lemma redirects_stay_allowed_witness:
  "(\<exists>url. callbackUrl sample_env sample_post = Inr url \<and> url = ''https://app.test/auth/callback'')
   \<and> (\<exists>p. answered_with (handleLogout sample_env sample_post) (Signed_out None) = Inr p \<and> re_status p = 302
        \<and> set (re_cookies p) = {sessionClearCookie sample_post, ACTIVE_ORG_clear})"
proof -
  have a: "allowedOrigins sample_env = Some [''https://app.test'']"
    by (simp add: allowedOrigins_def sample_env_def truthy_def sample_trim)
  have "publicOrigin sample_env sample_post = Inr ''https://app.test''"
    by (simp add: publicOrigin_def firstHeaderValue_def header_def sample_post_def sample_request_def truthy_def or_default_def Let_def a)
  then have url: "callbackUrl sample_env sample_post = Inr ''https://app.test/auth/callback''"
    by (simp add: callbackUrl_def bind_result_def sample_env_def)
  have "sameOrigin sample_post" by (simp add: sameOrigin_def header_def sample_post_def sample_request_def)
  moreover have "readSessionId sample_env sample_post = Some ''s1''"
    by (simp add: readSessionId_def readCookie_def header_def sample_env_def sample_post_def sample_request_def SESSION_COOKIE_def truthy_def)
  ultimately have p: "answered_with (handleLogout sample_env sample_post) (Signed_out None) = Inr (signed_out sample_env sample_post None)"
    by (simp add: handleLogout_def truthy_def)
  have "re_status (signed_out sample_env sample_post None) = 302" by (simp add: signed_out_def redirect_def)
  with url p redirects_stay_allowed [OF a, of sample_post] show ?thesis by blast
qed

end
