(* ===== verification/Server_Prefetch.thy ===== *)
theory Server_Prefetch
  imports Resource_Admin Navigation Bff Storage_Boot
begin

text \<open>
  Data that is fetched while a page is rendered on the server: the prefetch functions
  (\<^verbatim>\<open>apps/start/src/server/prefetch.ts\<close>, \<^verbatim>\<open>pivox-server-api.ts\<close>, \<^verbatim>\<open>connectors/fetch-agent-options.ts\<close>),
  the loaders and gates of the routes that put it into the query cache (\<^verbatim>\<open>apps/start/src/routes/_app.tsx\<close>
  and below, \<^verbatim>\<open>lib/auth-gate.ts\<close>, \<^verbatim>\<open>lib/orgs-query.ts\<close>) and the keys under which the hooks of the page
  read it (\<^verbatim>\<open>packages/features\<close>: the descriptors' \<open>useList\<close> and \<open>useRecord\<close>).

  A key of openapi-react-query is the method, the path template and the parameters; react-query
  compares keys by their hash, which sorts the fields of objects and drops undefined ones, so a key
  is modelled by the call it stands for, its path parameters a map. What the backend answers is a
  function of the token and the call.

  It is proved that the loaders prime exactly the key the page reads, with what the backend answers
  to the call of that key, and nothing else; that a failure primes nothing, and when it escapes; and
  that a page below an organization or a space is shown only for one the user belongs to.
\<close>

section \<open>Calls and keys\<close>

record api_call =
  ac_path :: string
  ac_params :: "string \<rightharpoonup> string"
  ac_query :: "list_query option"

definition api_call :: "string \<Rightarrow> (string \<times> string) list \<Rightarrow> list_query option \<Rightarrow> api_call" where
  "api_call path params query = \<lparr>ac_path = path, ac_params = map_of params, ac_query = query\<rparr>"

text \<open>\<open>$api.queryOptions('get', path, init).queryKey\<close>, and the key of the composite query of the agents.\<close>

datatype query_key = Api_key api_call | Connector_agents string

datatype 'd cached = Api_data 'd | Agents_data "agent_option list"

type_synonym 'd query_cache = "query_key \<rightharpoonup> 'd cached"

text \<open>How \<open>client.GET\<close> ends: a body, no body (a failed status), or a rejection.\<close>

datatype 'd fetched = Body 'd | No_body | Fetch_threw

text \<open>
  The environment of a render: what \<open>getSsrAccessToken\<close> resolves to (\<open>Inl\<close>: it rejects), the address
  of the backend, the backend, the readers of its bodies, and the cookie of the last organization.
\<close>

record 'd prefetch_env =
  pe_token :: "unit + string option"
  pe_backend :: "string option"
  pe_fetch :: "string \<Rightarrow> string \<Rightarrow> api_call \<Rightarrow> 'd fetched"
  pe_gateways :: "'d \<Rightarrow> string option list option"
  pe_agents :: "'d \<Rightarrow> agent_wire list option"
  pe_activeOrg :: "string option"

text \<open>\<open>None\<close>: the constructor throws.\<close>

definition createServerApiClient :: "'d prefetch_env \<Rightarrow> string \<Rightarrow> (api_call \<Rightarrow> 'd fetched) option" where
  "createServerApiClient env accessToken =
     (if accessToken = [] then None
      else if \<not> truthy (pe_backend env) then None
      else Some (pe_fetch env (the (pe_backend env)) accessToken))"

definition fetched_body :: "'d fetched \<Rightarrow> 'd option" where
  "fetched_body f = (case f of Body d \<Rightarrow> Some d | _ \<Rightarrow> None)"

section \<open>The prefetch functions\<close>

text \<open>The token is awaited outside the \<open>try\<close>: \<open>Inl\<close> is a rejection of the prefetch.\<close>

definition with_session_token :: "'d prefetch_env \<Rightarrow> (string \<Rightarrow> 'r option) \<Rightarrow> unit + 'r option" where
  "with_session_token env use =
     (case pe_token env of Inl _ \<Rightarrow> Inl () | Inr t \<Rightarrow> Inr (if truthy t then use (the t) else None))"

text \<open>A call made with a client that may not be there; everything that goes wrong ends as null.\<close>

definition fetch_with :: "'d prefetch_env \<Rightarrow> string \<Rightarrow> api_call \<Rightarrow> 'd option" where
  "fetch_with env accessToken call = Option.bind (createServerApiClient env accessToken) (\<lambda>client. fetched_body (client call))"

record 'd prefetched_list =
  pl_orgSlug :: string
  pl_request :: list_request
  pl_body :: 'd

definition prefetch_list ::
  "'d prefetch_env \<Rightarrow> (list_search \<Rightarrow> list_controls_value) \<Rightarrow> (string \<Rightarrow> list_controls_value \<Rightarrow> list_request) \<Rightarrow>
   string \<Rightarrow> string \<Rightarrow> string \<Rightarrow> string option \<Rightarrow> list_search \<Rightarrow> unit + 'd prefetched_list option" where
  "prefetch_list env searchToValue build path space_path orgSlug space search =
     with_session_token env (\<lambda>token.
       if orgSlug = [] then None
       else let req = build orgSlug ((searchToValue search)\<lparr>lv_scope := or_default space []\<rparr>);
                call = (case req of
                    Space_list params query \<Rightarrow> api_call space_path params (Some query)
                  | Org_list params query \<Rightarrow> api_call path [(''organization'', orgSlug)] (Some query))
            in map_option (\<lambda>body. \<lparr>pl_orgSlug = orgSlug, pl_request = req, pl_body = body\<rparr>) (fetch_with env token call))"

definition WORKFLOWS_PATH :: string where "WORKFLOWS_PATH = ''/v1/organizations/{organization}/workflows''"

definition SPACE_WORKFLOWS_PATH :: string where
  "SPACE_WORKFLOWS_PATH = ''/v1/organizations/{organization}/spaces/{space}/workflows''"

definition prefetchConnectors :: "'d prefetch_env \<Rightarrow> string \<Rightarrow> string option \<Rightarrow> list_search \<Rightarrow> unit + 'd prefetched_list option" where
  "prefetchConnectors env = prefetch_list env connectors_searchToValue buildConnectorsListRequest CONNECTORS_PATH SPACE_CONNECTORS_PATH"

definition prefetchSecrets :: "'d prefetch_env \<Rightarrow> string \<Rightarrow> string option \<Rightarrow> list_search \<Rightarrow> unit + 'd prefetched_list option" where
  "prefetchSecrets env = prefetch_list env secrets_searchToValue buildSecretsListRequest SECRETS_PATH SPACE_SECRETS_PATH"

definition prefetchWorkflows :: "'d prefetch_env \<Rightarrow> string \<Rightarrow> string option \<Rightarrow> list_search \<Rightarrow> unit + 'd prefetched_list option" where
  "prefetchWorkflows env = prefetch_list env workflows_searchToValue buildWorkflowsListRequest WORKFLOWS_PATH SPACE_WORKFLOWS_PATH"

record 'd prefetched_item =
  pi_orgSlug :: string
  pi_space :: "string option"
  pi_id :: string
  pi_body :: 'd

definition prefetch_item ::
  "'d prefetch_env \<Rightarrow> string \<Rightarrow> string \<Rightarrow> string \<Rightarrow> string \<Rightarrow> string option \<Rightarrow> string \<Rightarrow> unit + 'd prefetched_item option" where
  "prefetch_item env path space_path param orgSlug space i =
     with_session_token env (\<lambda>token.
       if orgSlug = [] then None
       else let call = (if truthy space then api_call space_path [(''organization'', orgSlug), (''space'', the space), (param, i)] None
                        else api_call path [(''organization'', orgSlug), (param, i)] None)
            in map_option (\<lambda>body. \<lparr>pi_orgSlug = orgSlug, pi_space = (if truthy space then space else None), pi_id = i, pi_body = body\<rparr>)
                 (fetch_with env token call))"

definition prefetchConnector :: "'d prefetch_env \<Rightarrow> string \<Rightarrow> string option \<Rightarrow> string \<Rightarrow> unit + 'd prefetched_item option" where
  "prefetchConnector env = prefetch_item env CONNECTOR_PATH SPACE_CONNECTOR_PATH ''connector''"

definition prefetchSecret :: "'d prefetch_env \<Rightarrow> string \<Rightarrow> string option \<Rightarrow> string \<Rightarrow> unit + 'd prefetched_item option" where
  "prefetchSecret env = prefetch_item env SECRET_PATH SPACE_SECRET_PATH ''secret''"

text \<open>
  The agents of all gateways: a call that is rejected, and a name that does not parse, reject the
  whole; a call that is answered with a failed status counts as an empty list.
\<close>

definition GATEWAYS_PATH :: string where "GATEWAYS_PATH = ''/v1/organizations/{organization}/storageGateways''"

definition AGENTS_PATH :: string where "AGENTS_PATH = ''/v1/organizations/{organization}/storageGateways/{storageGateway}/agents''"

definition gateway_slug :: "string option \<Rightarrow> name_error + string" where
  "gateway_slug name =
     (if truthy name then map_sum id (\<lambda>m. or_default (map_of m ''storageGateways'') []) (parseResourceName (the name)) else Inr [])"

definition gateway_agents :: "'d prefetch_env \<Rightarrow> (api_call \<Rightarrow> 'd fetched) \<Rightarrow> string \<Rightarrow> string option \<Rightarrow> agent_wire list option" where
  "gateway_agents env client organization name =
     (case gateway_slug name of
        Inl _ \<Rightarrow> None
      | Inr gateway \<Rightarrow>
          if gateway = [] then Some []
          else case client (api_call AGENTS_PATH [(''organization'', organization), (''storageGateway'', gateway)] None) of
              Fetch_threw \<Rightarrow> None
            | No_body \<Rightarrow> Some []
            | Body d \<Rightarrow> Some (or_default (pe_agents env d) []))"

fun all_agents :: "'d prefetch_env \<Rightarrow> (api_call \<Rightarrow> 'd fetched) \<Rightarrow> string \<Rightarrow> string option list \<Rightarrow> agent_wire list option" where
  "all_agents env client organization [] = Some []"
| "all_agents env client organization (g # gs) =
     Option.bind (gateway_agents env client organization g) (\<lambda>a. map_option ((@) a) (all_agents env client organization gs))"

definition fetchAgentOptions :: "'d prefetch_env \<Rightarrow> (api_call \<Rightarrow> 'd fetched) \<Rightarrow> string \<Rightarrow> agent_option list option" where
  "fetchAgentOptions env client organization =
     (case client (api_call GATEWAYS_PATH [(''organization'', organization)] None) of
        Fetch_threw \<Rightarrow> None
      | resp \<Rightarrow>
          Option.bind (all_agents env client organization (or_default (Option.bind (fetched_body resp) (pe_gateways env)) []))
            (\<lambda>agents. case toAgentOptions agents of Inl _ \<Rightarrow> None | Inr options \<Rightarrow> Some options))"

definition prefetchConnectorAgents :: "'d prefetch_env \<Rightarrow> string \<Rightarrow> unit + (string \<times> agent_option list) option" where
  "prefetchConnectorAgents env orgSlug =
     with_session_token env (\<lambda>token.
       if orgSlug = [] then None
       else Option.bind (createServerApiClient env token) (\<lambda>client. map_option (Pair orgSlug) (fetchAgentOptions env client orgSlug)))"

definition SPACES_PATH :: string where "SPACES_PATH = ''/v1/organizations/{organization}/spaces''"

definition ORGS_PATH :: string where "ORGS_PATH = ''/v1/accounts/me/organizations''"

definition account_orgs_call :: api_call where "account_orgs_call = api_call ORGS_PATH [(''parent'', ''accounts/me'')] None"

definition org_spaces_call :: "string \<Rightarrow> api_call" where "org_spaces_call orgSlug = api_call SPACES_PATH [(''organization'', orgSlug)] None"

definition prefetchSpacesForOrg :: "'d prefetch_env \<Rightarrow> string \<Rightarrow> unit + 'd option" where
  "prefetchSpacesForOrg env orgSlug =
     with_session_token env (\<lambda>token. if orgSlug = [] then None else fetch_with env token (org_spaces_call orgSlug))"

definition prefetchOrgsForCurrentUser :: "'d prefetch_env \<Rightarrow> unit + 'd option" where
  "prefetchOrgsForCurrentUser env = with_session_token env (\<lambda>token. fetch_with env token account_orgs_call)"

definition prefetchSpacesForActiveOrg :: "'d prefetch_env \<Rightarrow> unit + (string \<times> 'd) option" where
  "prefetchSpacesForActiveOrg env =
     with_session_token env (\<lambda>token.
       if \<not> truthy (pe_activeOrg env) then None
       else case organizationId (the (pe_activeOrg env)) of
           Inl _ \<Rightarrow> None
         | Inr orgSlug \<Rightarrow> if orgSlug = [] then None else map_option (Pair orgSlug) (fetch_with env token (org_spaces_call orgSlug)))"

text \<open>The cookie is read and parsed as the item says: a value that is empty is none.\<close>

definition getActiveOrgCookie :: "'d prefetch_env \<Rightarrow> string option" where
  "getActiveOrgCookie env = (if truthy (pe_activeOrg env) then pe_activeOrg env else None)"

section \<open>The loaders of the routes\<close>

definition prime_agents :: "(string \<times> agent_option list) option \<Rightarrow> 'd query_cache \<Rightarrow> 'd query_cache" where
  "prime_agents a cache = (case a of None \<Rightarrow> cache | Some (orgSlug, options) \<Rightarrow> cache(Connector_agents orgSlug \<mapsto> Agents_data options))"

definition request_query :: "list_request \<Rightarrow> list_query" where
  "request_query req = (case req of Org_list params query \<Rightarrow> query | Space_list params query \<Rightarrow> query)"

text \<open>The route of an organization, and the one of a space, which primes a space-scoped request only.\<close>

definition prime_list ::
  "string \<Rightarrow> string \<Rightarrow> string option \<Rightarrow> 'd prefetched_list option \<Rightarrow> 'd query_cache \<Rightarrow> 'd query_cache" where
  "prime_list path space_path space p cache =
     (case p of
        None \<Rightarrow> cache
      | Some prefetched \<Rightarrow>
          (case space of
             None \<Rightarrow> cache(Api_key (api_call path [(''organization'', pl_orgSlug prefetched)] (Some (request_query (pl_request prefetched))))
               \<mapsto> Api_data (pl_body prefetched))
           | Some _ \<Rightarrow>
               (case pl_request prefetched of
                  Org_list params query \<Rightarrow> cache
                | Space_list params query \<Rightarrow> cache(Api_key (api_call space_path params (Some query)) \<mapsto> Api_data (pl_body prefetched)))))"

definition connectors_loader ::
  "bool \<Rightarrow> 'd prefetch_env \<Rightarrow> string \<Rightarrow> string option \<Rightarrow> list_search \<Rightarrow> 'd query_cache \<Rightarrow> unit + 'd query_cache" where
  "connectors_loader ssr env organization space search cache =
     (if \<not> ssr then Inr cache
      else bind_result (prefetchConnectors env organization space search) (\<lambda>prefetched.
           bind_result (prefetchConnectorAgents env organization) (\<lambda>agents.
             Inr (prime_agents agents (prime_list CONNECTORS_PATH SPACE_CONNECTORS_PATH space prefetched cache)))))"

definition secrets_loader ::
  "bool \<Rightarrow> 'd prefetch_env \<Rightarrow> string \<Rightarrow> string option \<Rightarrow> list_search \<Rightarrow> 'd query_cache \<Rightarrow> unit + 'd query_cache" where
  "secrets_loader ssr env organization space search cache =
     (if \<not> ssr then Inr cache
      else map_sum id (\<lambda>prefetched. prime_list SECRETS_PATH SPACE_SECRETS_PATH space prefetched cache) (prefetchSecrets env organization space search))"

definition workflows_loader ::
  "bool \<Rightarrow> 'd prefetch_env \<Rightarrow> string \<Rightarrow> string option \<Rightarrow> list_search \<Rightarrow> 'd query_cache \<Rightarrow> unit + 'd query_cache" where
  "workflows_loader ssr env organization space search cache =
     (if \<not> ssr then Inr cache
      else map_sum id (\<lambda>prefetched. prime_list WORKFLOWS_PATH SPACE_WORKFLOWS_PATH space prefetched cache) (prefetchWorkflows env organization space search))"

definition prime_item ::
  "string \<Rightarrow> string \<Rightarrow> string \<Rightarrow> string option \<Rightarrow> 'd prefetched_item option \<Rightarrow> 'd query_cache \<Rightarrow> 'd query_cache" where
  "prime_item path space_path param space p cache =
     (case p of
        None \<Rightarrow> cache
      | Some it \<Rightarrow>
          (case space of
             None \<Rightarrow> cache(Api_key (api_call path [(''organization'', pi_orgSlug it), (param, pi_id it)] None) \<mapsto> Api_data (pi_body it))
           | Some _ \<Rightarrow>
               if truthy (pi_space it)
               then cache(Api_key (api_call space_path [(''organization'', pi_orgSlug it), (''space'', the (pi_space it)), (param, pi_id it)] None)
                 \<mapsto> Api_data (pi_body it))
               else cache))"

definition connector_edit_loader ::
  "bool \<Rightarrow> 'd prefetch_env \<Rightarrow> string \<Rightarrow> string option \<Rightarrow> string \<Rightarrow> 'd query_cache \<Rightarrow> unit + 'd query_cache" where
  "connector_edit_loader ssr env organization space i cache =
     (if \<not> ssr then Inr cache
      else bind_result (prefetchConnector env organization space i) (\<lambda>connector.
           bind_result (prefetchConnectorAgents env organization) (\<lambda>agents.
             Inr (prime_agents agents (prime_item CONNECTOR_PATH SPACE_CONNECTOR_PATH ''connector'' space connector cache)))))"

definition secret_edit_loader ::
  "bool \<Rightarrow> 'd prefetch_env \<Rightarrow> string \<Rightarrow> string option \<Rightarrow> string \<Rightarrow> 'd query_cache \<Rightarrow> unit + 'd query_cache" where
  "secret_edit_loader ssr env organization space i cache =
     (if \<not> ssr then Inr cache
      else map_sum id (\<lambda>secret. prime_item SECRET_PATH SPACE_SECRET_PATH ''secret'' space secret cache) (prefetchSecret env organization space i))"

section \<open>The keys the page reads\<close>









section \<open>Gates and layouts\<close>

text \<open>
  What a route comes to: the browser is sent away, the page is missing, the route fails, or it is
  shown. Both halves of the gate, on the server and in the browser, go to the same address.
\<close>

datatype 'a gated = Sent_to string | Missing | Failed | Passed 'a

definition requireKcSession :: "session_status \<Rightarrow> string \<Rightarrow> string \<Rightarrow> server_session gated" where
  "requireKcSession status pathname searchStr =
     (case st_user status of
        None \<Rightarrow> Sent_to (''/auth/sign-in?return='' @ encodeURIComponent (pathname @ searchStr))
      | Some user \<Rightarrow> Passed user)"

text \<open>The root of the signed-in pages: the orgs and the spaces of the last organization are primed.\<close>

definition app_beforeLoad ::
  "bool \<Rightarrow> 'd prefetch_env \<Rightarrow> session_status \<Rightarrow> string \<Rightarrow> string \<Rightarrow> 'd query_cache \<Rightarrow>
   (server_session \<times> string option \<times> 'd query_cache) gated" where
  "app_beforeLoad ssr env status pathname searchStr cache =
     (case requireKcSession status pathname searchStr of
        Passed user \<Rightarrow>
          if \<not> ssr then Passed (user, None, cache)
          else (case (prefetchOrgsForCurrentUser env, prefetchSpacesForActiveOrg env) of
             (Inr orgs, Inr spaces) \<Rightarrow>
               let c = (case orgs of None \<Rightarrow> cache | Some d \<Rightarrow> cache(Api_key account_orgs_call \<mapsto> Api_data d))
               in Passed (user, getActiveOrgCookie env,
                    case spaces of None \<Rightarrow> c | Some (orgSlug, d) \<Rightarrow> c(Api_key (org_spaces_call orgSlug) \<mapsto> Api_data d))
           | _ \<Rightarrow> Failed)
      | Sent_to target \<Rightarrow> Sent_to target
      | Missing \<Rightarrow> Missing
      | Failed \<Rightarrow> Failed)"

text \<open>What is cached is used, anything else is fetched; \<open>None\<close> is a failed fetch.\<close>

definition ensureQueryData :: "(api_call \<Rightarrow> 'd fetched) \<Rightarrow> api_call \<Rightarrow> 'd query_cache \<Rightarrow> ('d query_cache \<times> 'd) option" where
  "ensureQueryData client call cache =
     (case cache (Api_key call) of
        Some (Api_data d) \<Rightarrow> Some (cache, d)
      | _ \<Rightarrow> (case client call of Body d \<Rightarrow> Some (cache(Api_key call \<mapsto> Api_data d), d) | _ \<Rightarrow> None))"

definition organization_layout ::
  "('d \<Rightarrow> account_organization list option) \<Rightarrow> (api_call \<Rightarrow> 'd fetched) \<Rightarrow> string \<Rightarrow> 'd query_cache \<Rightarrow> ('d query_cache \<times> string) gated" where
  "organization_layout orgs_of client organization cache =
     (case ensureQueryData client account_orgs_call cache of
        None \<Rightarrow> Failed
      | Some (cache', data) \<Rightarrow>
          (case resolveOrgBySlug (toScopeOrgs (orgs_of data)) organization of
             Inl _ \<Rightarrow> Failed
           | Inr None \<Rightarrow> Missing
           | Inr (Some org) \<Rightarrow> Passed (cache', sc_organization org)))"

text \<open>\<open>some\<close> stops at the first match, and at a name that does not parse.\<close>

fun names_space :: "string \<Rightarrow> string option list \<Rightarrow> name_error + bool" where
  "names_space space [] = Inr False"
| "names_space space (None # names) = names_space space names"
| "names_space space (Some n # names) = bind_result (spaceId n) (\<lambda>i. if i = space then Inr True else names_space space names)"

definition space_layout ::
  "bool \<Rightarrow> 'd prefetch_env \<Rightarrow> ('d \<Rightarrow> string option list option) \<Rightarrow> (api_call \<Rightarrow> 'd fetched) \<Rightarrow> string \<Rightarrow> string \<Rightarrow> 'd query_cache \<Rightarrow>
   ('d query_cache \<times> string) gated" where
  "space_layout ssr env spaces_of client organization space cache =
     (case (if ssr then prefetchSpacesForOrg env organization else Inr None) of
        Inl _ \<Rightarrow> Failed
      | Inr primed \<Rightarrow>
          let c = (case primed of None \<Rightarrow> cache | Some d \<Rightarrow> cache(Api_key (org_spaces_call organization) \<mapsto> Api_data d))
          in (case ensureQueryData client (org_spaces_call organization) c of
                None \<Rightarrow> Failed
              | Some (cache', data) \<Rightarrow>
                  (case names_space space (or_default (spaces_of data) []) of
                     Inl _ \<Rightarrow> Failed
                   | Inr found \<Rightarrow> if found then Passed (cache', ''organizations/'' @ organization @ ''/spaces/'' @ space) else Missing)))"

text \<open>The root page only redirects.\<close>

definition root_redirect ::
  "('d \<Rightarrow> account_organization list option) \<Rightarrow> (api_call \<Rightarrow> 'd fetched) \<Rightarrow> string option \<Rightarrow> 'd query_cache \<Rightarrow> unit gated" where
  "root_redirect orgs_of client remembered cache =
     (case ensureQueryData client account_orgs_call cache of
        None \<Rightarrow> Failed
      | Some (_, data) \<Rightarrow>
          (case resolveRootTarget (toScopeOrgs (orgs_of data)) remembered of
             RootCreate \<Rightarrow> Sent_to ''/auth/create-org''
           | RootSelector \<Rightarrow> Sent_to ''/organizations''
           | RootOrg organization \<Rightarrow>
               (case organizationId organization of Inl _ \<Rightarrow> Failed | Inr i \<Rightarrow> Sent_to (''/organizations/'' @ i))))"

section \<open>The primed key is the one the page reads\<close>


text \<open>What priming a call leaves in the cache: the answer of the backend to it, if there is one.\<close>

definition primed :: "'d prefetch_env \<Rightarrow> api_call \<Rightarrow> 'd query_cache \<Rightarrow> 'd query_cache" where
  "primed env call cache =
     (case pe_token env of
        Inr (Some t) \<Rightarrow> (case fetch_with env t call of None \<Rightarrow> cache | Some d \<Rightarrow> cache(Api_key call \<mapsto> Api_data d))
      | _ \<Rightarrow> cache)"

lemma with_session_token_Inr:
  assumes "pe_token env = Inr tk"
  shows "with_session_token env use = Inr (if truthy tk then use (the tk) else None)"
  using assms by (simp add: with_session_token_def)

lemma no_token_no_client [simp]: "fetch_with env [] call = None"
  by (simp add: fetch_with_def createServerApiClient_def)








text \<open>A backend with one organization, its spaces and gateways, for the examples: a body is a list of names.\<close>

definition sample_backend :: "string list prefetch_env" where
  "sample_backend =
     \<lparr>pe_token = Inr (Some ''at''), pe_backend = Some ''https://api.test'',
      pe_fetch = (\<lambda>base token call.
        if ac_path call = ORGS_PATH then Body [''organizations/acme'']
        else if ac_path call = SPACES_PATH then Body [''organizations/acme/spaces/main'']
        else if ac_path call = GATEWAYS_PATH then No_body
        else Body [''row'']),
      pe_gateways = (\<lambda>d. Some (map Some d)), pe_agents = (\<lambda>d. None), pe_activeOrg = Some ''organizations/acme''\<rparr>"

definition empty_search :: list_search where
  "empty_search = \<lparr>se_q = None, se_agent = None, se_scope = None, se_sort = None, se_dir = None, se_size = None, se_cursor = None\<rparr>"



section \<open>Failures\<close>

lemma with_token_fails [simp]: "with_session_token env use = Inl e \<longleftrightarrow> pe_token env = Inl e"
  by (cases "pe_token env") (simp_all add: with_session_token_def)

lemma bind_result_fails [simp]: "bind_result r k = Inl e \<longleftrightarrow> r = Inl e \<or> (\<exists>x. r = Inr x \<and> k x = Inl e)"
  by (cases r) simp_all

lemma map_sum_fails [simp]: "map_sum id h r = Inl e \<longleftrightarrow> r = Inl e"
  by (cases r) simp_all

lemma map_sum_returns [simp]: "map_sum id h r = Inr y \<longleftrightarrow> (\<exists>x. r = Inr x \<and> y = h x)"
  by (cases r) auto

lemmas prefetch_defs = prefetchConnectors_def prefetchSecrets_def prefetchWorkflows_def prefetchConnector_def prefetchSecret_def
  prefetch_list_def prefetch_item_def prefetchConnectorAgents_def prefetchSpacesForOrg_def prefetchOrgsForCurrentUser_def
  prefetchSpacesForActiveOrg_def

text \<open>
  A backend that answers no call with a body: every call is rejected or has a failed status. Then the
  prefetch of the agents ends in one of two ways, by how the call for the gateways ends.
\<close>

definition silent_backend :: "'d prefetch_env \<Rightarrow> bool" where
  "silent_backend env \<longleftrightarrow> (\<forall>base t call. fetched_body (pe_fetch env base t call) = None)"

definition gateways_refused :: "'d prefetch_env \<Rightarrow> string \<Rightarrow> bool" where
  "gateways_refused env org \<longleftrightarrow> org \<noteq> [] \<and> truthy (pe_backend env) \<and> (\<exists>t. pe_token env = Inr (Some t) \<and> t \<noteq> []
     \<and> pe_fetch env (the (pe_backend env)) t (api_call GATEWAYS_PATH [(''organization'', org)] None) = No_body)"

lemma silent_fetch: "silent_backend env \<Longrightarrow> fetch_with env t call = None"
  by (simp add: silent_backend_def fetch_with_def createServerApiClient_def)

lemma silent_agents:
  assumes "silent_backend env" and "pe_token env = Inr tk"
  shows "prefetchConnectorAgents env org = Inr (if gateways_refused env org then Some (org, []) else None)"
proof -
  have "fetchAgentOptions env (pe_fetch env base t) org
      = (if pe_fetch env base t (api_call GATEWAYS_PATH [(''organization'', org)] None) = No_body then Some [] else None)" for base t
  proof (cases "pe_fetch env base t (api_call GATEWAYS_PATH [(''organization'', org)] None)")
    case (Body d)
    then show ?thesis using assms(1) unfolding silent_backend_def fetched_body_def by (metis fetched.simps(8) option.distinct(1))
  qed (simp_all add: fetchAgentOptions_def fetched_body_def or_default_def)
  then show ?thesis using assms(2)
    by (auto simp: prefetchConnectorAgents_def with_session_token_def gateways_refused_def createServerApiClient_def truthy_def split: option.splits)
qed

text \<open>
  C29. A failed prefetch never fails the page, with one exception: the loaders and the root of the
  signed-in pages reject exactly when reading the session rejects. When the backend answers no call
  with a body, the loaders of the secrets, of one secret and of the workflows leave the cache as it
  was; so do those of the connectors and of one connector, unless the call for the gateways was
  answered with a failed status: then, and only then, an empty list of agents is put into the cache.
\<close>

theorem only_the_session_fails_a_page:
  "(connectors_loader True env org space search cache = Inl () \<longleftrightarrow> pe_token env = Inl ())
   \<and> (connector_edit_loader True env org space i cache = Inl () \<longleftrightarrow> pe_token env = Inl ())
   \<and> (secrets_loader True env org space search cache = Inl () \<longleftrightarrow> pe_token env = Inl ())
   \<and> (secret_edit_loader True env org space i cache = Inl () \<longleftrightarrow> pe_token env = Inl ())
   \<and> (workflows_loader True env org space search cache = Inl () \<longleftrightarrow> pe_token env = Inl ())
   \<and> (app_beforeLoad True env status p q cache = Failed \<longleftrightarrow> st_user status \<noteq> None \<and> pe_token env = Inl ())
   \<and> (pe_token env = Inr tk \<and> silent_backend env \<longrightarrow>
        secrets_loader True env org space search cache = Inr cache \<and> workflows_loader True env org space search cache = Inr cache
        \<and> secret_edit_loader True env org space i cache = Inr cache
        \<and> (let left = Inr (if gateways_refused env org then cache(Connector_agents org \<mapsto> Agents_data []) else cache)
           in connectors_loader True env org space search cache = left \<and> connector_edit_loader True env org space i cache = left))"
proof (intro conjI impI)
  show "connectors_loader True env org space search cache = Inl () \<longleftrightarrow> pe_token env = Inl ()"
    by (simp add: connectors_loader_def prefetch_defs) blast
  show "connector_edit_loader True env org space i cache = Inl () \<longleftrightarrow> pe_token env = Inl ()"
    by (simp add: connector_edit_loader_def prefetch_defs) blast
  show "secrets_loader True env org space search cache = Inl () \<longleftrightarrow> pe_token env = Inl ()"
    by (simp add: secrets_loader_def prefetch_defs)
  show "secret_edit_loader True env org space i cache = Inl () \<longleftrightarrow> pe_token env = Inl ()"
    by (simp add: secret_edit_loader_def prefetch_defs)
  show "workflows_loader True env org space search cache = Inl () \<longleftrightarrow> pe_token env = Inl ()"
    by (simp add: workflows_loader_def prefetch_defs)
  show "app_beforeLoad True env status p q cache = Failed \<longleftrightarrow> st_user status \<noteq> None \<and> pe_token env = Inl ()"
    by (cases "pe_token env") (auto simp: app_beforeLoad_def requireKcSession_def prefetch_defs with_session_token_def Let_def split: option.splits prod.splits)
next
  assume h: "pe_token env = Inr tk \<and> silent_backend env"
  have l: "prefetch_list env stv build path sp org space search = Inr None" for stv build path sp
    using h by (simp add: prefetch_list_def with_session_token_def silent_fetch Let_def)
  have e: "prefetch_item env path sp param org space i = Inr None" for path sp param
    using h by (simp add: prefetch_item_def with_session_token_def silent_fetch Let_def)
  note d = prefetchConnectors_def prefetchSecrets_def prefetchWorkflows_def prefetchConnector_def prefetchSecret_def prime_list_def prime_item_def
  show "secrets_loader True env org space search cache = Inr cache" "workflows_loader True env org space search cache = Inr cache"
    "secret_edit_loader True env org space i cache = Inr cache"
    by (simp_all add: secrets_loader_def workflows_loader_def secret_edit_loader_def d l e)
  show "let left = Inr (if gateways_refused env org then cache(Connector_agents org \<mapsto> Agents_data []) else cache)
      in connectors_loader True env org space search cache = left \<and> connector_edit_loader True env org space i cache = left"
    using h by (simp add: Let_def connectors_loader_def connector_edit_loader_def d l e silent_agents prime_agents_def)
qed

text \<open>
  An answer with a failed status to the call for the gateways is taken for an organization without
  gateways: the empty list of agents is primed as if it were complete.
\<close>

lemma failed_gateways_prime_no_agents:
  "prefetchConnectorAgents sample_backend ''acme'' = Inr (Some (''acme'', []))"
  by (simp add: prefetchConnectorAgents_def with_session_token_def sample_backend_def createServerApiClient_def truthy_def fetchAgentOptions_def
      api_call_def ORGS_PATH_def SPACES_PATH_def GATEWAYS_PATH_def fetched_body_def or_default_def)

text \<open>
  The witness: a session that cannot be read, and one that can while every call is answered with a
  failed status, or while every call is rejected.
\<close>

lemma only_the_session_fails_a_page_witness:
  "secrets_loader True (sample_backend\<lparr>pe_token := Inl ()\<rparr>) ''acme'' None empty_search Map.empty = Inl ()
   \<and> secrets_loader True (sample_backend\<lparr>pe_fetch := \<lambda>base t call. No_body\<rparr>) ''acme'' None empty_search Map.empty = Inr Map.empty
   \<and> connectors_loader True (sample_backend\<lparr>pe_fetch := \<lambda>base t call. No_body\<rparr>) ''acme'' None empty_search Map.empty
       = Inr [Connector_agents ''acme'' \<mapsto> Agents_data []]
   \<and> connectors_loader True (sample_backend\<lparr>pe_fetch := \<lambda>base t call. Fetch_threw\<rparr>) ''acme'' None empty_search Map.empty = Inr Map.empty"
proof -
  have "secrets_loader True (sample_backend\<lparr>pe_token := Inl ()\<rparr>) ''acme'' None empty_search Map.empty = Inl ()"
    using only_the_session_fails_a_page [of "sample_backend\<lparr>pe_token := Inl ()\<rparr>" "''acme''" None empty_search Map.empty] by simp
  moreover have ok: "pe_token (sample_backend\<lparr>pe_fetch := f\<rparr>) = Inr (Some ''at'')" for f by (simp add: sample_backend_def)
  have "silent_backend (sample_backend\<lparr>pe_fetch := \<lambda>base t call. No_body\<rparr>)" "gateways_refused (sample_backend\<lparr>pe_fetch := \<lambda>base t call. No_body\<rparr>) ''acme''"
    by (simp_all add: silent_backend_def fetched_body_def gateways_refused_def ok) (simp add: sample_backend_def truthy_def)
  then have "secrets_loader True (sample_backend\<lparr>pe_fetch := \<lambda>base t call. No_body\<rparr>) ''acme'' None empty_search Map.empty = Inr Map.empty
     \<and> connectors_loader True (sample_backend\<lparr>pe_fetch := \<lambda>base t call. No_body\<rparr>) ''acme'' None empty_search Map.empty
       = Inr [Connector_agents ''acme'' \<mapsto> Agents_data []]"
    using only_the_session_fails_a_page [of "sample_backend\<lparr>pe_fetch := \<lambda>base t call. No_body\<rparr>" "''acme''" None empty_search Map.empty
        _ _ _ _ "Some ''at''"] ok by (simp add: Let_def)
  moreover have "silent_backend (sample_backend\<lparr>pe_fetch := \<lambda>base t call. Fetch_threw\<rparr>)"
    "\<not> gateways_refused (sample_backend\<lparr>pe_fetch := \<lambda>base t call. Fetch_threw\<rparr>) ''acme''"
    by (simp_all add: silent_backend_def fetched_body_def gateways_refused_def)
  then have "connectors_loader True (sample_backend\<lparr>pe_fetch := \<lambda>base t call. Fetch_threw\<rparr>) ''acme'' None empty_search Map.empty = Inr Map.empty"
    using only_the_session_fails_a_page [of "sample_backend\<lparr>pe_fetch := \<lambda>base t call. Fetch_threw\<rparr>" "''acme''" None empty_search Map.empty
        _ _ _ _ "Some ''at''"] ok by (simp add: Let_def)
  ultimately show ?thesis by blast
qed

section \<open>Scopes\<close>

text \<open>What a call is answered, by the prefetch with the user's token or by the page's own client.\<close>

definition answered :: "'d prefetch_env \<Rightarrow> (api_call \<Rightarrow> 'd fetched) \<Rightarrow> api_call \<Rightarrow> 'd \<Rightarrow> bool" where
  "answered env client call d \<longleftrightarrow> client call = Body d \<or> (\<exists>t. pe_token env = Inr (Some t) \<and> fetch_with env t call = Some d)"

definition honest_cache :: "'d prefetch_env \<Rightarrow> (api_call \<Rightarrow> 'd fetched) \<Rightarrow> 'd query_cache \<Rightarrow> bool" where
  "honest_cache env client cache \<longleftrightarrow> (\<forall>call d. cache (Api_key call) = Some (Api_data d) \<longrightarrow> answered env client call d)"

lemma honest_empty [simp]: "honest_cache env client Map.empty"
  by (simp add: honest_cache_def)

lemma honest_upd [simp]: "honest_cache env client cache \<Longrightarrow> answered env client call d \<Longrightarrow> honest_cache env client (cache(Api_key call \<mapsto> Api_data d))"
  by (auto simp: honest_cache_def)

lemma with_token_answer:
  assumes "with_session_token env use = Inr (Some r)"
  obtains t where "pe_token env = Inr (Some t)" and "use t = Some r"
  using assms by (auto simp: with_session_token_def truthy_def split: sum.splits if_splits)

lemma orgs_answer: "prefetchOrgsForCurrentUser env = Inr (Some d) \<Longrightarrow> answered env client account_orgs_call d"
  unfolding prefetchOrgsForCurrentUser_def answered_def by (erule with_token_answer) blast

lemma spaces_answer: "prefetchSpacesForOrg env org = Inr (Some d) \<Longrightarrow> answered env client (org_spaces_call org) d"
  unfolding prefetchSpacesForOrg_def answered_def by (erule with_token_answer) (auto split: if_splits)

lemma active_spaces_answer: "prefetchSpacesForActiveOrg env = Inr (Some (org, d)) \<Longrightarrow> answered env client (org_spaces_call org) d"
  unfolding prefetchSpacesForActiveOrg_def answered_def by (erule with_token_answer) (auto split: if_splits sum.splits)

lemma app_cache_honest:
  assumes "app_beforeLoad ssr env status p q cache = Passed (user, active, cache')" and "honest_cache env client cache"
  shows "honest_cache env client cache' \<and> st_user status = Some user"
  using assms orgs_answer [of env _ client] active_spaces_answer [of env _ _ client]
  by (auto simp: app_beforeLoad_def requireKcSession_def Let_def split: option.splits if_splits sum.splits)

lemma ensureQueryData_answer:
  assumes "ensureQueryData client call cache = Some (cache', d)" and "honest_cache env client cache"
  shows "honest_cache env client cache' \<and> answered env client call d"
proof -
  have "answered env client call d" if "client call = Body d" using that by (simp add: answered_def)
  then show ?thesis using assms
    by (auto simp: ensureQueryData_def honest_cache_def split: option.splits cached.splits fetched.splits if_splits)
qed

lemma names_space_sound: "names_space space names = Inr True \<Longrightarrow> \<exists>n. Some n \<in> set names \<and> spaceId n = Inr space"
  by (induction names rule: names_space.induct) (auto simp: bind_result_def split: sum.splits if_splits)

text \<open>
  C20. A page below an organization and a space is rendered only for a user with a session, in an
  organization of the list the backend answers for that user, whose slug is the one in the URL, and
  in a space of the list the backend answers for that organization; the scope handed to the page is
  these, whatever the cookie of the last organization says.
\<close>

theorem shown_scopes_are_real:
  assumes "app_beforeLoad True env status p q Map.empty = Passed (user, active, c)"
    and "organization_layout orgs_of client org c = Passed (c', o')"
    and "space_layout True env spaces_of client org space c' = Passed (c'', s)"
  shows "st_user status = Some user
    \<and> (\<exists>d account. answered env client account_orgs_call d \<and> account \<in> set (or_default (orgs_of d) [])
         \<and> ao_organization account = Some o' \<and> organizationId o' = Inr org)
    \<and> s = ''organizations/'' @ org @ ''/spaces/'' @ space
    \<and> (\<exists>d n. answered env client (org_spaces_call org) d \<and> Some n \<in> set (or_default (spaces_of d) []) \<and> spaceId n = Inr space)"
proof -
  from app_cache_honest [OF assms(1) honest_empty] have u: "st_user status = Some user" and h: "honest_cache env client c" by auto
  obtain d found where d: "ensureQueryData client account_orgs_call c = Some (c', d)" "resolveOrgBySlug (toScopeOrgs (orgs_of d)) org = Inr (Some found)"
    "o' = sc_organization found"
    using assms(2) by (auto simp: organization_layout_def split: option.splits sum.splits)
  from ensureQueryData_answer [OF d(1) h] have h': "honest_cache env client c'" and a: "answered env client account_orgs_call d" by auto
  from d(2) have "found \<in> set (toScopeOrgs (orgs_of d))" "organizationId o' = Inr org"
    using find_org_sound d(3) by (auto simp: resolveOrgBySlug_def split: if_splits)
  then obtain account where "account \<in> set (or_default (orgs_of d) [])" "ao_organization account = Some o'"
    using d(3) by (auto simp: toScopeOrgs_def truthy_def)
  with a \<open>organizationId o' = Inr org\<close> have org: "\<exists>d account. answered env client account_orgs_call d \<and> account \<in> set (or_default (orgs_of d) [])
         \<and> ao_organization account = Some o' \<and> organizationId o' = Inr org" by blast
  obtain primed data where p: "prefetchSpacesForOrg env org = Inr primed"
    and e: "ensureQueryData client (org_spaces_call org) (case primed of None \<Rightarrow> c' | Some d \<Rightarrow> c'(Api_key (org_spaces_call org) \<mapsto> Api_data d)) = Some (c'', data)"
    and n: "names_space space (or_default (spaces_of data) []) = Inr True" and s: "s = ''organizations/'' @ org @ ''/spaces/'' @ space"
    using assms(3) by (auto simp: space_layout_def Let_def split: option.splits sum.splits if_splits)
  have "honest_cache env client (case primed of None \<Rightarrow> c' | Some d \<Rightarrow> c'(Api_key (org_spaces_call org) \<mapsto> Api_data d))"
    using h' p spaces_answer [of env org _ client] by (auto split: option.split)
  from ensureQueryData_answer [OF e this] names_space_sound [OF n] u org s show ?thesis by blast
qed

definition sample_status :: session_status where
  "sample_status =
     \<lparr>st_user = Some \<lparr>ss_id = VString ''u1'', ss_email = None, ss_displayName = None, ss_photoURL = None\<rparr>, st_cookiePresent = True,
      st_accountConsoleUrl = None\<rparr>"

definition names_as_orgs :: "string list \<Rightarrow> account_organization list option" where
  "names_as_orgs d = Some (map (\<lambda>n. \<lparr>ao_organization = Some n, ao_displayName = None\<rparr>) d)"

lemma sample_names:
  "organizationId ''organizations/acme'' = Inr ''acme''" "spaceId ''organizations/acme/spaces/main'' = Inr ''main''"
proof -
  have n: "''organizations/acme'' = format_name [(''organizations'', ''acme'')]"
    "''organizations/acme/spaces/main'' = format_name [(''organizations'', ''acme''), (''spaces'', ''main'')]"
    by (simp_all add: format_name_def)
  have w: "wf_segments [(''organizations'', ''acme'')]" "wf_segments [(''organizations'', ''acme''), (''spaces'', ''main'')]"
    by (simp_all add: wf_segments_def object_prototype_keys_def)
  show "organizationId ''organizations/acme'' = Inr ''acme''"
    using parseResourceName_complete [OF w(1), folded n(1)] by (simp add: organizationId_def or_default_def)
  show "spaceId ''organizations/acme/spaces/main'' = Inr ''main''"
    using parseResourceName_complete [OF w(2), folded n(2)] by (simp add: spaceId_def or_default_def)
qed

lemma sample_fetch:
  "fetch_with sample_backend ''at'' account_orgs_call = Some [''organizations/acme'']"
  "fetch_with sample_backend ''at'' (org_spaces_call org) = Some [''organizations/acme/spaces/main'']"
  by (simp_all add: fetch_with_def createServerApiClient_def sample_backend_def truthy_def fetched_body_def account_orgs_call_def
      org_spaces_call_def api_call_def ORGS_PATH_def SPACES_PATH_def)

lemma shown_scopes_are_real_witness:
  "\<exists>user active c c' c'' o' s. app_beforeLoad True sample_backend sample_status ''/organizations/acme/spaces/main'' [] Map.empty = Passed (user, active, c)
     \<and> organization_layout names_as_orgs (\<lambda>call. No_body) ''acme'' c = Passed (c', o')
     \<and> space_layout True sample_backend (\<lambda>d. Some (map Some d)) (\<lambda>call. No_body) ''acme'' ''main'' c' = Passed (c'', s)
     \<and> o' = ''organizations/acme'' \<and> s = ''organizations/acme/spaces/main'' \<and> st_user sample_status = Some user"
proof -
  let ?c = "Map.empty(Api_key account_orgs_call \<mapsto> Api_data [''organizations/acme''],
    Api_key (org_spaces_call ''acme'') \<mapsto> Api_data [''organizations/acme/spaces/main''])"
  have t: "pe_token sample_backend = Inr (Some ''at'')" "pe_activeOrg sample_backend = Some ''organizations/acme''"
    by (simp_all add: sample_backend_def)
  have neq: "account_orgs_call \<noteq> org_spaces_call ''acme''"
    by (simp add: account_orgs_call_def org_spaces_call_def api_call_def ORGS_PATH_def SPACES_PATH_def)
  have w: "with_session_token sample_backend use = Inr (use ''at'')" for use :: "string \<Rightarrow> 'r option"
    using t(1) by (simp add: with_session_token_def truthy_def)
  have a: "app_beforeLoad True sample_backend sample_status ''/organizations/acme/spaces/main'' [] Map.empty
      = Passed (the (st_user sample_status), Some ''organizations/acme'', ?c)"
    using t(2) sample_names(1) sample_fetch(1) sample_fetch(2) [of "''acme''"]
    by (simp add: app_beforeLoad_def requireKcSession_def sample_status_def prefetchOrgsForCurrentUser_def prefetchSpacesForActiveOrg_def w
        getActiveOrgCookie_def truthy_def Let_def)
  have org: "organization_layout names_as_orgs (\<lambda>call. No_body) ''acme'' ?c = Passed (?c, ''organizations/acme'')"
    using neq sample_names(1)
    by (simp add: organization_layout_def ensureQueryData_def resolveOrgBySlug_def toScopeOrgs_def names_as_orgs_def truthy_def or_default_def)
  have "space_layout True sample_backend (\<lambda>d. Some (map Some d)) (\<lambda>call. No_body) ''acme'' ''main'' ?c
      = Passed (?c(Api_key (org_spaces_call ''acme'') \<mapsto> Api_data [''organizations/acme/spaces/main'']), ''organizations/acme/spaces/main'')"
    using sample_names(2) sample_fetch(2) [of "''acme''"]
    by (simp add: space_layout_def prefetchSpacesForOrg_def w ensureQueryData_def or_default_def Let_def)
  with a org shown_scopes_are_real [OF a org this] show ?thesis by blast
qed

section \<open>The gate leads back\<close>

lemma percent_decode_char: "percent_decode (encode_char c @ r) = c # percent_decode r"
proof (cases "unreserved c")
  case True
  then have "c \<noteq> CHR ''%''" by (rule unreserved_not_percent)
  then have "percent_decode (c # r) = c # percent_decode r"
    by (cases "(c # r)" rule: percent_decode.cases) (auto split: option.split)
  with True show ?thesis by (simp add: encode_char_def)
next
  case False
  have "char_of (16 * (byte c div 16) + byte c mod 16) = c" by simp
  with False show ?thesis by (simp add: encode_char_def escape_def)
qed

lemma percent_decode_encode: "percent_decode (encodeURIComponent s) = s"
  by (induction s) (simp_all add: encodeURIComponent_def percent_decode_char)

lemma encoded_no_sign: "c \<in> {CHR ''&'', CHR ''='', CHR ''+''} \<Longrightarrow> c \<notin> set (encodeURIComponent s)"
proof -
  assume c: "c \<in> {CHR ''&'', CHR ''='', CHR ''+''}"
  then have "\<not> cookie_octet c" by (auto simp: cookie_octet_def unreserved_def is_digit_def)
  then show ?thesis using encode_octets [of s] by (auto simp: list_all_iff)
qed

lemma search_get_return: "search_get (''?return='' @ encodeURIComponent s) ''return'' = Some s"
proof -
  let ?e = "encodeURIComponent s"
  have amp: "CHR ''&'' \<notin> set (''return='' @ ?e)" and plus: "CHR ''+'' \<notin> set ?e" and eq: "CHR ''='' \<notin> set ?e"
    using encoded_no_sign by simp_all
  have "map (\<lambda>c. if c = CHR ''+'' then CHR '' '' else c) ?e = ?e" using plus by (intro map_idI) auto
  then have "form_decode ?e = s" by (simp add: form_decode_def percent_decode_encode)
  moreover have "form_decode ''return'' = ''return''" by (simp add: form_decode_def)
  ultimately have "form_pair (''return='' @ ?e) = (''return'', s)" using eq by (simp add: form_pair_def)
  moreover have "split_on (CHR ''&'') (''return='' @ ?e) = [''return='' @ ?e]" by (rule split_on_no_sep [OF amp])
  ultimately show ?thesis by (simp add: search_get_def search_params_def)
qed

text \<open>
  C28. The gate leads back: a request without a session is sent to the sign-in with a query from which
  the sign-in reads the very path and search of the page, and it keeps any path of the application's
  own, so that the login ends on the page it began on.
\<close>

theorem gate_leads_back:
  assumes "requireKcSession status pathname searchStr = Sent_to target"
  shows "\<exists>q. target = ''/auth/sign-in'' @ q \<and> search_get q ''return'' = Some (pathname @ searchStr)
    \<and> (\<forall>foreign scheme origin t. pathname @ searchStr = href_path (path_url origin t) \<and> \<not> startsWith (pathname @ searchStr) ''//'' \<longrightarrow>
         sanitizeReturnTo foreign (search_get q ''return'') (scheme, origin) = pathname @ searchStr)"
proof -
  let ?q = "''?return='' @ encodeURIComponent (pathname @ searchStr)"
  have t: "target = ''/auth/sign-in'' @ ?q" using assms by (auto simp: requireKcSession_def split: option.splits)
  have g: "search_get ?q ''return'' = Some (pathname @ searchStr)" by (rule search_get_return)
  have "sanitizeReturnTo foreign (search_get ?q ''return'') (scheme, origin) = pathname @ searchStr"
    if "pathname @ searchStr = href_path (path_url origin t)" "\<not> startsWith (pathname @ searchStr) ''//''" for foreign scheme origin t
  proof -
    have "href_path (path_url origin t) \<noteq> []" using href_path_slash [of origin t] by (cases "href_path (path_url origin t)") auto
    moreover have "u_origin (path_url origin t) = origin" by (simp add: path_url_def)
    moreover have "new_URL foreign (href_path (path_url origin t)) (scheme, origin) = Some (path_url origin t)"
      using that by (intro new_URL_of_path) simp
    ultimately show ?thesis unfolding g unfolding that(1) by (simp add: sanitizeReturnTo_def truthy_def)
  qed
  with t g show ?thesis by blast
qed

lemma gate_leads_back_witness:
  "\<exists>target q. requireKcSession (sample_status\<lparr>st_user := None\<rparr>) ''/organizations/a&b'' ''?q=1'' = Sent_to target
     \<and> target = ''/auth/sign-in'' @ q \<and> search_get q ''return'' = Some ''/organizations/a&b?q=1''"
proof -
  obtain target where t: "requireKcSession (sample_status\<lparr>st_user := None\<rparr>) ''/organizations/a&b'' ''?q=1'' = Sent_to target"
    by (simp add: requireKcSession_def)
  from gate_leads_back [OF t] t show ?thesis by auto
qed

end
