(* ===== verification/Create_Org.thy ===== *)
theory Create_Org
  imports Navigation
begin

text \<open>
  Onboarding: the form that creates an organization
  (\<^verbatim>\<open>packages/features/src/create-org/slug.ts\<close>, \<^verbatim>\<open>use-create-org.ts\<close>) and the gate that sends a user
  without organizations there (\<^verbatim>\<open>packages/features/src/org-gate/use-org-gate.ts\<close>).

  A hook is a state with one function for each thing that can happen to it: an edit, a submission, the
  answer to a request, a change of what it is rendered with. React runs the submissions of a form one
  after the other, each with the values of the render it was made in; an effect's clean-up cancels
  the fetch it started.

  It is proved that only valid requests are posted, one at a time, and that the form always becomes
  idle; and that the gate never waits for an answer that cannot come.
\<close>

section \<open>Short names\<close>

definition org_slugify :: "string \<Rightarrow> string" where
  "org_slugify name = take 20 (drop_hyphens (slug_loop (slug_items name) [] False))"

text \<open>\<open>/^[a-z][a-z0-9-]{3,19}$/\<close>.\<close>

definition isValidSlug :: "string \<Rightarrow> bool" where
  "isValidSlug s =
     (case s of [] \<Rightarrow> False
      | c # r \<Rightarrow> lower_alnum c \<and> \<not> is_digit c \<and> list_all (\<lambda>x. lower_alnum x \<or> x = CHR ''-'') r \<and> 3 \<le> length r \<and> length r \<le> 19)"

section \<open>The form\<close>

definition apostrophe :: char where "apostrophe = CHR 39"

definition NAME_REQUIRED :: string where "NAME_REQUIRED = ''Organization name is required.''"

definition SLUG_RULES :: string where
  "SLUG_RULES = ''Short name must be 4'' @ map char_of [226, 128, 147 :: nat] @ ''20 characters and match the rules below.''"

definition CREATE_FAILED :: string where
  "CREATE_FAILED = ''Couldn'' @ apostrophe # ''t create your organization. Please try again.''"

definition OPERATION_FAILED :: string where "OPERATION_FAILED = ''Couldn'' @ apostrophe # ''t create your organization.''"

definition TAKES_LONGER :: string where
  "TAKES_LONGER = ''Organization creation is taking longer than expected. Please refresh.''"

text \<open>
  The fields, the submissions that wait, the request under way, all the requests that were posted, and
  how often \<open>onSuccess\<close> was called.
\<close>

record create_org =
  co_displayName :: string
  co_organizationId :: string
  co_slugTouched :: bool
  co_error :: "string option"
  co_waiting :: "(string \<times> string) list"
  co_posting :: "(string \<times> string) option"
  co_posts :: "(string \<times> string) list"
  co_successes :: nat

definition create_org_mount :: create_org where
  "create_org_mount =
     \<lparr>co_displayName = [], co_organizationId = [], co_slugTouched = False, co_error = None, co_waiting = [], co_posting = None,
      co_posts = [], co_successes = 0\<rparr>"

definition updateDisplayName :: "string \<Rightarrow> create_org \<Rightarrow> create_org" where
  "updateDisplayName next s =
     (let s' = s\<lparr>co_displayName := next\<rparr>
      in if \<not> co_slugTouched s then s'\<lparr>co_organizationId := org_slugify next\<rparr> else s')"

definition updateOrganizationId :: "string \<Rightarrow> create_org \<Rightarrow> create_org" where
  "updateOrganizationId next s = s\<lparr>co_organizationId := next, co_slugTouched := next \<noteq> []\<rparr>"

definition check_submission :: "string \<times> string \<Rightarrow> string + string \<times> string" where
  "check_submission v =
     (let trimmedName = trim (fst v)
      in if trimmedName = [] then Inl NAME_REQUIRED
         else if \<not> isValidSlug (snd v) then Inl SLUG_RULES
         else Inr (trimmedName, snd v))"

text \<open>The waiting submissions, up to the first that posts a request.\<close>

fun run_actions :: "(string \<times> string) list \<Rightarrow> create_org \<Rightarrow> create_org" where
  "run_actions [] s = s\<lparr>co_waiting := []\<rparr>"
| "run_actions (v # vs) s =
     (case check_submission v of
        Inl e \<Rightarrow> run_actions vs (s\<lparr>co_error := Some e\<rparr>)
      | Inr post \<Rightarrow> s\<lparr>co_error := None, co_waiting := vs, co_posting := Some post, co_posts := co_posts s @ [post]\<rparr>)"

definition submit :: "create_org \<Rightarrow> create_org" where
  "submit s =
     (let v = (co_displayName s, co_organizationId s)
      in case co_posting s of
           None \<Rightarrow> run_actions (co_waiting s @ [v]) s
         | Some _ \<Rightarrow> s\<lparr>co_waiting := co_waiting s @ [v]\<rparr>)"

text \<open>How the request ends: a rejection, an error status, or the operation.\<close>

datatype create_answer =
    Create_rejected
  | Create_error "string option"
  | Operation_error "string option"
  | Operation_pending
  | Operation_done

definition create_outcome :: "create_answer \<Rightarrow> create_org \<Rightarrow> create_org" where
  "create_outcome a s =
     (case a of
        Create_rejected \<Rightarrow> s\<lparr>co_error := Some CREATE_FAILED\<rparr>
      | Create_error message \<Rightarrow> s\<lparr>co_error := Some (or_default message CREATE_FAILED)\<rparr>
      | Operation_error message \<Rightarrow> s\<lparr>co_error := Some (or_default message OPERATION_FAILED)\<rparr>
      | Operation_pending \<Rightarrow> s\<lparr>co_error := Some TAKES_LONGER\<rparr>
      | Operation_done \<Rightarrow> s\<lparr>co_successes := co_successes s + 1\<rparr>)"

definition create_answered :: "create_answer \<Rightarrow> create_org \<Rightarrow> create_org" where
  "create_answered a s =
     (case co_posting s of
        None \<Rightarrow> s
      | Some _ \<Rightarrow> run_actions (co_waiting s) ((create_outcome a s)\<lparr>co_posting := None\<rparr>))"

datatype create_event = Edit_name string | Edit_slug string | Submit | Create_answered create_answer

fun create_step :: "create_event \<Rightarrow> create_org \<Rightarrow> create_org" where
  "create_step (Edit_name n) s = updateDisplayName n s"
| "create_step (Edit_slug n) s = updateOrganizationId n s"
| "create_step Submit s = submit s"
| "create_step (Create_answered a) s = create_answered a s"

definition create_run :: "create_event list \<Rightarrow> create_org \<Rightarrow> create_org" where
  "create_run es s = fold create_step es s"

section \<open>Only valid requests, one at a time\<close>

definition valid_post :: "string \<times> string \<Rightarrow> bool" where
  "valid_post p \<longleftrightarrow> fst p \<noteq> [] \<and> trim (fst p) = fst p \<and> isValidSlug (snd p)"

definition create_ok :: "create_org \<Rightarrow> bool" where
  "create_ok s \<longleftrightarrow> list_all valid_post (co_posts s)
     \<and> (co_posting s = None \<longrightarrow> co_waiting s = []) \<and> (\<forall>p. co_posting s = Some p \<longrightarrow> co_posts s \<noteq> [] \<and> last (co_posts s) = p)"

lemma check_submission_valid: "check_submission v = Inr p \<Longrightarrow> valid_post p"
  by (auto simp: check_submission_def valid_post_def Let_def split: if_splits)

lemma run_actions_fields:
  "co_displayName (run_actions vs s) = co_displayName s \<and> co_organizationId (run_actions vs s) = co_organizationId s
   \<and> co_slugTouched (run_actions vs s) = co_slugTouched s \<and> co_successes (run_actions vs s) = co_successes s"
  by (induction vs arbitrary: s) (auto split: sum.split)

lemma run_actions_ok:
  assumes "list_all valid_post (co_posts s)" and "co_posting s = None"
  shows "create_ok (run_actions vs s)"
proof -
  have "list_all valid_post (co_posts (run_actions vs s))
    \<and> (co_posting (run_actions vs s) = None \<longrightarrow> co_waiting (run_actions vs s) = [])
    \<and> (\<forall>p. co_posting (run_actions vs s) = Some p \<longrightarrow> co_posts (run_actions vs s) \<noteq> [] \<and> last (co_posts (run_actions vs s)) = p)"
    using assms by (induction vs arbitrary: s) (simp_all add: check_submission_valid split: sum.split)
  then show ?thesis by (simp add: create_ok_def)
qed

lemma create_step_ok: "create_ok s \<Longrightarrow> create_ok (create_step e s)"
proof (induction e)
  case (Edit_name n)
  then show ?case by (cases "co_posting s") (auto simp: create_ok_def updateDisplayName_def Let_def)
next
  case (Edit_slug n)
  then show ?case by (cases "co_posting s") (auto simp: create_ok_def updateOrganizationId_def)
next
  case Submit
  show ?case
  proof (cases "co_posting s")
    case None
    have "create_ok (run_actions (co_waiting s @ [(co_displayName s, co_organizationId s)]) s)"
      using Submit None by (intro run_actions_ok) (simp_all add: create_ok_def)
    with None show ?thesis by (simp add: submit_def)
  next
    case (Some p)
    then have "submit s = s\<lparr>co_waiting := co_waiting s @ [(co_displayName s, co_organizationId s)]\<rparr>" by (simp add: submit_def)
    with Submit Some show ?thesis by (auto simp: create_ok_def)
  qed
next
  case (Create_answered a)
  show ?case
  proof (cases "co_posting s")
    case (Some p)
    have "create_ok (run_actions (co_waiting s) ((create_outcome a s)\<lparr>co_posting := None\<rparr>))"
      using Create_answered by (intro run_actions_ok) (auto simp: create_ok_def create_outcome_def split: create_answer.split)
    with Some show ?thesis by (simp add: create_answered_def)
  qed (use Create_answered in \<open>simp add: create_answered_def\<close>)
qed

lemma create_run_ok: "create_ok (create_run es create_org_mount)"
proof -
  have "create_ok (create_run es s)" if "create_ok s" for s
    using that by (induction es arbitrary: s) (auto simp: create_run_def create_step_ok)
  moreover have "create_ok create_org_mount" by (simp add: create_ok_def create_org_mount_def)
  ultimately show ?thesis by blast
qed

text \<open>How many requests have ended, and how many of them with the operation done.\<close>

fun answered_posts :: "create_event list \<Rightarrow> create_org \<Rightarrow> create_answer list" where
  "answered_posts [] s = []"
| "answered_posts (e # es) s =
     (case (e, co_posting s) of (Create_answered a, Some _) \<Rightarrow> a # answered_posts es (create_step e s) | _ \<Rightarrow> answered_posts es (create_step e s))"

lemma run_actions_posts:
  "co_posting s = None \<Longrightarrow> length (co_posts (run_actions vs s)) = length (co_posts s) + (if co_posting (run_actions vs s) = None then 0 else 1)"
  by (induction vs arbitrary: s) (auto split: sum.split)

lemma create_step_counts:
  assumes "create_ok s"
  defines "n \<equiv> (\<lambda>s. length (co_posts s) - (if co_posting s = None then 0 else 1))"
  shows "n (create_step e s) = n s + (if \<exists>a. e = Create_answered a \<and> co_posting s \<noteq> None then 1 else 0)"
    and "co_successes (create_step e s) = co_successes s + (if e = Create_answered Operation_done \<and> co_posting s \<noteq> None then 1 else 0)"
proof -
  have "n (create_step e s) = n s + (if \<exists>a. e = Create_answered a \<and> co_posting s \<noteq> None then 1 else 0)
    \<and> co_successes (create_step e s) = co_successes s + (if e = Create_answered Operation_done \<and> co_posting s \<noteq> None then 1 else 0)"
  proof (cases e)
    case Submit
    then show ?thesis
      using run_actions_posts [of s "co_waiting s @ [(co_displayName s, co_organizationId s)]"]
        run_actions_fields [of "co_waiting s @ [(co_displayName s, co_organizationId s)]" s]
      by (cases "co_posting s") (simp_all add: n_def submit_def Let_def)
  next
    case (Create_answered a)
    show ?thesis
    proof (cases "co_posting s")
      case (Some p)
      let ?s = "(create_outcome a s)\<lparr>co_posting := None\<rparr>"
      have "co_posts ?s = co_posts s" "co_posting ?s = None" by (cases a; simp add: create_outcome_def)+
      moreover have "co_posts s \<noteq> []" using assms(1) Some by (simp add: create_ok_def)
      moreover have "co_successes ?s = co_successes s + (if a = Operation_done then 1 else 0)" by (cases a) (simp_all add: create_outcome_def)
      ultimately show ?thesis
        using run_actions_posts [of ?s "co_waiting s"] run_actions_fields [of "co_waiting s" ?s] Create_answered Some
        by (simp add: n_def create_answered_def Suc_leI length_greater_0_conv [symmetric] del: length_greater_0_conv)
    qed (simp add: Create_answered n_def create_answered_def)
  qed (simp_all add: n_def updateDisplayName_def updateOrganizationId_def Let_def)
  then show "n (create_step e s) = n s + (if \<exists>a. e = Create_answered a \<and> co_posting s \<noteq> None then 1 else 0)"
    and "co_successes (create_step e s) = co_successes s + (if e = Create_answered Operation_done \<and> co_posting s \<noteq> None then 1 else 0)"
    by auto
qed

lemma create_run_counts:
  assumes "create_ok s"
  shows "length (co_posts (create_run es s)) - (if co_posting (create_run es s) = None then 0 else 1)
      = length (co_posts s) - (if co_posting s = None then 0 else 1) + length (answered_posts es s)
    \<and> co_successes (create_run es s) = co_successes s + count_list (answered_posts es s) Operation_done"
  using assms
proof (induction es arbitrary: s)
  case (Cons e es)
  have "create_ok (create_step e s)" using Cons.prems by (rule create_step_ok)
  note IH = Cons.IH [OF this] and n = create_step_counts [OF Cons.prems, of e]
  have r: "create_run (e # es) s = create_run es (create_step e s)" by (simp add: create_run_def)
  show ?case
  proof (cases "\<exists>a. e = Create_answered a \<and> co_posting s \<noteq> None")
    case True
    then obtain a p where "e = Create_answered a" "co_posting s = Some p" by auto
    with IH n r show ?thesis by simp
  next
    case False
    then have "answered_posts (e # es) s = answered_posts es (create_step e s)" by (cases e; cases "co_posting s") auto
    with False IH n r show ?thesis by auto
  qed
qed (simp add: create_run_def)

text \<open>What the fields hold: submissions and answers leave them alone.\<close>

definition names_in :: "create_event list \<Rightarrow> bool" where
  "names_in es \<longleftrightarrow> (\<exists>n. Edit_name n \<in> set es)"

definition slugs_in :: "create_event list \<Rightarrow> bool" where
  "slugs_in es \<longleftrightarrow> (\<exists>v. Edit_slug v \<in> set es)"

lemma create_step_fields:
  "e = Submit \<or> e = Create_answered a \<Longrightarrow> co_displayName (create_step e s) = co_displayName s
     \<and> co_organizationId (create_step e s) = co_organizationId s \<and> co_slugTouched (create_step e s) = co_slugTouched s"
  by (cases "co_posting s") (auto simp: submit_def create_answered_def run_actions_fields create_outcome_def Let_def split: create_answer.splits)

lemma create_run_snoc: "create_run (es @ [e]) s = create_step e (create_run es s)"
  by (simp add: create_run_def)

lemma create_run_append: "create_run (es @ es') s = create_run es' (create_run es s)"
  by (simp add: create_run_def)

lemma name_kept: "\<not> names_in es \<Longrightarrow> co_displayName (create_run es s) = co_displayName s"
proof (induction es rule: rev_induct)
  case (snoc e es)
  then have "\<not> names_in es" by (auto simp: names_in_def)
  with snoc show ?case using create_step_fields [of e]
    by (cases e) (auto simp: create_run_snoc updateOrganizationId_def names_in_def)
qed (simp add: create_run_def)

lemma slug_kept:
  "\<not> slugs_in es \<Longrightarrow> co_slugTouched (create_run es s) = co_slugTouched s
     \<and> co_organizationId (create_run es s)
         = (if co_slugTouched s \<or> \<not> names_in es then co_organizationId s else org_slugify (co_displayName (create_run es s)))"
proof (induction es rule: rev_induct)
  case (snoc e es)
  then have "\<not> slugs_in es" by (auto simp: slugs_in_def)
  moreover have "names_in (es @ [e]) \<longleftrightarrow> names_in es \<or> (\<exists>n. e = Edit_name n)" by (auto simp: names_in_def)
  ultimately show ?case using snoc create_step_fields [of e]
    by (cases e) (auto simp: create_run_snoc updateDisplayName_def slugs_in_def Let_def)
qed (simp add: create_run_def names_in_def)

lemma org_slugify_empty [simp]: "org_slugify [] = []"
  by (simp add: org_slugify_def)

text \<open>
  C22. The form asks for organizations only with a name and a short name the server accepts, and for
  one at a time: whatever is typed, submitted and answered, every request posted has a trimmed,
  non-empty name and a valid short name, all but the last of them have been answered, and success is
  reported once for each operation that was done. The name is the one typed last. The short name is
  that of the name as long as it was not edited; after it was last edited it is what was typed there,
  except that after it was cleared it is again that of the name once the name is typed.
\<close>

theorem create_org_posts_valid:
  assumes "s = create_run es create_org_mount"
  shows "list_all valid_post (co_posts s)
     \<and> length (co_posts s) = length (answered_posts es create_org_mount) + (if co_posting s = None then 0 else 1)
     \<and> co_successes s = count_list (answered_posts es create_org_mount) Operation_done
     \<and> (\<forall>before n after. es = before @ Edit_name n # after \<longrightarrow> \<not> names_in after \<longrightarrow> co_displayName s = n)
     \<and> (\<not> slugs_in es \<longrightarrow> co_organizationId s = org_slugify (co_displayName s))
     \<and> (\<forall>before v after. es = before @ Edit_slug v # after \<longrightarrow> \<not> slugs_in after \<longrightarrow>
          co_organizationId s = (if v = [] \<and> names_in after then org_slugify (co_displayName s) else v))"
proof (intro conjI allI impI)
  have m: "co_posts create_org_mount = []" "co_successes create_org_mount = 0" "co_posting create_org_mount = None"
    by (simp_all add: create_org_mount_def)
  have "create_ok create_org_mount" by (simp add: create_ok_def create_org_mount_def)
  from create_run_counts [OF this, of es] m
  have c: "length (co_posts s) - (if co_posting s = None then 0 else 1) = length (answered_posts es create_org_mount)"
    "co_successes s = count_list (answered_posts es create_org_mount) Operation_done" unfolding assms by simp_all
  have ok: "list_all valid_post (co_posts s)" "co_posting s \<noteq> None \<longrightarrow> co_posts s \<noteq> []"
    using create_run_ok [of es] unfolding assms by (auto simp: create_ok_def)
  then show "list_all valid_post (co_posts s)"
    "length (co_posts s) = length (answered_posts es create_org_mount) + (if co_posting s = None then 0 else 1)"
    "co_successes s = count_list (answered_posts es create_org_mount) Operation_done"
    using c by (cases "co_posts s"; auto)+
  show "co_displayName s = n" if "es = before @ Edit_name n # after" "\<not> names_in after" for before n after
  proof -
    have "s = create_run after (updateDisplayName n (create_run before create_org_mount))"
      unfolding assms that(1) by (simp add: create_run_def)
    with name_kept [OF that(2)] show ?thesis by (simp add: updateDisplayName_def Let_def)
  qed
  show "co_organizationId s = org_slugify (co_displayName s)" if "\<not> slugs_in es"
    using slug_kept [OF that, of create_org_mount] name_kept [of es create_org_mount] unfolding assms
    by (auto simp: create_org_mount_def split: if_splits)
  show "co_organizationId s = (if v = [] \<and> names_in after then org_slugify (co_displayName s) else v)"
    if "es = before @ Edit_slug v # after" "\<not> slugs_in after" for before v after
  proof -
    have "s = create_run after (updateOrganizationId v (create_run before create_org_mount))"
      unfolding assms that(1) by (simp add: create_run_def)
    with slug_kept [OF that(2)] show ?thesis by (auto simp: updateOrganizationId_def)
  qed
qed

text \<open>The witness: a short name is edited, cleared, and follows the name that is typed next.\<close>

lemma create_org_posts_valid_witness:
  "let s = create_run [Edit_name ''Acme'', Edit_slug ''x'', Edit_slug [], Submit, Edit_name ''Acme Labs''] create_org_mount in
     co_displayName s = ''Acme Labs'' \<and> co_organizationId s = org_slugify ''Acme Labs''"
proof -
  let ?es = "[Edit_name ''Acme'', Edit_slug ''x'', Edit_slug [], Submit, Edit_name ''Acme Labs'']"
  let ?s = "create_run ?es create_org_mount"
  note p = create_org_posts_valid [OF refl, of ?es]
  note name = p [THEN conjunct2, THEN conjunct2, THEN conjunct2, THEN conjunct1, rule_format]
  note slug = p [THEN conjunct2, THEN conjunct2, THEN conjunct2, THEN conjunct2, THEN conjunct2, rule_format]
  have "co_displayName ?s = ''Acme Labs''"
    by (rule name [of "[Edit_name ''Acme'', Edit_slug ''x'', Edit_slug [], Submit]" _ "[]"]) (simp_all add: names_in_def)
  moreover have "co_organizationId ?s = (if [] = ([] :: string) \<and> names_in [Submit, Edit_name ''Acme Labs'']
      then org_slugify (co_displayName ?s) else [])"
    by (rule slug [of "[Edit_name ''Acme'', Edit_slug ''x'']"]) (simp_all add: slugs_in_def)
  moreover have "names_in [Submit, Edit_name ''Acme Labs'']" by (simp add: names_in_def)
  ultimately show ?thesis unfolding Let_def by simp
qed

text \<open>
  The form always becomes idle: as many answers as there are submissions waiting, and one for the
  request under way, whatever they are, end all of them.
\<close>

lemma create_org_becomes_idle:
  assumes "length (co_waiting s) < length as"
  shows "co_posting (create_run (map Create_answered as) s) = None"
proof -
  have none: "co_posting (create_run (map Create_answered as) s) = None" if "co_posting s = None" for as s
    using that by (induction as) (simp_all add: create_run_def create_answered_def)
  have short: "co_posting (run_actions vs s) \<noteq> None \<Longrightarrow> co_posting s = None \<Longrightarrow> length (co_waiting (run_actions vs s)) < length vs" for vs s
  proof (induction vs arbitrary: s)
    case (Cons v vs)
    show ?case
    proof (cases "check_submission v")
      case (Inl e)
      with Cons.prems Cons.IH [of "s\<lparr>co_error := Some e\<rparr>"] show ?thesis by simp
    qed simp
  qed simp
  show ?thesis
    using assms
  proof (induction as arbitrary: s)
    case (Cons a as)
    show ?case
    proof (cases "co_posting s")
      case None
      then show ?thesis by (rule none)
    next
      case (Some p)
      let ?t = "run_actions (co_waiting s) ((create_outcome a s)\<lparr>co_posting := None\<rparr>)"
      have r: "create_run (map Create_answered (a # as)) s = create_run (map Create_answered as) ?t"
        using Some by (simp add: create_run_def create_answered_def)
      show ?thesis
      proof (cases "co_posting ?t")
        case None
        then show ?thesis unfolding r by (rule none)
      next
        case (Some p')
        then have "length (co_waiting ?t) < length (co_waiting s)" by (intro short) simp_all
        then show ?thesis unfolding r using Cons by (intro Cons.IH) simp
      qed
    qed
  qed simp
qed

section \<open>The gate\<close>

datatype gate_outcome = Has_orgs | No_orgs | List_failed

datatype gate_view = Gate_loading | Gate_ready | Gate_empty | Gate_error

text \<open>
  What the hook is rendered with (the user, by identity, and whether the session is still loading), the
  state it keeps, and its fetches: how many were started, those not answered yet, and the one that
  was not cancelled.
\<close>

record org_gate =
  og_user :: "nat option"
  og_authLoading :: bool
  og_outcome :: "gate_outcome option"
  og_error :: "string option"
  og_started :: nat
  og_pending :: "nat list"
  og_live :: "nat option"

definition LIST_FAILED :: string where
  "LIST_FAILED = ''Couldn'' @ apostrophe # ''t load your organizations. Please try again.''"

text \<open>The effect runs again: its clean-up cancels the fetch before.\<close>

definition gate_effect :: "org_gate \<Rightarrow> org_gate" where
  "gate_effect s =
     (if og_authLoading s \<or> og_user s = None then s\<lparr>og_live := None\<rparr>
      else s\<lparr>og_started := og_started s + 1, og_pending := og_started s # og_pending s, og_live := Some (og_started s)\<rparr>)"

definition gate_mount :: "nat option \<Rightarrow> bool \<Rightarrow> org_gate" where
  "gate_mount user authLoading =
     gate_effect \<lparr>og_user = user, og_authLoading = authLoading, og_outcome = None, og_error = None, og_started = 0, og_pending = [],
       og_live = None\<rparr>"

definition gate_render :: "nat option \<Rightarrow> bool \<Rightarrow> org_gate \<Rightarrow> org_gate" where
  "gate_render user authLoading s =
     (if user = og_user s \<and> authLoading = og_authLoading s then s
      else gate_effect (s\<lparr>og_user := user, og_authLoading := authLoading\<rparr>))"

definition gate_retry :: "org_gate \<Rightarrow> org_gate" where
  "gate_retry s = gate_effect (s\<lparr>og_outcome := None, og_error := None\<rparr>)"

text \<open>How a fetch ends: with a list of that many organizations, or an error status or a rejection.\<close>

datatype gate_answer = Listed nat | Not_listed

definition gate_answered :: "nat \<Rightarrow> gate_answer \<Rightarrow> org_gate \<Rightarrow> org_gate" where
  "gate_answered n a s =
     (if n \<notin> set (og_pending s) then s
      else let s' = s\<lparr>og_pending := remove1 n (og_pending s)\<rparr>
        in if og_live s \<noteq> Some n then s'
           else case a of
               Listed count \<Rightarrow> s'\<lparr>og_error := None, og_outcome := Some (if count = 0 then No_orgs else Has_orgs)\<rparr>
             | Not_listed \<Rightarrow> s'\<lparr>og_error := Some LIST_FAILED, og_outcome := Some List_failed\<rparr>)"

definition gate_status :: "org_gate \<Rightarrow> gate_view" where
  "gate_status s =
     (case og_outcome s of
        Some Has_orgs \<Rightarrow> Gate_ready
      | Some No_orgs \<Rightarrow> Gate_empty
      | Some List_failed \<Rightarrow> Gate_error
      | None \<Rightarrow> if og_authLoading s then Gate_loading else if og_user s = None then Gate_ready else Gate_loading)"

datatype gate_event = Render_gate "nat option" bool | Retry | Gate_answer nat gate_answer

fun gate_step :: "gate_event \<Rightarrow> org_gate \<Rightarrow> org_gate" where
  "gate_step (Render_gate user authLoading) s = gate_render user authLoading s"
| "gate_step Retry s = gate_retry s"
| "gate_step (Gate_answer n a) s = gate_answered n a s"

definition gate_run :: "gate_event list \<Rightarrow> org_gate \<Rightarrow> org_gate" where
  "gate_run es s = fold gate_step es s"

text \<open>The invariant: fetches are numbered, the live one is for the user of the render, and no other is awaited.\<close>

definition gate_ok :: "org_gate \<Rightarrow> bool" where
  "gate_ok s \<longleftrightarrow> distinct (og_pending s) \<and> (\<forall>n \<in> set (og_pending s). n < og_started s)
     \<and> (og_error s \<noteq> None \<longleftrightarrow> og_outcome s = Some List_failed)
     \<and> (\<forall>n. og_live s = Some n \<longrightarrow> n < og_started s)
     \<and> ((og_live s = None) \<longleftrightarrow> og_authLoading s \<or> og_user s = None)
     \<and> (og_outcome s = None \<longrightarrow> (\<forall>n. og_live s = Some n \<longrightarrow> n \<in> set (og_pending s)))"

lemma gate_effect_ok:
  assumes "distinct (og_pending s)" and "\<forall>n \<in> set (og_pending s). n < og_started s" and "og_error s \<noteq> None \<longleftrightarrow> og_outcome s = Some List_failed"
  shows "gate_ok (gate_effect s)"
  using assms by (auto simp: gate_ok_def gate_effect_def)

lemma gate_step_ok: "gate_ok s \<Longrightarrow> gate_ok (gate_step e s)"
proof (induction e)
  case (Render_gate user authLoading)
  then show ?case unfolding gate_step.simps gate_render_def by (auto intro!: gate_effect_ok simp: gate_ok_def [of s])
next
  case Retry
  then show ?case unfolding gate_step.simps gate_retry_def by (auto intro!: gate_effect_ok simp: gate_ok_def [of s])
next
  case (Gate_answer n a)
  show ?case
  proof (cases "n \<in> set (og_pending s) \<and> og_live s = Some n")
    case True
    then show ?thesis using Gate_answer by (cases a) (auto simp: gate_answered_def gate_ok_def Let_def)
  next
    case False
    then show ?thesis using Gate_answer by (auto simp: gate_answered_def gate_ok_def Let_def)
  qed
qed

lemma gate_run_ok: "gate_ok (gate_run es (gate_mount user authLoading))"
proof -
  have "gate_ok (gate_run es s)" if "gate_ok s" for s
    using that by (induction es arbitrary: s) (auto simp: gate_run_def gate_step_ok)
  moreover have "gate_ok (gate_mount user authLoading)" unfolding gate_mount_def by (rule gate_effect_ok) simp_all
  ultimately show ?thesis by blast
qed

lemma late_answer_unseen:
  "og_live s \<noteq> Some n \<Longrightarrow> gate_status (gate_answered n a s) = gate_status s \<and> og_error (gate_answered n a s) = og_error s"
  by (cases "n \<in> set (og_pending s)"; cases "og_user s") (simp_all add: gate_answered_def gate_status_def Let_def)

text \<open>
  C33. The gate never waits for an answer that cannot come: whenever it shows the splash, either the
  session is still loading or the fetch for the user of this render has not been answered, and any
  answer to that fetch ends the splash; an answer to an earlier fetch changes nothing that is shown;
  and a message is there exactly while the error is shown.
\<close>

theorem gate_never_stuck:
  "let s = gate_run es (gate_mount user authLoading) in
     (gate_status s = Gate_loading \<longrightarrow> og_authLoading s
        \<or> (\<exists>n. og_live s = Some n \<and> n \<in> set (og_pending s) \<and> (\<forall>a. gate_status (gate_answered n a s) \<noteq> Gate_loading)))
     \<and> (\<forall>n a. og_live s \<noteq> Some n \<longrightarrow> gate_status (gate_answered n a s) = gate_status s \<and> og_error (gate_answered n a s) = og_error s)
     \<and> (gate_status s = Gate_error \<longleftrightarrow> og_error s \<noteq> None)"
proof -
  let ?s = "gate_run es (gate_mount user authLoading)"
  have ok: "gate_ok ?s" by (rule gate_run_ok)
  have "\<exists>n. og_live ?s = Some n \<and> n \<in> set (og_pending ?s) \<and> (\<forall>a. gate_status (gate_answered n a ?s) \<noteq> Gate_loading)"
    if l: "gate_status ?s = Gate_loading" and settled: "\<not> og_authLoading ?s"
  proof -
    have "og_outcome ?s = None" "og_user ?s \<noteq> None"
      using l settled by (auto simp: gate_status_def split: option.splits gate_outcome.splits if_splits)
    then obtain n where n: "og_live ?s = Some n" "n \<in> set (og_pending ?s)" using ok settled by (auto simp: gate_ok_def)
    then have "gate_status (gate_answered n a ?s) \<noteq> Gate_loading" for a
      by (cases a) (simp_all add: gate_answered_def gate_status_def Let_def)
    with n show ?thesis by blast
  qed
  moreover have "gate_status (gate_answered n a ?s) = gate_status ?s \<and> og_error (gate_answered n a ?s) = og_error ?s"
    if "og_live ?s \<noteq> Some n" for n a
    using that by (simp add: late_answer_unseen)
  moreover have "gate_status ?s = Gate_error \<longleftrightarrow> og_error ?s \<noteq> None"
    using ok by (auto simp: gate_ok_def gate_status_def split: option.splits gate_outcome.splits if_splits)
  ultimately show ?thesis unfolding Let_def by blast
qed

text \<open>The witness: a user's fetch under way.\<close>

lemma gate_never_stuck_witness:
  "\<exists>s n. s = gate_run [] (gate_mount (Some 7) False) \<and> gate_status s = Gate_loading \<and> og_live s = Some n
     \<and> gate_status (gate_answered n (Listed 0) s) = Gate_empty \<and> gate_status (gate_answered n Not_listed s) \<noteq> Gate_loading"
proof -
  let ?s = "gate_run [] (gate_mount (Some 7) False)"
  have s: "gate_status ?s = Gate_loading" "\<not> og_authLoading ?s"
    by (simp_all add: gate_run_def gate_mount_def gate_effect_def gate_status_def)
  obtain n where n: "og_live ?s = Some n" "n \<in> set (og_pending ?s)" "gate_status (gate_answered n Not_listed ?s) \<noteq> Gate_loading"
    using gate_never_stuck [of "[]" "Some 7" False] s unfolding Let_def by blast
  then have "gate_status (gate_answered n (Listed 0) ?s) = Gate_empty" by (simp add: gate_answered_def gate_status_def Let_def)
  with s n show ?thesis by blast
qed

text \<open>
  The answer given for one user is still shown to the next: nothing resets it but a retry.
\<close>

lemma outcome_outlives_its_user:
  "\<exists>es. let s = gate_run es (gate_mount (Some 7) False) in og_user s = Some 8 \<and> gate_status s = Gate_ready \<and> og_pending s = [1]"
proof -
  have "let s = gate_run [Gate_answer 0 (Listed 1), Render_gate (Some 8) False] (gate_mount (Some 7) False) in
      og_user s = Some 8 \<and> gate_status s = Gate_ready \<and> og_pending s = [1]"
    by (simp add: gate_run_def gate_mount_def gate_effect_def gate_render_def gate_answered_def gate_status_def Let_def)
  then show ?thesis by blast
qed

end
