(* ===== verification/App_Shell.thy ===== *)
theory App_Shell
  imports Navigation
begin

text \<open>
  The frame of the signed-in pages: the hook behind it (\<^verbatim>\<open>packages/features/src/app-shell/use-app-shell.ts\<close>),
  the scope the web app derives from its URL and the places its pickers lead to
  (\<^verbatim>\<open>apps/start/src/routes/_app.tsx\<close>), and the links of the sidebar (\<^verbatim>\<open>apps/start/src/lib/use-nav-main.tsx\<close>).

  A pass is a render with what the queries hold, then the effects whose dependencies changed since
  the pass before. An effect that sets the state asks for another pass, and picks may come between
  the two. The remembered organization is what the storage item \<open>ACTIVE_ORG\<close> reads.

  It is proved that the passes settle and on what, and that the scope that is picked or linked is the
  scope the shell shows.
\<close>

section \<open>The hook\<close>

text \<open>
  \<open>Array.prototype.sort\<close> is stable; \<open>localeCompare\<close>, which orders the display names, is a parameter.
\<close>

type_synonym locale_compare = "string \<Rightarrow> string \<Rightarrow> int"

fun insert_by_name :: "locale_compare \<Rightarrow> scope_org \<Rightarrow> scope_org list \<Rightarrow> scope_org list" where
  "insert_by_name cmp a [] = [a]"
| "insert_by_name cmp a (b # bs) =
     (if cmp (sc_displayName a) (sc_displayName b) \<le> 0 then a # b # bs else b # insert_by_name cmp a bs)"

definition shell_orgs :: "locale_compare \<Rightarrow> account_organization list option \<Rightarrow> scope_org list" where
  "shell_orgs cmp data = foldr (insert_by_name cmp) (toScopeOrgs data) []"

record nav_space =
  ns_space :: string
  ns_displayName :: string
  ns_href :: string

definition shell_spaces :: "space_wire list option \<Rightarrow> nav_space list" where
  "shell_spaces data =
     map (\<lambda>s. \<lparr>ns_space = the (sw_name s), ns_displayName = or_default (sw_displayName s) (the (sw_name s)), ns_href = ''/''\<rparr>)
       (filter (\<lambda>s. truthy (sw_name s)) (or_default data []))"

text \<open>
  What the hook is called with: the controlled organization and space (absent, or a value that may be
  \<open>null\<close>), whether a handler for picks is given, and the answers of its two queries.
\<close>

record shell_input =
  in_organization :: "string option option"
  in_space :: "string option option"
  in_handled :: bool
  in_orgs :: "account_organization list option"
  in_spaces :: "space_wire list option"

text \<open>
  Its state: the internal organization, the remembered one, what the two effects last ran with, and
  the organizations handed to the handler.
\<close>

record app_shell =
  sh_internal :: "string option"
  sh_remembered :: "string option"
  sh_validated :: "(bool \<times> scope_org list \<times> string option) option"
  sh_hinted :: "string option option option"
  sh_selected :: "string list"
  sh_profileOpen :: bool

text \<open>\<open>storage.set(ACTIVE_ORG, v)\<close>: an empty value reads as nothing.\<close>

definition remember :: "string \<Rightarrow> app_shell \<Rightarrow> app_shell" where
  "remember v s = s\<lparr>sh_remembered := (if v = [] then None else Some v)\<rparr>"

definition shell_mount :: "string option \<Rightarrow> string option \<Rightarrow> app_shell" where
  "shell_mount initialActiveOrganization remembered =
     \<lparr>sh_internal = (case initialActiveOrganization of Some a \<Rightarrow> Some a | None \<Rightarrow> remembered), sh_remembered = remembered,
      sh_validated = None, sh_hinted = None, sh_selected = [], sh_profileOpen = False\<rparr>"

definition activeOrganization :: "shell_input \<Rightarrow> app_shell \<Rightarrow> string option" where
  "activeOrganization i s = (case in_organization i of Some controlled \<Rightarrow> controlled | None \<Rightarrow> sh_internal s)"

definition activeSpace :: "shell_input \<Rightarrow> string option" where
  "activeSpace i = (if in_organization i \<noteq> None then or_default (in_space i) None else None)"

text \<open>What a render returns, and the organization the spaces are asked for; it throws where a name does not parse.\<close>

record shell_view =
  vw_orgs :: "scope_org list"
  vw_organization :: "string option"
  vw_space :: "string option"
  vw_spaces :: "nav_space list"
  vw_spacesOf :: "string option"

definition shell_render :: "locale_compare \<Rightarrow> shell_input \<Rightarrow> app_shell \<Rightarrow> name_error + shell_view" where
  "shell_render cmp i s =
     bind_result (if truthy (activeOrganization i s) then organizationId (the (activeOrganization i s)) else Inr []) (\<lambda>activeOrgSlug.
       Inr \<lparr>vw_orgs = shell_orgs cmp (in_orgs i), vw_organization = activeOrganization i s, vw_space = activeSpace i,
            vw_spaces = shell_spaces (in_spaces i), vw_spacesOf = (if activeOrgSlug = [] then None else Some activeOrgSlug)\<rparr>)"

definition validate_effect :: "locale_compare \<Rightarrow> shell_input \<Rightarrow> app_shell \<Rightarrow> app_shell" where
  "validate_effect cmp i s =
     (let controlled = in_organization i \<noteq> None; orgs = shell_orgs cmp (in_orgs i); active = activeOrganization i s;
          deps = (controlled, orgs, active); s' = s\<lparr>sh_validated := Some deps\<rparr>
      in if sh_validated s = Some deps then s
         else if controlled then s'
         else if orgs = [] then s'
         else if truthy active \<and> (\<exists>g \<in> set orgs. sc_organization g = the active) then s'
         else let first = sc_organization (hd orgs)
           in if first = [] then s' else remember first (s'\<lparr>sh_internal := Some first\<rparr>))"

definition hint_effect :: "shell_input \<Rightarrow> app_shell \<Rightarrow> app_shell" where
  "hint_effect i s =
     (let deps = in_organization i; s' = s\<lparr>sh_hinted := Some deps\<rparr>
      in if sh_hinted s = Some deps then s
         else case deps of
             Some (Some organization) \<Rightarrow> if organization = [] then s' else remember organization s'
           | _ \<Rightarrow> s')"

definition shell_pass :: "locale_compare \<Rightarrow> shell_input \<Rightarrow> app_shell \<Rightarrow> name_error + app_shell" where
  "shell_pass cmp i s =
     bind_result (shell_render cmp i s) (\<lambda>_. Inr (hint_effect i (validate_effect cmp i s)))"

definition setActiveOrganization :: "shell_input \<Rightarrow> string \<Rightarrow> app_shell \<Rightarrow> app_shell" where
  "setActiveOrganization i organization s =
     (if in_handled i then s\<lparr>sh_selected := sh_selected s @ [organization]\<rparr>
      else remember organization (s\<lparr>sh_internal := Some organization\<rparr>))"

section \<open>The web app\<close>

text \<open>
  The parameters the router reads off a path below \<open>/organizations/$organization\<close>; the slugs of the
  model are plain, so that none of them is escaped in the path.
\<close>

definition route_params :: "string \<Rightarrow> string option \<times> string option" where
  "route_params pathname =
     (let s = filter (\<lambda>p. p \<noteq> []) (split_on (CHR ''/'') pathname) in
      if part_at s 0 = Some ''organizations''
      then (part_at s 1, if part_at s 2 = Some ''spaces'' then part_at s 3 else None)
      else (None, None))"

definition controlledActiveOrganization :: "string option \<Rightarrow> string option option" where
  "controlledActiveOrganization orgSlugParam = (if truthy orgSlugParam then Some (Some (''organizations/'' @ the orgSlugParam)) else None)"

definition controlledActiveSpace :: "string option \<Rightarrow> string option \<Rightarrow> string option option" where
  "controlledActiveSpace orgSlugParam spaceSlugParam =
     (if truthy orgSlugParam
      then Some (if truthy spaceSlugParam then Some (''organizations/'' @ the orgSlugParam @ ''/spaces/'' @ the spaceSlugParam) else None)
      else None)"

text \<open>The shell of the page at a path, and the two handlers: what they push, or the throw.\<close>

definition web_input_of :: "string \<Rightarrow> account_organization list option \<Rightarrow> space_wire list option \<Rightarrow> shell_input" where
  "web_input_of pathname orgs spaces =
     (let (organization, space) = route_params pathname
      in \<lparr>in_organization = controlledActiveOrganization organization, in_space = controlledActiveSpace organization space,
          in_handled = True, in_orgs = orgs, in_spaces = spaces\<rparr>)"

definition onSelectOrganization :: "string \<Rightarrow> string \<Rightarrow> app_shell \<Rightarrow> app_shell \<times> (name_error + string)" where
  "onSelectOrganization pathname organization s =
     (remember organization s, map_sum id (orgNavTarget pathname) (organizationId organization))"

definition onSelectSpace :: "string \<Rightarrow> string option \<Rightarrow> name_error + string option" where
  "onSelectSpace pathname space =
     (let orgSlugParam = fst (route_params pathname)
      in if \<not> truthy orgSlugParam then Inr None
         else bind_result (if truthy space then map_sum id Some (spaceId (the space)) else Inr None)
           (\<lambda>spaceSlug. Inr (Some (spaceNavTarget pathname (the orgSlugParam) spaceSlug))))"

text \<open>The chat of the shell: the parent of its conversations, or none.\<close>

definition chat_parent :: "string option \<Rightarrow> string option \<Rightarrow> name_error + string option" where
  "chat_parent activeOrg userId =
     (if \<not> truthy activeOrg \<or> \<not> truthy userId then Inr None
      else map_sum id (\<lambda>i. Some (''organizations/'' @ i @ ''/users/'' @ the userId)) (organizationId (the activeOrg)))"

section \<open>The links of the sidebar\<close>

record nav_item =
  nv_title :: string
  nv_href :: string
  nv_isActive :: bool
  nv_items :: "(string \<times> string) list"

text \<open>\<open>/\/(a|b)(\/|$)/.test(pathname)\<close>: one of the names is a segment.\<close>

definition has_segment :: "string list \<Rightarrow> string \<Rightarrow> bool" where
  "has_segment names pathname = list_ex (\<lambda>p. p \<in> set names) (tl (split_on (CHR ''/'') pathname))"

definition nav_scoped :: "string option \<Rightarrow> string option \<Rightarrow> string \<Rightarrow> string" where
  "nav_scoped navOrgSlug space segment =
     (if \<not> truthy navOrgSlug then ''/organizations''
      else if truthy space then ''/organizations/'' @ the navOrgSlug @ ''/spaces/'' @ the space @ ''/'' @ segment
      else ''/organizations/'' @ the navOrgSlug @ ''/'' @ segment)"

definition useNavMain :: "string \<Rightarrow> string option \<Rightarrow> name_error + nav_item list" where
  "useNavMain pathname liveActiveOrg =
     (let (organization, space) = route_params pathname in
      bind_result
        (case organization of
           Some named \<Rightarrow> Inr (Some named)
         | None \<Rightarrow> if truthy liveActiveOrg then map_sum id Some (organizationId (the liveActiveOrg)) else Inr None)
        (\<lambda>navOrgSlug. let scoped = nav_scoped navOrgSlug space in
           Inr
             [\<lparr>nv_title = ''Workflows'', nv_href = scoped ''workflows'', nv_isActive = has_segment [''workflows'', ''connectors''] pathname,
               nv_items = [(''Definitions'', scoped ''workflows''), (''Connectors'', scoped ''connectors'')]\<rparr>,
              \<lparr>nv_title = ''Admin'', nv_href = scoped ''secrets'', nv_isActive = has_segment [''secrets''] pathname,
               nv_items = [(''Secrets'', scoped ''secrets'')]\<rparr>]))"

section \<open>Passes and picks\<close>

text \<open>
  What can happen to a mounted shell: a pass, or a pick from the list the last pass showed. \<open>None\<close> is a
  render that throws, or a pick of something that is not shown.
\<close>

datatype shell_event = Pass shell_input | Pick string

definition shown_org :: "locale_compare \<Rightarrow> shell_input \<Rightarrow> string option \<Rightarrow> bool" where
  "shown_org cmp i active \<longleftrightarrow> truthy active \<and> list_ex (\<lambda>g. sc_organization g = the active) (shell_orgs cmp (in_orgs i))"

fun shell_step :: "locale_compare \<Rightarrow> shell_event \<Rightarrow> shell_input option \<times> app_shell \<Rightarrow> (shell_input option \<times> app_shell) option" where
  "shell_step cmp (Pass i) (prev, s) = (case shell_pass cmp i s of Inl e \<Rightarrow> None | Inr s' \<Rightarrow> Some (Some i, s'))"
| "shell_step cmp (Pick organization) (Some i, s) =
     (if shown_org cmp i (Some organization) then Some (Some i, setActiveOrganization i organization s) else None)"
| "shell_step cmp (Pick organization) (None, s) = None"

fun shell_run :: "locale_compare \<Rightarrow> shell_event list \<Rightarrow> shell_input option \<times> app_shell \<Rightarrow> (shell_input option \<times> app_shell) option" where
  "shell_run cmp [] s = Some s"
| "shell_run cmp (e # es) s = (case shell_step cmp e s of None \<Rightarrow> None | Some s' \<Rightarrow> shell_run cmp es s')"

definition effect_deps :: "locale_compare \<Rightarrow> shell_input \<Rightarrow> app_shell \<Rightarrow> bool \<times> scope_org list \<times> string option" where
  "effect_deps cmp i s = (in_organization i \<noteq> None, shell_orgs cmp (in_orgs i), activeOrganization i s)"

definition seeds :: "locale_compare \<Rightarrow> shell_input \<Rightarrow> app_shell \<Rightarrow> bool" where
  "seeds cmp i s \<longleftrightarrow> in_organization i = None \<and> shell_orgs cmp (in_orgs i) \<noteq> [] \<and> \<not> shown_org cmp i (sh_internal s)
     \<and> sh_validated s \<noteq> Some (effect_deps cmp i s)"

lemma set_insert_by_name: "set (insert_by_name cmp a bs) = insert a (set bs)"
  by (induction bs) auto

lemma set_shell_orgs: "set (shell_orgs cmp data) = set (toScopeOrgs data)"
proof -
  have "set (foldr (insert_by_name cmp) xs []) = set xs" for xs by (induction xs) (simp_all add: set_insert_by_name)
  then show ?thesis by (simp add: shell_orgs_def)
qed

lemma listed_orgs_named: "g \<in> set (shell_orgs cmp data) \<Longrightarrow> sc_organization g \<noteq> []"
  unfolding set_shell_orgs by (auto simp: toScopeOrgs_def truthy_def split: option.splits)

lemma first_is_shown: "shell_orgs cmp (in_orgs i) \<noteq> [] \<Longrightarrow> shown_org cmp i (Some (sc_organization (hd (shell_orgs cmp (in_orgs i)))))"
  using listed_orgs_named [of "hd (shell_orgs cmp (in_orgs i))" cmp "in_orgs i"]
  by (auto simp: shown_org_def truthy_def list_ex_iff intro: hd_in_set)

lemma validate_fields:
  "sh_validated (validate_effect cmp i s) = Some (effect_deps cmp i s)"
  "sh_internal (validate_effect cmp i s) =
     (if seeds cmp i s then Some (sc_organization (hd (shell_orgs cmp (in_orgs i)))) else sh_internal s)"
  "sh_remembered (validate_effect cmp i s) =
     (if seeds cmp i s then Some (sc_organization (hd (shell_orgs cmp (in_orgs i)))) else sh_remembered s)"
  "sh_hinted (validate_effect cmp i s) = sh_hinted s"
proof -
  have "sc_organization (hd (shell_orgs cmp (in_orgs i))) \<noteq> []" if "shell_orgs cmp (in_orgs i) \<noteq> []"
    using that listed_orgs_named hd_in_set by blast
  then show "sh_validated (validate_effect cmp i s) = Some (effect_deps cmp i s)"
    "sh_internal (validate_effect cmp i s) =
       (if seeds cmp i s then Some (sc_organization (hd (shell_orgs cmp (in_orgs i)))) else sh_internal s)"
    "sh_remembered (validate_effect cmp i s) =
       (if seeds cmp i s then Some (sc_organization (hd (shell_orgs cmp (in_orgs i)))) else sh_remembered s)"
    "sh_hinted (validate_effect cmp i s) = sh_hinted s"
    by (auto simp: validate_effect_def seeds_def shown_org_def effect_deps_def remember_def activeOrganization_def list_ex_iff Let_def)
qed

lemma hint_fields:
  "sh_hinted (hint_effect i s) = Some (in_organization i)" "sh_internal (hint_effect i s) = sh_internal s"
  "sh_validated (hint_effect i s) = sh_validated s"
  "in_organization i = None \<Longrightarrow> sh_remembered (hint_effect i s) = sh_remembered s"
  by (auto simp: hint_effect_def remember_def Let_def split: option.splits)

lemma hint_idle: "sh_hinted s = Some (in_organization i) \<Longrightarrow> hint_effect i s = s"
  by (simp add: hint_effect_def Let_def)

lemma validate_idle: "sh_validated s = Some (effect_deps cmp i s) \<Longrightarrow> validate_effect cmp i s = s"
  by (simp add: validate_effect_def effect_deps_def Let_def)

lemma pass_effects: "shell_pass cmp i s = Inr s' \<Longrightarrow> s' = hint_effect i (validate_effect cmp i s)"
  by (auto simp: shell_pass_def split: if_splits)

text \<open>The invariant: the organization an effect has seen is one of the list it has seen, or the list is empty.\<close>

definition seen_ok :: "app_shell \<Rightarrow> bool" where
  "seen_ok s \<longleftrightarrow>
     (\<forall>orgs. sh_validated s = Some (False, orgs, sh_internal s) \<longrightarrow>
        orgs = [] \<or> (truthy (sh_internal s) \<and> list_ex (\<lambda>g. sc_organization g = the (sh_internal s)) orgs))"

definition seen_last :: "locale_compare \<Rightarrow> shell_input option \<Rightarrow> app_shell \<Rightarrow> bool" where
  "seen_last cmp prev s \<longleftrightarrow>
     (\<forall>i. prev = Some i \<longrightarrow> (\<exists>act. sh_validated s = Some (in_organization i \<noteq> None, shell_orgs cmp (in_orgs i), act)))"

lemma validate_ok:
  assumes "seen_ok s"
  shows "seen_ok (validate_effect cmp i s)"
  unfolding seen_ok_def validate_fields
proof (intro allI impI)
  fix orgs
  let ?t = "if seeds cmp i s then Some (sc_organization (hd (shell_orgs cmp (in_orgs i)))) else sh_internal s"
  assume e: "Some (effect_deps cmp i s) = Some (False, orgs, ?t)"
  then have i: "in_organization i = None" "orgs = shell_orgs cmp (in_orgs i)" "?t = sh_internal s"
    by (auto simp: effect_deps_def activeOrganization_def split: if_splits)
  have "orgs = [] \<or> shown_org cmp i (sh_internal s)"
  proof (cases "seeds cmp i s")
    case True
    then show ?thesis using i(3) first_is_shown [of cmp i] by (simp add: seeds_def)
  next
    case False
    moreover have "effect_deps cmp i s = (False, orgs, sh_internal s)" using i by (simp add: effect_deps_def activeOrganization_def)
    ultimately have "orgs = [] \<or> shown_org cmp i (sh_internal s) \<or> sh_validated s = Some (False, orgs, sh_internal s)"
      unfolding seeds_def i(2) using i(1) by simp
    then show ?thesis using assms [unfolded seen_ok_def, rule_format, of orgs] unfolding shown_org_def i(2) by blast
  qed
  then show "orgs = [] \<or> (truthy ?t \<and> list_ex (\<lambda>g. sc_organization g = the ?t) orgs)"
    unfolding i(3) shown_org_def i(2) .
qed

lemma pass_ok: "seen_ok s \<Longrightarrow> shell_pass cmp i s = Inr s' \<Longrightarrow> seen_ok s' \<and> seen_last cmp (Some i) s'"
  using validate_ok [of s cmp i] pass_effects [of cmp i s s']
  by (simp add: seen_ok_def seen_last_def hint_fields validate_fields effect_deps_def)

lemma pick_ok:
  assumes "seen_ok s" and "seen_last cmp (Some i) s" and "shown_org cmp i (Some organization)"
  shows "seen_ok (setActiveOrganization i organization s) \<and> seen_last cmp (Some i) (setActiveOrganization i organization s)"
  using assms by (auto simp: seen_ok_def seen_last_def setActiveOrganization_def remember_def shown_org_def)

lemma shell_step_ok: "seen_ok s \<and> seen_last cmp prev s \<Longrightarrow> shell_step cmp e (prev, s) = Some (prev', s') \<Longrightarrow> seen_ok s' \<and> seen_last cmp prev' s'"
proof (cases e)
  case (Pick organization)
  then show "seen_ok s \<and> seen_last cmp prev s \<Longrightarrow> shell_step cmp e (prev, s) = Some (prev', s') \<Longrightarrow> ?thesis"
    by (cases prev) (auto dest: pick_ok split: if_splits)
qed (auto dest: pass_ok split: sum.splits)

lemma shell_run_ok: "seen_ok s \<and> seen_last cmp prev s \<Longrightarrow> shell_run cmp es (prev, s) = Some (prev', s') \<Longrightarrow> seen_ok s'"
proof (induction es arbitrary: prev s)
  case (Cons e es)
  then obtain prev1 s1 where "shell_step cmp e (prev, s) = Some (prev1, s1)" "shell_run cmp es (prev1, s1) = Some (prev', s')"
    by (auto split: option.splits)
  then show ?case using shell_step_ok [OF Cons.prems(1)] Cons.IH by blast
qed simp

lemma mount_ok: "seen_ok (shell_mount initial remembered) \<and> seen_last cmp None (shell_mount initial remembered)"
  by (simp add: seen_ok_def seen_last_def shell_mount_def)

lemma second_pass_settles:
  assumes ok: "seen_ok s" and p: "shell_pass cmp i s = Inr s1" "shell_pass cmp i s1 = Inr s2"
  shows "shell_pass cmp i s2 = Inr s2"
    and "in_organization i = None \<longrightarrow> shell_orgs cmp (in_orgs i) \<noteq> [] \<longrightarrow> shown_org cmp i (sh_internal s2)"
proof -
  have s1: "s1 = hint_effect i (validate_effect cmp i s)" and s2: "s2 = hint_effect i (validate_effect cmp i s1)"
    using p by (simp_all add: pass_effects)
  have ok1: "seen_ok s1" and ok2: "seen_ok s2" using pass_ok ok p by blast+
  have same: "\<not> seeds cmp i s1"
  proof
    assume a: "seeds cmp i s1"
    then have n: "in_organization i = None" "shell_orgs cmp (in_orgs i) \<noteq> []" "\<not> shown_org cmp i (sh_internal s1)" by (simp_all add: seeds_def)
    then have "\<not> seeds cmp i s" using first_is_shown by (auto simp: s1 hint_fields validate_fields)
    then have "sh_validated s1 = Some (effect_deps cmp i s1)"
      using n(1) by (simp add: s1 hint_fields validate_fields effect_deps_def activeOrganization_def)
    with a show False by (simp add: seeds_def)
  qed
  then have i2: "sh_internal s2 = sh_internal s1" by (simp add: s2 hint_fields validate_fields)
  then have act: "activeOrganization i s2 = activeOrganization i s1" by (cases "in_organization i") (simp_all add: activeOrganization_def)
  then have "effect_deps cmp i s2 = effect_deps cmp i s1" by (simp add: effect_deps_def)
  then have d2: "sh_validated s2 = Some (effect_deps cmp i s2)" by (simp add: s2 hint_fields validate_fields)
  have "hint_effect i (validate_effect cmp i s2) = s2"
    using validate_idle [OF d2] hint_idle [of s2 i] by (simp add: s2 hint_fields)
  moreover have "shell_render cmp i s2 = shell_render cmp i s1" by (simp add: shell_render_def act)
  ultimately show "shell_pass cmp i s2 = Inr s2" using p(2) by (auto simp: shell_pass_def)
  show "in_organization i = None \<longrightarrow> shell_orgs cmp (in_orgs i) \<noteq> [] \<longrightarrow> shown_org cmp i (sh_internal s2)"
    using ok2 d2 by (auto simp: seen_ok_def effect_deps_def activeOrganization_def shown_org_def)
qed

text \<open>
  C12. The passes of the shell settle, and on an organization of the list: whatever passes and picks
  came before, a third pass with the same input changes nothing; without a controlled organization
  and with organizations to choose from, the one that is active then is in the list, and one that was
  in the list stays, as does what is remembered; with a controlled organization exactly it is active,
  and the internal one is left alone.
\<close>

theorem shell_settles:
  assumes run: "shell_run cmp es (None, shell_mount initial remembered) = Some (prev, s)"
    and passes: "shell_pass cmp i s = Inr s1" "shell_pass cmp i s1 = Inr s2"
  shows "shell_pass cmp i s2 = Inr s2
    \<and> (in_organization i = None \<longrightarrow> shell_orgs cmp (in_orgs i) \<noteq> [] \<longrightarrow> shown_org cmp i (activeOrganization i s2))
    \<and> (in_organization i = None \<longrightarrow> shown_org cmp i (sh_internal s) \<longrightarrow> sh_internal s2 = sh_internal s \<and> sh_remembered s2 = sh_remembered s)
    \<and> (\<forall>c. in_organization i = Some c \<longrightarrow> activeOrganization i s2 = c \<and> sh_internal s2 = sh_internal s)"
proof -
  have ok: "seen_ok s" using shell_run_ok [OF mount_ok run] .
  have s1: "s1 = hint_effect i (validate_effect cmp i s)" and s2: "s2 = hint_effect i (validate_effect cmp i s1)"
    using passes by (simp_all add: pass_effects)
  have kept: "sh_internal s2 = sh_internal s \<and> (in_organization i = None \<longrightarrow> sh_remembered s2 = sh_remembered s)"
    if "in_organization i \<noteq> None \<or> shown_org cmp i (sh_internal s)"
  proof -
    have "\<not> seeds cmp i s" using that by (auto simp: seeds_def)
    then have "sh_internal s1 = sh_internal s" "in_organization i = None \<longrightarrow> sh_remembered s1 = sh_remembered s"
      by (simp_all add: s1 hint_fields validate_fields)
    moreover from this that have "\<not> seeds cmp i s1" by (auto simp: seeds_def)
    ultimately show ?thesis by (simp add: s2 hint_fields validate_fields)
  qed
  show ?thesis
    using second_pass_settles [OF ok passes] kept by (simp add: activeOrganization_def)
qed

text \<open>The witness: a remembered organization that is not in the list, on a page without a scope.\<close>

definition sample_shell :: shell_input where
  "sample_shell =
     \<lparr>in_organization = None, in_space = None, in_handled = False,
      in_orgs = Some [\<lparr>ao_organization = Some ''organizations/acme'', ao_displayName = Some ''Acme''\<rparr>], in_spaces = None\<rparr>"

lemma organizationId_of_slug:
  assumes "slug org"
  shows "organizationId (''organizations/'' @ org) = Inr org"
proof -
  have "split_on (CHR ''/'') (''organizations'' @ CHR ''/'' # org) = [''organizations'', org]"
    using assms by (subst split_on_append) (simp_all add: slug_def split_on_no_sep)
  then have "parseResourceName (''organizations/'' @ org) = Inr [(''organizations'', org)]"
    using assms by (simp add: parseResourceName_def slug_def js_in_def object_prototype_keys_def)
  then show ?thesis by (simp add: organizationId_def or_default_def)
qed

lemma shell_settles_witness:
  "\<exists>s1 s2. shell_pass (\<lambda>a b. 0) sample_shell (shell_mount None (Some ''organizations/gone'')) = Inr s1
     \<and> shell_pass (\<lambda>a b. 0) sample_shell s1 = Inr s2 \<and> shell_pass (\<lambda>a b. 0) sample_shell s2 = Inr s2
     \<and> activeOrganization sample_shell s2 = Some ''organizations/acme''"
proof -
  let ?c = "\<lambda>a b. 0 :: int"
  let ?m = "shell_mount None (Some ''organizations/gone'')"
  have n: "organizationId ''organizations/gone'' = Inr ''gone''" "organizationId ''organizations/acme'' = Inr ''acme''"
    using organizationId_of_slug [of "''gone''"] organizationId_of_slug [of "''acme''"] by (simp_all add: slug_def)
  obtain s1 where s1: "shell_pass ?c sample_shell ?m = Inr s1" "sh_internal s1 = Some ''organizations/acme''"
    by (simp add: shell_pass_def shell_render_def sample_shell_def shell_mount_def activeOrganization_def n validate_effect_def hint_effect_def
        shell_orgs_def toScopeOrgs_def or_default_def truthy_def remember_def Let_def)
  obtain s2 where s2: "shell_pass ?c sample_shell s1 = Inr s2"
    by (simp add: shell_pass_def shell_render_def activeOrganization_def sample_shell_def s1(2) n truthy_def)
  have o: "shell_orgs ?c (in_orgs sample_shell) = [\<lparr>sc_organization = ''organizations/acme'', sc_displayName = ''Acme''\<rparr>]"
    by (simp add: shell_orgs_def sample_shell_def toScopeOrgs_def or_default_def truthy_def)
  have "shell_run ?c [] (None, ?m) = Some (None, ?m)" by simp
  from shell_settles [OF this s1(1) s2] have "shell_pass ?c sample_shell s2 = Inr s2" "shown_org ?c sample_shell (activeOrganization sample_shell s2)"
    using o by (simp_all add: sample_shell_def)
  then have "activeOrganization sample_shell s2 = Some ''organizations/acme''"
    unfolding shown_org_def o by (cases "activeOrganization sample_shell s2") (simp_all add: truthy_def)
  with s1 s2 \<open>shell_pass ?c sample_shell s2 = Inr s2\<close> show ?thesis by blast
qed

text \<open>
  A remembered name that does not parse is never repaired: every mount renders it before the effect that
  would replace it.
\<close>

lemma malformed_memory_stays:
  assumes "in_organization i = None"
  shows "shell_pass cmp i (shell_mount None (Some ''acme'')) = Inl MalformedName"
  using assms by (simp add: shell_pass_def shell_render_def activeOrganization_def shell_mount_def truthy_def organizationId_def parseResourceName_def)

section \<open>The scope that is picked is the scope that is shown\<close>

lemma route_of_parts:
  assumes "\<forall>p \<in> set (''organizations'' # ps). slug p"
  shows "route_params (path_text (''organizations'' # ps)) = (part_at ps 0, if part_at ps 1 = Some ''spaces'' then part_at ps 2 else None)"
  unfolding route_params_def using parts_of_target [OF assms] by (simp add: part_at_def)

lemma route_of_org_target:
  "slug org \<Longrightarrow> route_params (path_text [''organizations'', org, resource_text r]) = (Some org, None)"
  by (subst route_of_parts) (cases r; simp add: slug_def part_at_def)+

lemma route_of_space_target:
  "slug org \<Longrightarrow> slug sp \<Longrightarrow> route_params (path_text [''organizations'', org, ''spaces'', sp, resource_text r]) = (Some org, Some sp)"
  by (subst route_of_parts) (cases r; simp add: slug_def part_at_def)+

lemma route_of_home: "slug org \<Longrightarrow> route_params (path_text [''organizations'', org]) = (Some org, None)"
  by (subst route_of_parts) (simp_all add: slug_def part_at_def)

lemma spaceId_of_slugs:
  assumes "slug org" and "slug sp"
  shows "spaceId (''organizations/'' @ org @ ''/spaces/'' @ sp) = Inr sp"
proof -
  have n: "CHR ''/'' \<notin> set org" "CHR ''/'' \<notin> set sp" using assms by (simp_all add: slug_def)
  have "split_on (CHR ''/'') (''organizations'' @ CHR ''/'' # org @ CHR ''/'' # ''spaces'' @ CHR ''/'' # sp) = [''organizations'', org, ''spaces'', sp]"
    by (subst split_on_append, simp, subst split_on_append [OF n(1)], subst split_on_append, simp) (simp add: split_on_no_sep [OF n(2)])
  then have "parseResourceName (''organizations/'' @ org @ ''/spaces/'' @ sp) = Inr [(''organizations'', org), (''spaces'', sp)]"
    using assms by (simp add: parseResourceName_def slug_def js_in_def object_prototype_keys_def)
  then show ?thesis by (simp add: spaceId_def or_default_def)
qed

lemma web_scope:
  "slug org \<Longrightarrow> route_params p = (Some org, space) \<Longrightarrow>
     in_organization (web_input_of p gs ss) = Some (Some (''organizations/'' @ org))
     \<and> in_space (web_input_of p gs ss) = Some (if truthy space then Some (''organizations/'' @ org @ ''/spaces/'' @ the space) else None)"
  by (simp add: web_input_of_def controlledActiveOrganization_def controlledActiveSpace_def truthy_def slug_def)

lemma org_target_parts:
  "slug org \<Longrightarrow> route_params (orgNavTarget path org) = (Some org, None) \<and> resourceFromPathname (orgNavTarget path org) = resourceFromPathname path"
  by (cases "resourceFromPathname path")
    (simp_all add: orgNavTarget_def route_of_home [unfolded path_text_def, simplified] route_of_org_target [unfolded path_text_def, simplified]
      resource_of_home [unfolded path_text_def, simplified] resource_of_org_target [unfolded path_text_def, simplified])

lemma space_target_parts:
  assumes "slug org" and "\<forall>sp. space = Some sp \<longrightarrow> slug sp"
  shows "route_params (spaceNavTarget path org space) = (Some org, space)
    \<and> resourceFromPathname (spaceNavTarget path org space) = Some (or_default (resourceFromPathname path) Connectors)"
  using assms
  by (cases space)
    (simp_all add: spaceNavTarget_def slug_def truthy_def route_of_space_target [unfolded path_text_def slug_def, simplified]
      route_of_org_target [unfolded path_text_def slug_def, simplified] resource_of_space_target [unfolded path_text_def slug_def, simplified]
      resource_of_org_target [unfolded path_text_def slug_def, simplified])

text \<open>
  The scope that is picked is the scope that is shown: picking an organization remembers it and
  leads to a page of the same resource where the shell is controlled by this organization without a
  space, and there a first pass shows exactly that; picking a space, or all spaces, on a page of an
  organization leads to a page of the same resource (connectors where there was none) in the same
  organization and the space picked.
\<close>

theorem picked_scope_is_shown:
  assumes org: "slug org" and sp: "slug sp" and path: "fst (route_params path) = Some org"
  shows "(\<exists>p v. onSelectOrganization at (''organizations/'' @ org) s = (remember (''organizations/'' @ org) s, Inr p)
      \<and> sh_remembered (remember (''organizations/'' @ org) s) = Some (''organizations/'' @ org)
      \<and> resourceFromPathname p = resourceFromPathname at
      \<and> shell_render cmp (web_input_of p gs ss) s' = Inr v
      \<and> vw_organization v = Some (''organizations/'' @ org) \<and> vw_space v = None \<and> vw_spacesOf v = Some org)
    \<and> (\<forall>space \<in> {None, Some sp}. \<exists>p v.
        onSelectSpace path (map_option (\<lambda>t. ''organizations/'' @ org @ ''/spaces/'' @ t) space) = Inr (Some p)
        \<and> resourceFromPathname p = Some (or_default (resourceFromPathname path) Connectors)
        \<and> shell_render cmp (web_input_of p gs ss) s' = Inr v
        \<and> vw_organization v = Some (''organizations/'' @ org) \<and> vw_spacesOf v = Some org
        \<and> vw_space v = map_option (\<lambda>t. ''organizations/'' @ org @ ''/spaces/'' @ t) space)"
proof -
  have view: "\<exists>v. shell_render cmp (web_input_of p gs ss) s' = Inr v \<and> vw_organization v = Some (''organizations/'' @ org)
      \<and> vw_spacesOf v = Some org \<and> vw_space v = map_option (\<lambda>t. ''organizations/'' @ org @ ''/spaces/'' @ t) space"
    if "route_params p = (Some org, space)" and "\<forall>sp. space = Some sp \<longrightarrow> slug sp" for p space
    using that web_scope [OF org that(1), of gs ss] organizationId_of_slug [OF org] org
    by (cases space) (simp_all add: shell_render_def activeOrganization_def activeSpace_def truthy_def or_default_def slug_def)
  let ?p = "orgNavTarget at org"
  have p: "onSelectOrganization at (''organizations/'' @ org) s = (remember (''organizations/'' @ org) s, Inr ?p)"
    using organizationId_of_slug [OF org] by (simp add: onSelectOrganization_def)
  obtain v where v: "shell_render cmp (web_input_of ?p gs ss) s' = Inr v" "vw_organization v = Some (''organizations/'' @ org)"
      "vw_spacesOf v = Some org" "vw_space v = None"
    using view [of ?p None] org_target_parts [OF org, of at] by auto
  have "\<exists>p v. onSelectSpace path (map_option (\<lambda>t. ''organizations/'' @ org @ ''/spaces/'' @ t) space) = Inr (Some p)
        \<and> resourceFromPathname p = Some (or_default (resourceFromPathname path) Connectors)
        \<and> shell_render cmp (web_input_of p gs ss) s' = Inr v
        \<and> vw_organization v = Some (''organizations/'' @ org) \<and> vw_spacesOf v = Some org
        \<and> vw_space v = map_option (\<lambda>t. ''organizations/'' @ org @ ''/spaces/'' @ t) space"
    if c: "space \<in> {None, Some sp}" for space
  proof -
    have "onSelectSpace path (map_option (\<lambda>t. ''organizations/'' @ org @ ''/spaces/'' @ t) space) = Inr (Some (spaceNavTarget path org space))"
      using spaceId_of_slugs [OF org sp] path org c by (auto simp: onSelectSpace_def truthy_def slug_def)
    moreover have "\<forall>sp'. space = Some sp' \<longrightarrow> slug sp'" using c sp by auto
    ultimately show ?thesis using space_target_parts [OF org, of space path] view [of "spaceNavTarget path org space" space] by blast
  qed
  moreover have "sh_remembered (remember (''organizations/'' @ org) s) = Some (''organizations/'' @ org)" by (simp add: remember_def)
  ultimately show ?thesis using p v org_target_parts [OF org, of at] by blast
qed

text \<open>The witness: choosing a space from the secrets of an organization.\<close>

lemma picked_scope_is_shown_witness:
  "\<exists>p v. onSelectSpace ''/organizations/acme/secrets'' (Some ''organizations/acme/spaces/ops'') = Inr (Some p)
     \<and> resourceFromPathname p = Some Secrets
     \<and> shell_render (\<lambda>a b. 0) (web_input_of p None None) (shell_mount None None) = Inr v \<and> vw_space v = Some ''organizations/acme/spaces/ops''"
proof -
  have g: "slug ''acme''" "slug ''ops''" by (simp_all add: slug_def)
  have r: "fst (route_params ''/organizations/acme/secrets'') = Some ''acme''" "resourceFromPathname ''/organizations/acme/secrets'' = Some Secrets"
    by (simp_all add: route_params_def resourceFromPathname_def part_at_def)
  from picked_scope_is_shown [OF g r(1), of "[]" "shell_mount None None" "\<lambda>a b. 0" None None "shell_mount None None"] r(2) show ?thesis
    by (auto simp: or_default_def)
qed

section \<open>The links keep the scope\<close>

lemma segments_of_parts:
  "\<forall>p \<in> set ps. slug p \<Longrightarrow> ps \<noteq> [] \<Longrightarrow> split_on (CHR ''/'') (path_text ps) = [] # ps"
  using split_join [of ps "CHR ''/''"] by (auto simp: slug_def path_text_join)

lemma has_segment_of_parts:
  "\<forall>p \<in> set ps. slug p \<Longrightarrow> ps \<noteq> [] \<Longrightarrow> has_segment names (path_text ps) \<longleftrightarrow> (\<exists>p \<in> set ps. p \<in> set names)"
  by (simp add: has_segment_def segments_of_parts list_ex_iff)

definition scope_parts :: "string \<Rightarrow> string option \<Rightarrow> string list" where
  "scope_parts org space = (case space of None \<Rightarrow> [''organizations'', org] | Some sp \<Rightarrow> [''organizations'', org, ''spaces'', sp])"

text \<open>A name that is no word of the sidebar's patterns.\<close>

definition plain_slug :: "string \<Rightarrow> bool" where
  "plain_slug s \<longleftrightarrow> slug s \<and> s \<notin> {''workflows'', ''connectors'', ''secrets''}"

lemma nav_scoped_parts:
  "slug org \<Longrightarrow> \<forall>sp. space = Some sp \<longrightarrow> slug sp \<Longrightarrow>
     nav_scoped (Some org) space (resource_text r) = path_text (scope_parts org space @ [resource_text r])"
  by (cases space) (simp_all add: nav_scoped_def scope_parts_def path_text_def slug_def truthy_def)

lemma link_leads:
  assumes "slug org" and "\<forall>sp. space = Some sp \<longrightarrow> slug sp"
  shows "route_params (nav_scoped (Some org) space (resource_text r)) = (Some org, space)"
    and "resourceFromPathname (nav_scoped (Some org) space (resource_text r)) = Some r"
  unfolding nav_scoped_parts [OF assms]
  using assms route_of_org_target [of org r] route_of_space_target [of org _ r] resource_of_org_target [of org r] resource_of_space_target [of org _ r]
  by (cases space; simp add: scope_parts_def)+

lemma link_segments:
  assumes "plain_slug org" and "\<forall>sp. space = Some sp \<longrightarrow> plain_slug sp" and "set names \<subseteq> {''workflows'', ''connectors'', ''secrets''}"
  shows "has_segment names (nav_scoped (Some org) space (resource_text r)) \<longleftrightarrow> resource_text r \<in> set names"
proof -
  have g: "slug org" "\<forall>sp. space = Some sp \<longrightarrow> slug sp" using assms by (auto simp: plain_slug_def)
  have "\<forall>p \<in> set (scope_parts org space @ [resource_text r]). slug p"
    using g resource_text_slug by (cases space) (simp_all add: scope_parts_def slug_def)
  moreover have "p \<notin> set names" if "p \<in> set (scope_parts org space)" for p
    using that assms by (cases space) (auto simp: scope_parts_def plain_slug_def)
  ultimately show ?thesis unfolding nav_scoped_parts [OF g] by (subst has_segment_of_parts) auto
qed

definition group_of :: "scoped_resource \<Rightarrow> string" where
  "group_of r = (if r = Secrets then ''Admin'' else ''Workflows'')"

lemma sidebar_in_scope:
  "route_params path = (Some org, space) \<Longrightarrow>
     useNavMain path live = Inr
       [\<lparr>nv_title = group_of Workflows, nv_href = nav_scoped (Some org) space (resource_text Workflows),
         nv_isActive = has_segment [''workflows'', ''connectors''] path,
         nv_items = [(''Definitions'', nav_scoped (Some org) space (resource_text Workflows)),
                     (''Connectors'', nav_scoped (Some org) space (resource_text Connectors))]\<rparr>,
        \<lparr>nv_title = group_of Secrets, nv_href = nav_scoped (Some org) space (resource_text Secrets), nv_isActive = has_segment [''secrets''] path,
         nv_items = [(''Secrets'', nav_scoped (Some org) space (resource_text Secrets))]\<rparr>]"
  by (simp add: useNavMain_def group_of_def Let_def)

lemma highlighted_group:
  assumes "plain_slug org" and "\<forall>sp. space = Some sp \<longrightarrow> plain_slug sp"
  shows "\<exists>items. useNavMain (nav_scoped (Some org) space (resource_text r)) live = Inr items \<and> map nv_title (filter nv_isActive items) = [group_of r]"
proof -
  have g: "slug org" "\<forall>sp. space = Some sp \<longrightarrow> slug sp" using assms by (auto simp: plain_slug_def)
  have "has_segment [''workflows'', ''connectors''] (nav_scoped (Some org) space (resource_text r)) \<longleftrightarrow> r \<noteq> Secrets"
    "has_segment [''secrets''] (nav_scoped (Some org) space (resource_text r)) \<longleftrightarrow> r = Secrets"
    using link_segments [OF assms, of "[''workflows'', ''connectors'']" r] link_segments [OF assms, of "[''secrets'']" r] by (cases r; simp)+
  then show ?thesis using sidebar_in_scope [OF link_leads(1) [OF g], of r live] by (cases r) (simp_all add: group_of_def)
qed

text \<open>
  The links of the sidebar keep the scope: on a page of an organization, with or without a space,
  the sidebar is there whatever organization is remembered; each of its links leads to its resource
  in the same organization and space; and on the page it leads to exactly its group is highlighted,
  when neither slug is one of the words the highlighting looks for.
\<close>

theorem links_keep_the_scope:
  assumes path: "route_params path = (Some org, space)" and org: "slug org" and space: "\<forall>sp. space = Some sp \<longrightarrow> slug sp"
  shows "\<exists>items. useNavMain path live = Inr items \<and> map nv_title items = [''Workflows'', ''Admin'']
    \<and> (\<forall>item \<in> set items. \<forall>h \<in> insert (nv_href item) (snd ` set (nv_items item)).
        route_params h = (Some org, space) \<and> (\<exists>r. h = nav_scoped (Some org) space (resource_text r) \<and> resourceFromPathname h = Some r)
        \<and> (plain_slug org \<longrightarrow> (\<forall>sp. space = Some sp \<longrightarrow> plain_slug sp) \<longrightarrow>
            (\<exists>items'. useNavMain h live = Inr items' \<and> map nv_title (filter nv_isActive items') = [nv_title item])))"
proof -
  let ?leads = "\<lambda>h title. route_params h = (Some org, space) \<and> (\<exists>r. h = nav_scoped (Some org) space (resource_text r) \<and> resourceFromPathname h = Some r)
        \<and> (plain_slug org \<longrightarrow> (\<forall>sp. space = Some sp \<longrightarrow> plain_slug sp) \<longrightarrow>
            (\<exists>items'. useNavMain h live = Inr items' \<and> map nv_title (filter nv_isActive items') = [title]))"
  have leads: "?leads (nav_scoped (Some org) space (resource_text r)) (group_of r)" for r
    using link_leads [OF org space, of r] highlighted_group [of org space r live] by blast
  have "group_of Connectors = group_of Workflows" by (simp add: group_of_def)
  with leads [of Connectors] have c: "?leads (nav_scoped (Some org) space (resource_text Connectors)) (group_of Workflows)" by simp
  show ?thesis
    unfolding sidebar_in_scope [OF path] using leads [of Workflows] leads [of Secrets] c
    by (simp del: resource_text.simps) (simp add: group_of_def)
qed

text \<open>An organization called \<open>secrets\<close> has both groups highlighted on every page.\<close>

lemma org_named_secrets:
  "\<exists>items. useNavMain ''/organizations/secrets/connectors'' live = Inr items \<and> map nv_title (filter nv_isActive items) = [''Workflows'', ''Admin'']"
  by (simp add: useNavMain_def route_params_def part_at_def has_segment_def Let_def)

text \<open>The witness: the sidebar on the connectors of a space.\<close>

lemma links_keep_the_scope_witness:
  "\<exists>items. useNavMain ''/organizations/acme/spaces/ops/connectors'' None = Inr items
     \<and> (\<forall>item \<in> set items. route_params (nv_href item) = (Some ''acme'', Some ''ops'') \<and> resourceFromPathname (nv_href item) \<noteq> None)"
proof -
  have "slug ''acme''" "\<forall>sp. Some ''ops'' = Some sp \<longrightarrow> slug sp" by (simp_all add: slug_def)
  moreover have "route_params ''/organizations/acme/spaces/ops/connectors'' = (Some ''acme'', Some ''ops'')"
    by (simp add: route_params_def part_at_def)
  ultimately obtain items where i: "useNavMain ''/organizations/acme/spaces/ops/connectors'' None = Inr items"
    "\<forall>item \<in> set items. \<forall>h \<in> insert (nv_href item) (snd ` set (nv_items item)).
        route_params h = (Some ''acme'', Some ''ops'') \<and> (\<exists>r. h = nav_scoped (Some ''acme'') (Some ''ops'') (resource_text r) \<and> resourceFromPathname h = Some r)"
    using links_keep_the_scope [of "''/organizations/acme/spaces/ops/connectors''" "''acme''" "Some ''ops''" None] by blast
  have "route_params (nv_href item) = (Some ''acme'', Some ''ops'') \<and> resourceFromPathname (nv_href item) \<noteq> None" if "item \<in> set items" for item
    using i(2) that by (metis insertI1 option.distinct(1))
  with i(1) show ?thesis by blast
qed

end
