(* ===== verification/Form_Values.thy ===== *)
theory Form_Values
  imports Resource_Admin
begin

text \<open>
  The values of the admin forms (\<^verbatim>\<open>packages/ui/src/resource-admin\<close>): how they are seeded from a record
  (\<^verbatim>\<open>connector-shared.ts\<close>, \<^verbatim>\<open>secret-shared.ts\<close>), when they count as changed and as complete
  (\<^verbatim>\<open>connector-form-provider.tsx\<close>, \<^verbatim>\<open>secret-form-provider.tsx\<close>), what the fields do to them
  (\<^verbatim>\<open>connector-fields.tsx\<close>, \<^verbatim>\<open>secret-fields.tsx\<close>, \<^verbatim>\<open>identifier-field.tsx\<close>) and the editor for
  key-value rows (\<^verbatim>\<open>key-value-editor.tsx\<close>).

  The interface \<open>resource_values\<close> collects what the form page relies on; it is interpreted on the
  connectors and on the secrets. It is proved that an unchanged form saves the record as it is, and
  that the rows of the editor keep their identity.
\<close>

section \<open>Records and seeds\<close>

text \<open>The fields of the API types that the forms read; a map is the list of its own entries, in their order.\<close>

record http_config =
  hc_baseUrl :: "string option"
  hc_headers :: "(string \<times> string) list option"

record connector = stored +
  cn_displayName :: "string option"
  cn_description :: "string option"
  cn_http :: "http_config option"
  cn_agent :: "string option"

record secret = stored +
  sr_displayName :: "string option"
  sr_annotations :: "(string \<times> string) list option"

definition headersToEntries :: "(string \<times> string) list option \<Rightarrow> key_value_entry list" where
  "headersToEntries headers = map (\<lambda>(k, v). \<lparr>kv_key = k, kv_value = v\<rparr>) (or_default headers [])"

definition annotationsToEntries :: "(string \<times> string) list option \<Rightarrow> key_value_entry list" where
  "annotationsToEntries annotations = map (\<lambda>(k, v). \<lparr>kv_key = k, kv_value = v\<rparr>) (or_default annotations [])"

definition seedConnectorValues :: "connector option \<Rightarrow> name_error + connector_form_values" where
  "seedConnectorValues rec =
     map_sum id
       (\<lambda>scope. \<lparr>cf_connectorId = [], cf_displayName = or_default (Option.bind rec cn_displayName) [],
                 cf_description = or_default (Option.bind rec cn_description) [],
                 cf_baseUrl = or_default (Option.bind (Option.bind rec cn_http) hc_baseUrl) [],
                 cf_headers = headersToEntries (Option.bind (Option.bind rec cn_http) hc_headers),
                 cf_agent = or_default (Option.bind rec cn_agent) [], cf_scope = scope\<rparr>)
       (connectorSpaceSlug (Option.bind rec so_name))"

definition seedSecretValues :: "secret option \<Rightarrow> name_error + secret_form_values" where
  "seedSecretValues rec =
     map_sum id
       (\<lambda>scope. \<lparr>sf_secretId = [], sf_displayName = or_default (Option.bind rec sr_displayName) [],
                 sf_annotations = annotationsToEntries (Option.bind rec sr_annotations), sf_value = [],
                 sf_rotate = (rec = None), sf_scope = scope\<rparr>)
       (secretSpaceSlug (Option.bind rec so_name))"

section \<open>Changed, complete\<close>

text \<open>\<open>b[i]?.key\<close> beyond the end is \<open>undefined\<close>, which is no string.\<close>

fun rows_equal :: "key_value_entry list \<Rightarrow> key_value_entry list \<Rightarrow> bool" where
  "rows_equal [] bs = True"
| "rows_equal (a # as) [] = False"
| "rows_equal (a # as) (b # bs) = (kv_key a = kv_key b \<and> kv_value a = kv_value b \<and> rows_equal as bs)"

definition connector_valuesEqual :: "connector_form_values \<Rightarrow> connector_form_values \<Rightarrow> bool" where
  "connector_valuesEqual a b =
     (if cf_connectorId a \<noteq> cf_connectorId b \<or> cf_displayName a \<noteq> cf_displayName b \<or> cf_description a \<noteq> cf_description b
         \<or> cf_baseUrl a \<noteq> cf_baseUrl b \<or> cf_agent a \<noteq> cf_agent b \<or> cf_scope a \<noteq> cf_scope b
         \<or> length (cf_headers a) \<noteq> length (cf_headers b) then False
      else rows_equal (cf_headers a) (cf_headers b))"

definition secret_valuesEqual :: "secret_form_values \<Rightarrow> secret_form_values \<Rightarrow> bool" where
  "secret_valuesEqual a b =
     (if sf_secretId a \<noteq> sf_secretId b \<or> sf_displayName a \<noteq> sf_displayName b \<or> sf_value a \<noteq> sf_value b \<or> sf_rotate a \<noteq> sf_rotate b
         \<or> sf_scope a \<noteq> sf_scope b \<or> length (sf_annotations a) \<noteq> length (sf_annotations b) then False
      else rows_equal (sf_annotations a) (sf_annotations b))"

text \<open>\<open>http\<close> is the only connector type.\<close>

definition CONNECTOR_CONFIG_VALID :: "connector_form_values \<Rightarrow> bool" where
  "CONNECTOR_CONFIG_VALID values \<longleftrightarrow> length (trim (cf_baseUrl values)) > 0"

definition connector_canSubmit :: "form_mode \<Rightarrow> connector_form_values \<Rightarrow> bool" where
  "connector_canSubmit mode values \<longleftrightarrow>
     CONNECTOR_CONFIG_VALID values \<and> (mode \<noteq> Mode_create \<or> isValidIdentifier (cf_connectorId values))"

definition secret_canSubmit :: "form_mode \<Rightarrow> secret_form_values \<Rightarrow> bool" where
  "secret_canSubmit mode values \<longleftrightarrow>
     (let valueRequired = mode = Mode_create \<or> sf_rotate values
      in (mode \<noteq> Mode_create \<or> isValidIdentifier (sf_secretId values)) \<and> (\<not> valueRequired \<or> length (sf_value values) > 0))"

section \<open>The fields\<close>

text \<open>
  The create fields beside the values: whether the identifier was touched and is being edited. The edit
  field of the identifier is shown only after \<open>onEdit\<close>.
\<close>

record 'v create_fields =
  cr_values :: 'v
  cr_idTouched :: bool
  cr_editingId :: bool

definition connector_updateDisplayName :: "string \<Rightarrow> connector_form_values create_fields \<Rightarrow> connector_form_values create_fields" where
  "connector_updateDisplayName displayName s =
     s\<lparr>cr_values := (cr_values s)\<lparr>cf_displayName := displayName,
         cf_connectorId := (if cr_idTouched s then cf_connectorId (cr_values s) else slugify displayName)\<rparr>\<rparr>"

definition secret_updateDisplayName :: "string \<Rightarrow> secret_form_values create_fields \<Rightarrow> secret_form_values create_fields" where
  "secret_updateDisplayName displayName s =
     s\<lparr>cr_values := (cr_values s)\<lparr>sf_displayName := displayName,
         sf_secretId := (if cr_idTouched s then sf_secretId (cr_values s) else slugify displayName)\<rparr>\<rparr>"

definition onEdit :: "'v create_fields \<Rightarrow> 'v create_fields" where
  "onEdit s = s\<lparr>cr_editingId := True, cr_idTouched := True\<rparr>"

definition connector_changeId :: "string \<Rightarrow> connector_form_values create_fields \<Rightarrow> connector_form_values create_fields" where
  "connector_changeId connectorId s =
     (if cr_editingId s then s\<lparr>cr_idTouched := True, cr_values := (cr_values s)\<lparr>cf_connectorId := connectorId\<rparr>\<rparr> else s)"

definition secret_changeId :: "string \<Rightarrow> secret_form_values create_fields \<Rightarrow> secret_form_values create_fields" where
  "secret_changeId secretId s =
     (if cr_editingId s then s\<lparr>cr_idTouched := True, cr_values := (cr_values s)\<lparr>sf_secretId := secretId\<rparr>\<rparr> else s)"

text \<open>The toggle of an edited secret, and its value field, which is shown only while rotating.\<close>

definition secret_toggleRotate :: "bool \<Rightarrow> secret_form_values \<Rightarrow> secret_form_values" where
  "secret_toggleRotate checked values = values\<lparr>sf_rotate := checked, sf_value := []\<rparr>"

definition secret_changeValue :: "string \<Rightarrow> secret_form_values \<Rightarrow> secret_form_values" where
  "secret_changeValue value values = (if sf_rotate values then values\<lparr>sf_value := value\<rparr> else values)"

section \<open>The editor for key-value rows\<close>

definition blank_row :: key_value_entry where "blank_row = \<lparr>kv_key = [], kv_value = []\<rparr>"

definition editor_rows :: "key_value_entry list \<Rightarrow> key_value_entry list" where
  "editor_rows entries = entries @ [blank_row]"

text \<open>The keys of the rows, by their number, and the next number; the loop that grows them, and the cut.\<close>

record row_keys =
  rk_keys :: "nat list"
  rk_seq :: nat

fun grow_keys :: "nat \<Rightarrow> row_keys \<Rightarrow> row_keys" where
  "grow_keys 0 s = s"
| "grow_keys (Suc n) s = grow_keys n (s\<lparr>rk_keys := rk_keys s @ [rk_seq s], rk_seq := rk_seq s + 1\<rparr>)"

definition editor_render :: "key_value_entry list \<Rightarrow> row_keys \<Rightarrow> row_keys" where
  "editor_render entries s =
     (let n = length (editor_rows entries); s' = grow_keys (n - length (rk_keys s)) s
      in if length (rk_keys s') > n then s'\<lparr>rk_keys := take n (rk_keys s')\<rparr> else s')"

text \<open>
  \<open>rows.map\<close> with the patched row, and the last row dropped while it is blank; \<open>splice\<close> and \<open>filter\<close> by index.
\<close>

definition editor_update :: "nat \<Rightarrow> (key_value_entry \<Rightarrow> key_value_entry) \<Rightarrow> key_value_entry list \<Rightarrow> key_value_entry list" where
  "editor_update index patch entries =
     (let rows = editor_rows entries; next = (if index < length rows then rows[index := patch (rows ! index)] else rows)
      in butlast next @ (if kv_key (last next) \<noteq> [] \<or> kv_value (last next) \<noteq> [] then [last next] else []))"

definition drop_at :: "nat \<Rightarrow> 'a list \<Rightarrow> 'a list" where
  "drop_at index xs = take index xs @ drop (Suc index) xs"

definition editor_remove :: "nat \<Rightarrow> key_value_entry list \<Rightarrow> row_keys \<Rightarrow> key_value_entry list \<times> row_keys" where
  "editor_remove index entries s =
     (if index < length entries then (drop_at index entries, s\<lparr>rk_keys := drop_at index (rk_keys s)\<rparr>) else (entries, s))"

section \<open>What the form page relies on\<close>

text \<open>
  The values compare as their contents do; whatever may be submitted on creation names the new resource by
  a valid identifier and is posted; and a save never depends on anything but the record's name, its tag and the values.
\<close>

locale resource_values =
  fixes seed :: "'r option \<Rightarrow> name_error + 'v"
    and valuesEqual :: "'v \<Rightarrow> 'v \<Rightarrow> bool"
    and canSubmit :: "form_mode \<Rightarrow> 'v \<Rightarrow> bool"
    and ident :: "'v \<Rightarrow> string"
    and id_param :: string
    and save :: "form_mode \<Rightarrow> 'r option \<Rightarrow> string \<Rightarrow> 'v \<Rightarrow> name_error + request"
  assumes equal_iff: "valuesEqual a b \<longleftrightarrow> a = b"
    and create_ident: "canSubmit Mode_create v \<Longrightarrow> isValidIdentifier (ident v)"
    and create_posts: "\<exists>r. save Mode_create rec org v = Inr r \<and> rq_method r = POST \<and> rq_query r = [(id_param, ident v)]"
    and edit_patches: "save Mode_edit rec org v = Inr r \<Longrightarrow> rq_method r = PATCH"
begin

lemma not_dirty_saves_seed: "seed rec = Inr i \<Longrightarrow> valuesEqual v i \<Longrightarrow> save mode rec org v = save mode rec org i"
  by (simp add: equal_iff)

lemma create_names_validly:
  "canSubmit Mode_create v \<Longrightarrow> \<exists>r. save Mode_create rec org v = Inr r \<and> rq_method r = POST
     \<and> rq_query r = [(id_param, ident v)] \<and> isValidIdentifier (ident v)"
  using create_posts [of rec org v] create_ident [of v] by blast

end

lemma rows_equal_iff: "length as = length bs \<Longrightarrow> rows_equal as bs \<longleftrightarrow> as = bs"
  by (induction as bs rule: rows_equal.induct) auto

lemma connector_valuesEqual_iff: "connector_valuesEqual a b \<longleftrightarrow> a = b"
  by (cases a; cases b) (auto simp: connector_valuesEqual_def rows_equal_iff)

lemma secret_valuesEqual_iff: "secret_valuesEqual a b \<longleftrightarrow> a = b"
  by (cases a; cases b) (auto simp: secret_valuesEqual_def rows_equal_iff)

abbreviation save_connector :: "form_mode \<Rightarrow> connector option \<Rightarrow> string \<Rightarrow> connector_form_values \<Rightarrow> name_error + request" where
  "save_connector mode rec \<equiv> saveConnector mode (map_option stored.truncate rec)"

abbreviation save_secret :: "form_mode \<Rightarrow> secret option \<Rightarrow> string \<Rightarrow> secret_form_values \<Rightarrow> name_error + request" where
  "save_secret mode rec \<equiv> saveSecret mode (map_option stored.truncate rec)"

lemma item_request_patches: "rq_method (item_request m op sp p q b item) = m"
  by (simp add: item_request_def split: prod.split)

lemma create_request_fields: "rq_method (create_request op sp org scope q b) = POST \<and> rq_query (create_request op sp org scope q b) = q"
  by (simp add: create_request_def)

lemma map_sum_InrE: "map_sum id f x = Inr y \<Longrightarrow> \<exists>z. x = Inr z \<and> y = f z"
  by (cases x) auto

interpretation connectors: resource_values seedConnectorValues connector_valuesEqual connector_canSubmit cf_connectorId "''connectorId''" save_connector
proof unfold_locales
  show "rq_method r = PATCH" if "save_connector Mode_edit rec org v = Inr r" for rec org v r
    using map_sum_InrE [of _ _ r] that by (fastforce simp: saveConnector_def item_request_patches)
qed (auto simp: connector_valuesEqual_iff connector_canSubmit_def saveConnector_def create_request_fields)

interpretation secrets: resource_values seedSecretValues secret_valuesEqual secret_canSubmit sf_secretId "''secretId''" save_secret
proof unfold_locales
  show "rq_method r = PATCH" if "save_secret Mode_edit rec org v = Inr r" for rec org v r
    using map_sum_InrE [of _ _ r] that by (fastforce simp: saveSecret_def item_request_patches)
qed (auto simp: secret_valuesEqual_iff secret_canSubmit_def saveSecret_def create_request_fields Let_def)

section \<open>An unchanged form saves the record as it is\<close>

definition tidy_map :: "(string \<times> string) list \<Rightarrow> bool" where
  "tidy_map m \<longleftrightarrow> distinct (map fst m) \<and> list_all (\<lambda>(k, v). trim k = k \<and> k \<noteq> [] \<and> k \<noteq> ''__proto__'') m"

lemma entries_loop_tidy:
  "tidy_map (out @ m) \<Longrightarrow> entries_loop (map (\<lambda>(k, v). \<lparr>kv_key = k, kv_value = v\<rparr>) m) out = out @ m"
proof (induction m arbitrary: out)
  case (Cons p m)
  obtain k v where p: "p = (k, v)" by fastforce
  have "k \<notin> fst ` set out" using Cons.prems by (auto simp: tidy_map_def p)
  then have "AList.update k v out = out @ [(k, v)]" by (simp add: update_append_new)
  with Cons.IH [of "out @ [(k, v)]"] Cons.prems show ?case by (simp add: p tidy_map_def Let_def)
qed simp

lemma tidy_entries: "tidy_map m \<Longrightarrow> entriesToMap (map (\<lambda>(k, v). \<lparr>kv_key = k, kv_value = v\<rparr>) m) = m"
  using entries_loop_tidy [of "[]" m] by (simp add: entriesToMap_def)

text \<open>
  C26. Opening a record and saving it unchanged writes what is there, for records such as the forms
  themselves write: the connector has its http part, its address and agent carry no outer blanks, and
  the keys of headers and annotations are different, trimmed, not empty and not \<open>__proto__\<close> (other
  texts and keys are trimmed or dropped on the way). Then the body of the save holds exactly the
  record's own texts and maps; for a secret it carries the record's tag and no value. Whatever
  compares as unchanged saves the same.
\<close>

theorem unchanged_form_is_a_noop:
  assumes c: "cn_http c = Some h" "trim (or_default (hc_baseUrl h) []) = or_default (hc_baseUrl h) []" "tidy_map (or_default (hc_headers h) [])"
      "trim (or_default (cn_agent c) []) = or_default (cn_agent c) []"
    and seeded: "seedConnectorValues (Some c) = Inr cv" "seedSecretValues (Some s) = Inr sv" and annotations: "tidy_map (or_default (sr_annotations s) [])"
    and same: "connector_valuesEqual cv' cv" "secret_valuesEqual sv' sv"
    and sent: "save_connector Mode_edit (Some c) org cv' = Inr r" "save_secret Mode_edit (Some s) org sv' = Inr r'"
  shows "rq_body r = Some (JObject
      [(''displayName'', JString (or_default (cn_displayName c) [])), (''description'', JString (or_default (cn_description c) [])),
       (''http'', JObject [(''baseUrl'', JString (or_default (hc_baseUrl h) [])), (''headers'', string_map (or_default (hc_headers h) []))]),
       (''agent'', JString (or_default (cn_agent c) []))])
    \<and> rq_body r' = Some (JObject
      ([(''displayName'', JString (or_default (sr_displayName s) [])), (''annotations'', string_map (or_default (sr_annotations s) []))]
       @ (if truthy (so_etag s) then [(''etag'', JString (the (so_etag s)))] else [])))"
proof -
  have v: "cv' = cv" "sv' = sv" using same by (simp_all add: connector_valuesEqual_iff secret_valuesEqual_iff)
  obtain scope where cv: "cv = \<lparr>cf_connectorId = [], cf_displayName = or_default (cn_displayName c) [],
      cf_description = or_default (cn_description c) [], cf_baseUrl = or_default (hc_baseUrl h) [],
      cf_headers = headersToEntries (hc_headers h), cf_agent = or_default (cn_agent c) [], cf_scope = scope\<rparr>"
    using map_sum_InrE [OF seeded(1) [unfolded seedConnectorValues_def]] c(1) by auto
  obtain scope' where sv: "sv = \<lparr>sf_secretId = [], sf_displayName = or_default (sr_displayName s) [],
      sf_annotations = annotationsToEntries (sr_annotations s), sf_value = [], sf_rotate = False, sf_scope = scope'\<rparr>"
    using map_sum_InrE [OF seeded(2) [unfolded seedSecretValues_def]] by auto
  have "rq_body r = Some (buildConnectorBody cv)"
    using map_sum_InrE [of _ _ r] sent(1) v by (fastforce simp: saveConnector_def item_request_def split: prod.splits)
  moreover have "rq_body r' = Some (buildSecretUpdateBody sv (so_etag s))"
    using map_sum_InrE [of _ _ r'] sent(2) v by (fastforce simp: saveSecret_def item_request_def stored.truncate_def split: prod.splits)
  ultimately show ?thesis
    using c(2-4) annotations
    by (simp add: cv sv buildConnectorBody_def buildSecretUpdateBody_def headersToEntries_def annotationsToEntries_def tidy_entries)
qed

text \<open>The witness: a connector with one header, and a secret with a tag.\<close>

definition sample_connector :: connector where
  "sample_connector =
     \<lparr>so_name = Some ''organizations/acme/connectors/crm'', so_etag = Some ''7'', cn_displayName = Some ''CRM'', cn_description = None,
      cn_http = Some \<lparr>hc_baseUrl = Some ''https://crm'', hc_headers = Some [(''Accept'', ''text'')]\<rparr>, cn_agent = None\<rparr>"

definition sample_secret :: secret where
  "sample_secret =
     \<lparr>so_name = Some ''organizations/acme/secrets/key'', so_etag = Some ''7'', sr_displayName = Some ''Key'', sr_annotations = None\<rparr>"

lemma sample_address_trim: "trim ''https://crm'' = ''https://crm''"
  by (rule trim_visible) simp_all

lemma sample_header_trim: "trim ''Accept'' = ''Accept''"
  by (rule trim_visible) simp_all

lemmas sample_trims = sample_address_trim sample_header_trim trim_Nil

lemma unchanged_form_is_a_noop_witness:
  "\<exists>cv sv r r'. seedConnectorValues (Some sample_connector) = Inr cv \<and> seedSecretValues (Some sample_secret) = Inr sv
     \<and> save_connector Mode_edit (Some sample_connector) ''acme'' cv = Inr r \<and> save_secret Mode_edit (Some sample_secret) ''acme'' sv = Inr r'
     \<and> rq_body r' = Some (JObject [(''displayName'', JString ''Key''), (''annotations'', JObject []), (''etag'', JString ''7'')])"
proof -
  have p: "parseResourceName ''organizations/acme/connectors/crm'' = Inr [(''organizations'', ''acme''), (''connectors'', ''crm'')]"
    "parseResourceName ''organizations/acme/secrets/key'' = Inr [(''organizations'', ''acme''), (''secrets'', ''key'')]"
    by (simp_all add: parseResourceName_def js_in_def object_prototype_keys_def)
  obtain cv where cv: "seedConnectorValues (Some sample_connector) = Inr cv"
    by (simp add: seedConnectorValues_def sample_connector_def connectorSpaceSlug_def segment_or_def truthy_def p)
  obtain sv where sv: "seedSecretValues (Some sample_secret) = Inr sv"
    by (simp add: seedSecretValues_def sample_secret_def secretSpaceSlug_def segment_or_def truthy_def p)
  obtain r where r: "save_connector Mode_edit (Some sample_connector) ''acme'' cv = Inr r"
    by (simp add: saveConnector_def editing_name_def sample_connector_def stored.truncate_def connectorItemParams_def resourcePathParams_def p
        or_default_def COLLECTION_TO_PARAM_def)
  obtain r' where r': "save_secret Mode_edit (Some sample_secret) ''acme'' sv = Inr r'"
    by (simp add: saveSecret_def editing_name_def sample_secret_def stored.truncate_def secretItemParams_def resourcePathParams_def p
        or_default_def COLLECTION_TO_PARAM_def)
  show ?thesis
    using unchanged_form_is_a_noop [OF _ _ _ _ cv sv _ _ _ r r', of "the (cn_http sample_connector)"] cv sv r r'
    by (auto simp: sample_connector_def sample_secret_def connector_valuesEqual_iff secret_valuesEqual_iff tidy_map_def or_default_def truthy_def sample_trims)
qed

section \<open>The rows of the editor keep their identity\<close>

datatype row_event = Change_row nat "key_value_entry \<Rightarrow> key_value_entry" | Remove_row nat | Replace_rows "key_value_entry list"

definition editor_step :: "row_event \<Rightarrow> key_value_entry list \<times> row_keys \<Rightarrow> key_value_entry list \<times> row_keys" where
  "editor_step e st =
     (let (entries, s) = (case e of
          Change_row i patch \<Rightarrow> (editor_update i patch (fst st), snd st)
        | Remove_row i \<Rightarrow> editor_remove i (fst st) (snd st)
        | Replace_rows entries \<Rightarrow> (entries, snd st))
      in (entries, editor_render entries s))"

definition editor_mount :: "key_value_entry list \<Rightarrow> key_value_entry list \<times> row_keys" where
  "editor_mount entries = (entries, editor_render entries \<lparr>rk_keys = [], rk_seq = 0\<rparr>)"

definition keys_ok :: "key_value_entry list \<times> row_keys \<Rightarrow> bool" where
  "keys_ok st \<longleftrightarrow> length (rk_keys (snd st)) = length (fst st) + 1 \<and> distinct (rk_keys (snd st)) \<and> (\<forall>k \<in> set (rk_keys (snd st)). k < rk_seq (snd st))"

lemma grow_keys_fields: "grow_keys n s = s\<lparr>rk_keys := rk_keys s @ [rk_seq s..<rk_seq s + n], rk_seq := rk_seq s + n\<rparr>"
  by (induction n arbitrary: s) (simp_all add: upt_conv_Cons)

lemma editor_render_ok:
  assumes "distinct (rk_keys s)" and "\<forall>k \<in> set (rk_keys s). k < rk_seq s"
  shows "keys_ok (entries, editor_render entries s)"
    and "length (rk_keys s) \<le> length entries + 1 \<Longrightarrow> take (length (rk_keys s)) (rk_keys (editor_render entries s)) = rk_keys s"
  using assms by (auto simp: keys_ok_def editor_render_def editor_rows_def grow_keys_fields Let_def dest: in_set_takeD)

lemma editor_step_ok:
  assumes "keys_ok st"
  shows "keys_ok (editor_step e st)"
proof -
  have ks: "distinct (rk_keys (snd st))" "\<forall>k \<in> set (rk_keys (snd st)). k < rk_seq (snd st)" using assms by (simp_all add: keys_ok_def)
  show ?thesis
  proof (cases e)
    case (Remove_row i)
    have "distinct (drop_at i (rk_keys (snd st)))" "set (drop_at i (rk_keys (snd st))) \<subseteq> set (rk_keys (snd st))"
      using ks(1) by (auto simp: drop_at_def set_take_disj_set_drop_if_distinct dest: in_set_takeD in_set_dropD)
    then have "distinct (rk_keys (snd (editor_remove i (fst st) (snd st))))"
      "\<forall>k \<in> set (rk_keys (snd (editor_remove i (fst st) (snd st)))). k < rk_seq (snd (editor_remove i (fst st) (snd st)))"
      using ks by (auto simp: editor_remove_def)
    from editor_render_ok(1) [OF this] Remove_row show ?thesis
      by (cases "editor_remove i (fst st) (snd st)") (simp add: editor_step_def)
  qed (simp_all add: editor_step_def editor_render_ok(1) [OF ks])
qed

lemma editor_run_ok: "keys_ok (fold editor_step es (editor_mount entries))"
proof -
  have "keys_ok (fold editor_step es st)" if "keys_ok st" for st
    using that by (induction es arbitrary: st) (simp_all add: editor_step_ok)
  moreover have "keys_ok (editor_mount entries)" unfolding editor_mount_def by (rule editor_render_ok(1)) simp_all
  ultimately show ?thesis by blast
qed

lemma editor_update_row: "i < length entries \<Longrightarrow> editor_update i patch entries = entries[i := patch (entries ! i)]"
  by (simp add: editor_update_def editor_rows_def blank_row_def nth_append list_update_append Let_def)

lemma editor_update_sentinel:
  "editor_update (length entries) patch entries =
     entries @ (if kv_key (patch blank_row) \<noteq> [] \<or> kv_value (patch blank_row) \<noteq> [] then [patch blank_row] else [])"
  by (simp add: editor_update_def editor_rows_def Let_def)

text \<open>
  The rows of the editor keep their identity: after any changes, removals and replacements there is
  one key for each row and one for the blank row at the end, all different. Removing a row removes
  exactly its entry and its key; changing a row changes exactly this entry and no key; filling the blank
  row adds it as an entry under the key it had, with a new key for the new blank row, and nothing
  happens as long as it stays blank.
\<close>

theorem editor_rows_keep_identity:
  "let (entries, s) = fold editor_step es (editor_mount entries0) in
     length (rk_keys s) = length entries + 1 \<and> distinct (rk_keys s)
     \<and> (\<forall>i < length entries. editor_step (Remove_row i) (entries, s) = (drop_at i entries, s\<lparr>rk_keys := drop_at i (rk_keys s)\<rparr>))
     \<and> (\<forall>i < length entries. \<forall>patch. editor_step (Change_row i patch) (entries, s) = (entries[i := patch (entries ! i)], s))
     \<and> (\<forall>patch. editor_step (Change_row (length entries) patch) (entries, s) =
         (if kv_key (patch blank_row) \<noteq> [] \<or> kv_value (patch blank_row) \<noteq> []
          then (entries @ [patch blank_row], s\<lparr>rk_keys := rk_keys s @ [rk_seq s], rk_seq := rk_seq s + 1\<rparr>) else (entries, s)))"
proof -
  obtain entries s where r: "fold editor_step es (editor_mount entries0) = (entries, s)" by fastforce
  with editor_run_ok [of es entries0] have ok: "keys_ok (entries, s)" by simp
  then have n: "length (rk_keys s) = length entries + 1" "distinct (rk_keys s)" by (simp_all add: keys_ok_def)
  have same: "editor_render es' s = s" if "length es' = length entries" for es'
    using that n by (simp add: editor_render_def editor_rows_def)
  have "editor_step (Remove_row i) (entries, s) = (drop_at i entries, s\<lparr>rk_keys := drop_at i (rk_keys s)\<rparr>)" if "i < length entries" for i
    using that n by (simp add: editor_step_def editor_remove_def editor_render_def editor_rows_def drop_at_def Let_def)
  moreover have "editor_step (Change_row i patch) (entries, s) = (entries[i := patch (entries ! i)], s)" if "i < length entries" for i patch
    using that by (simp add: editor_step_def editor_update_row same)
  moreover have "editor_step (Change_row (length entries) patch) (entries, s) =
      (if kv_key (patch blank_row) \<noteq> [] \<or> kv_value (patch blank_row) \<noteq> []
       then (entries @ [patch blank_row], s\<lparr>rk_keys := rk_keys s @ [rk_seq s], rk_seq := rk_seq s + 1\<rparr>) else (entries, s))" for patch
    using n by (simp add: editor_step_def editor_update_sentinel same) (simp add: editor_render_def editor_rows_def)
  ultimately show ?thesis unfolding r using n by simp
qed

text \<open>The witness: the second of three rows is removed.\<close>

lemma editor_rows_keep_identity_witness:
  "\<exists>a b c. let (entries, s) = fold editor_step [Remove_row 1] (editor_mount [a, b, c]) in entries = [a, c] \<and> rk_keys s = [0, 2, 3]"
proof -
  let ?r = "\<lambda>k. \<lparr>kv_key = k, kv_value = []\<rparr>"
  let ?m = "editor_mount [?r ''a'', ?r ''b'', ?r ''c'']"
  have m: "?m = ([?r ''a'', ?r ''b'', ?r ''c''], \<lparr>rk_keys = [0, 1, 2, 3], rk_seq = 4\<rparr>)"
    by (simp add: editor_mount_def editor_render_def editor_rows_def grow_keys_fields upt_rec Let_def)
  from editor_rows_keep_identity [of "[]" "[?r ''a'', ?r ''b'', ?r ''c'']"]
  have "editor_step (Remove_row 1) ?m = (drop_at 1 (fst ?m), (snd ?m)\<lparr>rk_keys := drop_at 1 (rk_keys (snd ?m))\<rparr>)"
    unfolding m by (simp add: Let_def)
  then show ?thesis unfolding m by (intro exI [of _ "?r ''a''"] exI [of _ "?r ''b''"] exI [of _ "?r ''c''"]) (simp add: m drop_at_def numeral_nat)
qed

end
