(* ===== verification/Form_Pages.thy ===== *)
theory Form_Pages
  imports Form_Values Navigation
begin

text \<open>
  The routed create and edit pages of connectors and secrets: the generic form page
  (\<^verbatim>\<open>packages/ui/src/form-page/form-page.tsx\<close>, \<^verbatim>\<open>resource-admin/resource-form-page.tsx\<close>), the providers
  that own the values (\<^verbatim>\<open>connector-form-provider.tsx\<close>, \<^verbatim>\<open>secret-form-provider.tsx\<close>), the features that
  connect them to the form hook (\<^verbatim>\<open>packages/features/src/connectors/connector-form-feature.tsx\<close>,
  \<^verbatim>\<open>secrets/secret-form-feature.tsx\<close>) and the navigation of the route
  (\<^verbatim>\<open>apps/start/src/lib/use-resource-form-nav.ts\<close>, \<^verbatim>\<open>use-connector-form-nav.ts\<close>, \<^verbatim>\<open>use-secret-form-nav.ts\<close>).

  A page is a state with one step for each thing a user, the network or the query cache does; the
  effects run at the end of a step. It is proved which steps leave a page with unsaved edits, that
  only complete values are saved, one save at a time, and what the query cache holds on return. Five
  lemmas at the end show where edits are lost or overwritten.
\<close>

section \<open>What the two kinds of resource supply\<close>

type_synonym key_prefix = "string \<times> string"

record ('r, 'v) form_kind =
  fk_seed :: "'r option \<Rightarrow> name_error + 'v"
  fk_equal :: "'v \<Rightarrow> 'v \<Rightarrow> bool"
  fk_canSubmit :: "form_mode \<Rightarrow> 'v \<Rightarrow> bool"
  fk_stored :: "'r \<Rightarrow> stored"
  fk_save :: "form_mode \<Rightarrow> 'r option \<Rightarrow> string \<Rightarrow> 'v \<Rightarrow> name_error + request"
  fk_saveErrorFallback :: string
  fk_listKeys :: "key_prefix list"
  fk_detailKeys :: "key_prefix list"

definition connector_kind :: "(connector, connector_form_values) form_kind" where
  "connector_kind =
     \<lparr>fk_seed = seedConnectorValues, fk_equal = connector_valuesEqual, fk_canSubmit = connector_canSubmit, fk_stored = stored.truncate,
      fk_save = save_connector, fk_saveErrorFallback = ''Couldn'' @ [CHR 39] @ ''t save the connector.'',
      fk_listKeys = [(''get'', CONNECTORS_PATH), (''get'', SPACE_CONNECTORS_PATH)],
      fk_detailKeys = [(''get'', CONNECTOR_PATH), (''get'', SPACE_CONNECTOR_PATH)]\<rparr>"

definition secret_kind :: "(secret, secret_form_values) form_kind" where
  "secret_kind =
     \<lparr>fk_seed = seedSecretValues, fk_equal = secret_valuesEqual, fk_canSubmit = secret_canSubmit, fk_stored = stored.truncate,
      fk_save = save_secret, fk_saveErrorFallback = ''Couldn'' @ [CHR 39] @ ''t save the secret.'',
      fk_listKeys = [(''get'', SECRETS_PATH), (''get'', SPACE_SECRETS_PATH)],
      fk_detailKeys = [(''get'', SECRET_PATH), (''get'', SPACE_SECRET_PATH)]\<rparr>"

section \<open>The query cache\<close>

text \<open>An entry is known by its method, its path template and the rest of its key.\<close>

record cache_entry =
  ce_prefix :: key_prefix
  ce_rest :: string
  ce_stale :: bool

definition invalidateQueries :: "key_prefix \<Rightarrow> cache_entry list \<Rightarrow> cache_entry list" where
  "invalidateQueries key cache = map (\<lambda>e. if ce_prefix e = key then e\<lparr>ce_stale := True\<rparr> else e) cache"

definition removeQueries :: "key_prefix \<Rightarrow> cache_entry list \<Rightarrow> cache_entry list" where
  "removeQueries key cache = filter (\<lambda>e. ce_prefix e \<noteq> key) cache"

definition refresh_cache :: "('r, 'v) form_kind \<Rightarrow> cache_entry list \<Rightarrow> cache_entry list" where
  "refresh_cache k cache = fold removeQueries (fk_detailKeys k) (fold invalidateQueries (fk_listKeys k) cache)"

section \<open>The page\<close>

text \<open>
  Its mode, organization and identifier; what the record query holds; the values and their seed; the open
  discard dialog; the form hook with the saves it sent; the dirty state the route was told, whether
  unloading asks, the one-shot \<open>bypass\<close>; and, outside the page, the paths pushed and the query cache.
\<close>

record ('r, 'v) form_page =
  pg_mode :: form_mode
  pg_organization :: string
  pg_id :: string
  pg_mounted :: bool
  pg_data :: "'r option"
  pg_loading :: bool
  pg_loadFailed :: bool
  pg_values :: 'v
  pg_initial :: 'v
  pg_confirmOpen :: bool
  pg_hook :: form_hook
  pg_sent :: "('r option \<times> 'v) list"
  pg_reported :: bool
  pg_unloadAsks :: bool
  pg_bypass :: bool
  pg_pushed :: "string list"
  pg_cache :: "cache_entry list"

definition page_record :: "('r, 'v) form_page \<Rightarrow> 'r option" where
  "page_record p = (if pg_mode p = Mode_edit then pg_data p else None)"

definition page_dirty :: "('r, 'v) form_kind \<Rightarrow> ('r, 'v) form_page \<Rightarrow> bool" where
  "page_dirty k p \<longleftrightarrow> \<not> fk_equal k (pg_values p) (pg_initial p)"

text \<open>The edit shell shows the form only when the record is there and no load failed.\<close>

definition form_shown :: "('r, 'v) form_page \<Rightarrow> bool" where
  "form_shown p \<longleftrightarrow> pg_mode p = Mode_create \<or> (\<not> pg_loading p \<and> \<not> pg_loadFailed p)"

definition page_key :: "('r, 'v) form_kind \<Rightarrow> ('r, 'v) form_page \<Rightarrow> string" where
  "page_key k p = or_default (Option.bind (page_record p) (\<lambda>r. so_name (fk_stored k r))) (pg_id p)"

text \<open>The effects of a commit: the route is told, the listener is there while the form is dirty.\<close>

definition page_commit :: "('r, 'v) form_kind \<Rightarrow> ('r, 'v) form_page \<Rightarrow> ('r, 'v) form_page" where
  "page_commit k p = (if pg_mounted p then p\<lparr>pg_reported := page_dirty k p, pg_unloadAsks := page_dirty k p\<rparr> else p)"

definition page_mount ::
  "('r, 'v) form_kind \<Rightarrow> form_mode \<Rightarrow> string \<Rightarrow> string \<Rightarrow> 'r option \<Rightarrow> bool \<Rightarrow> bool \<Rightarrow> cache_entry list \<Rightarrow> name_error + ('r, 'v) form_page" where
  "page_mount k mode organization i data loading failed cache =
     map_sum id
       (\<lambda>v. \<lparr>pg_mode = mode, pg_organization = organization, pg_id = i, pg_mounted = True, pg_data = data, pg_loading = loading, pg_loadFailed = failed,
             pg_values = v, pg_initial = v, pg_confirmOpen = False, pg_hook = form_mount, pg_sent = [],
             pg_reported = \<not> fk_equal k v v, pg_unloadAsks = \<not> fk_equal k v v, pg_bypass = False, pg_pushed = [], pg_cache = cache\<rparr>)
       (fk_seed k (if mode = Mode_edit then data else None))"

text \<open>New data of the record query: another key mounts the provider again, with a new seed.\<close>

definition page_query ::
  "('r, 'v) form_kind \<Rightarrow> 'r option \<Rightarrow> bool \<Rightarrow> bool \<Rightarrow> ('r, 'v) form_page \<Rightarrow> name_error + ('r, 'v) form_page" where
  "page_query k data loading failed p =
     (let p' = p\<lparr>pg_data := data, pg_loading := loading, pg_loadFailed := failed\<rparr>;
          p'' = (if form_shown p' then p' else p'\<lparr>pg_confirmOpen := False\<rparr>)
      in if page_key k p' = page_key k p \<or> pg_mode p = Mode_create then Inr (page_commit k p'')
         else map_sum id (\<lambda>v. page_commit k (p''\<lparr>pg_values := v, pg_initial := v, pg_confirmOpen := False\<rparr>)) (fk_seed k (page_record p')))"

text \<open>
  \<open>history.push\<close> asks the blocker of a mounted page; \<open>confirmed\<close> is the answer \<open>confirm\<close> would give. A page
  that was left has no blocker.
\<close>

definition page_push :: "string \<Rightarrow> bool \<Rightarrow> ('r, 'v) form_page \<Rightarrow> ('r, 'v) form_page" where
  "page_push dest confirmed p =
     (let leave = p\<lparr>pg_mounted := False, pg_pushed := pg_pushed p @ [dest]\<rparr>
      in if \<not> pg_mounted p then p\<lparr>pg_pushed := pg_pushed p @ [dest]\<rparr>
         else if pg_bypass p then leave\<lparr>pg_bypass := False\<rparr>
         else if \<not> pg_reported p then leave
         else if \<not> confirmed then p else leave)"

definition goBack :: "string \<Rightarrow> ('r, 'v) form_page \<Rightarrow> ('r, 'v) form_page" where
  "goBack returnTo p = page_push returnTo False (p\<lparr>pg_bypass := True\<rparr>)"

definition goBackAndRefresh :: "('r, 'v) form_kind \<Rightarrow> string \<Rightarrow> ('r, 'v) form_page \<Rightarrow> ('r, 'v) form_page" where
  "goBackAndRefresh k returnTo p = goBack returnTo (p\<lparr>pg_cache := refresh_cache k (pg_cache p)\<rparr>)"

text \<open>\<open>onSubmit\<close> of the form, and \<open>mutate\<close>: a request that cannot be built is caught like a rejected one.\<close>

definition page_submit :: "('r, 'v) form_kind \<Rightarrow> ('r, 'v) form_page \<Rightarrow> ('r, 'v) form_page" where
  "page_submit k p =
     (if \<not> fk_canSubmit k (pg_mode p) (pg_values p) \<or> fh_pending (pg_hook p) then p
      else case fk_save k (pg_mode p) (page_record p) (pg_organization p) (pg_values p) of
             Inl e \<Rightarrow> p\<lparr>pg_hook := saveEnds (fk_saveErrorFallback k) Rejected (mutate (pg_hook p))\<rparr>
           | Inr r \<Rightarrow> p\<lparr>pg_hook := mutate (pg_hook p), pg_sent := pg_sent p @ [(page_record p, pg_values p)]\<rparr>)"

definition page_saved :: "('r, 'v) form_kind \<Rightarrow> string \<Rightarrow> outcome \<Rightarrow> ('r, 'v) form_page \<Rightarrow> ('r, 'v) form_page" where
  "page_saved k returnTo out p =
     (if fh_saves (pg_hook p) = 0 then p
      else let p' = p\<lparr>pg_hook := saveEnds (fk_saveErrorFallback k) out (pg_hook p)\<rparr>
        in if out = Answered None then goBackAndRefresh k returnTo p' else p')"

definition page_cancel :: "('r, 'v) form_kind \<Rightarrow> string \<Rightarrow> ('r, 'v) form_page \<Rightarrow> ('r, 'v) form_page" where
  "page_cancel k returnTo p =
     (if fh_pending (pg_hook p) then p
      else if page_dirty k p then p\<lparr>pg_confirmOpen := True\<rparr>
      else goBack returnTo p)"

definition page_discard :: "string \<Rightarrow> ('r, 'v) form_page \<Rightarrow> ('r, 'v) form_page" where
  "page_discard returnTo p = (if pg_confirmOpen p then goBack returnTo (p\<lparr>pg_confirmOpen := False\<rparr>) else p)"

definition page_delete :: "('r, 'v) form_page \<Rightarrow> ('r, 'v) form_page" where
  "page_delete p = (if pg_mode p = Mode_create \<or> fh_pending (pg_hook p) then p else p\<lparr>pg_hook := onDelete (pg_hook p)\<rparr>)"

definition page_confirmDelete :: "('r, 'v) form_kind \<Rightarrow> ('r, 'v) form_page \<Rightarrow> ('r, 'v) form_page" where
  "page_confirmDelete k p =
     (if \<not> fh_removeOpen (pg_hook p) \<or> fh_removePending (pg_hook p) then p
      else p\<lparr>pg_hook := form_confirmRemove (map_option (fk_stored k) (page_record p)) (pg_hook p)\<rparr>)"

definition page_deleted :: "('r, 'v) form_kind \<Rightarrow> string \<Rightarrow> outcome \<Rightarrow> ('r, 'v) form_page \<Rightarrow> ('r, 'v) form_page" where
  "page_deleted k returnTo out p =
     (if fh_deletes (pg_hook p) = 0 then p
      else let p' = p\<lparr>pg_hook := form_removeEnds out (pg_hook p)\<rparr>
        in if out = Answered None then goBackAndRefresh k returnTo p' else p')"

section \<open>Steps\<close>

text \<open>
  What happens to a page: edits, the buttons, the answers, the links (the back link of the header calls
  \<open>goBack\<close>; any other link or history step comes with the answer to the confirmation), new query data.
  The controls are there while the page is mounted and the form shown.
\<close>

datatype ('r, 'v) page_event =
    Patch "'v \<Rightarrow> 'v"
  | Submit_form
  | Cancel_click
  | Discard_changes
  | Keep_editing
  | Delete_click
  | Delete_toggle bool
  | Delete_confirm
  | Back_link
  | Follow_link string bool
  | Query_data "'r option" bool bool
  | Save_answer outcome
  | Delete_answer outcome

fun page_act :: "('r, 'v) form_kind \<Rightarrow> string \<Rightarrow> ('r, 'v) page_event \<Rightarrow> ('r, 'v) form_page \<Rightarrow> ('r, 'v) form_page" where
  "page_act k returnTo (Patch f) p = p\<lparr>pg_values := f (pg_values p)\<rparr>"
| "page_act k returnTo Submit_form p = page_submit k p"
| "page_act k returnTo Cancel_click p = page_cancel k returnTo p"
| "page_act k returnTo Discard_changes p = page_discard returnTo p"
| "page_act k returnTo Keep_editing p = p\<lparr>pg_confirmOpen := False\<rparr>"
| "page_act k returnTo Delete_click p = page_delete p"
| "page_act k returnTo Back_link p = goBack returnTo p"
| "page_act k returnTo e p = p"

definition page_step ::
  "('r, 'v) form_kind \<Rightarrow> string \<Rightarrow> ('r, 'v) page_event \<Rightarrow> ('r, 'v) form_page \<Rightarrow> name_error + ('r, 'v) form_page" where
  "page_step k returnTo e p =
     (case e of
        Save_answer out \<Rightarrow> Inr (page_commit k (page_saved k returnTo out p))
      | Delete_answer out \<Rightarrow> Inr (page_commit k (page_deleted k returnTo out p))
      | Query_data data loading failed \<Rightarrow> if pg_mounted p then page_query k data loading failed p else Inr p
      | Follow_link dest confirmed \<Rightarrow> Inr (page_commit k (page_push dest confirmed p))
      | Delete_toggle b \<Rightarrow> Inr (if pg_mounted p then p\<lparr>pg_hook := onRemoveOpenChange b (pg_hook p)\<rparr> else p)
      | Delete_confirm \<Rightarrow> Inr (if pg_mounted p then page_confirmDelete k p else p)
      | _ \<Rightarrow> Inr (if pg_mounted p \<and> form_shown p then page_commit k (page_act k returnTo e p) else p))"

fun page_run ::
  "('r, 'v) form_kind \<Rightarrow> string \<Rightarrow> ('r, 'v) page_event list \<Rightarrow> ('r, 'v) form_page \<Rightarrow> name_error + ('r, 'v) form_page" where
  "page_run k returnTo [] p = Inr p"
| "page_run k returnTo (e # es) p = bind_result (page_step k returnTo e p) (page_run k returnTo es)"

section \<open>The invariant\<close>

definition page_ok :: "('r, 'v) form_kind \<Rightarrow> ('r, 'v) form_page \<Rightarrow> bool" where
  "page_ok k p \<longleftrightarrow>
     (pg_mounted p \<longrightarrow> (pg_reported p \<longleftrightarrow> page_dirty k p) \<and> (pg_unloadAsks p \<longleftrightarrow> page_dirty k p) \<and> \<not> pg_bypass p)
     \<and> (fh_pending (pg_hook p) \<longleftrightarrow> fh_saves (pg_hook p) = 1) \<and> fh_saves (pg_hook p) \<le> 1
     \<and> (\<forall>(r, v) \<in> set (pg_sent p). fk_canSubmit k (pg_mode p) v \<and> (\<exists>q. fk_save k (pg_mode p) r (pg_organization p) v = Inr q))"

text \<open>What a step keeps, before its effects run.\<close>

definition page_pre :: "('r, 'v) form_kind \<Rightarrow> ('r, 'v) form_page \<Rightarrow> bool" where
  "page_pre k p \<longleftrightarrow> (pg_mounted p \<longrightarrow> \<not> pg_bypass p)
     \<and> (fh_pending (pg_hook p) \<longleftrightarrow> fh_saves (pg_hook p) = 1) \<and> fh_saves (pg_hook p) \<le> 1
     \<and> (\<forall>(r, v) \<in> set (pg_sent p). fk_canSubmit k (pg_mode p) v \<and> (\<exists>q. fk_save k (pg_mode p) r (pg_organization p) v = Inr q))"

lemma page_ok_pre: "page_ok k p \<Longrightarrow> page_pre k p"
  by (simp add: page_ok_def page_pre_def)

lemma page_commit_ok: "page_pre k p \<Longrightarrow> page_ok k (page_commit k p)"
  by (simp add: page_ok_def page_pre_def page_commit_def page_dirty_def)

lemma page_push_pre: "page_pre k p \<Longrightarrow> page_pre k (page_push dest confirmed p)"
  by (simp add: page_pre_def page_push_def Let_def)

lemma goBack_leaves:
  "\<not> pg_mounted (goBack returnTo p)" "pg_pushed (goBack returnTo p) = pg_pushed p @ [returnTo]" "pg_hook (goBack returnTo p) = pg_hook p"
  "pg_sent (goBack returnTo p) = pg_sent p" "pg_mode (goBack returnTo p) = pg_mode p" "pg_organization (goBack returnTo p) = pg_organization p"
  "pg_cache (goBack returnTo p) = pg_cache p"
  by (simp_all add: goBack_def page_push_def Let_def)

lemma goBack_pre: "page_pre k p \<Longrightarrow> page_pre k (goBack returnTo p)"
  by (simp add: page_pre_def goBack_leaves)

lemma hook_counts:
  "fh_pending (saveEnds f out h) = False" "fh_saves (saveEnds f out h) = fh_saves h - 1"
  "fh_pending (onDelete h) = fh_pending h" "fh_saves (onDelete h) = fh_saves h"
  "fh_pending (onRemoveOpenChange b h) = fh_pending h" "fh_saves (onRemoveOpenChange b h) = fh_saves h"
  "fh_pending (form_confirmRemove r h) = fh_pending h" "fh_saves (form_confirmRemove r h) = fh_saves h"
  "fh_pending (form_removeEnds out h) = fh_pending h" "fh_saves (form_removeEnds out h) = fh_saves h"
  "fh_pending (mutate h) = True" "fh_saves (mutate h) = fh_saves h + 1"
  by (simp_all add: saveEnds_def onDelete_def onRemoveOpenChange_def form_confirmRemove_def form_removeEnds_def mutate_def Let_def
      split: outcome.split option.split)

lemma page_submit_pre: "page_pre k p \<Longrightarrow> page_pre k (page_submit k p)"
  by (auto simp: page_pre_def page_submit_def hook_counts split: sum.split)

lemma page_saved_pre: "page_pre k p \<Longrightarrow> page_pre k (page_saved k returnTo out p)"
  by (auto simp: page_pre_def page_saved_def goBackAndRefresh_def goBack_leaves hook_counts Let_def)

lemma page_deleted_pre: "page_pre k p \<Longrightarrow> page_pre k (page_deleted k returnTo out p)"
  by (auto simp: page_pre_def page_deleted_def goBackAndRefresh_def goBack_leaves hook_counts Let_def)

lemma page_act_pre: "page_pre k p \<Longrightarrow> page_pre k (page_act k returnTo e p)"
proof (cases e)
  case Cancel_click
  assume "page_pre k p"
  with Cancel_click show ?thesis using goBack_pre [of k p returnTo] by (simp add: page_cancel_def) (simp add: page_pre_def)
next
  case Discard_changes
  assume "page_pre k p"
  then have "page_pre k (p\<lparr>pg_confirmOpen := False\<rparr>)" by (simp add: page_pre_def)
  with \<open>page_pre k p\<close> Discard_changes show ?thesis by (simp add: page_discard_def goBack_pre)
qed (simp_all add: page_submit_pre goBack_pre, simp_all add: page_pre_def page_delete_def hook_counts)

lemma page_query_ok:
  assumes "page_pre k p" and "page_query k data loading failed p = Inr p'"
  shows "page_ok k p' \<and> pg_mounted p' = pg_mounted p"
proof -
  let ?q = "p\<lparr>pg_data := data, pg_loading := loading, pg_loadFailed := failed\<rparr>"
  let ?r = "if form_shown ?q then ?q else ?q\<lparr>pg_confirmOpen := False\<rparr>"
  have m: "pg_mounted (page_commit k q) = pg_mounted q" for q :: "('a, 'b) form_page" by (simp add: page_commit_def)
  have r: "page_pre k ?r" "page_pre k (?r\<lparr>pg_values := v, pg_initial := v, pg_confirmOpen := False\<rparr>)" for v
    using assms(1) by (simp_all add: page_pre_def)
  have "p' = page_commit k ?r \<or> (\<exists>v. p' = page_commit k (?r\<lparr>pg_values := v, pg_initial := v, pg_confirmOpen := False\<rparr>))"
    using assms(2) by (auto simp: page_query_def Let_def dest: map_sum_InrE split: if_splits)
  then show ?thesis using page_commit_ok [OF r(1)] page_commit_ok [OF r(2)] m by (elim disjE exE) simp_all
qed

lemma page_step_ok: "page_ok k p \<Longrightarrow> page_step k returnTo e p = Inr p' \<Longrightarrow> page_ok k p'"
proof -
  assume ok: "page_ok k p" and step: "page_step k returnTo e p = Inr p'"
  have pre: "page_pre k p" by (rule page_ok_pre [OF ok])
  have hook: "page_ok k (p\<lparr>pg_hook := h\<rparr>)" if "fh_pending h = fh_pending (pg_hook p)" "fh_saves h = fh_saves (pg_hook p)" for h
    using ok that by (simp add: page_ok_def page_dirty_def)
  have act: "page_ok k (if pg_mounted p \<and> form_shown p then page_commit k (page_act k returnTo e p) else p)"
    using ok page_commit_ok [OF page_act_pre [OF pre]] by simp
  show ?thesis
  proof (cases e)
    case (Query_data data loading failed)
    then show ?thesis using step ok page_query_ok [OF pre] by (auto simp: page_step_def split: if_splits)
  qed (use step ok act in \<open>auto simp: page_step_def page_confirmDelete_def hook hook_counts
        intro!: page_commit_ok page_saved_pre page_deleted_pre page_push_pre pre\<close>)
qed

lemma page_run_ok: "page_ok k p \<Longrightarrow> page_run k returnTo es p = Inr p' \<Longrightarrow> page_ok k p'"
proof (induction es arbitrary: p)
  case (Cons e es)
  then show ?case using page_step_ok [of k p returnTo e] by auto
qed simp

lemma page_mount_ok: "page_mount k mode organization i data loading failed cache = Inr p \<Longrightarrow> page_ok k p"
  by (auto simp: page_mount_def page_ok_def page_dirty_def form_mount_def dest!: map_sum_InrE)

section \<open>Leaving asks first\<close>

lemma commit_mounted: "pg_mounted (page_commit k q) = pg_mounted q"
  by (simp add: page_commit_def)

lemma act_leaves:
  "pg_mounted p \<Longrightarrow> \<not> pg_mounted (page_act k returnTo e p) \<Longrightarrow>
     e = Back_link \<or> e = Discard_changes \<and> pg_confirmOpen p \<or> e = Cancel_click \<and> \<not> page_dirty k p"
  by (cases e) (auto simp: page_submit_def page_cancel_def page_discard_def page_delete_def split: sum.splits if_splits)

lemma saved_mounted: "pg_mounted p \<Longrightarrow> \<not> pg_mounted (page_saved k returnTo out p) \<Longrightarrow> out = Answered None \<and> fh_saves (pg_hook p) \<noteq> 0"
  by (auto simp: page_saved_def Let_def split: if_splits)

lemma deleted_mounted: "pg_mounted p \<Longrightarrow> \<not> pg_mounted (page_deleted k returnTo out p) \<Longrightarrow> out = Answered None \<and> fh_deletes (pg_hook p) \<noteq> 0"
  by (auto simp: page_deleted_def Let_def split: if_splits)

lemma push_leaves: "pg_mounted p \<Longrightarrow> \<not> pg_bypass p \<Longrightarrow> \<not> pg_mounted (page_push dest confirmed p) \<Longrightarrow> confirmed \<or> \<not> pg_reported p"
  by (auto simp: page_push_def Let_def split: if_splits)

text \<open>
  C11. A page with unsaved edits is left only on purpose: while a form is open, the route knows exactly
  whether it is dirty and closing the window asks exactly then; and a step that leaves the page leaves
  an unchanged form, or is a confirmed discard, a confirmed link, the success of a save or of a
  deletion, or the back link of the header, which asks nothing.
\<close>

theorem leaving_asks_first:
  assumes mount: "page_mount k mode organization i data loading failed cache = Inr p0"
    and run: "page_run k returnTo es p0 = Inr p" and mounted: "pg_mounted p"
    and step: "page_step k returnTo e p = Inr p'" and left: "\<not> pg_mounted p'"
  shows "(pg_reported p \<longleftrightarrow> page_dirty k p) \<and> (pg_unloadAsks p \<longleftrightarrow> page_dirty k p)
    \<and> (\<not> page_dirty k p
       \<or> (e = Discard_changes \<and> pg_confirmOpen p)
       \<or> (\<exists>dest. e = Follow_link dest True)
       \<or> (e = Save_answer (Answered None) \<and> fh_pending (pg_hook p))
       \<or> (e = Delete_answer (Answered None) \<and> 0 < fh_deletes (pg_hook p))
       \<or> e = Back_link)"
proof -
  have ok: "page_ok k p" using page_run_ok [OF page_mount_ok [OF mount] run] .
  then have flags: "pg_reported p \<longleftrightarrow> page_dirty k p" "pg_unloadAsks p \<longleftrightarrow> page_dirty k p" "\<not> pg_bypass p"
    "fh_saves (pg_hook p) \<noteq> 0 \<longrightarrow> fh_pending (pg_hook p)"
    using mounted by (auto simp: page_ok_def)
  have act: "e = Back_link \<or> e = Discard_changes \<and> pg_confirmOpen p \<or> e = Cancel_click \<and> \<not> page_dirty k p"
    if "p' = (if pg_mounted p \<and> form_shown p then page_commit k (page_act k returnTo e p) else p)"
    using that left mounted act_leaves [OF mounted] by (auto simp: commit_mounted split: if_splits)
  have "\<not> page_dirty k p \<or> (e = Discard_changes \<and> pg_confirmOpen p) \<or> (\<exists>dest. e = Follow_link dest True)
       \<or> (e = Save_answer (Answered None) \<and> fh_pending (pg_hook p)) \<or> (e = Delete_answer (Answered None) \<and> 0 < fh_deletes (pg_hook p)) \<or> e = Back_link"
  proof (cases e)
    case (Query_data data loading failed)
    then show ?thesis using step left mounted page_query_ok [OF page_ok_pre [OF ok], of data loading failed p'] by (simp add: page_step_def)
  next
    case (Follow_link dest confirmed)
    then show ?thesis using step left push_leaves [OF mounted flags(3)] flags(1) by (auto simp: page_step_def commit_mounted)
  next
    case (Save_answer out)
    with step left have "\<not> pg_mounted (page_saved k returnTo out p)" by (auto simp: page_step_def commit_mounted)
    from saved_mounted [OF mounted this] Save_answer flags(4) show ?thesis by simp
  next
    case (Delete_answer out)
    then show ?thesis using step left deleted_mounted [OF mounted] by (auto simp: page_step_def commit_mounted)
  next
    case (Delete_toggle b)
    then show ?thesis using step left mounted by (auto simp: page_step_def)
  next
    case Delete_confirm
    then show ?thesis using step left mounted by (auto simp: page_step_def page_confirmDelete_def split: if_splits)
  qed (use step act in \<open>auto simp: page_step_def\<close>)
  with flags show ?thesis by blast
qed

section \<open>What is saved\<close>

lemma page_step_fixed:
  fixes p :: "('r, 'v) form_page"
  assumes "page_step k returnTo e p = Inr p'"
  shows "pg_mode p' = pg_mode p \<and> pg_organization p' = pg_organization p"
proof -
  let ?same = "\<lambda>q :: ('r, 'v) form_page. pg_mode q = pg_mode p \<and> pg_organization q = pg_organization p"
  have c: "pg_mode (page_commit k q) = pg_mode q" "pg_organization (page_commit k q) = pg_organization q" for q
    by (simp_all add: page_commit_def)
  have act: "?same (page_act k returnTo e p)" for e
    by (cases e) (auto simp: page_submit_def page_cancel_def page_discard_def page_delete_def goBack_leaves split: sum.split)
  have push: "?same (page_push dest b p)" for dest b
    by (simp add: page_push_def Let_def)
  have answers: "?same (page_saved k returnTo out p)" "?same (page_deleted k returnTo out p)" for out
    by (simp_all add: page_saved_def page_deleted_def goBackAndRefresh_def goBack_leaves Let_def)
  have query: "?same q" if "page_query k data loading failed p = Inr q" for data loading failed q
    using that by (auto simp: page_query_def c Let_def dest!: map_sum_InrE split: if_splits)
  have confirm: "?same (page_confirmDelete k p)"
    by (simp add: page_confirmDelete_def)
  have controls: "?same (if pg_mounted p \<and> form_shown p then page_commit k (page_act k returnTo e p) else p)" for e
    using act c by simp
  have rest: ?thesis if "Inr (if pg_mounted p \<and> form_shown p then page_commit k (page_act k returnTo e p) else p) = page_step k returnTo e p"
    using that assms controls [of e] by (metis sum.inject(2))
  show ?thesis
  proof (cases e)
    case (Query_data data loading failed)
    then show ?thesis using assms query by (auto simp: page_step_def split: if_splits)
  next
    case (Follow_link dest b)
    then show ?thesis using assms push c by (auto simp: page_step_def)
  next
    case (Save_answer out)
    then show ?thesis using assms answers c by (auto simp: page_step_def)
  next
    case (Delete_answer out)
    then show ?thesis using assms answers c by (auto simp: page_step_def)
  next
    case Delete_confirm
    then show ?thesis using assms confirm by (auto simp: page_step_def split: if_splits)
  next
    case (Delete_toggle b)
    then show ?thesis using assms by (auto simp: page_step_def)
  qed (rule rest, simp add: page_step_def)+
qed

lemma page_run_fixed: "page_run k returnTo es p = Inr p' \<Longrightarrow> pg_mode p' = pg_mode p \<and> pg_organization p' = pg_organization p"
proof (induction es arbitrary: p)
  case (Cons e es)
  then obtain q where q: "page_step k returnTo e p = Inr q" "page_run k returnTo es q = Inr p'" by auto
  show ?case using Cons.IH [OF q(2)] page_step_fixed [OF q(1)] by simp
qed simp

lemma page_mount_fixed: "page_mount k mode organization i data loading failed cache = Inr p \<Longrightarrow> pg_mode p = mode \<and> pg_organization p = organization"
  by (auto simp: page_mount_def dest!: map_sum_InrE)

text \<open>
  C19. Only complete values are saved, one save at a time: whatever happens on a page of a connector or of
  a secret, its form is pending exactly while one save is under way and never two are; every save that was
  sent could be built from values that were complete (an address; a value, where one is written); and
  a save of a new resource posts it under a valid identifier.
\<close>

theorem page_saves_are_valid:
  assumes c: "page_mount connector_kind mode organization i data loading failed cache = Inr c0" "page_run connector_kind returnTo cs c0 = Inr c"
    and s: "page_mount secret_kind mode' organization' i' data' loading' failed' cache' = Inr s0" "page_run secret_kind returnTo' ss s0 = Inr s"
  shows "(fh_saves (pg_hook c) \<le> 1 \<and> (fh_pending (pg_hook c) \<longleftrightarrow> fh_saves (pg_hook c) = 1)
      \<and> (\<forall>(r, v) \<in> set (pg_sent c). trim (cf_baseUrl v) \<noteq> [] \<and> (\<exists>q. save_connector mode r organization v = Inr q
          \<and> (mode = Mode_create \<longrightarrow> rq_method q = POST \<and> rq_query q = [(''connectorId'', cf_connectorId v)] \<and> isValidIdentifier (cf_connectorId v)))))
    \<and> (fh_saves (pg_hook s) \<le> 1 \<and> (fh_pending (pg_hook s) \<longleftrightarrow> fh_saves (pg_hook s) = 1)
      \<and> (\<forall>(r, v) \<in> set (pg_sent s). (mode' = Mode_create \<or> sf_rotate v \<longrightarrow> sf_value v \<noteq> []) \<and> (\<exists>q. save_secret mode' r organization' v = Inr q
          \<and> (mode' = Mode_create \<longrightarrow> rq_method q = POST \<and> rq_query q = [(''secretId'', sf_secretId v)] \<and> isValidIdentifier (sf_secretId v)))))"
proof -
  have ok: "page_ok connector_kind c" "page_ok secret_kind s" using page_run_ok page_mount_ok c s by blast+
  have m: "pg_mode c = mode" "pg_organization c = organization" "pg_mode s = mode'" "pg_organization s = organization'"
    using page_run_fixed page_mount_fixed c s by metis+
  have "trim (cf_baseUrl v) \<noteq> [] \<and> (\<exists>q. save_connector mode r organization v = Inr q
      \<and> (mode = Mode_create \<longrightarrow> rq_method q = POST \<and> rq_query q = [(''connectorId'', cf_connectorId v)] \<and> isValidIdentifier (cf_connectorId v)))"
    if "(r, v) \<in> set (pg_sent c)" for r v
  proof -
    have v: "connector_canSubmit mode v" "\<exists>q. save_connector mode r organization v = Inr q"
      using ok(1) that m by (auto simp: page_ok_def connector_kind_def)
    then show ?thesis using connectors.create_names_validly [of v r organization]
      by (cases "mode = Mode_create") (auto simp: connector_canSubmit_def CONNECTOR_CONFIG_VALID_def)
  qed
  moreover have "(mode' = Mode_create \<or> sf_rotate v \<longrightarrow> sf_value v \<noteq> []) \<and> (\<exists>q. save_secret mode' r organization' v = Inr q
      \<and> (mode' = Mode_create \<longrightarrow> rq_method q = POST \<and> rq_query q = [(''secretId'', sf_secretId v)] \<and> isValidIdentifier (sf_secretId v)))"
    if "(r, v) \<in> set (pg_sent s)" for r v
  proof -
    have v: "secret_canSubmit mode' v" "\<exists>q. save_secret mode' r organization' v = Inr q"
      using ok(2) that m by (auto simp: page_ok_def secret_kind_def)
    then show ?thesis using secrets.create_names_validly [of v r organization']
      by (cases "mode' = Mode_create") (auto simp: secret_canSubmit_def Let_def)
  qed
  moreover have "fh_saves (pg_hook c) \<le> 1" "fh_pending (pg_hook c) \<longleftrightarrow> fh_saves (pg_hook c) = 1"
    "fh_saves (pg_hook s) \<le> 1" "fh_pending (pg_hook s) \<longleftrightarrow> fh_saves (pg_hook s) = 1"
    using ok by (simp_all add: page_ok_def)
  ultimately show ?thesis by blast
qed

section \<open>Back to a fresh list\<close>

lemma invalidate_keys: "fold invalidateQueries ks cache = map (\<lambda>e. if ce_prefix e \<in> set ks then e\<lparr>ce_stale := True\<rparr> else e) cache"
  by (induction ks arbitrary: cache) (auto simp: invalidateQueries_def)

lemma remove_keys: "fold removeQueries ks cache = filter (\<lambda>e. ce_prefix e \<notin> set ks) cache"
  by (induction ks arbitrary: cache) (auto simp: removeQueries_def intro: filter_cong)

text \<open>
  A successful save leads back to fresh data: when the answer to a save is a success, the page goes
  to the return path; no entry of the cache holds a single record of this kind any more, every entry
  that holds one of its lists is stale, and all other entries are as they were. When the save fails,
  the page stays and the cache is untouched.
\<close>

theorem saved_page_refreshes:
  assumes "0 < fh_saves (pg_hook p)" and step: "page_step k returnTo (Save_answer out) p = Inr p'"
  shows "(out = Answered None \<longrightarrow> pg_pushed p' = pg_pushed p @ [returnTo] \<and> \<not> pg_mounted p'
      \<and> (\<forall>e \<in> set (pg_cache p'). ce_prefix e \<notin> set (fk_detailKeys k) \<and> (ce_prefix e \<in> set (fk_listKeys k) \<longrightarrow> ce_stale e))
      \<and> filter (\<lambda>e. ce_prefix e \<notin> set (fk_listKeys k @ fk_detailKeys k)) (pg_cache p')
        = filter (\<lambda>e. ce_prefix e \<notin> set (fk_listKeys k @ fk_detailKeys k)) (pg_cache p))
    \<and> (out \<noteq> Answered None \<longrightarrow> pg_pushed p' = pg_pushed p \<and> pg_mounted p' = pg_mounted p \<and> pg_cache p' = pg_cache p
      \<and> pg_values p' = pg_values p \<and> \<not> fh_pending (pg_hook p') \<and> fh_error (pg_hook p') \<noteq> None)"
proof -
  have c: "pg_pushed (page_commit k q) = pg_pushed q" "pg_mounted (page_commit k q) = pg_mounted q" "pg_cache (page_commit k q) = pg_cache q"
    "pg_values (page_commit k q) = pg_values q" "pg_hook (page_commit k q) = pg_hook q" for q :: "('a, 'b) form_page"
    by (simp_all add: page_commit_def)
  have p': "p' = page_commit k (page_saved k returnTo out p)" using step by (simp add: page_step_def)
  have err: "out \<noteq> Answered None \<Longrightarrow> fh_error (saveEnds f out h) \<noteq> None" for f h
    by (auto simp: saveEnds_def Let_def split: outcome.splits option.splits)
  have "filter (\<lambda>e. ce_prefix e \<notin> set (fk_listKeys k @ fk_detailKeys k)) (refresh_cache k cache)
      = filter (\<lambda>e. ce_prefix e \<notin> set (fk_listKeys k @ fk_detailKeys k)) cache" for cache
    by (induction cache) (auto simp: refresh_cache_def invalidate_keys remove_keys)
  moreover have "\<forall>e \<in> set (refresh_cache k cache). ce_prefix e \<notin> set (fk_detailKeys k) \<and> (ce_prefix e \<in> set (fk_listKeys k) \<longrightarrow> ce_stale e)" for cache
    by (auto simp: refresh_cache_def invalidate_keys remove_keys split: if_splits)
  ultimately show ?thesis
    unfolding p' c using assms(1) err by (simp add: page_saved_def goBackAndRefresh_def goBack_leaves hook_counts Let_def)
qed

section \<open>Samples\<close>

definition blank_secret :: secret_form_values where
  "blank_secret = \<lparr>sf_secretId = [], sf_displayName = [], sf_annotations = [], sf_value = [], sf_rotate = True, sf_scope = []\<rparr>"

definition new_secret_page :: "(secret, secret_form_values) form_page" where
  "new_secret_page =
     \<lparr>pg_mode = Mode_create, pg_organization = ''acme'', pg_id = [], pg_mounted = True, pg_data = None, pg_loading = False, pg_loadFailed = False,
      pg_values = blank_secret, pg_initial = blank_secret, pg_confirmOpen = False, pg_hook = form_mount, pg_sent = [],
      pg_reported = False, pg_unloadAsks = False, pg_bypass = False, pg_pushed = [],
      pg_cache = [\<lparr>ce_prefix = (''get'', SECRETS_PATH), ce_rest = ''acme'', ce_stale = False\<rparr>]\<rparr>"

definition filled_secret :: secret_form_values where
  "filled_secret = blank_secret\<lparr>sf_secretId := ''key'', sf_value := ''v''\<rparr>"

lemma new_secret_mount:
  "page_mount secret_kind Mode_create ''acme'' [] None False False [\<lparr>ce_prefix = (''get'', SECRETS_PATH), ce_rest = ''acme'', ce_stale = False\<rparr>]
    = Inr new_secret_page"
  by (simp add: page_mount_def secret_kind_def seedSecretValues_def secretSpaceSlug_def truthy_def annotationsToEntries_def or_default_def
      new_secret_page_def blank_secret_def secret_valuesEqual_iff)

lemma secret_kind_fields:
  "fk_equal secret_kind a b \<longleftrightarrow> a = b" "fk_canSubmit secret_kind = secret_canSubmit" "fk_save secret_kind = save_secret"
  by (simp_all add: secret_kind_def secret_valuesEqual_iff)

lemma filled_secret_run:
  "page_run secret_kind ''/back'' [Patch (\<lambda>_. filled_secret)] new_secret_page = Inr (new_secret_page\<lparr>pg_values := filled_secret, pg_reported := True, pg_unloadAsks := True\<rparr>)"
  by (simp add: page_step_def form_shown_def new_secret_page_def page_commit_def page_dirty_def secret_kind_fields filled_secret_def blank_secret_def)

lemma filled_secret_submits: "secret_canSubmit Mode_create filled_secret"
  by (simp add: secret_canSubmit_def filled_secret_def blank_secret_def isValidIdentifier_def lower_alnum_def is_digit_def Let_def)

lemma submitted_secret_run:
  "\<exists>p. page_run secret_kind ''/back'' [Patch (\<lambda>_. filled_secret), Submit_form] new_secret_page = Inr p \<and> pg_sent p = [(None, filled_secret)]
     \<and> fh_saves (pg_hook p) = 1 \<and> pg_mounted p \<and> pg_pushed p = [] \<and> pg_cache p = pg_cache new_secret_page"
proof -
  let ?q = "new_secret_page\<lparr>pg_values := filled_secret, pg_reported := True, pg_unloadAsks := True\<rparr>"
  have q: "pg_mode ?q = Mode_create" "pg_mounted ?q" "pg_values ?q = filled_secret" "pg_hook ?q = form_mount" "pg_sent ?q = []" "pg_pushed ?q = []"
    "pg_cache ?q = pg_cache new_secret_page"
    by (simp_all add: new_secret_page_def)
  have "page_step secret_kind ''/back'' (Patch (\<lambda>_. filled_secret)) new_secret_page = Inr ?q" using filled_secret_run by simp
  then have "page_run secret_kind ''/back'' [Patch (\<lambda>_. filled_secret), Submit_form] new_secret_page
      = page_step secret_kind ''/back'' Submit_form ?q"
    by (cases "page_step secret_kind ''/back'' Submit_form ?q") simp_all
  moreover obtain r where "save_secret Mode_create (page_record ?q) (pg_organization ?q) filled_secret = Inr r"
    using secrets.create_posts by blast
  ultimately have save: "save_secret Mode_create (page_record ?q) (pg_organization ?q) filled_secret = Inr r"
    and run: "page_run secret_kind ''/back'' [Patch (\<lambda>_. filled_secret), Submit_form] new_secret_page = page_step secret_kind ''/back'' Submit_form ?q"
    by blast+
  have step: "page_step secret_kind ''/back'' Submit_form ?q = Inr (page_commit secret_kind (page_submit secret_kind ?q))"
    by (simp add: page_step_def form_shown_def new_secret_page_def)
  have "page_record ?q = None" "\<not> fh_pending form_mount" by (simp_all add: page_record_def new_secret_page_def form_mount_def)
  then have "page_submit secret_kind ?q = ?q\<lparr>pg_hook := mutate form_mount, pg_sent := [(None, filled_secret)]\<rparr>"
    using save filled_secret_submits unfolding page_submit_def secret_kind_fields q by simp
  then show ?thesis unfolding run step by (simp add: page_commit_def form_mount_def mutate_def new_secret_page_def)
qed

text \<open>The witness: a filled form, its cancel button and the confirmed discard.\<close>

lemma leaving_asks_first_witness:
  "\<exists>p p'. page_run secret_kind ''/back'' [Patch (\<lambda>_. filled_secret), Cancel_click] new_secret_page = Inr p \<and> pg_mounted p
     \<and> page_step secret_kind ''/back'' Discard_changes p = Inr p' \<and> \<not> pg_mounted p' \<and> pg_confirmOpen p \<and> pg_unloadAsks p"
proof -
  let ?q = "new_secret_page\<lparr>pg_values := filled_secret, pg_reported := True, pg_unloadAsks := True\<rparr>"
  let ?p = "?q\<lparr>pg_confirmOpen := True\<rparr>"
  have s: "page_step secret_kind ''/back'' (Patch (\<lambda>_. filled_secret)) new_secret_page = Inr ?q" using filled_secret_run by simp
  have d: "page_dirty secret_kind ?q" "page_dirty secret_kind ?p" "form_shown ?p" "pg_mounted ?p"
    by (simp_all add: page_dirty_def secret_kind_fields new_secret_page_def filled_secret_def blank_secret_def form_shown_def)
  have "page_step secret_kind ''/back'' Cancel_click ?q = Inr ?p"
    using d by (simp add: page_step_def form_shown_def page_cancel_def page_commit_def new_secret_page_def form_mount_def)
  with s have run: "page_run secret_kind ''/back'' [Patch (\<lambda>_. filled_secret), Cancel_click] new_secret_page = Inr ?p" by simp
  obtain p' where p': "page_step secret_kind ''/back'' Discard_changes ?p = Inr p'" "\<not> pg_mounted p'"
    using d(3,4) by (simp add: page_step_def page_discard_def goBack_leaves page_commit_def)
  from leaving_asks_first [OF new_secret_mount run d(4) p'] d(2) have "pg_confirmOpen ?p" "pg_unloadAsks ?p" by auto
  with run d(4) p' show ?thesis by blast
qed

text \<open>The witness: a new secret is posted.\<close>

lemma page_saves_are_valid_witness:
  "\<exists>p q. page_run secret_kind ''/back'' [Patch (\<lambda>_. filled_secret), Submit_form] new_secret_page = Inr p \<and> pg_sent p = [(None, filled_secret)]
     \<and> save_secret Mode_create None ''acme'' filled_secret = Inr q \<and> rq_query q = [(''secretId'', ''key'')] \<and> fh_pending (pg_hook p)"
proof -
  obtain p where p: "page_run secret_kind ''/back'' [Patch (\<lambda>_. filled_secret), Submit_form] new_secret_page = Inr p"
      "pg_sent p = [(None, filled_secret)]" "fh_saves (pg_hook p) = 1"
    using submitted_secret_run by blast
  obtain c0 where c: "page_mount connector_kind Mode_create ''acme'' [] None False False [] = Inr c0"
    by (simp add: page_mount_def connector_kind_def seedConnectorValues_def connectorSpaceSlug_def truthy_def)
  have "page_run connector_kind ''/back'' [] c0 = Inr c0" by simp
  from page_saves_are_valid [OF c this new_secret_mount p(1)] p(2,3)
  have "\<exists>q. save_secret Mode_create None ''acme'' filled_secret = Inr q \<and> rq_query q = [(''secretId'', sf_secretId filled_secret)]"
    "fh_pending (pg_hook p)" by auto
  moreover have "sf_secretId filled_secret = ''key''" by (simp add: filled_secret_def)
  ultimately show ?thesis using p by auto
qed

text \<open>The witness: this save succeeds, and the list that was in the cache is stale.\<close>

lemma saved_page_refreshes_witness:
  "\<exists>p p'. page_run secret_kind ''/back'' [Patch (\<lambda>_. filled_secret), Submit_form] new_secret_page = Inr p
     \<and> page_step secret_kind ''/back'' (Save_answer (Answered None)) p = Inr p' \<and> pg_pushed p' = [''/back'']
     \<and> (\<forall>e \<in> set (pg_cache p'). ce_prefix e \<noteq> (''get'', SECRET_PATH))"
proof -
  obtain p where p: "page_run secret_kind ''/back'' [Patch (\<lambda>_. filled_secret), Submit_form] new_secret_page = Inr p"
      "fh_saves (pg_hook p) = 1" "pg_pushed p = []"
    using submitted_secret_run by blast
  obtain p' where p': "page_step secret_kind ''/back'' (Save_answer (Answered None)) p = Inr p'" by (simp add: page_step_def)
  have "(''get'', SECRET_PATH) \<in> set (fk_detailKeys secret_kind)" by (simp add: secret_kind_def)
  moreover have "pg_pushed p' = [''/back'']" "\<forall>e \<in> set (pg_cache p'). ce_prefix e \<notin> set (fk_detailKeys secret_kind)"
    using saved_page_refreshes [OF _ p'] p(2,3) by auto
  ultimately show ?thesis using p(1) p' by metis
qed

section \<open>Where edits are lost or overwritten\<close>

text \<open>The back link of the header leaves a dirty form without a question: it sets the same \<open>bypass\<close> as a confirmed cancel.\<close>

lemma back_link_drops_edits:
  "pg_mounted p \<Longrightarrow> form_shown p \<Longrightarrow> \<exists>p'. page_step k returnTo Back_link p = Inr p' \<and> \<not> pg_mounted p' \<and> pg_values p' = pg_values p"
  by (simp add: page_step_def commit_mounted goBack_leaves) (simp add: page_commit_def goBack_def page_push_def Let_def)

text \<open>What is typed while a save is under way is not saved, and its success leaves the page.\<close>

lemma edits_during_save_are_dropped:
  assumes "pg_mounted p" "form_shown p" "fh_pending (pg_hook p)" "fh_saves (pg_hook p) = 1"
  shows "\<exists>p'. page_run k returnTo [Patch f, Save_answer (Answered None)] p = Inr p'
    \<and> \<not> pg_mounted p' \<and> pg_values p' = f (pg_values p) \<and> pg_sent p' = pg_sent p"
  using assms
  by (simp add: page_step_def page_saved_def goBackAndRefresh_def goBack_def page_push_def page_commit_def bind_result_def Let_def)

text \<open>A save that ends after the page was left still goes to the return path, wherever the user is by then.\<close>

lemma late_save_navigates:
  assumes "pg_mounted p" "\<not> pg_bypass p" "fh_saves (pg_hook p) = 1"
  shows "\<exists>p'. page_run k returnTo [Follow_link ''/elsewhere'' True, Save_answer (Answered None)] p = Inr p'
    \<and> pg_pushed p' = pg_pushed p @ [''/elsewhere'', returnTo]"
  using assms
  by (simp add: page_step_def page_saved_def goBackAndRefresh_def goBack_def page_push_def page_commit_def bind_result_def Let_def)

text \<open>
  When the record changes on the server and is fetched again under an open form, the form keeps its values
  and saves them with the new tag, so that the server takes them for a change of the new version.
\<close>

lemma old_values_with_new_tag:
  assumes "pg_mode p = Mode_edit" "pg_data p = Some r" "so_name r = so_name r'" "so_name r \<noteq> None"
    and "page_query secret_kind (Some r') False False p = Inr p'"
  shows "pg_values p' = pg_values p \<and> pg_initial p' = pg_initial p \<and> page_record p' = Some r'
    \<and> (truthy (so_etag r') \<longrightarrow>
        (''etag'', JString (the (so_etag r'))) \<in> set (case buildSecretUpdateBody (pg_values p') (Option.bind (page_record p') so_etag) of JObject b \<Rightarrow> b | _ \<Rightarrow> []))"
proof -
  have "page_key secret_kind (p\<lparr>pg_data := Some r', pg_loading := False, pg_loadFailed := False\<rparr>) = page_key secret_kind p"
    using assms(1-4) by (simp add: page_key_def page_record_def secret_kind_def stored.truncate_def)
  then have "p' = page_commit secret_kind (p\<lparr>pg_data := Some r', pg_loading := False, pg_loadFailed := False\<rparr>)"
    using assms(5) by (simp add: page_query_def form_shown_def)
  then show ?thesis using assms(1) by (simp add: page_commit_def page_record_def buildSecretUpdateBody_def)
qed

text \<open>A failed refetch hides the form, with its unsaved edits, behind the load error.\<close>

lemma failed_refetch_hides_the_form:
  assumes "pg_mode p = Mode_edit" and "page_query k (pg_data p) False True p = Inr p'"
  shows "\<not> form_shown p' \<and> pg_values p' = pg_values p"
proof -
  have "page_key k (p\<lparr>pg_data := pg_data p, pg_loading := False, pg_loadFailed := True\<rparr>) = page_key k p"
    by (simp add: page_key_def page_record_def)
  then show ?thesis using assms by (auto simp: page_query_def page_commit_def form_shown_def Let_def split: if_splits)
qed

end
