(* ===== verification/Account_Console.thy ===== *)
theory Account_Console
  imports Prelude "HOL-Library.Multiset"
begin

text \<open>
  The account console: the personal-information form over the attributes that the identity provider
  describes (\<^verbatim>\<open>apps/account-console/src/user-profile/utils.ts\<close>, \<^verbatim>\<open>user-profile/UserProfileFields.tsx\<close>,
  \<^verbatim>\<open>pages/personal-info.tsx\<close>), the list of devices (\<^verbatim>\<open>pages/device-activity.tsx\<close>), the requests
  (\<^verbatim>\<open>api/account.ts\<close>) and the addresses they go to (\<^verbatim>\<open>env.ts\<close>). The translation \<open>t\<close> of i18next
  and the form library are parameters; of the latter the code relies on this: the values it hands back
  on submit are those it was given, changed by the fields, with \<open>undefined\<close> for disabled ones.

  It is proved what a profile that is loaded and saved untouched posts, and when it is unchanged, that a
  server error comes to the field of its attribute and to no other, what the page shows of a save, that every attribute of a known group is drawn once,
  and that the current device and session come first.
\<close>

section \<open>Attribute names and field paths\<close>

definition ROOT_ATTRIBUTES :: "string list" where
  "ROOT_ATTRIBUTES = [''username'', ''firstName'', ''lastName'', ''email'']"

definition isRootAttribute :: "string option \<Rightarrow> bool" where
  "isRootAttribute attr \<longleftrightarrow> truthy attr \<and> the attr \<in> set ROOT_ATTRIBUTES"

text \<open>\<open>s.replaceAll(p, r)\<close> for a non-empty \<open>p\<close>.\<close>

function replaceAll :: "string \<Rightarrow> string \<Rightarrow> string \<Rightarrow> string" where
  "replaceAll p r s =
     (if p = [] \<or> s = [] then s
      else if startsWith s p then r @ replaceAll p r (drop (length p) s)
      else hd s # replaceAll p r (tl s))"
  by pat_completeness auto
termination
  by (relation "measure (\<lambda>(p, r, s). length s)") (auto simp: diff_less)

declare replaceAll.simps [simp del]

text \<open>The beer mug, as its UTF-8 bytes.\<close>

definition beer :: string where "beer = [CHR 0xF0, CHR 0x9F, CHR 0x8D, CHR 0xBA]"

definition beerify :: "string \<Rightarrow> string" where "beerify name = replaceAll ''.'' beer name"

definition debeerify :: "string \<Rightarrow> string" where "debeerify name = replaceAll beer ''.'' name"

definition fieldName :: "string option \<Rightarrow> string" where
  "fieldName name = (if isRootAttribute name then [] else ''attributes.'') @ beerify (or_default name [])"

section \<open>Labels\<close>

text \<open>\<open>text.includes('$' + '{')\<close>.\<close>

fun text_includes :: "string \<Rightarrow> string \<Rightarrow> bool" where
  "text_includes p [] = (p = [])"
| "text_includes p (c # s) = (startsWith (c # s) p \<or> text_includes p s)"

definition isBundleKey :: "string option \<Rightarrow> bool" where
  "isBundleKey text \<longleftrightarrow> (case text of None \<Rightarrow> False | Some s \<Rightarrow> text_includes [CHR ''$'', CHR 0x7B] s)"

text \<open>\<open>substring\<close> swaps its bounds where they are reversed; the first two characters are the marker's.\<close>

definition unWrap :: "string \<Rightarrow> string" where
  "unWrap key = (let a = min 2 (length key - 1); b = max 2 (length key - 1) in take (b - a) (drop a key))"

text \<open>\<open>a || b\<close>; a missing value is written into a template as \<open>undefined\<close>.\<close>

definition or_else :: "string option \<Rightarrow> string option \<Rightarrow> string option" where
  "or_else a b = (if truthy a then a else b)"

definition label_text :: "(string \<Rightarrow> string) \<Rightarrow> string option \<Rightarrow> string option \<Rightarrow> string option \<Rightarrow> string" where
  "label_text t text fallback pre =
     (let value = or_else text fallback;
          bundleKey = (if truthy value \<and> isBundleKey value then Some (unWrap (the value)) else value);
          key = (if truthy pre then Some (the pre @ ''.'' @ or_default bundleKey ''undefined'') else bundleKey)
      in t (or_default key []))"

section \<open>Attributes, groups and input types\<close>

record up_attribute =
  at_name :: string
  at_displayName :: "string option"
  at_required :: bool
  at_readOnly :: bool
  at_multivalued :: bool
  at_group :: "string option"
  at_inputType :: "string option"
  at_options :: "string list option"

record up_group =
  ug_name :: "string option"
  ug_displayHeader :: "string option"

record profile_metadata =
  pm_attributes :: "up_attribute list option"
  pm_groups :: "up_group list option"

definition labelAttribute :: "(string \<Rightarrow> string) \<Rightarrow> up_attribute \<Rightarrow> string" where
  "labelAttribute t a = label_text t (at_displayName a) (Some (at_name a)) None"

definition INPUT_TYPES :: "string list" where
  "INPUT_TYPES = [''text'', ''textarea'', ''select'', ''select-radiobuttons'', ''multiselect'', ''multiselect-checkboxes'',
     ''html5-email'', ''html5-tel'', ''html5-url'', ''html5-number'', ''html5-range'', ''html5-datetime-local'', ''html5-date'',
     ''html5-month'', ''html5-time'']"

definition determineInputType :: "up_attribute \<Rightarrow> string" where
  "determineInputType a =
     (if isRootAttribute (Some (at_name a)) then ''text''
      else case at_inputType a of None \<Rightarrow> ''text'' | Some i \<Rightarrow> if i \<in> set INPUT_TYPES then i else ''text'')"

definition isOptionType :: "string \<Rightarrow> bool" where
  "isOptionType i \<longleftrightarrow> i = ''select'' \<or> i = ''multiselect'' \<or> i = ''select-radiobuttons'' \<or> i = ''multiselect-checkboxes''"

definition htmlInputType :: "string \<Rightarrow> string" where
  "htmlInputType i = (if startsWith i ''html5-'' then drop (length ''html5-'') i else ''text'')"

definition attributeOptions :: "up_attribute \<Rightarrow> string list" where
  "attributeOptions a = or_default (at_options a) []"

definition orderedGroups :: "profile_metadata \<Rightarrow> up_group list" where
  "orderedGroups metadata = \<lparr>ug_name = None, ug_displayHeader = None\<rparr> # or_default (pm_groups metadata) []"

definition attributesForGroup :: "profile_metadata \<Rightarrow> string option \<Rightarrow> up_attribute list" where
  "attributesForGroup metadata groupName = filter (\<lambda>a. at_group a = groupName) (or_default (pm_attributes metadata) [])"

text \<open>What \<open>UserProfileFields\<close> draws: the sections with their headings and attributes; an empty group draws nothing.\<close>

definition profile_sections :: "(string \<Rightarrow> string) \<Rightarrow> profile_metadata \<Rightarrow> (string option \<times> up_attribute list) list" where
  "profile_sections t metadata =
     concat (map (\<lambda>g. let attrs = attributesForGroup metadata (ug_name g) in
         if attrs = [] then []
         else [(if truthy (ug_name g) then Some (label_text t (ug_displayHeader g) (ug_name g) None) else None, attrs)])
       (orderedGroups metadata))"

text \<open>Which control an attribute gets.\<close>

datatype profile_control = Multi_input | Textarea | Select bool "string list" | Radio "string list" | Checkboxes "string list" | Input string

definition profile_control_of :: "up_attribute \<Rightarrow> profile_control" where
  "profile_control_of a =
     (let i = determineInputType a in
      if at_multivalued a \<and> \<not> isOptionType i then Multi_input
      else if i = ''textarea'' then Textarea
      else if i = ''select'' \<or> i = ''multiselect'' then Select (i = ''multiselect'') (attributeOptions a)
      else if i = ''select-radiobuttons'' then Radio (attributeOptions a)
      else if i = ''multiselect-checkboxes'' then Checkboxes (attributeOptions a)
      else Input (htmlInputType i))"

section \<open>The form of the personal information\<close>

text \<open>What a field holds: a text, a list of texts, or \<open>undefined\<close>.\<close>

datatype field_value = Text string | Texts "string list" | Undefined

record user_info =
  ui_username :: "string option"
  ui_email :: "string option"
  ui_firstName :: "string option"
  ui_lastName :: "string option"
  ui_attributes :: "(string \<times> string list) list option"

record profile_values =
  pv_username :: "string option"
  pv_email :: "string option"
  pv_firstName :: "string option"
  pv_lastName :: "string option"
  pv_attributes :: "(string \<times> field_value) list option"

definition multivalued_names :: "profile_metadata option \<Rightarrow> string set" where
  "multivalued_names meta = set (map at_name (filter at_multivalued (or_default (Option.bind meta pm_attributes) [])))"

text \<open>\<open>o[k] = v\<close> on an object: the key \<open>__proto__\<close> makes no own property.\<close>

definition js_set :: "string \<Rightarrow> 'a \<Rightarrow> (string \<times> 'a) list \<Rightarrow> (string \<times> 'a) list" where
  "js_set k v obj = (if k = ''__proto__'' then obj else AList.update k v obj)"

fun load_attributes :: "string set \<Rightarrow> (string \<times> string list) list \<Rightarrow> (string \<times> field_value) list \<Rightarrow> (string \<times> field_value) list" where
  "load_attributes multivalued [] out = out"
| "load_attributes multivalued ((k, vals) # rest) out =
     load_attributes multivalued rest
       (js_set (beerify k) (if k \<in> multivalued then Texts vals else Text (case vals of [] \<Rightarrow> [] | v # _ \<Rightarrow> v)) out)"

definition load_profile :: "profile_metadata option \<Rightarrow> user_info \<Rightarrow> profile_values" where
  "load_profile meta info =
     \<lparr>pv_username = ui_username info, pv_email = ui_email info, pv_firstName = ui_firstName info, pv_lastName = ui_lastName info,
      pv_attributes = Some (load_attributes (multivalued_names meta) (or_default (ui_attributes info) []) [])\<rparr>"

definition field_texts :: "field_value \<Rightarrow> string list" where
  "field_texts v = filter (\<lambda>s. s \<noteq> []) (case v of Text s \<Rightarrow> [s] | Texts ss \<Rightarrow> ss | Undefined \<Rightarrow> [])"

fun save_attributes :: "(string \<times> field_value) list \<Rightarrow> (string \<times> string list) list \<Rightarrow> (string \<times> string list) list" where
  "save_attributes [] out = out"
| "save_attributes ((k, v) # rest) out =
     save_attributes rest (if v = Undefined then out else js_set (debeerify k) (field_texts v) out)"

text \<open>The body of the save; what is \<open>undefined\<close> is left out of the JSON text.\<close>

definition save_profile :: "profile_values \<Rightarrow> user_info" where
  "save_profile data =
     \<lparr>ui_username = pv_username data, ui_email = pv_email data, ui_firstName = pv_firstName data, ui_lastName = pv_lastName data,
      ui_attributes = Some (save_attributes (or_default (pv_attributes data) []) [])\<rparr>"

text \<open>What the form library hands back when nothing was typed: the values, \<open>undefined\<close> for the disabled fields, named by their paths.\<close>

definition unless_disabled :: "string set \<Rightarrow> string \<Rightarrow> 'a option \<Rightarrow> 'a option" where
  "unless_disabled disabled path v = (if path \<in> disabled then None else v)"

definition untouched :: "string set \<Rightarrow> profile_values \<Rightarrow> profile_values" where
  "untouched disabled v =
     \<lparr>pv_username = unless_disabled disabled ''username'' (pv_username v), pv_email = unless_disabled disabled ''email'' (pv_email v),
      pv_firstName = unless_disabled disabled ''firstName'' (pv_firstName v), pv_lastName = unless_disabled disabled ''lastName'' (pv_lastName v),
      pv_attributes = map_option (map (\<lambda>(k, x). (k, if ''attributes.'' @ k \<in> disabled then Undefined else x))) (pv_attributes v)\<rparr>"

text \<open>The rows of a list of texts, and what its controls do.\<close>

definition toArray :: "field_value \<Rightarrow> string list" where
  "toArray v = (case v of Texts ss \<Rightarrow> ss | Text s \<Rightarrow> if s = [] then [] else [s] | Undefined \<Rightarrow> [])"

definition multi_rows :: "field_value \<Rightarrow> string list" where
  "multi_rows v = (let values = toArray v in if length values > 0 then values else [[]])"

definition multi_change :: "nat \<Rightarrow> string \<Rightarrow> field_value \<Rightarrow> field_value" where
  "multi_change i s v = Texts ((multi_rows v)[i := s])"

definition multi_remove :: "nat \<Rightarrow> field_value \<Rightarrow> field_value" where
  "multi_remove i v = (let rows = multi_rows v in if length rows > 1 then Texts (take i rows @ drop (Suc i) rows) else v)"

definition multi_add :: "field_value \<Rightarrow> field_value" where
  "multi_add v = (let rows = multi_rows v in if last rows = [] then v else Texts (rows @ [[]]))"

definition toggle_option :: "string \<Rightarrow> bool \<Rightarrow> field_value \<Rightarrow> field_value" where
  "toggle_option opt checked v =
     (let selected = toArray v in Texts (if checked then selected @ [opt] else filter (\<lambda>x. x \<noteq> opt) selected))"

section \<open>Errors of the server\<close>

text \<open>A parameter of a message is a text or anything else; \<open>t\<close> is given the key, the parameters and the default.\<close>

datatype server_param = PText string | POther

record server_error =
  se_field :: "string option"
  se_errorMessage :: "string option"
  se_params :: "server_param list option"

record error_body =
  eb_errors :: "server_error list option"
  eb_self :: server_error

type_synonym translate = "string option \<Rightarrow> server_param list \<Rightarrow> string option \<Rightarrow> string"

definition translate_param :: "translate \<Rightarrow> server_param \<Rightarrow> server_param" where
  "translate_param t p = (case p of PText s \<Rightarrow> if isBundleKey (Some s) then PText (t (Some (unWrap s)) [] None) else p | POther \<Rightarrow> p)"

definition applyServerErrors :: "translate \<Rightarrow> error_body \<Rightarrow> (string \<times> string) list" where
  "applyServerErrors t body =
     map (\<lambda>e. let params = map (translate_param t) (or_default (se_params e) []);
                 key = (if isBundleKey (se_errorMessage e) then map_option unWrap (se_errorMessage e) else se_errorMessage e)
              in (fieldName (se_field e), t key params (or_else (se_errorMessage e) (se_field e))))
       (or_default (eb_errors body) [eb_self body])"

section \<open>Devices\<close>

record device_session =
  dv_id :: string
  dv_sessionCurrent :: bool

record device =
  de_id :: "string option"
  de_current :: bool
  de_sessions :: "device_session list option"

text \<open>\<open>findIndex\<close>, \<open>splice\<close> and \<open>unshift\<close>: the first that fits comes to the top.\<close>

fun find_index :: "('a \<Rightarrow> bool) \<Rightarrow> 'a list \<Rightarrow> nat option" where
  "find_index f [] = None"
| "find_index f (x # xs) = (if f x then Some 0 else map_option Suc (find_index f xs))"

definition to_top :: "('a \<Rightarrow> bool) \<Rightarrow> 'a list \<Rightarrow> 'a list" where
  "to_top f xs =
     (case find_index f xs of
        Some (Suc i) \<Rightarrow> xs ! Suc i # (take (Suc i) xs @ drop (Suc (Suc i)) xs)
      | _ \<Rightarrow> xs)"

definition moveCurrentToTop :: "device list \<Rightarrow> device list" where
  "moveCurrentToTop devices =
     (case to_top de_current devices of
        [] \<Rightarrow> []
      | cur # rest \<Rightarrow>
          (case de_sessions cur of
             None \<Rightarrow> cur # rest
           | Some sessions \<Rightarrow> cur\<lparr>de_sessions := Some (to_top dv_sessionCurrent sessions)\<rparr> # rest))"

definition hasOthers :: "device list option \<Rightarrow> bool" where
  "hasOthers devices \<longleftrightarrow>
     length (or_default devices []) > 1
     \<or> (case devices of Some (d # _) \<Rightarrow> length (or_default (de_sessions d) []) > 1 | _ \<Rightarrow> False)"

section \<open>Requests and addresses\<close>

record environment =
  en_authServerUrl :: "string option"
  en_authUrl :: "string option"
  en_serverBaseUrl :: "string option"
  en_realm :: string
  en_clientId :: string
  en_baseUrl :: "string option"
  en_locale :: "string option"

text \<open>\<open>parse\<close> is \<open>JSON.parse\<close> of the injected text, \<open>None\<close> where it throws.\<close>

definition default_environment :: environment where
  "default_environment =
     \<lparr>en_authServerUrl = Some ''http://localhost:8089'', en_authUrl = None, en_serverBaseUrl = Some ''http://localhost:8089'',
      en_realm = ''pivoxdev'', en_clientId = ''account-console'', en_baseUrl = None, en_locale = None\<rparr>"

definition readEnvironment :: "(string \<Rightarrow> environment option) \<Rightarrow> string option \<Rightarrow> environment" where
  "readEnvironment parse text = (if truthy text then or_default (parse (the text)) default_environment else default_environment)"

definition trimTrailingSlash :: "string \<Rightarrow> string" where
  "trimTrailingSlash url = rev (dropWhile (\<lambda>c. c = CHR ''/'') (rev url))"

definition authServerUrl :: "environment \<Rightarrow> string" where
  "authServerUrl env =
     trimTrailingSlash (or_default (en_authServerUrl env) (or_default (en_authUrl env) (or_default (en_serverBaseUrl env) [])))"

definition accountApiBase :: "environment \<Rightarrow> string" where
  "accountApiBase env =
     trimTrailingSlash (or_default (en_serverBaseUrl env) (authServerUrl env)) @ ''/realms/'' @ en_realm env @ ''/account''"

definition resources_path :: "environment \<Rightarrow> string" where
  "resources_path env = authServerUrl env @ ''/resources/'' @ en_realm env @ ''/account/{{lng}}''"

definition logout_redirect :: "environment \<Rightarrow> string" where
  "logout_redirect env =
     (if truthy (en_baseUrl env) then the (en_baseUrl env) else authServerUrl env @ ''/realms/'' @ en_realm env @ ''/account/'')"

record account_request =
  ar_url :: string
  ar_method :: string
  ar_headers :: "(string \<times> string) list"
  ar_body :: "string option"

definition account_call :: "environment \<Rightarrow> string \<Rightarrow> string \<Rightarrow> string \<Rightarrow> string option \<Rightarrow> account_request" where
  "account_call env fresh meth path body =
     \<lparr>ar_url = accountApiBase env @ path, ar_method = meth,
      ar_headers = [(''Authorization'', ''Bearer '' @ fresh), (''Accept'', ''application/json'')]
        @ (if truthy body then [(''Content-Type'', ''application/json'')] else []),
      ar_body = body\<rparr>"

text \<open>
  The answer: whether it is a success, its status and its text. A failure is thrown with what the text holds
  (\<open>None\<close> for an empty text, the text itself where it is no JSON); a success is parsed, and throws where
  it cannot be.
\<close>

datatype 'j response_data = Json 'j | Raw string

datatype 'j account_answer = Done "'j option" | Request_error nat "'j response_data option" | Syntax_error

definition request_result :: "(string \<Rightarrow> 'j option) \<Rightarrow> bool \<Rightarrow> nat \<Rightarrow> string \<Rightarrow> 'j account_answer" where
  "request_result parse success status text =
     (if \<not> success
      then Request_error status
        (if text = [] then None else case parse text of Some j \<Rightarrow> Some (Json j) | None \<Rightarrow> Some (Raw text))
      else if text = [] then Done None
      else case parse text of Some j \<Rightarrow> Done (Some j) | None \<Rightarrow> Syntax_error)"

definition deleteSession_path :: "string option \<Rightarrow> string" where
  "deleteSession_path i = (if truthy i then ''/sessions/'' @ the i else ''/sessions'')"

section \<open>Escaped names read back\<close>

lemma beerify_simps [simp]:
  "beerify [] = []" "beerify (CHR ''.'' # n) = beer @ beerify n" "c \<noteq> CHR ''.'' \<Longrightarrow> beerify (c # n) = c # beerify n"
  by (simp_all add: beerify_def replaceAll.simps [of _ _ "[]"] replaceAll.simps [of _ _ "_ # _"])

lemma beer_bytes: "beer = CHR 0xF0 # [CHR 0x9F, CHR 0x8D, CHR 0xBA]" "beer \<noteq> []"
  by (simp_all add: beer_def)

lemma debeerify_simps [simp]:
  "debeerify [] = []" "debeerify (beer @ s) = CHR ''.'' # debeerify s" "\<not> startsWith (c # s) beer \<Longrightarrow> debeerify (c # s) = c # debeerify s"
proof -
  show "debeerify []= []" by (simp add: debeerify_def replaceAll.simps)
  show "debeerify (beer @ s) = CHR ''.'' # debeerify s"
    unfolding debeerify_def by (subst replaceAll.simps) (simp add: beer_bytes(2))
  show "\<not> startsWith (c # s) beer \<Longrightarrow> debeerify (c # s) = c # debeerify s"
    unfolding debeerify_def by (subst replaceAll.simps) (simp add: beer_bytes(2))
qed

lemma starts_through_beer:
  "startsWith (beerify s) p \<Longrightarrow> CHR ''.'' \<notin> set p \<Longrightarrow> CHR 0xF0 \<notin> set p \<Longrightarrow> startsWith s p"
proof (induction p arbitrary: s)
  case (Cons a p)
  then show ?case by (cases s; cases "hd s = CHR ''.''") (auto simp: beer_bytes(1))
qed simp

lemma debeerify_beerify: "\<not> text_includes beer n \<Longrightarrow> debeerify (beerify n) = n"
proof (induction n)
  case (Cons c n)
  show ?case
  proof (cases "c = CHR ''.''")
    case False
    have "\<not> startsWith (c # beerify n) beer"
    proof
      assume "startsWith (c # beerify n) beer"
      then have "c = CHR 0xF0" "startsWith (beerify n) ([CHR 0x9F, CHR 0x8D, CHR 0xBA])" by (simp_all add: beer_bytes(1))
      then have "startsWith (c # n) beer" using starts_through_beer [of n "[CHR 0x9F, CHR 0x8D, CHR 0xBA]"] by (simp add: beer_bytes(1))
      with Cons.prems show False by simp
    qed
    with False Cons show ?thesis by simp
  qed (use Cons in simp)
qed simp

lemma beerify_no_dot: "CHR ''.'' \<notin> set (beerify n)"
proof (induction n)
  case (Cons c n)
  then show ?case by (cases "c = CHR ''.''") (simp_all add: beer_def)
qed simp

lemma beerify_plain: "CHR ''.'' \<notin> set n \<Longrightarrow> beerify n = n"
  by (induction n) auto

section \<open>A profile that is loaded and saved\<close>

lemma load_attributes_list:
  "distinct (map fst out @ map (beerify \<circ> fst) entries) \<Longrightarrow> ''__proto__'' \<notin> (beerify \<circ> fst) ` set entries \<Longrightarrow>
     load_attributes mv entries out
     = out @ map (\<lambda>(k, vals). (beerify k, if k \<in> mv then Texts vals else Text (case vals of [] \<Rightarrow> [] | v # _ \<Rightarrow> v))) entries"
proof (induction entries arbitrary: out)
  case (Cons e entries)
  obtain k vals where e: "e = (k, vals)" by fastforce
  let ?v = "if k \<in> mv then Texts vals else Text (case vals of [] \<Rightarrow> [] | v # _ \<Rightarrow> v)"
  have "js_set (beerify k) ?v out = out @ [(beerify k, ?v)]" using Cons.prems e by (auto simp: js_set_def update_append_new)
  moreover have "load_attributes mv entries (out @ [(beerify k, ?v)]) = (out @ [(beerify k, ?v)])
      @ map (\<lambda>(k, vals). (beerify k, if k \<in> mv then Texts vals else Text (case vals of [] \<Rightarrow> [] | v # _ \<Rightarrow> v))) entries"
    using Cons.prems e by (intro Cons.IH) auto
  ultimately show ?case by (simp add: e)
qed simp

lemma save_attributes_list:
  "distinct (map fst out @ map (debeerify \<circ> fst) raw) \<Longrightarrow> ''__proto__'' \<notin> (debeerify \<circ> fst) ` set raw \<Longrightarrow>
     save_attributes raw out = out @ map (\<lambda>(k, v). (debeerify k, field_texts v)) (filter (\<lambda>(k, v). v \<noteq> Undefined) raw)"
proof (induction raw arbitrary: out)
  case (Cons e raw)
  obtain k v where e: "e = (k, v)" by fastforce
  show ?case
  proof (cases "v = Undefined")
    case True
    with Cons show ?thesis by (simp add: e)
  next
    case False
    have "js_set (debeerify k) (field_texts v) out = out @ [(debeerify k, field_texts v)]"
      using Cons.prems e by (auto simp: js_set_def update_append_new)
    moreover have "save_attributes raw (out @ [(debeerify k, field_texts v)]) = (out @ [(debeerify k, field_texts v)])
        @ map (\<lambda>(k, v). (debeerify k, field_texts v)) (filter (\<lambda>(k, v). v \<noteq> Undefined) raw)"
      using Cons.prems e by (intro Cons.IH) auto
    ultimately show ?thesis using False by (simp add: e)
  qed
qed simp

text \<open>
  What an attribute keeps on its way through the form: its values that are not empty, all of them
  where it is declared multivalued, else the first one only.
\<close>

definition kept_texts :: "profile_metadata option \<Rightarrow> string \<times> string list \<Rightarrow> string \<times> string list" where
  "kept_texts meta e = (fst e, filter (\<lambda>s. s \<noteq> []) (if fst e \<in> multivalued_names meta then snd e else take 1 (snd e)))"

text \<open>
  C21. What a profile that is loaded and saved untouched posts, for attributes of distinct names that
  hold no beer mug and are not \<open>__proto__\<close>: every root field and every attribute that is not
  disabled, under its own name, dots included, in order, and nothing else. The root fields are as
  they were. An attribute is posted with exactly its values if none of them is empty and it is
  declared multivalued or has at most one; otherwise it loses its empty values and, when it is not
  declared multivalued, every value after the first.
\<close>

theorem personal_info_round_trip:
  assumes entries: "ui_attributes info = Some entries" "distinct (map fst entries)"
    and names: "\<forall>(k, vals) \<in> set entries. \<not> text_includes beer k \<and> k \<noteq> ''__proto__''"
  shows "save_profile (untouched disabled (load_profile meta info))
    = \<lparr>ui_username = unless_disabled disabled ''username'' (ui_username info), ui_email = unless_disabled disabled ''email'' (ui_email info),
       ui_firstName = unless_disabled disabled ''firstName'' (ui_firstName info), ui_lastName = unless_disabled disabled ''lastName'' (ui_lastName info),
       ui_attributes = Some (map (kept_texts meta) (filter (\<lambda>(k, vals). ''attributes.'' @ beerify k \<notin> disabled) entries))\<rparr>
   \<and> (\<forall>(k, vals) \<in> set entries. [] \<notin> set vals \<longrightarrow> k \<in> multivalued_names meta \<or> length vals \<le> 1 \<longrightarrow> kept_texts meta (k, vals) = (k, vals))"
proof -
  let ?f = "\<lambda>k vals. if k \<in> multivalued_names meta then Texts vals else Text (case vals of [] \<Rightarrow> [] | v # _ \<Rightarrow> v)"
  have unescaped: "debeerify (beerify k) = k" if "k \<in> fst ` set entries" for k
    using that names debeerify_beerify by fastforce
  have d: "distinct (map (beerify \<circ> fst) entries)"
  proof -
    have "inj_on beerify (set (map fst entries))" using unescaped by (intro inj_on_inverseI [of _ debeerify]) simp
    with entries(2) have "distinct (map beerify (map fst entries))" by (simp add: distinct_map comp_inj_on)
    then show ?thesis by simp
  qed
  have p: "''__proto__'' \<notin> (beerify \<circ> fst) ` set entries"
  proof
    assume "''__proto__'' \<in> (beerify \<circ> fst) ` set entries"
    then obtain e where e: "e \<in> set entries" "beerify (fst e) = ''__proto__''" by auto
    then have "fst e = debeerify ''__proto__''" using unescaped by force
    then have "fst e = ''__proto__''" by (simp add: beer_def)
    with e names show False by auto
  qed
  let ?raw = "map (\<lambda>(k, vals). (beerify k, if ''attributes.'' @ beerify k \<in> disabled then Undefined else ?f k vals)) entries"
  have load: "load_attributes (multivalued_names meta) entries [] = map (\<lambda>(k, vals). (beerify k, ?f k vals)) entries"
    using load_attributes_list [of "[]" entries] d p by simp
  have "map (debeerify \<circ> fst) ?raw = map (\<lambda>e. debeerify (beerify (fst e))) entries" by (simp add: comp_def split_def)
  also have "\<dots> = map fst entries" by (intro map_cong refl unescaped imageI)
  finally have keys: "map (debeerify \<circ> fst) ?raw = map fst entries" .
  have "''__proto__'' \<notin> fst ` set entries" using names by auto
  then have "''__proto__'' \<notin> (debeerify \<circ> fst) ` set ?raw" by (metis keys set_map)
  then have save: "save_attributes ?raw [] = map (\<lambda>(k, v). (debeerify k, field_texts v)) (filter (\<lambda>(k, v). v \<noteq> Undefined) ?raw)"
    using save_attributes_list [of "[]" ?raw] entries(2) unfolding keys by simp
  have one: "(debeerify (beerify k), field_texts (?f k vals)) = kept_texts meta (k, vals)" if "(k, vals) \<in> set entries" for k vals
  proof -
    have "debeerify (beerify k) = k" using that by (intro unescaped) force
    then show ?thesis by (cases vals) (simp_all add: field_texts_def kept_texts_def)
  qed
  have "map (\<lambda>(k, v). (debeerify k, field_texts v)) (filter (\<lambda>(k, v). v \<noteq> Undefined) ?raw)
      = map (kept_texts meta) (filter (\<lambda>(k, vals). ''attributes.'' @ beerify k \<notin> disabled) entries)"
    using one by (induction entries) (auto split: if_splits)
  moreover have "map (\<lambda>(k, x). (k, if ''attributes.'' @ k \<in> disabled then Undefined else x)) (map (\<lambda>(k, vals). (beerify k, ?f k vals)) entries) = ?raw"
    by (induction entries) auto
  ultimately have "pv_attributes (untouched disabled (load_profile meta info)) = Some ?raw"
    "save_attributes ?raw [] = map (kept_texts meta) (filter (\<lambda>(k, vals). ''attributes.'' @ beerify k \<notin> disabled) entries)"
    using load save entries(1) by (simp_all add: untouched_def load_profile_def or_default_def)
  then have "save_profile (untouched disabled (load_profile meta info))
    = \<lparr>ui_username = unless_disabled disabled ''username'' (ui_username info), ui_email = unless_disabled disabled ''email'' (ui_email info),
       ui_firstName = unless_disabled disabled ''firstName'' (ui_firstName info), ui_lastName = unless_disabled disabled ''lastName'' (ui_lastName info),
       ui_attributes = Some (map (kept_texts meta) (filter (\<lambda>(k, vals). ''attributes.'' @ beerify k \<notin> disabled) entries))\<rparr>"
    using entries(1) by (simp add: save_profile_def or_default_def) (simp add: untouched_def load_profile_def)
  moreover have "kept_texts meta (k, vals) = (k, vals)"
    if "[] \<notin> set vals" "k \<in> multivalued_names meta \<or> length vals \<le> 1" for k vals
  proof -
    have "filter (\<lambda>s. s \<noteq> []) vals = vals" using that(1) by (metis (mono_tags, lifting) filter_True)
    then show ?thesis using that(2) by (auto simp: kept_texts_def)
  qed
  ultimately show ?thesis by auto
qed

text \<open>The witness: a dotted attribute, a multivalued one, an undeclared list and a disabled one.\<close>

definition sample_meta :: profile_metadata where
  "sample_meta = \<lparr>pm_attributes = Some [\<lparr>at_name = ''tags'', at_displayName = None, at_required = False, at_readOnly = False,
     at_multivalued = True, at_group = None, at_inputType = None, at_options = None\<rparr>], pm_groups = None\<rparr>"

definition sample_info :: user_info where
  "sample_info = \<lparr>ui_username = Some ''ada'', ui_email = None, ui_firstName = None, ui_lastName = None,
     ui_attributes = Some [(''job.title'', [''Dr'']), (''tags'', [''a'', ''b'']), (''langs'', [''de'', ''en'']), (''id'', [''7''])]\<rparr>"

lemma personal_info_round_trip_witness:
  "ui_attributes (save_profile (untouched {''attributes.id''} (load_profile (Some sample_meta) sample_info)))
     = Some [(''job.title'', [''Dr'']), (''tags'', [''a'', ''b'']), (''langs'', [''de''])]"
proof -
  let ?entries = "[(''job.title'', [''Dr'']), (''tags'', [''a'', ''b'']), (''langs'', [''de'', ''en'']), (''id'', [''7''])]"
  have b: "beerify ''job.title'' = ''job'' @ beer @ ''title''" "beerify ''tags'' = ''tags''" "beerify ''langs'' = ''langs''"
    "beerify ''id'' = ''id''" by (simp_all add: beer_def)
  have m: "multivalued_names (Some sample_meta) = {''tags''}" by (simp add: multivalued_names_def sample_meta_def or_default_def)
  have "save_profile (untouched {''attributes.id''} (load_profile (Some sample_meta) sample_info))
    = \<lparr>ui_username = unless_disabled {''attributes.id''} ''username'' (Some ''ada''), ui_email = unless_disabled {''attributes.id''} ''email'' None,
       ui_firstName = unless_disabled {''attributes.id''} ''firstName'' None, ui_lastName = unless_disabled {''attributes.id''} ''lastName'' None,
       ui_attributes = Some (map (kept_texts (Some sample_meta)) (filter (\<lambda>(k, vals). ''attributes.'' @ beerify k \<notin> {''attributes.id''}) ?entries))\<rparr>"
    using personal_info_round_trip [of sample_info ?entries "{''attributes.id''}" "Some sample_meta"]
    by (simp add: sample_info_def beer_def)
  then show ?thesis unfolding filter.simps case_prod_conv b by (simp add: beer_def kept_texts_def m)
qed

text \<open>A list of an attribute that is not declared multivalued loses all values but the first, even when nobody touches it.\<close>

lemma undeclared_list_is_cut:
  "save_attributes (load_attributes {} [(''tags'', [''a'', ''b''])] []) [] = [(''tags'', [''a''])]"
  by (simp add: js_set_def field_texts_def beer_def)

section \<open>An error comes to the field of its attribute\<close>

lemma root_paths: "isRootAttribute (Some n) \<Longrightarrow> fieldName (Some n) = n \<and> CHR ''.'' \<notin> set n"
  by (auto simp: isRootAttribute_def ROOT_ATTRIBUTES_def fieldName_def truthy_def or_default_def)

lemma other_paths: "\<not> isRootAttribute (Some n) \<Longrightarrow> fieldName (Some n) = ''attributes'' @ CHR ''.'' # beerify n"
  by (simp add: fieldName_def or_default_def)

lemma fieldName_inj:
  assumes "\<not> text_includes beer m" and "\<not> text_includes beer n" and "fieldName (Some m) = fieldName (Some n)"
  shows "m = n"
proof -
  have "beerify m = beerify n \<Longrightarrow> m = n" using debeerify_beerify assms(1,2) by metis
  moreover have "isRootAttribute (Some m) \<longleftrightarrow> isRootAttribute (Some n)"
    using assms(3) root_paths [of m] root_paths [of n] other_paths [of m] other_paths [of n] by fastforce
  ultimately show ?thesis
    using assms(3) root_paths [of m] root_paths [of n] other_paths [of m] other_paths [of n] by (metis list.inject same_append_eq)
qed

text \<open>
  An error of the server comes to the field of its attribute: for every error in the answer, listed or
  alone, that names an attribute, a message is set at the path of this attribute; no other attribute
  has this path; and the path is the name itself for the four root attributes and otherwise one
  step below \<open>attributes\<close>, however many dots the name has.
\<close>

theorem errors_reach_their_field:
  assumes attrs: "\<forall>b \<in> set attrs. \<not> text_includes beer (at_name b)" and a: "a \<in> set attrs"
    and e: "e \<in> set (or_default (eb_errors body) [eb_self body])" "se_field e = Some (at_name a)"
  shows "(\<exists>msg. (fieldName (Some (at_name a)), msg) \<in> set (applyServerErrors t body))
    \<and> (\<forall>b \<in> set attrs. fieldName (Some (at_name b)) = fieldName (Some (at_name a)) \<longleftrightarrow> at_name b = at_name a)
    \<and> split_on (CHR ''.'') (fieldName (Some (at_name a)))
        = (if isRootAttribute (Some (at_name a)) then [at_name a] else [''attributes'', beerify (at_name a)])
    \<and> debeerify (beerify (at_name a)) = at_name a"
proof -
  have "split_on (CHR ''.'') (''attributes'' @ CHR ''.'' # beerify (at_name a)) = [''attributes'', beerify (at_name a)]"
    by (subst split_on_append) (simp_all add: split_on_no_sep beerify_no_dot)
  then have "split_on (CHR ''.'') (fieldName (Some (at_name a)))
        = (if isRootAttribute (Some (at_name a)) then [at_name a] else [''attributes'', beerify (at_name a)])"
    using root_paths [of "at_name a"] other_paths [of "at_name a"] by (simp add: split_on_no_sep)
  moreover have "\<exists>msg. (fieldName (Some (at_name a)), msg) \<in> set (applyServerErrors t body)"
    unfolding applyServerErrors_def set_map Let_def e(2) [symmetric] by (intro exI) (rule image_eqI [OF refl e(1)])
  ultimately show ?thesis using attrs a fieldName_inj debeerify_beerify by metis
qed

text \<open>The witness: the error of the answer itself, on an attribute with a dot in its name.\<close>

definition plain_attribute :: "string \<Rightarrow> string option \<Rightarrow> up_attribute" where
  "plain_attribute n g = \<lparr>at_name = n, at_displayName = None, at_required = False, at_readOnly = False,
     at_multivalued = False, at_group = g, at_inputType = None, at_options = None\<rparr>"

definition sample_error :: error_body where
  "sample_error = \<lparr>eb_errors = None, eb_self = \<lparr>se_field = Some ''job.title'', se_errorMessage = Some ''wrong'', se_params = None\<rparr>\<rparr>"

lemma errors_reach_their_field_witness:
  "\<exists>msg. (''attributes.job'' @ beer @ ''title'', msg) \<in> set (applyServerErrors (\<lambda>k ps d. or_default k []) sample_error)"
proof -
  have "fieldName (Some ''job.title'') = ''attributes.job'' @ beer @ ''title''"
    by (simp add: fieldName_def isRootAttribute_def ROOT_ATTRIBUTES_def or_default_def truthy_def beer_def)
  then show ?thesis
    using errors_reach_their_field [of "[plain_attribute ''job.title'' None]" "plain_attribute ''job.title'' None"
        "eb_self sample_error" sample_error "\<lambda>k ps d. or_default k []"]
    by (simp add: plain_attribute_def sample_error_def or_default_def beer_def)
qed

section \<open>Every attribute of a known group is drawn once\<close>

lemma sections_flat: "concat (map snd (profile_sections t m)) = concat (map (\<lambda>g. attributesForGroup m (ug_name g)) (orderedGroups m))"
proof -
  have "concat (map snd (concat (map (\<lambda>g. let attrs = attributesForGroup m (ug_name g) in
         if attrs = [] then []
         else [(if truthy (ug_name g) then Some (label_text t (ug_displayHeader g) (ug_name g) None) else None, attrs)]) gs)))
    = concat (map (\<lambda>g. attributesForGroup m (ug_name g)) gs)" for gs
    by (induction gs) (simp_all add: Let_def)
  then show ?thesis by (simp add: profile_sections_def)
qed

lemma grouped_once:
  "distinct ns \<Longrightarrow> mset (concat (map (\<lambda>n. filter (\<lambda>a. f a = n) as) ns)) = mset (filter (\<lambda>a. f a \<in> set ns) as)"
proof (induction ns)
  case (Cons n ns)
  have "mset (filter (\<lambda>a. f a = n \<or> f a \<in> set ns) as) = mset (filter (\<lambda>a. f a = n) as) + mset (filter (\<lambda>a. f a \<in> set ns) as)"
    using Cons.prems by (induction as) auto
  with Cons show ?case by simp
qed simp

text \<open>
  Every attribute of a known group is drawn exactly once: where the groups have different names, the
  sections together hold exactly the attributes without a group and those whose group is listed, and
  every section is of one group and not empty.
\<close>

theorem attributes_drawn_once:
  assumes "distinct (map ug_name (or_default (pm_groups m) []))" and "None \<notin> ug_name ` set (or_default (pm_groups m) [])"
  shows "mset (concat (map snd (profile_sections t m)))
      = mset (filter (\<lambda>a. at_group a = None \<or> at_group a \<in> ug_name ` set (or_default (pm_groups m) [])) (or_default (pm_attributes m) []))
    \<and> (\<forall>s \<in> set (profile_sections t m). snd s \<noteq> [] \<and> (\<exists>g. \<forall>a \<in> set (snd s). at_group a = g))"
proof -
  have "distinct (map ug_name (orderedGroups m))" using assms by (auto simp: orderedGroups_def)
  from grouped_once [OF this, of at_group "or_default (pm_attributes m) []"]
  have "mset (concat (map snd (profile_sections t m))) = mset (filter (\<lambda>a. at_group a \<in> set (map ug_name (orderedGroups m))) (or_default (pm_attributes m) []))"
    unfolding sections_flat by (simp add: attributesForGroup_def comp_def)
  moreover have "\<forall>s \<in> set (profile_sections t m). snd s \<noteq> [] \<and> (\<exists>g. \<forall>a \<in> set (snd s). at_group a = g)"
    by (auto simp: profile_sections_def attributesForGroup_def Let_def split: if_splits)
  ultimately show ?thesis by (simp add: orderedGroups_def)
qed

text \<open>The witness: of two attributes one is in the listed group and one in none.\<close>

definition sample_groups :: profile_metadata where
  "sample_groups = \<lparr>pm_attributes = Some [plain_attribute ''a'' None, plain_attribute ''b'' (Some ''g'')],
     pm_groups = Some [\<lparr>ug_name = Some ''g'', ug_displayHeader = None\<rparr>]\<rparr>"

lemma attributes_drawn_once_witness:
  "mset (concat (map snd (profile_sections id sample_groups))) = {#plain_attribute ''a'' None, plain_attribute ''b'' (Some ''g'')#}"
proof -
  have "distinct (map ug_name (or_default (pm_groups sample_groups) []))" "None \<notin> ug_name ` set (or_default (pm_groups sample_groups) [])"
    by (simp_all add: sample_groups_def or_default_def)
  from conjunct1 [OF attributes_drawn_once [OF this, of id]] show ?thesis
    by (simp add: sample_groups_def or_default_def plain_attribute_def)
qed

section \<open>The current device comes first\<close>

lemma find_index_Some: "find_index f xs = Some i \<Longrightarrow> i < length xs \<and> f (xs ! i) \<and> (\<forall>x \<in> set (take i xs). \<not> f x)"
  by (induction xs arbitrary: i) (auto split: if_splits option.splits)

lemma find_index_None: "find_index f xs = None \<longleftrightarrow> (\<forall>x \<in> set xs. \<not> f x)"
  by (induction xs) auto

lemma to_top_split:
  assumes "\<exists>x \<in> set xs. f x"
  shows "\<exists>pre x post. xs = pre @ x # post \<and> f x \<and> (\<forall>y \<in> set pre. \<not> f y) \<and> to_top f xs = x # pre @ post"
proof -
  obtain i where i: "find_index f xs = Some i" using assms find_index_None [of f xs] by (cases "find_index f xs") auto
  then have "xs = take i xs @ xs ! i # drop (Suc i) xs" using find_index_Some [OF i] by (simp add: id_take_nth_drop)
  moreover have "to_top f xs = xs ! i # take i xs @ drop (Suc i) xs"
    using i find_index_Some [OF i] by (cases i) (auto simp: to_top_def hd_conv_nth [symmetric] drop_Suc dest: hd_Cons_tl)
  ultimately show ?thesis using find_index_Some [OF i] by blast
qed

lemma to_top_none: "\<forall>x \<in> set xs. \<not> f x \<Longrightarrow> to_top f xs = xs"
  using find_index_None [of f xs] by (simp add: to_top_def)

text \<open>
  The device in use comes first: when one of the devices is current, the first that is comes to the top
  and the others keep their order, and of its sessions the first current one comes to the top while
  the others keep theirs; no device and no session is lost. Without a current device the order stays.
\<close>

theorem current_comes_first:
  "if \<exists>d \<in> set ds. de_current d
   then \<exists>pre d post. ds = pre @ d # post \<and> de_current d \<and> (\<forall>x \<in> set pre. \<not> de_current x)
     \<and> moveCurrentToTop ds = d\<lparr>de_sessions := map_option (to_top dv_sessionCurrent) (de_sessions d)\<rparr> # pre @ post
     \<and> (case de_sessions d of None \<Rightarrow> True | Some ss \<Rightarrow> mset (to_top dv_sessionCurrent ss) = mset ss
         \<and> (if \<exists>s \<in> set ss. dv_sessionCurrent s then dv_sessionCurrent (hd (to_top dv_sessionCurrent ss)) else to_top dv_sessionCurrent ss = ss))
   else map de_id (moveCurrentToTop ds) = map de_id ds"
proof (cases "\<exists>d \<in> set ds. de_current d")
  case True
  obtain pre d post where s: "ds = pre @ d # post" "de_current d" "\<forall>x \<in> set pre. \<not> de_current x" "to_top de_current ds = d # pre @ post"
    using to_top_split [OF True] by blast
  have top: "moveCurrentToTop ds = d\<lparr>de_sessions := map_option (to_top dv_sessionCurrent) (de_sessions d)\<rparr> # pre @ post"
    by (cases "de_sessions d") (simp_all add: moveCurrentToTop_def s(4))
  have "mset (to_top dv_sessionCurrent ss) = mset ss
         \<and> (if \<exists>s \<in> set ss. dv_sessionCurrent s then dv_sessionCurrent (hd (to_top dv_sessionCurrent ss)) else to_top dv_sessionCurrent ss = ss)" for ss
  proof (cases "\<exists>s \<in> set ss. dv_sessionCurrent s")
    case True
    from to_top_split [OF True] True show ?thesis by auto
  qed (auto simp: to_top_none)
  then have "case de_sessions d of None \<Rightarrow> True | Some ss \<Rightarrow> mset (to_top dv_sessionCurrent ss) = mset ss
         \<and> (if \<exists>s \<in> set ss. dv_sessionCurrent s then dv_sessionCurrent (hd (to_top dv_sessionCurrent ss)) else to_top dv_sessionCurrent ss = ss)"
    by (cases "de_sessions d") (simp_all only: option.case)
  with top show ?thesis unfolding if_P [OF True] using s(1-3) by blast
next
  case False
  then show ?thesis by (simp add: moveCurrentToTop_def to_top_none split: list.split option.split)
qed

text \<open>The witness: the second of two devices is in use.\<close>

lemma current_comes_first_witness:
  "\<exists>a b. de_current b \<and> \<not> de_current a \<and> map de_id (moveCurrentToTop [a, b]) = [Some ''b'', Some ''a'']"
proof -
  let ?a = "\<lparr>de_id = Some ''a'', de_current = False, de_sessions = None\<rparr>"
  let ?b = "\<lparr>de_id = Some ''b'', de_current = True, de_sessions = None\<rparr>"
  obtain pre d post where s: "[?a, ?b] = pre @ d # post" "de_current d"
      "moveCurrentToTop [?a, ?b] = d\<lparr>de_sessions := map_option (to_top dv_sessionCurrent) (de_sessions d)\<rparr> # pre @ post"
    using current_comes_first [of "[?a, ?b]"] by (auto split: if_splits)
  then have "d = ?b \<and> pre = [?a] \<and> post = []" by (cases pre; cases "tl pre") auto
  with s(3) show ?thesis by (intro exI [of _ ?a] exI [of _ ?b]) simp
qed

section \<open>The page of the personal information\<close>

text \<open>
  The state of the page and of the requests that are under way: the load of the profile, and the save with the
  token renewal behind it. The values are those the form was last synchronised with; what is typed is the
  argument of \<open>Submit\<close>, given when the form library has found it valid.
\<close>

datatype save_status = Idle | Saving | Saved | Error_shown

record personal_page =
  pp_metadata :: "profile_metadata option"
  pp_values :: "profile_values option"
  pp_status :: save_status
  pp_error :: "string option"
  pp_fieldErrors :: "(string \<times> string) list"
  pp_loading :: bool

definition personal_page_mount :: personal_page where
  "personal_page_mount = \<lparr>pp_metadata = None, pp_values = None, pp_status = Idle, pp_error = None, pp_fieldErrors = [], pp_loading = True\<rparr>"

text \<open>What a save is rejected with: a request error whose data is an object, or anything else, as text.\<close>

datatype save_failure = Refused error_body | Failed string

datatype personal_event =
  Info_loaded "profile_metadata option" user_info
| Info_failed string
| Submit profile_values
| Save_answered "save_failure option"
| Cancel

definition form_is_shown :: "personal_page \<Rightarrow> bool" where
  "form_is_shown p \<longleftrightarrow> \<not> (pp_metadata p = None \<and> \<not> truthy (pp_error p))"

definition info_loaded :: "profile_metadata option \<Rightarrow> user_info \<Rightarrow> personal_page \<Rightarrow> personal_page" where
  "info_loaded meta info p = p\<lparr>pp_metadata := meta, pp_values := Some (load_profile meta info), pp_loading := False\<rparr>"

definition save_failed :: "translate \<Rightarrow> save_failure \<Rightarrow> personal_page \<Rightarrow> personal_page" where
  "save_failed t failure p =
     (case failure of
        Refused body \<Rightarrow> p\<lparr>pp_status := Error_shown,
          pp_fieldErrors := fold (\<lambda>(path, msg). AList.update path msg) (applyServerErrors t body) (pp_fieldErrors p)\<rparr>
      | Failed msg \<Rightarrow> p\<lparr>pp_status := Error_shown, pp_error := Some msg\<rparr>)"

definition form_cancel :: "personal_page \<Rightarrow> personal_page" where
  "form_cancel p = p\<lparr>pp_fieldErrors := [], pp_status := Idle, pp_error := None\<rparr>"

text \<open>
  One event, with the profile that is posted; the buttons are there with the form and do nothing while a save
  is under way. The answer to the save is given once the token is renewed, or one of the two has failed.
\<close>

definition personal_step :: "translate \<Rightarrow> personal_event \<Rightarrow> personal_page \<Rightarrow> personal_page \<times> user_info option" where
  "personal_step t e p =
     (case e of
        Info_loaded meta info \<Rightarrow> ((if pp_loading p then info_loaded meta info p else p), None)
      | Info_failed msg \<Rightarrow> ((if pp_loading p then p\<lparr>pp_error := Some msg, pp_loading := False\<rparr> else p), None)
      | Submit data \<Rightarrow>
          if form_is_shown p \<and> pp_status p \<noteq> Saving
          then (p\<lparr>pp_status := Saving, pp_error := None, pp_fieldErrors := []\<rparr>, Some (save_profile data))
          else (p, None)
      | Save_answered answer \<Rightarrow>
          if pp_status p = Saving
          then ((case answer of None \<Rightarrow> p\<lparr>pp_status := Saved\<rparr> | Some failure \<Rightarrow> save_failed t failure p), None)
          else (p, None)
      | Cancel \<Rightarrow> ((if form_is_shown p \<and> pp_status p \<noteq> Saving then form_cancel p else p), None))"

text \<open>
  What is drawn: the word that it is loading, or the form with the messages at the attributes (by
  the attribute's name, in the order of the sections), the message of the page, and the note that the
  profile was saved. A message at a path that no drawn attribute has appears nowhere, and neither
  does an empty one; \<open>lt\<close> translates the headings.
\<close>

datatype personal_view = Loading_view | Form_view "(string \<times> string) list" "string option" bool

definition drawn_attributes :: "(string \<Rightarrow> string) \<Rightarrow> profile_metadata option \<Rightarrow> up_attribute list" where
  "drawn_attributes lt meta = (case meta of None \<Rightarrow> [] | Some m \<Rightarrow> concat (map snd (profile_sections lt m)))"

definition field_messages :: "up_attribute list \<Rightarrow> (string \<times> string) list \<Rightarrow> (string \<times> string) list" where
  "field_messages attrs errors =
     concat (map (\<lambda>a. case map_of errors (fieldName (Some (at_name a))) of
         None \<Rightarrow> []
       | Some msg \<Rightarrow> if msg = [] then [] else [(at_name a, msg)]) attrs)"

definition personal_view :: "(string \<Rightarrow> string) \<Rightarrow> personal_page \<Rightarrow> personal_view" where
  "personal_view lt p =
     (if form_is_shown p
      then Form_view (field_messages (drawn_attributes lt (pp_metadata p)) (pp_fieldErrors p))
        (if truthy (pp_error p) then pp_error p else None) (pp_status p = Saved)
      else Loading_view)"

fun personal_run :: "translate \<Rightarrow> personal_event list \<Rightarrow> personal_page \<Rightarrow> personal_page \<times> user_info list" where
  "personal_run t [] p = (p, [])"
| "personal_run t (e # es) p =
     (let (p1, out) = personal_step t e p; (p2, outs) = personal_run t es p1
      in (p2, (case out of None \<Rightarrow> [] | Some u \<Rightarrow> [u]) @ outs))"

text \<open>Errors are shown only after a failure; before the load has ended there is nothing to submit.\<close>

definition personal_ok :: "personal_page \<Rightarrow> bool" where
  "personal_ok p \<longleftrightarrow>
     (pp_loading p \<longrightarrow> pp_metadata p = None \<and> pp_error p = None \<and> pp_status p = Idle)
     \<and> (pp_status p = Saving \<or> pp_status p = Saved \<longrightarrow> pp_error p = None \<and> pp_fieldErrors p = [])
     \<and> (pp_fieldErrors p \<noteq> [] \<longrightarrow> pp_status p = Error_shown)"

lemma save_failed_ok:
  "personal_ok p \<Longrightarrow> pp_status p = Saving \<Longrightarrow> personal_ok (save_failed t failure p)"
  by (cases failure) (simp_all add: personal_ok_def save_failed_def)

lemma shown_not_loading: "personal_ok p \<Longrightarrow> form_is_shown p \<Longrightarrow> \<not> pp_loading p"
proof
  assume "personal_ok p" "form_is_shown p" "pp_loading p"
  then have "pp_metadata p = None" "pp_error p = None" unfolding personal_ok_def by blast+
  with \<open>form_is_shown p\<close> show False by (simp add: form_is_shown_def)
qed

lemma load_failed_ok: "personal_ok p \<Longrightarrow> pp_loading p \<Longrightarrow> personal_ok (p\<lparr>pp_error := Some msg, pp_loading := False\<rparr>)"
proof -
  assume "personal_ok p" "pp_loading p"
  then have "pp_status p = Idle" "pp_fieldErrors p = []" unfolding personal_ok_def by force+
  then show ?thesis by (simp add: personal_ok_def)
qed

lemma personal_step_ok:
  assumes "personal_ok p"
  shows "personal_ok (fst (personal_step t e p))"
proof (cases e)
  case (Save_answered answer)
  have "pp_status p = Saving \<Longrightarrow> personal_ok (p\<lparr>pp_status := Saved\<rparr>)" using assms by (simp add: personal_ok_def)
  then show ?thesis using assms save_failed_ok [OF assms] by (simp add: Save_answered personal_step_def split: option.split)
next
  case (Info_loaded meta info)
  then show ?thesis using assms by (simp add: personal_step_def info_loaded_def) (auto simp: personal_ok_def)
next
  case (Submit data)
  have "form_is_shown p \<Longrightarrow> personal_ok (p\<lparr>pp_status := Saving, pp_error := None, pp_fieldErrors := []\<rparr>)"
    using shown_not_loading [OF assms] by (simp add: personal_ok_def)
  then show ?thesis using assms by (simp add: Submit personal_step_def)
next
  case Cancel
  have "form_is_shown p \<Longrightarrow> personal_ok (form_cancel p)"
    using shown_not_loading [OF assms] by (simp add: personal_ok_def form_cancel_def)
  then show ?thesis using assms by (simp add: Cancel personal_step_def)
qed (use assms load_failed_ok [OF assms] in \<open>simp add: personal_step_def\<close>)

lemma personal_run_ok: "personal_ok p \<Longrightarrow> personal_ok (fst (personal_run t es p))"
proof (induction es arbitrary: p)
  case (Cons e es)
  from Cons.IH [OF personal_step_ok [OF Cons.prems]] show ?case by (simp add: split_def Let_def)
qed simp

lemma personal_mount_ok: "personal_ok personal_page_mount"
  by (simp add: personal_ok_def personal_page_mount_def)

lemma errors_kept: "(path, msg) \<in> set (fold (\<lambda>(path, msg). AList.update path msg) es []) \<Longrightarrow> (path, msg) \<in> set es"
proof -
  have "x \<in> set (fold (\<lambda>(path, msg). AList.update path msg) es acc) \<Longrightarrow> x \<in> set acc \<or> x \<in> set es" for x acc
  proof (induction es arbitrary: acc)
    case (Cons e es)
    obtain k v where e: "e = (k, v)" by fastforce
    have "set (AList.update k v acc) \<subseteq> insert (k, v) (set acc)" by (induction acc) auto
    with Cons show ?case by (auto simp: e)
  qed simp
  from this [of "(path, msg)" "[]"] show "(path, msg) \<in> set (fold (\<lambda>(path, msg). AList.update path msg) es []) \<Longrightarrow> (path, msg) \<in> set es" by simp
qed

lemma errors_have_keys: "fst ` set (fold (\<lambda>(path, msg). AList.update path msg) es acc) = fst ` set es \<union> fst ` set acc"
proof (induction es arbitrary: acc)
  case (Cons e es)
  obtain k v where e: "e = (k, v)" by fastforce
  have "fst ` set (AList.update k v acc) = insert k (fst ` set acc)" by (induction acc) auto
  with Cons show ?case by (auto simp: e)
qed simp

lemma errors_map_of:
  assumes "es' = fold (\<lambda>(path, msg). AList.update path msg) es []"
  shows "map_of es' path = Some msg \<Longrightarrow> (path, msg) \<in> set es" and "path \<in> fst ` set es \<Longrightarrow> \<exists>msg. map_of es' path = Some msg"
proof -
  show "map_of es' path = Some msg \<Longrightarrow> (path, msg) \<in> set es" using errors_kept map_of_SomeD assms by metis
  show "path \<in> fst ` set es \<Longrightarrow> \<exists>msg. map_of es' path = Some msg"
    using errors_have_keys [of es "[]"] map_of_eq_None_iff [of es' path] assms by auto
qed

lemma field_messages_none [simp]: "field_messages attrs [] = []"
  by (induction attrs) (simp_all add: field_messages_def)

lemma in_field_messages:
  "(n, msg) \<in> set (field_messages attrs errors) \<longleftrightarrow>
     msg \<noteq> [] \<and> (\<exists>a \<in> set attrs. at_name a = n \<and> map_of errors (fieldName (Some n)) = Some msg)"
  by (induction attrs) (auto simp: field_messages_def split: option.splits)

text \<open>The messages of a refusal: each belongs to an error of its attribute, and no error of a drawn attribute goes without one.\<close>

lemma refusal_messages:
  assumes "ms = field_messages attrs (fold (\<lambda>(path, msg). AList.update path msg) (applyServerErrors t body) [])"
  shows "(n, msg) \<in> set ms \<Longrightarrow> (fieldName (Some n), msg) \<in> set (applyServerErrors t body)"
    and "a \<in> set attrs \<Longrightarrow> e \<in> set (or_default (eb_errors body) [eb_self body]) \<Longrightarrow> se_field e = Some (at_name a) \<Longrightarrow>
      \<forall>m \<in> set (applyServerErrors t body). snd m \<noteq> [] \<Longrightarrow> \<exists>msg. (at_name a, msg) \<in> set ms"
proof -
  note m = errors_map_of [of _ "applyServerErrors t body", OF refl]
  show "(n, msg) \<in> set ms \<Longrightarrow> (fieldName (Some n), msg) \<in> set (applyServerErrors t body)"
    unfolding assms in_field_messages using m(1) by blast
  assume a: "a \<in> set attrs" "e \<in> set (or_default (eb_errors body) [eb_self body])" "se_field e = Some (at_name a)"
    and some: "\<forall>m \<in> set (applyServerErrors t body). snd m \<noteq> []"
  have "fieldName (Some (at_name a)) \<in> fst ` set (applyServerErrors t body)"
    using a(2,3) by (force simp: applyServerErrors_def Let_def)
  then obtain msg where msg: "map_of (fold (\<lambda>(path, msg). AList.update path msg) (applyServerErrors t body) []) (fieldName (Some (at_name a))) = Some msg"
    using m(2) by blast
  then have "msg \<noteq> []" using m(1) some by force
  then show "\<exists>msg. (at_name a, msg) \<in> set ms" unfolding assms in_field_messages using a(1) msg by blast
qed

text \<open>
  C34. The page says what became of a save, where the description of the profile was loaded: whatever
  happens, it never says \<open>saved\<close> beside an error. While a save is under way no message stands from
  the last one and neither a second save nor a cancel does anything; a success is drawn as \<open>saved\<close>,
  without a message; any failure that is not a refusal with an object is drawn as the message of the
  page; and a refusal is drawn as messages at attributes, each of them a message of an error that
  names this attribute, and none missing: every error that names a drawn attribute has one there, if
  the translations are not empty. An error that names no drawn attribute is not drawn at all
  (\<open>refusal_without_field_is_silent\<close>), and after a failed load the page has no attributes and says it
  is loading while it saves and afterwards (\<open>failed_load_hides_the_outcome\<close>).
\<close>

theorem save_outcome_is_shown:
  assumes "p = fst (personal_run t es personal_page_mount)"
    and "\<And>answer. see answer = personal_view lt (fst (personal_step t (Save_answered answer) p))"
  shows "(\<forall>ms e. personal_view lt p = Form_view ms e True \<longrightarrow> ms = [] \<and> e = None)
    \<and> (pp_status p = Saving \<longrightarrow> personal_step t (Submit data) p = (p, None) \<and> personal_step t Cancel p = (p, None))
    \<and> (pp_status p = Saving \<longrightarrow> pp_metadata p \<noteq> None \<longrightarrow>
         personal_view lt p = Form_view [] None False
       \<and> see None = Form_view [] None True
       \<and> (\<forall>msg. msg \<noteq> [] \<longrightarrow> see (Some (Failed msg)) = Form_view [] (Some msg) False)
       \<and> (\<exists>ms. see (Some (Refused body)) = Form_view ms None False
            \<and> (\<forall>(n, msg) \<in> set ms. (fieldName (Some n), msg) \<in> set (applyServerErrors t body))
            \<and> (\<forall>a \<in> set (drawn_attributes lt (pp_metadata p)). \<forall>e \<in> set (or_default (eb_errors body) [eb_self body]).
                 se_field e = Some (at_name a) \<longrightarrow> (\<forall>m \<in> set (applyServerErrors t body). snd m \<noteq> []) \<longrightarrow>
                 (\<exists>msg. (at_name a, msg) \<in> set ms))))"
proof (intro conjI impI allI)
  have ok: "personal_ok p" unfolding assms(1) by (rule personal_run_ok [OF personal_mount_ok])
  note quiet = ok [unfolded personal_ok_def, THEN conjunct2, THEN conjunct1]
  show "ms = []" "e = None" if "personal_view lt p = Form_view ms e True" for ms e
    using that quiet by (simp_all add: personal_view_def split: if_splits)
  assume saving: "pp_status p = Saving"
  then show "personal_step t (Submit data) p = (p, None)" "personal_step t Cancel p = (p, None)"
    by (simp_all add: personal_step_def)
  assume meta: "pp_metadata p \<noteq> None"
  have clean: "pp_error p = None" "pp_fieldErrors p = []" using quiet saving by simp_all
  note view = personal_view_def form_is_shown_def personal_step_def save_failed_def
  show "personal_view lt p = Form_view [] None False" "see None = Form_view [] None True"
    unfolding assms(2) view using saving meta clean by simp_all
  show "see (Some (Failed msg)) = Form_view [] (Some msg) False" if "msg \<noteq> []" for msg
    unfolding assms(2) view using saving meta clean that by (simp add: truthy_def)
  let ?ms = "field_messages (drawn_attributes lt (pp_metadata p)) (fold (\<lambda>(path, msg). AList.update path msg) (applyServerErrors t body) [])"
  have "see (Some (Refused body)) = Form_view ?ms None False"
    unfolding assms(2) view using saving meta clean by simp
  then show "\<exists>ms. see (Some (Refused body)) = Form_view ms None False
      \<and> (\<forall>(n, msg) \<in> set ms. (fieldName (Some n), msg) \<in> set (applyServerErrors t body))
      \<and> (\<forall>a \<in> set (drawn_attributes lt (pp_metadata p)). \<forall>e \<in> set (or_default (eb_errors body) [eb_self body]).
           se_field e = Some (at_name a) \<longrightarrow> (\<forall>m \<in> set (applyServerErrors t body). snd m \<noteq> []) \<longrightarrow>
           (\<exists>msg. (at_name a, msg) \<in> set ms))"
    using refusal_messages [where attrs = "drawn_attributes lt (pp_metadata p)" and t = t and body = body, OF refl] by (intro exI [of _ ?ms]) auto
qed

text \<open>The witness: a profile is loaded and saved, and the server finds fault with a dotted attribute.\<close>

definition dotted_meta :: profile_metadata where
  "dotted_meta = \<lparr>pm_attributes = Some [plain_attribute ''job.title'' None], pm_groups = None\<rparr>"

lemma save_outcome_is_shown_witness:
  "let t = (\<lambda>k ps d. or_default k []);
       p = fst (personal_run t [Info_loaded (Some dotted_meta) sample_info, Submit (load_profile (Some dotted_meta) sample_info)] personal_page_mount)
   in pp_status p = Saving
     \<and> (\<exists>ms msg. personal_view id (fst (personal_step t (Save_answered (Some (Refused sample_error))) p)) = Form_view ms None False
          \<and> (''job.title'', msg) \<in> set ms)"
proof -
  let ?t = "\<lambda>k ps d. or_default k []"
  let ?es = "[Info_loaded (Some dotted_meta) sample_info, Submit (load_profile (Some dotted_meta) sample_info)]"
  let ?p = "fst (personal_run ?t ?es personal_page_mount)"
  have p: "pp_status ?p = Saving" "pp_metadata ?p = Some dotted_meta"
    by (simp_all add: personal_step_def personal_page_mount_def info_loaded_def form_is_shown_def)
  have drawn: "drawn_attributes id (Some dotted_meta) = [plain_attribute ''job.title'' None]"
    by (simp add: drawn_attributes_def sections_flat orderedGroups_def attributesForGroup_def dotted_meta_def or_default_def plain_attribute_def)
  have m: "snd m \<noteq> []" if "m \<in> set (applyServerErrors ?t sample_error)" for m
    using that by (simp add: applyServerErrors_def sample_error_def or_default_def isBundleKey_def Let_def)
  obtain ms where ms: "personal_view id (fst (personal_step ?t (Save_answered (Some (Refused sample_error))) ?p)) = Form_view ms None False"
      "\<forall>a \<in> set [plain_attribute ''job.title'' None]. \<forall>e \<in> set (or_default (eb_errors sample_error) [eb_self sample_error]).
         se_field e = Some (at_name a) \<longrightarrow> (\<forall>m \<in> set (applyServerErrors ?t sample_error). snd m \<noteq> []) \<longrightarrow> (\<exists>msg. (at_name a, msg) \<in> set ms)"
    using save_outcome_is_shown [where t = ?t and es = ?es and lt = id and body = sample_error, OF refl refl] p unfolding p(2) drawn by blast
  have "eb_self sample_error \<in> set (or_default (eb_errors sample_error) [eb_self sample_error])"
    "se_field (eb_self sample_error) = Some (at_name (plain_attribute ''job.title'' None))"
    by (simp_all add: sample_error_def plain_attribute_def or_default_def)
  then obtain msg where "(''job.title'', msg) \<in> set ms" using ms(2) m by (fastforce simp: plain_attribute_def)
  then show ?thesis using p ms(1) unfolding Let_def by blast
qed

text \<open>
  When the profile could not be loaded the page shows its form all the same, without fields; its save button
  posts a profile without any attribute, and the page then says it is loading for as long as the save lasts.
\<close>

lemma failed_load_posts_an_empty_profile:
  "personal_run t [Info_failed ''Error: 503'', Submit \<lparr>pv_username = None, pv_email = None, pv_firstName = None, pv_lastName = None, pv_attributes = None\<rparr>]
       personal_page_mount
     = (personal_page_mount\<lparr>pp_status := Saving, pp_loading := False\<rparr>,
        [\<lparr>ui_username = None, ui_email = None, ui_firstName = None, ui_lastName = None, ui_attributes = Some []\<rparr>])"
  by (simp add: personal_step_def personal_page_mount_def form_is_shown_def truthy_def save_profile_def or_default_def)

text \<open>The outcome of such a save is not shown either: the page goes on saying that it is loading.\<close>

lemma failed_load_hides_the_outcome:
  "msg \<noteq> [] \<Longrightarrow> personal_view lt (fst (personal_run t [Info_failed msg, Submit data, Save_answered None] personal_page_mount)) = Loading_view"
  by (simp add: personal_view_def personal_step_def personal_page_mount_def form_is_shown_def truthy_def)

text \<open>
  A refusal whose body is an object without a field is shown nowhere: its message is put at the path
  \<open>attributes.\<close>, which is that of no attribute with a name, and the page's own message stays empty.
\<close>

lemma refusal_without_field_is_silent:
  assumes "pp_status p = Saving" "pp_error p = None" "pp_fieldErrors p = []" "n \<noteq> []"
    and "body = \<lparr>eb_errors = None, eb_self = \<lparr>se_field = None, se_errorMessage = m, se_params = None\<rparr>\<rparr>"
  shows "pp_error (fst (personal_step t (Save_answered (Some (Refused body))) p)) = None
    \<and> fieldName (Some n) \<notin> fst ` set (pp_fieldErrors (fst (personal_step t (Save_answered (Some (Refused body))) p)))"
proof -
  have "fieldName None = ''attributes.''"
    by (simp add: fieldName_def isRootAttribute_def truthy_def or_default_def)
  moreover have "fieldName (Some n) \<noteq> ''attributes.''"
  proof (cases "isRootAttribute (Some n)")
    case True
    then show ?thesis using root_paths [of n] by auto
  next
    case False
    have "beerify n \<noteq> []" using assms(4) by (cases n; cases "hd n = CHR ''.''") (auto simp: beer_def)
    with other_paths [OF False] show ?thesis by simp
  qed
  ultimately show ?thesis using assms
    by (simp add: personal_step_def save_failed_def applyServerErrors_def or_default_def Let_def)
qed

end
