(* ===== verification/Shared_Start.thy ===== *)
theory Shared_Start
  imports Prelude
begin

text \<open>
  Work that is started by its first caller and shared by the others: the creation of the session schema
  (\<open>ensureSchema\<close> of \<^verbatim>\<open>apps/start/src/server/oidc/session-store.ts\<close>) and the discovery of the identity
  provider (\<open>createConfigProvider\<close> of \<^verbatim>\<open>packages/oidc/src/config.ts\<close>, used by \<open>getOidcConfig\<close> of
  \<^verbatim>\<open>apps/start/src/server/oidc/client.ts\<close>).

  Both keep a promise in a variable, start the work when there is none, and drop the promise when it
  fails. A promise is the number of its run; a run is a number of steps that are awaited one after the
  other (three statements, one discovery). It is proved that at most one run is under way, that a success
  is final and shared by every later call, and that a failure is retried.
\<close>

section \<open>The shared run\<close>

datatype run_state = Running nat | Succeeded | Failed_at nat

record shared_start =
  ss_ready :: "nat option"
  ss_runs :: "run_state list"

definition no_runs :: shared_start where "no_runs = \<lparr>ss_ready = None, ss_runs = []\<rparr>"

text \<open>A call: \<open>starts\<close> is whether what comes before the first await does not throw.\<close>

definition shared_call :: "bool \<Rightarrow> shared_start \<Rightarrow> shared_start \<times> nat option" where
  "shared_call starts m =
     (case ss_ready m of
        Some p \<Rightarrow> (m, Some p)
      | None \<Rightarrow>
          if \<not> starts then (m, None)
          else (m\<lparr>ss_ready := Some (length (ss_runs m)), ss_runs := ss_runs m @ [Running 0]\<rparr>, Some (length (ss_runs m))))"

text \<open>The awaited step of run \<open>p\<close> ends, well or not; \<open>steps\<close> is the number of steps.\<close>

definition shared_step :: "nat \<Rightarrow> nat \<Rightarrow> bool \<Rightarrow> shared_start \<Rightarrow> shared_start" where
  "shared_step steps p ok m =
     (if p < length (ss_runs m)
      then case ss_runs m ! p of
          Running k \<Rightarrow>
            if ok then m\<lparr>ss_runs := (ss_runs m)[p := (if Suc k = steps then Succeeded else Running (Suc k))]\<rparr>
            else m\<lparr>ss_runs := (ss_runs m)[p := Failed_at k], ss_ready := None\<rparr>
        | _ \<Rightarrow> m
      else m)"

text \<open>The statements of the schema, in their order, and the two users of the scheme.\<close>

definition schema_statements :: "string list" where
  "schema_statements =
     [''CREATE TABLE IF NOT EXISTS web_sessions'', ''CREATE INDEX IF NOT EXISTS web_sessions_expires_at_idx ON web_sessions (expires_at)'',
      ''CREATE INDEX IF NOT EXISTS web_sessions_sub_idx ON web_sessions (sub)'']"

definition ensureSchema :: "bool \<Rightarrow> shared_start \<Rightarrow> shared_start \<times> nat option" where
  "ensureSchema connects m = shared_call connects m"

definition schema_step :: "nat \<Rightarrow> bool \<Rightarrow> shared_start \<Rightarrow> shared_start" where
  "schema_step = shared_step (length schema_statements)"

text \<open>
  The discovery is confidential where the secret is not empty, and public otherwise; \<open>valid\<close> is whether
  the issuer is a URL.
\<close>

datatype discovery_auth = Client_secret string | No_secret

definition discovery_auth_of :: "string option \<Rightarrow> discovery_auth" where
  "discovery_auth_of clientSecret = (if truthy clientSecret then Client_secret (the clientSecret) else No_secret)"

definition configProvider :: "bool \<Rightarrow> shared_start \<Rightarrow> shared_start \<times> nat option" where
  "configProvider valid m = shared_call valid m"

definition discovery_step :: "nat \<Rightarrow> bool \<Rightarrow> shared_start \<Rightarrow> shared_start" where
  "discovery_step = shared_step 1"

text \<open>\<open>getOidcConfig\<close>: the environment is read, and the provider made, by the first call that finds all three variables.\<close>

record oidc_client =
  oc_provider :: "(string \<times> string \<times> string) option"
  oc_config :: shared_start

definition getOidcConfig :: "(string \<Rightarrow> string option) \<Rightarrow> (string \<Rightarrow> bool) \<Rightarrow> oidc_client \<Rightarrow> oidc_client \<times> (string + nat option)" where
  "getOidcConfig env is_url c =
     (let call = (\<lambda>c p. let (m, r) = configProvider (is_url (fst p)) (oc_config c) in (c\<lparr>oc_config := m\<rparr>, Inr r))
      in case oc_provider c of
           Some p \<Rightarrow> call c p
         | None \<Rightarrow>
             if \<not> truthy (env ''PIVOX_OIDC_ISSUER'') then (c, Inl ''PIVOX_OIDC_ISSUER'')
             else if \<not> truthy (env ''PIVOX_OIDC_CLIENT_ID'') then (c, Inl ''PIVOX_OIDC_CLIENT_ID'')
             else if \<not> truthy (env ''PIVOX_OIDC_CLIENT_SECRET'') then (c, Inl ''PIVOX_OIDC_CLIENT_SECRET'')
             else let p = (the (env ''PIVOX_OIDC_ISSUER''), the (env ''PIVOX_OIDC_CLIENT_ID''), the (env ''PIVOX_OIDC_CLIENT_SECRET''))
               in call (c\<lparr>oc_provider := Some p\<rparr>) p)"

section \<open>What callers rely on\<close>

datatype shared_event = Called bool | Step_ended nat bool

fun shared_act :: "nat \<Rightarrow> shared_event \<Rightarrow> shared_start \<Rightarrow> shared_start" where
  "shared_act steps (Called starts) m = fst (shared_call starts m)"
| "shared_act steps (Step_ended p ok) m = shared_step steps p ok m"

definition failed_run :: "run_state \<Rightarrow> bool" where
  "failed_run r = (case r of Failed_at k \<Rightarrow> True | _ \<Rightarrow> False)"

text \<open>All runs but the last have failed, and the promise is that of the last unless it has failed too.\<close>

definition shared_ok :: "nat \<Rightarrow> shared_start \<Rightarrow> bool" where
  "shared_ok steps m \<longleftrightarrow>
     list_all failed_run (butlast (ss_runs m))
     \<and> ss_ready m = (if ss_runs m = [] \<or> failed_run (last (ss_runs m)) then None else Some (length (ss_runs m) - 1))
     \<and> (\<forall>k. Running k \<in> set (ss_runs m) \<longrightarrow> k < steps)"

lemma shared_call_ok: "shared_ok steps m \<Longrightarrow> 0 < steps \<Longrightarrow> shared_ok steps (fst (shared_call starts m))"
proof (cases "ss_ready m")
  case None
  assume "shared_ok steps m" "0 < steps"
  then have "list_all failed_run (ss_runs m)" using None
    by (cases "ss_runs m" rule: rev_cases) (auto simp: shared_ok_def split: if_splits)
  with None \<open>shared_ok steps m\<close> \<open>0 < steps\<close> show ?thesis
    by (auto simp: shared_ok_def shared_call_def failed_run_def split: if_splits)
qed (simp add: shared_call_def)

lemma shared_step_ok: "shared_ok steps m \<Longrightarrow> shared_ok steps (shared_step steps p ok m)"
proof (cases "p < length (ss_runs m) \<and> (\<exists>k. ss_runs m ! p = Running k)")
  case True
  assume ok': "shared_ok steps m"
  obtain k where p: "p < length (ss_runs m)" "ss_runs m ! p = Running k" using True by blast
  obtain rs r where runs: "ss_runs m = rs @ [r]" using p(1) by (cases "ss_runs m" rule: rev_cases) auto
  have "p = length rs"
  proof (rule ccontr)
    assume "p \<noteq> length rs"
    then have "p < length rs" using p(1) runs by simp
    then have "failed_run (ss_runs m ! p)" using ok' runs by (simp add: shared_ok_def list_all_length nth_append)
    with p(2) show False by (simp add: failed_run_def)
  qed
  moreover have "k < steps" using ok' p nth_mem by (metis shared_ok_def)
  ultimately show ?thesis using ok' p runs by (auto simp: shared_ok_def shared_step_def failed_run_def)
next
  case False
  then have "shared_step steps p ok m = m" by (auto simp: shared_step_def split: run_state.split)
  then show "shared_ok steps m \<Longrightarrow> ?thesis" by simp
qed

lemma shared_run_ok:
  assumes "0 < steps"
  shows "shared_ok steps (fold (shared_act steps) es no_runs)"
proof -
  have "shared_ok steps (shared_act steps e m)" if "shared_ok steps m" for e m
    using that assms by (cases e) (simp_all add: shared_call_ok shared_step_ok)
  then have "shared_ok steps (fold (shared_act steps) es m)" if "shared_ok steps m" for m
    using that by (induction es arbitrary: m) simp_all
  moreover have "shared_ok steps no_runs" by (simp add: shared_ok_def no_runs_def)
  ultimately show ?thesis by blast
qed

lemma shared_success_final:
  assumes "shared_ok steps m" "Succeeded \<in> set (ss_runs m)"
  shows "ss_ready m = Some (length (ss_runs m) - 1)" "last (ss_runs m) = Succeeded" "shared_act steps e m = m"
proof -
  obtain rs r where runs: "ss_runs m = rs @ [r]" using assms(2) by (cases "ss_runs m" rule: rev_cases) auto
  have rs: "list_all failed_run rs" using assms(1) runs by (simp add: shared_ok_def)
  then have "Succeeded \<notin> set rs" by (auto simp: list_all_iff failed_run_def)
  then have r: "r = Succeeded" using assms(2) runs by auto
  then show l: "last (ss_runs m) = Succeeded" using runs by simp
  show ready: "ss_ready m = Some (length (ss_runs m) - 1)"
    using assms(1) runs r by (simp add: shared_ok_def failed_run_def)
  have "shared_step steps p ok m = m" for p ok
  proof (cases "p < length rs")
    case True
    then have "failed_run (rs ! p)" using rs by (simp add: list_all_length)
    then show ?thesis using True runs by (cases "rs ! p") (auto simp: shared_step_def nth_append failed_run_def)
  qed (use runs r in \<open>auto simp: shared_step_def nth_append\<close>)
  then show "shared_act steps e m = m" using ready by (cases e) (simp_all add: shared_call_def)
qed

lemma shared_success_stays:
  assumes "shared_ok steps m" "Succeeded \<in> set (ss_runs m)"
  shows "fold (shared_act steps) es m = m"
  using shared_success_final(3) [OF assms] by (induction es) simp_all

lemma shared_one_running:
  assumes "shared_ok steps m"
  shows "length (filter (\<lambda>r. \<not> failed_run r) (ss_runs m)) \<le> 1"
  using assms by (cases "ss_runs m" rule: rev_cases)
    (auto simp: shared_ok_def list_all_iff filter_empty_conv)

text \<open>A call joins the run that has not failed, or starts a new one.\<close>

lemma shared_call_joins:
  assumes "shared_ok steps m"
  shows "if list_all failed_run (ss_runs m)
      then shared_call starts m =
        (if starts then (\<lparr>ss_ready = Some (length (ss_runs m)), ss_runs = ss_runs m @ [Running 0]\<rparr>, Some (length (ss_runs m))) else (m, None))
      else shared_call starts m = (m, Some (length (ss_runs m) - 1)) \<and> \<not> failed_run (last (ss_runs m))"
proof (cases "list_all failed_run (ss_runs m)")
  case True
  then have "ss_ready m = None" using assms by (cases "ss_runs m" rule: rev_cases) (auto simp: shared_ok_def)
  with True show ?thesis by (cases m) (simp add: shared_call_def)
next
  case False
  then have "ss_runs m \<noteq> []" "\<not> failed_run (last (ss_runs m))"
    using assms by (cases "ss_runs m" rule: rev_cases; simp add: shared_ok_def)+
  with False assms show ?thesis by (simp add: shared_call_def shared_ok_def)
qed

lemma shared_steps_finish:
  assumes "p < length (ss_runs m)" "ss_runs m ! p = Running k" "k + n = steps" "0 < n"
  shows "ss_runs (fold (shared_act steps) (replicate n (Step_ended p True)) m) ! p = Succeeded"
  using assms
proof (induction n arbitrary: m k)
  case (Suc n)
  show ?case
  proof (cases "n = 0")
    case False
    from Suc.prems False have "Suc k \<noteq> steps" by simp
    with Suc.prems have "shared_step steps p True m = m\<lparr>ss_runs := (ss_runs m)[p := Running (Suc k)]\<rparr>" by (simp add: shared_step_def)
    with Suc.IH [of "m\<lparr>ss_runs := (ss_runs m)[p := Running (Suc k)]\<rparr>" "Suc k"] Suc.prems False show ?thesis by simp
  qed (use Suc.prems in \<open>simp add: shared_step_def\<close>)
qed simp

definition schema_act :: "shared_event \<Rightarrow> shared_start \<Rightarrow> shared_start" where
  "schema_act = shared_act (length schema_statements)"

text \<open>
  C25. The session schema is created once and a failure is retried: after any calls and any ends of statements,
  in any order, at most one creation is under way or done; a call joins it, and where every creation so
  far has failed it starts a new one (or throws, without a database URL), which is done after its three
  statements; once a creation is done, no later event starts another or changes what callers share.
\<close>

theorem schema_is_created_once:
  "let m = fold schema_act es no_runs; runs = ss_runs m; (m', r) = ensureSchema connects m in
     length (filter (\<lambda>x. \<not> failed_run x) runs) \<le> 1
     \<and> (if list_all failed_run runs
        then (if connects
          then r = Some (length runs) \<and> ss_runs m' = runs @ [Running 0]
            \<and> ss_runs (fold schema_act (replicate 3 (Step_ended (length runs) True)) m') ! length runs = Succeeded
          else r = None \<and> m' = m)
        else r = Some (length runs - 1) \<and> m' = m)
     \<and> (if Succeeded \<in> set runs then fold schema_act later m = m \<and> last runs = Succeeded else True)"
proof -
  have three: "length schema_statements = 3" by (simp add: schema_statements_def)
  let ?m = "fold schema_act es no_runs"
  have ok: "shared_ok 3 ?m" using shared_run_ok [of 3 es] by (simp add: schema_act_def three)
  have call: "ensureSchema connects ?m =
      (if list_all failed_run (ss_runs ?m)
       then if connects then (\<lparr>ss_ready = Some (length (ss_runs ?m)), ss_runs = ss_runs ?m @ [Running 0]\<rparr>, Some (length (ss_runs ?m))) else (?m, None)
       else (?m, Some (length (ss_runs ?m) - 1)))"
    using shared_call_joins [OF ok, of connects] by (auto simp: ensureSchema_def split: if_splits)
  have done': "ss_runs (fold schema_act (replicate 3 (Step_ended (length (ss_runs ?m)) True))
      \<lparr>ss_ready = Some (length (ss_runs ?m)), ss_runs = ss_runs ?m @ [Running 0]\<rparr>) ! length (ss_runs ?m) = Succeeded"
    unfolding schema_act_def three by (rule shared_steps_finish [where k = 0]) simp_all
  have final: "if Succeeded \<in> set (ss_runs ?m) then fold schema_act later ?m = ?m \<and> last (ss_runs ?m) = Succeeded else True"
    using shared_success_stays [OF ok, of later] shared_success_final(2) [OF ok] unfolding schema_act_def three by simp
  show ?thesis unfolding Let_def call
    by (cases "list_all failed_run (ss_runs ?m)"; cases connects)
      (insert shared_one_running [OF ok] final done', simp_all only: if_True if_False prod.case shared_start.select_convs simp_thms)
qed

end
