(* ===== verification/Workflow_Detail.thy ===== *)
theory Workflow_Detail
  imports Resource_Admin
begin

text \<open>
  The detail page of a workflow (\<^verbatim>\<open>apps/start/src/features/workflows/scoped-workflow-detail.tsx\<close>):
  the record it reads, the version its canvas shows, and the settings form with its save; and the queries
  of \<open>useWorkflowDefinition\<close> (\<^verbatim>\<open>packages/features/src/workflows/use-workflow-definition.ts\<close>).

  The query library is a parameter: a fetch brings another record, or fails, at any time; of the tabs the
  code relies on this, that a panel is mounted only while it is the open one. It is proved that a save
  changes exactly the workflow of the page, with the fields as they are and the tag last read, one save of
  a form at a time, what keeps a form and what unmounts it; and which version names the canvas loads and
  which make it throw.
\<close>

section \<open>Addresses\<close>

definition VERSIONS_PATH :: string where
  "VERSIONS_PATH = ''/v1/organizations/{organization}/workflows/{workflow}/versions''"

definition SPACE_VERSIONS_PATH :: string where
  "SPACE_VERSIONS_PATH = ''/v1/organizations/{organization}/spaces/{space}/workflows/{workflow}/versions''"

definition WORKFLOW_ORG :: string where "WORKFLOW_ORG = ''/v1/organizations/{organization}/workflows/{workflow}''"

definition VERSION_ORG :: string where
  "VERSION_ORG = ''/v1/organizations/{organization}/workflows/{workflow}/versions/{version}''"

definition scopedWorkflowsListRoute :: "string \<Rightarrow> string option \<Rightarrow> string" where
  "scopedWorkflowsListRoute orgSlug spaceSlug =
     (if truthy spaceSlug then ''/organizations/'' @ orgSlug @ ''/spaces/'' @ the spaceSlug @ ''/workflows''
      else ''/organizations/'' @ orgSlug @ ''/workflows'')"

text \<open>The page's own queries: the record and its versions; of the two declared ones the one of the scope is enabled.\<close>

definition detail_query :: "string \<Rightarrow> string option \<Rightarrow> string \<Rightarrow> request" where
  "detail_query organization space workflowId =
     item_request GET WORKFLOW_PATH SPACE_WORKFLOW_PATH ''workflow'' [] None (organization, space, workflowId)"

definition versions_query :: "string \<Rightarrow> string option \<Rightarrow> string \<Rightarrow> request" where
  "versions_query organization space workflowId =
     item_request GET VERSIONS_PATH SPACE_VERSIONS_PATH ''workflow'' [] None (organization, space, workflowId)"

definition versionId :: "string option \<Rightarrow> name_error + string" where
  "versionId name =
     (if \<not> truthy name then Inr []
      else map_sum id (\<lambda>m. or_default (map_of m ''versions'') []) (parseResourceName (the name)))"

section \<open>The definition of a version\<close>

text \<open>
  The query for the version, where the hook has a version name to show: the guard first, then the parameters
  of the name, of which a missing one is the empty string.
\<close>

definition version_request :: "string \<Rightarrow> name_error + request" where
  "version_request name =
     map_sum id (\<lambda>p. \<lparr>rq_method = GET, rq_path = VERSION_ORG,
         rq_params = [(''organization'', or_default (map_of p ''organization'') []), (''workflow'', or_default (map_of p ''workflow'') []),
           (''version'', or_default (map_of p ''version'') [])], rq_query = [], rq_body = None\<rparr>)
       (resourcePathParams name)"

definition useWorkflowDefinition_query :: "string \<Rightarrow> (name_error + string) + request" where
  "useWorkflowDefinition_query name =
     bind_result (useWorkflowDefinition_guard name) (\<lambda>u. map_sum Inl id (version_request name))"

section \<open>The version that is shown\<close>

definition active_version :: "string option \<Rightarrow> string option \<Rightarrow> string list \<Rightarrow> string option" where
  "active_version selected liveVersion versions =
     (if selected \<noteq> None then selected else if liveVersion \<noteq> None then liveVersion else case versions of [] \<Rightarrow> None | v # _ \<Rightarrow> Some v)"

definition isLive :: "string option \<Rightarrow> string option \<Rightarrow> bool" where
  "isLive liveVersion name \<longleftrightarrow> truthy name \<and> name = liveVersion"

section \<open>The settings form\<close>

record workflow_record =
  wr_displayName :: "string option"
  wr_description :: "string option"
  wr_enabled :: "bool option"
  wr_version :: "string option"
  wr_etag :: "string option"

record settings_form =
  sf_name :: string
  sf_text :: string
  sf_enabled :: bool
  sf_pending :: bool
  sf_error :: "string option"

definition settings_mount :: "workflow_record \<Rightarrow> settings_form" where
  "settings_mount workflow =
     \<lparr>sf_name = or_default (wr_displayName workflow) [], sf_text = or_default (wr_description workflow) [],
      sf_enabled = or_default (wr_enabled workflow) False, sf_pending = False, sf_error = None\<rparr>"

text \<open>The body of the change: the three fields, and the tag where the record has one.\<close>

record workflow_update =
  wu_displayName :: string
  wu_description :: string
  wu_enabled :: bool
  wu_etag :: "string option"

definition settings_body :: "workflow_record \<Rightarrow> settings_form \<Rightarrow> workflow_update" where
  "settings_body workflow form =
     \<lparr>wu_displayName = sf_name form, wu_description = sf_text form, wu_enabled = sf_enabled form,
      wu_etag = (if truthy (wr_etag workflow) then wr_etag workflow else None)\<rparr>"

definition settings_request :: "string \<Rightarrow> string option \<Rightarrow> string \<Rightarrow> request" where
  "settings_request organization space workflowId =
     item_request PATCH WORKFLOW_PATH SPACE_WORKFLOW_PATH ''workflow'' [] None (organization, space, workflowId)"

text \<open>How a save ends: answered well, answered with an error, or with a rejected promise, which nothing catches.\<close>

datatype save_answer = Save_done | Save_refused "string option" | Save_rejected

definition SAVE_TEXT :: string where "SAVE_TEXT = ''Couldn'' @ [CHR 39] @ ''t save changes.''"

definition settings_submit :: "settings_form \<Rightarrow> settings_form" where
  "settings_submit form = form\<lparr>sf_pending := True, sf_error := None\<rparr>"

definition settings_ended :: "save_answer \<Rightarrow> settings_form \<Rightarrow> settings_form \<times> bool" where
  "settings_ended answer form =
     (case answer of
        Save_done \<Rightarrow> (form\<lparr>sf_pending := False\<rparr>, True)
      | Save_refused message \<Rightarrow> (form\<lparr>sf_pending := False, sf_error := Some (or_default message SAVE_TEXT)\<rparr>, False)
      | Save_rejected \<Rightarrow> (form, False))"

text \<open>
  The page with its form, for the workflow of one address. The record comes with the query and is
  kept when a refetch fails; the error stands until a fetch succeeds. With an error, or without a record,
  the notice takes the place of the tabs, and a panel of the tabs is mounted only while it is the
  open one: whenever the settings are not shown their form is unmounted and what was typed is gone, and
  when they are shown again a form is mounted from the record, the tabs beginning at the definition.
  The forms are numbered in the order of their mounts; \<open>dp_saves\<close> names the forms whose save
  is not answered.
\<close>

datatype detail_tab = Definition_tab | Versions_tab | Settings_tab | Runs_tab

record detail_page =
  dp_workflow :: "workflow_record option"
  dp_failed :: bool
  dp_tab :: detail_tab
  dp_form :: "settings_form option"
  dp_forms :: nat
  dp_saves :: "nat list"

definition detail_mount :: detail_page where
  "detail_mount = \<lparr>dp_workflow = None, dp_failed = False, dp_tab = Definition_tab, dp_form = None, dp_forms = 0, dp_saves = []\<rparr>"

definition body_shown :: "detail_page \<Rightarrow> bool" where
  "body_shown p \<longleftrightarrow> \<not> dp_failed p \<and> dp_workflow p \<noteq> None"

definition detail_render :: "detail_page \<Rightarrow> detail_page" where
  "detail_render p =
     (if \<not> body_shown p then p\<lparr>dp_tab := Definition_tab, dp_form := None\<rparr>
      else if dp_tab p \<noteq> Settings_tab then p\<lparr>dp_form := None\<rparr>
      else if dp_form p = None then p\<lparr>dp_form := map_option settings_mount (dp_workflow p), dp_forms := Suc (dp_forms p)\<rparr>
      else p)"

text \<open>
  What happens: the query answers or fails, a tab is opened, the user types (the fields are disabled
  while a save is under way, and so is the button, which also keeps the enter key from submitting), a save
  of the form with that number ends. A step gives the change that is sent, if any, and whether the
  record is to be refetched, which the closure of a form that is gone still asks for.
\<close>

datatype detail_event =
  Fetched workflow_record
| Fetch_failed
| Open_tab detail_tab
| Type_name string
| Type_text string
| Set_enabled bool
| Save_settings
| Save_ended nat save_answer

definition edit_form :: "(settings_form \<Rightarrow> settings_form) \<Rightarrow> detail_page \<Rightarrow> detail_page" where
  "edit_form f p =
     (case dp_form p of
        Some form \<Rightarrow> if sf_pending form then p else p\<lparr>dp_form := Some (f form)\<rparr>
      | None \<Rightarrow> p)"

definition save_settings :: "detail_page \<Rightarrow> detail_page \<times> workflow_update option" where
  "save_settings p =
     (case (dp_form p, dp_workflow p) of
        (Some form, Some workflow) \<Rightarrow>
          if sf_pending form then (p, None)
          else (p\<lparr>dp_form := Some (settings_submit form), dp_saves := dp_forms p # dp_saves p\<rparr>, Some (settings_body workflow form))
      | _ \<Rightarrow> (p, None))"

definition save_ended :: "nat \<Rightarrow> save_answer \<Rightarrow> detail_page \<Rightarrow> detail_page \<times> bool" where
  "save_ended n answer p =
     (if n \<notin> set (dp_saves p) then (p, False)
      else let p' = p\<lparr>dp_saves := remove1 n (dp_saves p)\<rparr>
        in (case dp_form p of
              Some form \<Rightarrow> if n = dp_forms p then p'\<lparr>dp_form := Some (fst (settings_ended answer form))\<rparr> else p'
            | None \<Rightarrow> p',
            answer = Save_done))"

definition detail_step :: "detail_event \<Rightarrow> detail_page \<Rightarrow> detail_page \<times> workflow_update option \<times> bool" where
  "detail_step e p =
     (case e of
        Fetched workflow \<Rightarrow> (detail_render (p\<lparr>dp_workflow := Some workflow, dp_failed := False\<rparr>), None, False)
      | Fetch_failed \<Rightarrow> (detail_render (p\<lparr>dp_failed := True\<rparr>), None, False)
      | Open_tab t \<Rightarrow> ((if body_shown p then detail_render (p\<lparr>dp_tab := t\<rparr>) else p), None, False)
      | Type_name s \<Rightarrow> (edit_form (\<lambda>form. form\<lparr>sf_name := s\<rparr>) p, None, False)
      | Type_text s \<Rightarrow> (edit_form (\<lambda>form. form\<lparr>sf_text := s\<rparr>) p, None, False)
      | Set_enabled b \<Rightarrow> (edit_form (\<lambda>form. form\<lparr>sf_enabled := b\<rparr>) p, None, False)
      | Save_settings \<Rightarrow> (case save_settings p of (p', out) \<Rightarrow> (p', out, False))
      | Save_ended n answer \<Rightarrow> (case save_ended n answer p of (p', refetch) \<Rightarrow> (p', None, refetch)))"

fun detail_run :: "detail_event list \<Rightarrow> detail_page \<Rightarrow> detail_page \<times> workflow_update list" where
  "detail_run [] p = (p, [])"
| "detail_run (e # es) p =
     (case detail_step e p of (p1, out, refetch) \<Rightarrow>
        case detail_run es p1 of (p2, outs) \<Rightarrow> (p2, (case out of None \<Rightarrow> [] | Some u \<Rightarrow> [u]) @ outs))"

section \<open>A save changes its workflow\<close>

text \<open>The record last fetched.\<close>

fun last_record :: "detail_event list \<Rightarrow> workflow_record option \<Rightarrow> workflow_record option" where
  "last_record [] w = w"
| "last_record (Fetched w' # es) w = last_record es (Some w')"
| "last_record (_ # es) w = last_record es w"

lemma render_frame [simp]: "dp_workflow (detail_render p) = dp_workflow p" "dp_failed (detail_render p) = dp_failed p"
  "dp_saves (detail_render p) = dp_saves p"
  by (simp_all add: detail_render_def)

lemma detail_step_record: "dp_workflow (fst (detail_step e p)) = last_record [e] (dp_workflow p)"
  by (cases e) (simp_all add: detail_step_def edit_form_def save_settings_def save_ended_def Let_def split: option.split)

lemma detail_run_record: "dp_workflow (fst (detail_run es p)) = last_record es (dp_workflow p)"
proof (induction es arbitrary: p)
  case (Cons e es)
  have "last_record (e # es) (dp_workflow p) = last_record es (last_record [e] (dp_workflow p))" by (cases e) simp_all
  with Cons.IH [of "fst (detail_step e p)"] show ?case by (simp add: split_def detail_step_record)
qed simp

text \<open>
  Between the events: a form is there only with a record and while the settings are shown; no form has
  two saves under way, and one that is not pending has none.
\<close>

definition detail_ok :: "detail_page \<Rightarrow> bool" where
  "detail_ok p \<longleftrightarrow>
     (dp_form p \<noteq> None \<longrightarrow> body_shown p \<and> dp_tab p = Settings_tab)
     \<and> distinct (dp_saves p) \<and> (\<forall>n \<in> set (dp_saves p). n \<le> dp_forms p)
     \<and> (case dp_form p of Some form \<Rightarrow> sf_pending form \<or> dp_forms p \<notin> set (dp_saves p) | None \<Rightarrow> True)"

lemma detail_okD:
  assumes "detail_ok p"
  shows "dp_form p = Some form \<Longrightarrow> body_shown p \<and> dp_tab p = Settings_tab" "distinct (dp_saves p)"
    "n \<in> set (dp_saves p) \<Longrightarrow> n \<le> dp_forms p" "dp_form p = Some form \<Longrightarrow> \<not> sf_pending form \<Longrightarrow> dp_forms p \<notin> set (dp_saves p)"
  using assms by (auto simp: detail_ok_def)

text \<open>A new record, an error or another tab, then the render.\<close>

lemma render_ok:
  assumes "distinct (dp_saves p)" "\<forall>n \<in> set (dp_saves p). n \<le> dp_forms p"
    and "\<And>form. dp_form p = Some form \<Longrightarrow> sf_pending form \<or> dp_forms p \<notin> set (dp_saves p)"
  shows "detail_ok (detail_render p)"
proof (cases "body_shown p \<and> dp_tab p = Settings_tab")
  case True
  have "Suc (dp_forms p) \<notin> set (dp_saves p)" using assms(2) by fastforce
  then show ?thesis
    using True assms by (cases "dp_form p") (auto simp: detail_ok_def detail_render_def body_shown_def)
next
  case False
  then show ?thesis using assms(1,2) by (auto simp: detail_ok_def detail_render_def body_shown_def)
qed

lemma edit_form_ok:
  "detail_ok p \<Longrightarrow> (\<And>form. sf_pending (f form) = sf_pending form) \<Longrightarrow> detail_ok (edit_form f p)"
  by (auto simp: detail_ok_def edit_form_def body_shown_def split: option.splits)

lemma save_settings_ok: "detail_ok p \<Longrightarrow> detail_ok (fst (save_settings p))"
  by (auto simp: detail_ok_def save_settings_def settings_submit_def body_shown_def split: option.splits)

lemma save_ended_ok:
  assumes "detail_ok p"
  shows "detail_ok (fst (save_ended n answer p))"
proof (cases "n \<in> set (dp_saves p)")
  case True
  note ok = detail_okD [OF assms]
  have rest: "set (remove1 n (dp_saves p)) = set (dp_saves p) - {n}" using ok(2) by simp
  show ?thesis
  proof (cases "dp_form p")
    case (Some form)
    then show ?thesis
      using True assms ok(2) rest
      by (cases "n = dp_forms p") (auto simp: detail_ok_def save_ended_def body_shown_def Let_def)
  qed (use True assms rest in \<open>auto simp: detail_ok_def save_ended_def body_shown_def Let_def\<close>)
qed (use assms in \<open>simp add: save_ended_def\<close>)

lemma detail_step_ok:
  assumes "detail_ok p"
  shows "detail_ok (fst (detail_step e p))"
proof -
  note ok = detail_okD [OF assms]
  have kept: "detail_ok (detail_render p')" if "dp_saves p' = dp_saves p" "dp_forms p' = dp_forms p" "dp_form p' = dp_form p" for p'
    by (rule render_ok) (use that ok in auto)
  show ?thesis
    using assms kept edit_form_ok [OF assms] save_settings_ok [OF assms] save_ended_ok [OF assms]
    by (cases e) (simp_all add: detail_step_def split_def)
qed

lemma detail_run_ok: "detail_ok p \<Longrightarrow> detail_ok (fst (detail_run es p))"
proof (induction es arbitrary: p)
  case (Cons e es)
  from Cons.IH [OF detail_step_ok [OF Cons.prems]] show ?case by (simp add: split_def)
qed simp

lemma detail_mount_ok: "detail_ok detail_mount"
  by (simp add: detail_ok_def detail_mount_def)

text \<open>
  C35. A save of the settings changes exactly the workflow of the page, at any moment of the page: its
  request is a PATCH whose path addresses the name of this workflow, below its space if it has one;
  the save button sends one, with the three fields as they stand and the tag of the record last fetched, if
  the form is shown and none of its saves is under way, and nothing otherwise, so that no form ever
  has two saves under way. A fetch that succeeds leaves a form that is shown as it is; one that fails
  unmounts it, and once the record is back and the settings are opened the fields are those of the record.
  The end of a save of the form that is shown frees it: a success keeps the fields and asks for the
  record, a refusal shows its message; the end of a save of a form that is gone leaves the present one alone.
\<close>

theorem settings_save_changes_its_workflow:
  assumes "path_serializer ser" and "utf8 org" "pred_option utf8 sp" "utf8 ident"
    and "wf_segments (scoped_segments ''workflows'' org sp ident)"
    and "p = fst (detail_run es detail_mount)"
  shows "goes_to ser (settings_request org sp ident) (scoped_segments ''workflows'' org sp ident)
     \<and> rq_method (settings_request org sp ident) = PATCH
     \<and> distinct (dp_saves p)
     \<and> (case dp_form p of
          None \<Rightarrow> detail_step Save_settings p = (p, None, False)
        | Some form \<Rightarrow>
            (if sf_pending form then detail_step Save_settings p = (p, None, False)
             else \<exists>w. last_record es None = Some w \<and> detail_step Save_settings p
               = (p\<lparr>dp_form := Some (form\<lparr>sf_pending := True, sf_error := None\<rparr>), dp_saves := dp_forms p # dp_saves p\<rparr>,
                  Some \<lparr>wu_displayName = sf_name form, wu_description = sf_text form, wu_enabled = sf_enabled form,
                    wu_etag = (if truthy (wr_etag w) then wr_etag w else None)\<rparr>, False))
            \<and> dp_form (fst (detail_step (Fetched w') p)) = Some form
            \<and> (\<forall>n \<in> set (dp_saves p).
                 dp_form (fst (detail_step (Save_ended n Save_done) p))
                     = Some (if n = dp_forms p then form\<lparr>sf_pending := False\<rparr> else form)
                 \<and> snd (detail_step (Save_ended n Save_done) p) = (None, True)
                 \<and> dp_form (fst (detail_step (Save_ended n (Save_refused m)) p))
                     = Some (if n = dp_forms p then form\<lparr>sf_pending := False, sf_error := Some (or_default m SAVE_TEXT)\<rparr> else form)))
     \<and> dp_form (fst (detail_step Fetch_failed p)) = None
     \<and> dp_form (fst (detail_run [Fetch_failed, Fetched w', Open_tab Settings_tab] p)) = Some (settings_mount w')"
proof (intro conjI)
  let ?segs = "scoped_segments ''workflows'' org sp ident"
  have "text_segments ?segs" using assms(2-4) text_collections by (simp add: text_scoped)
  from workflow_route.item_request_url [OF assms(5) this refl assms(1), of PATCH "[]" None]
  obtain r where r: "map_sum id (item_request PATCH WORKFLOW_PATH SPACE_WORKFLOW_PATH ''workflow'' [] None) (workflowItemParams (format_name ?segs)) = Inr r"
      "goes_to ser r ?segs" "rq_method r = PATCH" by blast
  then have "settings_request org sp ident = r"
    by (simp add: settings_request_def workflow_route.item_of_name [OF assms(5)])
  with r show "goes_to ser (settings_request org sp ident) ?segs" "rq_method (settings_request org sp ident) = PATCH" by simp_all
  have ok: "detail_ok p" unfolding assms(6) by (rule detail_run_ok [OF detail_mount_ok])
  then show "distinct (dp_saves p)" by (rule detail_okD(2))
  have last: "dp_workflow p = last_record es None"
    using detail_run_record [of es detail_mount] unfolding assms(6) by (simp add: detail_mount_def)
  show "dp_form (fst (detail_step Fetch_failed p)) = None"
    by (simp add: detail_step_def detail_render_def body_shown_def)
  show "dp_form (fst (detail_run [Fetch_failed, Fetched w', Open_tab Settings_tab] p)) = Some (settings_mount w')"
    by (simp add: detail_step_def detail_render_def body_shown_def)
  show "case dp_form p of
          None \<Rightarrow> detail_step Save_settings p = (p, None, False)
        | Some form \<Rightarrow>
            (if sf_pending form then detail_step Save_settings p = (p, None, False)
             else \<exists>w. last_record es None = Some w \<and> detail_step Save_settings p
               = (p\<lparr>dp_form := Some (form\<lparr>sf_pending := True, sf_error := None\<rparr>), dp_saves := dp_forms p # dp_saves p\<rparr>,
                  Some \<lparr>wu_displayName = sf_name form, wu_description = sf_text form, wu_enabled = sf_enabled form,
                    wu_etag = (if truthy (wr_etag w) then wr_etag w else None)\<rparr>, False))
            \<and> dp_form (fst (detail_step (Fetched w') p)) = Some form
            \<and> (\<forall>n \<in> set (dp_saves p).
                 dp_form (fst (detail_step (Save_ended n Save_done) p))
                     = Some (if n = dp_forms p then form\<lparr>sf_pending := False\<rparr> else form)
                 \<and> snd (detail_step (Save_ended n Save_done) p) = (None, True)
                 \<and> dp_form (fst (detail_step (Save_ended n (Save_refused m)) p))
                     = Some (if n = dp_forms p then form\<lparr>sf_pending := False, sf_error := Some (or_default m SAVE_TEXT)\<rparr> else form))"
  proof (cases "dp_form p")
    case (Some form)
    then have shown: "body_shown p" "dp_tab p = Settings_tab" using detail_okD(1) [OF ok] by simp_all
    then obtain w where w: "dp_workflow p = Some w" by (auto simp: body_shown_def)
    have kept: "dp_form (fst (detail_step (Fetched w') p)) = Some form"
      using Some shown by (simp add: detail_step_def detail_render_def body_shown_def)
    show ?thesis
      using Some w kept last
      by (auto simp: detail_step_def save_settings_def settings_submit_def settings_body_def save_ended_def settings_ended_def Let_def)
  qed (simp add: detail_step_def save_settings_def)
qed

text \<open>The witness: the name of a workflow of a space is changed and saved.\<close>

lemma settings_save_changes_its_workflow_witness:
  "let w = \<lparr>wr_displayName = None, wr_description = None, wr_enabled = None, wr_version = None, wr_etag = Some ''7''\<rparr>;
       p = fst (detail_run [Fetched w, Open_tab Settings_tab, Type_name ''Nightly''] detail_mount)
   in sample_client (rq_path (settings_request ''acme'' (Some ''ops'') ''report'')) (rq_params (settings_request ''acme'' (Some ''ops'') ''report''))
       = ''/v1/organizations/acme/spaces/ops/workflows/report''
     \<and> fst (snd (detail_step Save_settings p))
       = Some \<lparr>wu_displayName = ''Nightly'', wu_description = [], wu_enabled = False, wu_etag = Some ''7''\<rparr>"
proof -
  let ?w = "\<lparr>wr_displayName = None, wr_description = None, wr_enabled = None, wr_version = None, wr_etag = Some ''7''\<rparr>"
  let ?es = "[Fetched ?w, Open_tab Settings_tab, Type_name ''Nightly'']"
  let ?p = "fst (detail_run ?es detail_mount)" and ?segs = "scoped_segments ''workflows'' ''acme'' (Some ''ops'') ''report''"
  have wf: "wf_segments ?segs" by (simp add: wf_segments_def scoped_segments_def object_prototype_keys_def)
  have utf: "utf8 ''acme''" "pred_option utf8 (Some ''ops'')" "utf8 ''report''" by (simp_all add: utf8_ascii)
  have form: "dp_form ?p = Some \<lparr>sf_name = ''Nightly'', sf_text = [], sf_enabled = False, sf_pending = False, sf_error = None\<rparr>"
    by (simp add: detail_mount_def detail_step_def detail_render_def body_shown_def edit_form_def settings_mount_def)
  note all = settings_save_changes_its_workflow [OF sample_client_serializes utf wf refl, of ?es ?w None]
  have "list_all (list_all plain_char) (flat_pairs ?segs)" by (simp add: scoped_segments_def plain_char_def is_digit_def)
  from addresses_plain [OF all [THEN conjunct1, unfolded goes_to_def] this]
  have "sample_client (rq_path (settings_request ''acme'' (Some ''ops'') ''report'')) (rq_params (settings_request ''acme'' (Some ''ops'') ''report''))
      = ''/v1/organizations/acme/spaces/ops/workflows/report''" by (simp add: format_name_def scoped_segments_def)
  moreover have "fst (snd (detail_step Save_settings ?p))
      = Some \<lparr>wu_displayName = ''Nightly'', wu_description = [], wu_enabled = False, wu_etag = Some ''7''\<rparr>"
    using all [THEN conjunct2, THEN conjunct2, THEN conjunct2, THEN conjunct1] unfolding form by (auto simp: truthy_def)
  ultimately show ?thesis unfolding Let_def by blast
qed

text \<open>A save whose request is rejected never ends: the fields and the button stay disabled for good.\<close>

lemma rejected_save_hangs:
  assumes "dp_form p = Some form" and "sf_pending form"
  shows "dp_form (fst (detail_step (Save_ended n Save_rejected) p)) = Some form \<and> detail_step Save_settings p = (p, None, False)"
  using assms by (auto simp: detail_step_def save_ended_def save_settings_def settings_ended_def Let_def split: option.split)

text \<open>A change that someone else has made in between is overwritten under its own tag: the form keeps the old values, the tag is the new one.\<close>

lemma old_settings_with_new_tag:
  "snd (detail_run [Fetched (w\<lparr>wr_displayName := Some ''mine'', wr_etag := Some ''7''\<rparr>), Open_tab Settings_tab,
      Fetched (w\<lparr>wr_displayName := Some ''theirs'', wr_etag := Some ''8''\<rparr>), Save_settings] detail_mount)
   = [\<lparr>wu_displayName = ''mine'', wu_description = or_default (wr_description w) [], wu_enabled = or_default (wr_enabled w) False, wu_etag = Some ''8''\<rparr>]"
  by (simp add: detail_mount_def settings_mount_def detail_step_def detail_render_def body_shown_def save_settings_def settings_body_def truthy_def)

text \<open>
  A refetch that fails takes the form away with what was typed, and with the mark that its save is under
  way: the form that comes back shows the record again, and sends a second save beside the first.
\<close>

lemma failed_refetch_loses_edits:
  assumes "es = [Fetched w, Open_tab Settings_tab, Type_name ''mine'', Save_settings, Fetch_failed, Fetched w, Open_tab Settings_tab]"
  shows "dp_form (fst (detail_run es detail_mount)) = Some (settings_mount w)
    \<and> dp_saves (fst (detail_run (es @ [Save_settings]) detail_mount)) = [2, 1]
    \<and> map wu_displayName (snd (detail_run (es @ [Save_settings]) detail_mount)) = [''mine'', or_default (wr_displayName w) []]"
  unfolding assms
  by (simp add: detail_mount_def settings_mount_def detail_step_def detail_render_def body_shown_def edit_form_def save_settings_def
      settings_submit_def settings_body_def)

section \<open>The canvas loads its version\<close>

text \<open>The name of a version of a workflow.\<close>

definition version_segments :: "string \<Rightarrow> string option \<Rightarrow> string \<Rightarrow> string \<Rightarrow> segments" where
  "version_segments org sp ident v = scoped_segments ''workflows'' org sp ident @ [(''versions'', v)]"

text \<open>
  C36. The canvas loads the version it is given and refuses what it cannot load: for the name of a version of a
  workflow of an organization, with identifiers that are well-formed text, the hook takes it for a
  version name and its request is a GET whose path addresses exactly this name, with the identifiers
  percent-encoded by the client; for the name of a version of a workflow of a space it throws, and builds no request.
\<close>

theorem canvas_loads_its_version:
  assumes wf: "wf_segments (version_segments org sp ident v)" and n: "name = format_name (version_segments org sp ident v)"
    and ser: "path_serializer ser" and utf: "utf8 org" "utf8 ident" "utf8 v"
  shows "isVersionName name = Inr True
    \<and> (case sp of
        None \<Rightarrow> (\<exists>r. useWorkflowDefinition_query name = Inr r \<and> goes_to ser r (version_segments org sp ident v) \<and> rq_method r = GET)
      | Some s \<Rightarrow> \<exists>msg. useWorkflowDefinition_query name = Inl (Inr msg))"
proof -
  have parse: "parseResourceName name = Inr (version_segments org sp ident v)"
    unfolding n by (rule parseResourceName_complete [OF wf])
  have asVersion: "isVersionName name = Inr True"
    unfolding isVersionName_def parse by (cases sp) (simp_all add: version_segments_def scoped_segments_def)
  show ?thesis
  proof (cases sp)
    case None
    let ?params = "[(''organization'', org), (''workflow'', ident), (''version'', v)]"
    have "resourcePathParams name = Inr ?params"
      unfolding resourcePathParams_def parse None by (simp add: version_segments_def scoped_segments_def COLLECTION_TO_PARAM_def)
    then have q: "useWorkflowDefinition_query name = Inr \<lparr>rq_method = GET, rq_path = VERSION_ORG, rq_params = ?params, rq_query = [], rq_body = None\<rparr>"
      by (simp add: useWorkflowDefinition_query_def useWorkflowDefinition_guard_def isSpaceScoped_def parse None
          version_segments_def scoped_segments_def version_request_def or_default_def)
    have split: "split_on (CHR ''/'') VERSION_ORG = [[], ''v1'', ''organizations'', ''{organization}'', ''workflows'', ''{workflow}'', ''versions'', ''{version}'']"
      by code_simp
    have tmpl: "simple_template VERSION_ORG ?params" by (simp add: simple_template_def split plain_char_def is_digit_def)
    obtain enc where enc: "percent_coding enc" "ser VERSION_ORG ?params = join_with ''/'' (map (fill_segment enc ?params) (split_on (CHR ''/'') VERSION_ORG))"
      using ser tmpl unfolding path_serializer_def by blast
    have "ser VERSION_ORG ?params = join_with ''/'' ([[]] @ ''v1'' # coded_pairs enc (version_segments org sp ident v))"
      unfolding enc(2) split by (simp add: fill_segment_def version_segments_def scoped_segments_def None)
    moreover have "text_segments (version_segments org sp ident v)"
      using utf text_collections by (simp add: text_segments_def version_segments_def scoped_segments_def None plain_char_def is_digit_def)
    then have "addresses (join_with ''/'' ([[]] @ ''v1'' # coded_pairs enc (version_segments org sp ident v))) (version_segments org sp ident v)"
      by (rule coded_addresses [OF enc(1)]) (simp add: version_segments_def)
    ultimately show ?thesis using asVersion q None by (simp add: goes_to_def)
  next
    case (Some s)
    then show ?thesis using asVersion
      by (simp add: useWorkflowDefinition_query_def useWorkflowDefinition_guard_def isSpaceScoped_def parse
          version_segments_def scoped_segments_def)
  qed
qed

lemma canvas_loads_its_version_witness:
  "\<exists>r. useWorkflowDefinition_query ''organizations/acme/workflows/report/versions/3'' = Inr r
    \<and> sample_client (rq_path r) (rq_params r) = ''/v1/organizations/acme/workflows/report/versions/3''"
proof -
  let ?segs = "version_segments ''acme'' None ''report'' ''3''"
  have wf: "wf_segments ?segs" by (simp add: wf_segments_def version_segments_def scoped_segments_def object_prototype_keys_def)
  have utf: "utf8 ''acme''" "utf8 ''report''" "utf8 ''3''" by (simp_all add: utf8_ascii)
  obtain r where r: "useWorkflowDefinition_query (format_name ?segs) = Inr r" "goes_to sample_client r ?segs"
    using canvas_loads_its_version [OF wf refl sample_client_serializes utf] by auto
  have "list_all (list_all plain_char) (flat_pairs ?segs)"
    by (simp add: version_segments_def scoped_segments_def plain_char_def is_digit_def)
  from addresses_plain [OF r(2) [unfolded goes_to_def] this] r(1) show ?thesis
    by (simp add: format_name_def version_segments_def scoped_segments_def)
qed

end
