(* ===== verification/Chat_Turns.thy ===== *)
theory Chat_Turns
  imports Prelude
begin

text \<open>
  The chat state (\<^verbatim>\<open>packages/ui/src/chat/chat.hooks.ts\<close>): the conversation and the system instruction,
  the requests its transport prepares, and the capture of the conversation that the server has created.

  A setter of React queues its value; a commit makes the queued value the one that is rendered, and builds
  the transport from it; the effects after the commit copy it and the token getter to their references. The
  chat library is a parameter: it sends its messages, the new one last, through the transport of the last
  commit, and reports the end of a turn at any time.
\<close>

section \<open>State\<close>

text \<open>What the caller passes to the hook at a render; \<open>'t\<close> is the token getter.\<close>

record 't chat_options =
  co_parent :: string
  co_baseUrl :: "string option"
  co_getAuthToken :: "'t option"

record 't chat_state =
  ch_options :: "'t chat_options"
  ch_conversation :: "string option"
  ch_instruction :: "string option"
  ch_next_conversation :: "string option"
  ch_next_instruction :: "string option"
  ch_conversationRef :: "string option"
  ch_getAuthTokenRef :: "'t option"

definition chat_mount :: "'t chat_options \<Rightarrow> string option \<Rightarrow> string option \<Rightarrow> 't chat_state" where
  "chat_mount opts initialConversation initialInstruction =
     \<lparr>ch_options = opts, ch_conversation = initialConversation, ch_instruction = initialInstruction,
      ch_next_conversation = initialConversation, ch_next_instruction = initialInstruction,
      ch_conversationRef = initialConversation, ch_getAuthTokenRef = co_getAuthToken opts\<rparr>"

section \<open>Requests\<close>

record ('m, 't) chat_request =
  cr_api :: string
  cr_auth :: "'t option"
  cr_messages :: "'m list"
  cr_conversation :: "string option"
  cr_instruction :: "string option"

text \<open>\<open>messages.slice(-1)\<close>.\<close>

definition slice_last :: "'m list \<Rightarrow> 'm list" where
  "slice_last ms = (case ms of [] \<Rightarrow> [] | _ \<Rightarrow> [last ms])"

definition chat_api :: "'t chat_options \<Rightarrow> string" where
  "chat_api opts = or_default (co_baseUrl opts) [] @ ''/v1/'' @ co_parent opts @ '':streamGenerateContent''"

definition prepareSendMessagesRequest :: "'m list \<Rightarrow> 't chat_state \<Rightarrow> ('m, 't) chat_request" where
  "prepareSendMessagesRequest messages c =
     \<lparr>cr_api = chat_api (ch_options c), cr_auth = ch_getAuthTokenRef c,
      cr_messages = (if truthy (ch_conversation c) then slice_last messages else messages),
      cr_conversation = ch_conversation c, cr_instruction = ch_instruction c\<rparr>"

section \<open>Events\<close>

datatype ('m, 't) chat_event =
  Rendered "'t chat_options"
| Commit
| Effects
| Set_conversation "string option"
| Set_instruction "string option"
| Send "'m list"
| Finished "string option"

text \<open>\<open>onFinish\<close>: the conversation of the message's metadata, unless there is one already.\<close>

definition onFinish :: "string option \<Rightarrow> 't chat_state \<Rightarrow> 't chat_state" where
  "onFinish next c =
     (if truthy (ch_conversationRef c) then c
      else if truthy next then c\<lparr>ch_next_conversation := next\<rparr> else c)"

text \<open>A render with other options takes effect with its commit, like a queued value.\<close>

definition chat_step :: "('m, 't) chat_event \<Rightarrow> 't chat_state \<Rightarrow> 't chat_state \<times> ('m, 't) chat_request option" where
  "chat_step e c =
     (case e of
        Rendered opts \<Rightarrow> (c\<lparr>ch_options := opts, ch_conversation := ch_next_conversation c, ch_instruction := ch_next_instruction c\<rparr>, None)
      | Commit \<Rightarrow> (c\<lparr>ch_conversation := ch_next_conversation c, ch_instruction := ch_next_instruction c\<rparr>, None)
      | Effects \<Rightarrow> (c\<lparr>ch_conversationRef := ch_conversation c, ch_getAuthTokenRef := co_getAuthToken (ch_options c)\<rparr>, None)
      | Set_conversation v \<Rightarrow> (c\<lparr>ch_next_conversation := v\<rparr>, None)
      | Set_instruction v \<Rightarrow> (c\<lparr>ch_next_instruction := v\<rparr>, None)
      | Send messages \<Rightarrow> (c, Some (prepareSendMessagesRequest messages c))
      | Finished next \<Rightarrow> (onFinish next c, None))"

fun chat_run :: "('m, 't) chat_event list \<Rightarrow> 't chat_state \<Rightarrow> 't chat_state \<times> ('m, 't) chat_request list" where
  "chat_run [] c = (c, [])"
| "chat_run (e # es) c =
     (case chat_step e c of (c1, out) \<Rightarrow>
        case chat_run es c1 of (c2, outs) \<Rightarrow> (c2, (case out of None \<Rightarrow> [] | Some r \<Rightarrow> [r]) @ outs))"

section \<open>A conversation is captured once\<close>

text \<open>The chat is attached to a conversation: it is queued, rendered and in the reference.\<close>

definition attached :: "string \<Rightarrow> 't chat_state \<Rightarrow> bool" where
  "attached v c \<longleftrightarrow> ch_next_conversation c = Some v \<and> ch_conversation c = Some v \<and> ch_conversationRef c = Some v"

definition sets_conversation :: "('m, 't) chat_event \<Rightarrow> bool" where
  "sets_conversation e = (case e of Set_conversation v \<Rightarrow> True | _ \<Rightarrow> False)"

lemma attached_step:
  "attached v c \<Longrightarrow> v \<noteq> [] \<Longrightarrow> \<not> sets_conversation e \<Longrightarrow> attached v (fst (chat_step e c))"
  by (cases e) (simp_all add: attached_def chat_step_def onFinish_def sets_conversation_def truthy_def)

text \<open>The messages of the sends, in their order.\<close>

fun sent_messages :: "('m, 't) chat_event list \<Rightarrow> 'm list list" where
  "sent_messages [] = []"
| "sent_messages (Send ms # es) = ms # sent_messages es"
| "sent_messages (_ # es) = sent_messages es"

lemma attached_run:
  assumes "attached v c" "v \<noteq> []" "\<forall>e \<in> set es. \<not> sets_conversation e"
  shows "attached v (fst (chat_run es c))
    \<and> map (\<lambda>r. (cr_conversation r, cr_messages r)) (snd (chat_run es c)) = map (\<lambda>ms. (Some v, slice_last ms)) (sent_messages es)"
  using assms
proof (induction es arbitrary: c)
  case (Cons e es)
  obtain c1 out where s: "chat_step e c = (c1, out)" by (cases "chat_step e c")
  have "attached v c1" using attached_step [of v c e] Cons.prems s by simp
  then have IH: "attached v (fst (chat_run es c1))
    \<and> map (\<lambda>r. (cr_conversation r, cr_messages r)) (snd (chat_run es c1)) = map (\<lambda>ms. (Some v, slice_last ms)) (sent_messages es)"
    using Cons.IH [of c1] Cons.prems by simp
  have "map (\<lambda>r. (cr_conversation r, cr_messages r)) (case out of None \<Rightarrow> [] | Some r \<Rightarrow> [r]) @ map (\<lambda>ms. (Some v, slice_last ms)) (sent_messages es)
      = map (\<lambda>ms. (Some v, slice_last ms)) (sent_messages (e # es))"
    using s Cons.prems(1,2) by (cases e) (auto simp: chat_step_def prepareSendMessagesRequest_def attached_def truthy_def)
  with IH show ?case by (simp add: s split_def)
qed simp

text \<open>
  C37. The conversation of the first turn is kept: when a turn ends in a chat without a conversation and names the
  conversation that the server has created, then from the next render and its effects on, whatever is
  rendered, sent or finished, every request of the chat carries exactly this conversation and only the
  newest message, until the conversation is set by hand; before, a request carries none and every message.
\<close>

theorem first_conversation_is_kept:
  assumes start: "ch_conversationRef c = None" "ch_conversation c = None" and v: "v \<noteq> []"
    and later: "\<forall>e \<in> set es. \<not> sets_conversation e"
  shows "snd (chat_run (Send ms # Finished (Some v) # Commit # Effects # es) c)
      = prepareSendMessagesRequest ms c # snd (chat_run es (fst (chat_run [Finished (Some v), Commit, Effects] c)))
    \<and> cr_conversation (prepareSendMessagesRequest ms c) = None \<and> cr_messages (prepareSendMessagesRequest ms c) = ms
    \<and> map (\<lambda>r. (cr_conversation r, cr_messages r)) (snd (chat_run es (fst (chat_run [Finished (Some v), Commit, Effects] c))))
        = map (\<lambda>ms. (Some v, slice_last ms)) (sent_messages es)"
proof -
  have "attached v (fst (chat_run [Finished (Some v), Commit, Effects] c))"
    using start v by (simp add: attached_def chat_step_def onFinish_def truthy_def)
  from attached_run [OF this v later] show ?thesis
    using start by (simp add: chat_step_def prepareSendMessagesRequest_def split_def truthy_def)
qed

text \<open>The witness: a turn, its conversation, and a second turn.\<close>

lemma first_conversation_is_kept_witness:
  "map cr_messages (snd (chat_run [Send [''hello''], Finished (Some ''conversations/1''), Commit, Effects, Send [''hello'', ''hi'', ''more'']]
     (chat_mount \<lparr>co_parent = ''organizations/acme/users/ada'', co_baseUrl = None, co_getAuthToken = (None :: unit option)\<rparr> None None)))
   = [[''hello''], [''more'']]"
proof -
  let ?c = "chat_mount \<lparr>co_parent = ''organizations/acme/users/ada'', co_baseUrl = None, co_getAuthToken = (None :: unit option)\<rparr> None None"
  have "ch_conversationRef ?c = None" "ch_conversation ?c = None" "''conversations/1'' \<noteq> []"
    "\<forall>e \<in> set [Send [''hello'', ''hi'', ''more''] :: (string, unit) chat_event]. \<not> sets_conversation e"
    by (simp_all add: chat_mount_def sets_conversation_def)
  note k = first_conversation_is_kept [OF this, of "[''hello'']"]
  have rest: "map cr_messages (snd (chat_run [Send [''hello'', ''hi'', ''more'']] (fst (chat_run [Finished (Some ''conversations/1''), Commit, Effects] ?c))))
      = [[''more'']]"
    using arg_cong [OF conjunct2 [OF conjunct2 [OF conjunct2 [OF k]]], of "map snd"]
    unfolding list.map_comp comp_def snd_conv by (simp only: sent_messages.simps list.map slice_last_def list.case last.simps if_False list.distinct if_True simp_thms)
  show ?thesis
    by (subst conjunct1 [OF k]) (simp only: list.map rest conjunct1 [OF conjunct2 [OF conjunct2 [OF k]]])
qed

text \<open>
  The conversation outlives a change of the parent: the next request goes to the address of the new parent and
  carries the conversation of the old one.
\<close>

lemma parent_changes_conversation_stays:
  "ch_next_conversation c = Some v \<Longrightarrow>
     snd (chat_run [Rendered (co\<lparr>co_parent := p\<rparr>), Effects, Send ms] c)
     = [\<lparr>cr_api = or_default (co_baseUrl co) [] @ ''/v1/'' @ p @ '':streamGenerateContent'', cr_auth = co_getAuthToken co,
         cr_messages = (if v = [] then ms else slice_last ms), cr_conversation = Some v, cr_instruction = ch_next_instruction c\<rparr>]"
  by (simp add: chat_step_def prepareSendMessagesRequest_def chat_api_def truthy_def)

text \<open>A conversation that is cleared while a turn is under way comes back when the turn ends.\<close>

lemma cleared_conversation_comes_back:
  "v \<noteq> [] \<Longrightarrow> ch_conversation (fst (chat_run [Set_conversation None, Commit, Effects, Finished (Some v), Commit] c)) = Some v"
  by (simp add: chat_step_def onFinish_def truthy_def)

end
