(* ===== verification/Spec2Isabelle.thy ===== *)
theory Spec2Isabelle
  imports Resource_Names Step_Ids Ast_Graph Graph_Layout Storage_Tabs Storage_Boot List_Controls Editor_Hooks Resource_Admin Navigation Oidc_Session
    Desktop_Login Desktop_Windows Bff_Routes Server_Prefetch Create_Org App_Shell Form_Pages Account_Console Shared_Start Workflow_Detail Chat_Turns
begin

text \<open>
  The TypeScript front end of Pivox (\<^verbatim>\<open>src/web\<close>): a web application with its own server, a desktop
  program, an account console, and the packages they share. The paths below are under \<^verbatim>\<open>src/web\<close>.

  \<^bold>\<open>The program.\<close> The web application (\<^verbatim>\<open>apps/start\<close>) is rendered by a server that holds the
  tokens of the identity provider: a browser has a session cookie only, the server signs in, refreshes
  and revokes, and its proxy puts the access token on the requests for the API. The desktop program
  (\<^verbatim>\<open>apps/electron\<close>) keeps the tokens in an encrypted file of its main process and tells its windows who
  is signed in. Both show the same features (\<^verbatim>\<open>packages/features\<close>, \<^verbatim>\<open>packages/ui\<close>): lists and
  forms of connectors, secrets and workflows, a canvas of workflow definitions, an image editor, a chat;
  and both use the storage package for what is kept in the browser. The account console talks to the
  identity provider alone.

  \<^bold>\<open>Theories and sources.\<close>

  \<^item> \<open>Prelude\<close>: generic definitions of the source language (\<open>??\<close>, truthiness, \<open>split\<close>,
    \<open>trim\<close>, association lists, results) with their lemmas, and the named collections.
  \<^item> \<open>Resource_Names\<close> (\<^verbatim>\<open>packages/client/src/resource.ts\<close>, the \<open>-shared\<close> helpers): the parser
    of resource names is exactly the inverse of writing them; path parameters and labels read their segment.
  \<^item> \<open>Step_Ids\<close>, \<open>Ast_Graph\<close>, \<open>Graph_Layout\<close>, \<open>Workflow_Detail\<close> (\<^verbatim>\<open>packages/features/src/workflows\<close>,
    \<^verbatim>\<open>apps/start/src/features/workflows\<close>): the ids of steps, the graph of a syntax tree (covers the tree,
    well formed), the layout around the elk engine, and the detail page with its settings form.
  \<^item> \<open>Uri_Coding\<close>, \<open>Storage\<close>, \<open>Storage_Tabs\<close>, \<open>Storage_Boot\<close> (\<^verbatim>\<open>packages/storage\<close>): the
    operations refine a map of items; several tabs with messages in flight converge; what the boot script does.
  \<^item> \<open>List_Controls\<close>, \<open>Resource_Requests\<close>, \<open>Resource_Admin\<close>, \<open>Form_Values\<close>,
    \<open>Form_Pages\<close>, \<open>Create_Org\<close>, \<open>App_Shell\<close>, \<open>Chat_Turns\<close> (\<^verbatim>\<open>packages/ui\<close>,
    \<^verbatim>\<open>packages/features\<close>, the routed pages of \<^verbatim>\<open>apps/start\<close>): controls of lists, requests, hooks of lists
    and forms, the values and the pages of the forms, onboarding, the shell and the chat.
  \<^item> \<open>Js_Number\<close>, \<open>Crop_Math\<close>, \<open>Editor_Engine\<close>, \<open>Editor_Safety\<close>, \<open>Editor_Render\<close>,
    \<open>Editor_Hooks\<close> (\<^verbatim>\<open>packages/image-editor\<close>, \<^verbatim>\<open>packages/ui/src/image-editor\<close>): the geometry, the
    engine with its history, what is drawn, and the React hooks.
  \<^item> \<open>Web_Url\<close>, \<open>Url_Params\<close>, \<open>Navigation\<close> (\<^verbatim>\<open>apps/start/src/lib\<close>): the parser of addresses of
    the platform for http(s) bases, return paths, the list state in the address.
  \<^item> \<open>Oidc_Session\<close>, \<open>Shared_Start\<close>, \<open>Bff\<close>, \<open>Bff_Routes\<close>, \<open>Server_Prefetch\<close>
    (\<^verbatim>\<open>apps/start/src/server\<close>, \<^verbatim>\<open>apps/start/src/routes\<close>, \<^verbatim>\<open>packages/oidc\<close>): the session table and the
    refreshes, the shared start-up work, the handlers of the server, and what it fetches before a page is sent.
  \<^item> \<open>Json_Text\<close>, \<open>Desktop_Session\<close>, \<open>Desktop_Login\<close>, \<open>Desktop_Windows\<close> (\<^verbatim>\<open>apps/electron\<close>):
    the token file and its engine, the login and the navigation guard, and the windows beside the main process.
  \<^item> \<open>Account_Console\<close> (\<^verbatim>\<open>apps/account-console\<close>): the profile form, its errors, the devices, the requests.

  \<^bold>\<open>How the model reads.\<close> A component has its state as a record and one definition per operation of
  the code, with its guards and early returns. What the code throws is \<open>Inl\<close> or \<open>None\<close>. Code that
  awaits is cut at its awaits: the state holds what is under way, an event is an answer or an act of the
  user, and the theorems quantify over all sequences of events, so that answers come in any order or not
  at all. Strings are the UTF-8 bytes of the program's strings; objects used as dictionaries are
  association lists in insertion order. JavaScript lists keys that look like array indices before the
  others; that order is not modelled. Numbers of the layout are rationals and those of the editor exact
  reals with infinities and NaN (\<open>Js_Number\<close>): rounding is not modelled, and the theorems about them hold
  for exact arithmetic. Libraries, the browser and the other programs are parameters (the elk engine,
  the ciphers, the reader of hosts, translations, the caches of the query library, who answers what); where
  a theorem relies on them the documented behaviour is a named hypothesis, and a witness gives an instance
  that has it.

  \<^bold>\<open>Bounds and fuel.\<close> The JSON reader of \<open>Json_Text\<close> runs on fuel and is given one unit more than the
  text has bytes, which is enough because every call consumes a byte. The shell of \<open>App_Shell\<close> settles
  after two passes of its effects. All other loops are structural or have a termination proof.

  \<^bold>\<open>Interfaces.\<close> \<open>item_route\<close> and \<open>resource_values\<close> state once what the requests and the form values of a
  resource promise, and are interpreted on connectors, secrets and workflows; the other locales are
  interpreted in the theory that provides the operations, and the properties rest on their facts.

  \<^bold>\<open>What is shown.\<close> Each theorem that follows a numbered text states a property of its component: for the
  sessions, that a replaced refresh token is never presented again, by the server or by the desktop program,
  unless the set that replaced it was lost on its way, that a revoked session stays revoked, and that a login leads back to where it began with its own session;
  for the proxy, that it stays below its API and speaks for the session; for the storage, refinement and
  convergence; for the workflows, that the graph covers the tree; for the editor, that the edits stay
  within the bounds in which the image fills its window along each axis, and undo and redo are inverse; for pages and forms, that what the server primes is what the page
  reads, that a dirty form is not left silently, and that one valid save runs at a time.
  Other lemmas named in the findings show where the code does something else than it means to.

  \<^bold>\<open>Not modelled.\<close> The backend and the native programs (other languages); generated types and routes;
  the vendored primitives; markup, styles and texts; the query library, the router and React beyond the
  behaviour named in the theories; the identity provider and its theme; tracing; the build. Timing
  is modelled by order only. They are inputs of the model or have no state of their own.
\<close>

end
